(* ===== verification/Prelude.thy ===== *)
theory Prelude
  imports Main "HOL-Library.Word" "HOL-Library.Sublist"
begin

unbundle bit_operations_syntax

text \<open>
  Shared vocabulary of the development: the faults a C statement can raise, the
  state-passing program type with its combinators and its partial-correctness
  rules, byte buffers with bounds-checked access, and the lemmas on words and lists
  that several components need.
\<close>

section \<open>Machine types\<close>

type_synonym byte = "8 word"
type_synonym u16 = "16 word"
type_synonym u32 = "32 word"
type_synonym u64 = "64 word"

text \<open>C's implicit conversions between \<open>int\<close> and \<open>uint32_t\<close>.\<close>

definition int_of_u32 :: "u32 \<Rightarrow> int" where
  "int_of_u32 x = sint x"

definition u32_of_int :: "int \<Rightarrow> u32" where
  "u32_of_int x = word_of_int x"

definition INT_MAX :: int where
  "INT_MAX = 2147483647"

section \<open>Parser results\<close>

text \<open>
  What parsing received data comes to: a value, a NULL result, or a copy that reads past the end of the
  data (\<open>Overrun\<close>: the C code then goes on with memory that is not the message's).
\<close>

datatype 'a parsed = Parsed 'a | Rejected | Overrun

fun and_then :: "'a parsed \<Rightarrow> ('a \<Rightarrow> 'b parsed) \<Rightarrow> 'b parsed" where
  "and_then (Parsed x) f = f x"
| "and_then Rejected f = Rejected"
| "and_then Overrun f = Overrun"

lemma and_then_cong [fundef_cong]:
  "p = q \<Longrightarrow> (\<And>x. q = Parsed x \<Longrightarrow> f x = g x) \<Longrightarrow> and_then p f = and_then q g"
  by (cases q) simp_all

section \<open>Faults and programs\<close>

text \<open>
  A statement of the C code either finishes in a new state or hits one of these: undefined
  behaviour (the first five), an explicit \<open>abort\<close> or \<open>exit\<close>, or (in the model
  only) an exhausted recursion budget and a loop over a list that grew meanwhile.
\<close>

datatype fault =
    UseAfterFree
  | NullDeref
  | OutOfBounds
  | ListCorrupt
  | Uninitialised
  | Assertion
  | Fatal
  | OutOfFuel
  | BeyondModel

type_synonym ('w, 'a) prog = "'w \<Rightarrow> fault + 'a \<times> 'w"

named_theorems prog_simps \<open>evaluation rules for the program combinators\<close>
named_theorems keeps_intros \<open>rules that a program keeps a predicate\<close>

definition ret :: "'a \<Rightarrow> ('w, 'a) prog" where
  "ret x = (\<lambda>w. Inr (x, w))"

definition fail :: "fault \<Rightarrow> ('w, 'a) prog" where
  "fail e = (\<lambda>w. Inl e)"

definition bnd :: "('w, 'a) prog \<Rightarrow> ('a \<Rightarrow> ('w, 'b) prog) \<Rightarrow> ('w, 'b) prog" where
  "bnd m f = (\<lambda>w. case m w of Inl e \<Rightarrow> Inl e | Inr (x, w') \<Rightarrow> f x w')"

definition gets :: "('w \<Rightarrow> 'a) \<Rightarrow> ('w, 'a) prog" where
  "gets f = (\<lambda>w. Inr (f w, w))"

definition modify :: "('w \<Rightarrow> 'w) \<Rightarrow> ('w, unit) prog" where
  "modify f = (\<lambda>w. Inr ((), f w))"

text \<open>Evaluate a partial read of the state; a missing value is the given fault.\<close>

definition gets_the :: "fault \<Rightarrow> ('w \<Rightarrow> 'a option) \<Rightarrow> ('w, 'a) prog" where
  "gets_the e f = (\<lambda>w. case f w of None \<Rightarrow> Inl e | Some x \<Rightarrow> Inr (x, w))"

text \<open>A block of statements, one after the other.\<close>

fun block :: "('w, unit) prog list \<Rightarrow> ('w, unit) prog" where
  "block [] = ret ()"
| "block [s] = s"
| "block (s # ss) = bnd s (\<lambda>_. block ss)"

definition guarded :: "bool \<Rightarrow> ('w, unit) prog \<Rightarrow> ('w, unit) prog" where
  "guarded b s = (if b then s else ret ())"

text \<open>A loop over the elements of a fixed list.\<close>

fun for_each :: "'x list \<Rightarrow> ('x \<Rightarrow> ('w, unit) prog) \<Rightarrow> ('w, unit) prog" where
  "for_each [] body = ret ()"
| "for_each (x # xs) body = bnd (body x) (\<lambda>_. for_each xs body)"

lemma ret_app [prog_simps]: "ret x w = Inr (x, w)"
  by (simp add: ret_def)

lemma fail_app [prog_simps]: "fail e w = Inl e"
  by (simp add: fail_def)

lemma gets_app [prog_simps]: "gets f w = Inr (f w, w)"
  by (simp add: gets_def)

lemma modify_app [prog_simps]: "modify f w = Inr ((), f w)"
  by (simp add: modify_def)

lemma gets_the_app [prog_simps]:
  "gets_the e f w = (case f w of None \<Rightarrow> Inl e | Some x \<Rightarrow> Inr (x, w))"
  by (simp add: gets_the_def)

lemma bnd_Inr [prog_simps]: "m w = Inr (x, w') \<Longrightarrow> bnd m f w = f x w'"
  by (simp add: bnd_def)

lemma bnd_Inl [prog_simps]: "m w = Inl e \<Longrightarrow> bnd m f w = Inl e"
  by (simp add: bnd_def)

lemma guarded_app [prog_simps]: "guarded b s w = (if b then s w else Inr ((), w))"
  by (simp add: guarded_def ret_def)

lemma if_prog_app [prog_simps]: "(if b then m else n) w = (if b then m w else n w)"
  by simp

lemma bnd_ret [simp]: "bnd (ret x) f = f x"
  by (simp add: bnd_def ret_def)

lemma bnd_fail [simp]: "bnd (fail e) f = fail e"
  by (simp add: bnd_def fail_def)

lemma bnd_gets [simp]: "bnd (gets g) f w = f (g w) w"
  by (simp add: bnd_def gets_def)

lemma bnd_modify [simp]: "bnd (modify g) f w = f () (g w)"
  by (simp add: bnd_def modify_def)

lemma bnd_assoc: "bnd (bnd m f) g = bnd m (\<lambda>x. bnd (f x) g)"
  by (rule ext) (simp add: bnd_def split: sum.split prod.split)

lemma bnd_eq_Inr:
  "bnd m f w = Inr r \<longleftrightarrow> (\<exists>x w1. m w = Inr (x, w1) \<and> f x w1 = Inr r)"
  by (auto simp: bnd_def split: sum.splits)

lemma bndE:
  assumes "bnd m f w = Inr (y, w')"
  obtains x w1 where "m w = Inr (x, w1)" and "f x w1 = Inr (y, w')"
  using assms unfolding bnd_eq_Inr by blast

lemma bnd_eq_Inl:
  "bnd m f w = Inl e \<longleftrightarrow> m w = Inl e \<or> (\<exists>x w1. m w = Inr (x, w1) \<and> f x w1 = Inl e)"
  by (auto simp: bnd_def split: sum.splits)

lemma block_Cons: "ss \<noteq> [] \<Longrightarrow> block (s # ss) = bnd s (\<lambda>_. block ss)"
  by (cases ss) simp_all

subsection \<open>What a program keeps\<close>

text \<open>
  \<open>keeps I m\<close>: whenever \<open>m\<close> finishes without a fault from a state where \<open>I\<close> holds,
  \<open>I\<close> holds again. \<open>triple P m Q\<close> is the general form with a result.
\<close>

definition triple :: "('w \<Rightarrow> bool) \<Rightarrow> ('w, 'a) prog \<Rightarrow> ('a \<Rightarrow> 'w \<Rightarrow> bool) \<Rightarrow> bool" where
  "triple P m Q \<longleftrightarrow> (\<forall>w x w'. P w \<longrightarrow> m w = Inr (x, w') \<longrightarrow> Q x w')"

definition keeps :: "('w \<Rightarrow> bool) \<Rightarrow> ('w, 'a) prog \<Rightarrow> bool" where
  "keeps I m \<longleftrightarrow> triple I m (\<lambda>_. I)"

lemma tripleI: "(\<And>w x w'. P w \<Longrightarrow> m w = Inr (x, w') \<Longrightarrow> Q x w') \<Longrightarrow> triple P m Q"
  by (simp add: triple_def)

lemma tripleD: "triple P m Q \<Longrightarrow> P w \<Longrightarrow> m w = Inr (x, w') \<Longrightarrow> Q x w'"
  by (simp add: triple_def)

lemma keepsI: "(\<And>w x w'. I w \<Longrightarrow> m w = Inr (x, w') \<Longrightarrow> I w') \<Longrightarrow> keeps I m"
  by (simp add: keeps_def triple_def)

lemma keepsD: "keeps I m \<Longrightarrow> m w = Inr (x, w') \<Longrightarrow> I w \<Longrightarrow> I w'"
  by (simp add: keeps_def triple_def)

lemma keeps_ret [keeps_intros]: "keeps I (ret x)"
  by (rule keepsI) (simp add: ret_def)

lemma keeps_fail [keeps_intros]: "keeps I (fail e)"
  by (rule keepsI) (simp add: fail_def)

lemma keeps_gets [keeps_intros]: "keeps I (gets f)"
  by (rule keepsI) (simp add: gets_def)

lemma keeps_gets_the [keeps_intros]: "keeps I (gets_the e f)"
  by (rule keepsI) (simp add: gets_the_def split: option.splits)

lemma keeps_modify: "(\<And>w. I w \<Longrightarrow> I (f w)) \<Longrightarrow> keeps I (modify f)"
  by (rule keepsI) (auto simp: modify_def)

lemma keeps_bnd [keeps_intros]:
  "keeps I m \<Longrightarrow> (\<And>x. keeps I (f x)) \<Longrightarrow> keeps I (bnd m f)"
  by (rule keepsI) (auto simp: bnd_eq_Inr dest: keepsD)

text \<open>A program that first looks at the state it starts in.\<close>

lemma keeps_self: "(\<And>v. keeps I (m v)) \<Longrightarrow> keeps I (\<lambda>w. m w w)"
  by (rule keepsI) (rule keepsD)

lemma keeps_guarded [keeps_intros]: "(b \<Longrightarrow> keeps I s) \<Longrightarrow> keeps I (guarded b s)"
  by (simp add: guarded_def keeps_ret)

lemma keeps_if [keeps_intros]:
  "(b \<Longrightarrow> keeps I m) \<Longrightarrow> (\<not> b \<Longrightarrow> keeps I n) \<Longrightarrow> keeps I (if b then m else n)"
  by simp

lemma keeps_option [keeps_intros]:
  "(x = None \<Longrightarrow> keeps I m) \<Longrightarrow> (\<And>y. x = Some y \<Longrightarrow> keeps I (f y)) \<Longrightarrow>
   keeps I (case x of None \<Rightarrow> m | Some y \<Rightarrow> f y)"
  by (simp split: option.split)

lemma keeps_parsed [keeps_intros]:
  "(\<And>x. p = Parsed x \<Longrightarrow> keeps I (f x)) \<Longrightarrow> keeps I m \<Longrightarrow> keeps I n \<Longrightarrow>
   keeps I (case p of Parsed x \<Rightarrow> f x | Rejected \<Rightarrow> m | Overrun \<Rightarrow> n)"
  by (cases p) simp_all

lemma keeps_for_each [keeps_intros]: "(\<And>x. keeps I (body x)) \<Longrightarrow> keeps I (for_each xs body)"
  by (induction xs) (simp_all add: keeps_ret keeps_bnd)

lemma keeps_block: "(\<And>s. s \<in> set ss \<Longrightarrow> keeps I s) \<Longrightarrow> keeps I (block ss)"
  by (induction ss rule: block.induct) (simp_all add: keeps_ret keeps_bnd)

lemma keeps_block_Nil [keeps_intros]: "keeps I (block [])"
  by (simp add: keeps_ret)

lemma keeps_block_Cons [keeps_intros]:
  "keeps I s \<Longrightarrow> keeps I (block ss) \<Longrightarrow> keeps I (block (s # ss))"
  by (cases ss) (simp_all add: keeps_bnd)

text \<open>A program that only looks: it changes nothing.\<close>

named_theorems reads_intros \<open>rules that a program changes nothing\<close>

definition reads :: "('w, 'a) prog \<Rightarrow> bool" where
  "reads m \<longleftrightarrow> (\<forall>w x w'. m w = Inr (x, w') \<longrightarrow> w' = w)"

lemma readsD: "reads m \<Longrightarrow> m w = Inr (x, w') \<Longrightarrow> w' = w"
  by (simp add: reads_def)

lemma readsI: "(\<And>w x w'. m w = Inr (x, w') \<Longrightarrow> w' = w) \<Longrightarrow> reads m"
  by (simp add: reads_def)

lemma reads_keeps: "reads m \<Longrightarrow> keeps I m"
  by (rule keepsI) (blast dest: readsD)

lemma reads_ret [reads_intros]: "reads (ret x)"
  by (simp add: reads_def ret_def)

lemma reads_fail [reads_intros]: "reads (fail e)"
  by (simp add: reads_def fail_def)

lemma reads_gets [reads_intros]: "reads (gets f)"
  by (simp add: reads_def gets_def)

lemma reads_gets_the [reads_intros]: "reads (gets_the e f)"
  by (simp add: reads_def gets_the_def split: option.split)

lemma reads_bnd [reads_intros]: "reads m \<Longrightarrow> (\<And>x. reads (f x)) \<Longrightarrow> reads (bnd m f)"
  by (rule readsI) (auto simp: bnd_eq_Inr dest: readsD)

lemma reads_if [reads_intros]: "(b \<Longrightarrow> reads m) \<Longrightarrow> (\<not> b \<Longrightarrow> reads n) \<Longrightarrow> reads (if b then m else n)"
  by simp

lemma reads_guarded [reads_intros]: "(b \<Longrightarrow> reads m) \<Longrightarrow> reads (guarded b m)"
  by (simp add: guarded_def reads_ret)

lemma reads_option [reads_intros]:
  "reads m \<Longrightarrow> (\<And>y. reads (f y)) \<Longrightarrow> reads (case x of None \<Rightarrow> m | Some y \<Rightarrow> f y)"
  by (simp split: option.split)

lemma bnd_readsE:
  assumes "bnd m f w = Inr (y, w')" and "reads m"
  obtains x where "m w = Inr (x, w)" and "f x w = Inr (y, w')"
  using assms by (metis bndE readsD)

section \<open>Byte buffers\<close>

text \<open>Overwrite a range of a buffer (\<open>memcpy\<close> or \<open>memset\<close> into the middle of an array).\<close>

definition overwrite :: "'a list \<Rightarrow> nat \<Rightarrow> 'a list \<Rightarrow> 'a list" where
  "overwrite xs i ys = take i xs @ ys @ drop (i + length ys) xs"

lemma length_overwrite [simp]: "i + length ys \<le> length xs \<Longrightarrow> length (overwrite xs i ys) = length xs"
  by (simp add: overwrite_def)

lemma take_overwrite: "i + length ys \<le> length xs \<Longrightarrow> take (i + length ys) (overwrite xs i ys) = take i xs @ ys"
  by (simp add: overwrite_def)

lemma take_overwrite_le: "j \<le> i \<Longrightarrow> i \<le> length xs \<Longrightarrow> take j (overwrite xs i ys) = take j xs"
  by (simp add: overwrite_def min_def)

lemma overwrite_Nil [simp]: "overwrite xs i [] = xs"
  by (simp add: overwrite_def)

lemma overwrite_single: "i < length xs \<Longrightarrow> overwrite xs i [y] = xs[i := y]"
  by (simp add: overwrite_def upd_conv_take_nth_drop)

lemma overwrite_overwrite:
  "i + length ys + length zs \<le> length xs \<Longrightarrow>
   overwrite (overwrite xs i ys) (i + length ys) zs = overwrite xs i (ys @ zs)"
  by (simp add: overwrite_def ac_simps)

section \<open>Words\<close>

lemma bit_less_2p:
  fixes w :: "'a::len word"
  assumes "w < 2 ^ k" and "k < LENGTH('a)" and "bit w n"
  shows "n < k"
proof -
  from assms(1,2) have "uint w < 2 ^ k"
    by (simp add: word_2p_lem [symmetric] word_size)
  then have "take_bit k w = w"
    by (simp add: word_uint_eq_iff unsigned_take_bit_eq take_bit_int_eq_self)
  with assms(3) show ?thesis by (metis bit_take_bit_iff)
qed

section \<open>Big-endian bytes of a 64-bit word\<close>

text \<open>The lowest \<open>k\<close> bytes of a number, most significant first.\<close>

fun be_bytes :: "nat \<Rightarrow> u64 \<Rightarrow> byte list" where
  "be_bytes 0 i = []"
| "be_bytes (Suc k) i = ucast (drop_bit (8 * k) i) # be_bytes k i"

lemma length_be_bytes [simp]: "length (be_bytes k i) = k"
  by (induction k) auto

lemma be_bytes_conv: "be_bytes k i = map (\<lambda>j. ucast (drop_bit (8 * j) i)) (rev [0..<k])"
  by (induction k) auto

lemma be_bytes_numeral:
  "be_bytes 1 i = [ucast i]"
  "be_bytes 2 i = [ucast (drop_bit 8 i), ucast i]"
  "be_bytes 3 i = [ucast (drop_bit 16 i), ucast (drop_bit 8 i), ucast i]"
  "be_bytes 4 i = [ucast (drop_bit 24 i), ucast (drop_bit 16 i), ucast (drop_bit 8 i), ucast i]"
  "be_bytes 8 i = [ucast (drop_bit 56 i), ucast (drop_bit 48 i), ucast (drop_bit 40 i),
     ucast (drop_bit 32 i), ucast (drop_bit 24 i), ucast (drop_bit 16 i), ucast (drop_bit 8 i), ucast i]"
  by (simp_all add: be_bytes_conv upt_rec)

lemma be_step: "push_bit 8 (drop_bit (8 * Suc k) i) OR ucast (ucast (drop_bit (8 * k) i) :: byte) = drop_bit (8 * k) (i :: u64)"
  by (rule bit_word_eqI) (auto simp: bit_simps dest: bit_imp_le_length)

definition load_be :: "byte list \<Rightarrow> u64" where
  "load_be bs = foldl (\<lambda>acc b. push_bit 8 acc OR ucast b) 0 bs"

lemma foldl_be_bytes:
  "foldl (\<lambda>acc b. push_bit 8 acc OR ucast b) (drop_bit (8 * k) i) (be_bytes k i) = i"
proof (induction k)
  case 0
  then show ?case by simp
next
  case (Suc k)
  then show ?case by (simp add: be_step del: mult_Suc_right)
qed

lemma load_be_bytes: "load_be (be_bytes 8 i) = i"
proof -
  have "drop_bit (8 * 8) i = 0"
    by (rule bit_word_eqI) (auto simp: bit_drop_bit_eq dest: bit_imp_le_length)
  with foldl_be_bytes [of 8 i] show ?thesis by (simp add: load_be_def)
qed

lemma be_bytes_snoc: "be_bytes (Suc k) i = be_bytes k (drop_bit 8 i) @ [ucast i]"
  by (induction k) (simp_all add: add.commute)

lemma be_bytes_load: "length bs \<le> 8 \<Longrightarrow> be_bytes (length bs) (load_be bs) = bs"
proof (induction bs rule: rev_induct)
  case Nil
  then show ?case by simp
next
  case (snoc b bs)
  let ?i = "load_be (bs @ [b])"
  have i: "?i = push_bit 8 (load_be bs) OR ucast b"
    by (simp add: load_be_def)
  have "(ucast ?i :: byte) = b"
    by (rule bit_word_eqI) (auto simp: i bit_simps)
  moreover have "be_bytes (length bs) (drop_bit 8 ?i) = be_bytes (length bs) (load_be bs)"
  proof -
    have "(ucast (drop_bit (8 * j) (drop_bit 8 ?i)) :: byte) = ucast (drop_bit (8 * j) (load_be bs))"
      if "j < length bs" for j
      using that snoc.prems by (intro bit_word_eqI) (auto simp: i bit_simps dest: bit_imp_le_length)
    then show ?thesis by (simp add: be_bytes_conv)
  qed
  ultimately show ?case
    using snoc by (simp add: be_bytes_snoc del: be_bytes.simps)
qed

lemma be_bytes_xor: "be_bytes k (x XOR y) = map2 (XOR) (be_bytes k x) (be_bytes k y)"
  by (induction k) (auto intro!: bit_word_eqI simp: bit_simps)

end
