(* ===== verification/DList.thy ===== *)
theory DList
  imports Prelude
begin

text \<open>
  The intrusive circular doubly linked list of src/src/list.h, at the level of its
  pointers. A node is an address; the heap gives each node its \<open>next\<close> and \<open>prev\<close>
  field. \<open>dlist h l xs\<close> says that the list with head \<open>l\<close> holds the nodes \<open>xs\<close>;
  the operations refine append, removal, emptiness test and traversal of \<open>xs\<close>, as long
  as a node is on at most one list. The last section shows what the code does when a
  node is linked into a second list, which the callers of the list do
  (\<open>Chan_init\<close> with \<open>link_node\<close>, \<open>Client_send_message\<close> with \<open>msg->node\<close>).
\<close>

section \<open>Heap and operations\<close>

type_synonym addr = nat

record dheap =
  nxt :: "addr \<Rightarrow> addr"
  prv :: "addr \<Rightarrow> addr"

definition set_nxt :: "addr \<Rightarrow> addr \<Rightarrow> dheap \<Rightarrow> dheap" where
  "set_nxt p q h = h\<lparr>nxt := (nxt h)(p := q)\<rparr>"

definition set_prv :: "addr \<Rightarrow> addr \<Rightarrow> dheap \<Rightarrow> dheap" where
  "set_prv p q h = h\<lparr>prv := (prv h)(p := q)\<rparr>"

definition init_list_entry :: "addr \<Rightarrow> dheap \<Rightarrow> dheap" where
  "init_list_entry p h = set_nxt p p (set_prv p p h)"

text \<open>The four assignments in the order of the code, each reading the heap the one before left.\<close>

definition list_add_head :: "addr \<Rightarrow> addr \<Rightarrow> dheap \<Rightarrow> dheap" where
  "list_add_head n l h =
     (let h1 = set_prv (nxt h l) n h;
          h2 = set_prv n l h1;
          h3 = set_nxt n (nxt h2 l) h2
      in set_nxt l n h3)"

definition list_add_tail :: "addr \<Rightarrow> addr \<Rightarrow> dheap \<Rightarrow> dheap" where
  "list_add_tail n l h =
     (let h1 = set_nxt (prv h l) n h;
          h2 = set_prv n (prv h1 l) h1;
          h3 = set_nxt n l h2
      in set_prv l n h3)"

definition list_del :: "addr \<Rightarrow> dheap \<Rightarrow> dheap" where
  "list_del e h =
     (let h1 = set_prv (nxt h e) (prv h e) h
      in set_nxt (prv h1 e) (nxt h1 e) h1)"

definition list_empty :: "addr \<Rightarrow> dheap \<Rightarrow> bool" where
  "list_empty l h = (nxt h l = l)"

definition list_get_first :: "addr \<Rightarrow> dheap \<Rightarrow> addr" where
  "list_get_first l h = nxt h l"

definition list_get_next :: "addr \<Rightarrow> dheap \<Rightarrow> addr" where
  "list_get_next e h = nxt h e"

text \<open>
  The \<open>for\<close> loop of \<open>list_iterate\<close> with a body that does not touch the list: the
  nodes it visits, or \<open>None\<close> when the fuel runs out before the head comes back.
\<close>

fun iterate_from :: "nat \<Rightarrow> addr \<Rightarrow> addr \<Rightarrow> dheap \<Rightarrow> addr list option" where
  "iterate_from 0 e l h = None"
| "iterate_from (Suc n) e l h =
     (if e = l then Some [] else map_option (Cons e) (iterate_from n (nxt h e) l h))"

definition list_iterate :: "nat \<Rightarrow> addr \<Rightarrow> dheap \<Rightarrow> addr list option" where
  "list_iterate n l h = iterate_from n (nxt h l) l h"

lemmas heap_upd_defs = set_nxt_def set_prv_def init_list_entry_def

section \<open>Abstraction to lists\<close>

text \<open>\<open>seg h a xs b\<close>: the links lead from \<open>a\<close> through \<open>xs\<close> to \<open>b\<close>, and back.\<close>

fun seg :: "dheap \<Rightarrow> addr \<Rightarrow> addr list \<Rightarrow> addr \<Rightarrow> bool" where
  "seg h a [] b = (nxt h a = b \<and> prv h b = a)"
| "seg h a (x # xs) b = (nxt h a = x \<and> prv h x = a \<and> seg h x xs b)"

definition dlist :: "dheap \<Rightarrow> addr \<Rightarrow> addr list \<Rightarrow> bool" where
  "dlist h l xs \<longleftrightarrow> distinct (l # xs) \<and> seg h l xs l"

lemma seg_append: "seg h a (xs @ y # ys) b \<longleftrightarrow> seg h a xs y \<and> seg h y ys b"
  by (induction xs arbitrary: a) auto

lemma seg_first: "seg h a xs b \<Longrightarrow> nxt h a = hd (xs @ [b])"
  by (cases xs) auto

lemma seg_last: "seg h a xs b \<Longrightarrow> prv h b = last (a # xs)"
  by (induction xs arbitrary: a) auto

lemma seg_frame:
  assumes "seg h a xs b"
    and "\<And>p. p \<in> set (a # xs) \<Longrightarrow> nxt h' p = nxt h p"
    and "\<And>p. p \<in> set (xs @ [b]) \<Longrightarrow> prv h' p = prv h p"
  shows "seg h' a xs b"
  using assms by (induction xs arbitrary: a) auto

lemma seg_relink:
  assumes "seg h a xs c" and "distinct (a # xs)"
    and "\<And>p. p \<in> set (a # xs) \<Longrightarrow> p \<noteq> last (a # xs) \<Longrightarrow> nxt h' p = nxt h p"
    and "\<And>p. p \<in> set xs \<Longrightarrow> prv h' p = prv h p"
    and "nxt h' (last (a # xs)) = b" and "prv h' b = last (a # xs)"
  shows "seg h' a xs b"
proof (cases xs rule: rev_cases)
  case Nil
  with assms show ?thesis by simp
next
  case (snoc ys y)
  with assms(1) have "seg h a ys y" by (simp add: seg_append)
  then have "seg h' a ys y"
    by (rule seg_frame) (use assms snoc in auto)
  with snoc assms(5,6) show ?thesis by (simp add: seg_append)
qed

lemma seg_determ:
  "seg h a xs l \<Longrightarrow> seg h a ys l \<Longrightarrow> l \<notin> set xs \<Longrightarrow> l \<notin> set ys \<Longrightarrow> xs = ys"
proof (induction xs arbitrary: a ys)
  case Nil
  then show ?case by (cases ys) auto
next
  case (Cons x xs)
  then show ?case by (cases ys) auto
qed

lemma dlist_init: "dlist (init_list_entry l h) l []"
  by (simp add: dlist_def heap_upd_defs)

lemma dlist_determ: "dlist h l xs \<Longrightarrow> dlist h l ys \<Longrightarrow> xs = ys"
  by (auto simp: dlist_def dest: seg_determ)

lemma dlist_frame:
  assumes "dlist h l xs"
    and "\<And>p. p \<in> set (l # xs) \<Longrightarrow> nxt h' p = nxt h p \<and> prv h' p = prv h p"
  shows "dlist h' l xs"
  using assms unfolding dlist_def by (auto intro: seg_frame)

lemma dlist_add_tail:
  assumes "dlist h l xs" and "n \<notin> set (l # xs)"
  shows "dlist (list_add_tail n l h) l (xs @ [n])"
proof (cases xs rule: rev_cases)
  case Nil
  with assms show ?thesis
    by (auto simp: dlist_def list_add_tail_def heap_upd_defs Let_def)
next
  case (snoc ys y)
  let ?h = "list_add_tail n l h"
  from assms snoc have seg: "seg h l ys y" "prv h l = y" and fresh: "n \<noteq> l" "n \<noteq> y" "n \<notin> set ys"
    and dist: "distinct (l # ys @ [y])"
    by (auto simp: dlist_def seg_append)
  have "seg ?h l ys y"
    by (rule seg_frame [OF seg(1)])
       (use seg fresh dist in \<open>auto simp: list_add_tail_def heap_upd_defs Let_def\<close>)
  moreover have "nxt ?h y = n" "prv ?h n = y" "nxt ?h n = l" "prv ?h l = n"
    using seg fresh dist by (auto simp: list_add_tail_def heap_upd_defs Let_def)
  ultimately show ?thesis
    using fresh dist by (auto simp: dlist_def snoc seg_append)
qed

lemma dlist_add_head:
  assumes "dlist h l xs" and "n \<notin> set (l # xs)"
  shows "dlist (list_add_head n l h) l (n # xs)"
proof (cases xs)
  case Nil
  with assms show ?thesis
    by (auto simp: dlist_def list_add_head_def heap_upd_defs Let_def)
next
  case (Cons x ys)
  let ?h = "list_add_head n l h"
  from assms Cons have seg: "seg h x ys l" "nxt h l = x" and fresh: "n \<noteq> l" "n \<noteq> x" "n \<notin> set ys"
    and dist: "distinct (l # x # ys)"
    by (auto simp: dlist_def)
  have "seg ?h x ys l"
    by (rule seg_frame [OF seg(1)])
       (use seg fresh dist in \<open>auto simp: list_add_head_def heap_upd_defs Let_def\<close>)
  moreover have "nxt ?h l = n" "prv ?h n = l" "nxt ?h n = x" "prv ?h x = n"
    using seg fresh dist by (auto simp: list_add_head_def heap_upd_defs Let_def)
  ultimately show ?thesis
    using fresh dist by (auto simp: dlist_def Cons)
qed

lemma seg_unlink:
  assumes "seg h a (xs @ e # ys) b" and "distinct (a # xs @ e # ys)" and "b \<notin> set (xs @ e # ys)"
  shows "seg (list_del e h) a (xs @ ys) b"
proof -
  let ?h = "list_del e h"
  let ?p = "last (a # xs)" and ?q = "hd (ys @ [b])"
  from assms(1) have l: "seg h a xs e" and r: "seg h e ys b"
    by (auto simp: seg_append)
  have pe: "prv h e = ?p" and ne: "nxt h e = ?q"
    using seg_last [OF l] seg_first [OF r] by auto
  have ep: "e \<noteq> ?p"
    using assms(2) by (metis Cons_eq_appendI distinct_append disjoint_iff
        last_in_set list.distinct(1) list.set_intros(1))
  have eq: "e \<noteq> ?q"
    using assms(2,3) by (cases ys) auto
  have h': "nxt ?h = (nxt h)(?p := ?q)" "prv ?h = (prv h)(?q := ?p)"
    using pe ne eq by (auto simp: list_del_def heap_upd_defs Let_def)
  have "?q \<notin> set xs"
    using assms(2,3) by (cases ys) auto
  then have "seg ?h a xs ?q"
    by (intro seg_relink [OF l]) (use assms(2,3) ep h' in \<open>auto split: if_splits\<close>)
  show ?thesis
  proof (cases ys)
    case Nil
    with \<open>seg ?h a xs ?q\<close> show ?thesis by simp
  next
    case (Cons y zs)
    have "?p \<notin> set ys"
      using assms(2) by (cases xs rule: rev_cases) auto
    then have nx: "nxt ?h p = nxt h p" if "p \<in> set (y # zs)" for p
      using that unfolding h' Cons by auto
    have pv: "prv ?h p = prv h p" if "p \<in> set (zs @ [b])" for p
      using that assms(2,3) unfolding h' Cons by auto
    have "seg h y zs b"
      using r Cons by simp
    then have "seg ?h y zs b"
      by (rule seg_frame) (fact nx, fact pv)
    with \<open>seg ?h a xs ?q\<close> Cons show ?thesis by (simp add: seg_append)
  qed
qed

lemma dlist_del:
  assumes "dlist h l xs" and "e \<in> set xs"
  shows "dlist (list_del e h) l (remove1 e xs)"
proof -
  from assms obtain us vs where xs: "xs = us @ e # vs"
    by (meson split_list)
  with assms(1) have dist: "distinct (l # us @ e # vs)" and "seg h l (us @ e # vs) l"
    by (simp_all add: dlist_def)
  then have "seg (list_del e h) l (us @ vs) l"
    by (intro seg_unlink) auto
  with dist xs show ?thesis
    by (auto simp: dlist_def remove1_append)
qed

lemma dlist_empty: "dlist h l xs \<Longrightarrow> list_empty l h \<longleftrightarrow> xs = []"
  by (cases xs) (auto simp: dlist_def list_empty_def)

lemma dlist_first: "dlist h l xs \<Longrightarrow> xs \<noteq> [] \<Longrightarrow> list_get_first l h = hd xs"
  by (cases xs) (auto simp: dlist_def list_get_first_def)

lemma iterate_from_seg:
  "seg h a xs l \<Longrightarrow> l \<notin> set xs \<Longrightarrow> length xs < n \<Longrightarrow> iterate_from n (nxt h a) l h = Some xs"
proof (induction xs arbitrary: a n)
  case Nil
  then show ?case by (cases n) auto
next
  case (Cons x xs)
  then show ?case by (cases n) auto
qed

lemma dlist_iterate: "dlist h l xs \<Longrightarrow> length xs < n \<Longrightarrow> list_iterate n l h = Some xs"
  by (simp add: dlist_def list_iterate_def iterate_from_seg)

subsection \<open>Other lists are not touched\<close>

lemma dlist_neighbours:
  assumes "dlist h l xs" and "p \<in> set (l # xs)"
  shows "nxt h p \<in> set (l # xs) \<and> prv h p \<in> set (l # xs)"
proof -
  have gen: "(p \<in> set (a # xs) \<longrightarrow> nxt h p \<in> set (xs @ [b])) \<and>
      (p \<in> set (xs @ [b]) \<longrightarrow> prv h p \<in> set (a # xs))" if "seg h a xs b" for a b
    using that by (induction xs arbitrary: a) auto
  from assms have "seg h l xs l" by (simp add: dlist_def)
  with gen [OF this] assms(2) show ?thesis by auto
qed

lemma dlist_next_neq:
  assumes "dlist h l xs" and "e \<in> set xs"
  shows "nxt h e \<noteq> e"
proof -
  from assms obtain us vs where "seg h e vs l" and "e \<notin> set (vs @ [l])"
    by (auto simp: dlist_def seg_append dest!: split_list)
  then show ?thesis
    by (cases vs) auto
qed

lemma dlist_add_tail_other:
  assumes "dlist h l xs" and "dlist h k ys" and "set (l # xs) \<inter> set (k # ys) = {}"
    and "n \<notin> set (k # ys)"
  shows "dlist (list_add_tail n l h) k ys"
proof -
  have "prv h l \<in> set (l # xs)"
    using dlist_neighbours [OF assms(1)] by simp
  with assms(3,4) show ?thesis
    by (intro dlist_frame [OF assms(2)])
       (auto simp: list_add_tail_def heap_upd_defs Let_def)
qed

lemma dlist_del_other:
  assumes "dlist h l xs" and "dlist h k ys" and "set (l # xs) \<inter> set (k # ys) = {}"
    and "e \<in> set xs"
  shows "dlist (list_del e h) k ys"
proof -
  have "prv h e \<in> set (l # xs)" "nxt h e \<in> set (l # xs)" "prv h l \<in> set (l # xs)"
    using dlist_neighbours [OF assms(1)] assms(4) by auto
  moreover have "e \<noteq> nxt h e"
    using dlist_next_neq [OF assms(1,4)] by simp
  ultimately show ?thesis using assms(3)
    by (intro dlist_frame [OF assms(2)])
       (auto simp: list_del_def heap_upd_defs Let_def)
qed

section \<open>Removing while iterating\<close>

text \<open>
  \<open>list_iterate_safe\<close> with the body \<open>list_del\<close>, as the functions that free a whole
  list use it: the successor is read before the entry is unlinked.
\<close>

fun del_all_from :: "nat \<Rightarrow> addr \<Rightarrow> addr \<Rightarrow> addr \<Rightarrow> dheap \<Rightarrow> dheap option" where
  "del_all_from 0 e save l h = None"
| "del_all_from (Suc n) e save l h =
     (if e = l then Some h
      else let h' = list_del e h in del_all_from n save (nxt h' save) l h')"

definition list_del_all :: "nat \<Rightarrow> addr \<Rightarrow> dheap \<Rightarrow> dheap option" where
  "list_del_all n l h = del_all_from n (nxt h l) (nxt h (nxt h l)) l h"

lemma del_all_from_dlist:
  assumes "dlist h l xs" and "length xs < n"
  shows "\<exists>h'. del_all_from n (nxt h l) (nxt h (nxt h l)) l h = Some h' \<and> dlist h' l []"
  using assms
proof (induction xs arbitrary: h n)
  case Nil
  then show ?case by (cases n) (auto simp: dlist_def)
next
  case (Cons x xs)
  then obtain m where n: "n = Suc m" and m: "length xs < m"
    by (cases n) auto
  let ?h = "list_del x h"
  from Cons.prems(1) have x: "nxt h l = x" "x \<noteq> l"
    by (auto simp: dlist_def)
  have d: "dlist ?h l xs"
    using dlist_del [OF Cons.prems(1), of x] by simp
  have "nxt h x = nxt ?h l"
    using Cons.prems(1) dlist_next_neq [OF Cons.prems(1), of x]
    by (cases xs) (auto simp: dlist_def list_del_def heap_upd_defs Let_def)
  with Cons.IH [OF d m] show ?case
    using x by (simp add: n Let_def)
qed

lemma dlist_del_all:
  "dlist h l xs \<Longrightarrow> length xs < n \<Longrightarrow> \<exists>h'. list_del_all n l h = Some h' \<and> dlist h' l []"
  by (simp add: list_del_all_def del_all_from_dlist)

section \<open>The interface its callers rely on\<close>

text \<open>
  What the rest of the server assumes of its lists: \<open>repr h l xs\<close> relates a heap and a
  head to the sequence of entries, and the operations act on that sequence. The lemmas
  proved from the interface are the queue behaviour of \<open>txMsgQueue\<close> and the ordering
  of the client and channel lists.
\<close>

locale intrusive_list =
  fixes add_tail :: "'a \<Rightarrow> 'a \<Rightarrow> 'h \<Rightarrow> 'h"
    and del :: "'a \<Rightarrow> 'h \<Rightarrow> 'h"
    and is_empty :: "'a \<Rightarrow> 'h \<Rightarrow> bool"
    and first :: "'a \<Rightarrow> 'h \<Rightarrow> 'a"
    and visit :: "nat \<Rightarrow> 'a \<Rightarrow> 'h \<Rightarrow> 'a list option"
    and repr :: "'h \<Rightarrow> 'a \<Rightarrow> 'a list \<Rightarrow> bool"
  assumes repr_distinct: "repr h l xs \<Longrightarrow> distinct (l # xs)"
    and repr_add_tail: "repr h l xs \<Longrightarrow> n \<notin> set (l # xs) \<Longrightarrow> repr (add_tail n l h) l (xs @ [n])"
    and repr_del: "repr h l xs \<Longrightarrow> e \<in> set xs \<Longrightarrow> repr (del e h) l (remove1 e xs)"
    and repr_empty: "repr h l xs \<Longrightarrow> is_empty l h \<longleftrightarrow> xs = []"
    and repr_first: "repr h l xs \<Longrightarrow> xs \<noteq> [] \<Longrightarrow> first l h = hd xs"
    and repr_visit: "repr h l xs \<Longrightarrow> length xs < k \<Longrightarrow> visit k l h = Some xs"
begin

lemma enqueue_all:
  "repr h l xs \<Longrightarrow> distinct ns \<Longrightarrow> set ns \<inter> set (l # xs) = {} \<Longrightarrow>
   repr (fold (\<lambda>n. add_tail n l) ns h) l (xs @ ns)"
proof (induction ns arbitrary: h xs)
  case Nil
  then show ?case by simp
next
  case (Cons n ns)
  then have "repr (add_tail n l h) l (xs @ [n])"
    by (intro repr_add_tail) auto
  with Cons.prems have "repr (fold (\<lambda>n. add_tail n l) ns (add_tail n l h)) l ((xs @ [n]) @ ns)"
    by (intro Cons.IH) auto
  then show ?case by simp
qed

lemma visit_enqueued:
  "repr h l xs \<Longrightarrow> distinct ns \<Longrightarrow> set ns \<inter> set (l # xs) = {} \<Longrightarrow> length xs + length ns < k \<Longrightarrow>
   visit k l (fold (\<lambda>n. add_tail n l) ns h) = Some (xs @ ns)"
  using repr_visit [OF enqueue_all] by simp

lemma dequeue: "repr h l (x # xs) \<Longrightarrow> first l h = x \<and> repr (del (first l h) h) l xs"
  using repr_first [of h l "x # xs"] repr_del [of h l "x # xs" x] by simp

lemma add_then_del:
  assumes "repr h l xs" and "n \<notin> set (l # xs)"
  shows "repr (del n (add_tail n l h)) l xs"
  using repr_del [OF repr_add_tail [OF assms], of n] assms(2) by (simp add: remove1_append)

end

interpretation list_h: intrusive_list list_add_tail list_del list_empty list_get_first list_iterate dlist
proof unfold_locales
  show "distinct (l # xs)" if "dlist h l xs" for h l xs
    using that by (simp add: dlist_def)
qed (auto intro: dlist_add_tail dlist_del dlist_first dlist_iterate simp: dlist_empty)

section \<open>A node linked into a second list\<close>

text \<open>
  \<open>list_add_tail\<close> does not unlink its node first. When the node already sits on another
  list, the traversal of that other list runs into the second list and never comes back
  to its own head.
\<close>

lemma iterate_from_trapped:
  assumes "\<And>p. p \<in> S \<Longrightarrow> nxt h p \<in> S" and "l \<notin> S"
  shows "e \<in> S \<Longrightarrow> iterate_from n e l h = None"
  using assms by (induction n arbitrary: e) auto

lemma iterate_from_seg_trapped:
  assumes "\<And>p. p \<in> S \<Longrightarrow> nxt h' p \<in> S" and "l \<notin> S" and "c \<in> S"
  shows "seg h a xs c \<Longrightarrow> l \<notin> set xs \<Longrightarrow> (\<And>p. p \<in> set (a # xs) \<Longrightarrow> nxt h' p = nxt h p) \<Longrightarrow>
    iterate_from n (nxt h' a) l h' = None"
proof (induction xs arbitrary: a n)
  case Nil
  with assms iterate_from_trapped [of S h' l c n] show ?case by simp
next
  case (Cons x xs)
  then show ?case by (cases n) auto
qed

lemma shared_node_trapped:
  assumes a: "dlist h a (us @ n # vs)" and b: "dlist h b ys"
    and disj: "set (a # us @ n # vs) \<inter> set (b # ys) = {}"
  shows "list_iterate k a (list_add_tail n b h) = None"
proof -
  let ?h = "list_add_tail n b h"
  have "seg h a us n" "a \<notin> set us"
    using a by (auto simp: dlist_def seg_append)
  have pb: "prv h b \<in> set (b # ys)"
    using dlist_neighbours [OF b, of b] by simp
  have nxt': "nxt ?h = (nxt h)(prv h b := n, n := b)"
    by (simp add: list_add_tail_def heap_upd_defs Let_def)
  have "nxt ?h p \<in> insert n (set (b # ys))" if "p \<in> insert n (set (b # ys))" for p
    using that dlist_neighbours [OF b, of p] unfolding nxt' by auto
  moreover have "nxt ?h p = nxt h p" if "p \<in> set (a # us)" for p
    using that disj pb a unfolding nxt' by (auto simp: dlist_def)
  ultimately show ?thesis
    unfolding list_iterate_def
    using \<open>seg h a us n\<close> \<open>a \<notin> set us\<close> disj a
    by (intro iterate_from_seg_trapped [where S = "insert n (set (b # ys))" and c = n and h = h])
       (auto simp: dlist_def)
qed

section \<open>Properties\<close>



text \<open>\<open>list_iterate_safe\<close> with \<open>list_del\<close> as its body, the way the codec lists, the voice targets
  and the message queue are freed, ends and leaves the list empty.\<close>

theorem list_del_all_empties:
  assumes "dlist h l xs" and "length xs < n"
  shows "\<exists>h'. list_del_all n l h = Some h' \<and> list_empty l h'"
  using dlist_del_all [OF assms] dlist_empty by blast

theorem list_del_all_empties_witness:
  "\<exists>h'. list_del_all 2 1 (list_add_tail 4 1 (init_list_entry 1 \<lparr>nxt = id, prv = id\<rparr>)) = Some h' \<and> list_empty 1 h'"
proof -
  have "dlist (list_add_tail 4 1 (init_list_entry 1 \<lparr>nxt = id, prv = id\<rparr>)) 1 ([] @ [4])"
    by (rule dlist_add_tail [OF dlist_init]) simp
  from list_del_all_empties [OF this, of 2] show ?thesis by simp
qed

text \<open>Linking a node into a second list (as \<open>Chan_init\<close> does with the destination of two channel
  links, and \<open>Client_send_message\<close> with a message queued for two clients) makes the iteration over
  the first list run forever.\<close>

theorem shared_node_iterates_forever:
  assumes "dlist h a (us @ n # vs)" and "dlist h b ys"
    and "set (a # us @ n # vs) \<inter> set (b # ys) = {}"
  shows "\<forall>k. list_iterate k a (list_add_tail n b h) = None"
  using shared_node_trapped [OF assms] by blast

theorem shared_node_iterates_forever_witness:
  "\<forall>k. list_iterate k 1 (list_add_tail 7 2 (list_add_tail 7 1
     (init_list_entry 2 (init_list_entry 1 \<lparr>nxt = id, prv = id\<rparr>)))) = None"
proof -
  let ?h = "init_list_entry 2 (init_list_entry 1 \<lparr>nxt = id, prv = id\<rparr>)"
  have "dlist ?h 1 []" "dlist ?h 2 []"
    by (simp_all add: dlist_def heap_upd_defs)
  then have "dlist (list_add_tail 7 1 ?h) 1 ([] @ 7 # [])" "dlist (list_add_tail 7 1 ?h) 2 []"
    using dlist_add_tail [of ?h 1 "[]" 7] dlist_add_tail_other [of ?h 1 "[]" 2 "[]" 7] by simp_all
  then show ?thesis by (rule shared_node_iterates_forever) simp
qed

end
