(* ===== verification/Timer.thy ===== *)
theory Timer
  imports Prelude
begin

text \<open>
  src/src/timer.c: microsecond timers held in a \<open>uint64_t\<close>. The clock
  (\<open>gettimeofday\<close>) is an input: every function takes the time \<open>now\<close> that
  \<open>Timer_now\<close> computes, and the arithmetic wraps at 64 bits as in C.
\<close>

type_synonym etimer = u64

text \<open>\<open>Timer_now\<close> combines the two fields of \<open>struct timeval\<close>.\<close>

definition Timer_now :: "u64 \<Rightarrow> u64 \<Rightarrow> u64" where
  "Timer_now tv_sec tv_usec = tv_sec * 1000000 + tv_usec"

definition Timer_init :: "u64 \<Rightarrow> etimer" where
  "Timer_init now = now"

definition Timer_elapsed :: "u64 \<Rightarrow> etimer \<Rightarrow> u64" where
  "Timer_elapsed now t = now - t"

text \<open>The boolean result and the timer, which advances by one period when it fires.\<close>

definition Timer_isElapsed :: "u64 \<Rightarrow> etimer \<Rightarrow> u64 \<Rightarrow> bool \<times> etimer" where
  "Timer_isElapsed now t us =
     (if Timer_elapsed now t > us then (True, t + us) else (False, t))"

definition Timer_restart :: "u64 \<Rightarrow> etimer \<Rightarrow> u64 \<times> etimer" where
  "Timer_restart now t = (let n = now; e = n - t in (e, n))"

lemma Timer_elapsed_exact:
  "unat t \<le> unat now \<Longrightarrow> unat (Timer_elapsed now t) = unat now - unat t"
  by (simp add: Timer_elapsed_def unat_sub_if_size word_le_nat_alt)

lemma Timer_elapsed_init: "Timer_elapsed now (Timer_init now) = 0"
  by (simp add: Timer_elapsed_def Timer_init_def)

lemma Timer_restart_elapsed: "Timer_elapsed now (snd (Timer_restart now t)) = 0"
  by (simp add: Timer_elapsed_def Timer_restart_def Let_def)

text \<open>A timer that fires keeps the time already past its period, so no time is lost.\<close>

lemma Timer_isElapsed_remainder:
  "Timer_isElapsed now t us = (True, t') \<Longrightarrow> Timer_elapsed now t' = Timer_elapsed now t - us"
  by (auto simp: Timer_isElapsed_def Timer_elapsed_def split: if_splits)

lemma Timer_isElapsed_quiet:
  "fst (Timer_isElapsed now t us) \<longleftrightarrow> us < Timer_elapsed now t"
  by (simp add: Timer_isElapsed_def)

end
