(* ===== verification/Pds.thy ===== *)
theory Pds
  imports Prelude
begin

text \<open>
  src/src/pds.c: the packet data serializer used for voice packets, with its variable
  length integers. A \<open>pds_t\<close> is a cursor over a byte buffer it does not own; the model
  keeps the buffer in the record and makes an access past its end a fault, so that
  \<open>maxsize\<close> promising more than the buffer holds is visible.
  \<open>numval_bytes\<close> is the abstract format; the lemmas show that \<open>Pds_add_numval\<close> writes
  it, that \<open>Pds_get_numval\<close> reads it back for every 64-bit value, and that neither
  moves the cursor past \<open>maxsize\<close>.
\<close>

section \<open>The cursor\<close>

record pds =
  pdata :: "byte list"
  maxsize :: nat
  offset :: nat
  overshoot :: nat
  bOk :: bool

text \<open>The \<open>int\<close> size argument is stored in a \<open>uint32_t\<close>: a negative one becomes huge.\<close>

definition Pds_create :: "byte list \<Rightarrow> int \<Rightarrow> pds" where
  "Pds_create buf sz =
     \<lparr>pdata = buf, maxsize = unat (u32_of_int sz), offset = 0, overshoot = 0, bOk = True\<rparr>"

definition append_val :: "u64 \<Rightarrow> (pds, unit) prog" where
  "append_val val = (\<lambda>p.
     if offset p < maxsize p then
       (if offset p < length (pdata p)
        then Inr ((), p\<lparr>pdata := (pdata p)[offset p := ucast val], offset := offset p + 1\<rparr>)
        else Inl OutOfBounds)
     else Inr ((), p\<lparr>bOk := False, overshoot := (overshoot p + 1) mod 2 ^ 32\<rparr>))"

text \<open>
  \<open>left\<close> is \<open>maxsize - offset\<close> as a 32-bit number; \<open>memset\<close> takes it as a \<open>size_t\<close>,
  so from \<open>2 ^ 31\<close> on (a negative \<open>int\<close>) it overruns any buffer.
\<close>

definition Pds_append_data_nosize :: "byte list \<Rightarrow> nat \<Rightarrow> (pds, unit) prog" where
  "Pds_append_data_nosize src len = (\<lambda>p.
     let left = (maxsize p + 2 ^ 32 - offset p) mod 2 ^ 32 in
     if left \<ge> len then
       (if len \<le> length src \<and> offset p + len \<le> length (pdata p)
        then Inr ((), p\<lparr>pdata := overwrite (pdata p) (offset p) (take len src), offset := offset p + len\<rparr>)
        else Inl OutOfBounds)
     else
       (if left < 2 ^ 31 \<and> offset p + left \<le> length (pdata p)
        then Inr ((), p\<lparr>pdata := overwrite (pdata p) (offset p) (replicate left 0),
                        offset := offset p + left,
                        overshoot := (overshoot p + (len - left)) mod 2 ^ 32, bOk := False\<rparr>)
        else Inl OutOfBounds))"

definition Pds_next8 :: "(pds, byte) prog" where
  "Pds_next8 = (\<lambda>p.
     if offset p < maxsize p then
       (if offset p < length (pdata p)
        then Inr (pdata p ! offset p, p\<lparr>offset := offset p + 1\<rparr>)
        else Inl OutOfBounds)
     else Inr (0, p\<lparr>bOk := False\<rparr>))"

text \<open>The sum is computed in \<open>uint32_t\<close>.\<close>

definition Pds_skip :: "nat \<Rightarrow> (pds, nat) prog" where
  "Pds_skip k = (\<lambda>p.
     if (offset p + k) mod 2 ^ 32 \<le> maxsize p
     then Inr (k, p\<lparr>offset := (offset p + k) mod 2 ^ 32\<rparr>)
     else Inr (0, p\<lparr>bOk := False\<rparr>))"

definition next_u64 :: "(pds, u64) prog" where
  "next_u64 = bnd Pds_next8 (\<lambda>b. ret (ucast b))"

section \<open>Variable length integers\<close>

text \<open>The branches that write a non-negative number, shortest first.\<close>

definition add_unsigned :: "u64 \<Rightarrow> (pds, unit) prog" where
  "add_unsigned i =
     (if i < 0x80 then append_val i
      else if i < 0x4000 then
        block [append_val (drop_bit 8 i OR 0x80), append_val (i AND 0xFF)]
      else if i < 0x200000 then
        block [append_val (drop_bit 16 i OR 0xC0), append_val (drop_bit 8 i AND 0xFF),
               append_val (i AND 0xFF)]
      else if i < 0x10000000 then
        block [append_val (drop_bit 24 i OR 0xE0), append_val (drop_bit 16 i AND 0xFF),
               append_val (drop_bit 8 i AND 0xFF), append_val (i AND 0xFF)]
      else if i < 0x100000000 then
        block [append_val 0xF0,
               append_val (drop_bit 24 i AND 0xFF), append_val (drop_bit 16 i AND 0xFF),
               append_val (drop_bit 8 i AND 0xFF), append_val (i AND 0xFF)]
      else
        block [append_val 0xF4,
               append_val (drop_bit 56 i AND 0xFF), append_val (drop_bit 48 i AND 0xFF),
               append_val (drop_bit 40 i AND 0xFF), append_val (drop_bit 32 i AND 0xFF),
               append_val (drop_bit 24 i AND 0xFF), append_val (drop_bit 16 i AND 0xFF),
               append_val (drop_bit 8 i AND 0xFF), append_val (i AND 0xFF)])"

definition Pds_add_numval :: "u64 \<Rightarrow> (pds, unit) prog" where
  "Pds_add_numval value =
     (if value AND 0x8000000000000000 \<noteq> 0 \<and> NOT value < 0x100000000 then
        (let i = NOT value in
         if i \<le> 0x3 then append_val (0xFC OR i)
         else bnd (append_val 0xF8) (\<lambda>_. add_unsigned i))
      else add_unsigned value)"

definition Pds_append_data :: "byte list \<Rightarrow> nat \<Rightarrow> (pds, unit) prog" where
  "Pds_append_data src len =
     bnd (Pds_add_numval (of_nat len)) (\<lambda>_. Pds_append_data_nosize src len)"

text \<open>
  The operands of \<open>|\<close> in the code each call \<open>next\<close>; C leaves their order open, and the
  format needs them from left to right, which is the order modelled.
\<close>

fun next_be :: "nat \<Rightarrow> u64 \<Rightarrow> (pds, u64) prog" where
  "next_be 0 acc = ret acc"
| "next_be (Suc k) acc = bnd next_u64 (\<lambda>b. next_be k (push_bit 8 acc OR b))"

lemma next_u64_shrinks:
  assumes "next_u64 p = Inr (v, p')" and "v AND 0xFC = 0xF8"
  shows "maxsize p' - offset p' < maxsize p - offset p"
  using assms by (auto simp: next_u64_def Pds_next8_def bnd_def ret_def split: if_splits)

function Pds_get_numval :: "pds \<Rightarrow> fault + u64 \<times> pds" where
  "Pds_get_numval p =
     (case next_u64 p of
        Inl e \<Rightarrow> Inl e
      | Inr (v, p') \<Rightarrow>
          if v AND 0x80 = 0 then Inr (v AND 0x7F, p')
          else if v AND 0xC0 = 0x80 then next_be 1 (v AND 0x3F) p'
          else if v AND 0xF0 = 0xF0 then
            (if v AND 0xFC = 0xF0 then next_be 4 0 p'
             else if v AND 0xFC = 0xF4 then next_be 8 0 p'
             else if v AND 0xFC = 0xF8 then
               (case Pds_get_numval p' of Inl e \<Rightarrow> Inl e | Inr (i, p'') \<Rightarrow> Inr (NOT i, p''))
             else if v AND 0xFC = 0xFC then Inr (NOT (v AND 0x03), p')
             else Inr (0, p'))
          else if v AND 0xF0 = 0xE0 then next_be 3 (v AND 0x0F) p'
          else if v AND 0xE0 = 0xC0 then next_be 2 (v AND 0x1F) p'
          else Inr (0, p'))"
  by pat_completeness auto
termination
  by (relation "measure (\<lambda>p. maxsize p - offset p)") (auto dest: next_u64_shrinks)

declare Pds_get_numval.simps [simp del] next_be.simps [simp del]

section \<open>Doubles, strings and blobs\<close>

text \<open>
  A \<open>double\<close> is the 64 bits that represent it. The length read for a string or a blob is
  an \<open>int\<close>: a negative one passes the test against \<open>maxlen\<close> and reaches \<open>memcpy\<close> as
  a huge \<open>size_t\<close>. The source range is not compared with \<open>maxsize\<close>.
\<close>

definition Pds_add_double :: "u64 \<Rightarrow> (pds, unit) prog" where
  "Pds_add_double value = Pds_add_numval value"

definition Pds_get_double :: "(pds, u64) prog" where
  "Pds_get_double = Pds_get_numval"

definition Pds_add_string :: "byte list \<Rightarrow> (pds, unit) prog" where
  "Pds_add_string str = Pds_append_data str (length (takeWhile (\<lambda>b. b \<noteq> 0) str))"

definition copy_out :: "int \<Rightarrow> (pds, byte list) prog" where
  "copy_out len = (\<lambda>p.
     if len < 0 \<or> offset p + nat len > length (pdata p) then Inl OutOfBounds
     else Inr (take (nat len) (drop (offset p) (pdata p)), p\<lparr>offset := offset p + nat len\<rparr>))"

definition Pds_get_string :: "int \<Rightarrow> (pds, byte list) prog" where
  "Pds_get_string maxlen =
     bnd Pds_get_numval (\<lambda>v. let len = sint (ucast v :: u32) in
     if len < maxlen then bnd (copy_out len) (\<lambda>str. ret (str @ [0]))
     else ret [0x4E, 0x2F, 0x41, 0])"

definition Pds_get_data :: "int \<Rightarrow> (pds, byte list option) prog" where
  "Pds_get_data maxlen =
     bnd Pds_get_numval (\<lambda>v. let len = sint (ucast v :: u32) in
     if len < maxlen then bnd (copy_out len) (\<lambda>bs. ret (Some bs))
     else ret None)"

section \<open>The byte format\<close>

definition unsigned_bytes :: "u64 \<Rightarrow> byte list" where
  "unsigned_bytes i =
     (if i < 2 ^ 7 then [ucast i]
      else if i < 2 ^ 14 then ucast (drop_bit 8 i OR 0x80) # be_bytes 1 i
      else if i < 2 ^ 21 then ucast (drop_bit 16 i OR 0xC0) # be_bytes 2 i
      else if i < 2 ^ 28 then ucast (drop_bit 24 i OR 0xE0) # be_bytes 3 i
      else if i < 2 ^ 32 then 0xF0 # be_bytes 4 i
      else 0xF4 # be_bytes 8 i)"

definition small_negative :: "u64 \<Rightarrow> bool" where
  "small_negative v \<longleftrightarrow> bit v 63 \<and> NOT v < 2 ^ 32"

definition numval_bytes :: "u64 \<Rightarrow> byte list" where
  "numval_bytes v =
     (if small_negative v then
        (if NOT v \<le> 3 then [ucast (0xFC OR NOT v)] else 0xF8 # unsigned_bytes (NOT v))
      else unsigned_bytes v)"

lemma length_unsigned_bytes: "length (unsigned_bytes i) \<in> {1, 2, 3, 4, 5, 9}"
  by (simp add: unsigned_bytes_def)

lemma length_unsigned_bytes_32: "i < 2 ^ 32 \<Longrightarrow> length (unsigned_bytes i) \<le> 5"
  by (simp add: unsigned_bytes_def)

lemma length_numval_bytes: "1 \<le> length (numval_bytes v) \<and> length (numval_bytes v) \<le> 9"
  using length_unsigned_bytes [of v] length_unsigned_bytes_32 [of "NOT v"]
  by (auto simp: numval_bytes_def small_negative_def)

section \<open>Writing\<close>

definition put :: "byte list \<Rightarrow> pds \<Rightarrow> pds" where
  "put bs p = p\<lparr>pdata := overwrite (pdata p) (offset p) bs, offset := offset p + length bs\<rparr>"

definition room :: "pds \<Rightarrow> nat \<Rightarrow> bool" where
  "room p k \<longleftrightarrow> offset p + k \<le> maxsize p \<and> maxsize p \<le> length (pdata p)"

lemma put_Nil [simp]: "put [] p = p"
  by (simp add: put_def)

lemma put_put: "room p (length bs + length cs) \<Longrightarrow> put cs (put bs p) = put (bs @ cs) p"
  by (simp add: put_def room_def overwrite_overwrite)

lemma put_simps [simp]:
  "offset (put bs p) = offset p + length bs" "maxsize (put bs p) = maxsize p"
  "bOk (put bs p) = bOk p" "overshoot (put bs p) = overshoot p"
  "pdata (put bs p) = overwrite (pdata p) (offset p) bs"
  by (simp_all add: put_def)

lemma room_put: "room p (length bs + k) \<Longrightarrow> room (put bs p) k"
  by (simp add: room_def)

lemma append_val_room: "room p 1 \<Longrightarrow> append_val v p = Inr ((), put [ucast v] p)"
  by (simp add: append_val_def room_def put_def overwrite_single)

lemma append_vals_room:
  "room p (length vs) \<Longrightarrow> block (map append_val vs) p = Inr ((), put (map ucast vs) p)"
proof (induction vs arbitrary: p)
  case Nil
  then show ?case by (simp add: ret_def)
next
  case (Cons v vs)
  show ?case
  proof (cases vs)
    case Nil
    with Cons.prems show ?thesis by (simp add: append_val_room)
  next
    case (Cons w ws)
    with Cons.IH [of "put [ucast v] p"] Cons.prems show ?thesis
      by (simp add: bnd_def append_val_room [of p v] room_put [of p "[ucast v]"] put_put room_def)
  qed
qed

text \<open>The bits of the masks the code writes as hexadecimal numbers.\<close>

lemma bit_masks:
  "bit (0xFF :: u64) n \<longleftrightarrow> n < 8" "bit (0x80 :: u64) n \<longleftrightarrow> n = 7"
  "bit (0xC0 :: u64) n \<longleftrightarrow> n \<in> {6, 7}" "bit (0xE0 :: u64) n \<longleftrightarrow> n \<in> {5, 6, 7}"
  "bit (0xF0 :: u64) n \<longleftrightarrow> n \<in> {4, 5, 6, 7}" "bit (0xFC :: u64) n \<longleftrightarrow> n \<in> {2, 3, 4, 5, 6, 7}"
  "bit (0x7F :: u64) n \<longleftrightarrow> n < 7" "bit (0x3F :: u64) n \<longleftrightarrow> n < 6"
  "bit (0x1F :: u64) n \<longleftrightarrow> n < 5" "bit (0x0F :: u64) n \<longleftrightarrow> n < 4" "bit (0x03 :: u64) n \<longleftrightarrow> n < 2"
proof -
  have m: "(0xFF :: u64) = mask 8" "(0x80 :: u64) = push_bit 7 (mask 1)"
    "(0xC0 :: u64) = push_bit 6 (mask 2)" "(0xE0 :: u64) = push_bit 5 (mask 3)"
    "(0xF0 :: u64) = push_bit 4 (mask 4)" "(0xFC :: u64) = push_bit 2 (mask 6)"
    "(0x7F :: u64) = mask 7" "(0x3F :: u64) = mask 6" "(0x1F :: u64) = mask 5"
    "(0x0F :: u64) = mask 4" "(0x03 :: u64) = mask 2"
    by (simp_all add: mask_eq_exp_minus_1)
  show "bit (0xFF :: u64) n \<longleftrightarrow> n < 8" "bit (0x80 :: u64) n \<longleftrightarrow> n = 7"
    "bit (0xC0 :: u64) n \<longleftrightarrow> n \<in> {6, 7}" "bit (0xE0 :: u64) n \<longleftrightarrow> n \<in> {5, 6, 7}"
    "bit (0xF0 :: u64) n \<longleftrightarrow> n \<in> {4, 5, 6, 7}" "bit (0xFC :: u64) n \<longleftrightarrow> n \<in> {2, 3, 4, 5, 6, 7}"
    "bit (0x7F :: u64) n \<longleftrightarrow> n < 7" "bit (0x3F :: u64) n \<longleftrightarrow> n < 6"
    "bit (0x1F :: u64) n \<longleftrightarrow> n < 5" "bit (0x0F :: u64) n \<longleftrightarrow> n < 4" "bit (0x03 :: u64) n \<longleftrightarrow> n < 2"
    unfolding m by (auto simp only: bit_push_bit_iff bit_mask_iff possible_bit_word) auto
qed

lemma ucast_and_FF: "(ucast (x AND 0xFF :: u64) :: byte) = ucast x"
  by (rule bit_word_eqI) (auto simp only: bit_ucast_iff bit_and_iff bit_masks, auto)

lemma add_unsigned_vals:
  "\<exists>vs. add_unsigned i = block (map append_val vs) \<and> map ucast vs = unsigned_bytes i"
proof -
  let ?b = "\<lambda>k. drop_bit k i AND 0xFF"
  let ?vs = "if i < 2 ^ 7 then [i]
      else if i < 2 ^ 14 then [drop_bit 8 i OR 0x80, ?b 0]
      else if i < 2 ^ 21 then [drop_bit 16 i OR 0xC0, ?b 8, ?b 0]
      else if i < 2 ^ 28 then [drop_bit 24 i OR 0xE0, ?b 16, ?b 8, ?b 0]
      else if i < 2 ^ 32 then [0xF0, ?b 24, ?b 16, ?b 8, ?b 0]
      else [0xF4, ?b 56, ?b 48, ?b 40, ?b 32, ?b 24, ?b 16, ?b 8, ?b 0]"
  have "add_unsigned i = block (map append_val ?vs)"
    by (simp add: add_unsigned_def)
  moreover have "map ucast ?vs = unsigned_bytes i"
    by (simp add: unsigned_bytes_def ucast_and_FF be_bytes_numeral del: be_bytes.simps One_nat_def)
  ultimately show ?thesis by blast
qed

lemma add_unsigned_room:
  assumes "room p (length (unsigned_bytes i))"
  shows "add_unsigned i p = Inr ((), put (unsigned_bytes i) p)"
  using add_unsigned_vals [of i] append_vals_room assms by (metis length_map)

lemma small_negative_code:
  "v AND 0x8000000000000000 \<noteq> 0 \<and> NOT v < 0x100000000 \<longleftrightarrow> small_negative v"
proof -
  have "(0x8000000000000000 :: u64) = push_bit 63 1" by simp
  then have "v AND 0x8000000000000000 \<noteq> 0 \<longleftrightarrow> bit v 63"
    by (simp only: bit_iff_and_push_bit_not_eq_0)
  then show ?thesis by (simp add: small_negative_def)
qed

lemma Pds_add_numval_room:
  assumes "room p (length (numval_bytes v))"
  shows "Pds_add_numval v p = Inr ((), put (numval_bytes v) p)"
proof (cases "small_negative v")
  case neg: True
  show ?thesis
  proof (cases "NOT v \<le> 3")
    case True
    with neg assms show ?thesis
      by (simp add: Pds_add_numval_def small_negative_code numval_bytes_def append_val_room)
  next
    case False
    with neg assms have "room p (1 + length (unsigned_bytes (NOT v)))"
      by (simp add: numval_bytes_def)
    then have "room p 1" "room (put [0xF8] p) (length (unsigned_bytes (NOT v)))"
      by (auto simp: room_def)
    with False neg show ?thesis
      by (simp add: Pds_add_numval_def small_negative_code numval_bytes_def append_val_room
          add_unsigned_room bnd_def put_put assms room_def)
  qed
next
  case False
  with assms show ?thesis
    by (simp add: Pds_add_numval_def small_negative_code numval_bytes_def add_unsigned_room)
qed

section \<open>Reading\<close>

text \<open>The bytes the cursor can still read, and the cursor after reading some.\<close>

definition rest :: "pds \<Rightarrow> byte list" where
  "rest p = take (maxsize p - offset p) (drop (offset p) (pdata p))"

definition adv :: "nat \<Rightarrow> pds \<Rightarrow> pds" where
  "adv k p = p\<lparr>offset := offset p + k\<rparr>"

lemma adv_simps [simp]:
  "offset (adv k p) = offset p + k" "maxsize (adv k p) = maxsize p" "pdata (adv k p) = pdata p"
  "bOk (adv k p) = bOk p" "adv j (adv k p) = adv (k + j) p"
  by (simp_all add: adv_def)

lemma rest_adv: "rest (adv k p) = drop k (rest p)"
  by (simp add: rest_def drop_take ac_simps)

lemma next8_rest: "rest p = b # bs \<Longrightarrow> Pds_next8 p = Inr (b, adv 1 p)"
proof -
  assume r: "rest p = b # bs"
  then obtain ys where "maxsize p - offset p \<noteq> 0" and d: "drop (offset p) (pdata p) = b # ys"
    unfolding rest_def by (cases "maxsize p - offset p"; cases "drop (offset p) (pdata p)") auto
  then have "offset p < maxsize p" by simp
  moreover have "offset p < length (pdata p)"
    using d by (metis drop_all leI list.distinct(1))
  moreover have "pdata p ! offset p = b"
    using d by (rule nth_via_drop)
  ultimately show ?thesis by (simp add: Pds_next8_def adv_def)
qed

lemma next_u64_rest: "rest p = b # bs \<Longrightarrow> next_u64 p = Inr (ucast b, adv 1 p)"
  by (simp add: next_u64_def bnd_def next8_rest ret_def)

lemma next_be_rest:
  "rest p = be_bytes k i @ bs \<Longrightarrow> next_be k (drop_bit (8 * k) i) p = Inr (i, adv k p)"
proof (induction k arbitrary: p)
  case 0
  then show ?case by (simp add: next_be.simps ret_def adv_def)
next
  case (Suc k)
  then have "rest (adv 1 p) = be_bytes k i @ bs"
    by (simp add: rest_adv)
  with Suc.IH have "next_be k (drop_bit (8 * k) i) (adv 1 p) = Inr (i, adv k (adv 1 p))" .
  moreover have "next_u64 p = Inr (ucast (ucast (drop_bit (8 * k) i) :: byte), adv 1 p)"
    using Suc.prems by (simp add: next_u64_rest)
  ultimately show ?case
    by (simp add: next_be.simps bnd_def be_step del: mult_Suc_right)
qed

text \<open>The tag bits of the first byte select the branch, the others are the leading bits.\<close>

lemma get_numval_next:
  "next_u64 p = Inr (v, p') \<Longrightarrow> Pds_get_numval p =
     (if v AND 0x80 = 0 then Inr (v AND 0x7F, p')
      else if v AND 0xC0 = 0x80 then next_be 1 (v AND 0x3F) p'
      else if v AND 0xF0 = 0xF0 then
        (if v AND 0xFC = 0xF0 then next_be 4 0 p'
         else if v AND 0xFC = 0xF4 then next_be 8 0 p'
         else if v AND 0xFC = 0xF8 then
           (case Pds_get_numval p' of Inl e \<Rightarrow> Inl e | Inr (i, p'') \<Rightarrow> Inr (NOT i, p''))
         else if v AND 0xFC = 0xFC then Inr (NOT (v AND 0x03), p')
         else Inr (0, p'))
      else if v AND 0xF0 = 0xE0 then next_be 3 (v AND 0x0F) p'
      else if v AND 0xE0 = 0xC0 then next_be 2 (v AND 0x1F) p'
      else Inr (0, p'))"
  by (subst Pds_get_numval.simps) simp

lemma and_neqI: "(bit v n \<and> bit m n) \<noteq> bit c n \<Longrightarrow> v AND m \<noteq> (c :: u64)"
  by (metis bit_and_iff)

lemma get_numval_1:
  fixes i :: u64
  assumes "i < 2 ^ 7" and "rest p = ucast i # bs"
  shows "Pds_get_numval p = Inr (i, adv 1 p)"
proof -
  have small: "n < 7" if "bit i n" for n
    using bit_less_2p [OF assms(1) _ that] by simp
  have i: "ucast (ucast i :: byte) = i"
    by (rule bit_word_eqI) (auto simp: bit_simps dest: small)
  have "i AND 0x80 = 0" "i AND 0x7F = i"
    by (rule bit_word_eqI, auto simp: bit_and_iff bit_masks simp del: bit_numeral_word_iff dest: small)+
  with next_u64_rest [OF assms(2)] show ?thesis
    by (simp add: get_numval_next i)
qed

lemma bit_tagged:
  "bit (ucast (ucast (drop_bit k i OR tag :: u64) :: byte) :: u64) n \<longleftrightarrow> n < 8 \<and> (bit i (k + n) \<or> bit tag n)"
  by (auto simp: bit_simps ac_simps)

lemmas mask_bits = bit_and_iff bit_tagged bit_masks bit_drop_bit_eq

lemma get_numval_tagged:
  fixes i :: u64
  assumes "(k, m, tag) \<in> {(1, 6, 0x80), (2, 5, 0xC0), (3, 4, 0xE0)}"
    and "i < 2 ^ (8 * k + m)"
    and rest: "rest p = ucast (drop_bit (8 * k) i OR tag) # be_bytes k i @ bs"
  shows "Pds_get_numval p = Inr (i, adv (Suc k) p)"
proof -
  let ?v = "ucast (ucast (drop_bit (8 * k) i OR tag) :: byte) :: u64"
  have small: "n < 8 * k + m" if "bit i n" for n
    using bit_less_2p [OF assms(2) _ that] assms(1) by auto
  have rd: "next_be k (drop_bit (8 * k) i) (adv 1 p) = Inr (i, adv k (adv 1 p))"
    by (rule next_be_rest) (simp add: rest_adv rest)
  note nx = get_numval_next [OF next_u64_rest [OF rest]]
  consider "k = 1" "m = 6" "tag = 0x80" | "k = 2" "m = 5" "tag = 0xC0" | "k = 3" "m = 4" "tag = 0xE0"
    using assms(1) by auto
  then show ?thesis
  proof cases
    case 1
    have "?v AND 0x80 \<noteq> 0"
      by (rule and_neqI [of _ 7]) (simp add: 1 mask_bits del: bit_numeral_word_iff)
    moreover have "?v AND 0xC0 = 0x80" "?v AND 0x3F = drop_bit (8 * k) i"
      by (rule bit_word_eqI,
          auto simp: 1 mask_bits simp del: bit_numeral_word_iff dest: small [unfolded 1])+
    ultimately show ?thesis
      using nx rd by (simp add: 1)
  next
    case 2
    have "?v AND 0x80 \<noteq> 0"
      by (rule and_neqI [of _ 7]) (simp add: 2 mask_bits del: bit_numeral_word_iff)
    moreover have "?v AND 0xC0 \<noteq> 0x80"
      by (rule and_neqI [of _ 6]) (simp add: 2 mask_bits del: bit_numeral_word_iff)
    moreover have "?v AND 0xF0 \<noteq> 0xF0"
      using small [of 21] by (intro and_neqI [of _ 5]) (auto simp: 2 mask_bits simp del: bit_numeral_word_iff)
    moreover have "?v AND 0xF0 \<noteq> 0xE0"
      using small [of 21] by (intro and_neqI [of _ 5]) (auto simp: 2 mask_bits simp del: bit_numeral_word_iff)
    moreover have "?v AND 0xE0 = 0xC0" "?v AND 0x1F = drop_bit (8 * k) i"
      by (rule bit_word_eqI,
          auto simp: 2 mask_bits simp del: bit_numeral_word_iff dest: small [unfolded 2])+
    ultimately show ?thesis
      using nx rd by (simp add: 2 del: One_nat_def)
  next
    case 3
    have "?v AND 0x80 \<noteq> 0"
      by (rule and_neqI [of _ 7]) (simp add: 3 mask_bits del: bit_numeral_word_iff)
    moreover have "?v AND 0xC0 \<noteq> 0x80"
      by (rule and_neqI [of _ 6]) (simp add: 3 mask_bits del: bit_numeral_word_iff)
    moreover have "?v AND 0xF0 = 0xE0" "?v AND 0x0F = drop_bit (8 * k) i"
      by (rule bit_word_eqI,
          auto simp: 3 mask_bits simp del: bit_numeral_word_iff dest: small [unfolded 3])+
    ultimately show ?thesis
      using nx rd by (simp add: 3 del: One_nat_def)
  qed
qed

lemma drop_bit_all: "i < 2 ^ k \<Longrightarrow> k < 64 \<Longrightarrow> drop_bit k (i :: u64) = 0"
  by (rule bit_word_eqI) (auto simp: bit_drop_bit_eq dest: bit_less_2p)

lemma get_numval_unsigned:
  assumes "rest p = unsigned_bytes i @ bs"
  shows "Pds_get_numval p = Inr (i, adv (length (unsigned_bytes i)) p)"
proof -
  consider "i < 2 ^ 7" | "\<not> i < 2 ^ 7" "i < 2 ^ 14" | "\<not> i < 2 ^ 7" "\<not> i < 2 ^ 14" "i < 2 ^ 21"
    | "\<not> i < 2 ^ 7" "\<not> i < 2 ^ 14" "\<not> i < 2 ^ 21" "i < 2 ^ 28"
    | "\<not> i < 2 ^ 7" "\<not> i < 2 ^ 14" "\<not> i < 2 ^ 21" "\<not> i < 2 ^ 28" "i < 2 ^ 32"
    | "\<not> i < 2 ^ 7" "\<not> i < 2 ^ 14" "\<not> i < 2 ^ 21" "\<not> i < 2 ^ 28" "\<not> i < 2 ^ 32"
    by blast
  then show ?thesis
  proof cases
    case 1
    then have u: "unsigned_bytes i = [ucast i]" by (simp add: unsigned_bytes_def)
    from get_numval_1 [OF 1, of p bs] assms show ?thesis by (simp add: u)
  next
    case 2
    then have u: "unsigned_bytes i = ucast (drop_bit 8 i OR 0x80) # be_bytes 1 i"
      by (simp add: unsigned_bytes_def)
    from get_numval_tagged [of 1 6 "0x80" i p bs] 2 assms show ?thesis
      by (simp add: u del: One_nat_def be_bytes.simps)
  next
    case 3
    then have u: "unsigned_bytes i = ucast (drop_bit 16 i OR 0xC0) # be_bytes 2 i"
      by (simp add: unsigned_bytes_def)
    from get_numval_tagged [of 2 5 "0xC0" i p bs] 3 assms show ?thesis
      by (simp add: u)
  next
    case 4
    then have u: "unsigned_bytes i = ucast (drop_bit 24 i OR 0xE0) # be_bytes 3 i"
      by (simp add: unsigned_bytes_def)
    from get_numval_tagged [of 3 4 "0xE0" i p bs] 4 assms show ?thesis
      by (simp add: u)
  next
    case 5
    then have u: "unsigned_bytes i = 0xF0 # be_bytes 4 i" by (simp add: unsigned_bytes_def)
    then have nx: "next_u64 p = Inr (0xF0, adv 1 p)" and r: "rest (adv 1 p) = be_bytes 4 i @ bs"
      using assms by (simp_all add: next_u64_rest rest_adv)
    from next_be_rest [OF r] drop_bit_all [of i 32] 5
    have "next_be 4 0 (adv 1 p) = Inr (i, adv 4 (adv 1 p))" by simp
    then show ?thesis by (simp add: get_numval_next [OF nx] u)
  next
    case 6
    then have u: "unsigned_bytes i = 0xF4 # be_bytes 8 i" by (simp add: unsigned_bytes_def)
    then have nx: "next_u64 p = Inr (0xF4, adv 1 p)" and r: "rest (adv 1 p) = be_bytes 8 i @ bs"
      using assms by (simp_all add: next_u64_rest rest_adv)
    from next_be_rest [OF r] have "next_be 8 0 (adv 1 p) = Inr (i, adv 8 (adv 1 p))" by simp
    then show ?thesis by (simp add: get_numval_next [OF nx] u)
  qed
qed

lemma get_numval_neg_short:
  assumes "NOT v \<le> 3" and "rest p = ucast (0xFC OR NOT v) # bs"
  shows "Pds_get_numval p = Inr (v, adv 1 p)"
proof -
  have "NOT v = 0 \<or> NOT v = 1 \<or> NOT v = 2 \<or> NOT v = 3"
    using assms(1) by unat_arith
  then obtain c where c: "c = (0 :: u64) \<or> c = 1 \<or> c = 2 \<or> c = 3" and nv: "NOT v = c" by blast
  then have v: "v = NOT c" by (metis bit.double_compl)
  from c show ?thesis
    using next_u64_rest [OF assms(2)] by (elim disjE) (simp_all add: get_numval_next nv v)
qed

lemma get_numval_numval_bytes:
  assumes "rest p = numval_bytes v @ bs"
  shows "Pds_get_numval p = Inr (v, adv (length (numval_bytes v)) p)"
proof (cases "small_negative v")
  case False
  with assms get_numval_unsigned show ?thesis by (simp add: numval_bytes_def)
next
  case neg: True
  show ?thesis
  proof (cases "NOT v \<le> 3")
    case True
    with neg assms get_numval_neg_short show ?thesis by (simp add: numval_bytes_def)
  next
    case False
    with neg assms have nx: "next_u64 p = Inr (0xF8, adv 1 p)"
      and r: "rest (adv 1 p) = unsigned_bytes (NOT v) @ bs"
      by (simp_all add: numval_bytes_def next_u64_rest rest_adv)
    from get_numval_unsigned [OF r] False neg show ?thesis
      by (simp add: get_numval_next [OF nx] numval_bytes_def)
  qed
qed

section \<open>Bounds\<close>

text \<open>A cursor is well formed when it has not passed \<open>maxsize\<close>, and the buffer is that long.\<close>

definition wf_pds :: "pds \<Rightarrow> bool" where
  "wf_pds p \<longleftrightarrow> offset p \<le> maxsize p \<and> maxsize p \<le> length (pdata p) \<and> maxsize p < 2 ^ 31"

lemma wf_next8: "wf_pds p \<Longrightarrow> \<exists>b p'. Pds_next8 p = Inr (b, p') \<and> wf_pds p' \<and>
    pdata p' = pdata p \<and> maxsize p' = maxsize p \<and> offset p \<le> offset p' \<and> offset p' \<le> offset p + 1"
  by (auto simp: wf_pds_def Pds_next8_def)

lemma wf_next_u64: "wf_pds p \<Longrightarrow> \<exists>v p'. next_u64 p = Inr (v, p') \<and> wf_pds p' \<and>
    pdata p' = pdata p \<and> maxsize p' = maxsize p \<and> offset p \<le> offset p'"
  using wf_next8 [of p] by (auto simp: next_u64_def bnd_def ret_def)

lemma wf_next_be: "wf_pds p \<Longrightarrow> \<exists>v p'. next_be k a p = Inr (v, p') \<and> wf_pds p' \<and>
    pdata p' = pdata p \<and> maxsize p' = maxsize p \<and> offset p \<le> offset p'"
proof (induction k arbitrary: a p)
  case 0
  then show ?case by (simp add: next_be.simps ret_def)
next
  case (Suc k)
  obtain v p1 where p1: "next_u64 p = Inr (v, p1)" "wf_pds p1" "pdata p1 = pdata p"
    "maxsize p1 = maxsize p" "offset p \<le> offset p1"
    using wf_next_u64 [OF Suc.prems] by blast
  from Suc.IH [OF p1(2), of "push_bit 8 a OR v"] p1 show ?case
    by (auto simp: next_be.simps bnd_def)
qed

lemma wf_get_numval: "wf_pds p \<Longrightarrow> \<exists>v p'. Pds_get_numval p = Inr (v, p') \<and> wf_pds p' \<and>
    pdata p' = pdata p \<and> maxsize p' = maxsize p \<and> offset p \<le> offset p'"
proof (induction p rule: Pds_get_numval.induct)
  case (1 p)
  obtain v p1 where p1: "next_u64 p = Inr (v, p1)" "wf_pds p1" "pdata p1 = pdata p"
    "maxsize p1 = maxsize p" "offset p \<le> offset p1"
    using wf_next_u64 [OF "1.prems"] by blast
  have be: "\<exists>u p'. next_be k a p1 = Inr (u, p') \<and> wf_pds p' \<and>
    pdata p' = pdata p \<and> maxsize p' = maxsize p \<and> offset p \<le> offset p'" for k a
    using wf_next_be [OF p1(2), of k a] p1 by fastforce
  show ?case
  proof (cases "v AND 0x80 \<noteq> 0 \<and> v AND 0xC0 \<noteq> 0x80 \<and> v AND 0xF0 = 0xF0 \<and> v AND 0xFC = 0xF8")
    case True
    with "1.IH" [OF p1(1) refl] p1 obtain u p2 where "Pds_get_numval p1 = Inr (u, p2)"
      "wf_pds p2" "pdata p2 = pdata p" "maxsize p2 = maxsize p" "offset p \<le> offset p2"
      by fastforce
    with True p1(1) show ?thesis
      by (auto simp: get_numval_next)
  next
    case False
    with p1 be show ?thesis
      by (auto simp: get_numval_next)
  qed
qed

lemma wf_skip:
  assumes "wf_pds p" and "k < 2 ^ 31"
  shows "Pds_skip k p =
    (if offset p + k \<le> maxsize p then Inr (k, p\<lparr>offset := offset p + k\<rparr>) else Inr (0, p\<lparr>bOk := False\<rparr>))"
proof -
  from assms have "(offset p + k) mod 2 ^ 32 = offset p + k"
    by (intro mod_less) (auto simp: wf_pds_def)
  then show ?thesis by (simp add: Pds_skip_def)
qed

lemma append_nosize_room:
  assumes "room p len" and "len \<le> length src" and "maxsize p < 2 ^ 31"
  shows "Pds_append_data_nosize src len p = Inr ((), put (take len src) p)"
proof -
  from assms have "maxsize p + 2 ^ 32 - offset p = (maxsize p - offset p) + 2 ^ 32"
    and "maxsize p - offset p < 2 ^ 32"
    by (auto simp: room_def)
  then have "(maxsize p + 2 ^ 32 - offset p) mod 2 ^ 32 = maxsize p - offset p"
    by (simp only: mod_add_self2 mod_less)
  moreover from assms(1) have "len \<le> maxsize p - offset p"
    by (auto simp: room_def)
  ultimately show ?thesis
    using assms by (simp add: Pds_append_data_nosize_def room_def put_def Let_def min_def)
qed

section \<open>The interface of a self-delimiting code\<close>

text \<open>
  What a reader relies on: after writing values one after the other, reading them back
  in the same order gives the same values and consumes exactly what was written.
\<close>

locale value_code =
  fixes encode :: "'v \<Rightarrow> 'b list"
    and decode :: "'r \<Rightarrow> 'e + 'v \<times> 'r"
    and left :: "'r \<Rightarrow> 'b list"
    and skip :: "nat \<Rightarrow> 'r \<Rightarrow> 'r"
  assumes decode_encode: "left r = encode v @ bs \<Longrightarrow> decode r = Inr (v, skip (length (encode v)) r)"
    and left_skip: "left (skip k r) = drop k (left r)"
    and skip_skip: "skip j (skip k r) = skip (k + j) r"
    and encode_nonempty: "encode v \<noteq> []"
begin

lemma decode_two:
  assumes "left r = encode v @ encode w @ bs"
  shows "decode r = Inr (v, skip (length (encode v)) r)"
    and "decode (skip (length (encode v)) r) = Inr (w, skip (length (encode v) + length (encode w)) r)"
  using assms decode_encode [of r v] decode_encode [of "skip (length (encode v)) r" w bs]
  by (simp_all add: left_skip skip_skip)

lemma prefix_free:
  assumes "left r = encode v @ bs" and "encode v @ bs = encode w @ cs"
  shows "v = w"
  using decode_encode [OF assms(1)] decode_encode [of r w cs] assms by auto

end

interpretation numval: value_code numval_bytes Pds_get_numval rest adv
proof unfold_locales
  show "Pds_get_numval r = Inr (v, adv (length (numval_bytes v)) r)" if "rest r = numval_bytes v @ bs" for r v bs
    using that by (rule get_numval_numval_bytes)
  show "rest (adv k r) = drop k (rest r)" for k r by (rule rest_adv)
  show "adv j (adv k r) = adv (k + j) r" for j k r by simp
  show "numval_bytes v \<noteq> []" for v using length_numval_bytes [of v] by auto
qed

section \<open>Properties\<close>

text \<open>C26: Every 64-bit value written with \<open>Pds_add_numval\<close> is read back by \<open>Pds_get_numval\<close>, which
  consumes exactly the bytes written (at most nine), in every length class and for the short
  negative numbers.\<close>

theorem numval_roundtrip:
  assumes "room p 9"
  shows "\<exists>p'. Pds_add_numval v p = Inr ((), p') \<and> offset p' \<le> offset p + 9 \<and>
    Pds_get_numval (p'\<lparr>offset := offset p\<rparr>) = Inr (v, p')"
proof -
  let ?bs = "numval_bytes v"
  have r: "room p (length ?bs)"
    using assms length_numval_bytes [of v] by (simp add: room_def)
  let ?q = "(put ?bs p)\<lparr>offset := offset p\<rparr>"
  have "drop (offset p) (pdata (put ?bs p)) = ?bs @ drop (offset p + length ?bs) (pdata p)"
    using r by (simp add: room_def overwrite_def)
  moreover from r have "length ?bs \<le> maxsize p - offset p" unfolding room_def by linarith
  ultimately have "rest ?q = ?bs @ take (maxsize p - offset p - length ?bs) (drop (offset p + length ?bs) (pdata p))"
    by (simp add: rest_def)
  then have "Pds_get_numval ?q = Inr (v, adv (length ?bs) ?q)"
    by (rule get_numval_numval_bytes)
  moreover have "adv (length ?bs) ?q = put ?bs p"
    by (simp add: adv_def put_def)
  ultimately show ?thesis
    using Pds_add_numval_room [OF r] length_numval_bytes [of v] by auto
qed

theorem numval_roundtrip_witness:
  "\<exists>p'. Pds_add_numval (- 300) (Pds_create (replicate 10 0) 10) = Inr ((), p') \<and>
    Pds_get_numval (p'\<lparr>offset := 0\<rparr>) = Inr (- 300, p')"
proof -
  have "room (Pds_create (replicate 10 0) 10) 9"
    by (simp add: room_def Pds_create_def u32_of_int_def)
  from numval_roundtrip [OF this, of "- 300"] show ?thesis
    by (auto simp: Pds_create_def)
qed

text \<open>Reading a number from a well-formed cursor always returns, never reads outside the buffer and
  never moves the cursor backwards or past \<open>maxsize\<close>, whatever the bytes are.\<close>

theorem get_numval_total:
  assumes "wf_pds p"
  shows "\<exists>v p'. Pds_get_numval p = Inr (v, p') \<and> offset p \<le> offset p' \<and> offset p' \<le> maxsize p \<and>
    pdata p' = pdata p"
  using wf_get_numval [OF assms] by (auto simp: wf_pds_def)

theorem get_numval_total_witness:
  "\<exists>v p'. Pds_get_numval (Pds_create [0xF8, 0xF8, 0xF8] 3) = Inr (v, p') \<and> offset p' \<le> 3"
proof -
  have "wf_pds (Pds_create [0xF8, 0xF8, 0xF8] 3)"
    by (simp add: wf_pds_def Pds_create_def u32_of_int_def)
  from get_numval_total [OF this] show ?thesis by (auto simp: Pds_create_def u32_of_int_def)
qed

end
