(* ===== verification/Ocb.thy ===== *)
theory Ocb
  imports Prelude
begin

text \<open>
  The OCB-AES128 mode of src/src/crypt.c: the block arithmetic (\<open>XOR\<close>, \<open>S2\<close>, \<open>S3\<close>,
  \<open>ZERO\<close>) on the 64-bit build's two subblocks, and \<open>CryptState_ocb_encrypt\<close> and
  \<open>CryptState_ocb_decrypt\<close>. A subblock is modelled by the value \<open>SWAPPED\<close> gives, its
  bytes read in network order, so the model does not depend on the host's byte order.
  AES itself is the library's: the block functions are parameters \<open>E\<close> and \<open>D\<close>.
  The lemmas: the doubling is multiplication by \<open>x\<close> in GF(2^128), decryption inverts
  encryption and recomputes the same tag whenever \<open>D\<close> inverts \<open>E\<close>, lengths are kept.
\<close>

section \<open>Blocks\<close>

type_synonym block = "u64 \<times> u64"

abbreviation AES_BLOCK_SIZE :: nat where
  "AES_BLOCK_SIZE \<equiv> 16"

definition block_of :: "byte list \<Rightarrow> block" where
  "block_of bs = (load_be (take 8 bs), load_be (take 8 (drop 8 bs)))"

definition bytes_of :: "block \<Rightarrow> byte list" where
  "bytes_of b = be_bytes 8 (fst b) @ be_bytes 8 (snd b)"

definition blk_xor :: "block \<Rightarrow> block \<Rightarrow> block" where
  "blk_xor a b = (fst a XOR fst b, snd a XOR snd b)"

definition SHIFTBITS :: nat where
  "SHIFTBITS = 63"

definition S2 :: "block \<Rightarrow> block" where
  "S2 b =
     (let carry = drop_bit SHIFTBITS (fst b) in
      (push_bit 1 (fst b) OR drop_bit SHIFTBITS (snd b),
       push_bit 1 (snd b) XOR (carry * 0x87)))"

definition S3 :: "block \<Rightarrow> block" where
  "S3 b =
     (let carry = drop_bit SHIFTBITS (fst b) in
      (fst b XOR (push_bit 1 (fst b) OR drop_bit SHIFTBITS (snd b)),
       snd b XOR (push_bit 1 (snd b) XOR (carry * 0x87))))"

definition ZERO :: block where
  "ZERO = (0, 0)"

lemma length_bytes_of [simp]: "length (bytes_of b) = 16"
  by (simp add: bytes_of_def)

lemma block_of_bytes_of [simp]: "block_of (bytes_of b) = b"
  by (simp add: block_of_def bytes_of_def load_be_bytes)

lemma bytes_of_block_of: "length bs = 16 \<Longrightarrow> bytes_of (block_of bs) = bs"
  using be_bytes_load [of "take 8 bs"] be_bytes_load [of "take 8 (drop 8 bs)"]
    append_take_drop_id [of 8 bs]
  by (simp add: block_of_def bytes_of_def)

lemma blk_xor_self [simp]: "blk_xor a (blk_xor a b) = b" "blk_xor (blk_xor b a) a = b"
  by (auto intro!: prod_eqI bit_word_eqI simp: blk_xor_def bit_xor_iff)

lemma blk_xor_comm: "blk_xor a b = blk_xor b a"
  by (simp add: blk_xor_def xor.commute)

lemma bytes_of_xor: "bytes_of (blk_xor a b) = map2 (XOR) (bytes_of a) (bytes_of b)"
  by (simp add: bytes_of_def blk_xor_def be_bytes_xor)

subsection \<open>Doubling in GF(2^128)\<close>

text \<open>
  Read as a 128-bit polynomial, \<open>S2\<close> multiplies by \<open>x\<close> modulo
  \<open>x^128 + x^7 + x^2 + x + 1\<close>, and \<open>S3\<close> by \<open>x + 1\<close>.
\<close>

definition poly :: "block \<Rightarrow> 128 word" where
  "poly b = push_bit 64 (ucast (fst b)) OR ucast (snd b)"

definition xtimes :: "128 word \<Rightarrow> 128 word" where
  "xtimes w = (if bit w 127 then push_bit 1 w XOR 0x87 else push_bit 1 w)"

lemma bit_poly: "bit (poly b) n \<longleftrightarrow> (if n < 64 then bit (snd b) n else bit (fst b) (n - 64))"
  by (auto simp: poly_def bit_simps dest: bit_imp_le_length)

lemma poly_inject: "poly a = poly b \<longleftrightarrow> a = b"
proof
  assume "poly a = poly b"
  then have eq: "bit (poly a) n = bit (poly b) n" for n by simp
  have "snd a = snd b"
  proof (rule bit_word_eqI)
    fix n assume "n < LENGTH(64)"
    then show "bit (snd a) n = bit (snd b) n"
      using eq [of n] by (simp add: bit_poly)
  qed
  moreover have "fst a = fst b"
  proof (rule bit_word_eqI)
    fix n show "bit (fst a) n = bit (fst b) n"
      using eq [of "n + 64"] by (simp add: bit_poly)
  qed
  ultimately show "a = b" by (rule prod_eqI [rotated])
qed simp

lemma poly_xor: "poly (blk_xor a b) = poly a XOR poly b"
  by (rule bit_word_eqI) (simp add: bit_poly bit_xor_iff blk_xor_def)

lemma carry_cases: "drop_bit 63 (w :: u64) = (if bit w 63 then 1 else 0)"
proof (rule bit_word_eqI)
  fix n assume "n < LENGTH(64)"
  then show "bit (drop_bit 63 w) n = bit (if bit w 63 then 1 else 0 :: u64) n"
    by (cases n) (auto simp: bit_drop_bit_eq bit_1_iff dest: bit_imp_le_length)
qed

lemma poly_S2: "poly (S2 b) = xtimes (poly b)"
proof -
  have x: "bit (0x87 :: u64) n \<longleftrightarrow> bit (0x87 :: 128 word) n" if "n < 64" for n
    using that by (simp add: bit_numeral_word_iff)
  have hi: "\<not> bit (0x87 :: 128 word) n" if "\<not> n < 64" for n
    using that bit_less_2p [of "0x87 :: 128 word" 8 n] by auto
  show ?thesis
  proof (rule bit_word_eqI)
    fix n assume "n < LENGTH(128)"
    then show "bit (poly (S2 b)) n = bit (xtimes (poly b)) n"
      using x [of n] hi [of n]
      by (cases "n = 64") (auto simp: S2_def SHIFTBITS_def xtimes_def Let_def bit_poly carry_cases bit_simps
          simp del: bit_numeral_word_iff push_bit_Suc One_nat_def)
  qed
qed

lemma S3_S2: "S3 b = blk_xor b (S2 b)"
  by (simp add: S3_def S2_def blk_xor_def Let_def)

section \<open>Encryption and decryption\<close>

text \<open>
  The loop over the full blocks: it leaves at least one byte, at most a block, for the
  final step. The result is the output so far, \<open>delta\<close>, \<open>checksum\<close> and the bytes left.
\<close>

function ocb_enc_loop ::
  "(block \<Rightarrow> block) \<Rightarrow> block \<Rightarrow> block \<Rightarrow> byte list \<Rightarrow> byte list \<times> block \<times> block \<times> byte list" where
  "ocb_enc_loop E delta checksum plain =
     (if length plain > AES_BLOCK_SIZE then
        let delta' = S2 delta;
            p = block_of (take 16 plain);
            tmp = E (blk_xor delta' p);
            c = blk_xor delta' tmp;
            (out, d, cs, left) = ocb_enc_loop E delta' (blk_xor checksum p) (drop 16 plain)
        in (bytes_of c @ out, d, cs, left)
      else ([], delta, checksum, plain))"
  by pat_completeness auto
termination
  by (relation "measure (\<lambda>(E, d, c, p). length p)") auto

function ocb_dec_loop ::
  "(block \<Rightarrow> block) \<Rightarrow> block \<Rightarrow> block \<Rightarrow> byte list \<Rightarrow> byte list \<times> block \<times> block \<times> byte list" where
  "ocb_dec_loop D delta checksum encrypted =
     (if length encrypted > AES_BLOCK_SIZE then
        let delta' = S2 delta;
            c = block_of (take 16 encrypted);
            tmp = D (blk_xor delta' c);
            p = blk_xor delta' tmp;
            (out, d, cs, left) = ocb_dec_loop D delta' (blk_xor checksum p) (drop 16 encrypted)
        in (bytes_of p @ out, d, cs, left)
      else ([], delta, checksum, encrypted))"
  by pat_completeness auto
termination
  by (relation "measure (\<lambda>(E, d, c, p). length p)") auto

declare ocb_enc_loop.simps [simp del] ocb_dec_loop.simps [simp del]

text \<open>\<open>len * 8\<close> is an \<open>unsigned int\<close>, widened to the last subblock.\<close>

definition len_block :: "nat \<Rightarrow> block" where
  "len_block len = (0, ucast (of_nat len * 8 :: u32))"

definition CryptState_ocb_encrypt ::
  "(block \<Rightarrow> block) \<Rightarrow> block \<Rightarrow> byte list \<Rightarrow> byte list \<times> block" where
  "CryptState_ocb_encrypt E nonce plain =
     (let (out, delta, checksum, left) = ocb_enc_loop E (E nonce) ZERO plain;
          len = length left;
          delta = S2 delta;
          pad = E (blk_xor (len_block len) delta);
          tmp = block_of (left @ drop len (bytes_of pad));
          checksum = blk_xor checksum tmp;
          tmp = blk_xor pad tmp;
          encrypted = out @ take len (bytes_of tmp);
          delta = S3 delta
      in (encrypted, E (blk_xor delta checksum)))"

definition CryptState_ocb_decrypt ::
  "(block \<Rightarrow> block) \<Rightarrow> (block \<Rightarrow> block) \<Rightarrow> block \<Rightarrow> byte list \<Rightarrow> byte list \<times> block" where
  "CryptState_ocb_decrypt E D nonce encrypted =
     (let (out, delta, checksum, left) = ocb_dec_loop D (E nonce) ZERO encrypted;
          len = length left;
          delta = S2 delta;
          pad = E (blk_xor (len_block len) delta);
          tmp = block_of (left @ replicate (AES_BLOCK_SIZE - len) 0);
          tmp = blk_xor tmp pad;
          checksum = blk_xor checksum tmp;
          plain = out @ take len (bytes_of tmp);
          delta = S3 delta
      in (plain, E (blk_xor delta checksum)))"

lemma enc_loop_step:
  assumes "16 < length plain"
    and "ocb_enc_loop E (S2 d) (blk_xor c (block_of (take 16 plain))) (drop 16 plain) = (o2, d2, c2, l2)"
  shows "ocb_enc_loop E d c plain =
    (bytes_of (blk_xor (S2 d) (E (blk_xor (S2 d) (block_of (take 16 plain))))) @ o2, d2, c2, l2)"
  using assms by (subst ocb_enc_loop.simps) (simp add: Let_def)

lemma dec_loop_step:
  assumes "length bs = 16" and "cs \<noteq> []" and "p = blk_xor (S2 d) (D (blk_xor (S2 d) (block_of bs)))"
    and "ocb_dec_loop D (S2 d) (blk_xor c p) cs = (o2, d2, c2, l2)"
  shows "ocb_dec_loop D d c (bs @ cs) = (bytes_of p @ o2, d2, c2, l2)"
  using assms by (subst ocb_dec_loop.simps) (simp add: Let_def)

lemma enc_loop_last: "length plain \<le> 16 \<Longrightarrow> ocb_enc_loop E d c plain = ([], d, c, plain)"
  by (simp add: ocb_enc_loop.simps)

lemma dec_loop_last: "length enc \<le> 16 \<Longrightarrow> ocb_dec_loop D d c enc = ([], d, c, enc)"
  by (simp add: ocb_dec_loop.simps)

lemma ocb_enc_loop_length:
  "ocb_enc_loop E d c plain = (out, d', c', left) \<Longrightarrow>
   length out + length left = length plain \<and> length left \<le> 16 \<and> (plain \<noteq> [] \<longrightarrow> left \<noteq> [])"
proof (induction "length plain" arbitrary: d c plain out rule: less_induct)
  case less
  show ?case
  proof (cases "16 < length plain")
    case True
    obtain o2 d2 c2 l2 where
      r: "ocb_enc_loop E (S2 d) (blk_xor c (block_of (take 16 plain))) (drop 16 plain) = (o2, d2, c2, l2)"
      by (metis prod_cases4)
    with less.prems enc_loop_step [OF True r] have eq: "out = bytes_of
        (blk_xor (S2 d) (E (blk_xor (S2 d) (block_of (take 16 plain))))) @ o2" "d2 = d'" "c2 = c'" "l2 = left"
      by simp_all
    have "length (drop 16 plain) < length plain" using True by simp
    from less.hyps [OF this r [unfolded eq]] True show ?thesis
      by (auto simp: eq)
  next
    case False
    with less.prems show ?thesis by (simp add: enc_loop_last)
  qed
qed

lemma ocb_dec_enc_loop:
  assumes inv: "\<And>b. D (E b) = b"
  shows "ocb_enc_loop E d c plain = (out, d', c', left) \<Longrightarrow> length left' = length left \<Longrightarrow>
    \<exists>out'. ocb_dec_loop D d c (out @ left') = (out', d', c', left') \<and> out' @ left = plain"
proof (induction "length plain" arbitrary: d c plain out rule: less_induct)
  case less
  show ?case
  proof (cases "16 < length plain")
    case True
    let ?p = "block_of (take 16 plain)"
    let ?c = "blk_xor (S2 d) (E (blk_xor (S2 d) ?p))"
    obtain o2 d2 c2 l2 where
      r: "ocb_enc_loop E (S2 d) (blk_xor c ?p) (drop 16 plain) = (o2, d2, c2, l2)"
      by (metis prod_cases4)
    with less.prems enc_loop_step [OF True r]
    have eq: "out = bytes_of ?c @ o2" "d2 = d'" "c2 = c'" "l2 = left"
      by simp_all
    have lt: "length (drop 16 plain) < length plain" using True by simp
    from less.hyps [OF lt r [unfolded eq] less.prems(2)] obtain o3 where
      o3: "ocb_dec_loop D (S2 d) (blk_xor c ?p) (o2 @ left') = (o3, d', c', left')" "o3 @ left = drop 16 plain"
      by blast
    have "o2 @ left' \<noteq> []"
      using ocb_enc_loop_length [OF r] True less.prems(2) eq by auto
    moreover have "?p = blk_xor (S2 d) (D (blk_xor (S2 d) (block_of (bytes_of ?c))))"
      by (simp add: inv)
    ultimately have "ocb_dec_loop D d c (out @ left') = (bytes_of ?p @ o3, d', c', left')"
      unfolding eq append_assoc by (intro dec_loop_step [OF length_bytes_of _ _ o3(1)])
    moreover have "bytes_of ?p = take 16 plain"
      using True by (intro bytes_of_block_of) simp
    ultimately show ?thesis
      using o3(2) append_take_drop_id [of 16 plain] by simp
  next
    case False
    with less.prems show ?thesis
      by (auto simp: enc_loop_last dec_loop_last)
  qed
qed

lemma map2_xor_cancel:
  "length xs = length ys \<Longrightarrow> map2 (XOR) (map2 (XOR) xs ys) ys = (xs :: byte list)"
  by (induction xs ys rule: list_induct2) (simp_all add: xor.assoc)

lemma last_block_roundtrip:
  assumes "length left \<le> 16"
  shows "blk_xor (block_of (take (length left)
      (bytes_of (blk_xor pad (block_of (left @ drop (length left) (bytes_of pad)))))
      @ replicate (16 - length left) 0)) pad
    = block_of (left @ drop (length left) (bytes_of pad))"
proof -
  let ?n = "length left" and ?P = "bytes_of pad"
  let ?t = "left @ drop ?n ?P"
  let ?e = "take ?n (bytes_of (blk_xor pad (block_of ?t)))"
  have t: "bytes_of (block_of ?t) = ?t"
    using assms by (intro bytes_of_block_of) simp
  have "?e = map2 (XOR) (take ?n ?P) left"
    using assms by (simp add: bytes_of_xor t take_map take_zip)
  then have e: "?e = map2 (XOR) left (take ?n ?P)"
    using assms by (simp add: zip_commute [of left] xor.commute case_prod_unfold comp_def)
  have "bytes_of (blk_xor (block_of (?e @ replicate (16 - ?n) 0)) pad)
      = map2 (XOR) (?e @ replicate (16 - ?n) 0) (take ?n ?P @ drop ?n ?P)"
    using assms by (subst bytes_of_xor, subst bytes_of_block_of) simp_all
  also have "\<dots> = map2 (XOR) ?e (take ?n ?P) @ map2 (XOR) (replicate (16 - ?n) 0) (drop ?n ?P)"
    using assms by (subst zip_append) simp_all
  also have "map2 (XOR) ?e (take ?n ?P) = left"
    using assms unfolding e by (intro map2_xor_cancel) simp
  also have "map2 (XOR) (replicate (16 - ?n) 0) (drop ?n ?P) = drop ?n ?P"
    using assms by (intro nth_equalityI) simp_all
  finally have "block_of (bytes_of (blk_xor (block_of (?e @ replicate (16 - ?n) 0)) pad)) = block_of ?t"
    by (simp only:)
  then show ?thesis by simp
qed

lemma ocb_roundtrip:
  assumes inv: "\<And>b. D (E b) = b" and enc: "CryptState_ocb_encrypt E nonce plain = (encrypted, tag)"
  shows "CryptState_ocb_decrypt E D nonce encrypted = (plain, tag)"
proof -
  obtain out d c left where r: "ocb_enc_loop E (E nonce) ZERO plain = (out, d, c, left)"
    by (metis prod_cases4)
  define n where "n = length left"
  define pad where "pad = E (blk_xor (len_block n) (S2 d))"
  define t where "t = block_of (left @ drop n (bytes_of pad))"
  define e where "e = take n (bytes_of (blk_xor pad t))"
  have n: "n \<le> 16" using ocb_enc_loop_length [OF r] by (simp add: n_def)
  have enc': "encrypted = out @ e" "tag = E (blk_xor (S3 (S2 d)) (blk_xor c t))"
    using enc by (simp_all add: CryptState_ocb_encrypt_def r Let_def n_def pad_def t_def e_def)
  from n have ne: "length e = n" by (simp add: e_def)
  then obtain out' where o: "ocb_dec_loop D (E nonce) ZERO encrypted = (out', d, c, e)" "out' @ left = plain"
    using ocb_dec_enc_loop [where D = D, OF inv r, of e] unfolding enc'(1) n_def by blast
  have "bytes_of t = left @ drop n (bytes_of pad)"
    unfolding t_def using n by (intro bytes_of_block_of) (simp add: n_def)
  then have tk: "take n (bytes_of t) = left" by (simp add: n_def)
  have lb: "blk_xor (block_of (e @ replicate (16 - n) 0)) pad = t"
    using last_block_roundtrip [of left pad] n by (simp add: n_def t_def e_def)
  have "CryptState_ocb_decrypt E D nonce encrypted =
      (out' @ take n (bytes_of t), E (blk_xor (S3 (S2 d)) (blk_xor c t)))"
    unfolding CryptState_ocb_decrypt_def o(1) Let_def by (simp add: ne pad_def [symmetric] lb)
  then show ?thesis by (simp add: tk o(2) enc'(2))
qed

lemma ocb_length:
  assumes "CryptState_ocb_encrypt E nonce plain = (encrypted, tag)"
  shows "length encrypted = length plain"
proof -
  obtain out d c left where r: "ocb_enc_loop E (E nonce) ZERO plain = (out, d, c, left)"
    by (metis prod_cases4)
  from assms ocb_enc_loop_length [OF r] show ?thesis
    by (auto simp: CryptState_ocb_encrypt_def r Let_def)
qed

section \<open>Properties\<close>

text \<open>C15: For any block cipher whose decryption inverts its encryption, OCB decryption of an encrypted
  message under the same nonce gives back the message and the same tag, and the ciphertext is as
  long as the message.\<close>

theorem ocb_decrypt_encrypt:
  assumes "\<And>b. D (E b) = b" and "CryptState_ocb_encrypt E nonce plain = (encrypted, tag)"
  shows "CryptState_ocb_decrypt E D nonce encrypted = (plain, tag) \<and> length encrypted = length plain"
  using ocb_roundtrip [OF assms] ocb_length [OF assms(2)] by blast

theorem ocb_decrypt_encrypt_witness:
  "CryptState_ocb_decrypt (\<lambda>(x, y). (y, x)) (\<lambda>(x, y). (y, x)) (1, 2)
     (fst (CryptState_ocb_encrypt (\<lambda>(x, y). (y, x)) (1, 2) [7, 8, 9])) =
   ([7, 8, 9], snd (CryptState_ocb_encrypt (\<lambda>(x, y). (y, x)) (1, 2) [7, 8, 9]))"
proof -
  obtain e t where e: "CryptState_ocb_encrypt (\<lambda>(x, y). (y, x)) (1, 2) [7, 8, 9] = (e, t)"
    by (metis prod.exhaust)
  have "(\<lambda>(x, y). (y, x)) ((\<lambda>(x, y). (y, x)) b) = b" for b :: block
    by (cases b) simp
  from ocb_decrypt_encrypt [OF this e] show ?thesis by (simp add: e)
qed

text \<open>The block operations \<open>S2\<close> and \<open>S3\<close> on two 64-bit subblocks are multiplication by \<open>x\<close> and by
  \<open>x + 1\<close> in GF(2^128), the field the mode is defined over.\<close>

theorem doubling_is_field_multiplication:
  "poly (S2 b) = xtimes (poly b) \<and> poly (S3 b) = xtimes (poly b) XOR poly b"
  by (simp add: poly_S2 S3_S2 poly_xor xor.commute)

end
