(* ===== verification/CryptState.thy ===== *)
theory CryptState
  imports Ocb Timer
begin

text \<open>
  The voice channel's crypt state (src/src/crypt.c, crypt.h): keys, the two nonces, the
  replay history and the packet statistics. \<open>CryptState_encrypt\<close> steps the sender's
  nonce and sends its lowest byte with each packet; \<open>CryptState_decrypt\<close> recovers the
  whole nonce from that byte, accepts late and lost packets within a window, and must
  leave the state alone when it rejects a packet. AES is the record \<open>aes\<close>: a key is
  the raw bytes \<open>AES_set_encrypt_key\<close> and \<open>AES_set_decrypt_key\<close> are given.
\<close>

section \<open>State\<close>

record aes =
  AES_encrypt :: "byte list \<Rightarrow> block \<Rightarrow> block"
  AES_decrypt :: "byte list \<Rightarrow> block \<Rightarrow> block"

text \<open>What the library documents: decryption undoes encryption under the same key.\<close>

definition aes_ok :: "aes \<Rightarrow> bool" where
  "aes_ok a \<longleftrightarrow> (\<forall>k b. AES_decrypt a k (AES_encrypt a k b) = b)"

record cryptState =
  raw_key :: "byte list"
  encrypt_iv :: "byte list"
  decrypt_iv :: "byte list"
  decrypt_history :: "byte list"
  uiGood :: u32
  uiLate :: u32
  uiLost :: u32
  uiResync :: u32
  uiRemoteGood :: u32
  uiRemoteLate :: u32
  uiRemoteLost :: u32
  uiRemoteResync :: u32
  encrypt_key :: "byte list"
  decrypt_key :: "byte list"
  tLastGood :: etimer
  tLastRequest :: etimer
  bInit :: bool

text \<open>The zeroed struct of a fresh client.\<close>

definition zero_cryptState :: cryptState where
  "zero_cryptState =
     \<lparr>raw_key = replicate 16 0, encrypt_iv = replicate 16 0, decrypt_iv = replicate 16 0,
      decrypt_history = replicate 256 0,
      uiGood = 0, uiLate = 0, uiLost = 0, uiResync = 0,
      uiRemoteGood = 0, uiRemoteLate = 0, uiRemoteLost = 0, uiRemoteResync = 0,
      encrypt_key = [], decrypt_key = [], tLastGood = 0, tLastRequest = 0, bInit = False\<rparr>"

text \<open>\<open>memset\<close> clears \<open>0xff\<close> of the \<open>0x100\<close> history bytes: the last one stays.\<close>

definition CryptState_init :: "u64 \<Rightarrow> cryptState \<Rightarrow> cryptState" where
  "CryptState_init now cs = cs\<lparr>
     decrypt_history := replicate 255 0 @ drop 255 (decrypt_history cs),
     raw_key := replicate 16 0, encrypt_iv := replicate 16 0, decrypt_iv := replicate 16 0,
     bInit := False,
     uiGood := 0, uiLate := 0, uiLost := 0, uiResync := 0,
     uiRemoteGood := 0, uiRemoteLate := 0, uiRemoteLost := 0, uiRemoteResync := 0,
     tLastGood := Timer_init now, tLastRequest := Timer_init now\<rparr>"

definition CryptState_isValid :: "cryptState \<Rightarrow> bool" where
  "CryptState_isValid cs = bInit cs"

text \<open>\<open>rnd\<close> is what the three calls of \<open>RAND_bytes\<close> return, 16 bytes each.\<close>

definition CryptState_genKey :: "byte list \<times> byte list \<times> byte list \<Rightarrow> cryptState \<Rightarrow> cryptState" where
  "CryptState_genKey rnd cs =
     (case rnd of (k, eiv, div_iv) \<Rightarrow>
       cs\<lparr>raw_key := k, encrypt_iv := eiv, decrypt_iv := div_iv,
          encrypt_key := k, decrypt_key := k, bInit := True\<rparr>)"

text \<open>The encryption key is set from \<open>decrypt_iv\<close>, not from \<open>raw_key\<close>.\<close>

definition CryptState_setKey ::
  "byte list \<Rightarrow> byte list \<Rightarrow> byte list \<Rightarrow> cryptState \<Rightarrow> cryptState" where
  "CryptState_setKey rkey eiv div_iv cs =
     cs\<lparr>raw_key := take 16 rkey, encrypt_iv := take 16 eiv, decrypt_iv := take 16 div_iv,
        encrypt_key := take 16 div_iv, decrypt_key := take 16 rkey, bInit := True\<rparr>"

definition CryptState_setDecryptIV :: "byte list \<Rightarrow> cryptState \<Rightarrow> cryptState" where
  "CryptState_setDecryptIV iv cs = cs\<lparr>decrypt_iv := take 16 iv\<rparr>"

section \<open>Nonces\<close>

text \<open>\<open>for (...) if (++iv[i]) break;\<close> and \<open>for (...) if (iv[i]--) break;\<close>\<close>

fun iv_inc :: "byte list \<Rightarrow> byte list" where
  "iv_inc [] = []"
| "iv_inc (b # bs) = (if b + 1 \<noteq> 0 then (b + 1) # bs else (b + 1) # iv_inc bs)"

fun iv_dec :: "byte list \<Rightarrow> byte list" where
  "iv_dec [] = []"
| "iv_dec (b # bs) = (if b \<noteq> 0 then (b - 1) # bs else (b - 1) # iv_dec bs)"

text \<open>The number a nonce stands for, least significant byte first.\<close>

fun iv_val :: "byte list \<Rightarrow> nat" where
  "iv_val [] = 0"
| "iv_val (b # bs) = unat b + 256 * iv_val bs"

lemma length_iv [simp]: "length (iv_inc bs) = length bs" "length (iv_dec bs) = length bs"
  by (induction bs) auto

lemma unat_plus1: "b + 1 \<noteq> (0 :: byte) \<Longrightarrow> unat (b + 1) = unat b + 1"
  by (metis add.commute unatSuc Suc_eq_plus1)

lemma plus1_zero: "b + 1 = (0 :: byte) \<Longrightarrow> unat b = 255"
proof -
  assume "b + 1 = 0"
  then have "b = - 1" by (simp add: eq_neg_iff_add_eq_0)
  then show ?thesis by (simp add: unsigned_minus_1_eq_mask mask_eq_exp_minus_1)
qed

lemma unat_byte: "unat (b :: byte) \<le> 255"
  using unsigned_less [of b, where ?'a = nat] by simp

lemma iv_val_bound: "iv_val bs < 256 ^ length bs"
proof (induction bs)
  case (Cons b bs)
  have "unat b \<le> 255" by (rule unat_byte)
  with Cons show ?case by (simp add: algebra_simps)
qed simp

lemma iv_val_inc: "iv_val (iv_inc bs) = (iv_val bs + 1) mod 256 ^ length bs"
proof (induction bs)
  case Nil
  then show ?case by simp
next
  case (Cons b bs)
  show ?case
  proof (cases "b + 1 = 0")
    case True
    then have "iv_val (b # bs) + 1 = 256 * (iv_val bs + 1)"
      by (simp add: plus1_zero)
    with True Cons show ?thesis
      by (simp add: mod_mult_mult1 del: iv_val.simps(2) mult_Suc_right) simp
  next
    case False
    then have "iv_val (iv_inc (b # bs)) = iv_val (b # bs) + 1"
      by (simp add: unat_plus1)
    moreover have "iv_val (iv_inc (b # bs)) < 256 ^ length (b # bs)"
      using iv_val_bound [of "iv_inc (b # bs)"] unfolding length_iv .
    ultimately show ?thesis by simp
  qed
qed

lemma iv_dec_inc: "iv_dec (iv_inc bs) = bs"
  by (induction bs) (auto simp: eq_neg_iff_add_eq_0 [symmetric])

lemma iv_inc_dec: "iv_inc (iv_dec bs) = bs"
  by (induction bs) auto

lemma iv_inject: "length xs = length ys \<Longrightarrow> iv_val xs = iv_val ys \<Longrightarrow> xs = ys"
proof (induction xs ys rule: list_induct2)
  case Nil
  then show ?case by simp
next
  case (Cons x xs y ys)
  have "unat x = iv_val (x # xs) mod 256" "unat y = iv_val (y # ys) mod 256"
    "iv_val xs = iv_val (x # xs) div 256" "iv_val ys = iv_val (y # ys) div 256"
    using unat_byte [of x] unat_byte [of y] by simp_all
  with Cons show ?case by (metis word_unat_eq_iff)
qed

section \<open>Packets\<close>

definition CryptState_encrypt :: "aes \<Rightarrow> byte list \<Rightarrow> cryptState \<Rightarrow> byte list \<times> cryptState" where
  "CryptState_encrypt a source cs =
     (let iv = iv_inc (encrypt_iv cs);
          (encrypted, tag) =
            CryptState_ocb_encrypt (AES_encrypt a (encrypt_key cs)) (block_of iv) source;
          t = bytes_of tag
      in ([iv ! 0, t ! 0, t ! 1, t ! 2] @ encrypted, cs\<lparr>encrypt_iv := iv\<rparr>))"

text \<open>
  The first half of \<open>CryptState_decrypt\<close>: the nonce the packet's first byte stands for,
  relative to the last one. \<open>None\<close> is an early \<open>return false\<close>; \<open>in_order\<close> tells
  which of the two outer branches was taken, since only the second one checks the history.
\<close>

record iv_step =
  new_iv :: "byte list"
  in_order :: bool
  restore :: bool
  late :: int
  lost :: int

definition recover_iv :: "byte list \<Rightarrow> byte \<Rightarrow> iv_step option" where
  "recover_iv iv ivbyte =
     (let iv0 = iv ! 0 in
      if iv0 + 1 = ivbyte then
        (if ivbyte > iv0 then
           Some \<lparr>new_iv = iv[0 := ivbyte], in_order = True, restore = False, late = 0, lost = 0\<rparr>
         else if ivbyte < iv0 then
           Some \<lparr>new_iv = ivbyte # iv_inc (tl iv), in_order = True, restore = False, late = 0, lost = 0\<rparr>
         else None)
      else
        (let diff0 = int (unat ivbyte) - int (unat iv0);
             diff = (if diff0 > 128 then diff0 - 256 else if diff0 < -128 then diff0 + 256 else diff0)
         in
         if ivbyte < iv0 \<and> diff > -30 \<and> diff < 0 then
           Some \<lparr>new_iv = iv[0 := ivbyte], in_order = False, restore = True, late = 1, lost = -1\<rparr>
         else if ivbyte > iv0 \<and> diff > -30 \<and> diff < 0 then
           Some \<lparr>new_iv = ivbyte # iv_dec (tl iv), in_order = False, restore = True, late = 1, lost = -1\<rparr>
         else if ivbyte > iv0 \<and> diff > 0 then
           Some \<lparr>new_iv = iv[0 := ivbyte], in_order = False, restore = False, late = 0,
                 lost = int (unat ivbyte) - int (unat iv0) - 1\<rparr>
         else if ivbyte < iv0 \<and> diff > 0 then
           Some \<lparr>new_iv = ivbyte # iv_inc (tl iv), in_order = False, restore = False, late = 0,
                 lost = 256 - int (unat iv0) + int (unat ivbyte) - 1\<rparr>
         else None))"

text \<open>The result, the bytes written to \<open>dst\<close> and the state.\<close>

definition CryptState_decrypt ::
  "aes \<Rightarrow> u64 \<Rightarrow> byte list \<Rightarrow> cryptState \<Rightarrow> bool \<times> byte list \<times> cryptState" where
  "CryptState_decrypt a now source cs =
     (if length source < 4 then (False, [], cs)
      else
        (let saveiv = decrypt_iv cs in
         case recover_iv saveiv (source ! 0) of
           None \<Rightarrow> (False, [], cs)
         | Some st \<Rightarrow>
             (let iv = new_iv st; cs1 = cs\<lparr>decrypt_iv := iv\<rparr> in
              if \<not> in_order st \<and> decrypt_history cs1 ! unat (iv ! 0) = iv ! 1
              then (False, [], cs1\<lparr>decrypt_iv := saveiv\<rparr>)
              else
                (let (plain, tag) =
                       CryptState_ocb_decrypt (AES_encrypt a (encrypt_key cs1)) (AES_decrypt a (decrypt_key cs1))
                         (block_of iv) (drop 4 source)
                 in
                 if take 3 (bytes_of tag) \<noteq> take 3 (drop 1 source)
                 then (False, plain, cs1\<lparr>decrypt_iv := saveiv\<rparr>)
                 else
                   (let cs2 = cs1\<lparr>decrypt_history := (decrypt_history cs1)[unat (iv ! 0) := iv ! 1]\<rparr>;
                        cs3 = (if restore st then cs2\<lparr>decrypt_iv := saveiv\<rparr> else cs2)
                    in (True, plain,
                        cs3\<lparr>uiGood := uiGood cs3 + 1,
                            uiLate := uiLate cs3 + word_of_int (late st),
                            uiLost := uiLost cs3 + word_of_int (lost st),
                            tLastGood := snd (Timer_restart now (tLastGood cs3))\<rparr>))))))"

section \<open>Well-formed states\<close>

text \<open>The array sizes of the struct.\<close>

definition wf_crypt :: "cryptState \<Rightarrow> bool" where
  "wf_crypt cs \<longleftrightarrow> length (encrypt_iv cs) = 16 \<and> length (decrypt_iv cs) = 16 \<and>
     length (decrypt_history cs) = 256 \<and> length (raw_key cs) = 16"

lemma wf_zero: "wf_crypt zero_cryptState"
  by (simp add: wf_crypt_def zero_cryptState_def)

lemma wf_init: "wf_crypt cs \<Longrightarrow> wf_crypt (CryptState_init now cs)"
  by (simp add: wf_crypt_def CryptState_init_def)

lemma wf_genKey:
  "wf_crypt cs \<Longrightarrow> length k = 16 \<Longrightarrow> length e = 16 \<Longrightarrow> length d = 16 \<Longrightarrow> wf_crypt (CryptState_genKey (k, e, d) cs)"
  by (simp add: wf_crypt_def CryptState_genKey_def)

lemma wf_encrypt: "wf_crypt cs \<Longrightarrow> CryptState_encrypt a src cs = (dst, cs') \<Longrightarrow> wf_crypt cs'"
  by (auto simp: wf_crypt_def CryptState_encrypt_def Let_def split: prod.splits)

lemma recover_iv_length: "recover_iv iv b = Some st \<Longrightarrow> length iv = 16 \<Longrightarrow> length (new_iv st) = 16"
  by (auto simp: recover_iv_def Let_def split: if_splits)

lemma wf_decrypt:
  assumes "wf_crypt cs" and "CryptState_decrypt a now src cs = (ok, dst, cs')"
  shows "wf_crypt cs'"
  using assms recover_iv_length [of "decrypt_iv cs"]
  by (auto simp: wf_crypt_def CryptState_decrypt_def Let_def split: if_splits option.splits prod.splits)

text \<open>A rejected packet changes nothing.\<close>

lemma decrypt_rejects_unchanged:
  "CryptState_decrypt a now src cs = (False, dst, cs') \<Longrightarrow> cs' = cs"
  by (auto simp: CryptState_decrypt_def Let_def split: if_splits option.splits prod.splits)

section \<open>Recovering the nonce\<close>

lemma unat_add_byte: "unat (b + of_nat k :: byte) = (unat b + k) mod 256"
  by (simp add: unat_word_ariths mod_add_right_eq unsigned_of_nat take_bit_eq_mod)

lemma iv_inc_iter:
  "k < 256 \<Longrightarrow> (iv_inc ^^ k) (b # bs) =
     (b + of_nat k) # (if unat b + k < 256 then bs else iv_inc bs)"
proof (induction k)
  case 0
  then show ?case using unat_byte [of b] by simp
next
  case (Suc k)
  have u: "unat (b + of_nat k) = (unat b + k) mod 256" by (rule unat_add_byte)
  have z: "b + of_nat k + 1 = 0 \<longleftrightarrow> unat b + k = 255"
  proof
    assume "b + of_nat k + 1 = 0"
    then have "(unat b + k) mod 256 = 255" using plus1_zero u by metis
    then show "unat b + k = 255"
      using Suc.prems unat_byte [of b] by (auto simp: mod_if split: if_splits)
  next
    assume "unat b + k = 255"
    then have "unat (b + of_nat (Suc k)) = 0" by (simp only: unat_add_byte) simp
    then have "b + of_nat (Suc k) = 0" by (simp only: unat_eq_zero)
    then show "b + of_nat k + 1 = 0" by (simp add: ac_simps)
  qed
  from Suc z show ?case by (auto simp: ac_simps)
qed

lemma iv_dec_iter:
  "k < 256 \<Longrightarrow> (iv_dec ^^ k) (b # bs) =
     (b - of_nat k) # (if k \<le> unat b then bs else iv_dec bs)"
proof (induction k)
  case 0
  then show ?case by simp
next
  case (Suc k)
  have "b - of_nat k = 0 \<longleftrightarrow> unat b = k"
  proof
    assume "b - of_nat k = 0"
    then have "unat b = unat (of_nat k :: byte)" by simp
    then show "unat b = k"
      using Suc.prems by (simp add: unsigned_of_nat take_bit_eq_mod)
  next
    assume "unat b = k"
    then show "b - of_nat k = 0" by auto
  qed
  with Suc show ?case by (auto simp: algebra_simps)
qed

lemma unat_sub_byte:
  assumes "k < 256"
  shows "unat (b - of_nat k :: byte) = (if k \<le> unat b then unat b - k else unat b + 256 - k)"
proof -
  have "unat ((b - of_nat k) + of_nat k) = (unat (b - of_nat k) + k) mod 256"
    by (rule unat_add_byte)
  then have "unat b = (unat (b - of_nat k) + k) mod 256" by simp
  then show ?thesis
    using assms unat_byte [of "b - of_nat k"] by (auto simp: mod_if split: if_splits)
qed

lemma recover_ahead:
  assumes "iv \<noteq> []" and "1 \<le> k" and "k \<le> 127"
  shows "recover_iv iv (((iv_inc ^^ k) iv) ! 0) =
    Some \<lparr>new_iv = (iv_inc ^^ k) iv, in_order = (k = 1), restore = False, late = 0, lost = int k - 1\<rparr>"
proof -
  obtain b bs where iv: "iv = b # bs" using assms(1) by (cases iv) auto
  have u: "unat (b + of_nat k) = (if unat b + k < 256 then unat b + k else unat b + k - 256)"
    using assms(3) unat_byte [of b] by (simp add: unat_add_byte mod_if)
  show ?thesis
  proof (cases "k = 1")
    case True
    show ?thesis
    proof (cases "b + 1 = 0")
      case zero: True
      then have "unat b = 255" by (rule plus1_zero)
      with True zero show ?thesis
        by (simp add: recover_iv_def iv Let_def word_less_nat_alt)
    next
      case False
      then have "unat (b + 1) = unat b + 1" by (rule unat_plus1)
      with True False show ?thesis
        by (simp add: recover_iv_def iv Let_def word_less_nat_alt)
    qed
  next
    case False
    have "of_nat k \<noteq> (1 :: byte)"
    proof
      assume "of_nat k = (1 :: byte)"
      then have "unat (of_nat k :: byte) = unat (1 :: byte)" by (simp only:)
      with assms(3) False show False by (simp add: unsigned_of_nat take_bit_eq_mod)
    qed
    then have "b + 1 \<noteq> b + of_nat k" by (metis add_left_cancel)
    with False assms(2,3) unat_byte [of b] show ?thesis
      by (simp add: recover_iv_def iv iv_inc_iter Let_def word_less_nat_alt u) arith
  qed
qed

lemma recover_late:
  assumes "iv \<noteq> []" and "1 \<le> k" and "k \<le> 29"
  shows "recover_iv iv (((iv_dec ^^ k) iv) ! 0) =
    Some \<lparr>new_iv = (iv_dec ^^ k) iv, in_order = False, restore = True, late = 1, lost = -1\<rparr>"
proof -
  obtain b bs where iv: "iv = b # bs" using assms(1) by (cases iv) auto
  have u: "unat (b - of_nat k) = (if k \<le> unat b then unat b - k else unat b + 256 - k)"
    using assms(3) by (intro unat_sub_byte) simp
  have one: "b + 1 \<noteq> b - of_nat k"
  proof
    assume "b + 1 = b - of_nat k"
    then have "(0 :: byte) + of_nat (Suc k) = 0" by (simp add: algebra_simps)
    then have "unat ((0 :: byte) + of_nat (Suc k)) = 0" by (simp only: unsigned_0)
    then show False using assms(3) by (simp only: unat_add_byte) simp
  qed
  show ?thesis
    using assms(2,3) unat_byte [of b]
    by (auto simp: recover_iv_def iv iv_dec_iter Let_def one word_less_nat_alt u)
qed

section \<open>Two ends of a channel\<close>

text \<open>The receiver has the sender's key and is \<open>k\<close> packets behind its nonce.\<close>

definition channel_ends :: "nat \<Rightarrow> cryptState \<Rightarrow> cryptState \<Rightarrow> bool" where
  "channel_ends k s r \<longleftrightarrow> wf_crypt s \<and> wf_crypt r \<and> encrypt_key r = encrypt_key s \<and>
     decrypt_key r = encrypt_key s \<and> encrypt_iv s = (iv_inc ^^ k) (decrypt_iv r)"

lemma encrypted_packet:
  assumes ok: "aes_ok a" and key: "encrypt_key r = encrypt_key s" "decrypt_key r = encrypt_key s"
    and enc: "CryptState_encrypt a plain s = (pkt, s')"
  obtains tag where "s' = s\<lparr>encrypt_iv := iv_inc (encrypt_iv s)\<rparr>" and "\<not> length pkt < 4"
    and "pkt ! 0 = iv_inc (encrypt_iv s) ! 0"
    and "CryptState_ocb_decrypt (AES_encrypt a (encrypt_key r)) (AES_decrypt a (decrypt_key r))
      (block_of (iv_inc (encrypt_iv s))) (drop 4 pkt) = (plain, tag)"
    and "take 3 (bytes_of tag) = take 3 (drop 1 pkt)"
proof -
  let ?iv = "iv_inc (encrypt_iv s)"
  obtain e tag where o: "CryptState_ocb_encrypt (AES_encrypt a (encrypt_key s)) (block_of ?iv) plain = (e, tag)"
    by (metis prod.exhaust)
  let ?t = "bytes_of tag"
  have pkt: "pkt = [?iv ! 0, ?t ! 0, ?t ! 1, ?t ! 2] @ e" and s': "s' = s\<lparr>encrypt_iv := ?iv\<rparr>"
    using enc o by (simp_all add: CryptState_encrypt_def Let_def)
  have inv: "AES_decrypt a (encrypt_key s) (AES_encrypt a (encrypt_key s) b) = b" for b
    using ok by (simp only: aes_ok_def)
  have "take 3 ?t = take 3 (drop 1 pkt)"
    by (rule nth_equalityI) (auto simp: pkt less_Suc_eq numeral_3_eq_3 numeral_2_eq_2)
  with that [OF s'] ocb_roundtrip [OF inv o] key show thesis
    by (simp add: pkt)
qed

lemma encrypt_decrypt:
  assumes ok: "aes_ok a" and ends: "channel_ends k s r" and k: "k \<le> 126"
    and enc: "CryptState_encrypt a plain s = (pkt, s')"
    and hist: "k = 0 \<or> decrypt_history r ! unat (encrypt_iv s' ! 0) \<noteq> encrypt_iv s' ! 1"
  shows "\<exists>r'. CryptState_decrypt a now pkt r = (True, plain, r') \<and> channel_ends 0 s' r' \<and>
    uiGood r' = uiGood r + 1 \<and> uiLost r' = uiLost r + of_nat k \<and> uiLate r' = uiLate r"
proof -
  let ?iv = "iv_inc (encrypt_iv s)"
  have key: "encrypt_key r = encrypt_key s" "decrypt_key r = encrypt_key s"
    using ends by (simp_all add: channel_ends_def)
  obtain tag where s': "s' = s\<lparr>encrypt_iv := ?iv\<rparr>" and len: "\<not> length pkt < 4"
    and pkt0: "pkt ! 0 = ?iv ! 0"
    and dec: "CryptState_ocb_decrypt (AES_encrypt a (encrypt_key r)) (AES_decrypt a (decrypt_key r))
      (block_of ?iv) (drop 4 pkt) = (plain, tag)"
    and t3: "take 3 (bytes_of tag) = take 3 (drop 1 pkt)"
    by (rule encrypted_packet [OF ok key enc])
  have iv: "?iv = (iv_inc ^^ Suc k) (decrypt_iv r)"
    using ends by (simp add: channel_ends_def)
  have ne: "decrypt_iv r \<noteq> []" using ends by (auto simp: channel_ends_def wf_crypt_def)
  have rec: "recover_iv (decrypt_iv r) (pkt ! 0) = Some \<lparr>new_iv = ?iv, in_order = (k = 0),
      restore = False, late = 0, lost = int k\<rparr>"
    using recover_ahead [OF ne, of "Suc k"] k iv by (simp add: pkt0 del: funpow.simps)
  have hist': "k = 0 \<or> decrypt_history r ! unat (?iv ! 0) \<noteq> ?iv ! 1"
    using hist by (simp add: s')
  have "\<exists>r'. CryptState_decrypt a now pkt r = (True, plain, r') \<and> decrypt_iv r' = ?iv \<and>
      encrypt_key r' = encrypt_key r \<and> decrypt_key r' = decrypt_key r \<and>
      uiGood r' = uiGood r + 1 \<and> uiLost r' = uiLost r + of_nat k \<and> uiLate r' = uiLate r"
    using hist' len by (auto simp: CryptState_decrypt_def Let_def rec dec t3)
  then obtain r' where r': "CryptState_decrypt a now pkt r = (True, plain, r')" "decrypt_iv r' = ?iv"
      "encrypt_key r' = encrypt_key r" "decrypt_key r' = decrypt_key r"
      "uiGood r' = uiGood r + 1" "uiLost r' = uiLost r + of_nat k" "uiLate r' = uiLate r"
    by blast
  moreover have "wf_crypt r'" "wf_crypt s'"
    using ends wf_decrypt [OF _ r'(1)] wf_encrypt [OF _ enc] by (auto simp: channel_ends_def)
  ultimately show ?thesis
    using ends by (auto simp: channel_ends_def s')
qed

section \<open>Late packets and replays\<close>

lemma decrypt_iv0:
  "recover_iv iv b = Some st \<Longrightarrow> iv \<noteq> [] \<Longrightarrow> new_iv st ! 0 = b"
  by (auto simp: recover_iv_def Let_def split: if_splits)

text \<open>Right after a packet has been accepted, the same packet is rejected.\<close>

lemma recover_same:
  "recover_iv iv b = None" if "iv ! 0 = b" for iv b
  using that by (auto simp: recover_iv_def Let_def)

lemma replay_rejected:
  assumes wf: "wf_crypt cs" and acc: "CryptState_decrypt a now pkt cs = (True, plain, cs')"
  shows "fst (CryptState_decrypt a now' pkt cs') = False"
proof -
  let ?iv = "decrypt_iv cs" and ?b = "pkt ! 0"
  have ne: "?iv \<noteq> []" using wf by (auto simp: wf_crypt_def)
  from acc obtain st where len: "\<not> length pkt < 4" and st: "recover_iv ?iv ?b = Some st"
    by (auto simp: CryptState_decrypt_def Let_def split: if_splits option.splits)
  have b: "new_iv st ! 0 = ?b" using decrypt_iv0 [OF st ne] .
  show ?thesis
  proof (cases "restore st")
    case False
    then have "decrypt_iv cs' = new_iv st"
      using acc st by (auto simp: CryptState_decrypt_def Let_def split: if_splits prod.splits)
    then have "recover_iv (decrypt_iv cs') ?b = None"
      using b by (intro recover_same) simp
    then show ?thesis using len by (simp add: CryptState_decrypt_def)
  next
    case True
    then have "\<not> in_order st"
      using st by (auto simp: recover_iv_def Let_def split: if_splits)
    moreover from True acc st have "decrypt_iv cs' = ?iv"
      "decrypt_history cs' = (decrypt_history cs)[unat (new_iv st ! 0) := new_iv st ! 1]"
      by (auto simp: CryptState_decrypt_def Let_def split: if_splits prod.splits)
    moreover have "unat (new_iv st ! 0) < length (decrypt_history cs)"
      using wf unat_byte [of "new_iv st ! 0"] by (simp add: wf_crypt_def)
    ultimately show ?thesis
      using st len by (simp add: CryptState_decrypt_def Let_def)
  qed
qed

text \<open>A late packet leaves the receiver's nonce where it was and takes one off \<open>uiLost\<close>.\<close>

lemma decrypt_late:
  assumes ok: "aes_ok a" and wf: "wf_crypt s" "wf_crypt r"
    and key: "encrypt_key r = encrypt_key s" "decrypt_key r = encrypt_key s"
    and k: "1 \<le> k" "k \<le> 29"
    and iv: "iv_inc (encrypt_iv s) = (iv_dec ^^ k) (decrypt_iv r)"
    and enc: "CryptState_encrypt a plain s = (pkt, s')"
    and hist: "decrypt_history r ! unat (encrypt_iv s' ! 0) \<noteq> encrypt_iv s' ! 1"
  shows "\<exists>r'. CryptState_decrypt a now pkt r = (True, plain, r') \<and> decrypt_iv r' = decrypt_iv r \<and>
    uiGood r' = uiGood r + 1 \<and> uiLost r' = uiLost r - 1 \<and> uiLate r' = uiLate r + 1"
proof -
  let ?iv = "iv_inc (encrypt_iv s)"
  obtain tag where s': "s' = s\<lparr>encrypt_iv := ?iv\<rparr>" and len: "\<not> length pkt < 4"
    and pkt0: "pkt ! 0 = ?iv ! 0"
    and dec: "CryptState_ocb_decrypt (AES_encrypt a (encrypt_key r)) (AES_decrypt a (decrypt_key r))
      (block_of ?iv) (drop 4 pkt) = (plain, tag)"
    and t3: "take 3 (bytes_of tag) = take 3 (drop 1 pkt)"
    by (rule encrypted_packet [OF ok key enc])
  have ne: "decrypt_iv r \<noteq> []" using wf by (auto simp: wf_crypt_def)
  have rec: "recover_iv (decrypt_iv r) (pkt ! 0) = Some \<lparr>new_iv = ?iv, in_order = False,
      restore = True, late = 1, lost = - 1\<rparr>"
    using recover_late [OF ne k] iv by (simp add: pkt0)
  have "decrypt_history r ! unat (?iv ! 0) \<noteq> ?iv ! 1"
    using hist by (simp add: s')
  then show ?thesis
    using len by (auto simp: CryptState_decrypt_def Let_def rec dec t3)
qed

section \<open>Properties\<close>

text \<open>C1: Between two ends with the same key, a packet that arrives after up to 126 lost ones decrypts to
  what was sent, resynchronises the receiver's nonce with the sender's, and counts exactly the lost
  packets.\<close>

theorem voice_packet_delivered:
  assumes "aes_ok a" and "channel_ends k s r" and "k \<le> 126"
    and "CryptState_encrypt a plain s = (pkt, s')"
    and "k = 0 \<or> decrypt_history r ! unat (encrypt_iv s' ! 0) \<noteq> encrypt_iv s' ! 1"
  shows "\<exists>r'. CryptState_decrypt a now pkt r = (True, plain, r') \<and> channel_ends 0 s' r' \<and>
    uiGood r' = uiGood r + 1 \<and> uiLost r' = uiLost r + of_nat k \<and> uiLate r' = uiLate r"
  using encrypt_decrypt [OF assms] .

definition example_aes :: aes where
  "example_aes = \<lparr>AES_encrypt = (\<lambda>k (x, y). (y, x)), AES_decrypt = (\<lambda>k (x, y). (y, x))\<rparr>"

definition example_end :: cryptState where
  "example_end = CryptState_genKey (replicate 16 1, replicate 16 5, replicate 16 5) zero_cryptState"

lemma example_ok: "aes_ok example_aes"
  by (simp add: aes_ok_def example_aes_def)

lemma example_ends: "channel_ends 0 example_end example_end"
  by (simp add: channel_ends_def example_end_def CryptState_genKey_def zero_cryptState_def wf_crypt_def)

theorem voice_packet_delivered_witness:
  "\<exists>r'. CryptState_decrypt example_aes 0 (fst (CryptState_encrypt example_aes [1, 2, 3] example_end)) example_end =
    (True, [1, 2, 3], r') \<and> uiGood r' = 1"
proof -
  obtain pkt s' where e: "CryptState_encrypt example_aes [1, 2, 3] example_end = (pkt, s')"
    by (metis prod.exhaust)
  have g: "uiGood example_end = 0"
    by (simp add: example_end_def CryptState_genKey_def zero_cryptState_def)
  have "0 = (0 :: nat) \<or> decrypt_history example_end ! unat (encrypt_iv s' ! 0) \<noteq> encrypt_iv s' ! 1" by simp
  from voice_packet_delivered [OF example_ok example_ends _ e this, of 0] g show ?thesis
    by (auto simp: e)
qed

text \<open>A packet that arrives up to 29 packets late is still decrypted; the receiver's nonce stays where
  it was, the packet is counted as late and is no longer counted as lost.\<close>

theorem late_packet_delivered:
  assumes "aes_ok a" and "wf_crypt s" and "wf_crypt r"
    and "encrypt_key r = encrypt_key s" and "decrypt_key r = encrypt_key s"
    and "1 \<le> k" and "k \<le> 29"
    and "iv_inc (encrypt_iv s) = (iv_dec ^^ k) (decrypt_iv r)"
    and "CryptState_encrypt a plain s = (pkt, s')"
    and "decrypt_history r ! unat (encrypt_iv s' ! 0) \<noteq> encrypt_iv s' ! 1"
  shows "\<exists>r'. CryptState_decrypt a now pkt r = (True, plain, r') \<and> decrypt_iv r' = decrypt_iv r \<and>
    uiGood r' = uiGood r + 1 \<and> uiLost r' = uiLost r - 1 \<and> uiLate r' = uiLate r + 1"
  using decrypt_late [OF assms] .

theorem late_packet_delivered_witness:
  "\<exists>r'. CryptState_decrypt example_aes 0
      (fst (CryptState_encrypt example_aes [9] (example_end\<lparr>encrypt_iv := 3 # replicate 15 5\<rparr>))) example_end =
    (True, [9], r') \<and> uiLate r' = 1"
proof -
  let ?s = "example_end\<lparr>encrypt_iv := 3 # replicate 15 5\<rparr>"
  obtain pkt s' where e: "CryptState_encrypt example_aes [9] ?s = (pkt, s')"
    by (metis prod.exhaust)
  then have s': "encrypt_iv s' = 4 # replicate 15 5"
    by (auto simp: CryptState_encrypt_def Let_def split: prod.splits)
  have five: "replicate 16 (5 :: byte) = 5 # replicate 15 5"
    by (metis replicate_Suc Suc_numeral semiring_norm(5) semiring_norm(2) semiring_norm(8) num.distinct eval_nat_numeral(3))
  have r: "wf_crypt ?s" "wf_crypt example_end" "encrypt_key example_end = encrypt_key ?s"
    "decrypt_key example_end = encrypt_key ?s" "uiLate example_end = 0"
    by (simp_all add: example_end_def CryptState_genKey_def zero_cryptState_def wf_crypt_def)
  have iv: "iv_inc (encrypt_iv ?s) = (iv_dec ^^ 1) (decrypt_iv example_end)"
    by (simp add: example_end_def CryptState_genKey_def zero_cryptState_def five)
  have h: "decrypt_history example_end ! unat (encrypt_iv s' ! 0) \<noteq> encrypt_iv s' ! 1"
    by (simp add: s' example_end_def CryptState_genKey_def zero_cryptState_def)
  from late_packet_delivered [OF example_ok r(1-4) _ _ iv e h, of 0] r(5) show ?thesis
    by (auto simp: e)
qed

text \<open>C27: Right after a packet has been accepted, in order, after losses or late, the same packet is
  rejected.\<close>

theorem replayed_packet_rejected:
  assumes "wf_crypt cs" and "CryptState_decrypt a now pkt cs = (True, plain, cs')"
  shows "fst (CryptState_decrypt a now' pkt cs') = False"
  using replay_rejected [OF assms] .

theorem replayed_packet_rejected_witness:
  "\<exists>r'. snd (snd (CryptState_decrypt example_aes 0 (fst (CryptState_encrypt example_aes [1] example_end)) example_end)) = r' \<and>
    fst (CryptState_decrypt example_aes 0 (fst (CryptState_encrypt example_aes [1] example_end)) r') = False"
proof -
  obtain pkt s' where e: "CryptState_encrypt example_aes [1] example_end = (pkt, s')"
    by (metis prod.exhaust)
  obtain r' where d: "CryptState_decrypt example_aes 0 pkt example_end = (True, [1], r')"
    using encrypt_decrypt [OF example_ok example_ends _ e] by fastforce
  have "wf_crypt example_end" using example_ends by (simp add: channel_ends_def)
  from replayed_packet_rejected [OF this d, of 0] show ?thesis by (simp add: e d)
qed

text \<open>A packet that is rejected, for its length, its place in the sequence, a replay or a wrong tag,
  leaves the whole crypt state as it was.\<close>

theorem rejected_packet_changes_nothing:
  assumes "CryptState_decrypt a now src cs = (False, dst, cs')"
  shows "cs' = cs"
  using decrypt_rejects_unchanged [OF assms] .

theorem rejected_packet_changes_nothing_witness:
  "snd (snd (CryptState_decrypt example_aes 0 [1, 2, 3] example_end)) = example_end"
proof -
  have "CryptState_decrypt example_aes 0 [1, 2, 3] example_end = (False, [], example_end)"
    by (simp add: CryptState_decrypt_def)
  from rejected_packet_changes_nothing [OF this] show ?thesis
    by (simp add: CryptState_decrypt_def)
qed

end
