(* ===== verification/Proto.thy ===== *)
theory Proto
  imports Prelude
begin

text \<open>
  The message structures of src/src/Mumble.pb-c.h that the server uses, with the values
  their \<open>INIT\<close> macros give, and the message type enumerations of src/src/messages.h.
  A \<open>has_\<close> flag and its field stay separate, because the handlers read some fields
  without testing the flag. A counted array is a list, a \<open>char *\<close> an optional string,
  a \<open>ProtobufCBinaryData\<close> a byte list, a \<open>float\<close> the 32 bits that represent it.
  Their wire format is in the theories \<open>PbWire\<close> to \<open>PbMumble\<close>.
\<close>

section \<open>Enumerations\<close>

text \<open>
  The last constructor of the first two stands for a number outside the enumeration, which a
  peer can send and the C variable then holds.
\<close>

datatype rejectType =
    RejectNone
  | WrongVersion
  | InvalidUsername
  | WrongUserPW
  | WrongServerPW
  | UsernameInUse
  | ServerFull
  | NoCertificate
  | RejectOther u32

datatype denyType =
    DenyText
  | DenyPermission
  | DenySuperUser
  | DenyChannelName
  | DenyTextTooLong
  | DenyH9K
  | DenyTemporaryChannel
  | DenyMissingCertificate
  | DenyUserName
  | DenyChannelFull
  | DenyOther u32

datatype messageType =
    Version | UDPTunnel | Authenticate | Ping | Reject
  | ServerSync | ChannelRemove | ChannelState | UserRemove | UserState
  | BanList | TextMessage | PermissionDenied | ACL | QueryUsers
  | CryptSetup | ContextActionAdd | ContextAction | UserList | VoiceTarget
  | PermissionQuery | CodecVersion | UserStats | RequestBlob | ServerConfig

text \<open>The numbers C gives the enumeration, used on the wire, and back.\<close>

definition message_types :: "messageType list" where
  "message_types =
     [Version, UDPTunnel, Authenticate, Ping, Reject, ServerSync, ChannelRemove, ChannelState,
      UserRemove, UserState, BanList, TextMessage, PermissionDenied, ACL, QueryUsers, CryptSetup,
      ContextActionAdd, ContextAction, UserList, VoiceTarget, PermissionQuery, CodecVersion,
      UserStats, RequestBlob, ServerConfig]"

fun type_num :: "messageType \<Rightarrow> nat" where
  "type_num Version = 0"
| "type_num UDPTunnel = 1"
| "type_num Authenticate = 2"
| "type_num Ping = 3"
| "type_num Reject = 4"
| "type_num ServerSync = 5"
| "type_num ChannelRemove = 6"
| "type_num ChannelState = 7"
| "type_num UserRemove = 8"
| "type_num UserState = 9"
| "type_num BanList = 10"
| "type_num TextMessage = 11"
| "type_num PermissionDenied = 12"
| "type_num ACL = 13"
| "type_num QueryUsers = 14"
| "type_num CryptSetup = 15"
| "type_num ContextActionAdd = 16"
| "type_num ContextAction = 17"
| "type_num UserList = 18"
| "type_num VoiceTarget = 19"
| "type_num PermissionQuery = 20"
| "type_num CodecVersion = 21"
| "type_num UserStats = 22"
| "type_num RequestBlob = 23"
| "type_num ServerConfig = 24"

definition type_of_num :: "nat \<Rightarrow> messageType option" where
  "type_of_num n = (if n < length message_types then Some (message_types ! n) else None)"

lemma type_of_type_num [simp]: "type_of_num (type_num t) = Some t"
  by (cases t) (simp_all add: type_of_num_def message_types_def)

lemma type_num_inject [simp]: "type_num s = type_num t \<longleftrightarrow> s = t"
  by (metis option.inject type_of_type_num)

lemma type_num_less: "type_num t < 25"
  by (cases t) simp_all

instantiation messageType :: linorder
begin

definition less_eq_messageType :: "messageType \<Rightarrow> messageType \<Rightarrow> bool" where
  "less_eq_messageType s t \<longleftrightarrow> type_num s \<le> type_num t"

definition less_messageType :: "messageType \<Rightarrow> messageType \<Rightarrow> bool" where
  "less_messageType s t \<longleftrightarrow> type_num s < type_num t"

instance
  by standard (auto simp: less_eq_messageType_def less_messageType_def)

end

section \<open>Message structures\<close>

record mp_Version =
  ver_has_version :: "bool"
  ver_version :: "u32"
  ver_release :: "string option"
  ver_os :: "string option"
  ver_os_version :: "string option"

definition init_Version :: mp_Version where
  "init_Version = \<lparr>ver_has_version = False,
     ver_version = 0,
     ver_release = None,
     ver_os = None,
     ver_os_version = None\<rparr>"

record mp_UDPTunnel =
  udp_packet :: "byte list"

definition init_UDPTunnel :: mp_UDPTunnel where
  "init_UDPTunnel = \<lparr>udp_packet = []\<rparr>"

record mp_Authenticate =
  auth_username :: "string option"
  auth_password :: "string option"
  auth_tokens :: "string list"
  auth_celt_versions :: "u32 list"

definition init_Authenticate :: mp_Authenticate where
  "init_Authenticate = \<lparr>auth_username = None,
     auth_password = None,
     auth_tokens = [],
     auth_celt_versions = []\<rparr>"

record mp_Ping =
  ping_has_timestamp :: "bool"
  ping_timestamp :: "u64"
  ping_has_good :: "bool"
  ping_good :: "u32"
  ping_has_late :: "bool"
  ping_late :: "u32"
  ping_has_lost :: "bool"
  ping_lost :: "u32"
  ping_has_resync :: "bool"
  ping_resync :: "u32"
  ping_has_udp_packets :: "bool"
  ping_udp_packets :: "u32"
  ping_has_tcp_packets :: "bool"
  ping_tcp_packets :: "u32"
  ping_has_udp_ping_avg :: "bool"
  ping_udp_ping_avg :: "u32"
  ping_has_udp_ping_var :: "bool"
  ping_udp_ping_var :: "u32"
  ping_has_tcp_ping_avg :: "bool"
  ping_tcp_ping_avg :: "u32"
  ping_has_tcp_ping_var :: "bool"
  ping_tcp_ping_var :: "u32"

definition init_Ping :: mp_Ping where
  "init_Ping = \<lparr>ping_has_timestamp = False,
     ping_timestamp = 0,
     ping_has_good = False,
     ping_good = 0,
     ping_has_late = False,
     ping_late = 0,
     ping_has_lost = False,
     ping_lost = 0,
     ping_has_resync = False,
     ping_resync = 0,
     ping_has_udp_packets = False,
     ping_udp_packets = 0,
     ping_has_tcp_packets = False,
     ping_tcp_packets = 0,
     ping_has_udp_ping_avg = False,
     ping_udp_ping_avg = 0,
     ping_has_udp_ping_var = False,
     ping_udp_ping_var = 0,
     ping_has_tcp_ping_avg = False,
     ping_tcp_ping_avg = 0,
     ping_has_tcp_ping_var = False,
     ping_tcp_ping_var = 0\<rparr>"

record mp_Reject =
  rej_has_type :: "bool"
  rej_type :: "rejectType"
  rej_reason :: "string option"

definition init_Reject :: mp_Reject where
  "init_Reject = \<lparr>rej_has_type = False,
     rej_type = RejectNone,
     rej_reason = None\<rparr>"

record mp_ServerConfig =
  scfg_has_max_bandwidth :: "bool"
  scfg_max_bandwidth :: "u32"
  scfg_welcome_text :: "string option"
  scfg_has_allow_html :: "bool"
  scfg_allow_html :: "bool"
  scfg_has_message_length :: "bool"
  scfg_message_length :: "u32"
  scfg_has_image_message_length :: "bool"
  scfg_image_message_length :: "u32"

definition init_ServerConfig :: mp_ServerConfig where
  "init_ServerConfig = \<lparr>scfg_has_max_bandwidth = False,
     scfg_max_bandwidth = 0,
     scfg_welcome_text = None,
     scfg_has_allow_html = False,
     scfg_allow_html = False,
     scfg_has_message_length = False,
     scfg_message_length = 0,
     scfg_has_image_message_length = False,
     scfg_image_message_length = 0\<rparr>"

record mp_ServerSync =
  sync_has_session :: "bool"
  sync_session :: "u32"
  sync_has_max_bandwidth :: "bool"
  sync_max_bandwidth :: "u32"
  sync_welcome_text :: "string option"
  sync_has_permissions :: "bool"
  sync_permissions :: "u64"

definition init_ServerSync :: mp_ServerSync where
  "init_ServerSync = \<lparr>sync_has_session = False,
     sync_session = 0,
     sync_has_max_bandwidth = False,
     sync_max_bandwidth = 0,
     sync_welcome_text = None,
     sync_has_permissions = False,
     sync_permissions = 0\<rparr>"

record mp_ChannelRemove =
  crem_channel_id :: "u32"

definition init_ChannelRemove :: mp_ChannelRemove where
  "init_ChannelRemove = \<lparr>crem_channel_id = 0\<rparr>"

record mp_ChannelState =
  cst_has_channel_id :: "bool"
  cst_channel_id :: "u32"
  cst_has_parent :: "bool"
  cst_parent :: "u32"
  cst_name :: "string option"
  cst_links :: "u32 list"
  cst_description :: "string option"
  cst_links_add :: "u32 list"
  cst_links_remove :: "u32 list"
  cst_has_temporary :: "bool"
  cst_temporary :: "bool"
  cst_has_position :: "bool"
  cst_position :: "u32"
  cst_has_description_hash :: "bool"
  cst_description_hash :: "byte list"

definition init_ChannelState :: mp_ChannelState where
  "init_ChannelState = \<lparr>cst_has_channel_id = False,
     cst_channel_id = 0,
     cst_has_parent = False,
     cst_parent = 0,
     cst_name = None,
     cst_links = [],
     cst_description = None,
     cst_links_add = [],
     cst_links_remove = [],
     cst_has_temporary = False,
     cst_temporary = False,
     cst_has_position = False,
     cst_position = 0,
     cst_has_description_hash = False,
     cst_description_hash = []\<rparr>"

record mp_UserRemove =
  urem_session :: "u32"
  urem_has_actor :: "bool"
  urem_actor :: "u32"
  urem_reason :: "string option"
  urem_has_ban :: "bool"
  urem_ban :: "bool"

definition init_UserRemove :: mp_UserRemove where
  "init_UserRemove = \<lparr>urem_session = 0,
     urem_has_actor = False,
     urem_actor = 0,
     urem_reason = None,
     urem_has_ban = False,
     urem_ban = False\<rparr>"

record mp_UserState =
  ust_has_session :: "bool"
  ust_session :: "u32"
  ust_has_actor :: "bool"
  ust_actor :: "u32"
  ust_name :: "string option"
  ust_has_user_id :: "bool"
  ust_user_id :: "u32"
  ust_has_channel_id :: "bool"
  ust_channel_id :: "u32"
  ust_has_mute :: "bool"
  ust_mute :: "bool"
  ust_has_deaf :: "bool"
  ust_deaf :: "bool"
  ust_has_suppress :: "bool"
  ust_suppress :: "bool"
  ust_has_self_mute :: "bool"
  ust_self_mute :: "bool"
  ust_has_self_deaf :: "bool"
  ust_self_deaf :: "bool"
  ust_has_texture :: "bool"
  ust_texture :: "byte list"
  ust_has_plugin_context :: "bool"
  ust_plugin_context :: "byte list"
  ust_plugin_identity :: "string option"
  ust_comment :: "string option"
  ust_hash :: "string option"
  ust_has_comment_hash :: "bool"
  ust_comment_hash :: "byte list"
  ust_has_texture_hash :: "bool"
  ust_texture_hash :: "byte list"
  ust_has_priority_speaker :: "bool"
  ust_priority_speaker :: "bool"
  ust_has_recording :: "bool"
  ust_recording :: "bool"

definition init_UserState :: mp_UserState where
  "init_UserState = \<lparr>ust_has_session = False,
     ust_session = 0,
     ust_has_actor = False,
     ust_actor = 0,
     ust_name = None,
     ust_has_user_id = False,
     ust_user_id = 0,
     ust_has_channel_id = False,
     ust_channel_id = 0,
     ust_has_mute = False,
     ust_mute = False,
     ust_has_deaf = False,
     ust_deaf = False,
     ust_has_suppress = False,
     ust_suppress = False,
     ust_has_self_mute = False,
     ust_self_mute = False,
     ust_has_self_deaf = False,
     ust_self_deaf = False,
     ust_has_texture = False,
     ust_texture = [],
     ust_has_plugin_context = False,
     ust_plugin_context = [],
     ust_plugin_identity = None,
     ust_comment = None,
     ust_hash = None,
     ust_has_comment_hash = False,
     ust_comment_hash = [],
     ust_has_texture_hash = False,
     ust_texture_hash = [],
     ust_has_priority_speaker = False,
     ust_priority_speaker = False,
     ust_has_recording = False,
     ust_recording = False\<rparr>"

record mp_TextMessage =
  txt_has_actor :: "bool"
  txt_actor :: "u32"
  txt_session :: "u32 list"
  txt_channel_id :: "u32 list"
  txt_tree_id :: "u32 list"
  txt_message :: "string option"

definition init_TextMessage :: mp_TextMessage where
  "init_TextMessage = \<lparr>txt_has_actor = False,
     txt_actor = 0,
     txt_session = [],
     txt_channel_id = [],
     txt_tree_id = [],
     txt_message = None\<rparr>"

record mp_PermissionDenied =
  deny_has_permission :: "bool"
  deny_permission :: "u32"
  deny_has_channel_id :: "bool"
  deny_channel_id :: "u32"
  deny_has_session :: "bool"
  deny_session :: "u32"
  deny_reason :: "string option"
  deny_has_type :: "bool"
  deny_type :: "denyType"
  deny_name :: "string option"

definition init_PermissionDenied :: mp_PermissionDenied where
  "init_PermissionDenied = \<lparr>deny_has_permission = False,
     deny_permission = 0,
     deny_has_channel_id = False,
     deny_channel_id = 0,
     deny_has_session = False,
     deny_session = 0,
     deny_reason = None,
     deny_has_type = False,
     deny_type = DenyText,
     deny_name = None\<rparr>"

record mp_CryptSetup =
  crs_has_key :: "bool"
  crs_key :: "byte list"
  crs_has_client_nonce :: "bool"
  crs_client_nonce :: "byte list"
  crs_has_server_nonce :: "bool"
  crs_server_nonce :: "byte list"

definition init_CryptSetup :: mp_CryptSetup where
  "init_CryptSetup = \<lparr>crs_has_key = False,
     crs_key = [],
     crs_has_client_nonce = False,
     crs_client_nonce = [],
     crs_has_server_nonce = False,
     crs_server_nonce = []\<rparr>"

record mp_UserList__User =
  usr_user_id :: "u32"
  usr_name :: "string option"

definition init_UserList__User :: mp_UserList__User where
  "init_UserList__User = \<lparr>usr_user_id = 0,
     usr_name = None\<rparr>"

record mp_UserList =
  ulist_users :: "mp_UserList__User list"

definition init_UserList :: mp_UserList where
  "init_UserList = \<lparr>ulist_users = []\<rparr>"

record mp_VoiceTarget__Target =
  vtt_session :: "u32 list"
  vtt_has_channel_id :: "bool"
  vtt_channel_id :: "u32"
  vtt_group :: "string option"
  vtt_has_links :: "bool"
  vtt_links :: "bool"
  vtt_has_children :: "bool"
  vtt_children :: "bool"

definition init_VoiceTarget__Target :: mp_VoiceTarget__Target where
  "init_VoiceTarget__Target = \<lparr>vtt_session = [],
     vtt_has_channel_id = False,
     vtt_channel_id = 0,
     vtt_group = None,
     vtt_has_links = False,
     vtt_links = False,
     vtt_has_children = False,
     vtt_children = False\<rparr>"

record mp_VoiceTarget =
  vt_has_id :: "bool"
  vt_id :: "u32"
  vt_targets :: "mp_VoiceTarget__Target list"

definition init_VoiceTarget :: mp_VoiceTarget where
  "init_VoiceTarget = \<lparr>vt_has_id = False,
     vt_id = 0,
     vt_targets = []\<rparr>"

record mp_PermissionQuery =
  pq_has_channel_id :: "bool"
  pq_channel_id :: "u32"
  pq_has_permissions :: "bool"
  pq_permissions :: "u32"
  pq_has_flush :: "bool"
  pq_flush :: "bool"

definition init_PermissionQuery :: mp_PermissionQuery where
  "init_PermissionQuery = \<lparr>pq_has_channel_id = False,
     pq_channel_id = 0,
     pq_has_permissions = False,
     pq_permissions = 0,
     pq_has_flush = False,
     pq_flush = False\<rparr>"

record mp_CodecVersion =
  cdv_alpha :: "u32"
  cdv_beta :: "u32"
  cdv_prefer_alpha :: "bool"

definition init_CodecVersion :: mp_CodecVersion where
  "init_CodecVersion = \<lparr>cdv_alpha = 0,
     cdv_beta = 0,
     cdv_prefer_alpha = True\<rparr>"

record mp_UserStats__Stats =
  stat_has_good :: "bool"
  stat_good :: "u32"
  stat_has_late :: "bool"
  stat_late :: "u32"
  stat_has_lost :: "bool"
  stat_lost :: "u32"
  stat_has_resync :: "bool"
  stat_resync :: "u32"

definition init_UserStats__Stats :: mp_UserStats__Stats where
  "init_UserStats__Stats = \<lparr>stat_has_good = False,
     stat_good = 0,
     stat_has_late = False,
     stat_late = 0,
     stat_has_lost = False,
     stat_lost = 0,
     stat_has_resync = False,
     stat_resync = 0\<rparr>"

record mp_UserStats =
  stats_has_session :: "bool"
  stats_session :: "u32"
  stats_has_stats_only :: "bool"
  stats_stats_only :: "bool"
  stats_certificates :: "(byte list) list"
  stats_from_client :: "mp_UserStats__Stats option"
  stats_from_server :: "mp_UserStats__Stats option"
  stats_has_udp_packets :: "bool"
  stats_udp_packets :: "u32"
  stats_has_tcp_packets :: "bool"
  stats_tcp_packets :: "u32"
  stats_has_udp_ping_avg :: "bool"
  stats_udp_ping_avg :: "u32"
  stats_has_udp_ping_var :: "bool"
  stats_udp_ping_var :: "u32"
  stats_has_tcp_ping_avg :: "bool"
  stats_tcp_ping_avg :: "u32"
  stats_has_tcp_ping_var :: "bool"
  stats_tcp_ping_var :: "u32"
  stats_version :: "mp_Version option"
  stats_celt_versions :: "u32 list"
  stats_has_address :: "bool"
  stats_address :: "byte list"
  stats_has_bandwidth :: "bool"
  stats_bandwidth :: "u32"
  stats_has_onlinesecs :: "bool"
  stats_onlinesecs :: "u32"
  stats_has_idlesecs :: "bool"
  stats_idlesecs :: "u32"
  stats_has_strong_certificate :: "bool"
  stats_strong_certificate :: "bool"

definition init_UserStats :: mp_UserStats where
  "init_UserStats = \<lparr>stats_has_session = False,
     stats_session = 0,
     stats_has_stats_only = False,
     stats_stats_only = False,
     stats_certificates = [],
     stats_from_client = None,
     stats_from_server = None,
     stats_has_udp_packets = False,
     stats_udp_packets = 0,
     stats_has_tcp_packets = False,
     stats_tcp_packets = 0,
     stats_has_udp_ping_avg = False,
     stats_udp_ping_avg = 0,
     stats_has_udp_ping_var = False,
     stats_udp_ping_var = 0,
     stats_has_tcp_ping_avg = False,
     stats_tcp_ping_avg = 0,
     stats_has_tcp_ping_var = False,
     stats_tcp_ping_var = 0,
     stats_version = None,
     stats_celt_versions = [],
     stats_has_address = False,
     stats_address = [],
     stats_has_bandwidth = False,
     stats_bandwidth = 0,
     stats_has_onlinesecs = False,
     stats_onlinesecs = 0,
     stats_has_idlesecs = False,
     stats_idlesecs = 0,
     stats_has_strong_certificate = False,
     stats_strong_certificate = False\<rparr>"

section \<open>Payloads\<close>

text \<open>
  The tagged union: \<open>messageType\<close> is the tag. A message of a type without a structure
  (\<open>BanList\<close> and the like) has no payload.
\<close>

datatype payload =
    P_Version mp_Version
  | P_UDPTunnel mp_UDPTunnel
  | P_Authenticate mp_Authenticate
  | P_Ping mp_Ping
  | P_Reject mp_Reject
  | P_ServerSync mp_ServerSync
  | P_ChannelRemove mp_ChannelRemove
  | P_ChannelState mp_ChannelState
  | P_UserRemove mp_UserRemove
  | P_UserState mp_UserState
  | P_TextMessage mp_TextMessage
  | P_PermissionDenied mp_PermissionDenied
  | P_CryptSetup mp_CryptSetup
  | P_UserList mp_UserList
  | P_VoiceTarget mp_VoiceTarget
  | P_PermissionQuery mp_PermissionQuery
  | P_CodecVersion mp_CodecVersion
  | P_UserStats mp_UserStats
  | P_ServerConfig mp_ServerConfig
  | P_none messageType

fun type_of :: "payload \<Rightarrow> messageType" where
  "type_of (P_Version p) = Version"
| "type_of (P_UDPTunnel p) = UDPTunnel"
| "type_of (P_Authenticate p) = Authenticate"
| "type_of (P_Ping p) = Ping"
| "type_of (P_Reject p) = Reject"
| "type_of (P_ServerSync p) = ServerSync"
| "type_of (P_ChannelRemove p) = ChannelRemove"
| "type_of (P_ChannelState p) = ChannelState"
| "type_of (P_UserRemove p) = UserRemove"
| "type_of (P_UserState p) = UserState"
| "type_of (P_TextMessage p) = TextMessage"
| "type_of (P_PermissionDenied p) = PermissionDenied"
| "type_of (P_CryptSetup p) = CryptSetup"
| "type_of (P_UserList p) = UserList"
| "type_of (P_VoiceTarget p) = VoiceTarget"
| "type_of (P_PermissionQuery p) = PermissionQuery"
| "type_of (P_CodecVersion p) = CodecVersion"
| "type_of (P_UserStats p) = UserStats"
| "type_of (P_ServerConfig p) = ServerConfig"
| "type_of (P_none t) = t"

end
