(* ===== verification/World.thy ===== *)
theory World
  imports CryptState Proto
begin

text \<open>
  The state of the server: the structures of client.h, channel.h, voicetarget.h and
  messages.h, the global variables of client.c and channel.c, the heap they live in and
  what the process exchanges with its environment. A pointer is a number; a store maps
  the live pointers of a type to their structures, so a read through a freed pointer is
  the fault \<open>UseAfterFree\<close>. The intrusive lists are lists of pointers (see DList).
\<close>

section \<open>Structures\<close>

type_synonym cref = nat
type_synonym chref = nat
type_synonym mref = nat

record sockaddr =
  sin_addr :: u32
  sin_port :: u16

record channel =
  ch_id :: int
  ch_name :: string
  ch_desc :: "string option"
  ch_parent :: "chref option"
  ch_temporary :: bool
  ch_noenter :: bool
  ch_subs :: "chref list"
  ch_clients :: "cref list"
  ch_links :: "chref list"
  ch_linkcount :: nat

record channeltarget =
  ct_channel :: int
  ct_linked :: bool
  ct_children :: bool

record voicetarget =
  vtg_id :: int
  vtg_channels :: "channeltarget list"
  vtg_sessions :: "int list"

record message =
  m_refcount :: int
  m_unpacked :: bool
  m_payload :: payload

record client =
  c_tcpfd :: int
  c_SSLready :: bool
  c_shutdown_wait :: bool
  c_cryptState :: cryptState
  c_readBlockedOnWrite :: bool
  c_writeBlockedOnRead :: bool
  c_remote_tcp :: sockaddr
  c_remote_udp :: sockaddr
  c_rxbuf :: "byte list"
  c_txbuf :: "byte list"
  c_rxcount :: nat
  c_msgsize :: nat
  c_txcount :: nat
  c_txsize :: nat
  c_sessionId :: int
  c_key :: u64
  c_username :: "string option"
  c_bUDP :: bool
  c_authenticated :: bool
  c_deaf :: bool
  c_mute :: bool
  c_recording :: bool
  c_os :: "string option"
  c_release :: "string option"
  c_os_version :: "string option"
  c_version :: u32
  c_codec_count :: nat
  c_codecs :: "u32 list"
  c_availableBandwidth :: int
  c_lastActivity :: etimer
  c_connectTime :: etimer
  c_idleTime :: etimer
  c_txMsgQueue :: "mref list"
  c_txQueueCount :: int
  c_channel :: "chref option"
  c_context :: "byte list option"
  c_voicetargets :: "voicetarget list"
  c_UDPPingAvg :: u32
  c_UDPPingVar :: u32
  c_TCPPingAvg :: u32
  c_TCPPingVar :: u32
  c_UDPPackets :: u32
  c_TCPPackets :: u32

abbreviation BUFSIZE :: nat where
  "BUFSIZE \<equiv> 8192"

definition zero_sockaddr :: sockaddr where
  "zero_sockaddr = \<lparr>sin_addr = 0, sin_port = 0\<rparr>"

text \<open>\<open>memset(newclient, 0, sizeof(client_t))\<close> and the empty lists.\<close>

definition zero_client :: client where
  "zero_client =
     \<lparr>c_tcpfd = 0, c_SSLready = False, c_shutdown_wait = False, c_cryptState = zero_cryptState,
      c_readBlockedOnWrite = False, c_writeBlockedOnRead = False,
      c_remote_tcp = zero_sockaddr, c_remote_udp = zero_sockaddr,
      c_rxbuf = replicate BUFSIZE 0, c_txbuf = replicate BUFSIZE 0,
      c_rxcount = 0, c_msgsize = 0, c_txcount = 0, c_txsize = 0,
      c_sessionId = 0, c_key = 0, c_username = None, c_bUDP = False,
      c_authenticated = False, c_deaf = False, c_mute = False, c_recording = False,
      c_os = None, c_release = None, c_os_version = None, c_version = 0,
      c_codec_count = 0, c_codecs = [], c_availableBandwidth = 0,
      c_lastActivity = 0, c_connectTime = 0, c_idleTime = 0,
      c_txMsgQueue = [], c_txQueueCount = 0, c_channel = None, c_context = None,
      c_voicetargets = [],
      c_UDPPingAvg = 0, c_UDPPingVar = 0, c_TCPPingAvg = 0, c_TCPPingVar = 0,
      c_UDPPackets = 0, c_TCPPackets = 0\<rparr>"

section \<open>Environment\<close>

text \<open>A setting of the configuration file, by its libconfig path.\<close>

datatype setting = SString string | SInt int | SBool bool | SOther

type_synonym config = "string \<Rightarrow> setting option"

text \<open>
  The functions of other components and libraries: serialisation (PbNet has the one of protobuf-c), AES, the random number generator
  (the three 16-byte strings of the n-th key), and the texts \<open>uname\<close> gives.
\<close>

record ext =
  pack :: "payload \<Rightarrow> byte list"
  unpack :: "messageType \<Rightarrow> byte list \<Rightarrow> payload parsed"
  x_aes :: aes
  rand_key :: "nat \<Rightarrow> byte list \<times> byte list \<times> byte list"
  system_string :: string
  version_string :: string

text \<open>
  What the TLS library answers. A write accepts some of the bytes or fails, a read
  delivers bytes (never more than asked for) or fails. The answers are numbered streams.
\<close>

datatype ssl_error = WANT_READ | WANT_WRITE | ZERO_RETURN | SYSCALL | SSL_OTHER

datatype write_answer = WAll | WSome nat | WFail ssl_error

datatype read_answer = RData "byte list" | RFail ssl_error

datatype accept_answer = Accepted | AcceptRetry | AcceptFailed

record tls =
  tls_write :: "nat \<Rightarrow> write_answer"
  tls_wn :: nat
  tls_read :: "nat \<Rightarrow> read_answer"
  tls_rn :: nat
  tls_pending :: "nat \<Rightarrow> bool"
  tls_pn :: nat
  tls_accept :: "nat \<Rightarrow> accept_answer"
  tls_an :: nat

text \<open>What the process does to the outside.\<close>

datatype event =
    TlsOut int "byte list"
  | UdpOut sockaddr "byte list"
  | TlsShutdown int
  | TlsFree int
  | CloseFd int

section \<open>The world\<close>

record world =
  w_clients :: "cref list"
  w_cstore :: "cref \<rightharpoonup> client"
  w_clientcount :: int
  w_maxBandwidth :: int
  w_iCodecAlpha :: u32
  w_iCodecBeta :: u32
  w_bPreferAlpha :: bool
  w_channels :: "chref list"
  w_chstore :: "chref \<rightharpoonup> channel"
  w_rootChan :: "chref option"
  w_defaultChan :: "chref option"
  w_mstore :: "mref \<rightharpoonup> message"
  w_next :: nat
  w_keys :: nat
  w_now :: u64
  w_conf :: config
  w_ext :: ext
  w_tls :: tls
  w_out :: "event list"

text \<open>The zero-initialised globals, with an empty heap.\<close>

definition boot_world :: "ext \<Rightarrow> tls \<Rightarrow> config \<Rightarrow> u64 \<Rightarrow> world" where
  "boot_world x t conf now =
     \<lparr>w_clients = [], w_cstore = Map.empty, w_clientcount = 0, w_maxBandwidth = 0,
      w_iCodecAlpha = 0, w_iCodecBeta = 0, w_bPreferAlpha = False,
      w_channels = [], w_chstore = Map.empty, w_rootChan = None, w_defaultChan = None,
      w_mstore = Map.empty, w_next = 0, w_keys = 0, w_now = now, w_conf = conf,
      w_ext = x, w_tls = t, w_out = []\<rparr>"

text \<open>A TLS layer that accepts every connection and every write and has nothing to read.\<close>

definition idle_tls :: tls where
  "idle_tls = \<lparr>tls_write = (\<lambda>_. WAll), tls_wn = 0, tls_read = (\<lambda>_. RFail WANT_READ), tls_rn = 0,
     tls_pending = (\<lambda>_. False), tls_pn = 0, tls_accept = (\<lambda>_. Accepted), tls_an = 0\<rparr>"

section \<open>Access through pointers\<close>

definition get_client :: "cref \<Rightarrow> (world, client) prog" where
  "get_client c = gets_the UseAfterFree (\<lambda>w. w_cstore w c)"

definition put_client :: "cref \<Rightarrow> client \<Rightarrow> world \<Rightarrow> world" where
  "put_client c cl w = w\<lparr>w_cstore := (w_cstore w)(c \<mapsto> cl)\<rparr>"

definition upd_client :: "cref \<Rightarrow> (client \<Rightarrow> client) \<Rightarrow> (world, unit) prog" where
  "upd_client c f = bnd (get_client c) (\<lambda>cl. modify (put_client c (f cl)))"

definition get_chan :: "chref \<Rightarrow> (world, channel) prog" where
  "get_chan ch = gets_the UseAfterFree (\<lambda>w. w_chstore w ch)"

definition put_chan :: "chref \<Rightarrow> channel \<Rightarrow> world \<Rightarrow> world" where
  "put_chan ch x w = w\<lparr>w_chstore := (w_chstore w)(ch \<mapsto> x)\<rparr>"

definition upd_chan :: "chref \<Rightarrow> (channel \<Rightarrow> channel) \<Rightarrow> (world, unit) prog" where
  "upd_chan ch f = bnd (get_chan ch) (\<lambda>x. modify (put_chan ch (f x)))"

definition get_msg :: "mref \<Rightarrow> (world, message) prog" where
  "get_msg m = gets_the UseAfterFree (\<lambda>w. w_mstore w m)"

definition put_msg :: "mref \<Rightarrow> message \<Rightarrow> world \<Rightarrow> world" where
  "put_msg m x w = w\<lparr>w_mstore := (w_mstore w)(m \<mapsto> x)\<rparr>"

definition deref :: "'a option \<Rightarrow> ('w, 'a) prog" where
  "deref p = (case p of None \<Rightarrow> fail NullDeref | Some x \<Rightarrow> ret x)"

definition emit :: "event \<Rightarrow> (world, unit) prog" where
  "emit e = modify (\<lambda>w. w\<lparr>w_out := w_out w @ [e]\<rparr>)"

text \<open>\<open>malloc\<close>: a pointer no object has had before.\<close>

definition fresh :: "(world, nat) prog" where
  "fresh = (\<lambda>w. Inr (w_next w, w\<lparr>w_next := Suc (w_next w)\<rparr>))"

lemma get_client_app [prog_simps]:
  "get_client c w = (case w_cstore w c of None \<Rightarrow> Inl UseAfterFree | Some x \<Rightarrow> Inr (x, w))"
  by (simp add: get_client_def gets_the_app)

lemma upd_client_app [prog_simps]:
  "upd_client c f w =
    (case w_cstore w c of None \<Rightarrow> Inl UseAfterFree | Some x \<Rightarrow> Inr ((), put_client c (f x) w))"
  by (simp add: upd_client_def bnd_def get_client_app modify_app split: option.split)

lemma get_chan_app [prog_simps]:
  "get_chan c w = (case w_chstore w c of None \<Rightarrow> Inl UseAfterFree | Some x \<Rightarrow> Inr (x, w))"
  by (simp add: get_chan_def gets_the_app)

lemma upd_chan_app [prog_simps]:
  "upd_chan c f w =
    (case w_chstore w c of None \<Rightarrow> Inl UseAfterFree | Some x \<Rightarrow> Inr ((), put_chan c (f x) w))"
  by (simp add: upd_chan_def bnd_def get_chan_app modify_app split: option.split)

lemma get_msg_app [prog_simps]:
  "get_msg m w = (case w_mstore w m of None \<Rightarrow> Inl UseAfterFree | Some x \<Rightarrow> Inr (x, w))"
  by (simp add: get_msg_def gets_the_app)

lemma deref_app [prog_simps]:
  "deref p w = (case p of None \<Rightarrow> Inl NullDeref | Some x \<Rightarrow> Inr (x, w))"
  by (simp add: deref_def fail_def ret_def split: option.split)

lemma emit_app [prog_simps]: "emit e w = Inr ((), w\<lparr>w_out := w_out w @ [e]\<rparr>)"
  by (simp add: emit_def modify_app)

lemma fresh_app [prog_simps]: "fresh w = Inr (w_next w, w\<lparr>w_next := Suc (w_next w)\<rparr>)"
  by (simp add: fresh_def)

lemma keeps_get_client [keeps_intros]: "keeps I (get_client c)"
  by (simp add: get_client_def keeps_gets_the)

lemma keeps_get_chan [keeps_intros]: "keeps I (get_chan c)"
  by (simp add: get_chan_def keeps_gets_the)

lemma keeps_get_msg [keeps_intros]: "keeps I (get_msg c)"
  by (simp add: get_msg_def keeps_gets_the)

lemma keeps_deref [keeps_intros]: "keeps I (deref p)"
  by (simp add: deref_def keeps_fail keeps_ret split: option.split)

lemma reads_get [reads_intros]:
  "reads (get_client c)" "reads (get_chan ch)" "reads (get_msg m)" "reads (deref p)"
  by (simp_all add: get_client_def get_chan_def get_msg_def deref_def reads_gets_the reads_fail reads_ret
      split: option.split)

section \<open>Loops over lists of clients\<close>

text \<open>
  The first entry that satisfies a test, reading each entry up to it: the searches over
  \<open>clients\<close>, a channel list and the like.
\<close>

fun search :: "('p \<Rightarrow> ('w, 'x) prog) \<Rightarrow> ('x \<Rightarrow> bool) \<Rightarrow> 'p list \<Rightarrow> ('w, 'p option) prog" where
  "search rd P [] = ret None"
| "search rd P (p # ps) = bnd (rd p) (\<lambda>x. if P x then ret (Some p) else search rd P ps)"

lemma reads_search [reads_intros]: "(\<And>p. reads (rd p)) \<Longrightarrow> reads (search rd P ps)"
  by (induction ps) (auto intro!: reads_intros)

lemma search_Some:
  assumes "search rd P ps w = Inr (Some p, w')" and "\<And>p. reads (rd p)"
  shows "p \<in> set ps \<and> (\<exists>x. rd p w = Inr (x, w) \<and> P x)"
  using assms(1)
proof (induction ps)
  case Nil
  then show ?case by (simp add: ret_app)
next
  case (Cons q ps)
  from Cons.prems obtain x where "rd q w = Inr (x, w)"
    "(if P x then ret (Some q) else search rd P ps) w = Inr (Some p, w')"
    by (auto elim!: bnd_readsE [OF _ assms(2)])
  with Cons.IH show ?case by (auto simp: ret_app split: if_splits)
qed

lemma search_None:
  assumes "search rd P ps w = Inr (None, w')" and "\<And>p. reads (rd p)" and "p \<in> set ps"
  shows "\<exists>x. rd p w = Inr (x, w) \<and> \<not> P x"
  using assms(1,3)
proof (induction ps)
  case Nil
  then show ?case by simp
next
  case (Cons q ps)
  from Cons.prems obtain x where "rd q w = Inr (x, w)"
    "(if P x then ret (Some q) else search rd P ps) w = Inr (None, w')"
    by (auto elim!: bnd_readsE [OF _ assms(2)])
  with Cons show ?case by (auto simp: ret_app split: if_splits)
qed

lemma search_total:
  assumes "\<And>p. p \<in> set ps \<Longrightarrow> rd p w = Inr (val p, w)"
  shows "search rd P ps w = Inr (find (\<lambda>p. P (val p)) ps, w)"
  using assms by (induction ps) (simp_all add: ret_app bnd_Inr)

text \<open>
  A loop over a list of clients whose body may change the list. After the body the loop
  follows the current entry's link: the fault \<open>UseAfterFree\<close> when the entry is gone,
  \<open>ListCorrupt\<close> when it has been unlinked, since its link then leads elsewhere. The
  recursion is over the entries the list had at the start, without those that have been
  unlinked meanwhile. That is where the links lead unless the body has put an entry
  (back) behind the current one, which ends the model's run with \<open>BeyondModel\<close>.
\<close>

definition entries_after :: "'p \<Rightarrow> 'p list \<Rightarrow> 'p list" where
  "entries_after x xs = tl (dropWhile (\<lambda>y. y \<noteq> x) xs)"

fun each_with :: "(world \<Rightarrow> cref list) \<Rightarrow> cref list \<Rightarrow> (cref \<Rightarrow> 'a \<Rightarrow> (world, 'a) prog) \<Rightarrow> 'a \<Rightarrow> (world, 'a) prog" where
  "each_with L [] body a = ret a"
| "each_with L (x # xs) body a = (\<lambda>w.
     if x \<notin> set (L w) then each_with L xs body a w
     else bnd (body x a) (\<lambda>a' w'.
       if w_cstore w' x = None then Inl UseAfterFree
       else if x \<notin> set (L w') then Inl ListCorrupt
       else if entries_after x (L w') \<noteq> filter (\<lambda>y. y \<in> set (L w')) xs then Inl BeyondModel
       else each_with L xs body a' w') w)"

definition each :: "(world \<Rightarrow> cref list) \<Rightarrow> cref list \<Rightarrow> (cref \<Rightarrow> (world, unit) prog) \<Rightarrow> (world, unit) prog" where
  "each L xs body = each_with L xs (\<lambda>c _. body c) ()"

text \<open>
  \<open>list_iterate_safe\<close>: the successor is read before the body runs, so the body may remove
  the current entry; a successor that the body removes is read after its release.
\<close>

function each_safe :: "(world \<Rightarrow> cref list) \<Rightarrow> cref list \<Rightarrow> (cref \<Rightarrow> (world, unit) prog) \<Rightarrow> (world, unit) prog" where
  "each_safe L [] body = ret ()"
| "each_safe L (x # xs) body = (\<lambda>w.
     let ys = filter (\<lambda>y. y \<in> set (L w)) xs in
     bnd (body x) (\<lambda>_ w'.
       if ys \<noteq> [] \<and> w_cstore w' (hd ys) = None then Inl UseAfterFree
       else each_safe L ys body w') w)"
  by pat_completeness auto

termination
  by (relation "measure (\<lambda>(L, xs, body). length xs)") (auto simp: le_imp_less_Suc length_filter_le)

text \<open>Read the structures of all entries of a list.\<close>

fun map_prog :: "('p \<Rightarrow> ('w, 'x) prog) \<Rightarrow> 'p list \<Rightarrow> ('w, 'x list) prog" where
  "map_prog rd [] = ret []"
| "map_prog rd (p # ps) = bnd (rd p) (\<lambda>x. bnd (map_prog rd ps) (\<lambda>xs. ret (x # xs)))"

definition chan_clients :: "chref \<Rightarrow> world \<Rightarrow> cref list" where
  "chan_clients ch w = (case w_chstore w ch of None \<Rightarrow> [] | Some x \<Rightarrow> ch_clients x)"

definition each_client :: "(cref \<Rightarrow> (world, unit) prog) \<Rightarrow> (world, unit) prog" where
  "each_client body = (\<lambda>w. each w_clients (w_clients w) body w)"

definition each_chan_client :: "chref \<Rightarrow> (cref \<Rightarrow> (world, unit) prog) \<Rightarrow> (world, unit) prog" where
  "each_chan_client ch body =
     bnd (get_chan ch) (\<lambda>x w. each (chan_clients ch) (ch_clients x) body w)"

text \<open>The same for a loop over the flat list of channels.\<close>

fun each_chan :: "chref list \<Rightarrow> (chref \<Rightarrow> (world, unit) prog) \<Rightarrow> (world, unit) prog" where
  "each_chan [] body = ret ()"
| "each_chan (x # xs) body = (\<lambda>w.
     if x \<notin> set (w_channels w) then each_chan xs body w
     else bnd (body x) (\<lambda>_ w'.
       if w_chstore w' x = None then Inl UseAfterFree
       else if entries_after x (w_channels w') \<noteq> filter (\<lambda>y. y \<in> set (w_channels w')) xs then Inl BeyondModel
       else each_chan xs body w') w)"

lemma entries_after_suffix: "x \<notin> set us \<Longrightarrow> entries_after x (us @ x # xs) = xs"
  by (induction us) (auto simp: entries_after_def)

lemma keeps_each_chan [keeps_intros]:
  assumes "\<And>ch. keeps I (body ch)"
  shows "keeps I (each_chan xs body)"
proof (induction xs)
  case Nil
  then show ?case by (simp add: keeps_ret)
next
  case (Cons x xs)
  show ?case
  proof (rule keepsI)
    fix w r w' assume I: "I w" and run: "each_chan (x # xs) body w = Inr (r, w')"
    show "I w'"
    proof (cases "x \<in> set (w_channels w)")
      case False
      with run I keepsD [OF Cons] show ?thesis by simp
    next
      case True
      with run obtain u w1 where "body x w = Inr (u, w1)" "each_chan xs body w1 = Inr (r, w')"
        by (auto elim: bndE split: if_split_asm)
      with keepsD [OF assms _ I] keepsD [OF Cons] show ?thesis by blast
    qed
  qed
qed

lemma keeps_search [keeps_intros]: "(\<And>p. keeps I (rd p)) \<Longrightarrow> keeps I (search rd P ps)"
  by (induction ps) (auto intro!: keeps_ret keeps_bnd)

lemma reads_map_prog [reads_intros]: "(\<And>p. reads (rd p)) \<Longrightarrow> reads (map_prog rd ps)"
  by (induction ps) (auto intro!: reads_intros)

lemma map_prog_result:
  "map_prog rd ps w = Inr (xs, w') \<Longrightarrow> (\<And>p. reads (rd p)) \<Longrightarrow>
   list_all2 (\<lambda>p x. rd p w = Inr (x, w)) ps xs"
proof (induction ps arbitrary: xs w')
  case Nil
  then show ?case by (simp add: ret_app)
next
  case (Cons p ps)
  from Cons.prems(1) obtain x ys where "rd p w = Inr (x, w)" "map_prog rd ps w = Inr (ys, w)" "xs = x # ys"
    by (auto elim!: bnd_readsE intro!: Cons.prems(2) reads_map_prog simp: ret_app)
  with Cons show ?case by simp
qed

lemma map_prog_total:
  "(\<And>p. p \<in> set ps \<Longrightarrow> rd p w = Inr (val p, w)) \<Longrightarrow> map_prog rd ps w = Inr (map val ps, w)"
  by (induction ps) (simp_all add: ret_app bnd_Inr)

lemma each_with_step:
  assumes "each_with L (x # xs) body a w = Inr (r, w')"
  shows "(x \<notin> set (L w) \<and> each_with L xs body a w = Inr (r, w')) \<or>
    (\<exists>a1 w1. body x a w = Inr (a1, w1) \<and> each_with L xs body a1 w1 = Inr (r, w'))"
proof (cases "x \<in> set (L w)")
  case False
  with assms show ?thesis by simp
next
  case True
  with assms have "bnd (body x a) (\<lambda>a' w'. if w_cstore w' x = None then Inl UseAfterFree
      else if x \<notin> set (L w') then Inl ListCorrupt
      else if entries_after x (L w') \<noteq> filter (\<lambda>y. y \<in> set (L w')) xs then Inl BeyondModel
      else each_with L xs body a' w') w = Inr (r, w')"
    by simp
  then show ?thesis by (rule bndE) (auto split: if_splits)
qed

lemma keeps_each_with [keeps_intros]:
  assumes "\<And>c a. keeps I (body c a)"
  shows "keeps I (each_with L xs body a)"
proof (induction xs arbitrary: a)
  case Nil
  then show ?case by (simp add: keeps_ret)
next
  case (Cons x xs)
  show ?case
  proof (rule keepsI)
    fix w r w' assume I: "I w" and "each_with L (x # xs) body a w = Inr (r, w')"
    from each_with_step [OF this(2)] keepsD [OF Cons _ I] keepsD [OF Cons] keepsD [OF assms _ I]
    show "I w'" by blast
  qed
qed

lemma keeps_each [keeps_intros]: "(\<And>c. keeps I (body c)) \<Longrightarrow> keeps I (each L xs body)"
  unfolding each_def by (rule keeps_each_with)

lemma keeps_each_safe [keeps_intros]:
  assumes "\<And>c. keeps I (body c)"
  shows "keeps I (each_safe L xs body)"
proof (induction xs rule: measure_induct_rule [of length])
  case (less xs)
  show ?case
  proof (cases xs)
    case Nil
    then show ?thesis by (simp add: keeps_ret)
  next
    case (Cons x ys)
    show ?thesis
    proof (rule keepsI)
      fix w r w' assume I: "I w" and run: "each_safe L xs body w = Inr (r, w')"
      let ?zs = "filter (\<lambda>y. y \<in> set (L w)) ys"
      from run Cons obtain u w1 where b: "body x w = Inr (u, w1)"
        and r: "(if ?zs \<noteq> [] \<and> w_cstore w1 (hd ?zs) = None then Inl UseAfterFree else each_safe L ?zs body w1) = Inr (r, w')"
        by (auto simp: Let_def elim: bndE)
      from r have "each_safe L ?zs body w1 = Inr (r, w')" by (simp split: if_split_asm)
      moreover have "length ?zs < length xs" by (simp add: Cons le_imp_less_Suc)
      ultimately show "I w'" using keepsD [OF less] keepsD [OF assms b I] by blast
    qed
  qed
qed

lemma keeps_each_client [keeps_intros]: "(\<And>c. keeps I (body c)) \<Longrightarrow> keeps I (each_client body)"
  unfolding each_client_def by (rule keepsI) (rule keepsD [OF keeps_each])

lemma keeps_each_chan_client [keeps_intros]:
  "(\<And>c. keeps I (body c)) \<Longrightarrow> keeps I (each_chan_client ch body)"
  unfolding each_chan_client_def by (intro keeps_bnd keeps_get_chan keeps_each)

end
