(* ===== verification/Messages.thy ===== *)
theory Messages
  imports World
begin

text \<open>
  The messages of messages.c: the six-byte preamble, building and reading the network
  form, and the reference counted \<open>message_t\<close>. Serialising a payload is the
  interface \<open>wire_format\<close>, with the functions \<open>pack\<close> and \<open>unpack\<close> of \<open>ext\<close>, which PbNet
  implements with protobuf-c. The memory inside a payload (its strings) is part of the payload's value.
\<close>

section \<open>Preamble\<close>

abbreviation PREAMBLE_SIZE :: nat where
  "PREAMBLE_SIZE \<equiv> 6"

definition Msg_addPreamble :: "byte list \<Rightarrow> u16 \<Rightarrow> u32 \<Rightarrow> byte list" where
  "Msg_addPreamble buffer type len = buffer
     [1 := ucast (type AND 0xff),
      0 := ucast (drop_bit 8 type AND 0xff),
      5 := ucast (len AND 0xff),
      4 := ucast (drop_bit 8 len AND 0xff),
      3 := ucast (drop_bit 16 len AND 0xff),
      2 := ucast (drop_bit 24 len AND 0xff)]"

definition Msg_getPreamble :: "byte list \<Rightarrow> int \<times> int" where
  "Msg_getPreamble buffer =
     (let msgType = (ucast (buffer ! 1) OR push_bit 8 (ucast (buffer ! 0)) :: u16);
          msgLen = (ucast (buffer ! 5) OR push_bit 8 (ucast (buffer ! 4)) OR
                    push_bit 16 (ucast (buffer ! 3)) OR push_bit 24 (ucast (buffer ! 2)) :: u32)
      in (uint msgType, int_of_u32 msgLen))"

section \<open>To the network\<close>

abbreviation MAX_MSGSIZE :: nat where
  "MAX_MSGSIZE \<equiv> BUFSIZE - PREAMBLE_SIZE"

text \<open>
  The common case of \<open>Msg_messageToNetwork\<close>: a payload that is too big is not written,
  and its length is returned all the same. For a tunnelled voice packet \<open>len\<close> has no
  value yet when the packet is too big.
\<close>

definition packed :: "messageType \<Rightarrow> byte list \<Rightarrow> byte list \<Rightarrow> fault + nat \<times> byte list" where
  "packed t bytes buffer =
     (let len = length bytes
      in if len > MAX_MSGSIZE then Inr (len + PREAMBLE_SIZE, buffer)
         else Inr (len + PREAMBLE_SIZE,
                   overwrite (Msg_addPreamble buffer (of_nat (type_num t)) (of_nat len)) PREAMBLE_SIZE bytes))"

definition tunnelled :: "byte list \<Rightarrow> byte list \<Rightarrow> fault + nat \<times> byte list" where
  "tunnelled packet buffer =
     (if length packet > MAX_MSGSIZE then Inl Uninitialised
      else Inr (length packet + PREAMBLE_SIZE,
                overwrite (Msg_addPreamble buffer (of_nat (type_num UDPTunnel)) (of_nat (length packet)))
                  PREAMBLE_SIZE packet))"

definition Msg_messageToNetwork :: "ext \<Rightarrow> payload \<Rightarrow> byte list \<Rightarrow> fault + nat \<times> byte list" where
  "Msg_messageToNetwork x payload buffer = (case payload of
    P_Version p \<Rightarrow> packed Version (pack x (P_Version p)) buffer
  | P_UDPTunnel p \<Rightarrow> tunnelled (udp_packet p) buffer
  | P_Authenticate p \<Rightarrow> packed Authenticate (pack x (P_Authenticate p)) buffer
  | P_Ping p \<Rightarrow> packed Ping (pack x (P_Ping p)) buffer
  | P_Reject p \<Rightarrow> packed Reject (pack x (P_Reject p)) buffer
  | P_ServerSync p \<Rightarrow> packed ServerSync (pack x (P_ServerSync p)) buffer
  | P_TextMessage p \<Rightarrow> packed TextMessage (pack x (P_TextMessage p)) buffer
  | P_PermissionDenied p \<Rightarrow> packed PermissionDenied (pack x (P_PermissionDenied p)) buffer
  | P_CryptSetup p \<Rightarrow> packed CryptSetup (pack x (P_CryptSetup p)) buffer
  | P_UserList p \<Rightarrow> packed UserList (pack x (P_UserList p)) buffer
  | P_UserState p \<Rightarrow> packed UserState (pack x (P_UserState p)) buffer
  | P_UserRemove p \<Rightarrow> packed UserRemove (pack x (P_UserRemove p)) buffer
  | P_ChannelState p \<Rightarrow> packed ChannelState (pack x (P_ChannelState p)) buffer
  | P_VoiceTarget p \<Rightarrow> packed VoiceTarget (pack x (P_VoiceTarget p)) buffer
  | P_CodecVersion p \<Rightarrow> packed CodecVersion (pack x (P_CodecVersion p)) buffer
  | P_PermissionQuery p \<Rightarrow> packed PermissionQuery (pack x (P_PermissionQuery p)) buffer
  | P_ChannelRemove p \<Rightarrow> packed ChannelRemove (pack x (P_ChannelRemove p)) buffer
  | P_UserStats p \<Rightarrow> packed UserStats (pack x (P_UserStats p)) buffer
  | P_ServerConfig p \<Rightarrow> packed ServerConfig (pack x (P_ServerConfig p)) buffer
  | P_none t \<Rightarrow> Inr (0, buffer))"

section \<open>Creation and references\<close>

definition Msg_create_nopayload :: "messageType \<Rightarrow> (world, mref) prog" where
  "Msg_create_nopayload t =
     bnd fresh (\<lambda>m.
     bnd (modify (put_msg m \<lparr>m_refcount = 1, m_unpacked = False, m_payload = P_none t\<rparr>)) (\<lambda>_.
     ret m))"

definition set_payload :: "mref \<Rightarrow> (payload \<Rightarrow> payload) \<Rightarrow> (world, unit) prog" where
  "set_payload m f = bnd (get_msg m) (\<lambda>msg. modify (put_msg m (msg\<lparr>m_payload := f (m_payload msg)\<rparr>)))"

definition initial_payload :: "messageType \<Rightarrow> payload" where
  "initial_payload t =
     (case t of
       Version \<Rightarrow> P_Version init_Version
     | UDPTunnel \<Rightarrow> P_UDPTunnel init_UDPTunnel
     | Authenticate \<Rightarrow> P_Authenticate init_Authenticate
     | Ping \<Rightarrow> P_Ping init_Ping
     | Reject \<Rightarrow> P_Reject init_Reject
     | ServerSync \<Rightarrow> P_ServerSync init_ServerSync
     | TextMessage \<Rightarrow> P_TextMessage init_TextMessage
     | PermissionDenied \<Rightarrow> P_PermissionDenied init_PermissionDenied
     | CryptSetup \<Rightarrow> P_CryptSetup init_CryptSetup
     | UserList \<Rightarrow> P_UserList init_UserList
     | UserState \<Rightarrow> P_UserState init_UserState
     | ChannelState \<Rightarrow> P_ChannelState init_ChannelState
     | UserRemove \<Rightarrow> P_UserRemove init_UserRemove
     | VoiceTarget \<Rightarrow> P_VoiceTarget init_VoiceTarget
     | CodecVersion \<Rightarrow> P_CodecVersion init_CodecVersion
     | PermissionQuery \<Rightarrow> P_PermissionQuery init_PermissionQuery
     | ChannelRemove \<Rightarrow> P_ChannelRemove init_ChannelRemove
     | UserStats \<Rightarrow> P_UserStats (init_UserStats
         \<lparr>stats_from_client := Some init_UserStats__Stats,
          stats_from_server := Some init_UserStats__Stats,
          stats_version := Some init_Version\<rparr>)
     | ServerConfig \<Rightarrow> P_ServerConfig init_ServerConfig
     | _ \<Rightarrow> P_none t)"

definition Msg_create :: "messageType \<Rightarrow> (world, mref) prog" where
  "Msg_create t =
     bnd (Msg_create_nopayload t) (\<lambda>m.
     bnd (set_payload m (\<lambda>_. initial_payload t)) (\<lambda>_.
     ret m))"

definition Msg_inc_ref :: "mref \<Rightarrow> (world, unit) prog" where
  "Msg_inc_ref m = bnd (get_msg m) (\<lambda>msg. modify (put_msg m (msg\<lparr>m_refcount := m_refcount msg + 1\<rparr>)))"

text \<open>
  Freeing the payload of a message that never got one: the branches that look into the
  payload first read through a null pointer, the others only \<open>free\<close> it.
\<close>

definition reads_payload :: "messageType \<Rightarrow> bool" where
  "reads_payload t \<longleftrightarrow> t \<in> {Version, UDPTunnel, Reject, ServerSync, TextMessage, PermissionDenied,
     UserState, ChannelState, UserStats}"

definition supported :: "messageType \<Rightarrow> bool" where
  "supported t \<longleftrightarrow> initial_payload t \<noteq> P_none t"

definition free_payload :: "message \<Rightarrow> (world, unit) prog" where
  "free_payload msg =
     (case m_payload msg of
        P_none t \<Rightarrow> if supported t \<and> (m_unpacked msg \<or> reads_payload t) then fail NullDeref else ret ()
      | _ \<Rightarrow> ret ())"

definition Msg_free :: "mref \<Rightarrow> (world, unit) prog" where
  "Msg_free m =
     bnd (get_msg m) (\<lambda>msg.
     let refcount = (if m_refcount msg \<noteq> 0 then m_refcount msg - 1 else m_refcount msg) in
     bnd (modify (put_msg m (msg\<lparr>m_refcount := refcount\<rparr>))) (\<lambda>_.
     if refcount > 0 then ret ()
     else bnd (free_payload msg) (\<lambda>_.
          modify (\<lambda>w. w\<lparr>w_mstore := (w_mstore w)(m := None)\<rparr>))))"

definition Msg_CreateVoiceMsg :: "byte list \<Rightarrow> (world, mref) prog" where
  "Msg_CreateVoiceMsg packet =
     bnd (Msg_create_nopayload UDPTunnel) (\<lambda>m.
     bnd (set_payload m (\<lambda>_. P_UDPTunnel \<lparr>udp_packet = packet\<rparr>)) (\<lambda>_.
     ret m))"

section \<open>From the network\<close>

definition unpacked_msg :: "messageType \<Rightarrow> byte list \<Rightarrow> (world, mref option) prog" where
  "unpacked_msg t body =
     bnd (Msg_create_nopayload t) (\<lambda>m.
     bnd (get_msg m) (\<lambda>msg.
     bnd (gets (\<lambda>w. unpack (w_ext w) t body)) (\<lambda>p.
     case p of
       Overrun \<Rightarrow> fail OutOfBounds
     | Rejected \<Rightarrow> bnd (modify (\<lambda>w. w\<lparr>w_mstore := (w_mstore w)(m := None)\<rparr>)) (\<lambda>_. ret None)
     | Parsed p \<Rightarrow> bnd (modify (put_msg m (msg\<lparr>m_unpacked := True, m_payload := p\<rparr>))) (\<lambda>_. ret (Some m)))))"

text \<open>
  \<open>data\<close> is the receive buffer. A length beyond it, or a negative one, is a read outside
  the buffer.
\<close>

definition Msg_networkToMessage :: "byte list \<Rightarrow> (world, mref option) prog" where
  "Msg_networkToMessage data =
     (case Msg_getPreamble data of (messageType, msgLen) \<Rightarrow>
      if length data < 6 \<or> msgLen < 0 \<or> 6 + nat msgLen > length data then fail OutOfBounds
      else let body = take (nat msgLen) (drop 6 data) in
      case type_of_num (nat messageType) of
       Some UDPTunnel \<Rightarrow> bnd (Msg_CreateVoiceMsg body) (\<lambda>m. ret (Some m))
     | Some Version \<Rightarrow> unpacked_msg Version body
     | Some Authenticate \<Rightarrow> unpacked_msg Authenticate body
     | Some Ping \<Rightarrow> unpacked_msg Ping body
     | Some Reject \<Rightarrow> unpacked_msg Reject body
     | Some ServerSync \<Rightarrow> unpacked_msg ServerSync body
     | Some TextMessage \<Rightarrow> unpacked_msg TextMessage body
     | Some PermissionDenied \<Rightarrow> unpacked_msg PermissionDenied body
     | Some CryptSetup \<Rightarrow> unpacked_msg CryptSetup body
     | Some UserList \<Rightarrow> unpacked_msg UserList body
     | Some UserState \<Rightarrow> unpacked_msg UserState body
     | Some ChannelState \<Rightarrow> unpacked_msg ChannelState body
     | Some VoiceTarget \<Rightarrow> unpacked_msg VoiceTarget body
     | Some CodecVersion \<Rightarrow> unpacked_msg CodecVersion body
     | Some PermissionQuery \<Rightarrow> unpacked_msg PermissionQuery body
     | Some ChannelRemove \<Rightarrow> unpacked_msg ChannelRemove body
     | Some UserStats \<Rightarrow> unpacked_msg UserStats body
     | _ \<Rightarrow> ret None)"

section \<open>Lemmas\<close>

lemma length_addPreamble [simp]: "length (Msg_addPreamble buffer t len) = length buffer"
  by (simp add: Msg_addPreamble_def)

lemma drop_addPreamble [simp]: "drop 6 (Msg_addPreamble buffer t len) = drop 6 buffer"
  by (simp add: Msg_addPreamble_def drop_update_cancel)

lemma ucast_and_255 [simp]:
  "(ucast ((t :: u16) AND 255) :: byte) = ucast t" "(ucast ((l :: u32) AND 255) :: byte) = ucast l"
proof -
  have m: "(255 :: u16) = mask 8" "(255 :: u32) = mask 8" by (simp_all add: mask_eq_exp_minus_1)
  show "(ucast (t AND 255) :: byte) = ucast t" "(ucast (l AND 255) :: byte) = ucast l"
    unfolding m by (rule bit_word_eqI, simp add: bit_simps)+
qed

lemma join_u16: "ucast (ucast t :: byte) OR push_bit 8 (ucast (ucast (drop_bit 8 t) :: byte)) = (t :: u16)"
  by (rule bit_word_eqI) (auto simp: bit_simps simp del: bit_numeral_word_iff)

lemma join_u32:
  "ucast (ucast l :: byte) OR push_bit 8 (ucast (ucast (drop_bit 8 l) :: byte)) OR
   push_bit 16 (ucast (ucast (drop_bit 16 l) :: byte)) OR push_bit 24 (ucast (ucast (drop_bit 24 l) :: byte))
   = (l :: u32)"
proof (rule bit_word_eqI)
  fix n assume "n < LENGTH(32)"
  then have n: "n < 32" by simp
  have e: "8 \<le> n \<Longrightarrow> 8 + (n - 8) = n" "16 \<le> n \<Longrightarrow> 16 + (n - 16) = n" "24 \<le> n \<Longrightarrow> 24 + (n - 24) = n" by simp_all
  consider "n < 8" | "8 \<le> n" "n < 16" | "16 \<le> n" "n < 24" | "24 \<le> n" by linarith
  then show "bit (ucast (ucast l :: byte) OR push_bit 8 (ucast (ucast (drop_bit 8 l) :: byte)) OR
   push_bit 16 (ucast (ucast (drop_bit 16 l) :: byte)) OR push_bit 24 (ucast (ucast (drop_bit 24 l) :: byte)) :: u32) n
   = bit l n"
    by cases (use n in \<open>simp_all add: bit_simps e not_le less_diff_conv2 del: bit_numeral_word_iff\<close>)
qed

lemma getPreamble_addPreamble:
  assumes "6 \<le> length buffer" and eq: "take 6 data = take 6 (Msg_addPreamble buffer t len)"
  shows "Msg_getPreamble data = (uint t, int_of_u32 len)"
proof -
  have "data ! i = Msg_addPreamble buffer t len ! i" if "i < 6" for i
    using that nth_take [of i 6 data] nth_take [of i 6 "Msg_addPreamble buffer t len"] eq by simp
  moreover have "buffer \<noteq> []" using assms by auto
  ultimately show ?thesis using assms(1)
    by (simp add: Msg_getPreamble_def Msg_addPreamble_def Let_def join_u16 join_u32)
qed

lemma preamble_in_network:
  assumes "6 + length bs \<le> length buffer"
  shows "Msg_getPreamble (overwrite (Msg_addPreamble buffer t len) 6 bs) = (uint t, int_of_u32 len)"
proof (rule getPreamble_addPreamble [of buffer])
  show "take 6 (overwrite (Msg_addPreamble buffer t len) 6 bs) = take 6 (Msg_addPreamble buffer t len)"
    by (rule take_overwrite_le) (use assms in auto)
qed (use assms in simp)

lemma body_in_network:
  assumes "6 + length bs \<le> length buffer"
  shows "take (length bs) (drop 6 (overwrite (Msg_addPreamble buffer t len) 6 bs)) = bs"
  using assms by (simp add: overwrite_def)

lemma small_length:
  assumes "length bs \<le> MAX_MSGSIZE"
  shows "int_of_u32 (of_nat (length bs)) = int (length bs)"
  using assms by (simp add: int_of_u32_def signed_of_nat signed_take_bit_int_eq_self)

text \<open>What the server can receive: every type it sends except \<open>UserRemove\<close> and \<open>ServerConfig\<close>.\<close>

definition receivable :: "messageType \<Rightarrow> bool" where
  "receivable t \<longleftrightarrow> supported t \<and> t \<notin> {UserRemove, ServerConfig}"

definition body_of :: "ext \<Rightarrow> payload \<Rightarrow> byte list" where
  "body_of x p = (case p of P_UDPTunnel u \<Rightarrow> udp_packet u | P_none t \<Rightarrow> [] | _ \<Rightarrow> pack x p)"

lemma supported_type: "p \<noteq> P_none t \<Longrightarrow> p = P_none (type_of p) \<or> supported (type_of p)"
  by (cases p) (simp_all add: supported_def initial_payload_def)

lemma messageToNetwork_fits:
  assumes "length (body_of x p) \<le> MAX_MSGSIZE" and "\<forall>t. p \<noteq> P_none t"
  shows "Msg_messageToNetwork x p buffer = Inr (length (body_of x p) + 6,
    overwrite (Msg_addPreamble buffer (of_nat (type_num (type_of p))) (of_nat (length (body_of x p)))) 6 (body_of x p))"
  using assms by (cases p) (simp_all add: Msg_messageToNetwork_def body_of_def packed_def tunnelled_def Let_def)

lemma messageToNetwork_too_big:
  assumes "length (body_of x p) > MAX_MSGSIZE" and "type_of p \<noteq> UDPTunnel"
  shows "Msg_messageToNetwork x p buffer = Inr (length (body_of x p) + 6, buffer)"
  using assms by (cases p) (simp_all add: Msg_messageToNetwork_def body_of_def packed_def Let_def)

lemma uint_type_num: "uint (of_nat (type_num t) :: u16) = int (type_num t)"
  using type_num_less [of t] by (simp add: of_nat_inverse unsigned_of_nat take_bit_nat_eq_self)

lemma networkToMessage_packed:
  assumes "receivable t" and "t \<noteq> UDPTunnel"
    and "Msg_getPreamble data = (int (type_num t), int (length body))"
    and "6 + length body \<le> length data" and "take (length body) (drop 6 data) = body"
  shows "Msg_networkToMessage data = unpacked_msg t body"
  using assms by (cases t)
    (simp_all add: Msg_networkToMessage_def receivable_def supported_def initial_payload_def Let_def
      type_of_num_def message_types_def)

lemma unpacked_msg_ok:
  assumes "unpack (w_ext w) t body = Parsed p"
  shows "unpacked_msg t body w = Inr (Some (w_next w),
    w\<lparr>w_next := Suc (w_next w),
      w_mstore := (w_mstore w)(w_next w \<mapsto> \<lparr>m_refcount = 1, m_unpacked = True, m_payload = p\<rparr>)\<rparr>)"
  using assms by (simp add: unpacked_msg_def Msg_create_nopayload_def bnd_def prog_simps put_msg_def)

lemma unpacked_msg_bad:
  assumes "unpack (w_ext w) t body = Rejected" and "w_mstore w (w_next w) = None"
  shows "unpacked_msg t body w = Inr (None, w\<lparr>w_next := Suc (w_next w)\<rparr>)"
  using assms by (simp add: unpacked_msg_def Msg_create_nopayload_def bnd_def prog_simps put_msg_def fun_upd_idem)

lemma CreateVoiceMsg_ok:
  "Msg_CreateVoiceMsg body w = Inr (w_next w,
    w\<lparr>w_next := Suc (w_next w),
      w_mstore := (w_mstore w)(w_next w \<mapsto>
        \<lparr>m_refcount = 1, m_unpacked = False, m_payload = P_UDPTunnel \<lparr>udp_packet = body\<rparr>\<rparr>)\<rparr>)"
  by (simp add: Msg_CreateVoiceMsg_def Msg_create_nopayload_def set_payload_def bnd_def prog_simps put_msg_def)

lemma Msg_create_ok:
  "Msg_create t w = Inr (w_next w,
    w\<lparr>w_next := Suc (w_next w),
      w_mstore := (w_mstore w)(w_next w \<mapsto>
        \<lparr>m_refcount = 1, m_unpacked = False, m_payload = initial_payload t\<rparr>)\<rparr>)"
  by (simp add: Msg_create_def Msg_create_nopayload_def set_payload_def bnd_def prog_simps put_msg_def)

lemma networkToMessage_tunnel:
  assumes "Msg_getPreamble data = (1, int (length body))"
    and "6 + length body \<le> length data" and "take (length body) (drop 6 data) = body"
  shows "Msg_networkToMessage data = bnd (Msg_CreateVoiceMsg body) (\<lambda>m. ret (Some m))"
  using assms by (simp add: Msg_networkToMessage_def Let_def type_of_num_def message_types_def)

lemma network_prefix:
  assumes "take (length bs + 6) data = take (length bs + 6) (overwrite (Msg_addPreamble buffer t l) 6 bs)"
    and "6 + length bs \<le> length buffer"
  shows "Msg_getPreamble data = (uint t, int_of_u32 l)" and "take (length bs) (drop 6 data) = bs"
    and "6 + length bs \<le> length data"
proof -
  let ?b = "overwrite (Msg_addPreamble buffer t l) 6 bs"
  have "take 6 data = take 6 (take (length bs + 6) data)" by simp
  also have "\<dots> = take 6 ?b" by (simp only: assms(1)) simp
  also have "\<dots> = take 6 (Msg_addPreamble buffer t l)"
    by (rule take_overwrite_le) (use assms(2) in auto)
  finally show "Msg_getPreamble data = (uint t, int_of_u32 l)"
    using assms(2) by (intro getPreamble_addPreamble [of buffer]) simp_all
  have "take (length bs) (drop 6 data) = drop 6 (take (length bs + 6) data)" by (simp add: take_drop)
  also have "\<dots> = take (length bs) (drop 6 ?b)" by (simp only: assms(1)) (simp add: take_drop)
  also have "\<dots> = bs" using assms(2) by (rule body_in_network)
  finally show "take (length bs) (drop 6 data) = bs" .
  have "length (take (length bs + 6) data) = length bs + 6"
    unfolding assms(1) using assms(2) by simp
  then show "6 + length bs \<le> length data" by simp
qed

lemma Msg_free_last:
  assumes "w_mstore w m = Some msg" and "m_refcount msg \<le> 1" and "\<forall>t. m_payload msg \<noteq> P_none t"
  shows "Msg_free m w = Inr ((), w\<lparr>w_mstore := (w_mstore w)(m := None)\<rparr>)"
proof -
  have "free_payload msg = ret ()"
    using assms(3) by (simp add: free_payload_def split: payload.split)
  with assms(1,2) show ?thesis
    by (auto simp: Msg_free_def bnd_def prog_simps put_msg_def Let_def)
qed

lemma Msg_free_shared:
  assumes "w_mstore w m = Some msg" and "m_refcount msg > 1"
  shows "Msg_free m w = Inr ((), put_msg m (msg\<lparr>m_refcount := m_refcount msg - 1\<rparr>) w)"
  using assms by (simp add: Msg_free_def bnd_def prog_simps)

lemma Msg_inc_ref_ok:
  assumes "w_mstore w m = Some msg"
  shows "Msg_inc_ref m w = Inr ((), put_msg m (msg\<lparr>m_refcount := m_refcount msg + 1\<rparr>) w)"
  using assms by (simp add: Msg_inc_ref_def bnd_def prog_simps)

lemma Msg_frees:
  assumes "w_mstore w m = Some msg" and "m_refcount msg = int (length xs)" and "xs \<noteq> []"
    and "\<forall>t. m_payload msg \<noteq> P_none t"
  shows "for_each xs (\<lambda>_. Msg_free m) w = Inr ((), w\<lparr>w_mstore := (w_mstore w)(m := None)\<rparr>)"
  using assms
proof (induction xs arbitrary: w msg)
  case Nil
  then show ?case by simp
next
  case (Cons x xs)
  show ?case
  proof (cases "xs = []")
    case True
    with Cons.prems have "Msg_free m w = Inr ((), w\<lparr>w_mstore := (w_mstore w)(m := None)\<rparr>)"
      by (intro Msg_free_last) simp_all
    with True show ?thesis by (simp only: for_each.simps bnd_Inr ret_app)
  next
    case False
    let ?w = "put_msg m (msg\<lparr>m_refcount := m_refcount msg - 1\<rparr>) w"
    have "Msg_free m w = Inr ((), ?w)"
      using Cons.prems False by (intro Msg_free_shared) simp_all
    moreover have "for_each xs (\<lambda>_. Msg_free m) ?w = Inr ((), ?w\<lparr>w_mstore := (w_mstore ?w)(m := None)\<rparr>)"
      using Cons.prems False
      by (intro Cons.IH [of ?w "msg\<lparr>m_refcount := m_refcount msg - 1\<rparr>"]) (simp_all add: put_msg_def)
    ultimately show ?thesis by (simp add: bnd_Inr put_msg_def fun_upd_def cong: if_cong)
  qed
qed

section \<open>The wire format\<close>

text \<open>
  What the message layer asks of the serialisation: what is packed can be unpacked, for the
  payloads that \<open>fits\<close> describes. A message written into a send buffer and arriving as the
  beginning of a receive buffer is then read back as a new message with one reference and the
  same payload.
\<close>

locale wire_format =
  fixes wpack :: "payload \<Rightarrow> byte list"
    and wunpack :: "messageType \<Rightarrow> byte list \<Rightarrow> payload parsed"
    and fits :: "payload \<Rightarrow> bool"
  assumes unpack_pack: "fits p \<Longrightarrow> wunpack (type_of p) (wpack p) = Parsed p"
begin

lemma crosses_network_world:
  assumes "receivable (type_of p)" and "\<forall>t. p \<noteq> P_none t"
    and "length (body_of x p) \<le> MAX_MSGSIZE"
    and "pack x = wpack" and "unpack (w_ext w) = wunpack" and "fits p"
    and "length buffer = BUFSIZE"
    and "Msg_messageToNetwork x p buffer = Inr (len, sent)"
    and "take len data = take len sent"
  shows "\<exists>b. Msg_networkToMessage data w = Inr (Some (w_next w), w\<lparr>w_next := Suc (w_next w),
    w_mstore := (w_mstore w)(w_next w \<mapsto> \<lparr>m_refcount = 1, m_unpacked = b, m_payload = p\<rparr>)\<rparr>)"
proof -
  let ?bs = "body_of x p"
  have sent: "len = length ?bs + 6"
    "sent = overwrite (Msg_addPreamble buffer (of_nat (type_num (type_of p))) (of_nat (length ?bs))) 6 ?bs"
    using messageToNetwork_fits [OF assms(3,2)] assms(8) by simp_all
  have room: "6 + length ?bs \<le> length buffer" using assms(3,7) by simp
  note pre = network_prefix [OF _ room, of data "of_nat (type_num (type_of p))" "of_nat (length ?bs)"]
  have d: "Msg_getPreamble data = (int (type_num (type_of p)), int (length ?bs))"
    "take (length ?bs) (drop 6 data) = ?bs" "6 + length ?bs \<le> length data"
    using pre assms(9) small_length [OF assms(3)] by (simp_all add: sent uint_type_num)
  show ?thesis
  proof (cases "type_of p = UDPTunnel")
    case True
    then obtain u where u: "p = P_UDPTunnel u" using assms(2) by (cases p) auto
    with d networkToMessage_tunnel [of data ?bs] have "Msg_networkToMessage data =
      bnd (Msg_CreateVoiceMsg (udp_packet u)) (\<lambda>m. ret (Some m))" by (simp add: body_of_def)
    then show ?thesis by (cases u) (auto simp: bnd_def CreateVoiceMsg_ok prog_simps u intro: exI [of _ False])
  next
    case False
    then have "pack x p = ?bs" using assms(2) by (cases p) (simp_all add: body_of_def)
    with unpack_pack [OF assms(6)] assms(4,5) have "unpack (w_ext w) (type_of p) ?bs = Parsed p" by simp
    with networkToMessage_packed [OF assms(1) False d(1,3,2)] show ?thesis
      by (auto simp: unpacked_msg_ok)
  qed
qed

lemma crosses_network:
  assumes "receivable (type_of p)" and "\<forall>t. p \<noteq> P_none t"
    and "length (body_of x p) \<le> MAX_MSGSIZE"
    and "pack x = wpack" and "unpack (w_ext w) = wunpack" and "fits p"
    and "length buffer = BUFSIZE"
    and "Msg_messageToNetwork x p buffer = Inr (len, sent)"
    and "take len data = take len sent"
  shows "\<exists>w' b. Msg_networkToMessage data w = Inr (Some (w_next w), w') \<and>
    w_mstore w' = (w_mstore w)(w_next w \<mapsto> \<lparr>m_refcount = 1, m_unpacked = b, m_payload = p\<rparr>)"
  using crosses_network_world [OF assms] by auto

end

definition demo_ext :: ext where
  "demo_ext = \<lparr>pack = (\<lambda>_. [8, 1]), unpack = (\<lambda>t bs. if t = Ping \<and> bs = [8, 1] then Parsed (P_Ping init_Ping) else Rejected),
     x_aes = example_aes, rand_key = (\<lambda>_. (replicate 16 1, replicate 16 5, replicate 16 9)),
     system_string = ''Linux'', version_string = ''x86''\<rparr>"

section \<open>Properties\<close>

text \<open>A message is released exactly when its last reference is given up: with \<open>n\<close> references, \<open>n\<close>
  calls of \<open>Msg_free\<close> remove it, fewer leave it with the remaining count.\<close>

theorem message_freed_with_last_reference:
  assumes "w_mstore w m = Some msg" and "m_refcount msg = int n" and "0 < n"
    and "\<forall>t. m_payload msg \<noteq> P_none t"
  shows "for_each [0..<n] (\<lambda>_. Msg_free m) w = Inr ((), w\<lparr>w_mstore := (w_mstore w)(m := None)\<rparr>) \<and>
    (1 < n \<longrightarrow> Msg_free m w = Inr ((), put_msg m (msg\<lparr>m_refcount := int (n - 1)\<rparr>) w))"
  using Msg_frees [of w m msg "[0..<n]"] Msg_free_shared [of w m msg] assms
  by (simp add: of_nat_diff)

theorem message_freed_with_last_reference_witness:
  "\<exists>w. w_mstore w 7 = Some \<lparr>m_refcount = 2, m_unpacked = False, m_payload = P_Ping init_Ping\<rparr> \<and>
    for_each [0..<2] (\<lambda>_. Msg_free 7) w = Inr ((), w\<lparr>w_mstore := (w_mstore w)(7 := None)\<rparr>)"
proof -
  let ?m = "\<lparr>m_refcount = 2, m_unpacked = False, m_payload = P_Ping init_Ping\<rparr>"
  let ?w = "put_msg 7 ?m (boot_world demo_ext idle_tls Map.empty 0)"
  have w: "w_mstore ?w 7 = Some ?m" by (simp add: put_msg_def)
  from message_freed_with_last_reference [OF w, of 2] show ?thesis
    by (intro exI [of _ ?w] conjI w) simp
qed

end
