(* ===== verification/Conf.thy ===== *)
theory Conf
  imports World
begin

text \<open>
  The configuration of conf.c. libconfig is the lookup function \<open>w_conf\<close> from a path to
  a setting; \<open>config_setting_get_string\<close> and its relatives return null, 0 or false for a
  setting of another type, as libconfig documents.
\<close>

datatype param =
    CERTIFICATE | KEY | PASSPHRASE | BINDPORT | BINDADDR | WELCOMETEXT
  | MAX_BANDWIDTH | MAX_CLIENTS | DEFAULT_CHANNEL | USERNAME | GROUPNAME | LOGFILE

record conf_channel =
  cc_parent :: "string option"
  cc_name :: "string option"
  cc_description :: "string option"
  cc_noenter :: bool

record conf_channel_link =
  cl_source :: "string option"
  cl_destination :: "string option"

fun setting_get_string :: "setting \<Rightarrow> string option" where
  "setting_get_string (SString s) = Some s"
| "setting_get_string _ = None"

fun setting_get_int :: "setting \<Rightarrow> int" where
  "setting_get_int (SInt i) = i"
| "setting_get_int _ = 0"

fun setting_get_bool :: "setting \<Rightarrow> bool" where
  "setting_get_bool (SBool b) = b"
| "setting_get_bool _ = False"

definition string_or :: "string option \<Rightarrow> string \<Rightarrow> config \<Rightarrow> string option" where
  "string_or dflt path conf =
     (case conf path of
        None \<Rightarrow> dflt
      | Some setting \<Rightarrow>
          (case setting_get_string setting of Some s \<Rightarrow> Some s | None \<Rightarrow> dflt))"

definition int_or :: "int \<Rightarrow> string \<Rightarrow> config \<Rightarrow> int" where
  "int_or dflt path conf = (case conf path of None \<Rightarrow> dflt | Some setting \<Rightarrow> setting_get_int setting)"

definition getStrConf :: "param \<Rightarrow> (world, string option) prog" where
  "getStrConf param = (case param of
    CERTIFICATE \<Rightarrow>
      gets (\<lambda>w. string_or (Some ''/etc/umurmur/certificate.crt'') ''certificate'' (w_conf w))
  | KEY \<Rightarrow>
      gets (\<lambda>w. string_or (Some ''/etc/umurmur/private_key.key'') ''private_key'' (w_conf w))
  | PASSPHRASE \<Rightarrow> gets (\<lambda>w. string_or (Some []) ''password'' (w_conf w))
  | BINDADDR \<Rightarrow> gets (\<lambda>w. string_or (Some []) ''bindaddr'' (w_conf w))
  | WELCOMETEXT \<Rightarrow> gets (\<lambda>w. string_or (Some ''Welcome to uMurmur!'') ''welcometext'' (w_conf w))
  | DEFAULT_CHANNEL \<Rightarrow> gets (\<lambda>w. string_or (Some []) ''default_channel'' (w_conf w))
  | USERNAME \<Rightarrow> gets (\<lambda>w. string_or (Some []) ''username'' (w_conf w))
  | GROUPNAME \<Rightarrow> gets (\<lambda>w. string_or (Some []) ''groupname'' (w_conf w))
  | LOGFILE \<Rightarrow> gets (\<lambda>w. string_or None ''logfile'' (w_conf w))
  | _ \<Rightarrow> fail Assertion)"

definition getIntConf :: "param \<Rightarrow> (world, int) prog" where
  "getIntConf param = (case param of
    BINDPORT \<Rightarrow> gets (\<lambda>w. int_or 64738 ''bindport'' (w_conf w))
  | MAX_BANDWIDTH \<Rightarrow> gets (\<lambda>w. int_or 48000 ''max_bandwidth'' (w_conf w))
  | MAX_CLIENTS \<Rightarrow> gets (\<lambda>w. int_or 10 ''max_users'' (w_conf w))
  | _ \<Rightarrow> fail Assertion)"

text \<open>
  \<open>snprintf\<close> with \<open>%d\<close> for a number that is not negative. The paths below stay under
  the 64 bytes of \<open>configstr\<close> for every \<open>int\<close> index, so they are never cut.
\<close>

fun decimal :: "nat \<Rightarrow> string" where
  "decimal n = (if n < 10 then [char_of (48 + n)] else decimal (n div 10) @ [char_of (48 + n mod 10)])"

declare decimal.simps [simp del]

definition chan_path :: "nat \<Rightarrow> string \<Rightarrow> string" where
  "chan_path index field = ''channels.['' @ decimal index @ ''].'' @ field"

definition link_path :: "nat \<Rightarrow> string \<Rightarrow> string" where
  "link_path index field = ''channel_links.['' @ decimal index @ ''].'' @ field"

text \<open>The result \<open>None\<close> is the return value -1.\<close>

definition Conf_getNextChannel :: "nat \<Rightarrow> config \<Rightarrow> conf_channel option" where
  "Conf_getNextChannel index conf =
     (case conf (chan_path index ''name'') of
        None \<Rightarrow> None
      | Some name \<Rightarrow>
     (case conf (chan_path index ''parent'') of
        None \<Rightarrow> None
      | Some parent \<Rightarrow> Some
         \<lparr>cc_parent = setting_get_string parent,
          cc_name = setting_get_string name,
          cc_description =
            (case conf (chan_path index ''description'') of
               None \<Rightarrow> None | Some d \<Rightarrow> setting_get_string d),
          cc_noenter =
            (case conf (chan_path index ''noenter'') of
               None \<Rightarrow> False | Some b \<Rightarrow> setting_get_bool b)\<rparr>))"

definition Conf_getNextChannelLink :: "nat \<Rightarrow> config \<Rightarrow> conf_channel_link option" where
  "Conf_getNextChannelLink index conf =
     (case conf (link_path index ''source'') of
        None \<Rightarrow> None
      | Some source \<Rightarrow>
     (case conf (link_path index ''destination'') of
        None \<Rightarrow> None
      | Some destination \<Rightarrow> Some
         \<lparr>cl_source = setting_get_string source,
          cl_destination = setting_get_string destination\<rparr>))"

lemma keeps_getStrConf [keeps_intros]: "keeps I (getStrConf p)"
  by (cases p) (simp_all add: getStrConf_def keeps_gets keeps_fail)

lemma keeps_getIntConf [keeps_intros]: "keeps I (getIntConf p)"
  by (cases p) (simp_all add: getIntConf_def keeps_gets keeps_fail)

lemma getStrConf_total:
  "p \<notin> {BINDPORT, MAX_BANDWIDTH, MAX_CLIENTS} \<Longrightarrow> \<exists>s. getStrConf p w = Inr (s, w) \<and> (p \<noteq> LOGFILE \<longrightarrow> s \<noteq> None)"
  by (cases p) (auto simp: getStrConf_def prog_simps string_or_def split: option.split)

lemma getIntConf_total:
  "p \<in> {BINDPORT, MAX_BANDWIDTH, MAX_CLIENTS} \<Longrightarrow> \<exists>i. getIntConf p w = Inr (i, w)"
  by (cases p) (auto simp: getIntConf_def prog_simps)

lemma numbered_channel_needs_name:
  "Conf_getNextChannel i conf \<noteq> None \<longleftrightarrow>
   conf (chan_path i ''name'') \<noteq> None \<and> conf (chan_path i ''parent'') \<noteq> None"
  by (simp add: Conf_getNextChannel_def split: option.split)

end
