(* ===== verification/Invariant.thy ===== *)
theory Invariant
  imports Messages
begin

text \<open>
  What holds of the server's state whenever control is in the event loop, and also each
  time a message is handed to the transport in the middle of a handler: the lists of
  clients and channels agree with the heap, the channels form a tree in which temporary
  channels are leaves, a client is listed in one channel at most, and the buffers,
  counters and crypt states of every client are within their bounds. The parameter \<open>A\<close>
  is a set of clients known to be authenticated as long as they exist.
\<close>

section \<open>Definition\<close>

definition voicetarget_ok :: "voicetarget \<Rightarrow> bool" where
  "voicetarget_ok vt \<longleftrightarrow> length (vtg_channels vt) = 16 \<and> length (vtg_sessions vt) = 32"

definition client_ok :: "client \<Rightarrow> bool" where
  "client_ok cl \<longleftrightarrow>
     length (c_rxbuf cl) = BUFSIZE \<and> length (c_txbuf cl) = BUFSIZE \<and>
     c_rxcount cl \<le> BUFSIZE \<and> c_txsize cl < BUFSIZE \<and> c_txcount cl \<le> c_txsize cl \<and>
     1 \<le> c_sessionId cl \<and> c_sessionId cl < INT_MAX \<and>
     int (length (c_txMsgQueue cl)) \<le> c_txQueueCount cl \<and> c_txQueueCount cl \<le> 31 \<and>
     wf_crypt (c_cryptState cl) \<and>
     (c_channel cl \<noteq> None \<longrightarrow> c_authenticated cl) \<and>
     (\<forall>vt \<in> set (c_voicetargets cl). voicetarget_ok vt)"

definition ext_ok :: "ext \<Rightarrow> bool" where
  "ext_ok x \<longleftrightarrow> aes_ok (x_aes x) \<and>
     (\<forall>n. case rand_key x n of (k, e, d) \<Rightarrow> length k = 16 \<and> length e = 16 \<and> length d = 16)"

definition clients_ok :: "world \<Rightarrow> bool" where
  "clients_ok w \<longleftrightarrow>
     distinct (w_clients w) \<and> set (w_clients w) = dom (w_cstore w) \<and>
     w_clientcount w = int (length (w_clients w)) \<and>
     (\<forall>c cl. w_cstore w c = Some cl \<longrightarrow> c < w_next w \<and> client_ok cl) \<and>
     (\<forall>c cl d dl. w_cstore w c = Some cl \<longrightarrow> w_cstore w d = Some dl \<longrightarrow>
        c_sessionId cl = c_sessionId dl \<longrightarrow> c = d)"

definition channels_ok :: "world \<Rightarrow> bool" where
  "channels_ok w \<longleftrightarrow>
     distinct (w_channels w) \<and> set (w_channels w) = dom (w_chstore w) \<and>
     (\<forall>ch x. w_chstore w ch = Some x \<longrightarrow> ch < w_next w \<and> 0 \<le> ch_id x \<and> ch_id x < INT_MAX) \<and>
     (\<forall>ch x dh y. w_chstore w ch = Some x \<longrightarrow> w_chstore w dh = Some y \<longrightarrow> ch_id x = ch_id y \<longrightarrow> ch = dh) \<and>
     (\<forall>ch. w_rootChan w = Some ch \<or> w_defaultChan w = Some ch \<longrightarrow>
        (\<exists>x. w_chstore w ch = Some x \<and> \<not> ch_temporary x))"

definition tree_node :: "world \<Rightarrow> chref \<Rightarrow> channel \<Rightarrow> bool" where
  "tree_node w ch x \<longleftrightarrow>
     distinct (ch_subs x) \<and>
     (\<forall>s \<in> set (ch_subs x). ch < s \<and> (\<exists>y. w_chstore w s = Some y \<and> ch_parent y = Some ch)) \<and>
     (\<forall>p. ch_parent x = Some p \<longrightarrow> (\<exists>y. w_chstore w p = Some y \<and> ch \<in> set (ch_subs y))) \<and>
     (ch_temporary x \<longrightarrow> ch_subs x = []) \<and>
     ch_linkcount x = length (ch_links x) \<and>
     (\<forall>l \<in> set (ch_links x). \<exists>y. w_chstore w l = Some y \<and> \<not> ch_temporary y)"

definition tree_ok :: "world \<Rightarrow> bool" where
  "tree_ok w \<longleftrightarrow> (\<forall>ch x. w_chstore w ch = Some x \<longrightarrow> tree_node w ch x)"

definition members_ok :: "world \<Rightarrow> bool" where
  "members_ok w \<longleftrightarrow> (\<forall>ch x. w_chstore w ch = Some x \<longrightarrow>
     distinct (ch_clients x) \<and>
     (\<forall>c \<in> set (ch_clients x). \<exists>cl. w_cstore w c = Some cl \<and> c_channel cl = Some ch))"

definition auth_ok :: "cref set \<Rightarrow> world \<Rightarrow> bool" where
  "auth_ok A w \<longleftrightarrow> (\<forall>c \<in> A. c < w_next w \<and> (\<forall>cl. w_cstore w c = Some cl \<longrightarrow> c_authenticated cl))"

definition inv :: "cref set \<Rightarrow> world \<Rightarrow> bool" where
  "inv A w \<longleftrightarrow> clients_ok w \<and> channels_ok w \<and> tree_ok w \<and> members_ok w \<and> auth_ok A w \<and> ext_ok (w_ext w)"

lemma inv_tree: "inv A w \<Longrightarrow> w_chstore w ch = Some x \<Longrightarrow> tree_node w ch x"
  by (simp add: inv_def tree_ok_def)

text \<open>An entry of the tree stays correct when no entry it refers to loses what it needs.\<close>

lemma tree_node_mono:
  assumes "tree_node w ch x"
    and "\<And>e z. e \<in> set (ch_subs x) \<union> set_option (ch_parent x) \<union> set (ch_links x) \<Longrightarrow> w_chstore w e = Some z \<Longrightarrow>
      \<exists>z'. w_chstore w' e = Some z' \<and> ch_parent z' = ch_parent z \<and> ch_temporary z' = ch_temporary z \<and>
        (ch \<in> set (ch_subs z) \<longrightarrow> ch \<in> set (ch_subs z'))"
  shows "tree_node w' ch x"
  unfolding tree_node_def
proof (intro conjI ballI allI impI)
  note t = assms(1) [unfolded tree_node_def]
  show "distinct (ch_subs x)" "ch_temporary x \<Longrightarrow> ch_subs x = []" "ch_linkcount x = length (ch_links x)"
    using t by simp_all
  fix s assume s: "s \<in> set (ch_subs x)"
  then obtain y where "ch < s" "w_chstore w s = Some y" "ch_parent y = Some ch" using t by blast
  with assms(2) [of s y] s show "ch < s" "\<exists>y. w_chstore w' s = Some y \<and> ch_parent y = Some ch" by auto
next
  fix p assume p: "ch_parent x = Some p"
  then obtain y where "w_chstore w p = Some y" "ch \<in> set (ch_subs y)"
    using assms(1) unfolding tree_node_def by blast
  with assms(2) [of p y] p show "\<exists>y. w_chstore w' p = Some y \<and> ch \<in> set (ch_subs y)" by auto
next
  fix l assume l: "l \<in> set (ch_links x)"
  then obtain y where "w_chstore w l = Some y" "\<not> ch_temporary y"
    using assms(1) unfolding tree_node_def by blast
  with assms(2) [of l y] l show "\<exists>y. w_chstore w' l = Some y \<and> \<not> ch_temporary y" by auto
qed

lemma tree_node_cong:
  assumes "tree_node w ch x" and "ch_subs x' = ch_subs x" "ch_parent x' = ch_parent x"
    "ch_temporary x' = ch_temporary x" "ch_links x' = ch_links x" "ch_linkcount x' = ch_linkcount x"
  shows "tree_node w ch x'"
  using assms by (simp add: tree_node_def)

lemma inv_mono: "inv A w \<Longrightarrow> B \<subseteq> A \<Longrightarrow> inv B w"
  by (auto simp: inv_def auth_ok_def)

lemma inv_client: "inv A w \<Longrightarrow> w_cstore w c = Some cl \<Longrightarrow> client_ok cl"
  by (simp add: inv_def clients_ok_def)

lemma inv_insert:
  assumes "inv A w" and "w_cstore w c = Some cl" and "c_authenticated cl"
  shows "inv (insert c A) w"
  using assms by (auto simp: inv_def auth_ok_def clients_ok_def)

section \<open>What does not touch it\<close>

text \<open>The parts of the state the invariant is about.\<close>

definition core :: "world \<Rightarrow> _" where
  "core w = (w_clients w, w_cstore w, w_clientcount w, w_channels w, w_chstore w,
     w_rootChan w, w_defaultChan w, w_ext w)"

lemma inv_core:
  assumes "inv A w" and "core w' = core w" and "w_next w \<le> w_next w'"
  shows "inv A w'"
proof -
  have eqs: "w_clients w' = w_clients w" "w_cstore w' = w_cstore w" "w_clientcount w' = w_clientcount w"
    "w_channels w' = w_channels w" "w_chstore w' = w_chstore w" "w_rootChan w' = w_rootChan w"
    "w_defaultChan w' = w_defaultChan w" "w_ext w' = w_ext w"
    using assms(2) by (simp_all add: core_def)
  have n: "x < w_next w \<Longrightarrow> x < w_next w'" for x using assms(3) by simp
  have "clients_ok w" "channels_ok w" "tree_ok w" "members_ok w" "auth_ok A w" "ext_ok (w_ext w)"
    using assms(1) by (simp_all add: inv_def)
  note I = this
  have "clients_ok w'" using I(1) n unfolding clients_ok_def eqs by metis
  moreover have "channels_ok w'" using I(2) n unfolding channels_ok_def eqs by metis
  moreover have "tree_ok w'" using I(3) unfolding tree_ok_def tree_node_def eqs .
  moreover have "members_ok w'" using I(4) unfolding members_ok_def eqs .
  moreover have "auth_ok A w'" using I(5) n unfolding auth_ok_def eqs by metis
  moreover have "ext_ok (w_ext w')" using I(6) unfolding eqs .
  ultimately show ?thesis by (simp add: inv_def)
qed

lemma keeps_inv_modify:
  assumes "\<And>w. core (f w) = core w" and "\<And>w. w_next w \<le> w_next (f w)"
  shows "keeps (inv A) (modify f)"
  by (rule keeps_modify) (rule inv_core, use assms in auto)

lemma keeps_inv_emit [keeps_intros]: "keeps (inv A) (emit e)"
  unfolding emit_def by (rule keeps_inv_modify) (simp_all add: core_def)

lemma keeps_inv_fresh [keeps_intros]: "keeps (inv A) fresh"
  by (rule keepsI) (auto simp: fresh_def core_def elim!: inv_core)

lemma keeps_inv_put_msg [keeps_intros]: "keeps (inv A) (modify (put_msg m x))"
  by (rule keeps_inv_modify) (simp_all add: core_def put_msg_def)

lemma keeps_inv_drop_msg [keeps_intros]: "keeps (inv A) (modify (\<lambda>w. w\<lparr>w_mstore := (w_mstore w)(m := None)\<rparr>))"
  by (rule keeps_inv_modify) (simp_all add: core_def)

lemma keeps_set_payload [keeps_intros]: "keeps (inv A) (set_payload m f)"
  unfolding set_payload_def by (intro keeps_intros)

lemma keeps_Msg_create_nopayload [keeps_intros]: "keeps (inv A) (Msg_create_nopayload t)"
  unfolding Msg_create_nopayload_def by (intro keeps_intros)

lemma keeps_Msg_create [keeps_intros]: "keeps (inv A) (Msg_create t)"
  unfolding Msg_create_def by (intro keeps_intros)

lemma keeps_Msg_CreateVoiceMsg [keeps_intros]: "keeps (inv A) (Msg_CreateVoiceMsg bs)"
  unfolding Msg_CreateVoiceMsg_def by (intro keeps_intros)

lemma keeps_Msg_inc_ref [keeps_intros]: "keeps (inv A) (Msg_inc_ref m)"
  unfolding Msg_inc_ref_def by (intro keeps_intros)

lemma keeps_free_payload [keeps_intros]: "keeps I (free_payload msg)"
  by (simp add: free_payload_def keeps_ret keeps_fail split: payload.split)

lemma keeps_Msg_free [keeps_intros]: "keeps (inv A) (Msg_free m)"
  unfolding Msg_free_def Let_def by (intro keeps_intros)

lemma keeps_unpacked_msg [keeps_intros]: "keeps (inv A) (unpacked_msg t body)"
  unfolding unpacked_msg_def by (intro keeps_intros)

lemma keeps_networkToMessage [keeps_intros]: "keeps (inv A) (Msg_networkToMessage data)"
proof -
  obtain a b where "Msg_getPreamble data = (a, b)" by fastforce
  then show ?thesis
    by (auto simp: Msg_networkToMessage_def Let_def split: option.split messageType.split
        intro!: keeps_intros)
qed

section \<open>Updates of one client\<close>

definition harmless :: "(client \<Rightarrow> client) \<Rightarrow> bool" where
  "harmless f \<longleftrightarrow> (\<forall>cl. client_ok cl \<longrightarrow> client_ok (f cl) \<and> c_sessionId (f cl) = c_sessionId cl \<and>
     c_channel (f cl) = c_channel cl \<and> (c_authenticated cl \<longrightarrow> c_authenticated (f cl)))"

lemma inv_put_client:
  assumes inv: "inv A w" and c: "w_cstore w c = Some cl"
    and ok: "client_ok cl'" and s: "c_sessionId cl' = c_sessionId cl"
    and ch: "c_channel cl' = c_channel cl" and a: "c_authenticated cl \<longrightarrow> c_authenticated cl'"
  shows "inv A (put_client c cl' w)"
  unfolding inv_def
proof (intro conjI)
  have "dom ((w_cstore w)(c \<mapsto> cl')) = dom (w_cstore w)" using c by auto
  then show "clients_ok (put_client c cl' w)"
    using inv c ok s by (auto simp: inv_def clients_ok_def put_client_def)
  show "channels_ok (put_client c cl' w)"
    using inv by (simp add: inv_def channels_ok_def put_client_def)
  show "tree_ok (put_client c cl' w)"
    using inv by (simp add: inv_def tree_ok_def tree_node_def put_client_def)
  show "members_ok (put_client c cl' w)"
    using inv c ch unfolding inv_def members_ok_def put_client_def by fastforce
  show "auth_ok A (put_client c cl' w)"
    using inv c a by (auto simp: inv_def auth_ok_def put_client_def)
  show "ext_ok (w_ext (put_client c cl' w))"
    using inv by (simp add: inv_def put_client_def)
qed

lemma keeps_upd_client:
  assumes "harmless f"
  shows "keeps (inv A) (upd_client c f)"
proof (rule keepsI)
  fix w x w' assume I: "inv A w" and "upd_client c f w = Inr (x, w')"
  then obtain cl where "w_cstore w c = Some cl" "w' = put_client c (f cl) w"
    by (auto simp: prog_simps split: option.splits)
  with I inv_client [OF I] assms show "inv A w'"
    by (auto simp: harmless_def intro!: inv_put_client)
qed

text \<open>A block of code that starts by reading a client may rely on its well-formedness.\<close>

lemma keeps_client:
  "(\<And>cl. client_ok cl \<Longrightarrow> keeps (inv A) (m cl)) \<Longrightarrow> keeps (inv A) (bnd (get_client c) m)"
  by (rule keepsI) (auto simp: bnd_eq_Inr get_client_app split: option.splits dest: inv_client keepsD)

lemma harmless_crypt: "wf_crypt cs \<Longrightarrow> harmless (\<lambda>cl. cl\<lparr>c_cryptState := cs\<rparr>)"
  by (simp add: harmless_def client_ok_def)

text \<open>Code that runs on behalf of an authenticated client.\<close>

lemma inv_run_auth:
  assumes "inv A w" and "w_cstore w c = Some cl" and "c_authenticated cl"
    and "keeps (inv (insert c A)) m" and "m w = Inr (r, w')"
  shows "inv A w'"
  using keepsD [OF assms(4,5) inv_insert [OF assms(1-3)]] by (rule inv_mono) blast

end
