(* ===== verification/Demo.thy ===== *)
theory Demo
  imports Invariant
begin

text \<open>
  A small server at work, for the concrete instances of the properties: a root channel
  with a permanent and a temporary channel below it, two users in the root, and one user
  alone in the temporary channel.
\<close>

definition demo_channel :: "int \<Rightarrow> string \<Rightarrow> chref option \<Rightarrow> channel" where
  "demo_channel i name parent =
     \<lparr>ch_id = i, ch_name = name, ch_desc = None, ch_parent = parent, ch_temporary = False,
      ch_noenter = False, ch_subs = [], ch_clients = [], ch_links = [], ch_linkcount = 0\<rparr>"

definition demo_client :: "int \<Rightarrow> string \<Rightarrow> chref \<Rightarrow> client" where
  "demo_client session name ch = zero_client
     \<lparr>c_tcpfd := session + 4, c_SSLready := True, c_sessionId := session, c_username := Some name,
      c_authenticated := True, c_channel := Some ch, c_availableBandwidth := 6000,
      c_cryptState := example_end\<rparr>"

definition demo_conf :: config where
  "demo_conf = map_of
     [(''max_users'', SInt 5), (''username'', SString ''umurmur''),
      (''channels.[0].name'', SString ''Root''), (''channels.[0].parent'', SString []),
      (''channels.[1].name'', SString ''Lobby''), (''channels.[1].parent'', SString ''Root'')]"

definition demo :: world where
  "demo = (boot_world demo_ext idle_tls demo_conf 1000)
     \<lparr>w_clients := [10, 11, 12], w_clientcount := 3, w_maxBandwidth := 6000,
      w_cstore := [10 \<mapsto> demo_client 1 ''ann'' 0, 11 \<mapsto> demo_client 2 ''bob'' 0, 12 \<mapsto> demo_client 3 ''cid'' 2],
      w_channels := [0, 1, 2],
      w_chstore :=
        [0 \<mapsto> (demo_channel 0 ''Root'' None)\<lparr>ch_subs := [1, 2], ch_clients := [10, 11]\<rparr>,
         1 \<mapsto> demo_channel 1 ''Lobby'' (Some 0),
         2 \<mapsto> (demo_channel 2 ''Talk'' (Some 0))\<lparr>ch_temporary := True, ch_clients := [12]\<rparr>],
      w_rootChan := Some 0, w_defaultChan := Some 0, w_next := 20\<rparr>"

lemma demo_client_ok: "1 \<le> s \<Longrightarrow> s < INT_MAX \<Longrightarrow> client_ok (demo_client s nm ch)"
  using example_ends
  by (simp add: client_ok_def demo_client_def zero_client_def channel_ends_def)

lemma demo_ext_ok: "ext_ok demo_ext"
  by (simp add: ext_ok_def demo_ext_def example_ok)

lemma demo_inv: "inv {10, 11, 12} demo"
proof -
  have "clients_ok demo"
    by (auto simp: clients_ok_def demo_def boot_world_def split: if_splits intro!: demo_client_ok simp: INT_MAX_def)
      (auto simp: demo_client_def)
  moreover have "channels_ok demo"
    by (auto simp: channels_ok_def demo_def boot_world_def demo_channel_def INT_MAX_def split: if_splits)
  moreover have "tree_ok demo"
    by (auto simp: tree_ok_def tree_node_def demo_def demo_channel_def split: if_splits)
  moreover have "members_ok demo"
    by (auto simp: members_ok_def demo_def demo_channel_def demo_client_def split: if_splits)
  moreover have "auth_ok {10, 11, 12} demo"
    by (auto simp: auth_ok_def demo_def demo_client_def)
  moreover have "ext_ok (w_ext demo)" using demo_ext_ok by (simp add: demo_def boot_world_def)
  ultimately show ?thesis by (simp add: inv_def)
qed

end
