(* ===== verification/Channel.thy ===== *)
theory Channel
  imports Demo Conf
begin

text \<open>
  The channels of channel.c: a tree of permanent channels from the configuration with
  temporary leaves that users create, a flat list of all of them, the clients in each,
  and links between channels.
\<close>

section \<open>Iteration and search\<close>

text \<open>The entry after a given one; the first when none is given.\<close>

definition next_in :: "'p list \<Rightarrow> 'p option \<Rightarrow> 'p option" where
  "next_in xs p =
     (case p of
        None \<Rightarrow> (case xs of [] \<Rightarrow> None | x # _ \<Rightarrow> Some x)
      | Some x \<Rightarrow> (case dropWhile (\<lambda>y. y \<noteq> x) xs of _ # y # _ \<Rightarrow> Some y | _ \<Rightarrow> None))"

definition Chan_iterate :: "chref option \<Rightarrow> (world, chref option) prog" where
  "Chan_iterate itr = gets (\<lambda>w. if w_channels w \<noteq> [] then next_in (w_channels w) itr else itr)"

definition Chan_iterate_siblings :: "chref \<Rightarrow> chref option \<Rightarrow> (world, chref option) prog" where
  "Chan_iterate_siblings parent itr =
     bnd (get_chan parent) (\<lambda>p.
     ret (if ch_subs p \<noteq> [] then next_in (ch_subs p) itr else itr))"

text \<open>The loops \<open>while (Chan_iterate(&ch_itr) != NULL && ...)\<close> that only look for a channel.\<close>

definition find_chan :: "(channel \<Rightarrow> bool) \<Rightarrow> (world, chref option) prog" where
  "find_chan P = bnd (gets w_channels) (\<lambda>chs. search get_chan P chs)"

definition find_sibling :: "chref \<Rightarrow> (channel \<Rightarrow> bool) \<Rightarrow> (world, chref option) prog" where
  "find_sibling parent P = bnd (get_chan parent) (\<lambda>p. search get_chan P (ch_subs p))"

text \<open>\<open>for (id = ..; id < INT_MAX; id++)\<close> with \<open>n\<close> numbers left to try.\<close>

primrec free_id_loop :: "(int \<Rightarrow> (world, 'p option) prog) \<Rightarrow> nat \<Rightarrow> int \<Rightarrow> (world, int) prog" where
  "free_id_loop user 0 i = ret (- 1)"
| "free_id_loop user (Suc n) i =
     bnd (user i) (\<lambda>itr. if itr = None then ret i else free_id_loop user n (i + 1))"

definition findFreeId :: "(world, int) prog" where
  "findFreeId = free_id_loop (\<lambda>id. find_chan (\<lambda>ch. ch_id ch = id)) (nat INT_MAX) 0"

definition Chan_fromId :: "int \<Rightarrow> (world, chref option) prog" where
  "Chan_fromId channelid = find_chan (\<lambda>ch. ch_id ch = channelid)"

section \<open>Creation and removal\<close>

definition createChannel :: "int \<Rightarrow> string option \<Rightarrow> string option \<Rightarrow> (world, chref) prog" where
  "createChannel i name desc =
     bnd fresh (\<lambda>ch.
     bnd (deref name) (\<lambda>name.
     bnd (modify (put_chan ch
       \<lparr>ch_id = i, ch_name = name, ch_desc = desc, ch_parent = None,
        ch_temporary = False, ch_noenter = False, ch_subs = [], ch_clients = [],
        ch_links = [], ch_linkcount = 0\<rparr>)) (\<lambda>_.
     ret ch)))"

definition Chan_createChannel :: "string option \<Rightarrow> string option \<Rightarrow> (world, chref) prog" where
  "Chan_createChannel name desc =
     bnd findFreeId (\<lambda>id.
     if id < 0 then fail Fatal else createChannel id name desc)"

text \<open>
  \<open>list_add_tail\<close> of a node that is already in a list corrupts both lists (see
  \<open>shared_node_trapped\<close> in DList), and so does \<open>list_del\<close> of a node that is in none.
\<close>

definition flat_add :: "chref \<Rightarrow> (world, unit) prog" where
  "flat_add ch = bnd (gets w_channels) (\<lambda>chs.
     if ch \<in> set chs then fail ListCorrupt
     else modify (\<lambda>w. w\<lparr>w_channels := w_channels w @ [ch]\<rparr>))"

definition Chan_addChannel :: "chref \<Rightarrow> chref \<Rightarrow> (world, unit) prog" where
  "Chan_addChannel parent ch = block
     [upd_chan parent (\<lambda>p. p\<lparr>ch_subs := ch_subs p @ [ch]\<rparr>),
      upd_chan ch (\<lambda>x. x\<lparr>ch_parent := Some parent\<rparr>),
      flat_add ch]"

text \<open>\<open>list_del(&ch->node)\<close>; the root's node is alone in its own ring.\<close>

definition Chan_removeChannel :: "chref \<Rightarrow> (world, unit) prog" where
  "Chan_removeChannel ch =
     bnd (get_chan ch) (\<lambda>x.
     case ch_parent x of
       None \<Rightarrow> ret ()
     | Some p \<Rightarrow> upd_chan p (\<lambda>y. y\<lparr>ch_subs := remove1 ch (ch_subs y)\<rparr>))"

definition Chan_freeChannel :: "chref \<Rightarrow> (world, unit) prog" where
  "Chan_freeChannel ch = block
     [Chan_removeChannel ch,
      modify (\<lambda>w. w\<lparr>w_channels := remove1 ch (w_channels w)\<rparr>),
      modify (\<lambda>w. w\<lparr>w_chstore := (w_chstore w)(ch := None)\<rparr>)]"

definition Chan_free :: "(world, unit) prog" where
  "Chan_free = bnd (gets w_channels) (\<lambda>chs.
     for_each chs (\<lambda>ch. bnd (get_chan ch) (\<lambda>_.
       modify (\<lambda>w. w\<lparr>w_chstore := (w_chstore w)(ch := None)\<rparr>))))"

section \<open>Users in channels\<close>

definition chan_unlink :: "chref \<Rightarrow> cref \<Rightarrow> (world, unit) prog" where
  "chan_unlink ch client = bnd (get_chan ch) (\<lambda>x.
     if client \<in> set (ch_clients x)
     then modify (put_chan ch (x\<lparr>ch_clients := remove1 client (ch_clients x)\<rparr>))
     else fail ListCorrupt)"

text \<open>The identifier of the temporary channel that went away with its last user, or -1.\<close>

definition Chan_userLeave :: "cref \<Rightarrow> (world, int) prog" where
  "Chan_userLeave client =
     bnd (get_client client) (\<lambda>cl.
     case c_channel cl of
       None \<Rightarrow> ret (- 1)
     | Some leaving \<Rightarrow>
         bnd (chan_unlink leaving client) (\<lambda>_.
         bnd (get_chan leaving) (\<lambda>x.
         if ch_temporary x \<and> ch_clients x = []
         then bnd (Chan_freeChannel leaving) (\<lambda>_. ret (ch_id x))
         else ret (- 1))))"

definition Chan_userJoin :: "chref \<Rightarrow> cref \<Rightarrow> (world, int) prog" where
  "Chan_userJoin ch client =
     bnd (get_client client) (\<lambda>cl.
     if c_channel cl = Some ch then ret 0
     else
       bnd (Chan_userLeave client) (\<lambda>leaving_id.
       bnd (upd_chan ch (\<lambda>x. x\<lparr>ch_clients := ch_clients x @ [client]\<rparr>)) (\<lambda>_.
       bnd (upd_client client (\<lambda>cl. cl\<lparr>c_channel := Some ch\<rparr>)) (\<lambda>_.
       ret leaving_id))))"

definition Chan_userJoin_id :: "int \<Rightarrow> cref \<Rightarrow> (world, int) prog" where
  "Chan_userJoin_id channelid client =
     bnd (find_chan (\<lambda>ch. ch_id ch = channelid)) (\<lambda>itr.
     case itr of None \<Rightarrow> ret (- 1) | Some ch \<Rightarrow> Chan_userJoin ch client)"

definition Chan_userJoin_id_test :: "int \<Rightarrow> (world, bool) prog" where
  "Chan_userJoin_id_test channelid =
     bnd (find_chan (\<lambda>ch. ch_id ch = channelid)) (\<lambda>itr.
     case itr of
       None \<Rightarrow> ret False
     | Some ch \<Rightarrow> bnd (get_chan ch) (\<lambda>x. ret (\<not> ch_noenter x)))"

section \<open>The tree below a channel\<close>

text \<open>
  The recursion of \<open>Chan_buildTreeList\<close> with its depth bounded by the fuel. The list it
  builds is the result, so \<open>Chan_freeTreeList\<close> has nothing left to do.
\<close>

fun Chan_buildTreeList :: "nat \<Rightarrow> chref \<Rightarrow> (world, chref list) prog"
  and tree_lists :: "nat \<Rightarrow> chref list \<Rightarrow> (world, chref list) prog" where
  "Chan_buildTreeList 0 ch = fail OutOfFuel"
| "Chan_buildTreeList (Suc n) ch =
     bnd (get_chan ch) (\<lambda>x.
     bnd (tree_lists n (ch_subs x)) (\<lambda>below.
     ret (ch # below)))"
| "tree_lists n [] = ret []"
| "tree_lists n (sub # subs) =
     bnd (Chan_buildTreeList n sub) (\<lambda>xs.
     bnd (tree_lists n subs) (\<lambda>ys.
     ret (xs @ ys)))"

section \<open>Start-up\<close>

text \<open>The body of the first loop of \<open>Chan_init\<close> for the channel numbered \<open>i\<close>.\<close>

definition init_channel :: "string option \<Rightarrow> nat \<Rightarrow> conf_channel \<Rightarrow> (world, unit) prog" where
  "init_channel defaultChannelName i chdesc =
     (if i = 0 then
        bnd (createChannel 0 (cc_name chdesc) (cc_description chdesc)) (\<lambda>root. block
          [modify (\<lambda>w. w\<lparr>w_rootChan := Some root\<rparr>),
           upd_chan root (\<lambda>x. x\<lparr>ch_noenter := cc_noenter chdesc\<rparr>),
           flat_add root,
           guarded (defaultChannelName = cc_name chdesc) (modify (\<lambda>w. w\<lparr>w_defaultChan := Some root\<rparr>))])
      else
        bnd (Chan_createChannel (cc_name chdesc) (cc_description chdesc)) (\<lambda>ch.
        bnd (upd_chan ch (\<lambda>x. x\<lparr>ch_noenter := cc_noenter chdesc\<rparr>)) (\<lambda>_.
        bnd (guarded (defaultChannelName = cc_name chdesc) (modify (\<lambda>w. w\<lparr>w_defaultChan := Some ch\<rparr>))) (\<lambda>_.
        bnd (deref (cc_parent chdesc)) (\<lambda>parent.
        bnd (find_chan (\<lambda>x. ch_name x = parent)) (\<lambda>itr.
        case itr of
          None \<Rightarrow> fail Fatal
        | Some p \<Rightarrow> Chan_addChannel p ch))))))"

text \<open>\<open>for (i = 0; ; i++)\<close> until the configuration has no further entry.\<close>

primrec init_channels :: "nat \<Rightarrow> string option \<Rightarrow> nat \<Rightarrow> (world, unit) prog" where
  "init_channels 0 dflt i = fail OutOfFuel"
| "init_channels (Suc n) dflt i =
     bnd (gets (\<lambda>w. Conf_getNextChannel i (w_conf w))) (\<lambda>chdesc.
     case chdesc of
       None \<Rightarrow> if i = 0 then fail Fatal else ret ()
     | Some chdesc \<Rightarrow> bnd (init_channel dflt i chdesc) (\<lambda>_. init_channels n dflt (Suc i)))"

definition find_named :: "string option \<Rightarrow> (world, chref) prog" where
  "find_named name =
     bnd (deref name) (\<lambda>name.
     bnd (find_chan (\<lambda>x. ch_name x = name)) (\<lambda>itr.
     case itr of None \<Rightarrow> fail Fatal | Some ch \<Rightarrow> ret ch))"

text \<open>
  Each channel has a single \<open>link_node\<close>: linking a channel that is already the
  destination of a link puts that node into a second list.
\<close>

definition link_add :: "chref \<Rightarrow> chref \<Rightarrow> (world, unit) prog" where
  "link_add src dst =
     bnd (gets (\<lambda>w. \<exists>ch \<in> set (w_channels w). \<exists>x. w_chstore w ch = Some x \<and> dst \<in> set (ch_links x))) (\<lambda>linked.
     if linked then fail ListCorrupt
     else upd_chan src (\<lambda>x. x\<lparr>ch_links := ch_links x @ [dst], ch_linkcount := ch_linkcount x + 1\<rparr>))"

primrec init_links :: "nat \<Rightarrow> nat \<Rightarrow> (world, unit) prog" where
  "init_links 0 i = fail OutOfFuel"
| "init_links (Suc n) i =
     bnd (gets (\<lambda>w. Conf_getNextChannelLink i (w_conf w))) (\<lambda>chlink.
     case chlink of
       None \<Rightarrow> ret ()
     | Some chlink \<Rightarrow>
         bnd (find_named (cl_source chlink)) (\<lambda>ch_src.
         bnd (find_named (cl_destination chlink)) (\<lambda>ch_dst.
         bnd (link_add ch_src ch_dst) (\<lambda>_.
         init_links n (Suc i)))))"

definition default_to_root :: "world \<Rightarrow> world" where
  "default_to_root w = (if w_defaultChan w = None then w\<lparr>w_defaultChan := w_rootChan w\<rparr> else w)"

definition Chan_init :: "nat \<Rightarrow> (world, unit) prog" where
  "Chan_init n =
     bnd (getStrConf DEFAULT_CHANNEL) (\<lambda>defaultChannelName. block
       [init_channels n defaultChannelName 0,
        modify default_to_root,
        bnd (gets w_defaultChan) (\<lambda>d.
        bnd (deref d) (\<lambda>d.
        bnd (get_chan d) (\<lambda>x. guarded (ch_noenter x) (fail Fatal)))),
        init_links n 0])"

section \<open>Searching\<close>

lemma next_in_nth:
  assumes "distinct xs" and "i < length xs"
  shows "next_in xs (Some (xs ! i)) = (if Suc i < length xs then Some (xs ! Suc i) else None)"
proof -
  have "dropWhile (\<lambda>y. y \<noteq> xs ! i) xs = drop i xs"
  proof -
    have "takeWhile (\<lambda>y. y \<noteq> xs ! i) xs = take i xs"
      by (rule takeWhile_eq_take_P_nth) (use assms in \<open>auto simp: nth_eq_iff_index_eq\<close>)
    then show ?thesis
      by (metis append_eq_append_conv append_take_drop_id takeWhile_dropWhile_id)
  qed
  also have "\<dots> = xs ! i # drop (Suc i) xs" using assms(2) by (rule Cons_nth_drop_Suc [symmetric])
  finally have d: "dropWhile (\<lambda>y. y \<noteq> xs ! i) xs = xs ! i # drop (Suc i) xs" .
  show ?thesis
  proof (cases "Suc i < length xs")
    case True
    then have "drop (Suc i) xs = xs ! Suc i # drop (Suc (Suc i)) xs" by (rule Cons_nth_drop_Suc [symmetric])
    with d True show ?thesis by (simp add: next_in_def)
  qed (simp add: next_in_def d)
qed

lemma next_in_first: "next_in xs None = (if xs = [] then None else Some (xs ! 0))"
  by (simp add: next_in_def split: list.split)

lemma reads_find_chan [reads_intros]: "reads (find_chan P)"
  unfolding find_chan_def by (intro reads_intros)

lemma reads_find_sibling [reads_intros]: "reads (find_sibling p P)"
  unfolding find_sibling_def by (intro reads_intros)

lemma reads_free_id_loop [reads_intros]: "(\<And>i. reads (user i)) \<Longrightarrow> reads (free_id_loop user n i)"
  by (induction n arbitrary: i) (auto intro!: reads_intros)

lemma reads_findFreeId [reads_intros]: "reads findFreeId"
  unfolding findFreeId_def by (intro reads_intros)

lemma reads_Chan_fromId [reads_intros]: "reads (Chan_fromId i)"
  unfolding Chan_fromId_def by (intro reads_intros)

lemma reads_userJoin_id_test [reads_intros]: "reads (Chan_userJoin_id_test i)"
  unfolding Chan_userJoin_id_test_def by (intro reads_intros)

lemmas keeps_channel_reads [keeps_intros] =
  reads_find_chan [THEN reads_keeps] reads_find_sibling [THEN reads_keeps]
  reads_findFreeId [THEN reads_keeps] reads_Chan_fromId [THEN reads_keeps]
  reads_userJoin_id_test [THEN reads_keeps]

lemma find_chan_Some:
  assumes "find_chan P w = Inr (Some ch, w')"
  shows "ch \<in> set (w_channels w) \<and> (\<exists>x. w_chstore w ch = Some x \<and> P x)"
  using search_Some [of get_chan P "w_channels w" w ch w'] assms reads_get
  by (auto simp: find_chan_def prog_simps split: option.splits)

lemma find_chan_None:
  assumes "find_chan P w = Inr (None, w')" and "ch \<in> set (w_channels w)" and "w_chstore w ch = Some x"
  shows "\<not> P x"
  using search_None [of get_chan P "w_channels w" w w' ch] assms reads_get
  by (auto simp: find_chan_def prog_simps)

lemma find_chan_total:
  assumes "channels_ok w"
  shows "find_chan P w = Inr (find (\<lambda>ch. P (the (w_chstore w ch))) (w_channels w), w)"
proof -
  have "get_chan ch w = Inr (the (w_chstore w ch), w)" if "ch \<in> set (w_channels w)" for ch
    using assms that by (auto simp: channels_ok_def prog_simps)
  then show ?thesis by (simp add: find_chan_def search_total)
qed

lemma free_id_loop_result:
  assumes "free_id_loop user n i w = Inr (r, w')" and "\<And>i. reads (user i)" and "0 \<le> i"
  shows "w' = w \<and> (r = - 1 \<or> i \<le> r \<and> r < i + int n \<and> user r w = Inr (None, w))"
  using assms(1,3)
proof (induction n arbitrary: i)
  case 0
  then show ?case by (simp add: ret_app)
next
  case (Suc n)
  from Suc.prems(1) obtain u where u: "user i w = Inr (u, w)"
    and k: "(if u = None then ret i else free_id_loop user n (i + 1)) w = Inr (r, w')"
    by (auto elim!: bnd_readsE [OF _ assms(2)])
  show ?case
  proof (cases "u = None")
    case True
    with u k show ?thesis by (simp add: ret_app)
  next
    case False
    with k Suc.IH [of "i + 1"] Suc.prems(2) show ?thesis by auto
  qed
qed

lemma findFreeId_fresh:
  assumes "findFreeId w = Inr (r, w')" and "channels_ok w" and "r \<noteq> - 1"
  shows "w' = w" and "0 \<le> r" and "r < INT_MAX"
    and "\<And>ch x. w_chstore w ch = Some x \<Longrightarrow> ch_id x \<noteq> r"
proof -
  have *: "w' = w \<and> (r = - 1 \<or> 0 \<le> r \<and> r < 0 + int (nat INT_MAX) \<and>
      find_chan (\<lambda>ch. ch_id ch = r) w = Inr (None, w))"
    using assms(1) unfolding findFreeId_def by (rule free_id_loop_result) (intro reads_intros, simp)
  with assms(3) show "w' = w" "0 \<le> r" "r < INT_MAX" by (auto simp: INT_MAX_def)
  fix ch x assume x: "w_chstore w ch = Some x"
  then have "ch \<in> set (w_channels w)" using assms(2) by (auto simp: channels_ok_def)
  with * assms(3) x show "ch_id x \<noteq> r"
    using find_chan_None [of "\<lambda>ch. ch_id ch = r" w w ch x] by blast
qed

section \<open>The invariant under updates of the channels\<close>

lemma inv_put_chan:
  assumes inv: "inv A w" and x: "w_chstore w ch = Some x"
    and same: "ch_id x' = ch_id x" "ch_parent x' = ch_parent x" "ch_temporary x' = ch_temporary x"
      "ch_subs x' = ch_subs x" "ch_links x' = ch_links x" "ch_linkcount x' = ch_linkcount x"
    and mem: "distinct (ch_clients x')"
      "\<And>c. c \<in> set (ch_clients x') \<Longrightarrow> \<exists>cl. w_cstore w c = Some cl \<and> c_channel cl = Some ch"
  shows "inv A (put_chan ch x' w)"
  unfolding inv_def
proof (intro conjI)
  show "clients_ok (put_chan ch x' w)" "auth_ok A (put_chan ch x' w)" "ext_ok (w_ext (put_chan ch x' w))"
    using inv by (simp_all add: inv_def clients_ok_def auth_ok_def put_chan_def)
  have "dom ((w_chstore w)(ch \<mapsto> x')) = dom (w_chstore w)" using x by auto
  then show "channels_ok (put_chan ch x' w)"
    using inv x same(1,3) by (auto simp: inv_def channels_ok_def put_chan_def)
  show "tree_ok (put_chan ch x' w)"
    unfolding tree_ok_def
  proof (intro allI impI)
    fix d y assume y: "w_chstore (put_chan ch x' w) d = Some y"
    have keep: "\<exists>z'. w_chstore (put_chan ch x' w) e = Some z' \<and> ch_parent z' = ch_parent z \<and>
        ch_temporary z' = ch_temporary z \<and> ch_subs z' = ch_subs z" if "w_chstore w e = Some z" for e z
      using that x same by (auto simp: put_chan_def)
    obtain y0 where y0: "w_chstore w d = Some y0" "ch_parent y = ch_parent y0" "ch_subs y = ch_subs y0"
      "ch_temporary y = ch_temporary y0" "ch_links y = ch_links y0" "ch_linkcount y = ch_linkcount y0"
      using y x same by (auto simp: put_chan_def split: if_splits)
    have "tree_node (put_chan ch x' w) d y0"
      by (rule tree_node_mono [OF inv_tree [OF inv y0(1)]]) (use keep in metis)
    then show "tree_node (put_chan ch x' w) d y" by (rule tree_node_cong) (use y0 in simp_all)
  qed
  show "members_ok (put_chan ch x' w)"
    using inv mem by (auto simp: inv_def members_ok_def put_chan_def)
qed

definition new_channel :: "int \<Rightarrow> string \<Rightarrow> string option \<Rightarrow> channel" where
  "new_channel i name desc =
     \<lparr>ch_id = i, ch_name = name, ch_desc = desc, ch_parent = None, ch_temporary = False,
      ch_noenter = False, ch_subs = [], ch_clients = [], ch_links = [], ch_linkcount = 0\<rparr>"

lemma createChannel_result:
  assumes "createChannel i name desc w = Inr (ch, w')"
  obtains nm where "name = Some nm" and "ch = w_next w"
    and "w' = put_chan ch (new_channel i nm desc) (w\<lparr>w_next := Suc (w_next w)\<rparr>)"
  using assms by (auto simp: createChannel_def bnd_eq_Inr prog_simps new_channel_def split: option.splits)

lemma Chan_createChannel_result:
  assumes "Chan_createChannel name desc w = Inr (ch, w')" and "channels_ok w"
  shows "\<exists>nm i. name = Some nm \<and> ch = w_next w \<and> 0 \<le> i \<and> i < INT_MAX \<and>
    (\<forall>dh x. w_chstore w dh = Some x \<longrightarrow> ch_id x \<noteq> i) \<and>
    w' = put_chan ch (new_channel i nm desc) (w\<lparr>w_next := Suc (w_next w)\<rparr>)"
proof -
  obtain i w1 where i: "findFreeId w = Inr (i, w1)" and k: "(if i < 0 then fail Fatal else createChannel i name desc) w1 = Inr (ch, w')"
    using assms(1) unfolding Chan_createChannel_def by (rule bndE)
  from k have i0: "0 \<le> i" and k': "createChannel i name desc w1 = Inr (ch, w')"
    by (auto simp: fail_app split: if_splits)
  then have "i \<noteq> - 1" by simp
  note f = findFreeId_fresh [OF i assms(2) this]
  have w1: "w1 = w" by (rule f)
  obtain nm where "name = Some nm" "ch = w_next w"
    "w' = put_chan ch (new_channel i nm desc) (w\<lparr>w_next := Suc (w_next w)\<rparr>)"
    using k' unfolding w1 by (rule createChannel_result)
  with f(2-4) show ?thesis by blast
qed

text \<open>A new channel below a permanent one.\<close>

lemma inv_add_leaf:
  assumes inv: "inv A w" and y: "w_chstore w p = Some y" "\<not> ch_temporary y"
    and i: "0 \<le> ch_id x" "ch_id x < INT_MAX" "\<And>dh z. w_chstore w dh = Some z \<Longrightarrow> ch_id z \<noteq> ch_id x"
    and x: "ch_parent x = Some p" "ch_subs x = []" "ch_clients x = []" "ch_links x = []" "ch_linkcount x = 0"
    and d: "d = w_defaultChan w \<or> d = Some (w_next w) \<and> \<not> ch_temporary x"
  shows "inv A (w\<lparr>w_next := Suc (w_next w), w_defaultChan := d,
    w_chstore := (w_chstore w)(w_next w \<mapsto> x, p \<mapsto> y\<lparr>ch_subs := ch_subs y @ [w_next w]\<rparr>),
    w_channels := w_channels w @ [w_next w]\<rparr>)" (is "inv A ?w")
proof -
  have new: "w_chstore w (w_next w) = None" and pn: "p < w_next w"
    using inv y unfolding inv_def channels_ok_def by (metis less_irrefl not_None_eq, blast)
  have ds: "set (w_channels w) = dom (w_chstore w)" using inv by (simp add: inv_def channels_ok_def)
  have clients: "clients_ok ?w"
    using inv by (auto simp: inv_def clients_ok_def intro: less_SucI)
  have chans: "channels_ok ?w"
    unfolding channels_ok_def
  proof (intro conjI)
    show "distinct (w_channels ?w)" "set (w_channels ?w) = dom (w_chstore ?w)"
      using inv new ds y by (auto simp: inv_def channels_ok_def)
    show "\<forall>ch z. w_chstore ?w ch = Some z \<longrightarrow> ch < w_next ?w \<and> 0 \<le> ch_id z \<and> ch_id z < INT_MAX"
      using inv i(1,2) y pn by (auto simp: inv_def channels_ok_def intro: less_SucI)
    show "\<forall>ch z dh v. w_chstore ?w ch = Some z \<longrightarrow> w_chstore ?w dh = Some v \<longrightarrow> ch_id z = ch_id v \<longrightarrow> ch = dh"
      using inv i(3) y pn unfolding inv_def channels_ok_def by auto metis+
    show "\<forall>ch. w_rootChan ?w = Some ch \<or> w_defaultChan ?w = Some ch \<longrightarrow> (\<exists>z. w_chstore ?w ch = Some z \<and> \<not> ch_temporary z)"
      using inv y new d pn unfolding inv_def channels_ok_def by auto
  qed
  have tree: "tree_ok ?w"
    unfolding tree_ok_def
  proof (intro allI impI)
    fix ch z assume z: "w_chstore ?w ch = Some z"
    have keep: "\<exists>z'. w_chstore ?w e = Some z' \<and> ch_parent z' = ch_parent v \<and> ch_temporary z' = ch_temporary v \<and>
        (ch \<in> set (ch_subs v) \<longrightarrow> ch \<in> set (ch_subs z'))" if "w_chstore w e = Some v" for e v
      using that new y by auto
    consider "ch = w_next w" "z = x" | "ch = p" "ch \<noteq> w_next w" "z = y\<lparr>ch_subs := ch_subs y @ [w_next w]\<rparr>"
      | "ch \<noteq> p" "ch \<noteq> w_next w" "w_chstore w ch = Some z"
      using z pn by (auto split: if_splits)
    then show "tree_node ?w ch z"
    proof cases
      case 1
      with x y pn show ?thesis by (auto simp: tree_node_def)
    next
      case 2
      have o: "tree_node w p y" using inv y(1) by (rule inv_tree)
      then have "w_next w \<notin> set (ch_subs y)" using new by (force simp: tree_node_def)
      moreover have "tree_node ?w p y"
        by (rule tree_node_mono [OF o]) (use keep 2(1) in blast)
      ultimately show ?thesis using 2 x(1) pn y(2) by (auto simp: tree_node_def)
    next
      case 3
      show ?thesis by (rule tree_node_mono [OF inv_tree [OF inv 3(3)]]) (use keep in blast)
    qed
  qed
  have mem: "members_ok ?w"
    using inv x y unfolding inv_def members_ok_def by auto
  have auth: "auth_ok A ?w"
    using inv by (auto simp: inv_def auth_ok_def intro: less_SucI)
  show ?thesis using clients chans tree mem auth inv by (simp add: inv_def)
qed

text \<open>A temporary channel nobody is in goes away.\<close>

lemma Chan_freeChannel_result:
  assumes "Chan_freeChannel ch w = Inr (r, w')" and "w_chstore w ch = Some x"
  shows "\<exists>st. w' = w\<lparr>w_chstore := st, w_channels := remove1 ch (w_channels w)\<rparr> \<and>
    (case ch_parent x of
       None \<Rightarrow> st = (w_chstore w)(ch := None)
     | Some p \<Rightarrow> \<exists>y. w_chstore w p = Some y \<and>
         st = (w_chstore w)(p \<mapsto> y\<lparr>ch_subs := remove1 ch (ch_subs y)\<rparr>, ch := None))"
  using assms
  by (auto simp: Chan_freeChannel_def Chan_removeChannel_def bnd_eq_Inr prog_simps put_chan_def
      split: option.splits)

lemma inv_free_leaf:
  assumes inv: "inv A w" and x: "w_chstore w ch = Some x" "ch_temporary x" "ch_clients x = []"
    and run: "Chan_freeChannel ch w = Inr (r, w')"
  shows "inv A w'"
proof -
  from Chan_freeChannel_result [OF run x(1)] obtain st where w': "w' = w\<lparr>w_chstore := st, w_channels := remove1 ch (w_channels w)\<rparr>"
    and st: "case ch_parent x of None \<Rightarrow> st = (w_chstore w)(ch := None)
      | Some p \<Rightarrow> \<exists>y. w_chstore w p = Some y \<and>
         st = (w_chstore w)(p \<mapsto> y\<lparr>ch_subs := remove1 ch (ch_subs y)\<rparr>, ch := None)" by blast
  have tx: "tree_node w ch x" using inv x(1) by (rule inv_tree)
  then have leaf: "ch_subs x = []" using x(2) by (simp add: tree_node_def)
  have gone: "st ch = None" using st by (auto split: option.splits)
  have keep: "\<exists>z'. st e = Some z' \<and> ch_id z' = ch_id z \<and> ch_parent z' = ch_parent z \<and> ch_temporary z' = ch_temporary z \<and>
      ch_clients z' = ch_clients z \<and> ch_links z' = ch_links z \<and> ch_linkcount z' = ch_linkcount z \<and>
      ch_subs z' = (if ch_parent x = Some e then remove1 ch (ch_subs z) else ch_subs z)"
    if "w_chstore w e = Some z" "e \<noteq> ch" for e z
    using st that by (auto split: option.splits)
  have was: "\<exists>z. w_chstore w e = Some z \<and> ch_id z' = ch_id z \<and> ch_parent z' = ch_parent z \<and> ch_temporary z' = ch_temporary z \<and>
      ch_clients z' = ch_clients z \<and> ch_links z' = ch_links z \<and> ch_linkcount z' = ch_linkcount z \<and>
      ch_subs z' = (if ch_parent x = Some e then remove1 ch (ch_subs z) else ch_subs z)"
    if "st e = Some z'" for e z'
    using st that by (auto split: option.splits if_splits)
  have dom: "dom st = dom (w_chstore w) - {ch}"
    using keep was gone by (auto simp: dom_def) fastforce+
  have old: "channels_ok w" using inv by (simp add: inv_def)
  have clients: "clients_ok w'" "auth_ok A w'" "ext_ok (w_ext w')"
    using inv by (simp_all add: inv_def clients_ok_def auth_ok_def w')
  have chans: "channels_ok w'"
    unfolding channels_ok_def
  proof (intro conjI)
    show "distinct (w_channels w')" "set (w_channels w') = dom (w_chstore w')"
      using old dom by (auto simp: channels_ok_def w')
    show "\<forall>d z. w_chstore w' d = Some z \<longrightarrow> d < w_next w' \<and> 0 \<le> ch_id z \<and> ch_id z < INT_MAX"
      using old was unfolding channels_ok_def w' by (simp, metis)
    show "\<forall>d z e v. w_chstore w' d = Some z \<longrightarrow> w_chstore w' e = Some v \<longrightarrow> ch_id z = ch_id v \<longrightarrow> d = e"
      using old was unfolding channels_ok_def w' by (simp, metis)
    show "\<forall>d. w_rootChan w' = Some d \<or> w_defaultChan w' = Some d \<longrightarrow> (\<exists>z. w_chstore w' d = Some z \<and> \<not> ch_temporary z)"
    proof (intro allI impI)
      fix d assume "w_rootChan w' = Some d \<or> w_defaultChan w' = Some d"
      then obtain z where z: "w_chstore w d = Some z" "\<not> ch_temporary z"
        using old by (auto simp: channels_ok_def w')
      with x have "d \<noteq> ch" by auto
      with keep [OF z(1)] z show "\<exists>z. w_chstore w' d = Some z \<and> \<not> ch_temporary z" by (auto simp: w')
    qed
  qed
  have tree: "tree_ok w'"
    unfolding tree_ok_def
  proof (intro allI impI)
    fix d z' assume "w_chstore w' d = Some z'"
    then have d: "st d = Some z'" by (simp add: w')
    then have ne: "d \<noteq> ch" using gone by auto
    from was [OF d] obtain z where z: "w_chstore w d = Some z" and same: "ch_parent z' = ch_parent z" "ch_temporary z' = ch_temporary z"
      "ch_links z' = ch_links z" "ch_linkcount z' = ch_linkcount z"
      "ch_subs z' = (if ch_parent x = Some d then remove1 ch (ch_subs z) else ch_subs z)" by blast
    have tz: "tree_node w d z" using inv z by (rule inv_tree)
    have nsub: "ch \<notin> set (ch_subs z')"
      using tz same(5) x(1) by (auto simp: tree_node_def)
    have "tree_node w d z'"
      using tz same by (auto simp: tree_node_def dest: notin_set_remove1)
    then show "tree_node w' d z'"
    proof (rule tree_node_mono)
      fix e v assume e: "e \<in> set (ch_subs z') \<union> set_option (ch_parent z') \<union> set (ch_links z')" and v: "w_chstore w e = Some v"
      have "e \<noteq> ch"
      proof
        assume "e = ch"
        with e nsub consider "ch_parent z = Some ch" | "ch \<in> set (ch_links z)" using same by auto
        then show False
        proof cases
          case 1
          with tz x(1) leaf show False by (auto simp: tree_node_def)
        next
          case 2
          with tz x show False by (auto simp: tree_node_def)
        qed
      qed
      with keep [OF v] ne show "\<exists>v'. w_chstore w' e = Some v' \<and> ch_parent v' = ch_parent v \<and>
          ch_temporary v' = ch_temporary v \<and> (d \<in> set (ch_subs v) \<longrightarrow> d \<in> set (ch_subs v'))"
        by (auto simp: w')
    qed
  qed
  have "members_ok w'"
    using inv was unfolding inv_def members_ok_def w' by simp metis
  then show ?thesis using clients chans tree by (simp add: inv_def)
qed

section \<open>Leaving and joining\<close>

lemma chan_unlink_result:
  assumes "chan_unlink ch c w = Inr (r, w')"
  obtains x where "w_chstore w ch = Some x" and "c \<in> set (ch_clients x)"
    and "w' = put_chan ch (x\<lparr>ch_clients := remove1 c (ch_clients x)\<rparr>) w"
  using assms by (auto simp: chan_unlink_def bnd_eq_Inr prog_simps split: option.splits if_splits)

lemma inv_chan_unlink:
  assumes "inv A w" and "chan_unlink ch c w = Inr (r, w')"
  shows "inv A w'"
proof -
  from assms(2) obtain x where x: "w_chstore w ch = Some x"
    and w': "w' = put_chan ch (x\<lparr>ch_clients := remove1 c (ch_clients x)\<rparr>) w"
    by (rule chan_unlink_result)
  have "distinct (ch_clients x) \<and> (\<forall>c \<in> set (ch_clients x). \<exists>cl. w_cstore w c = Some cl \<and> c_channel cl = Some ch)"
    using assms(1) x by (simp add: inv_def members_ok_def)
  then show ?thesis unfolding w'
    by (intro inv_put_chan [OF assms(1) x]) auto
qed

lemma only_in_own_channel:
  assumes "inv A w" and "w_cstore w c = Some cl" and "w_chstore w ch = Some x" and "c \<in> set (ch_clients x)"
  shows "c_channel cl = Some ch"
  using assms unfolding inv_def members_ok_def by fastforce

text \<open>
  Leaving keeps the invariant and touches neither the clients nor the pointers in use.
  Afterwards no channel lists the client.
\<close>

lemma Chan_userLeave_result:
  assumes inv: "inv A w" and run: "Chan_userLeave c w = Inr (r, w')"
  shows "inv A w' \<and> w_cstore w' = w_cstore w \<and> w_clients w' = w_clients w \<and> w_next w' = w_next w \<and>
    (\<forall>ch x. w_chstore w' ch = Some x \<longrightarrow> c \<notin> set (ch_clients x)) \<and>
    (\<forall>ch x. w_chstore w ch = Some x \<longrightarrow> \<not> ch_temporary x \<longrightarrow> w_chstore w' ch \<noteq> None)"
proof -
  from run obtain cl where cl: "w_cstore w c = Some cl"
    by (auto simp: Chan_userLeave_def bnd_eq_Inr prog_simps split: option.splits)
  note own = only_in_own_channel [OF inv cl]
  show ?thesis
  proof (cases "c_channel cl")
    case None
    with run cl have "w' = w" by (auto simp: Chan_userLeave_def bnd_eq_Inr prog_simps split: option.splits)
    with None own inv show ?thesis by auto
  next
    case (Some ch)
    with run cl obtain u w1 where u: "chan_unlink ch c w = Inr (u, w1)"
      and rest: "bnd (get_chan ch) (\<lambda>x. if ch_temporary x \<and> ch_clients x = []
         then bnd (Chan_freeChannel ch) (\<lambda>_. ret (ch_id x)) else ret (- 1)) w1 = Inr (r, w')"
      by (auto simp: Chan_userLeave_def prog_simps elim!: bndE split: option.splits)
    from u obtain x where x: "w_chstore w ch = Some x" "c \<in> set (ch_clients x)"
      and w1: "w1 = put_chan ch (x\<lparr>ch_clients := remove1 c (ch_clients x)\<rparr>) w" by (rule chan_unlink_result)
    have d: "distinct (ch_clients x)" using inv x by (simp add: inv_def members_ok_def)
    have I1: "inv A w1" using inv u by (rule inv_chan_unlink)
    have x1: "w_chstore w1 ch = Some (x\<lparr>ch_clients := remove1 c (ch_clients x)\<rparr>)" by (simp add: w1 put_chan_def)
    have out: "c \<notin> set (ch_clients y)" if "w_chstore w1 dh = Some y" for dh y
      using that own [of dh y] Some d by (auto simp: w1 put_chan_def split: if_splits)
    show ?thesis
    proof (cases "ch_temporary x \<and> remove1 c (ch_clients x) = []")
      case False
      with rest x1 have "w' = w1" by (auto simp: bnd_eq_Inr prog_simps)
      with I1 out show ?thesis by (auto simp: w1 put_chan_def)
    next
      case True
      with rest x1 obtain v where v: "Chan_freeChannel ch w1 = Inr (v, w')"
        by (auto simp: bnd_eq_Inr prog_simps)
      have "inv A w'" by (rule inv_free_leaf [OF I1 x1 _ _ v]) (use True in simp_all)
      moreover from Chan_freeChannel_result [OF v x1] obtain st
        where w': "w' = w1\<lparr>w_chstore := st, w_channels := remove1 ch (w_channels w1)\<rparr>"
          and st: "case ch_parent x of None \<Rightarrow> st = (w_chstore w1)(ch := None)
          | Some p \<Rightarrow> \<exists>y. w_chstore w1 p = Some y \<and>
            st = (w_chstore w1)(p \<mapsto> y\<lparr>ch_subs := remove1 ch (ch_subs y)\<rparr>, ch := None)" by auto
      moreover have "c \<notin> set (ch_clients y)" if "st dh = Some y" for dh y
        using st that out by (auto split: option.splits if_splits)
      moreover have "st dh \<noteq> None" if "w_chstore w dh = Some y" "\<not> ch_temporary y" for dh y
        using st that True x by (auto simp: w1 put_chan_def split: option.splits)
      ultimately show ?thesis by (auto simp: w1 put_chan_def)
    qed
  qed
qed

lemma keeps_Chan_userLeave [keeps_intros]: "keeps (inv A) (Chan_userLeave c)"
  using Chan_userLeave_result by (intro keepsI) blast

lemma inv_join:
  assumes inv: "inv A w" and cl: "w_cstore w c = Some cl" "c_authenticated cl"
    and out: "\<And>dh y. w_chstore w dh = Some y \<Longrightarrow> c \<notin> set (ch_clients y)"
    and x: "w_chstore w ch = Some x"
  shows "inv A (put_client c (cl\<lparr>c_channel := Some ch\<rparr>) (put_chan ch (x\<lparr>ch_clients := ch_clients x @ [c]\<rparr>) w))"
    (is "inv A ?w")
proof -
  let ?cl = "cl\<lparr>c_channel := Some ch\<rparr>"
  let ?v = "w\<lparr>w_cstore := (w_cstore w)(c \<mapsto> ?cl)\<rparr>"
  have ok: "client_ok ?cl" using inv_client [OF inv cl(1)] cl(2) by (simp add: client_ok_def)
  have "dom ((w_cstore w)(c \<mapsto> ?cl)) = dom (w_cstore w)" using cl by auto
  then have "clients_ok ?v" using inv cl ok by (auto simp: inv_def clients_ok_def)
  moreover have "channels_ok ?v" using inv by (simp add: inv_def channels_ok_def)
  moreover have "tree_ok ?v" using inv by (simp add: inv_def tree_ok_def tree_node_def)
  moreover have "members_ok ?v"
    unfolding members_ok_def
  proof (intro allI impI)
    fix dh y assume y: "w_chstore ?v dh = Some y"
    then have "c \<notin> set (ch_clients y)" using out [of dh y] by simp
    moreover have "distinct (ch_clients y) \<and> (\<forall>d \<in> set (ch_clients y). \<exists>dl. w_cstore w d = Some dl \<and> c_channel dl = Some dh)"
      using inv y by (simp add: inv_def members_ok_def)
    ultimately show "distinct (ch_clients y) \<and> (\<forall>d \<in> set (ch_clients y). \<exists>dl. w_cstore ?v d = Some dl \<and> c_channel dl = Some dh)"
      by auto
  qed
  moreover have "auth_ok A ?v" using inv cl by (auto simp: inv_def auth_ok_def)
  ultimately have "inv A ?v" using inv by (simp add: inv_def)
  then have "inv A (put_chan ch (x\<lparr>ch_clients := ch_clients x @ [c]\<rparr>) ?v)"
  proof (rule inv_put_chan)
    have m: "distinct (ch_clients x) \<and> (\<forall>d \<in> set (ch_clients x). \<exists>dl. w_cstore w d = Some dl \<and> c_channel dl = Some ch)"
      using inv x by (simp add: inv_def members_ok_def)
    show "distinct (ch_clients (x\<lparr>ch_clients := ch_clients x @ [c]\<rparr>))" using m out [OF x] by simp
    fix d assume "d \<in> set (ch_clients (x\<lparr>ch_clients := ch_clients x @ [c]\<rparr>))"
    then have "d \<in> set (ch_clients x) \<or> d = c" by auto
    then show "\<exists>dl. w_cstore ?v d = Some dl \<and> c_channel dl = Some ch" using m by auto
  qed (use x in simp_all)
  moreover have "put_client c ?cl (put_chan ch y w) = put_chan ch y ?v" for y
    by (rule world.equality) (simp_all add: put_chan_def put_client_def)
  ultimately show ?thesis by simp
qed

lemma Chan_userJoin_result:
  assumes inv: "inv A w" and c: "c \<in> A" and run: "Chan_userJoin ch c w = Inr (r, w')"
  shows "inv A w' \<and> w_clients w' = w_clients w \<and>
    (\<exists>cl. w_cstore w c = Some cl \<and> w_cstore w' = (w_cstore w)(c \<mapsto> cl\<lparr>c_channel := Some ch\<rparr>) \<and>
      (c_channel cl \<noteq> Some ch \<longrightarrow> (\<exists>x. w_chstore w' ch = Some x \<and> c \<in> set (ch_clients x))))"
proof -
  from run obtain cl where cl: "w_cstore w c = Some cl"
    by (auto simp: Chan_userJoin_def bnd_eq_Inr prog_simps split: option.splits)
  show ?thesis
  proof (cases "c_channel cl = Some ch")
    case True
    with run cl have "w' = w" by (auto simp: Chan_userJoin_def bnd_eq_Inr prog_simps split: option.splits)
    with True cl inv show ?thesis by (auto intro!: exI [of _ cl] simp: fun_upd_idem)
  next
    case False
    with run cl have "bnd (Chan_userLeave c) (\<lambda>l. bnd (upd_chan ch (\<lambda>x. x\<lparr>ch_clients := ch_clients x @ [c]\<rparr>)) (\<lambda>_.
       bnd (upd_client c (\<lambda>cl. cl\<lparr>c_channel := Some ch\<rparr>)) (\<lambda>_. ret l))) w = Inr (r, w')"
      by (simp add: Chan_userJoin_def bnd_Inr get_client_app)
    then obtain l w1 where l: "Chan_userLeave c w = Inr (l, w1)"
      and k: "bnd (upd_chan ch (\<lambda>x. x\<lparr>ch_clients := ch_clients x @ [c]\<rparr>)) (\<lambda>_.
       bnd (upd_client c (\<lambda>cl. cl\<lparr>c_channel := Some ch\<rparr>)) (\<lambda>_. ret l)) w1 = Inr (r, w')" by (rule bndE)
    note L = Chan_userLeave_result [OF inv l]
    from k L cl obtain x where x: "w_chstore w1 ch = Some x"
      and w': "w' = put_client c (cl\<lparr>c_channel := Some ch\<rparr>) (put_chan ch (x\<lparr>ch_clients := ch_clients x @ [c]\<rparr>) w1)"
      by (auto simp: bnd_eq_Inr prog_simps put_chan_def split: option.splits)
    have a: "c_authenticated cl" using inv c cl by (simp add: inv_def auth_ok_def)
    have "inv A w'" unfolding w' using L cl a x by (intro inv_join) auto
    with L cl x show ?thesis by (auto simp: w' put_client_def put_chan_def)
  qed
qed

lemma keeps_Chan_userJoin: "c \<in> A \<Longrightarrow> keeps (inv A) (Chan_userJoin ch c)"
  using Chan_userJoin_result by (intro keepsI) blast

lemma keeps_Chan_userJoin_id: "c \<in> A \<Longrightarrow> keeps (inv A) (Chan_userJoin_id i c)"
  unfolding Chan_userJoin_id_def by (intro keeps_intros keeps_Chan_userJoin)

section \<open>Creating channels\<close>

lemma Chan_addChannel_result:
  assumes "Chan_addChannel p ch w = Inr (r, w')" and "p \<noteq> ch" and "w_chstore w ch = Some x"
  obtains y where "w_chstore w p = Some y" and "ch \<notin> set (w_channels w)"
    and "w' = w\<lparr>w_chstore := (w_chstore w)(p \<mapsto> y\<lparr>ch_subs := ch_subs y @ [ch]\<rparr>, ch \<mapsto> x\<lparr>ch_parent := Some p\<rparr>),
      w_channels := w_channels w @ [ch]\<rparr>"
  using assms
  by (auto simp: Chan_addChannel_def flat_add_def bnd_eq_Inr prog_simps put_chan_def
      split: option.splits if_splits)

text \<open>A channel that is created, given its flags and put below a permanent parent.\<close>

lemma inv_created_channel:
  assumes inv: "inv A w" and y: "w_chstore w p = Some y" "\<not> ch_temporary y"
    and create: "Chan_createChannel name desc w = Inr (ch, w1)"
    and x: "w_chstore w1 ch = Some x0" "ch_id x = ch_id x0" "ch_subs x = []" "ch_clients x = []" "ch_links x = []" "ch_linkcount x = 0"
    and d: "d = w_defaultChan w \<or> d = Some ch \<and> \<not> ch_temporary x"
    and add: "Chan_addChannel p ch (put_chan ch x w1\<lparr>w_defaultChan := d\<rparr>) = Inr (r, w')"
  shows "inv A w' \<and> w_cstore w' = w_cstore w \<and> w_clients w' = w_clients w \<and> w_next w \<le> w_next w' \<and>
    w_chstore w' ch = Some (x\<lparr>ch_parent := Some p\<rparr>) \<and> w_defaultChan w' = d \<and> w_rootChan w' = w_rootChan w \<and>
    (\<forall>e z. e \<noteq> ch \<longrightarrow> w_chstore w' e = Some z \<longrightarrow> (\<exists>v. w_chstore w e = Some v \<and> ch_temporary z = ch_temporary v \<and>
      ch_id z = ch_id v \<and> ch_noenter z = ch_noenter v)) \<and>
    (\<forall>e v. w_chstore w e = Some v \<longrightarrow> (\<exists>z. w_chstore w' e = Some z \<and> ch_id z = ch_id v \<and> ch_noenter z = ch_noenter v))"
proof -
  have "channels_ok w" using inv by (simp add: inv_def)
  from Chan_createChannel_result [OF create this] obtain nm i where ch: "ch = w_next w"
    and i: "0 \<le> i" "i < INT_MAX" "\<forall>dh x. w_chstore w dh = Some x \<longrightarrow> ch_id x \<noteq> i"
    and w1: "w1 = put_chan ch (new_channel i nm desc) (w\<lparr>w_next := Suc (w_next w)\<rparr>)" by blast
  have new: "w_chstore w ch = None" and pn: "p \<noteq> ch"
    using inv y(1) unfolding inv_def channels_ok_def ch by (metis less_irrefl not_None_eq, blast)
  have xi: "ch_id x = i" using x(1,2) by (auto simp: w1 put_chan_def new_channel_def)
  let ?w2 = "put_chan ch x w1\<lparr>w_defaultChan := d\<rparr>"
  have "w_chstore ?w2 ch = Some x" by (simp add: put_chan_def)
  from Chan_addChannel_result [OF add pn this] obtain y' where y': "w_chstore ?w2 p = Some y'"
    and w': "w' = ?w2\<lparr>w_chstore := (w_chstore ?w2)(p \<mapsto> y'\<lparr>ch_subs := ch_subs y' @ [ch]\<rparr>, ch \<mapsto> x\<lparr>ch_parent := Some p\<rparr>),
      w_channels := w_channels ?w2 @ [ch]\<rparr>" by blast
  have "y' = y" using y' y(1) pn by (simp add: put_chan_def w1)
  let ?x = "x\<lparr>ch_parent := Some p\<rparr>"
  have w': "w' = w\<lparr>w_next := Suc (w_next w), w_defaultChan := d,
    w_chstore := (w_chstore w)(w_next w \<mapsto> ?x, p \<mapsto> y\<lparr>ch_subs := ch_subs y @ [w_next w]\<rparr>),
    w_channels := w_channels w @ [w_next w]\<rparr>"
    using pn by (intro world.equality) (auto simp: w' w1 put_chan_def \<open>y' = y\<close> ch fun_upd_twist)
  have "inv A w'" unfolding w'
    by (rule inv_add_leaf [OF inv y]) (use x i xi d ch in auto)
  then show ?thesis using new pn y by (auto simp: w' ch split: if_splits)
qed

text \<open>The first channel: the root, with identifier 0.\<close>

lemma inv_created_root:
  assumes inv: "inv A w" and none: "w_chstore w = Map.empty"
    and x: "ch_id x = 0" "ch_parent x = None" "ch_temporary x = False" "ch_subs x = []" "ch_clients x = []" "ch_links x = []" "ch_linkcount x = 0"
    and d: "d = None \<or> d = Some (w_next w)"
  shows "inv A (w\<lparr>w_next := Suc (w_next w), w_rootChan := Some (w_next w), w_defaultChan := d,
    w_chstore := [w_next w \<mapsto> x], w_channels := [w_next w]\<rparr>)" (is "inv A ?w")
proof -
  have "clients_ok ?w" using inv by (auto simp: inv_def clients_ok_def intro: less_SucI)
  moreover have "channels_ok ?w" using x d by (auto simp: channels_ok_def INT_MAX_def split: if_splits)
  moreover have "tree_ok ?w" using x by (auto simp: tree_ok_def tree_node_def split: if_splits)
  moreover have "members_ok ?w" using x by (auto simp: members_ok_def split: if_splits)
  moreover have "auth_ok A ?w" using inv by (auto simp: inv_def auth_ok_def intro: less_SucI)
  ultimately show ?thesis using inv by (simp add: inv_def)
qed

section \<open>Start-up\<close>

definition init_ok :: "nat \<Rightarrow> world \<Rightarrow> bool" where
  "init_ok i w \<longleftrightarrow> inv {} w \<and> (\<forall>ch x. w_chstore w ch = Some x \<longrightarrow> \<not> ch_temporary x) \<and>
     (if i = 0 then w_chstore w = Map.empty \<and> w_rootChan w = None \<and> w_defaultChan w = None
      else \<exists>r x. w_rootChan w = Some r \<and> w_chstore w r = Some x \<and> ch_id x = 0)"

lemma init_channel_ok:
  assumes ok: "init_ok i w" and run: "init_channel dflt i d w = Inr (r, w')"
  shows "init_ok (Suc i) w'"
proof (cases "i = 0")
  case True
  note w0 = ok [unfolded init_ok_def]
  from run True obtain root w1 where c: "createChannel 0 (cc_name d) (cc_description d) w = Inr (root, w1)"
    and k: "block [modify (\<lambda>w. w\<lparr>w_rootChan := Some root\<rparr>),
           upd_chan root (\<lambda>x. x\<lparr>ch_noenter := cc_noenter d\<rparr>),
           flat_add root,
           guarded (dflt = cc_name d) (modify (\<lambda>w. w\<lparr>w_defaultChan := Some root\<rparr>))] w1 = Inr (r, w')"
    by (auto simp: init_channel_def elim: bndE)
  from createChannel_result [OF c] obtain nm where root: "root = w_next w"
    and w1: "w1 = put_chan root (new_channel 0 nm (cc_description d)) (w\<lparr>w_next := Suc (w_next w)\<rparr>)" by blast
  have e: "w_chstore w = Map.empty" "w_channels w = []" "w_defaultChan w = None"
    using w0 True by (auto simp: inv_def channels_ok_def)
  let ?x = "(new_channel 0 nm (cc_description d))\<lparr>ch_noenter := cc_noenter d\<rparr>"
  let ?d = "if dflt = cc_name d then Some (w_next w) else None"
  have w': "w' = w\<lparr>w_next := Suc (w_next w), w_rootChan := Some (w_next w), w_defaultChan := ?d,
    w_chstore := [w_next w \<mapsto> ?x], w_channels := [w_next w]\<rparr>"
    using k e by (intro world.equality)
      (auto simp: w1 root put_chan_def flat_add_def bnd_eq_Inr prog_simps split: if_splits)
  have "inv {} w'" unfolding w'
    by (rule inv_created_root) (use w0 e in \<open>auto simp: new_channel_def\<close>)
  then show ?thesis using True by (auto simp: init_ok_def w' new_channel_def)
next
  case False
  note w0 = ok [unfolded init_ok_def]
  let ?set = "guarded (dflt = cc_name d)"
  from run False obtain ch w1 where c: "Chan_createChannel (cc_name d) (cc_description d) w = Inr (ch, w1)"
    and k: "bnd (upd_chan ch (\<lambda>x. x\<lparr>ch_noenter := cc_noenter d\<rparr>)) (\<lambda>_.
        bnd (?set (modify (\<lambda>w. w\<lparr>w_defaultChan := Some ch\<rparr>))) (\<lambda>_.
        bnd (deref (cc_parent d)) (\<lambda>parent.
        bnd (find_chan (\<lambda>x. ch_name x = parent)) (\<lambda>itr.
        case itr of None \<Rightarrow> fail Fatal | Some p \<Rightarrow> Chan_addChannel p ch)))) w1 = Inr (r, w')"
    by (auto simp: init_channel_def elim: bndE)
  have chs: "channels_ok w" using w0 by (simp add: inv_def)
  from Chan_createChannel_result [OF c chs] obtain nm i' where ch: "ch = w_next w"
    and w1: "w1 = put_chan ch (new_channel i' nm (cc_description d)) (w\<lparr>w_next := Suc (w_next w)\<rparr>)" by blast
  let ?x = "(new_channel i' nm (cc_description d))\<lparr>ch_noenter := cc_noenter d\<rparr>"
  let ?d = "if dflt = cc_name d then Some ch else w_defaultChan w"
  let ?w2 = "put_chan ch ?x w1\<lparr>w_defaultChan := ?d\<rparr>"
  have x1: "w_chstore w1 ch = Some (new_channel i' nm (cc_description d))" by (simp add: w1 put_chan_def)
  have "bnd (deref (cc_parent d)) (\<lambda>parent.
        bnd (find_chan (\<lambda>x. ch_name x = parent)) (\<lambda>itr.
        case itr of None \<Rightarrow> fail Fatal | Some p \<Rightarrow> Chan_addChannel p ch)) ?w2 = Inr (r, w')"
    using k x1 by (auto simp: bnd_eq_Inr upd_chan_app guarded_app modify_app w1 put_chan_def split: if_splits)
  then obtain parent p where f: "find_chan (\<lambda>x. ch_name x = parent) ?w2 = Inr (Some p, ?w2)"
    and add: "Chan_addChannel p ch ?w2 = Inr (r, w')"
    by (auto elim!: bnd_readsE intro!: reads_intros simp: fail_app split: option.splits)
  from find_chan_Some [OF f] have "p \<in> set (w_channels w)" by (simp add: w1 put_chan_def)
  then obtain y where y: "w_chstore w p = Some y" using chs by (auto simp: channels_ok_def)
  have "\<not> ch_temporary y" using w0 y by blast
  note cr = inv_created_channel [OF _ y this c x1 _ _ _ _ _ _ add, of "{}"]
  have r: "inv {} w'" "w_chstore w' ch = Some (?x\<lparr>ch_parent := Some p\<rparr>)" "w_rootChan w' = w_rootChan w"
    "\<forall>e z. e \<noteq> ch \<longrightarrow> w_chstore w' e = Some z \<longrightarrow> (\<exists>v. w_chstore w e = Some v \<and> ch_temporary z = ch_temporary v \<and>
      ch_id z = ch_id v \<and> ch_noenter z = ch_noenter v)"
    "\<forall>e v. w_chstore w e = Some v \<longrightarrow> (\<exists>z. w_chstore w' e = Some z \<and> ch_id z = ch_id v \<and> ch_noenter z = ch_noenter v)"
    using cr w0 by (simp_all add: new_channel_def)
  have "\<not> ch_temporary z" if "w_chstore w' e = Some z" for e z
    using that r(2,4) w0 by (cases "e = ch") (auto simp: new_channel_def)
  moreover have "\<exists>r x. w_rootChan w' = Some r \<and> w_chstore w' r = Some x \<and> ch_id x = 0"
    using w0 False r(3,5) by metis
  ultimately show ?thesis using r(1) by (auto simp: init_ok_def)
qed

lemma init_channels_ok:
  assumes "init_ok i w" and "init_channels n dflt i w = Inr (r, w')"
  shows "\<exists>k > 0. init_ok k w'"
  using assms
proof (induction n arbitrary: i w)
  case 0
  then show ?case by (simp add: fail_app)
next
  case (Suc n)
  show ?case
  proof (cases "Conf_getNextChannel i (w_conf w)")
    case None
    with Suc.prems show ?thesis by (auto simp: fail_app ret_app split: if_splits)
  next
    case (Some d)
    with Suc.prems(2) obtain u w1 where "init_channel dflt i d w = Inr (u, w1)" "init_channels n dflt (Suc i) w1 = Inr (r, w')"
      by (auto elim: bndE)
    with Suc.IH init_channel_ok [OF Suc.prems(1)] show ?thesis by blast
  qed
qed

lemma inv_put_links:
  assumes inv: "inv A w" and x: "w_chstore w ch = Some x" and dst: "w_chstore w dst = Some y" "\<not> ch_temporary y"
  shows "inv A (put_chan ch (x\<lparr>ch_links := ch_links x @ [dst], ch_linkcount := ch_linkcount x + 1\<rparr>) w)" (is "inv A (put_chan ch ?x w)")
proof -
  let ?w = "put_chan ch ?x w"
  have keep: "\<exists>z'. w_chstore ?w e = Some z' \<and> ch_parent z' = ch_parent z \<and>
        ch_temporary z' = ch_temporary z \<and> ch_subs z' = ch_subs z" if "w_chstore w e = Some z" for e z
    using that x by (auto simp: put_chan_def)
  have "dom ((w_chstore w)(ch \<mapsto> ?x)) = dom (w_chstore w)" using x by auto
  then have "channels_ok ?w" using inv x by (auto simp: inv_def channels_ok_def put_chan_def)
  moreover have "tree_ok ?w"
    unfolding tree_ok_def
  proof (intro allI impI)
    fix d z assume z: "w_chstore ?w d = Some z"
    have old: "tree_node ?w e v" if "w_chstore w e = Some v" for e v
      by (rule tree_node_mono [OF inv_tree [OF inv that]]) (use keep in metis)
    show "tree_node ?w d z"
    proof (cases "d = ch")
      case False
      with z have "w_chstore w d = Some z" by (simp add: put_chan_def)
      then show ?thesis by (rule old)
    next
      case True
      with z have "z = ?x" by (simp add: put_chan_def)
      with old [OF x] keep [OF dst(1)] dst(2) True show ?thesis by (auto simp: tree_node_def)
    qed
  qed
  moreover have "members_ok ?w" using inv x by (auto simp: inv_def members_ok_def put_chan_def)
  ultimately show ?thesis
    using inv by (simp add: inv_def clients_ok_def auth_ok_def put_chan_def)
qed

lemma find_named_result:
  assumes "find_named name w = Inr (ch, w')"
  shows "w' = w \<and> ch \<in> set (w_channels w)"
proof -
  obtain nm where "find_chan (\<lambda>x. ch_name x = nm) w = Inr (Some ch, w')"
    using assms by (auto simp: find_named_def bnd_eq_Inr deref_app fail_app ret_app split: option.splits)
  with find_chan_Some readsD [OF reads_find_chan] show ?thesis by blast
qed

lemma init_links_ok:
  assumes "init_ok k w" and "0 < k" and "init_links n i w = Inr (r, w')"
  shows "init_ok k w' \<and> w_defaultChan w' = w_defaultChan w \<and>
    (\<forall>ch x. w_chstore w ch = Some x \<longrightarrow> (\<exists>z. w_chstore w' ch = Some z \<and> ch_noenter z = ch_noenter x))"
  using assms
proof (induction n arbitrary: i w)
  case 0
  then show ?case by (simp add: fail_app)
next
  case (Suc n)
  show ?case
  proof (cases "Conf_getNextChannelLink i (w_conf w)")
    case None
    with Suc.prems show ?thesis by (auto simp: ret_app)
  next
    case (Some l)
    with Suc.prems(3) obtain src dst w1 where s: "src \<in> set (w_channels w)" and d: "dst \<in> set (w_channels w)"
      and add: "link_add src dst w = Inr ((), w1)" and k: "init_links n (Suc i) w1 = Inr (r, w')"
      by (auto elim!: bndE dest!: find_named_result)
    from add obtain x where x: "w_chstore w src = Some x"
      and w1: "w1 = put_chan src (x\<lparr>ch_links := ch_links x @ [dst], ch_linkcount := ch_linkcount x + 1\<rparr>) w"
      by (auto simp: link_add_def upd_chan_app fail_app split: if_splits option.splits)
    obtain y where y: "w_chstore w dst = Some y" "\<not> ch_temporary y"
      using Suc.prems(1) d unfolding init_ok_def inv_def channels_ok_def by blast
    have "inv {} w1" unfolding w1
      by (rule inv_put_links [OF _ x y]) (use Suc.prems(1) in \<open>simp add: init_ok_def\<close>)
    then have "init_ok k w1" using Suc.prems(1,2) x by (auto simp: init_ok_def w1 put_chan_def)
    note IH = Suc.IH [OF this Suc.prems(2) k]
    have "\<exists>z. w_chstore w1 ch = Some z \<and> ch_noenter z = ch_noenter v" if "w_chstore w ch = Some v" for ch v
      using that x by (auto simp: w1 put_chan_def)
    moreover have "w_defaultChan w1 = w_defaultChan w" by (simp add: w1 put_chan_def)
    ultimately show ?thesis using IH by metis
  qed
qed

lemma Chan_init_ok:
  assumes "init_ok 0 w" and "Chan_init n w = Inr (r, w')"
  shows "inv {} w' \<and>
    (\<exists>root x. w_rootChan w' = Some root \<and> w_chstore w' root = Some x \<and> ch_id x = 0) \<and>
    (\<exists>d x. w_defaultChan w' = Some d \<and> w_chstore w' d = Some x \<and> \<not> ch_noenter x \<and> \<not> ch_temporary x)"
proof -
  from assms(2) obtain s u w1 d x v where c: "init_channels n s 0 w = Inr (u, w1)"
    and d: "w_defaultChan (default_to_root w1) = Some d" and x: "w_chstore (default_to_root w1) d = Some x" "\<not> ch_noenter x"
    and l: "init_links n 0 (default_to_root w1) = Inr (v, w')"
    unfolding Chan_init_def
    by (auto elim!: bndE simp: getStrConf_def guarded_app modify_app deref_app get_chan_app fail_app gets_app
        split: option.splits if_splits)
  from init_channels_ok [OF assms(1) c] obtain k where k: "0 < k" "init_ok k w1" by blast
  have "inv {} (default_to_root w1)"
  proof (cases "w_defaultChan w1 = None")
    case True
    have "channels_ok (w1\<lparr>w_defaultChan := w_rootChan w1\<rparr>)"
      using k(2) by (auto simp: init_ok_def inv_def channels_ok_def)
    with True k(2) show ?thesis
      by (simp add: default_to_root_def init_ok_def inv_def clients_ok_def tree_ok_def tree_node_def members_ok_def auth_ok_def)
  qed (use k in \<open>auto simp: init_ok_def default_to_root_def\<close>)
  then have k2: "init_ok k (default_to_root w1)" using k by (auto simp: init_ok_def default_to_root_def)
  note L = init_links_ok [OF k2 k(1) l]
  with d x obtain z where z: "w_defaultChan w' = Some d" "w_chstore w' d = Some z" "\<not> ch_noenter z" by auto
  moreover have "\<not> ch_temporary z" using L z by (auto simp: init_ok_def)
  ultimately show ?thesis using L k(1) by (auto simp: init_ok_def)
qed

lemma keeps_conf_modify: "(\<And>w. w_conf (f w) = w_conf w) \<Longrightarrow> keeps (\<lambda>w. w_conf w = cf) (modify f)"
  by (rule keeps_modify) simp

lemma keeps_conf_upd_chan: "keeps (\<lambda>w. w_conf w = cf) (upd_chan ch f)"
  unfolding upd_chan_def by (intro keeps_intros keeps_conf_modify) (simp add: put_chan_def)

lemma keeps_conf_fresh: "keeps (\<lambda>w. w_conf w = cf) fresh"
  by (rule keepsI) (auto simp: fresh_def)

lemma keeps_conf_init_channel: "keeps (\<lambda>w. w_conf w = cf) (init_channel dflt i d)"
  unfolding init_channel_def Chan_createChannel_def createChannel_def Chan_addChannel_def flat_add_def
  by (intro keeps_intros keeps_conf_modify keeps_conf_upd_chan keeps_conf_fresh) (simp_all add: put_chan_def)

lemma keeps_conf_link_add: "keeps (\<lambda>w. w_conf w = cf) (link_add a b)"
  unfolding link_add_def by (intro keeps_intros keeps_conf_upd_chan)

text \<open>No single step of the start-up runs out of fuel: only the loops have any.\<close>

definition no_fuel_fault :: "('w, 'a) prog \<Rightarrow> bool" where
  "no_fuel_fault m \<longleftrightarrow> (\<forall>w. m w \<noteq> Inl OutOfFuel)"

lemma nff_intros:
  "no_fuel_fault (ret x)" "e \<noteq> OutOfFuel \<Longrightarrow> no_fuel_fault (fail e)" "no_fuel_fault (gets f)"
  "no_fuel_fault (modify g)" "no_fuel_fault fresh" "no_fuel_fault (get_chan ch)" "no_fuel_fault (deref p)"
  "no_fuel_fault (upd_chan ch h)"
  "no_fuel_fault m \<Longrightarrow> (\<And>x. no_fuel_fault (k x)) \<Longrightarrow> no_fuel_fault (bnd m k)"
  "no_fuel_fault m1 \<Longrightarrow> no_fuel_fault m2 \<Longrightarrow> no_fuel_fault (if b then m1 else m2)"
  "no_fuel_fault m1 \<Longrightarrow> (\<And>x. no_fuel_fault (k1 x)) \<Longrightarrow> no_fuel_fault (case p of None \<Rightarrow> m1 | Some x \<Rightarrow> k1 x)"
  "no_fuel_fault m3 \<Longrightarrow> no_fuel_fault (guarded b m3)"
  "no_fuel_fault (block [])"
  "no_fuel_fault m4 \<Longrightarrow> no_fuel_fault (block ms) \<Longrightarrow> no_fuel_fault (block (m4 # ms))"
  by (auto simp: no_fuel_fault_def prog_simps bnd_eq_Inl split: option.splits)
    (cases ms; auto simp: bnd_eq_Inl)

lemma nff_search: "no_fuel_fault (search get_chan P ps)"
  by (induction ps) (auto intro!: nff_intros)

lemma nff_free_id_loop: "(\<And>i. no_fuel_fault (u i)) \<Longrightarrow> no_fuel_fault (free_id_loop u n i)"
  by (induction n arbitrary: i) (auto intro!: nff_intros)

lemma nff_init_channel: "no_fuel_fault (init_channel dflt i d)"
  unfolding init_channel_def Chan_createChannel_def createChannel_def Chan_addChannel_def flat_add_def
    findFreeId_def find_chan_def
  by (intro nff_intros nff_search nff_free_id_loop) simp_all

lemma nff_init_link:
  "no_fuel_fault (find_named name)" "no_fuel_fault (link_add a b)"
  unfolding find_named_def find_chan_def link_add_def by (intro nff_intros nff_search; simp)+

lemma init_channels_fuel:
  assumes "Conf_getNextChannel (i + m) (w_conf w) = None" and "m < n"
  shows "init_channels n dflt i w \<noteq> Inl OutOfFuel"
  using assms
proof (induction n arbitrary: i m w)
  case 0
  then show ?case by simp
next
  case (Suc n)
  show ?case
  proof (cases "Conf_getNextChannel i (w_conf w)")
    case None
    then show ?thesis by (simp add: fail_app ret_app)
  next
    case (Some d)
    with Suc.prems(1) obtain m' where m: "m = Suc m'" by (cases m) auto
    have "init_channels n dflt (Suc i) w1 \<noteq> Inl OutOfFuel" if "init_channel dflt i d w = Inr (u, w1)" for u w1
    proof (rule Suc.IH)
      have "w_conf w1 = w_conf w" using keepsD [OF keeps_conf_init_channel that] by blast
      then show "Conf_getNextChannel (Suc i + m') (w_conf w1) = None" using Suc.prems(1) m by simp
      show "m' < n" using Suc.prems(2) m by simp
    qed
    with Some nff_init_channel show ?thesis by (auto simp: bnd_eq_Inl no_fuel_fault_def)
  qed
qed

lemma init_links_fuel:
  assumes "Conf_getNextChannelLink (i + m) (w_conf w) = None" and "m < n"
  shows "init_links n i w \<noteq> Inl OutOfFuel"
  using assms
proof (induction n arbitrary: i m w)
  case 0
  then show ?case by simp
next
  case (Suc n)
  show ?case
  proof (cases "Conf_getNextChannelLink i (w_conf w)")
    case None
    then show ?thesis by (simp add: ret_app)
  next
    case (Some l)
    with Suc.prems(1) obtain m' where m: "m = Suc m'" by (cases m) auto
    have "init_links n (Suc i) w1 \<noteq> Inl OutOfFuel" if "link_add a b w = Inr (u, w1)" for a b u w1
    proof (rule Suc.IH)
      have "w_conf w1 = w_conf w" using keepsD [OF keeps_conf_link_add that] by blast
      then show "Conf_getNextChannelLink (Suc i + m') (w_conf w1) = None" using Suc.prems(1) m by simp
      show "m' < n" using Suc.prems(2) m by simp
    qed
    with Some nff_init_link show ?thesis
      by (auto simp: bnd_eq_Inl no_fuel_fault_def dest!: find_named_result)
  qed
qed

section \<open>Trees\<close>

text \<open>The channels below a channel, itself included.\<close>

definition sub_rel :: "world \<Rightarrow> (chref \<times> chref) set" where
  "sub_rel w = {(a, b). \<exists>x. w_chstore w a = Some x \<and> b \<in> set (ch_subs x)}"

lemma star_unfold: "{d. (a, d) \<in> R\<^sup>*} = insert a (\<Union>s \<in> {s. (a, s) \<in> R}. {d. (s, d) \<in> R\<^sup>*})"
proof -
  have "(a, d) \<in> R\<^sup>* \<longleftrightarrow> d = a \<or> (\<exists>s. (a, s) \<in> R \<and> (s, d) \<in> R\<^sup>*)" for d
    by (metis converse_rtranclE converse_rtrancl_into_rtrancl rtrancl.rtrancl_refl)
  then show ?thesis by auto
qed

lemma sub_rel_less: "tree_ok w \<Longrightarrow> (a, b) \<in> sub_rel w \<Longrightarrow> a < b"
  by (auto simp: sub_rel_def tree_ok_def tree_node_def)

lemma sub_rel_star_le:
  assumes "tree_ok w" and "(a, b) \<in> (sub_rel w)\<^sup>*"
  shows "a \<le> b"
  using assms(2) by induction (use sub_rel_less [OF assms(1)] in fastforce)+

lemma sub_rel_parent:
  assumes "tree_ok w" and "(a, c) \<in> sub_rel w"
  shows "\<exists>y. w_chstore w c = Some y \<and> ch_parent y = Some a"
proof -
  from assms obtain x where "w_chstore w a = Some x" "c \<in> set (ch_subs x)" "tree_node w a x"
    by (auto simp: sub_rel_def tree_ok_def)
  then show ?thesis by (simp add: tree_node_def)
qed

lemma sub_rel_unique: "tree_ok w \<Longrightarrow> (a, c) \<in> sub_rel w \<Longrightarrow> (b, c) \<in> sub_rel w \<Longrightarrow> a = b"
  by (metis sub_rel_parent option.inject)

lemma sub_rel_linear:
  assumes t: "tree_ok w" and "(a, c) \<in> (sub_rel w)\<^sup>*" and "(b, c) \<in> (sub_rel w)\<^sup>*"
  shows "(a, b) \<in> (sub_rel w)\<^sup>* \<or> (b, a) \<in> (sub_rel w)\<^sup>*"
  using assms(2,3)
proof (induction rule: rtrancl_induct)
  case base
  then show ?case by simp
next
  case (step y z)
  from step.prems show ?case
  proof (cases rule: rtranclE)
    case base
    with step.hyps show ?thesis by (auto intro: rtrancl_into_rtrancl)
  next
    case (step y')
    with \<open>(y, z) \<in> sub_rel w\<close> have "y' = y" using sub_rel_unique [OF t] by blast
    with step \<open>(b, y) \<in> (sub_rel w)\<^sup>* \<Longrightarrow> _\<close> show ?thesis by blast
  qed
qed

lemma siblings_disjoint:
  assumes t: "tree_ok w" and "(ch, s) \<in> sub_rel w" "(ch, s') \<in> sub_rel w"
    and "(s, d) \<in> (sub_rel w)\<^sup>*" "(s', d) \<in> (sub_rel w)\<^sup>*"
  shows "s = s'"
proof -
  have *: "u = v" if uv: "(u, v) \<in> (sub_rel w)\<^sup>*" and u: "(ch, u) \<in> sub_rel w" and v: "(ch, v) \<in> sub_rel w" for u v
    using uv
  proof (cases rule: rtranclE)
    case (step y)
    with v have "y = ch" using sub_rel_unique [OF t] by blast
    with step sub_rel_star_le [OF t] sub_rel_less [OF t u] show ?thesis by fastforce
  qed simp
  from sub_rel_linear [OF t assms(4,5)] * assms(2,3) show ?thesis by metis
qed

text \<open>
  With a budget of one more than the pointers above the channel the recursion ends, and
  the list holds each channel of the subtree once.
\<close>

lemma tree_list_ok:
  assumes "tree_ok w" and "channels_ok w"
  shows "w_chstore w ch \<noteq> None \<Longrightarrow> w_next w - ch < n \<Longrightarrow>
      \<exists>xs. Chan_buildTreeList n ch w = Inr (xs, w) \<and> distinct xs \<and> set xs = {d. (ch, d) \<in> (sub_rel w)\<^sup>*}"
    and "\<exists>p. \<forall>s \<in> set subs. w_chstore w s \<noteq> None \<and> (p, s) \<in> sub_rel w \<and> w_next w - s < n \<Longrightarrow> distinct subs \<Longrightarrow>
      \<exists>xs. tree_lists n subs w = Inr (xs, w) \<and> distinct xs \<and>
        set xs = (\<Union>s \<in> set subs. {d. (s, d) \<in> (sub_rel w)\<^sup>*})"
proof (induction n ch and n subs rule: Chan_buildTreeList_tree_lists.induct)
  case (1 ch)
  then show ?case by simp
next
  case (2 n ch)
  then obtain x where x: "w_chstore w ch = Some x" by auto
  then have lt: "ch < w_next w" using assms(2) by (simp add: channels_ok_def)
  have t: "tree_node w ch x" using assms(1) x by (simp add: tree_ok_def)
  have r: "(ch, s) \<in> sub_rel w \<longleftrightarrow> s \<in> set (ch_subs x)" for s using x by (auto simp: sub_rel_def)
  have "\<forall>s \<in> set (ch_subs x). w_chstore w s \<noteq> None \<and> (ch, s) \<in> sub_rel w \<and> w_next w - s < n"
    using t 2(3) r lt by (fastforce simp: tree_node_def)
  then have kids: "\<exists>p. \<forall>s \<in> set (ch_subs x). w_chstore w s \<noteq> None \<and> (p, s) \<in> sub_rel w \<and> w_next w - s < n"
    by blast
  have "distinct (ch_subs x)" using t by (simp add: tree_node_def)
  from 2(1) [OF kids this] obtain xs where xs: "tree_lists n (ch_subs x) w = Inr (xs, w)" "distinct xs"
    "set xs = (\<Union>s \<in> set (ch_subs x). {d. (s, d) \<in> (sub_rel w)\<^sup>*})"
    by blast
  have "{d. (ch, d) \<in> (sub_rel w)\<^sup>*} = insert ch (set xs)"
    unfolding star_unfold [of ch] xs(3) r by simp
  moreover have "ch \<notin> set xs"
  proof
    assume "ch \<in> set xs"
    then obtain s where "(ch, s) \<in> sub_rel w" "(s, ch) \<in> (sub_rel w)\<^sup>*" using r by (auto simp: xs(3))
    with sub_rel_less [OF assms(1)] sub_rel_star_le [OF assms(1)] show False by fastforce
  qed
  ultimately show ?case using xs x by (simp add: bnd_Inr get_chan_app ret_app)
next
  case (3 n)
  then show ?case by (simp add: ret_app)
next
  case (4 n sub subs)
  then obtain p where p: "\<forall>s \<in> set (sub # subs). w_chstore w s \<noteq> None \<and> (p, s) \<in> sub_rel w \<and> w_next w - s < n" by blast
  then obtain xs where xs: "Chan_buildTreeList n sub w = Inr (xs, w)" "distinct xs" "set xs = {d. (sub, d) \<in> (sub_rel w)\<^sup>*}"
    using 4(1) by auto
  from p have "\<exists>p. \<forall>s \<in> set subs. w_chstore w s \<noteq> None \<and> (p, s) \<in> sub_rel w \<and> w_next w - s < n" by auto
  from 4(2) [OF this] 4(4) obtain ys where ys: "tree_lists n subs w = Inr (ys, w)" "distinct ys"
    "set ys = (\<Union>s \<in> set subs. {d. (s, d) \<in> (sub_rel w)\<^sup>*})" by auto
  have "set xs \<inter> set ys = {}"
  proof (rule ccontr)
    assume "set xs \<inter> set ys \<noteq> {}"
    then obtain d s where d: "(sub, d) \<in> (sub_rel w)\<^sup>*" "s \<in> set subs" "(s, d) \<in> (sub_rel w)\<^sup>*"
      by (auto simp: xs(3) ys(3))
    with p have "(p, sub) \<in> sub_rel w" "(p, s) \<in> sub_rel w" by simp_all
    from siblings_disjoint [OF assms(1) this d(1,3)] d(2) 4(4) show False by simp
  qed
  with xs ys show ?case by (simp add: bnd_Inr ret_app)
qed

section \<open>Free identifiers\<close>

lemma free_id_loop_least:
  assumes "k < n" and "\<And>j. j < k \<Longrightarrow> \<exists>u. user (i + int j) w = Inr (Some u, w)"
    and "user (i + int k) w = Inr (None, w)"
  shows "free_id_loop user n i w = Inr (i + int k, w)"
  using assms
proof (induction n arbitrary: i k)
  case 0
  then show ?case by simp
next
  case (Suc n)
  show ?case
  proof (cases k)
    case 0
    with Suc.prems show ?thesis by (simp add: bnd_Inr ret_app)
  next
    case (Suc k')
    have "free_id_loop user n (i + 1) w = Inr (i + 1 + int k', w)"
    proof (rule Suc.IH)
      show "k' < n" using Suc.prems(1) Suc by simp
      show "user (i + 1 + int k') w = Inr (None, w)" using Suc.prems(3) Suc by (simp add: ac_simps)
      fix j assume "j < k'"
      then show "\<exists>u. user (i + 1 + int j) w = Inr (Some u, w)"
        using Suc.prems(2) [of "Suc j"] Suc by (simp add: ac_simps)
    qed
    moreover obtain u where "user i w = Inr (Some u, w)" using Suc.prems(2) [of 0] Suc by auto
    ultimately show ?thesis using Suc by (simp add: bnd_Inr ac_simps)
  qed
qed

lemma least_unused:
  assumes "finite U"
  shows "\<exists>k \<le> card U. i + int k \<notin> U \<and> (\<forall>j < k. i + int j \<in> U)"
proof -
  have "\<exists>k. i + int k \<notin> U \<and> k \<le> card U"
  proof (rule ccontr)
    assume "\<not> ?thesis"
    then have "(\<lambda>k. i + int k) ` {..card U} \<subseteq> U" by auto
    then have "card ((\<lambda>k. i + int k) ` {..card U}) \<le> card U" using assms by (rule card_mono [rotated])
    moreover have "inj_on (\<lambda>k. i + int k) {..card U}" by (simp add: inj_on_def)
    ultimately show False by (simp add: card_image)
  qed
  then obtain k where k: "i + int k \<notin> U" "k \<le> card U" by blast
  define m where "m = (LEAST k. i + int k \<notin> U)"
  have "i + int m \<notin> U" unfolding m_def using k(1) by (rule LeastI)
  moreover have "m \<le> k" unfolding m_def using k(1) by (rule Least_le)
  moreover have "\<forall>j < m. i + int j \<in> U" unfolding m_def using not_less_Least by blast
  ultimately show ?thesis using k(2) by (intro exI [of _ m]) auto
qed

text \<open>The numbers a loop over a list of structures finds in use.\<close>

lemma free_id_loop_finds:
  assumes use: "\<And>j. user j w = Inr (find (\<lambda>p. num p = j) ps, w)" and "length ps < n"
  shows "\<exists>k. free_id_loop user n i w = Inr (k, w) \<and> i \<le> k \<and> k \<notin> num ` set ps \<and>
    (\<forall>j. i \<le> j \<and> j < k \<longrightarrow> j \<in> num ` set ps)"
proof -
  obtain k where k: "k \<le> card (num ` set ps)" "i + int k \<notin> num ` set ps" "\<forall>j < k. i + int j \<in> num ` set ps"
    using least_unused [of "num ` set ps" i] by auto
  have "card (num ` set ps) \<le> length ps" using card_image_le [of "set ps" num] card_length [of ps] by simp
  then have "k < n" using k(1) assms(2) by simp
  moreover have "\<exists>u. user (i + int j) w = Inr (Some u, w)" if "j < k" for j
  proof -
    have "i + int j \<in> num ` set ps" using k(3) that by blast
    then have "find (\<lambda>p. num p = i + int j) ps \<noteq> None" by (auto simp: find_None_iff)
    then show ?thesis using use by auto
  qed
  moreover have "find (\<lambda>p. num p = i + int k) ps = None"
  proof -
    have "num p \<noteq> i + int k" if "p \<in> set ps" for p using k(2) that by (metis image_eqI)
    then show ?thesis by (auto simp: find_None_iff)
  qed
  ultimately have "free_id_loop user n i w = Inr (i + int k, w)"
    using use by (intro free_id_loop_least) auto
  moreover have "j \<in> num ` set ps" if "i \<le> j" "j < i + int k" for j
    using k(3) that by (metis add.commute add_diff_cancel_left' le_add_diff_inverse2 nat_0_le nat_less_iff diff_ge_0_iff_ge less_diff_eq)
  ultimately show ?thesis using k(2) by auto
qed

lemma findFreeId_least:
  assumes "channels_ok w" and "length (w_channels w) < nat INT_MAX"
  shows "\<exists>i. findFreeId w = Inr (i, w) \<and> 0 \<le> i \<and>
    (\<forall>ch x. w_chstore w ch = Some x \<longrightarrow> ch_id x \<noteq> i) \<and>
    (\<forall>j. 0 \<le> j \<and> j < i \<longrightarrow> (\<exists>ch x. w_chstore w ch = Some x \<and> ch_id x = j))"
proof -
  let ?num = "\<lambda>ch. ch_id (the (w_chstore w ch))"
  have s: "set (w_channels w) = dom (w_chstore w)" using assms(1) by (simp add: channels_ok_def)
  have "\<exists>k. free_id_loop (\<lambda>id. find_chan (\<lambda>ch. ch_id ch = id)) (nat INT_MAX) 0 w = Inr (k, w) \<and> 0 \<le> k \<and>
    k \<notin> ?num ` set (w_channels w) \<and> (\<forall>j. 0 \<le> j \<and> j < k \<longrightarrow> j \<in> ?num ` set (w_channels w))"
    by (rule free_id_loop_finds) (use assms find_chan_total in auto)
  then show ?thesis unfolding findFreeId_def s by (force simp: dom_def)
qed

section \<open>Leaving and joining succeed\<close>

lemma Chan_freeChannel_total:
  assumes "tree_ok w" and "w_chstore w ch = Some x"
  shows "\<exists>w'. Chan_freeChannel ch w = Inr ((), w') \<and> w_chstore w' ch = None \<and>
    w_channels w' = remove1 ch (w_channels w) \<and>
    (\<forall>d z. d \<noteq> ch \<longrightarrow> w_chstore w d = Some z \<longrightarrow> (\<exists>z'. w_chstore w' d = Some z' \<and> ch_clients z' = ch_clients z))"
proof (cases "ch_parent x")
  case None
  with assms(2) show ?thesis by (simp add: Chan_freeChannel_def Chan_removeChannel_def bnd_def prog_simps)
next
  case (Some p)
  moreover have "tree_node w ch x" using assms by (simp add: tree_ok_def)
  ultimately obtain y where "w_chstore w p = Some y" unfolding tree_node_def by blast
  with Some assms(2) show ?thesis
    by (auto simp: Chan_freeChannel_def Chan_removeChannel_def bnd_def prog_simps put_chan_def)
qed

lemma Chan_userLeave_total:
  assumes "inv A w" and "w_cstore w c = Some cl" and "c_channel cl = Some old"
    and "w_chstore w old = Some x" and "c \<in> set (ch_clients x)"
  shows "\<exists>w'. Chan_userLeave c w = Inr (if ch_temporary x \<and> ch_clients x = [c] then ch_id x else - 1, w') \<and>
    (w_chstore w' old = None \<longleftrightarrow> ch_temporary x \<and> ch_clients x = [c]) \<and>
    (\<forall>d z. d \<noteq> old \<longrightarrow> w_chstore w d = Some z \<longrightarrow> (\<exists>z'. w_chstore w' d = Some z' \<and> ch_clients z' = ch_clients z))"
proof -
  let ?x = "x\<lparr>ch_clients := remove1 c (ch_clients x)\<rparr>"
  let ?w1 = "put_chan old ?x w"
  have u: "chan_unlink old c w = Inr ((), ?w1)"
    using assms(4,5) by (simp add: chan_unlink_def bnd_Inr get_chan_app modify_app)
  have x1: "w_chstore ?w1 old = Some ?x" by (simp add: put_chan_def)
  have e: "remove1 c (ch_clients x) = [] \<longleftrightarrow> ch_clients x = [c]"
    using assms(5) by (cases "ch_clients x") auto
  have "inv A ?w1" using inv_chan_unlink [OF assms(1) u] .
  then have "tree_ok ?w1" by (simp add: inv_def)
  from Chan_freeChannel_total [OF this x1] obtain w2 where w2: "Chan_freeChannel old ?w1 = Inr ((), w2)"
    "w_chstore w2 old = None"
    "\<forall>d z. d \<noteq> old \<longrightarrow> w_chstore ?w1 d = Some z \<longrightarrow> (\<exists>z'. w_chstore w2 d = Some z' \<and> ch_clients z' = ch_clients z)"
    by blast
  have run: "Chan_userLeave c w = (if ch_temporary x \<and> ch_clients x = [c] then Inr (ch_id x, w2) else Inr (- 1, ?w1))"
    using assms(2,3) u x1 e w2(1)
    by (auto simp: Chan_userLeave_def bnd_Inr get_client_app get_chan_app ret_app)
  show ?thesis
  proof (cases "ch_temporary x \<and> ch_clients x = [c]")
    case True
    then show ?thesis using run w2(2,3) by (auto simp: put_chan_def)
  next
    case False
    then show ?thesis using run by (auto simp: put_chan_def)
  qed
qed

lemma Chan_userJoin_total:
  assumes "inv A w" and "c \<in> A" and "w_cstore w c = Some cl" and "c_channel cl = Some old"
    and "w_chstore w old = Some x" and "c \<in> set (ch_clients x)"
    and "w_chstore w ch = Some y" and "ch \<noteq> old"
  shows "\<exists>w'. Chan_userJoin ch c w = Inr (if ch_temporary x \<and> ch_clients x = [c] then ch_id x else - 1, w') \<and>
    (w_chstore w' old = None \<longleftrightarrow> ch_temporary x \<and> ch_clients x = [c])"
proof -
  from Chan_userLeave_total [OF assms(1,3-6)] obtain w1 where
    l: "Chan_userLeave c w = Inr (if ch_temporary x \<and> ch_clients x = [c] then ch_id x else - 1, w1)"
    and g: "w_chstore w1 old = None \<longleftrightarrow> ch_temporary x \<and> ch_clients x = [c]"
    and k: "\<forall>d z. d \<noteq> old \<longrightarrow> w_chstore w d = Some z \<longrightarrow> (\<exists>z'. w_chstore w1 d = Some z' \<and> ch_clients z' = ch_clients z)"
    by (elim exE conjE)
  note L = Chan_userLeave_result [OF assms(1) l]
  from k assms(7,8) obtain z where z: "w_chstore w1 ch = Some z" by blast
  have "w_cstore w1 c = Some cl" using L assms(3) by simp
  then have "bnd (upd_chan ch (\<lambda>x. x\<lparr>ch_clients := ch_clients x @ [c]\<rparr>)) (\<lambda>_.
       bnd (upd_client c (\<lambda>cl. cl\<lparr>c_channel := Some ch\<rparr>)) (\<lambda>_. ret r)) w1
    = Inr (r, put_client c (cl\<lparr>c_channel := Some ch\<rparr>) (put_chan ch (z\<lparr>ch_clients := ch_clients z @ [c]\<rparr>) w1))" for r
    using z by (simp add: bnd_Inr upd_chan_app upd_client_app ret_app put_chan_def)
  moreover have "Chan_userJoin ch c w = bnd (Chan_userLeave c) (\<lambda>r.
       bnd (upd_chan ch (\<lambda>x. x\<lparr>ch_clients := ch_clients x @ [c]\<rparr>)) (\<lambda>_.
       bnd (upd_client c (\<lambda>cl. cl\<lparr>c_channel := Some ch\<rparr>)) (\<lambda>_. ret r))) w"
    using assms(3,4,8) by (simp add: Chan_userJoin_def bnd_Inr get_client_app)
  ultimately have "Chan_userJoin ch c w = Inr (if ch_temporary x \<and> ch_clients x = [c] then ch_id x else - 1,
      put_client c (cl\<lparr>c_channel := Some ch\<rparr>) (put_chan ch (z\<lparr>ch_clients := ch_clients z @ [c]\<rparr>) w1))"
    by (simp only: bnd_Inr [where m = "Chan_userLeave c" and w = w, OF l])
  then show ?thesis using g assms(8) by (simp add: put_chan_def put_client_def)
qed

lemma keeps_conf_init_channels: "keeps (\<lambda>w. w_conf w = cf) (init_channels n dflt i)"
  by (induction n arbitrary: i) (auto intro!: keeps_intros keeps_conf_init_channel)

section \<open>Properties\<close>

lemma init_ok_boot: "ext_ok x \<Longrightarrow> init_ok 0 (boot_world x t conf now)"
  by (simp add: init_ok_def inv_def clients_ok_def channels_ok_def tree_ok_def members_ok_def auth_ok_def boot_world_def)

text \<open>C30: Starting from the zero-initialised globals, \<open>Chan_init\<close> either stops the process or establishes
  the invariant with a root channel numbered 0 and a default channel that is permanent and may be
  entered.\<close>

theorem Chan_init_establishes_invariant:
  assumes "ext_ok x" and "Chan_init n (boot_world x t conf now) = Inr (r, w')"
  shows "inv {} w' \<and>
    (\<exists>root x. w_rootChan w' = Some root \<and> w_chstore w' root = Some x \<and> ch_id x = 0) \<and>
    (\<exists>d x. w_defaultChan w' = Some d \<and> w_chstore w' d = Some x \<and> \<not> ch_noenter x \<and> \<not> ch_temporary x)"
  using Chan_init_ok [OF init_ok_boot [OF assms(1)] assms(2)] .

lemma free_id_loop_numeral:
  "free_id_loop user (numeral k) i =
     bnd (user i) (\<lambda>itr. if itr = None then ret i else free_id_loop user (pred_numeral k) (i + 1))"
  by (simp add: numeral_eq_Suc)

lemma decimal_digits: "decimal 0 = ''0''" "decimal (Suc 0) = ''1''" "decimal (Suc (Suc 0)) = ''2''"
  by (simp_all add: decimal.simps char_of_def bit_Suc_0_iff)

lemma demo_conf_channels:
  "Conf_getNextChannel 0 demo_conf = Some \<lparr>cc_parent = Some [], cc_name = Some ''Root'', cc_description = None, cc_noenter = False\<rparr>"
  "Conf_getNextChannel (Suc 0) demo_conf = Some \<lparr>cc_parent = Some ''Root'', cc_name = Some ''Lobby'', cc_description = None, cc_noenter = False\<rparr>"
  "Conf_getNextChannel (Suc (Suc 0)) demo_conf = None"
  "Conf_getNextChannelLink 0 demo_conf = None"
  by (simp_all add: Conf_getNextChannel_def Conf_getNextChannelLink_def demo_conf_def chan_path_def link_path_def decimal_digits)

lemma demo_start: "\<exists>w'. Chan_init 3 (boot_world x t demo_conf now) = Inr ((), w') \<and> w_clients w' = [] \<and> w_now w' = now"
proof -
  have "nat INT_MAX = 2147483647" by (simp add: INT_MAX_def)
  then show ?thesis
    by (simp add: Chan_init_def boot_world_def getStrConf_def string_or_def numeral_3_eq_3
      init_channel_def demo_conf_channels bnd_def prog_simps createChannel_def Chan_createChannel_def findFreeId_def 
      free_id_loop_numeral find_chan_def flat_add_def put_chan_def Chan_addChannel_def default_to_root_def)
qed

theorem Chan_init_establishes_invariant_witness:
  "\<exists>w'. Chan_init 3 (boot_world demo_ext idle_tls demo_conf 0) = Inr ((), w') \<and> inv {} w' \<and> w_defaultChan w' \<noteq> None"
proof -
  obtain w' where w': "Chan_init 3 (boot_world demo_ext idle_tls demo_conf 0) = Inr ((), w')" using demo_start by blast
  from Chan_init_establishes_invariant [OF demo_ext_ok w'] w' show ?thesis by auto
qed

text \<open>C31: \<open>Chan_init\<close> ends: when the configuration lists fewer than \<open>n\<close> channels and fewer than \<open>n\<close>
  links, \<open>n\<close> turns are enough for both of its loops.\<close>

theorem Chan_init_terminates:
  assumes "Conf_getNextChannel i (w_conf w) = None" and "i < n"
    and "Conf_getNextChannelLink j (w_conf w) = None" and "j < n"
  shows "Chan_init n w \<noteq> Inl OutOfFuel"
proof -
  have chans: "init_channels n dflt 0 w \<noteq> Inl OutOfFuel" for dflt
    using init_channels_fuel [of 0 i w n dflt] assms by simp
  have links: "init_links n 0 v \<noteq> Inl OutOfFuel" if "w_conf v = w_conf w" for v
    using init_links_fuel [of 0 j v n] assms that by simp
  have conf: "w_conf v = w_conf w" if "init_channels n dflt 0 w = Inr (r, v)" for dflt r v
    using keepsD [OF keeps_conf_init_channels that] by blast
  show ?thesis
    using chans conf links
    by (auto simp: Chan_init_def getStrConf_def bnd_eq_Inl prog_simps default_to_root_def split: if_splits option.splits)
qed

theorem Chan_init_terminates_witness:
  "Chan_init 3 (boot_world demo_ext idle_tls demo_conf 0) \<noteq> Inl OutOfFuel"
  by (rule Chan_init_terminates [of "Suc (Suc 0)" _ _ 0]) (simp_all add: boot_world_def demo_conf_channels)

text \<open>A new channel gets the smallest identifier no channel has.\<close>

theorem findFreeId_smallest:
  assumes "inv A w" and "length (w_channels w) < nat INT_MAX"
  shows "\<exists>i. findFreeId w = Inr (i, w) \<and> 0 \<le> i \<and>
    (\<forall>ch x. w_chstore w ch = Some x \<longrightarrow> ch_id x \<noteq> i) \<and>
    (\<forall>j. 0 \<le> j \<and> j < i \<longrightarrow> (\<exists>ch x. w_chstore w ch = Some x \<and> ch_id x = j))"
  by (rule findFreeId_least) (use assms in \<open>simp_all add: inv_def\<close>)

theorem findFreeId_smallest_witness:
  "\<exists>i. findFreeId demo = Inr (i, demo) \<and> i \<notin> {0, 1, 2} \<and> (\<forall>j. 0 \<le> j \<and> j < i \<longrightarrow> j \<in> {0, 1, 2})"
proof -
  have "length (w_channels demo) < nat INT_MAX" by (simp add: demo_def INT_MAX_def)
  from findFreeId_smallest [OF demo_inv this] obtain i where i: "findFreeId demo = Inr (i, demo)"
    "\<forall>ch x. w_chstore demo ch = Some x \<longrightarrow> ch_id x \<noteq> i"
    "\<forall>j. 0 \<le> j \<and> j < i \<longrightarrow> (\<exists>ch x. w_chstore demo ch = Some x \<and> ch_id x = j)" by blast
  have c: "w_chstore demo ch = Some x \<Longrightarrow> ch_id x \<in> {0, 1, 2}" for ch x
    by (auto simp: demo_def demo_channel_def split: if_splits)
  have "i \<noteq> 0" "i \<noteq> 1" "i \<noteq> 2"
    using i(2) [rule_format, of 0] i(2) [rule_format, of 1] i(2) [rule_format, of 2]
    by (auto simp: demo_def demo_channel_def)
  with i(1,3) c show ?thesis by (intro exI [of _ i]) (metis insert_iff empty_iff)
qed

text \<open>C14: Joining a channel moves the user: it is listed there and in no other channel, and when it was the
  last one in a temporary channel, that channel is gone and its identifier is the result.\<close>

theorem Chan_userJoin_moves:
  assumes "inv A w" and "c \<in> A" and "w_cstore w c = Some cl" and "c_channel cl = Some old"
    and "w_chstore w old = Some x" and "c \<in> set (ch_clients x)"
    and "w_chstore w ch = Some y" and "ch \<noteq> old"
  shows "\<exists>w'. Chan_userJoin ch c w = Inr (if ch_temporary x \<and> ch_clients x = [c] then ch_id x else - 1, w') \<and>
    inv A w' \<and> (w_chstore w' old = None \<longleftrightarrow> ch_temporary x \<and> ch_clients x = [c]) \<and>
    (\<forall>dh z. w_chstore w' dh = Some z \<longrightarrow> (c \<in> set (ch_clients z) \<longleftrightarrow> dh = ch))"
proof -
  from Chan_userJoin_total [OF assms] obtain w' where
    run: "Chan_userJoin ch c w = Inr (if ch_temporary x \<and> ch_clients x = [c] then ch_id x else - 1, w')"
    and gone: "w_chstore w' old = None \<longleftrightarrow> ch_temporary x \<and> ch_clients x = [c]" by (elim exE conjE)
  note J = Chan_userJoin_result [OF assms(1,2) run]
  then have c': "w_cstore w' c = Some (cl\<lparr>c_channel := Some ch\<rparr>)" using assms(3) by auto
  have "dh = ch" if "w_chstore w' dh = Some z" "c \<in> set (ch_clients z)" for dh z
    using only_in_own_channel [OF conjunct1 [OF J] c' that] by simp
  moreover obtain z0 where "w_chstore w' ch = Some z0" "c \<in> set (ch_clients z0)" using J assms(3,4,8) by auto
  ultimately have "\<forall>dh z. w_chstore w' dh = Some z \<longrightarrow> (c \<in> set (ch_clients z) \<longleftrightarrow> dh = ch)"
    by (metis option.inject)
  with run gone conjunct1 [OF J] show ?thesis by (intro exI conjI)
qed

theorem Chan_userJoin_moves_witness:
  "\<exists>w'. Chan_userJoin 1 12 demo = Inr (2, w') \<and> inv {10, 11, 12} w' \<and> w_chstore w' 2 = None"
proof -
  have "w_cstore demo 12 = Some (demo_client 3 ''cid'' 2)" "c_channel (demo_client 3 ''cid'' 2) = Some 2"
    "w_chstore demo 2 = Some ((demo_channel 2 ''Talk'' (Some 0))\<lparr>ch_temporary := True, ch_clients := [12]\<rparr>)"
    "w_chstore demo 1 = Some (demo_channel 1 ''Lobby'' (Some 0))"
    by (simp_all add: demo_def demo_client_def)
  from Chan_userJoin_moves [OF demo_inv _ this(1,2,3) _ this(4)] show ?thesis
    by (auto simp: demo_channel_def)
qed

text \<open>C32: The recursion over sub-channels ends and lists each channel of the subtree exactly once.\<close>

theorem Chan_buildTreeList_complete:
  assumes "inv A w" and "w_chstore w ch = Some x"
  shows "\<exists>xs. Chan_buildTreeList (Suc (w_next w)) ch w = Inr (xs, w) \<and> distinct xs \<and>
    set xs = {d. (ch, d) \<in> (sub_rel w)\<^sup>*}"
  by (rule tree_list_ok) (use assms in \<open>auto simp: inv_def\<close>)

theorem Chan_buildTreeList_complete_witness:
  "\<exists>xs. Chan_buildTreeList (Suc 20) 0 demo = Inr (xs, demo) \<and> distinct xs \<and> 2 \<in> set xs"
proof -
  have r: "w_chstore demo 0 = Some ((demo_channel 0 ''Root'' None)\<lparr>ch_subs := [1, 2], ch_clients := [10, 11]\<rparr>)"
    by (simp add: demo_def)
  then have "(0, 2) \<in> (sub_rel demo)\<^sup>*" by (intro r_into_rtrancl) (simp add: sub_rel_def)
  moreover have "w_next demo = 20" by (simp add: demo_def)
  ultimately show ?thesis using Chan_buildTreeList_complete [OF demo_inv r] by auto
qed

end
