(* ===== verification/Voicetarget.thy ===== *)
theory Voicetarget
  imports Demo
begin

text \<open>
  The whisper targets of voicetarget.c. A client has a list of them; each has 16 channel
  slots and 32 session slots, unused ones marked -1.
\<close>

abbreviation TARGET_MAX_CHANNELS :: nat where
  "TARGET_MAX_CHANNELS \<equiv> 16"

abbreviation TARGET_MAX_SESSIONS :: nat where
  "TARGET_MAX_SESSIONS \<equiv> 32"

text \<open>The first slot that satisfies a test is replaced, if there is one.\<close>

fun fill_slot :: "('x \<Rightarrow> bool) \<Rightarrow> 'x \<Rightarrow> 'x list \<Rightarrow> 'x list option" where
  "fill_slot unused x [] = None"
| "fill_slot unused x (y # ys) =
     (if unused y then Some (x # ys) else map_option ((#) y) (fill_slot unused x ys))"

text \<open>
  The loops of \<open>Voicetarget_add_session\<close> and \<open>Voicetarget_add_channel\<close>: the first target
  with the identifier and a free slot takes the entry.
\<close>

fun add_session :: "int \<Rightarrow> int \<Rightarrow> voicetarget list \<Rightarrow> voicetarget list" where
  "add_session targetId sessionId [] = []"
| "add_session targetId sessionId (vt # vts) =
     (if targetId = vtg_id vt then
        (case fill_slot (\<lambda>s. s = - 1) sessionId (vtg_sessions vt) of
           Some ss \<Rightarrow> vt\<lparr>vtg_sessions := ss\<rparr> # vts
         | None \<Rightarrow> vt # add_session targetId sessionId vts)
      else vt # add_session targetId sessionId vts)"

definition Voicetarget_add_session :: "cref \<Rightarrow> int \<Rightarrow> int \<Rightarrow> (world, unit) prog" where
  "Voicetarget_add_session client targetId sessionId =
     upd_client client (\<lambda>cl. cl\<lparr>c_voicetargets := add_session targetId sessionId (c_voicetargets cl)\<rparr>)"

fun add_channel :: "int \<Rightarrow> channeltarget \<Rightarrow> voicetarget list \<Rightarrow> voicetarget list" where
  "add_channel targetId ct [] = []"
| "add_channel targetId ct (vt # vts) =
     (if targetId = vtg_id vt then
        (case fill_slot (\<lambda>c. ct_channel c = - 1) ct (vtg_channels vt) of
           Some cs \<Rightarrow> vt\<lparr>vtg_channels := cs\<rparr> # vts
         | None \<Rightarrow> vt # add_channel targetId ct vts)
      else vt # add_channel targetId ct vts)"

definition Voicetarget_add_channel :: "cref \<Rightarrow> int \<Rightarrow> int \<Rightarrow> bool \<Rightarrow> bool \<Rightarrow> (world, unit) prog" where
  "Voicetarget_add_channel client targetId channelId linked children =
     upd_client client (\<lambda>cl. cl\<lparr>c_voicetargets :=
       add_channel targetId \<lparr>ct_channel = channelId, ct_linked = linked, ct_children = children\<rparr>
         (c_voicetargets cl)\<rparr>)"

text \<open>
  The loop frees the entry it found and then reads its link to go on: a target that
  exists is a use after free.
\<close>

definition Voicetarget_del_id :: "cref \<Rightarrow> int \<Rightarrow> (world, unit) prog" where
  "Voicetarget_del_id client targetId =
     bnd (get_client client) (\<lambda>cl.
     if \<exists>vt \<in> set (c_voicetargets cl). targetId = vtg_id vt then fail UseAfterFree else ret ())"

definition new_target :: "int \<Rightarrow> voicetarget" where
  "new_target targetId =
     \<lparr>vtg_id = targetId,
      vtg_channels = replicate TARGET_MAX_CHANNELS \<lparr>ct_channel = - 1, ct_linked = False, ct_children = False\<rparr>,
      vtg_sessions = replicate TARGET_MAX_SESSIONS (- 1)\<rparr>"

definition Voicetarget_add_id :: "cref \<Rightarrow> int \<Rightarrow> (world, unit) prog" where
  "Voicetarget_add_id client targetId = block
     [Voicetarget_del_id client targetId,
      upd_client client (\<lambda>cl. cl\<lparr>c_voicetargets := c_voicetargets cl @ [new_target targetId]\<rparr>)]"

definition Voicetarget_get_id :: "cref \<Rightarrow> int \<Rightarrow> (world, voicetarget option) prog" where
  "Voicetarget_get_id client targetId =
     bnd (get_client client) (\<lambda>cl. ret (find (\<lambda>vt. targetId = vtg_id vt) (c_voicetargets cl)))"

definition Voicetarget_free_all :: "cref \<Rightarrow> (world, unit) prog" where
  "Voicetarget_free_all client = upd_client client (\<lambda>cl. cl\<lparr>c_voicetargets := []\<rparr>)"

section \<open>Lemmas\<close>

lemma length_fill_slot: "fill_slot P x xs = Some ys \<Longrightarrow> length ys = length xs"
  by (induction xs arbitrary: ys) (auto split: if_splits)

lemma fill_slot_nth:
  "fill_slot P x xs = (if \<exists>y \<in> set xs. P y then Some (xs[length (takeWhile (\<lambda>y. \<not> P y) xs) := x]) else None)"
  by (induction xs) auto

lemma add_session_ok: "\<forall>vt \<in> set vts. voicetarget_ok vt \<Longrightarrow> vt \<in> set (add_session t s vts) \<Longrightarrow> voicetarget_ok vt"
  by (induction vts) (auto simp: voicetarget_ok_def dest: length_fill_slot split: if_splits option.splits)

lemma add_channel_ok: "\<forall>vt \<in> set vts. voicetarget_ok vt \<Longrightarrow> vt \<in> set (add_channel t s vts) \<Longrightarrow> voicetarget_ok vt"
  by (induction vts) (auto simp: voicetarget_ok_def dest: length_fill_slot split: if_splits option.splits)

lemma vtg_id_new_target [simp]: "vtg_id (new_target t) = t"
  by (simp add: new_target_def)

lemma new_target_ok: "voicetarget_ok (new_target t)"
  by (simp add: voicetarget_ok_def new_target_def)

lemma keeps_add_session [keeps_intros]: "keeps (inv A) (Voicetarget_add_session c t s)"
  unfolding Voicetarget_add_session_def
  by (rule keeps_upd_client) (auto simp: harmless_def client_ok_def dest: add_session_ok)

lemma keeps_add_channel [keeps_intros]: "keeps (inv A) (Voicetarget_add_channel c t i l ch)"
  unfolding Voicetarget_add_channel_def
  by (rule keeps_upd_client) (auto simp: harmless_def client_ok_def dest: add_channel_ok)

lemma reads_del_id [reads_intros]: "reads (Voicetarget_del_id c t)"
  unfolding Voicetarget_del_id_def by (intro reads_intros)

lemma reads_get_id [reads_intros]: "reads (Voicetarget_get_id c t)"
  unfolding Voicetarget_get_id_def by (intro reads_intros)

lemma keeps_get_id [keeps_intros]: "keeps I (Voicetarget_get_id c t)"
  by (rule reads_keeps) (rule reads_get_id)

lemma keeps_add_id [keeps_intros]: "keeps (inv A) (Voicetarget_add_id c t)"
  unfolding Voicetarget_add_id_def
  by (intro keeps_intros reads_keeps [OF reads_del_id] keeps_upd_client)
    (auto simp: harmless_def client_ok_def new_target_ok)

lemma keeps_free_all [keeps_intros]: "keeps (inv A) (Voicetarget_free_all c)"
  unfolding Voicetarget_free_all_def
  by (rule keeps_upd_client) (auto simp: harmless_def client_ok_def)

text \<open>Sessions are taken in order until the slots are used up.\<close>

lemma fill_next_session:
  assumes "s \<noteq> - 1" and "\<forall>x \<in> set ss. x \<noteq> (- 1 :: int)"
  shows "fill_slot (\<lambda>s. s = - 1) s (ss @ replicate k (- 1)) =
    (case k of 0 \<Rightarrow> None | Suc k' \<Rightarrow> Some (ss @ [s] @ replicate k' (- 1)))"
  using assms(2) by (induction ss) (auto split: nat.split)

lemma add_session_last:
  assumes "\<forall>vt \<in> set vts. vtg_id vt \<noteq> t" and "vtg_id vt = t"
  shows "add_session t s (vts @ [vt]) =
    vts @ [case fill_slot (\<lambda>s. s = - 1) s (vtg_sessions vt) of Some ss \<Rightarrow> vt\<lparr>vtg_sessions := ss\<rparr> | None \<Rightarrow> vt]"
  using assms by (induction vts) (auto split: option.split)

lemma add_sessions_list:
  assumes "\<forall>vt \<in> set vts. vtg_id vt \<noteq> t" and "\<forall>s \<in> set ss. s \<noteq> - 1" and "\<forall>s \<in> set old. s \<noteq> - 1"
    and "length old \<le> 32" and "vtg_id vt = t" and "vtg_sessions vt = old @ replicate (32 - length old) (- 1)"
  shows "foldl (\<lambda>v s. add_session t s v) (vts @ [vt]) ss =
    vts @ [vt\<lparr>vtg_sessions := take 32 (old @ ss) @ replicate (32 - length (old @ ss)) (- 1)\<rparr>]"
  using assms(2-)
proof (induction ss arbitrary: old vt)
  case Nil
  then show ?case by simp
next
  case (Cons s ss)
  show ?case
  proof (cases "length old < 32")
    case True
    then obtain k where k: "32 - length old = Suc k" by (cases "32 - length old") auto
    let ?vt = "vt\<lparr>vtg_sessions := (old @ [s]) @ replicate (32 - length (old @ [s])) (- 1)\<rparr>"
    have "fill_slot (\<lambda>s. s = - 1) s (vtg_sessions vt) = Some (old @ [s] @ replicate k (- 1))"
      using Cons.prems fill_next_session [of s old "Suc k"] by (simp add: k)
    moreover have "32 - length (old @ [s]) = k" using k by simp
    ultimately have "add_session t s (vts @ [vt]) = vts @ [?vt]"
      using assms(1) Cons.prems(4) by (simp add: add_session_last)
    then have "foldl (\<lambda>v s. add_session t s v) (vts @ [vt]) (s # ss) = foldl (\<lambda>v s. add_session t s v) (vts @ [?vt]) ss"
      by simp
    also have "\<dots> = vts @ [?vt\<lparr>vtg_sessions := take 32 ((old @ [s]) @ ss) @ replicate (32 - length ((old @ [s]) @ ss)) (- 1)\<rparr>]"
      by (rule Cons.IH) (use Cons.prems True in auto)
    finally show ?thesis by simp
  next
    case False
    with Cons.prems have l: "length old = 32" by simp
    have "add_session t s (vts @ [vt]) = vts @ [vt]"
      using Cons.prems l assms(1) by (simp add: add_session_last fill_slot_nth)
    with Cons.IH [of old vt] Cons.prems l show ?thesis by simp
  qed
qed

section \<open>Properties\<close>

definition add_sessions :: "cref \<Rightarrow> int \<Rightarrow> int list \<Rightarrow> (world, unit) prog" where
  "add_sessions client targetId ss = for_each ss (Voicetarget_add_session client targetId)"

lemma add_sessions_run:
  "w_cstore w c = Some cl \<Longrightarrow>
   add_sessions c t ss w = Inr ((), put_client c (cl\<lparr>c_voicetargets := foldl (\<lambda>v s. add_session t s v) (c_voicetargets cl) ss\<rparr>) w)"
proof (induction ss arbitrary: w cl)
  case Nil
  have "(w_cstore w)(c \<mapsto> cl) = w_cstore w" using Nil by auto
  then show ?case by (simp add: add_sessions_def ret_app put_client_def)
next
  case (Cons s ss)
  let ?cl = "cl\<lparr>c_voicetargets := add_session t s (c_voicetargets cl)\<rparr>"
  have "Voicetarget_add_session c t s w = Inr ((), put_client c ?cl w)"
    using Cons.prems by (simp add: Voicetarget_add_session_def upd_client_app)
  moreover have "w_cstore (put_client c ?cl w) c = Some ?cl" by (simp add: put_client_def)
  ultimately show ?case using Cons.IH [of "put_client c ?cl w" ?cl]
    by (simp add: add_sessions_def bnd_Inr) (simp add: put_client_def)
qed

text \<open>A new whisper target that is given sessions holds the first 32 of them in order, and the lookup by
  its number finds it; the rest are dropped.\<close>

theorem whisper_target_holds_sessions:
  assumes "w_cstore w c = Some cl" and "\<forall>vt \<in> set (c_voicetargets cl). vtg_id vt \<noteq> t"
    and "\<forall>s \<in> set ss. s \<noteq> - 1"
  shows "\<exists>w'. block [Voicetarget_add_id c t, add_sessions c t ss] w = Inr ((), w') \<and>
    Voicetarget_get_id c t w' = Inr (Some ((new_target t)\<lparr>vtg_sessions :=
      take 32 ss @ replicate (32 - length ss) (- 1)\<rparr>), w')"
proof -
  let ?cl = "cl\<lparr>c_voicetargets := c_voicetargets cl @ [new_target t]\<rparr>"
  have a: "Voicetarget_add_id c t w = Inr ((), put_client c ?cl w)"
    using assms(1,2) by (auto simp: Voicetarget_add_id_def Voicetarget_del_id_def bnd_def prog_simps)
  have f: "foldl (\<lambda>v s. add_session t s v) (c_voicetargets cl @ [new_target t]) ss =
      c_voicetargets cl @ [(new_target t)\<lparr>vtg_sessions := take 32 ss @ replicate (32 - length ss) (- 1)\<rparr>]"
    using add_sessions_list [OF assms(2,3), of "[]" "new_target t"] by (simp add: new_target_def)
  have s: "w_cstore (put_client c ?cl w) c = Some ?cl" by (simp add: put_client_def)
  note r = add_sessions_run [OF s, of t ss]
  have find: "find (\<lambda>vt. t = vtg_id vt) (vts @ [vt]) = Some vt" if "\<forall>v \<in> set vts. vtg_id v \<noteq> t" "vtg_id vt = t" for vts vt
    using that by (induction vts) auto
  show ?thesis
    using a r find [OF assms(2), of "(new_target t)\<lparr>vtg_sessions := take 32 ss @ replicate (32 - length ss) (- 1)\<rparr>"]
    by (simp add: bnd_Inr f Voicetarget_get_id_def get_client_app put_client_def ret_app)
qed

theorem whisper_target_holds_sessions_witness:
  "\<exists>w'. block [Voicetarget_add_id 10 4, add_sessions 10 4 [2, 3]] demo = Inr ((), w') \<and>
    (\<exists>vt. Voicetarget_get_id 10 4 w' = Inr (Some vt, w') \<and> take 3 (vtg_sessions vt) = [2, 3, - 1])"
proof -
  have "w_cstore demo 10 = Some (demo_client 1 ''ann'' 0)" by (simp add: demo_def)
  from whisper_target_holds_sessions [OF this, of 4 "[2, 3]"] show ?thesis
    by (auto simp: demo_client_def zero_client_def numeral_eq_Suc)
qed



end
