(* ===== verification/Transmit.thy ===== *)
theory Transmit
  imports Channel Voicetarget
begin

text \<open>
  The sending side of client.c. \<open>Client_send_message\<close>, \<open>Client_write\<close> and \<open>Client_read\<close>
  call each other, so everything here that sends takes the sending operation as the
  parameter \<open>send\<close>, and the bodies of \<open>Client_send_message\<close> and \<open>Client_write\<close> take the
  operations they call; the theory Server ties the knot. The return values of the
  sending functions, which no caller reads, are left out.
\<close>

type_synonym transport = "cref \<Rightarrow> mref \<Rightarrow> (world, unit) prog"

section \<open>TLS\<close>

text \<open>
  The wrappers of ssl.c around the TLS library. A write that succeeds puts the bytes it
  accepted on the wire and returns their number; a read returns between one and \<open>len\<close>
  bytes or the error.
\<close>

definition SSLi_write :: "int \<Rightarrow> byte list \<Rightarrow> (world, ssl_error + nat) prog" where
  "SSLi_write fd bytes =
     bnd (gets (\<lambda>w. tls_write (w_tls w) (tls_wn (w_tls w)))) (\<lambda>answer.
     bnd (modify (\<lambda>w. w\<lparr>w_tls := (w_tls w)\<lparr>tls_wn := Suc (tls_wn (w_tls w))\<rparr>\<rparr>)) (\<lambda>_.
     case answer of
       WFail e \<Rightarrow> ret (Inl e)
     | WAll \<Rightarrow> bnd (emit (TlsOut fd bytes)) (\<lambda>_. ret (Inr (length bytes)))
     | WSome k \<Rightarrow> bnd (emit (TlsOut fd (take k bytes))) (\<lambda>_. ret (Inr (length (take k bytes))))))"

definition SSLi_read :: "nat \<Rightarrow> (world, ssl_error + byte list) prog" where
  "SSLi_read len =
     bnd (gets (\<lambda>w. tls_read (w_tls w) (tls_rn (w_tls w)))) (\<lambda>answer.
     bnd (modify (\<lambda>w. w\<lparr>w_tls := (w_tls w)\<lparr>tls_rn := Suc (tls_rn (w_tls w))\<rparr>\<rparr>)) (\<lambda>_.
     case answer of
       RFail e \<Rightarrow> ret (Inl e)
     | RData bytes \<Rightarrow> ret (if take len bytes = [] then Inl ZERO_RETURN else Inr (take len bytes))))"

definition SSLi_data_pending :: "(world, bool) prog" where
  "SSLi_data_pending =
     bnd (gets (\<lambda>w. tls_pending (w_tls w) (tls_pn (w_tls w)))) (\<lambda>answer.
     bnd (modify (\<lambda>w. w\<lparr>w_tls := (w_tls w)\<lparr>tls_pn := Suc (tls_pn (w_tls w))\<rparr>\<rparr>)) (\<lambda>_.
     ret answer))"

definition SSLi_nonblockaccept :: "(world, accept_answer) prog" where
  "SSLi_nonblockaccept =
     bnd (gets (\<lambda>w. tls_accept (w_tls w) (tls_an (w_tls w)))) (\<lambda>answer.
     bnd (modify (\<lambda>w. w\<lparr>w_tls := (w_tls w)\<lparr>tls_an := Suc (tls_an (w_tls w))\<rparr>\<rparr>)) (\<lambda>_.
     ret answer))"

section \<open>Messages to many\<close>

text \<open>\<open>Msg_create\<close> and the assignments to the payload's fields that follow it.\<close>

definition compose :: "payload \<Rightarrow> (world, mref) prog" where
  "compose p = bnd (Msg_create (type_of p)) (\<lambda>m. bnd (set_payload m (\<lambda>_. p)) (\<lambda>_. ret m))"

definition Client_iterate :: "cref option \<Rightarrow> (world, cref option) prog" where
  "Client_iterate itr = gets (\<lambda>w. if w_clients w = [] then None else next_in (w_clients w) itr)"

text \<open>
  The loop of \<open>Client_send_message_except\<close>, with the count of the messages sent so far.
  Every further copy takes a reference of its own.
\<close>

definition except_loop :: "transport \<Rightarrow> cref option \<Rightarrow> mref \<Rightarrow> (world, nat) prog" where
  "except_loop send client msg = (\<lambda>w.
     each_with w_clients (w_clients w) (\<lambda>itr count.
       if Some itr \<noteq> client then
         bnd (guarded (count > 0) (Msg_inc_ref msg)) (\<lambda>_.
         bnd (send itr msg) (\<lambda>_.
         ret (count + 1)))
       else ret count) 0 w)"

definition Client_send_message_except :: "transport \<Rightarrow> cref option \<Rightarrow> mref \<Rightarrow> (world, unit) prog" where
  "Client_send_message_except send client msg =
     bnd (Msg_inc_ref msg) (\<lambda>_.
     bnd (except_loop send client msg) (\<lambda>count.
     bnd (Msg_free msg) (\<lambda>_.
     guarded (count = 0) (Msg_free msg))))"

text \<open>A version with the top bit set means clients older than its complement.\<close>

definition version_match :: "u32 \<Rightarrow> u32 \<Rightarrow> bool" where
  "version_match cversion version \<longleftrightarrow>
     version = 0 \<or> version \<le> cversion \<or> (version AND 0x80000000 \<noteq> 0 \<and> cversion < NOT version)"

definition Client_send_message_ver :: "transport \<Rightarrow> cref \<Rightarrow> mref \<Rightarrow> u32 \<Rightarrow> (world, unit) prog" where
  "Client_send_message_ver send client msg version =
     bnd (get_client client) (\<lambda>cl.
     if version_match (c_version cl) version then send client msg else Msg_free msg)"

definition Client_send_message_except_ver ::
  "transport \<Rightarrow> cref option \<Rightarrow> mref \<Rightarrow> u32 \<Rightarrow> (world, unit) prog" where
  "Client_send_message_except_ver send client msg version =
     Client_send_message_except (\<lambda>c m. Client_send_message_ver send c m version) client msg"

section \<open>Closing\<close>

definition Client_codec_free :: "cref \<Rightarrow> (world, unit) prog" where
  "Client_codec_free client = upd_client client (\<lambda>cl. cl\<lparr>c_codecs := []\<rparr>)"

text \<open>The messages a client still has queued lose the queue's reference.\<close>

definition drop_queue :: "cref \<Rightarrow> (world, unit) prog" where
  "drop_queue client =
     bnd (get_client client) (\<lambda>cl.
     for_each (c_txMsgQueue cl) (\<lambda>m. block
       [upd_client client (\<lambda>cl. cl\<lparr>c_txMsgQueue := remove1 m (c_txMsgQueue cl)\<rparr>),
        Msg_free m]))"

text \<open>
  The end of \<open>Client_free\<close>: the client leaves the list, its connection is closed and its
  memory released. A channel that still lists it would keep a node in freed memory.
\<close>

definition release_client :: "cref \<Rightarrow> (world, unit) prog" where
  "release_client client =
     bnd (get_client client) (\<lambda>cl.
     bnd (gets (\<lambda>w. \<exists>ch \<in> set (w_channels w). client \<in> set (chan_clients ch w))) (\<lambda>listed. block
       [modify (\<lambda>w. w\<lparr>w_clients := remove1 client (w_clients w)\<rparr>),
        emit (TlsFree (c_tcpfd cl)),
        emit (CloseFd (c_tcpfd cl)),
        modify (\<lambda>w. w\<lparr>w_clientcount := w_clientcount w - 1\<rparr>),
        guarded listed (fail ListCorrupt),
        modify (\<lambda>w. w\<lparr>w_cstore := (w_cstore w)(client := None)\<rparr>)]))"

definition announce_leave :: "transport \<Rightarrow> cref \<Rightarrow> (world, unit) prog" where
  "announce_leave send client =
     bnd (Chan_userLeave client) (\<lambda>leave_id.
     bnd (guarded (leave_id > 0)
       (bnd (compose (P_ChannelRemove (init_ChannelRemove\<lparr>crem_channel_id := u32_of_int leave_id\<rparr>)))
         (Client_send_message_except send (Some client)))) (\<lambda>_.
     bnd (get_client client) (\<lambda>cl.
     bnd (compose (P_UserRemove (init_UserRemove\<lparr>urem_session := u32_of_int (c_sessionId cl)\<rparr>)))
       (Client_send_message_except send (Some client)))))"

definition Client_free :: "transport \<Rightarrow> cref \<Rightarrow> (world, unit) prog" where
  "Client_free send client =
     bnd (get_client client) (\<lambda>cl. block
       [guarded (c_authenticated cl) (announce_leave send client),
        drop_queue client,
        Client_codec_free client,
        Voicetarget_free_all client,
        release_client client])"

definition Client_close :: "cref \<Rightarrow> (world, unit) prog" where
  "Client_close client =
     bnd (get_client client) (\<lambda>cl. block
       [emit (TlsShutdown (c_tcpfd cl)),
        upd_client client (\<lambda>cl. cl\<lparr>c_shutdown_wait := True\<rparr>)])"

definition Client_disconnect_all :: "transport \<Rightarrow> (world, unit) prog" where
  "Client_disconnect_all send = (\<lambda>w. each_safe w_clients (w_clients w) (Client_free send) w)"

section \<open>Writing\<close>

text \<open>The second half of \<open>Client_write\<close>: the next queued message, once the buffer is empty.\<close>

definition send_next :: "transport \<Rightarrow> cref \<Rightarrow> (world, unit) prog" where
  "send_next send client =
     bnd (get_client client) (\<lambda>cl.
     case c_txMsgQueue cl of
       [] \<Rightarrow> ret ()
     | msg # rest \<Rightarrow>
         guarded (c_txsize cl = 0)
           (bnd (upd_client client (\<lambda>cl. cl\<lparr>c_txMsgQueue := rest, c_txQueueCount := c_txQueueCount cl - 1\<rparr>)) (\<lambda>_.
            send client msg)))"

text \<open>What \<open>Client_write\<close> does with the result of the write.\<close>

definition after_write :: "transport \<Rightarrow> cref \<Rightarrow> ssl_error + nat \<Rightarrow> (world, unit) prog" where
  "after_write send client rc =
     (case rc of
        Inr n \<Rightarrow> block
          [guarded (n > 0) (upd_client client (\<lambda>cl.
             if c_txcount cl + n = c_txsize cl then cl\<lparr>c_txsize := 0, c_txcount := 0\<rparr>
             else cl\<lparr>c_txcount := c_txcount cl + n\<rparr>)),
           send_next send client]
      | Inl e \<Rightarrow>
          if e = WANT_READ then upd_client client (\<lambda>cl. cl\<lparr>c_writeBlockedOnRead := True\<rparr>)
          else if e = WANT_WRITE then ret ()
          else Client_free send client)"

definition write_body :: "(cref \<Rightarrow> (world, unit) prog) \<Rightarrow> transport \<Rightarrow> cref \<Rightarrow> (world, unit) prog" where
  "write_body read send client =
     bnd (get_client client) (\<lambda>cl.
     if c_readBlockedOnWrite cl then
       bnd (upd_client client (\<lambda>cl. cl\<lparr>c_readBlockedOnWrite := False\<rparr>)) (\<lambda>_. read client)
     else
       bnd (SSLi_write (c_tcpfd cl) (take (c_txsize cl - c_txcount cl) (drop (c_txcount cl) (c_txbuf cl))))
         (after_write send client))"

text \<open>
  \<open>list_add_tail(&msg->node, &client->txMsgQueue)\<close>. A message has a single list node: one
  that already waits in a queue corrupts both queues.
\<close>

definition enqueue :: "cref \<Rightarrow> mref \<Rightarrow> (world, unit) prog" where
  "enqueue client msg =
     bnd (gets (\<lambda>w. \<exists>c \<in> set (w_clients w). \<exists>cl. w_cstore w c = Some cl \<and> msg \<in> set (c_txMsgQueue cl))) (\<lambda>queued.
     if queued then fail ListCorrupt
     else upd_client client (\<lambda>cl. cl\<lparr>c_txQueueCount := c_txQueueCount cl + 1, c_txMsgQueue := c_txMsgQueue cl @ [msg]\<rparr>))"

definition send_body :: "(cref \<Rightarrow> (world, unit) prog) \<Rightarrow> cref \<Rightarrow> mref \<Rightarrow> (world, unit) prog" where
  "send_body write client msg =
     bnd (get_client client) (\<lambda>cl.
     bnd (get_msg msg) (\<lambda>m.
     if \<not> c_authenticated cl \<and> type_of (m_payload m) \<noteq> Version then Msg_free msg
     else if c_txsize cl \<noteq> 0 \<or> \<not> c_SSLready cl then
       (if (c_txQueueCount cl > 5 \<and> type_of (m_payload m) = UDPTunnel) \<or> c_txQueueCount cl > 30
        then Msg_free msg
        else enqueue client msg)
     else
       bnd (gets w_ext) (\<lambda>x.
       case Msg_messageToNetwork x (m_payload m) (c_txbuf cl) of
         Inl e \<Rightarrow> fail e
       | Inr (len, buffer) \<Rightarrow>
           if \<not> len < BUFSIZE then fail Assertion
           else block
             [upd_client client (\<lambda>cl. cl\<lparr>c_txbuf := buffer, c_txsize := len, c_txcount := 0\<rparr>),
              write client,
              Msg_free msg])))"

section \<open>The invariant\<close>

lemma keeps_inv_tls: "keeps (inv A) (modify (\<lambda>w. w\<lparr>w_tls := f (w_tls w)\<rparr>))"
  by (rule keeps_inv_modify) (simp_all add: core_def)

lemma keeps_write_answer [keeps_intros]:
  "keeps I m1 \<Longrightarrow> (\<And>k. keeps I (m2 k)) \<Longrightarrow> (\<And>e. keeps I (m3 e)) \<Longrightarrow>
   keeps I (case a of WAll \<Rightarrow> m1 | WSome k \<Rightarrow> m2 k | WFail e \<Rightarrow> m3 e)"
  by (cases a) simp_all

lemma keeps_read_answer [keeps_intros]:
  "(\<And>e. keeps I (m1 e)) \<Longrightarrow> (\<And>b. keeps I (m2 b)) \<Longrightarrow>
   keeps I (case a of RData b \<Rightarrow> m2 b | RFail e \<Rightarrow> m1 e)"
  by (cases a) simp_all

lemma keeps_SSLi_write [keeps_intros]: "keeps (inv A) (SSLi_write fd bytes)"
  unfolding SSLi_write_def by (intro keeps_intros keeps_inv_tls)

lemma keeps_SSLi_read [keeps_intros]: "keeps (inv A) (SSLi_read len)"
  unfolding SSLi_read_def by (intro keeps_intros keeps_inv_tls)

lemma keeps_SSLi_data_pending [keeps_intros]: "keeps (inv A) SSLi_data_pending"
  unfolding SSLi_data_pending_def by (intro keeps_intros keeps_inv_tls)

lemma keeps_SSLi_nonblockaccept [keeps_intros]: "keeps (inv A) SSLi_nonblockaccept"
  unfolding SSLi_nonblockaccept_def by (intro keeps_intros keeps_inv_tls)

lemma keeps_compose [keeps_intros]: "keeps (inv A) (compose p)"
  unfolding compose_def by (intro keeps_intros)

lemma harmless_codecs: "harmless (\<lambda>cl. cl\<lparr>c_codecs := f cl\<rparr>)"
  by (simp add: harmless_def client_ok_def)

lemma keeps_codec_free [keeps_intros]: "keeps (inv A) (Client_codec_free c)"
  unfolding Client_codec_free_def by (intro keeps_upd_client harmless_codecs)

lemma keeps_Client_close [keeps_intros]: "keeps (inv A) (Client_close c)"
  unfolding Client_close_def by (intro keeps_intros keeps_upd_client) (simp add: harmless_def client_ok_def)

lemma keeps_drop_queue [keeps_intros]: "keeps (inv A) (drop_queue c)"
  unfolding drop_queue_def
  by (intro keeps_intros keeps_upd_client) (auto simp: harmless_def client_ok_def length_remove1)

text \<open>A client that no channel lists can go.\<close>

lemma inv_drop_client:
  assumes inv: "inv A w" and c: "w_cstore w c = Some cl"
    and out: "\<And>ch x. w_chstore w ch = Some x \<Longrightarrow> c \<notin> set (ch_clients x)"
  shows "inv A (w\<lparr>w_clients := remove1 c (w_clients w), w_clientcount := w_clientcount w - 1,
    w_cstore := (w_cstore w)(c := None)\<rparr>)" (is "inv A ?w")
proof -
  have "c \<in> set (w_clients w)" using inv c by (auto simp: inv_def clients_ok_def)
  then have "int (length (remove1 c (w_clients w))) = int (length (w_clients w)) - 1"
    using length_pos_if_in_set [of c "w_clients w"] by (simp add: length_remove1 of_nat_diff Suc_leI)
  then have "clients_ok ?w"
    using inv by (auto simp: inv_def clients_ok_def)
  moreover have "channels_ok ?w" using inv by (simp add: inv_def channels_ok_def)
  moreover have "tree_ok ?w" using inv by (simp add: inv_def tree_ok_def tree_node_def)
  moreover have "members_ok ?w"
    unfolding members_ok_def
  proof (intro allI impI)
    fix ch x assume x: "w_chstore ?w ch = Some x"
    then have "c \<notin> set (ch_clients x)" using out [of ch x] by simp
    moreover have "distinct (ch_clients x) \<and> (\<forall>d \<in> set (ch_clients x). \<exists>dl. w_cstore w d = Some dl \<and> c_channel dl = Some ch)"
      using inv x by (simp add: inv_def members_ok_def)
    ultimately show "distinct (ch_clients x) \<and> (\<forall>d \<in> set (ch_clients x). \<exists>dl. w_cstore ?w d = Some dl \<and> c_channel dl = Some ch)"
      by auto
  qed
  moreover have "auth_ok A ?w" using inv by (auto simp: inv_def auth_ok_def)
  ultimately show ?thesis using inv by (simp add: inv_def)
qed

lemma release_client_result:
  assumes "inv A w" and "release_client c w = Inr (r, w')"
  shows "\<exists>cl. w_cstore w c = Some cl \<and> (\<forall>ch x. w_chstore w ch = Some x \<longrightarrow> c \<notin> set (ch_clients x)) \<and>
    w' = w\<lparr>w_clients := remove1 c (w_clients w), w_clientcount := w_clientcount w - 1,
      w_cstore := (w_cstore w)(c := None), w_out := w_out w @ [TlsFree (c_tcpfd cl), CloseFd (c_tcpfd cl)]\<rparr>"
proof -
  from assms(2) obtain cl where cl: "w_cstore w c = Some cl"
    and no: "\<not> (\<exists>ch \<in> set (w_channels w). c \<in> set (chan_clients ch w))"
    and w': "w' = w\<lparr>w_clients := remove1 c (w_clients w), w_clientcount := w_clientcount w - 1,
      w_cstore := (w_cstore w)(c := None), w_out := w_out w @ [TlsFree (c_tcpfd cl), CloseFd (c_tcpfd cl)]\<rparr>"
    by (auto simp: release_client_def bnd_eq_Inr prog_simps split: option.splits if_splits)
  have "c \<notin> set (ch_clients x)" if "w_chstore w ch = Some x" for ch x
  proof -
    have "ch \<in> set (w_channels w)" using that assms(1) by (auto simp: inv_def channels_ok_def)
    with no have "c \<notin> set (chan_clients ch w)" by blast
    with that show ?thesis by (simp add: chan_clients_def)
  qed
  with cl w' show ?thesis by blast
qed

lemma keeps_release_client [keeps_intros]: "keeps (inv A) (release_client c)"
proof (rule keepsI)
  fix w r w' assume I: "inv A w" and "release_client c w = Inr (r, w')"
  from release_client_result [OF this] obtain cl where cl: "w_cstore w c = Some cl"
    and out: "\<And>ch x. w_chstore w ch = Some x \<Longrightarrow> c \<notin> set (ch_clients x)"
    and w': "w' = w\<lparr>w_clients := remove1 c (w_clients w), w_clientcount := w_clientcount w - 1,
      w_cstore := (w_cstore w)(c := None), w_out := w_out w @ [TlsFree (c_tcpfd cl), CloseFd (c_tcpfd cl)]\<rparr>"
    by blast
  show "inv A w'" unfolding w'
    by (rule inv_core [OF inv_drop_client [OF I cl out]]) (simp_all add: core_def)
qed

text \<open>An update at a state where the client's structure is known.\<close>

lemma upd_client_at:
  assumes "inv A w" and "w_cstore w c = Some cl" and "upd_client c f w = Inr (r, w')"
    and "client_ok cl \<Longrightarrow> client_ok (f cl)" and "c_sessionId (f cl) = c_sessionId cl"
    and "c_channel (f cl) = c_channel cl" and "c_authenticated cl \<longrightarrow> c_authenticated (f cl)"
  shows "inv A w'"
proof -
  have "w' = put_client c (f cl) w" using assms(2,3) by (simp add: upd_client_app)
  with inv_put_client [OF assms(1,2) assms(4) [OF inv_client [OF assms(1,2)]] assms(5-7)] show ?thesis by simp
qed

lemma length_messageToNetwork:
  assumes "length buffer = BUFSIZE" and "Msg_messageToNetwork x p buffer = Inr (len, buffer')"
  shows "length buffer' = BUFSIZE"
  using assms
  by (cases p) (auto simp: Msg_messageToNetwork_def packed_def tunnelled_def Let_def split: if_splits)

text \<open>
  The contract of a transport: handing it a message keeps the invariant, whatever is
  known of authenticated clients. Everything that sends is proved to keep the invariant
  once, here.
\<close>

locale transport =
  fixes send :: "cref \<Rightarrow> mref \<Rightarrow> (world, unit) prog"
  assumes send_keeps: "keeps (inv A) (send c m)"
begin

lemma keeps_except: "keeps (inv A) (Client_send_message_except send c m)"
proof -
  have "keeps (inv A) (except_loop send c m)"
    unfolding except_loop_def
    by (rule keeps_self) (intro keeps_intros send_keeps)
  then show ?thesis unfolding Client_send_message_except_def by (intro keeps_intros)
qed

lemma ver_transport: "transport (\<lambda>c m. Client_send_message_ver send c m v)"
  unfolding Client_send_message_ver_def by unfold_locales (intro keeps_intros send_keeps)

lemma keeps_announce_leave: "keeps (inv A) (announce_leave send c)"
  unfolding announce_leave_def by (intro keeps_intros keeps_except)

lemma keeps_Client_free: "keeps (inv A) (Client_free send c)"
  unfolding Client_free_def by (intro keeps_intros keeps_announce_leave)

lemma keeps_send_next: "keeps (inv A) (send_next send c)"
proof (rule keepsI)
  fix w r w' assume I: "inv A w" and run: "send_next send c w = Inr (r, w')"
  then obtain cl where cl: "w_cstore w c = Some cl"
    by (auto simp: send_next_def get_client_app bnd_eq_Inr split: option.splits)
  show "inv A w'"
  proof (cases "c_txMsgQueue cl = [] \<or> c_txsize cl \<noteq> 0")
    case True
    with run cl have "w' = w"
      by (auto simp: send_next_def get_client_app bnd_Inr ret_app guarded_app split: list.splits)
    with I show ?thesis by simp
  next
    case False
    then obtain m ms where q: "c_txMsgQueue cl = m # ms" by (cases "c_txMsgQueue cl") auto
    from run cl q False obtain u w1 where
      u: "upd_client c (\<lambda>cl. cl\<lparr>c_txMsgQueue := ms, c_txQueueCount := c_txQueueCount cl - 1\<rparr>) w = Inr (u, w1)"
      and s: "send c m w1 = Inr (r, w')"
      by (auto simp: send_next_def get_client_app bnd_Inr guarded_app elim: bndE)
    have "inv A w1" by (rule upd_client_at [OF I cl u]) (auto simp: client_ok_def q)
    with keepsD [OF send_keeps s] show ?thesis by blast
  qed
qed

end

lemma keeps_enqueue:
  assumes "inv A w" and "w_cstore w c = Some cl" and "c_txQueueCount cl \<le> 30" and "enqueue c m w = Inr (r, w')"
  shows "inv A w'"
proof -
  from assms(4) have u: "upd_client c (\<lambda>cl. cl\<lparr>c_txQueueCount := c_txQueueCount cl + 1, c_txMsgQueue := c_txMsgQueue cl @ [m]\<rparr>) w = Inr (r, w')"
    by (simp add: enqueue_def fail_app split: if_splits)
  show ?thesis by (rule upd_client_at [OF assms(1,2) u]) (use assms(3) in \<open>auto simp: client_ok_def\<close>)
qed

lemma keeps_send_body:
  assumes wr: "\<And>A. keeps (inv A) (write c)"
  shows "keeps (inv A) (send_body write c m)"
proof (rule keepsI)
  fix w r w' assume I: "inv A w" and run: "send_body write c m w = Inr (r, w')"
  from run obtain cl msg where cl: "w_cstore w c = Some cl" and msg: "w_mstore w m = Some msg"
    by (auto simp: send_body_def get_client_app get_msg_app bnd_eq_Inr split: option.splits)
  have drop: "inv A w'" if "Msg_free m w = Inr (r, w')" using keepsD [OF keeps_Msg_free that I] .
  have ok: "client_ok cl" using I cl by (rule inv_client)
  consider "\<not> c_authenticated cl \<and> type_of (m_payload msg) \<noteq> Version"
    | "c_authenticated cl \<or> type_of (m_payload msg) = Version" "c_txsize cl \<noteq> 0 \<or> \<not> c_SSLready cl"
    | "c_authenticated cl \<or> type_of (m_payload msg) = Version" "c_txsize cl = 0" "c_SSLready cl" by blast
  then show "inv A w'"
  proof cases
    case 1
    with run cl msg have "Msg_free m w = Inr (r, w')"
      by (simp add: send_body_def get_client_app get_msg_app bnd_Inr)
    then show ?thesis by (rule drop)
  next
    case 2
    with run cl msg have "(if (c_txQueueCount cl > 5 \<and> type_of (m_payload msg) = UDPTunnel) \<or> c_txQueueCount cl > 30
        then Msg_free m else enqueue c m) w = Inr (r, w')"
      by (auto simp: send_body_def get_client_app get_msg_app bnd_Inr)
    then show ?thesis using drop keeps_enqueue [OF I cl] by (auto split: if_splits)
  next
    case 3
    with run cl msg obtain len buffer where n: "Msg_messageToNetwork (w_ext w) (m_payload msg) (c_txbuf cl) = Inr (len, buffer)"
      and len: "len < BUFSIZE"
      and b: "block [upd_client c (\<lambda>cl. cl\<lparr>c_txbuf := buffer, c_txsize := len, c_txcount := 0\<rparr>), write c, Msg_free m] w = Inr (r, w')"
      by (auto simp: send_body_def get_client_app get_msg_app bnd_Inr fail_app split: sum.splits if_splits)
    have "length buffer = BUFSIZE" using length_messageToNetwork [OF _ n] ok by (simp add: client_ok_def)
    then have "harmless (\<lambda>cl. cl\<lparr>c_txbuf := buffer, c_txsize := len, c_txcount := 0\<rparr>)"
      using len by (simp add: harmless_def client_ok_def)
    then have "keeps (inv A) (block [upd_client c (\<lambda>cl. cl\<lparr>c_txbuf := buffer, c_txsize := len, c_txcount := 0\<rparr>), write c, Msg_free m])"
      by (intro keeps_intros keeps_upd_client wr)
    from keepsD [OF this b I] show ?thesis .
  qed
qed

context transport
begin

lemma keeps_write_body:
  assumes read: "\<And>A. keeps (inv A) (read c)"
  shows "keeps (inv A) (write_body read send c)"
proof (rule keepsI)
  fix w r w' assume I: "inv A w" and run: "write_body read send c w = Inr (r, w')"
  then obtain cl where cl: "w_cstore w c = Some cl"
    by (auto simp: write_body_def get_client_app bnd_eq_Inr split: option.splits)
  have ok: "client_ok cl" using I cl by (rule inv_client)
  show "inv A w'"
  proof (cases "c_readBlockedOnWrite cl")
    case True
    with run cl have b: "bnd (upd_client c (\<lambda>cl. cl\<lparr>c_readBlockedOnWrite := False\<rparr>)) (\<lambda>_. read c) w = Inr (r, w')"
      by (simp add: write_body_def get_client_app bnd_Inr)
    have "keeps (inv A) (bnd (upd_client c (\<lambda>cl. cl\<lparr>c_readBlockedOnWrite := False\<rparr>)) (\<lambda>_. read c))"
      by (intro keeps_intros keeps_upd_client read) (simp add: harmless_def client_ok_def)
    from keepsD [OF this b I] show ?thesis .
  next
    case False
    let ?slice = "take (c_txsize cl - c_txcount cl) (drop (c_txcount cl) (c_txbuf cl))"
    from False run cl have "bnd (SSLi_write (c_tcpfd cl) ?slice) (after_write send c) w = Inr (r, w')"
      by (simp add: write_body_def get_client_app bnd_Inr)
    then obtain rc w1 where s: "SSLi_write (c_tcpfd cl) ?slice w = Inr (rc, w1)"
      and k: "after_write send c rc w1 = Inr (r, w')" by (rule bndE)
    have I1: "inv A w1" using keepsD [OF keeps_SSLi_write s I] .
    have cl1: "w_cstore w1 c = Some cl" and n: "rc = Inr n \<Longrightarrow> n \<le> length ?slice" for n
      using s cl by (auto simp: SSLi_write_def bnd_eq_Inr prog_simps split: write_answer.splits)
    show ?thesis
    proof (cases rc)
      case (Inl e)
      have "keeps (inv A) (after_write send c rc)"
        unfolding after_write_def Inl sum.case
        by (intro keeps_intros keeps_upd_client keeps_Client_free) (simp add: harmless_def client_ok_def)
      from keepsD [OF this k I1] show ?thesis .
    next
      case (Inr n)
      with k obtain u w2 where
        u: "guarded (n > 0) (upd_client c (\<lambda>cl. if c_txcount cl + n = c_txsize cl then cl\<lparr>c_txsize := 0, c_txcount := 0\<rparr>
          else cl\<lparr>c_txcount := c_txcount cl + n\<rparr>)) w1 = Inr (u, w2)" and t: "send_next send c w2 = Inr (r, w')"
        by (auto simp: after_write_def elim: bndE)
      have "c_txcount cl + n \<le> c_txsize cl"
        using n Inr ok by (auto simp: client_ok_def)
      then have "inv A w2"
        using u I1 upd_client_at [OF I1 cl1, of _ u w2] by (auto simp: guarded_app client_ok_def split: if_splits)
      then show ?thesis using keepsD [OF keeps_send_next t] by blast
    qed
  qed
qed

end

end
