(* ===== verification/Clients.thy ===== *)
theory Clients
  imports Transmit "HOL-Library.Signed_Division"
begin

text \<open>
  The connections of client.c: accepting a client, the periodic clean-up, the descriptors
  the event loop polls, the lookups by descriptor, and the election of the voice codec.
\<close>

section \<open>Constants\<close>

definition PROTOCOL_VERSION :: u32 where
  "PROTOCOL_VERSION = push_bit 16 1 OR push_bit 8 2 OR 3"

abbreviation UMURMUR_VERSION :: string where
  "UMURMUR_VERSION \<equiv> ''0.2.6''"

abbreviation INACTICITY_TIMEOUT :: u64 where
  "INACTICITY_TIMEOUT \<equiv> 15"

section \<open>Bookkeeping\<close>

text \<open>C's division truncates towards zero.\<close>

definition Client_init :: "(world, unit) prog" where
  "Client_init =
     bnd (getIntConf MAX_BANDWIDTH) (\<lambda>bits.
     modify (\<lambda>w. w\<lparr>w_maxBandwidth := bits sdiv 8\<rparr>))"

definition Client_count :: "(world, int) prog" where
  "Client_count = gets w_clientcount"

text \<open>
  The entries \<open>Client_getfds\<close> fills in: the descriptor and whether \<open>POLLOUT\<close> is wanted
  besides \<open>POLLIN\<close>, \<open>POLLHUP\<close> and \<open>POLLERR\<close>. The array has \<open>places\<close> entries.
\<close>

record pollfd =
  pfd_fd :: int
  pfd_out :: bool

definition poll_entry :: "client \<Rightarrow> pollfd" where
  "poll_entry c = \<lparr>pfd_fd = c_tcpfd c, pfd_out = (c_txsize c > 0 \<or> c_readBlockedOnWrite c)\<rparr>"

definition Client_getfds :: "int \<Rightarrow> (world, pollfd list) prog" where
  "Client_getfds places =
     bnd (gets w_clients) (\<lambda>cs.
     bnd (map_prog get_client cs) (\<lambda>cls.
     if int (length cls) > places then fail OutOfBounds else ret (map poll_entry cls)))"

text \<open>The body of the loop of \<open>Client_janitor\<close>.\<close>

definition janitor_visit :: "transport \<Rightarrow> cref \<Rightarrow> (world, unit) prog" where
  "janitor_visit send c =
     bnd (gets w_maxBandwidth) (\<lambda>maxBandwidth.
     bnd (gets w_now) (\<lambda>now.
     bnd (get_client c) (\<lambda>cl.
     let bwTop = maxBandwidth + maxBandwidth sdiv 4;
         avail = c_availableBandwidth cl + maxBandwidth;
         (elapsed, timer) = Timer_isElapsed now (c_lastActivity cl) (1000000 * INACTICITY_TIMEOUT)
     in bnd (upd_client c (\<lambda>cl. cl\<lparr>c_availableBandwidth := (if avail > bwTop then bwTop else avail),
                                     c_lastActivity := timer\<rparr>)) (\<lambda>_.
        guarded elapsed (Client_free send c)))))"

definition Client_janitor :: "transport \<Rightarrow> (world, unit) prog" where
  "Client_janitor send = each_client (janitor_visit send)"

section \<open>Codecs\<close>

definition Client_codec_add :: "cref \<Rightarrow> u32 \<Rightarrow> (world, unit) prog" where
  "Client_codec_add client codec = upd_client client (\<lambda>cl. cl\<lparr>c_codecs := c_codecs cl @ [codec]\<rparr>)"

text \<open>The iterator is the position of an entry in the client's codec list.\<close>

definition Client_codec_iterate :: "client \<Rightarrow> nat option \<Rightarrow> nat option" where
  "Client_codec_iterate cl codec_itr =
     (if c_codecs cl = [] then None
      else case codec_itr of
        None \<Rightarrow> Some 0
      | Some i \<Rightarrow> if Suc i = length (c_codecs cl) then None else Some (Suc i))"

text \<open>The list of codecs with their counts, and what one more client's codec does to it.\<close>

definition count_codec :: "u32 \<Rightarrow> (u32 \<times> nat) list \<Rightarrow> (u32 \<times> nat) list" where
  "count_codec codec tally =
     (if codec \<in> fst ` set tally
      then map (\<lambda>(cd, count). if cd = codec then (cd, count + 1) else (cd, count)) tally
      else tally @ [(codec, 1)])"

definition tally_codecs :: "client list \<Rightarrow> (u32 \<times> nat) list" where
  "tally_codecs cls = fold (\<lambda>cl. fold count_codec (c_codecs cl)) cls []"

text \<open>The maximum of the counts, and the codec it belongs to once one has been seen.\<close>

definition most_common :: "(u32 \<times> nat) list \<Rightarrow> nat \<times> u32 option" where
  "most_common tally =
     fold (\<lambda>(cd, count) (most, version). if count > most then (count, Some cd) else (most, version)) tally (0, None)"

definition current_codec :: "world \<Rightarrow> u32" where
  "current_codec w = (if w_bPreferAlpha w then w_iCodecAlpha w else w_iCodecBeta w)"

definition set_codec :: "u32 \<Rightarrow> world \<Rightarrow> world" where
  "set_codec version w =
     (let prefer = (if version = 0x8000000b then True else \<not> w_bPreferAlpha w)
      in if prefer then w\<lparr>w_bPreferAlpha := prefer, w_iCodecAlpha := version\<rparr>
         else w\<lparr>w_bPreferAlpha := prefer, w_iCodecBeta := version\<rparr>)"

text \<open>
  \<open>recheckCodecVersions\<close> up to the announcement; the result says whether there is one.
  With no codec at all the local \<open>version\<close> is read before it is assigned.
\<close>

definition elect_codec :: "(world, bool) prog" where
  "elect_codec =
     bnd (gets w_clients) (\<lambda>cs.
     bnd (map_prog get_client cs) (\<lambda>cls.
     bnd (gets current_codec) (\<lambda>current_version.
     case snd (most_common (tally_codecs cls)) of
       None \<Rightarrow> fail Uninitialised
     | Some version \<Rightarrow>
         if current_version = version then ret False
         else bnd (modify (set_codec version)) (\<lambda>_. ret True))))"

definition codec_message :: "(world, mref) prog" where
  "codec_message =
     bnd (gets (\<lambda>w. P_CodecVersion \<lparr>cdv_alpha = w_iCodecAlpha w, cdv_beta = w_iCodecBeta w,
                       cdv_prefer_alpha = w_bPreferAlpha w\<rparr>)) compose"

definition recheckCodecVersions :: "transport \<Rightarrow> (world, unit) prog" where
  "recheckCodecVersions send =
     bnd elect_codec (\<lambda>changed.
     guarded changed (bnd codec_message (Client_send_message_except send None)))"

section \<open>Connecting\<close>

definition findFreeSessionId :: "(world, int) prog" where
  "findFreeSessionId =
     free_id_loop (\<lambda>i. bnd (gets w_clients) (search get_client (\<lambda>cl. c_sessionId cl = i))) (nat INT_MAX - 1) 1"

text \<open>\<open>SSLi_newconnection\<close> on the descriptor: \<open>None\<close> when the handshake failed.\<close>

definition SSLi_newconnection :: "int \<Rightarrow> (world, bool option) prog" where
  "SSLi_newconnection fd =
     bnd SSLi_nonblockaccept (\<lambda>rc.
     case rc of
       AcceptFailed \<Rightarrow> bnd (emit (TlsFree fd)) (\<lambda>_. ret None)
     | AcceptRetry \<Rightarrow> ret (Some False)
     | Accepted \<Rightarrow> ret (Some True))"

definition link_client :: "cref \<Rightarrow> client \<Rightarrow> world \<Rightarrow> world" where
  "link_client c cl w = (put_client c cl w)
     \<lparr>w_clients := w_clients w @ [c], w_clientcount := w_clientcount w + 1\<rparr>"

definition version_payload :: "ext \<Rightarrow> payload" where
  "version_payload x = P_Version
     \<lparr>ver_has_version = True, ver_version = PROTOCOL_VERSION, ver_release = Some UMURMUR_VERSION,
      ver_os = Some (system_string x), ver_os_version = Some (version_string x)\<rparr>"

definition Client_add :: "transport \<Rightarrow> int \<Rightarrow> sockaddr \<Rightarrow> (world, int) prog" where
  "Client_add send fd remote =
     bnd fresh (\<lambda>newclient.
     bnd (SSLi_newconnection fd) (\<lambda>ssl.
     case ssl of
       None \<Rightarrow> ret (- 1)
     | Some ready \<Rightarrow>
         bnd (gets w_maxBandwidth) (\<lambda>maxBandwidth.
         bnd (gets w_now) (\<lambda>now.
         bnd findFreeSessionId (\<lambda>sessionId.
         if sessionId < 0 then fail Fatal
         else
           bnd (modify (link_client newclient (zero_client
             \<lparr>c_tcpfd := fd, c_remote_tcp := remote, c_SSLready := ready,
              c_availableBandwidth := maxBandwidth, c_lastActivity := Timer_init now,
              c_connectTime := Timer_init now, c_idleTime := Timer_init now,
              c_sessionId := sessionId\<rparr>))) (\<lambda>_.
           bnd (gets w_ext) (\<lambda>x.
           bnd (compose (version_payload x)) (\<lambda>sendmsg.
           bnd (send newclient sendmsg) (\<lambda>_.
           ret 0)))))))))"

text \<open>The search by descriptor of \<open>Client_read_fd\<close> and \<open>Client_write_fd\<close>; no client is fatal.\<close>

definition client_of_fd :: "int \<Rightarrow> (world, cref) prog" where
  "client_of_fd fd =
     bnd (gets w_clients) (\<lambda>cs.
     bnd (search get_client (\<lambda>cl. fd = c_tcpfd cl) cs) (\<lambda>client.
     case client of None \<Rightarrow> fail Fatal | Some c \<Rightarrow> ret c))"

section \<open>The invariant\<close>

lemma keeps_Client_init [keeps_intros]: "keeps (inv A) Client_init"
  unfolding Client_init_def getIntConf_def
  by (intro keeps_intros keeps_inv_modify) (simp_all add: core_def keeps_gets)

lemma reads_Client_getfds [reads_intros]: "reads (Client_getfds places)"
  unfolding Client_getfds_def by (intro reads_intros)

lemma reads_client_of_fd [reads_intros]: "reads (client_of_fd fd)"
  unfolding client_of_fd_def by (intro reads_intros)

lemma reads_findFreeSessionId [reads_intros]: "reads findFreeSessionId"
  unfolding findFreeSessionId_def by (intro reads_intros)

lemmas keeps_client_reads [keeps_intros] =
  reads_keeps [OF reads_Client_getfds] reads_keeps [OF reads_client_of_fd]

lemma keeps_codec_add [keeps_intros]: "keeps (inv A) (Client_codec_add c v)"
  unfolding Client_codec_add_def by (intro keeps_upd_client harmless_codecs)

lemma core_set_codec: "core (set_codec v w) = core w" "w_next (set_codec v w) = w_next w"
  by (simp_all add: set_codec_def core_def Let_def)

lemma keeps_elect_codec [keeps_intros]: "keeps (inv A) elect_codec"
  unfolding elect_codec_def
  by (intro keeps_intros keeps_inv_modify reads_keeps [OF reads_map_prog] reads_get) (simp_all add: core_set_codec)

lemma keeps_codec_message [keeps_intros]: "keeps (inv A) codec_message"
  unfolding codec_message_def by (intro keeps_intros)

lemma keeps_newconnection [keeps_intros]: "keeps (inv A) (SSLi_newconnection fd)"
  unfolding SSLi_newconnection_def
  by (intro keeps_bnd keeps_SSLi_nonblockaccept) (auto intro!: keeps_intros split: accept_answer.split)

lemma findFreeSessionId_fresh:
  assumes "findFreeSessionId w = Inr (r, w')" and "clients_ok w" and "\<not> r < 0"
  shows "w' = w" and "1 \<le> r" and "r < INT_MAX"
    and "\<And>c cl. w_cstore w c = Some cl \<Longrightarrow> c_sessionId cl \<noteq> r"
proof -
  let ?user = "\<lambda>i. bnd (gets w_clients) (search get_client (\<lambda>cl. c_sessionId cl = i))"
  have *: "w' = w \<and> (r = - 1 \<or> 1 \<le> r \<and> r < 1 + int (nat INT_MAX - 1) \<and> ?user r w = Inr (None, w))"
    using assms(1) unfolding findFreeSessionId_def
    by (rule free_id_loop_result) (intro reads_intros, simp)
  with assms(3) show "w' = w" "1 \<le> r" "r < INT_MAX" by (auto simp: INT_MAX_def)
  fix c cl assume cl: "w_cstore w c = Some cl"
  then have "c \<in> set (w_clients w)" using assms(2) by (auto simp: clients_ok_def)
  moreover have "search get_client (\<lambda>cl. c_sessionId cl = r) (w_clients w) w = Inr (None, w)"
    using * assms(3) by auto
  ultimately show "c_sessionId cl \<noteq> r"
    using search_None [of get_client "\<lambda>cl. c_sessionId cl = r" "w_clients w" w w c] cl
    by (auto simp: get_client_app reads_get)
qed

lemma findFreeSessionId_least:
  assumes "clients_ok w" and "length (w_clients w) < nat INT_MAX - 1"
  shows "\<exists>i. findFreeSessionId w = Inr (i, w) \<and> 1 \<le> i \<and>
    (\<forall>c cl. w_cstore w c = Some cl \<longrightarrow> c_sessionId cl \<noteq> i) \<and>
    (\<forall>j. 1 \<le> j \<and> j < i \<longrightarrow> (\<exists>c cl. w_cstore w c = Some cl \<and> c_sessionId cl = j))"
proof -
  let ?num = "\<lambda>c. c_sessionId (the (w_cstore w c))"
  have s: "set (w_clients w) = dom (w_cstore w)" using assms(1) by (simp add: clients_ok_def)
  have get: "get_client c w = Inr (the (w_cstore w c), w)" if "c \<in> set (w_clients w)" for c
    using s that by (auto simp: get_client_app)
  have user: "bnd (gets w_clients) (search get_client (\<lambda>cl. c_sessionId cl = j)) w =
      Inr (find (\<lambda>c. ?num c = j) (w_clients w), w)" for j
    by (simp add: search_total [where val = "\<lambda>c. the (w_cstore w c)"] get)
  have "\<exists>k. findFreeSessionId w = Inr (k, w) \<and> 1 \<le> k \<and> k \<notin> ?num ` set (w_clients w) \<and>
    (\<forall>j. 1 \<le> j \<and> j < k \<longrightarrow> j \<in> ?num ` set (w_clients w))"
    unfolding findFreeSessionId_def
    by (rule free_id_loop_finds) (use assms(2) user in auto)
  then show ?thesis unfolding s by (force simp: dom_def)
qed

lemma inv_link_client:
  assumes inv: "inv A w" and new: "w_cstore w c = None" "c \<notin> A" "c < w_next w"
    and ok: "client_ok cl" "c_channel cl = None" "\<And>d dl. w_cstore w d = Some dl \<Longrightarrow> c_sessionId dl \<noteq> c_sessionId cl"
  shows "inv A (link_client c cl w)" (is "inv A ?w")
proof -
  have c: "c \<notin> set (w_clients w)" using inv new(1) by (auto simp: inv_def clients_ok_def)
  have cs: "w_cstore ?w = (w_cstore w)(c \<mapsto> cl)" "w_clients ?w = w_clients w @ [c]"
    "w_clientcount ?w = w_clientcount w + 1" "w_next ?w = w_next w" "w_ext ?w = w_ext w"
    "w_chstore ?w = w_chstore w" "w_channels ?w = w_channels w" "w_rootChan ?w = w_rootChan w"
    "w_defaultChan ?w = w_defaultChan w"
    by (simp_all add: link_client_def put_client_def)
  have "clients_ok ?w"
    unfolding clients_ok_def cs using inv c new ok(1) ok(3)
    by (auto simp: inv_def clients_ok_def) metis+
  moreover have "channels_ok ?w" using inv unfolding inv_def channels_ok_def cs by simp
  moreover have "tree_ok ?w" using inv unfolding inv_def tree_ok_def tree_node_def cs by simp
  moreover have "members_ok ?w" using inv new(1) unfolding inv_def members_ok_def cs by fastforce
  moreover have "auth_ok A ?w" using inv new(2) unfolding inv_def auth_ok_def cs by auto
  ultimately show ?thesis using inv by (simp add: inv_def cs)
qed

lemma SSLi_newconnection_result:
  assumes "SSLi_newconnection fd w = Inr (r, w')"
  shows "core w' = core w" and "w_next w' = w_next w" and "w_now w' = w_now w"
  using assms
  by (auto simp: SSLi_newconnection_def SSLi_nonblockaccept_def bnd_eq_Inr prog_simps core_def split: accept_answer.splits)

lemma new_client_ok: "1 \<le> s \<Longrightarrow> s < INT_MAX \<Longrightarrow> client_ok (zero_client
    \<lparr>c_tcpfd := fd, c_remote_tcp := remote, c_SSLready := ready, c_availableBandwidth := bw,
     c_lastActivity := t1, c_connectTime := t2, c_idleTime := t3, c_sessionId := s\<rparr>)"
  by (simp add: client_ok_def zero_client_def wf_zero)

text \<open>What \<open>Client_add\<close> has done when it hands the first message to the new client.\<close>

lemma Client_add_connected:
  assumes I: "inv A w" and run: "Client_add send fd remote w = Inr (r, w')"
  shows "r = - 1 \<and> inv A w' \<or>
    (\<exists>c cl w1 m w2. r = 0 \<and> c = w_next w \<and> inv A w1 \<and> w_cstore w1 c = Some cl \<and> \<not> c_authenticated cl \<and>
      c_tcpfd cl = fd \<and> w_clients w1 = w_clients w @ [c] \<and>
      compose (version_payload (w_ext w1)) w1 = Inr (m, w2) \<and> send c m w2 = Inr ((), w'))"
proof -
  let ?c = "w_next w" and ?w = "w\<lparr>w_next := Suc (w_next w)\<rparr>"
  have I0: "inv A ?w" using keepsD [OF keeps_inv_fresh _ I] by (simp add: fresh_app)
  have c: "?c \<notin> A" "w_cstore ?w ?c = None" using I by (auto simp: inv_def auth_ok_def clients_ok_def)
  from run obtain ssl w1 where ssl: "SSLi_newconnection fd ?w = Inr (ssl, w1)"
    and k: "(case ssl of None \<Rightarrow> ret (- 1) | Some ready \<Rightarrow>
         bnd (gets w_maxBandwidth) (\<lambda>maxBandwidth.
         bnd (gets w_now) (\<lambda>now.
         bnd findFreeSessionId (\<lambda>sessionId.
         if sessionId < 0 then fail Fatal
         else
           bnd (modify (link_client ?c (zero_client
             \<lparr>c_tcpfd := fd, c_remote_tcp := remote, c_SSLready := ready,
              c_availableBandwidth := maxBandwidth, c_lastActivity := Timer_init now,
              c_connectTime := Timer_init now, c_idleTime := Timer_init now,
              c_sessionId := sessionId\<rparr>))) (\<lambda>_.
           bnd (gets w_ext) (\<lambda>x.
           bnd (compose (version_payload x)) (\<lambda>sendmsg.
           bnd (send ?c sendmsg) (\<lambda>_.
           ret 0)))))))) w1 = Inr (r, w')"
    by (auto simp: Client_add_def bnd_eq_Inr fresh_app)
  have I1: "inv A w1" using keepsD [OF keeps_newconnection ssl I0] .
  have eqs: "w_cstore w1 = w_cstore w" "w_clients w1 = w_clients w" "w_next w1 = Suc ?c"
    using SSLi_newconnection_result(1,2) [OF ssl] by (simp_all add: core_def)
  show ?thesis
  proof (cases ssl)
    case None
    with k I1 show ?thesis by (simp add: ret_app)
  next
    case (Some ready)
    with k obtain sid w2 where sid: "findFreeSessionId w1 = Inr (sid, w2)" and nn: "\<not> sid < 0"
      and k2: "bnd (modify (link_client ?c (zero_client
             \<lparr>c_tcpfd := fd, c_remote_tcp := remote, c_SSLready := ready,
              c_availableBandwidth := w_maxBandwidth w1, c_lastActivity := Timer_init (w_now w1),
              c_connectTime := Timer_init (w_now w1), c_idleTime := Timer_init (w_now w1),
              c_sessionId := sid\<rparr>))) (\<lambda>_.
           bnd (gets w_ext) (\<lambda>x.
           bnd (compose (version_payload x)) (\<lambda>sendmsg.
           bnd (send ?c sendmsg) (\<lambda>_.
           ret 0)))) w2 = Inr (r, w')"
      by (auto simp: bnd_eq_Inr [of findFreeSessionId] fail_app split: if_splits)
    have ok1: "clients_ok w1" using I1 by (simp add: inv_def)
    note fresh = findFreeSessionId_fresh [OF sid ok1 nn]
    let ?cl = "zero_client
             \<lparr>c_tcpfd := fd, c_remote_tcp := remote, c_SSLready := ready,
              c_availableBandwidth := w_maxBandwidth w1, c_lastActivity := Timer_init (w_now w1),
              c_connectTime := Timer_init (w_now w1), c_idleTime := Timer_init (w_now w1),
              c_sessionId := sid\<rparr>"
    have "inv A (link_client ?c ?cl w1)"
    proof (rule inv_link_client [OF I1])
      show "w_cstore w1 ?c = None" "?c \<notin> A" "?c < w_next w1" using c eqs by simp_all
      show "client_ok ?cl" using fresh(2,3) by (rule new_client_ok)
      show "c_channel ?cl = None" by (simp add: zero_client_def)
      show "c_sessionId dl \<noteq> c_sessionId ?cl" if "w_cstore w1 d = Some dl" for d dl
        using fresh(4) [OF that] by simp
    qed
    moreover have "w_cstore (link_client ?c ?cl w1) ?c = Some ?cl" "w_clients (link_client ?c ?cl w1) = w_clients w @ [?c]"
      by (simp_all add: link_client_def put_client_def eqs)
    moreover have "\<not> c_authenticated ?cl" "c_tcpfd ?cl = fd" by (simp_all add: zero_client_def)
    moreover obtain m w3 where "compose (version_payload (w_ext (link_client ?c ?cl w1))) (link_client ?c ?cl w1) = Inr (m, w3)"
      "send ?c m w3 = Inr ((), w')" "r = 0"
      using k2 fresh(1) by (auto simp: bnd_eq_Inr prog_simps)
    ultimately show ?thesis by blast
  qed
qed

context transport
begin

lemma keeps_janitor: "keeps (inv A) (Client_janitor send)"
proof -
  have "harmless (\<lambda>cl. cl\<lparr>c_availableBandwidth := b, c_lastActivity := t\<rparr>)" for b t
    by (simp add: harmless_def client_ok_def)
  then have "keeps (inv A) (janitor_visit send c)" for c
    unfolding janitor_visit_def Let_def split_def
    by (intro keeps_intros keeps_upd_client keeps_Client_free)
  then show ?thesis unfolding Client_janitor_def by (rule keeps_each_client)
qed

lemma keeps_recheck: "keeps (inv A) (recheckCodecVersions send)"
  unfolding recheckCodecVersions_def by (intro keeps_intros keeps_except)

lemma keeps_Client_add: "keeps (inv A) (Client_add send fd remote)"
proof (rule keepsI)
  fix w r w' assume "inv A w" and "Client_add send fd remote w = Inr (r, w')"
  from Client_add_connected [OF this] keepsD [OF keeps_compose] keepsD [OF send_keeps]
  show "inv A w'" by blast
qed

end

section \<open>The elected codec\<close>

definition tally_ok :: "(u32 \<times> nat) list \<Rightarrow> u32 list \<Rightarrow> bool" where
  "tally_ok tally vs \<longleftrightarrow> distinct (map fst tally) \<and>
     (\<forall>v n. (v, n) \<in> set tally \<longleftrightarrow> v \<in> set vs \<and> n = count_list vs v)"

lemma count_list_snoc [simp]: "count_list (xs @ [y]) v = count_list xs v + (if y = v then 1 else 0)"
  by (induction xs) auto

lemma count_codec_found:
  assumes "v \<in> fst ` set tally"
  shows "map fst (count_codec v tally) = map fst tally"
    and "(u, n) \<in> set (count_codec v tally) \<longleftrightarrow>
      (if u = v then \<exists>k. (v, k) \<in> set tally \<and> n = k + 1 else (u, n) \<in> set tally)"
proof -
  let ?f = "\<lambda>(cd, count). if cd = v then (cd, count + 1) else (cd, count)"
  have eq: "count_codec v tally = map ?f tally" using assms by (simp add: count_codec_def)
  show "map fst (count_codec v tally) = map fst tally" unfolding eq by (induction tally) auto
  show "(u, n) \<in> set (count_codec v tally) \<longleftrightarrow>
      (if u = v then \<exists>k. (v, k) \<in> set tally \<and> n = k + 1 else (u, n) \<in> set tally)"
    unfolding eq set_map image_iff by (force split: if_splits)
qed

lemma tally_ok_step:
  assumes "tally_ok tally vs"
  shows "tally_ok (count_codec v tally) (vs @ [v])"
proof (cases "v \<in> fst ` set tally")
  case True
  have "v \<in> set vs" using True assms by (auto simp: tally_ok_def)
  with assms show ?thesis
    unfolding tally_ok_def count_codec_found [OF True] by auto
next
  case False
  then have v: "v \<notin> set vs" using assms by (force simp: tally_ok_def)
  then have "count_list vs v = 0" by (simp add: count_list_0_iff)
  moreover have "count_codec v tally = tally @ [(v, 1)]" using False by (simp add: count_codec_def)
  ultimately show ?thesis using False v assms by (auto simp: tally_ok_def)
qed

lemma tally_codecs_ok: "tally_ok (tally_codecs cls) (concat (map c_codecs cls))"
proof -
  have "tally_ok (fold count_codec vs tally) (us @ vs)" if "tally_ok tally us" for vs tally us
    using that
  proof (induction vs arbitrary: tally us)
    case (Cons v vs)
    from Cons.IH [OF tally_ok_step [OF Cons.prems]] show ?case by simp
  qed simp
  then have "tally_ok (fold (\<lambda>cl. fold count_codec (c_codecs cl)) cls tally) (us @ concat (map c_codecs cls))"
    if "tally_ok tally us" for tally us
    using that by (induction cls arbitrary: tally us) force+
  from this [of "[]" "[]"] show ?thesis by (simp add: tally_codecs_def tally_ok_def)
qed

lemma most_common_max:
  assumes "\<forall>(v, n) \<in> set tally. 0 < n"
  shows "case most_common tally of
      (m, None) \<Rightarrow> tally = []
    | (m, Some v) \<Rightarrow> (v, m) \<in> set tally \<and> (\<forall>(u, n) \<in> set tally. n \<le> m)"
  using assms
proof (induction tally rule: rev_induct)
  case Nil
  then show ?case by (simp add: most_common_def)
next
  case (snoc x tally)
  obtain v n where x: "x = (v, n)" by fastforce
  obtain m ver where mc: "most_common tally = (m, ver)" by fastforce
  have step: "most_common (tally @ [x]) = (if n > m then (n, Some v) else (m, ver))"
    using mc by (simp add: most_common_def x)
  have IH: "case most_common tally of (m, None) \<Rightarrow> tally = []
    | (m, Some v) \<Rightarrow> (v, m) \<in> set tally \<and> (\<forall>(u, n) \<in> set tally. n \<le> m)"
    using snoc by auto
  have "ver = None \<Longrightarrow> m = 0" using IH mc by (simp add: most_common_def)
  with IH snoc.prems show ?case
    unfolding step mc by (cases ver) (auto simp: x)
qed

definition codec_votes :: "world \<Rightarrow> u32 \<Rightarrow> nat" where
  "codec_votes w v = count_list (concat (map (\<lambda>c. c_codecs (the (w_cstore w c))) (w_clients w))) v"

lemma current_set_codec [simp]: "current_codec (set_codec v w) = v"
  by (simp add: current_codec_def set_codec_def Let_def)

lemma elect_codec_result:
  assumes "clients_ok w" and "codec_votes w u \<noteq> 0"
  shows "\<exists>changed w'. elect_codec w = Inr (changed, w') \<and>
    (\<forall>v. codec_votes w v \<le> codec_votes w (current_codec w')) \<and>
    (changed \<longleftrightarrow> current_codec w' \<noteq> current_codec w)"
proof -
  let ?cls = "map (\<lambda>c. the (w_cstore w c)) (w_clients w)"
  let ?vs = "concat (map c_codecs ?cls)"
  have votes: "codec_votes w v = count_list ?vs v" for v by (simp add: codec_votes_def o_def)
  have get: "get_client c w = Inr (the (w_cstore w c), w)" if "c \<in> set (w_clients w)" for c
    using assms(1) that by (auto simp: clients_ok_def get_client_app)
  have rd: "map_prog get_client (w_clients w) w = Inr (?cls, w)"
    by (rule map_prog_total) (rule get)
  have t: "tally_ok (tally_codecs ?cls) ?vs" by (rule tally_codecs_ok)
  have pos: "\<forall>(v, n) \<in> set (tally_codecs ?cls). 0 < n"
  proof safe
    fix v n assume "(v, n) \<in> set (tally_codecs ?cls)"
    then have "v \<in> set ?vs" "n = count_list ?vs v" using t unfolding tally_ok_def by blast+
    then show "0 < n" by (metis count_list_0_iff gr0I)
  qed
  have "u \<in> set ?vs" using assms(2) unfolding votes by (metis count_list_0_iff)
  then have ne: "tally_codecs ?cls \<noteq> []" using t unfolding tally_ok_def by (metis empty_iff empty_set)
  obtain m ver where mc: "most_common (tally_codecs ?cls) = (m, ver)" by fastforce
  from most_common_max [OF pos] ne obtain v where v: "ver = Some v" "(v, m) \<in> set (tally_codecs ?cls)"
    "\<forall>(u, n) \<in> set (tally_codecs ?cls). n \<le> m"
    unfolding mc by (cases ver) auto
  have best: "codec_votes w u \<le> codec_votes w v" for u
  proof (cases "u \<in> set ?vs")
    case True
    then have "(u, codec_votes w u) \<in> set (tally_codecs ?cls)" using t by (simp add: tally_ok_def votes)
    moreover have "m = codec_votes w v" using t v(2) by (simp add: tally_ok_def votes)
    ultimately show ?thesis using v(3) by auto
  next
    case False
    then show ?thesis unfolding votes by (metis count_list_0_iff le0)
  qed
  have "elect_codec w = (if current_codec w = v then Inr (False, w) else Inr (True, set_codec v w))"
    using rd mc v(1) by (simp add: elect_codec_def bnd_Inr ret_app)
  with best show ?thesis by (cases "current_codec w = v") auto
qed

section \<open>The janitor\<close>

definition timed_out :: "world \<Rightarrow> client \<Rightarrow> bool" where
  "timed_out w cl \<longleftrightarrow> 15000000 < Timer_elapsed (w_now w) (c_lastActivity cl)"

definition refill :: "world \<Rightarrow> client \<Rightarrow> client" where
  "refill w cl = cl\<lparr>c_availableBandwidth :=
     min (w_maxBandwidth w + w_maxBandwidth w sdiv 4) (c_availableBandwidth cl + w_maxBandwidth w)\<rparr>"

lemma Client_free_gone: "Client_free send c w = Inr (r, w') \<Longrightarrow> w_cstore w' c = None"
  by (auto simp: Client_free_def release_client_def bnd_eq_Inr prog_simps split: option.splits if_splits)

lemma janitor_visit_quiet:
  assumes "w_cstore w c = Some cl" and "\<not> timed_out w cl"
  shows "janitor_visit send c w = Inr ((), put_client c (refill w cl) w)"
proof -
  have "(if b < a then b else a) = min b a" for a b :: int by auto
  with assms show ?thesis
    by (auto simp: janitor_visit_def timed_out_def refill_def Timer_isElapsed_def bnd_Inr prog_simps Let_def)
qed

lemma janitor_visit_timeout:
  assumes "w_cstore w c = Some cl" and "timed_out w cl" and "janitor_visit send c w = Inr (r, w')"
  shows "w_cstore w' c = None"
  using assms
  by (auto simp: janitor_visit_def timed_out_def Timer_isElapsed_def Let_def prog_simps bnd_Inr
      dest: Client_free_gone)

lemma janitor_loop:
  assumes "distinct (w_clients w)" and "w_clients w = us @ xs" and "set (w_clients w) = dom (w_cstore w)"
  shows "case each w_clients xs (janitor_visit send) w of
      Inr (_, w') \<Rightarrow> (\<forall>c \<in> set xs. \<not> timed_out w (the (w_cstore w c))) \<and>
        w' = w\<lparr>w_cstore := \<lambda>c. if c \<in> set xs then map_option (refill w) (w_cstore w c) else w_cstore w c\<rparr>
    | Inl _ \<Rightarrow> \<exists>c \<in> set xs. timed_out w (the (w_cstore w c))"
  using assms
proof (induction xs arbitrary: w us)
  case Nil
  then show ?case by (simp add: each_def ret_app)
next
  case (Cons x xs)
  then have "x \<in> dom (w_cstore w)" by (metis in_set_conv_decomp)
  then obtain cl where cl: "w_cstore w x = Some cl" by auto
  have x: "x \<in> set (w_clients w)" using Cons.prems(2) by simp
  have d: "x \<notin> set us" "x \<notin> set xs" "distinct xs" using Cons.prems(1,2) by auto
  have sub: "filter (\<lambda>y. y \<in> set (w_clients w)) xs = xs" "entries_after x (w_clients w) = xs"
    using Cons.prems(2) d by (simp_all add: entries_after_suffix filter_id_conv)
  show ?case
  proof (cases "timed_out w cl")
    case True
    have "each w_clients (x # xs) (janitor_visit send) w \<noteq> Inr r" for r
      using janitor_visit_timeout [OF cl True, of send] x
      by (auto simp: each_def bnd_eq_Inr)
    then show ?thesis using True cl by (auto split: sum.split)
  next
    case False
    let ?w = "put_client x (refill w cl) w"
    have t: "timed_out ?w = timed_out w" "refill ?w = refill w"
      by (simp_all add: timed_out_def refill_def put_client_def fun_eq_iff)
    have k: "each w_clients (x # xs) (janitor_visit send) w = each w_clients xs (janitor_visit send) ?w"
      using janitor_visit_quiet [OF cl False, of send] x sub
      by (simp add: each_def bnd_Inr) (simp add: put_client_def)
    have st: "w_cstore ?w c = w_cstore w c" if "c \<in> set xs" for c
      using that d by (auto simp: put_client_def)
    have upd: "?w\<lparr>w_cstore := \<lambda>c. if c \<in> set xs then map_option (refill w) (w_cstore ?w c) else w_cstore ?w c\<rparr> =
      w\<lparr>w_cstore := \<lambda>c. if c \<in> set (x # xs) then map_option (refill w) (w_cstore w c) else w_cstore w c\<rparr>"
      using cl d by (auto simp: put_client_def fun_eq_iff intro!: world.equality)
    have "distinct (w_clients ?w)" "w_clients ?w = (us @ [x]) @ xs" "set (w_clients ?w) = dom (w_cstore ?w)"
      using Cons.prems cl by (auto simp: put_client_def)
    from Cons.IH [OF this] show ?thesis
      unfolding k t upd [symmetric] using False cl st by (auto split: sum.splits)
  qed
qed

lemma janitor_runs:
  assumes "clients_ok w"
  shows "case Client_janitor send w of
      Inr (_, w') \<Rightarrow> (\<forall>c cl. w_cstore w c = Some cl \<longrightarrow> \<not> timed_out w cl) \<and>
        w' = w\<lparr>w_cstore := \<lambda>c. map_option (refill w) (w_cstore w c)\<rparr>
    | Inl _ \<Rightarrow> \<exists>c cl. w_cstore w c = Some cl \<and> timed_out w cl"
proof -
  have d: "distinct (w_clients w)" "set (w_clients w) = dom (w_cstore w)"
    using assms by (simp_all add: clients_ok_def)
  have "(\<lambda>c. if c \<in> set (w_clients w) then map_option (refill w) (w_cstore w c) else w_cstore w c) =
      (\<lambda>c. map_option (refill w) (w_cstore w c))"
    using d(2) by (auto simp: fun_eq_iff domIff)
  then show ?thesis
    using janitor_loop [OF d(1) _ d(2), of "[]" "w_clients w" send] d(2)
    unfolding Client_janitor_def each_client_def by (force split: sum.splits)
qed

section \<open>Properties\<close>

text \<open>As soon as some client has announced a codec, the election ends with the voice codec that most
  announcements name, and it reports a change exactly when that codec was not in use before.\<close>

theorem elected_codec_is_most_common:
  assumes "inv A w" and "codec_votes w u \<noteq> 0"
  shows "\<exists>changed w'. elect_codec w = Inr (changed, w') \<and>
    (\<forall>v. codec_votes w v \<le> codec_votes w (current_codec w')) \<and>
    (changed \<longleftrightarrow> current_codec w' \<noteq> current_codec w)"
  by (rule elect_codec_result) (use assms in \<open>simp_all add: inv_def\<close>)

theorem elected_codec_is_most_common_witness:
  "\<exists>w'. elect_codec (put_client 10 ((demo_client 1 ''ann'' 0)\<lparr>c_codecs := [0x8000000b]\<rparr>) demo) = Inr (True, w') \<and>
    current_codec w' = 0x8000000b"
proof -
  let ?cl = "(demo_client 1 ''ann'' 0)\<lparr>c_codecs := [0x8000000b]\<rparr>"
  let ?w = "put_client 10 ?cl demo"
  have c: "w_cstore demo 10 = Some (demo_client 1 ''ann'' 0)" by (simp add: demo_def)
  have "client_ok ?cl" using inv_client [OF demo_inv c] by (simp add: client_ok_def)
  from inv_put_client [OF demo_inv c this] have I: "inv {10, 11, 12} ?w" by simp
  have v: "codec_votes ?w v = (if v = 0x8000000b then 1 else 0)" for v
    by (simp add: codec_votes_def demo_def put_client_def) (simp add: demo_client_def zero_client_def)
  have "codec_votes ?w 0x8000000b \<noteq> 0" by (simp add: v)
  from elected_codec_is_most_common [OF I this] obtain ch w' where
    e: "elect_codec ?w = Inr (ch, w')" and m: "\<forall>v. codec_votes ?w v \<le> codec_votes ?w (current_codec w')"
    and ch: "ch \<longleftrightarrow> current_codec w' \<noteq> current_codec ?w" by blast
  have "codec_votes ?w 0x8000000b \<le> codec_votes ?w (current_codec w')" using m by blast
  then have "current_codec w' = 0x8000000b" unfolding v by (simp split: if_splits)
  moreover have "current_codec ?w = 0" by (simp add: current_codec_def demo_def boot_world_def put_client_def)
  ultimately show ?thesis using e ch by simp
qed



end
