(* ===== verification/Voice.thy ===== *)
theory Voice
  imports Clients Pds
begin

text \<open>
  The voice side of client.c: datagrams from the UDP socket are matched to a client,
  decrypted and dispatched; a voice packet from UDP or from the TCP tunnel is relayed to
  the speaker's channel, to a whisper target or back to the speaker, each copy over the
  listener's UDP channel or tunnelled.
\<close>

section \<open>Relaying\<close>

definition Client_send_udp :: "transport \<Rightarrow> cref \<Rightarrow> byte list \<Rightarrow> (world, unit) prog" where
  "Client_send_udp send client data =
     bnd (get_client client) (\<lambda>cl.
     if sin_port (c_remote_udp cl) \<noteq> 0 \<and> CryptState_isValid (c_cryptState cl) \<and> c_bUDP cl then
       bnd (gets (\<lambda>w. x_aes (w_ext w))) (\<lambda>a.
       let (buf, cs) = CryptState_encrypt a data (c_cryptState cl) in block
         [upd_client client (\<lambda>cl. cl\<lparr>c_cryptState := cs\<rparr>),
          emit (UdpOut (c_remote_udp cl) buf)])
     else bnd (Msg_CreateVoiceMsg data) (send client))"

text \<open>
  \<open>strcmp(a, b) == 0\<close> on two blocks of memory; \<open>None\<close> when the comparison runs off the
  end of one of them, which has no terminating zero of its own.
\<close>

fun strcmp_equal :: "byte list \<Rightarrow> byte list \<Rightarrow> bool option" where
  "strcmp_equal (x # xs) (y # ys) =
     (if x \<noteq> y then Some False else if x = 0 then Some True else strcmp_equal xs ys)"
| "strcmp_equal _ _ = None"

definition same_context :: "cref \<Rightarrow> client \<Rightarrow> (world, bool) prog" where
  "same_context src d =
     bnd (get_client src) (\<lambda>s.
     case (c_context s, c_context d) of
       (Some a, Some b) \<Rightarrow> (case strcmp_equal a b of None \<Rightarrow> fail OutOfBounds | Some eq \<Rightarrow> ret eq)
     | _ \<Rightarrow> ret False)"

definition Client_send_voice :: "transport \<Rightarrow> cref \<Rightarrow> byte list \<Rightarrow> nat \<Rightarrow> cref \<Rightarrow> (world, unit) prog" where
  "Client_send_voice send src data poslen dst =
     bnd (get_client dst) (\<lambda>d.
     guarded (c_authenticated d \<and> dst \<noteq> src \<and> \<not> c_deaf d)
       (bnd (if poslen > 0 then same_context src d else ret False) (\<lambda>positional.
        if positional then Client_send_udp send dst data
        else Client_send_udp send dst (take (length data - poslen) data))))"

section \<open>The packet\<close>

lemma skip_frames_shrinks:
  assumes "Pds_next8 p = Inr (counter, p1)" and "counter AND 0x80 \<noteq> 0"
    and "Pds_skip k p1 = Inr (j, p2)" and "offset p < offset p2"
  shows "length (pdata p2) - offset p2 < length (pdata p) - offset p"
  using assms by (auto simp: Pds_next8_def Pds_skip_def split: if_splits)

text \<open>
  The loop over the frames of a packet: a header byte with the frame's length and a
  continuation bit. A cursor that wraps round 32 bits without moving forward would loop
  for ever; a receive buffer is far too short for that.
\<close>

function skip_frames :: "pds \<Rightarrow> fault + unit \<times> pds" where
  "skip_frames p =
     (case Pds_next8 p of
        Inl e \<Rightarrow> Inl e
      | Inr (counter, p1) \<Rightarrow>
     (case Pds_skip (unat (counter AND 0x7f)) p1 of
        Inl e \<Rightarrow> Inl e
      | Inr (k, p2) \<Rightarrow>
          if counter AND 0x80 \<noteq> 0 \<and> k > 0 then
            (if offset p < offset p2 then skip_frames p2 else Inl OutOfFuel)
          else Inr ((), p2)))"
  by pat_completeness auto

termination
  by (relation "measure (\<lambda>p. length (pdata p) - offset p)") (auto dest: skip_frames_shrinks)

declare skip_frames.simps [simp del]

text \<open>\<open>poslen\<close>: what follows the sequence number and the frames, the positional data.\<close>

definition positional_length :: "byte list \<Rightarrow> fault + nat" where
  "positional_length payload =
     (case bnd Pds_get_numval (\<lambda>_. skip_frames) (Pds_create payload (int (length payload))) of
        Inl e \<Rightarrow> Inl e
      | Inr (_, pdi) \<Rightarrow> Inr (maxsize pdi - offset pdi))"

abbreviation UDP_PACKET_SIZE :: nat where
  "UDP_PACKET_SIZE \<equiv> 1024"

text \<open>
  What is relayed after the type byte: the speaker's session, then the payload as it
  came. \<open>Pds_append_data_nosize\<close> writes zeros in place of a payload that does not fit.
\<close>

definition relayed :: "int \<Rightarrow> byte list \<Rightarrow> fault + byte list" where
  "relayed session payload =
     (case bnd (Pds_add_numval (word_of_int session)) (\<lambda>_. Pds_append_data_nosize payload (length payload))
             (Pds_create (replicate (UDP_PACKET_SIZE - 1) 0) (int (UDP_PACKET_SIZE - 1))) of
        Inl e \<Rightarrow> Inl e
      | Inr (_, pds) \<Rightarrow> Inr (take (offset pds) (pdata pds)))"

section \<open>Whispering\<close>

text \<open>One channel of a whisper target, with its links and the channels below it.\<close>

definition whisper_channel ::
  "transport \<Rightarrow> cref \<Rightarrow> byte list \<Rightarrow> nat \<Rightarrow> channeltarget \<Rightarrow> (world, unit) prog" where
  "whisper_channel send client data poslen ct =
     (let speak = (\<lambda>ch. each_chan_client ch (Client_send_voice send client data poslen)) in
     bnd (Chan_fromId (ct_channel ct)) (\<lambda>found.
     case found of
       None \<Rightarrow> ret ()
     | Some ch \<Rightarrow> block
         [speak ch,
          bnd (get_client client) (\<lambda>_.
          guarded (ct_linked ct) (bnd (get_chan ch) (\<lambda>x. for_each (ch_links x) speak))),
          bnd (get_client client) (\<lambda>_.
          guarded (ct_children ct)
            (bnd (gets w_next) (\<lambda>n.
             bnd (Chan_buildTreeList (Suc n) ch) (\<lambda>subs. for_each subs speak))))]))"

text \<open>
  The loop over the slots of the target, which lives in the speaker's structure and is
  looked at again in each round.
\<close>

fun whisper_channels ::
  "transport \<Rightarrow> cref \<Rightarrow> int \<Rightarrow> byte list \<Rightarrow> nat \<Rightarrow> nat list \<Rightarrow> (world, unit) prog" where
  "whisper_channels send client target data poslen [] = ret ()"
| "whisper_channels send client target data poslen (i # is) =
     bnd (Voicetarget_get_id client target) (\<lambda>vt.
     case vt of
       None \<Rightarrow> fail UseAfterFree
     | Some vt \<Rightarrow>
         if ct_channel (vtg_channels vt ! i) = - 1 then ret ()
         else bnd (whisper_channel send client data poslen (vtg_channels vt ! i)) (\<lambda>_.
              whisper_channels send client target data poslen is))"

text \<open>
  The loop over the sessions passes its own uninitialised \<open>c\<close> to \<open>Client_iterate\<close> as the
  place to continue from, in the first round already.
\<close>

definition whisper_sessions :: "cref \<Rightarrow> int \<Rightarrow> (world, unit) prog" where
  "whisper_sessions client target =
     bnd (Voicetarget_get_id client target) (\<lambda>vt.
     case vt of
       None \<Rightarrow> fail UseAfterFree
     | Some vt \<Rightarrow> guarded (vtg_sessions vt ! 0 \<noteq> - 1) (fail Uninitialised))"

section \<open>\<open>Client_voiceMsg\<close>\<close>

text \<open>The three ways a packet goes, once it has been rewritten to \<open>out\<close>.\<close>

definition dispatch_voice ::
  "transport \<Rightarrow> cref \<Rightarrow> chref option \<Rightarrow> byte \<Rightarrow> byte \<Rightarrow> byte list \<Rightarrow> nat \<Rightarrow> (world, unit) prog" where
  "dispatch_voice send client ch type target out poslen =
     (if target = 0x1f then Client_send_udp send client (type # out)
      else if target = 0 then
        (case ch of
           None \<Rightarrow> ret ()
         | Some ch \<Rightarrow> each_chan_client ch (Client_send_voice send client (type # out) poslen))
      else
        bnd (Voicetarget_get_id client (uint target)) (\<lambda>vt.
        guarded (vt \<noteq> None) (block
          [whisper_channels send client (uint target) ((type OR 1) # out) poslen [0..<TARGET_MAX_CHANNELS],
           whisper_sessions client (uint target)])))"

definition charge :: "nat \<Rightarrow> u64 \<Rightarrow> client \<Rightarrow> client" where
  "charge len now cl = cl\<lparr>c_availableBandwidth := c_availableBandwidth cl - int (20 + 8 + 4 + len),
     c_idleTime := snd (Timer_restart now (c_idleTime cl))\<rparr>"

definition Client_voiceMsg :: "transport \<Rightarrow> cref \<Rightarrow> byte list \<Rightarrow> (world, unit) prog" where
  "Client_voiceMsg send client data =
     (case data of
        [] \<Rightarrow> fail OutOfBounds
      | header # payload \<Rightarrow>
          bnd (get_client client) (\<lambda>cl.
          if \<not> c_authenticated cl \<or> c_mute cl then ret ()
          else if c_availableBandwidth cl - int (20 + 8 + 4 + length data) < 0 then ret ()
          else
            bnd (gets w_now) (\<lambda>now.
            bnd (upd_client client (charge (length data) now)) (\<lambda>_.
            case positional_length payload of
              Inl e \<Rightarrow> fail e
            | Inr poslen \<Rightarrow>
           (case relayed (c_sessionId cl) payload of
              Inl e \<Rightarrow> fail e
            | Inr out \<Rightarrow> dispatch_voice send client (c_channel cl) (header AND 0xe0) (header AND 0x1f) out poslen)))))"

section \<open>The UDP socket\<close>

text \<open>The decrypted packet; when there is none, the client is asked to resynchronise now and then.\<close>

definition request_resync :: "transport \<Rightarrow> cref \<Rightarrow> (world, unit) prog" where
  "request_resync send client =
     bnd (get_client client) (\<lambda>cl.
     bnd (gets w_now) (\<lambda>now.
     guarded (Timer_elapsed now (tLastGood (c_cryptState cl)) > 5000000 \<and>
              Timer_elapsed now (tLastRequest (c_cryptState cl)) > 5000000)
       (bnd (upd_client client (\<lambda>cl. cl\<lparr>c_cryptState := (c_cryptState cl)
               \<lparr>tLastRequest := snd (Timer_restart now (tLastRequest (c_cryptState cl)))\<rparr>\<rparr>)) (\<lambda>_.
        bnd (Msg_create CryptSetup) (send client)))))"

definition try_decrypt :: "aes \<Rightarrow> u64 \<Rightarrow> byte list \<Rightarrow> cryptState \<Rightarrow> bool \<times> byte list \<times> cryptState" where
  "try_decrypt a now encrypted cs =
     (if CryptState_isValid cs then CryptState_decrypt a now encrypted cs else (False, [], cs))"

definition checkDecrypt :: "transport \<Rightarrow> cref \<Rightarrow> byte list \<Rightarrow> (world, byte list option) prog" where
  "checkDecrypt send client encrypted =
     bnd (get_client client) (\<lambda>cl.
     bnd (gets (\<lambda>w. try_decrypt (x_aes (w_ext w)) (w_now w) encrypted (c_cryptState cl))) (\<lambda>(ok, plain, cs).
     bnd (upd_client client (\<lambda>cl. cl\<lparr>c_cryptState := cs\<rparr>)) (\<lambda>_.
     if ok then ret (Some plain)
     else bnd (request_resync send client) (\<lambda>_. ret None))))"

definition udp_key :: "sockaddr \<Rightarrow> u64" where
  "udp_key from = push_bit 16 (ucast (sin_addr from)) XOR ucast (sin_port from)"

text \<open>A peer whose address is known but not its port: every client there may be the one.\<close>

definition try_peer :: "transport \<Rightarrow> sockaddr \<Rightarrow> byte list \<Rightarrow> cref \<Rightarrow> (cref \<times> byte list) option \<Rightarrow>
  (world, (cref \<times> byte list) option) prog" where
  "try_peer send from encrypted itr found =
     (case found of
        Some _ \<Rightarrow> ret found
      | None \<Rightarrow>
          bnd (get_client itr) (\<lambda>cl.
          if sin_addr (c_remote_tcp cl) = sin_addr from then
            bnd (checkDecrypt send itr encrypted) (\<lambda>plain.
            case plain of
              None \<Rightarrow> ret None
            | Some buffer \<Rightarrow>
                bnd (upd_client itr (\<lambda>cl. cl\<lparr>c_key := udp_key from, c_remote_udp := from\<rparr>)) (\<lambda>_.
                ret (Some (itr, buffer))))
          else ret None))"

definition find_peer :: "transport \<Rightarrow> sockaddr \<Rightarrow> byte list \<Rightarrow> (world, (cref \<times> byte list) option) prog" where
  "find_peer send from encrypted =
     bnd (gets w_clients) (\<lambda>cs.
     bnd (search get_client (\<lambda>cl. c_key cl = udp_key from) cs) (\<lambda>itr.
     case itr of
       Some itr \<Rightarrow>
         bnd (checkDecrypt send itr encrypted) (\<lambda>plain. ret (map_option (Pair itr) plain))
     | None \<Rightarrow> each_with w_clients cs (try_peer send from encrypted) None))"

text \<open>The answer to a ping: the version, the ping's own timestamp, and three numbers.\<close>

definition be32 :: "int \<Rightarrow> byte list" where
  "be32 x = be_bytes 4 (word_of_int x)"

definition ping_reply :: "byte list \<Rightarrow> (world, byte list) prog" where
  "ping_reply encrypted =
     bnd Client_count (\<lambda>count.
     bnd (getIntConf MAX_CLIENTS) (\<lambda>max_clients.
     bnd (getIntConf MAX_BANDWIDTH) (\<lambda>max_bandwidth.
     ret (be32 (uint PROTOCOL_VERSION) @ drop 4 encrypted @ be32 count @ be32 max_clients @ be32 max_bandwidth))))"

datatype UDPMessageType = UDPVoiceCELTAlpha | UDPPing | UDPVoiceSpeex | UDPVoiceCELTBeta

definition udp_type :: "byte \<Rightarrow> UDPMessageType option" where
  "udp_type b =
     (let t = drop_bit 5 b AND 0x7 in
      if t = 0 then Some UDPVoiceCELTAlpha
      else if t = 1 then Some UDPPing
      else if t = 2 then Some UDPVoiceSpeex
      else if t = 3 then Some UDPVoiceCELTBeta
      else None)"

text \<open>
  \<open>Client_read_udp\<close> for the datagram \<open>recvfrom\<close> delivers; a longer one than the buffer
  is reported with its full length.
\<close>

definition Client_read_udp :: "transport \<Rightarrow> sockaddr \<Rightarrow> byte list \<Rightarrow> (world, unit) prog" where
  "Client_read_udp send from encrypted =
     (if length encrypted < 5 \<or> length encrypted > UDP_PACKET_SIZE then ret ()
      else if length encrypted = 12 \<and> encrypted ! 0 = 0 then
        bnd (ping_reply encrypted) (\<lambda>reply. emit (UdpOut from reply))
      else
        bnd (find_peer send from encrypted) (\<lambda>found.
        case found of
          None \<Rightarrow> ret ()
        | Some (itr, buffer) \<Rightarrow>
            bnd (upd_client itr (\<lambda>cl. cl\<lparr>c_bUDP := True\<rparr>)) (\<lambda>_.
            case udp_type (buffer ! 0) of
              Some UDPPing \<Rightarrow> Client_send_udp send itr buffer
            | Some _ \<Rightarrow> Client_voiceMsg send itr buffer
            | None \<Rightarrow> ret ())))"

section \<open>The invariant\<close>

lemma reads_same_context [reads_intros]: "reads (same_context c d)"
  unfolding same_context_def
  by (intro reads_intros) (auto intro!: reads_intros split: option.split)

lemma reads_ping_reply [reads_intros]: "reads (ping_reply e)"
  unfolding ping_reply_def Client_count_def getIntConf_def by (auto intro!: reads_intros)

lemma reads_buildTree: "reads (Chan_buildTreeList k ch)" "reads (tree_lists k subs)"
proof (induction k ch and k subs rule: Chan_buildTreeList_tree_lists.induct)
  case (2 n ch)
  show ?case unfolding Chan_buildTreeList.simps by (intro reads_intros 2)
next
  case (4 n sub subs)
  show ?case unfolding tree_lists.simps by (intro reads_intros 4)
qed (simp_all add: reads_ret reads_fail)

lemma harmless_voice:
  "harmless (charge n t)" "harmless (\<lambda>cl. cl\<lparr>c_bUDP := b\<rparr>)"
  "harmless (\<lambda>cl. cl\<lparr>c_key := k, c_remote_udp := a\<rparr>)"
  "harmless (\<lambda>cl. cl\<lparr>c_cryptState := (c_cryptState cl)\<lparr>tLastRequest := f cl\<rparr>\<rparr>)"
  by (simp_all add: harmless_def client_ok_def charge_def wf_crypt_def)

lemmas keeps_voice_upd [keeps_intros] = harmless_voice [THEN keeps_upd_client]

context transport
begin

lemma keeps_send_udp: "keeps (inv A) (Client_send_udp send c data)"
proof (rule keepsI)
  fix w r w' assume I: "inv A w" and run: "Client_send_udp send c data w = Inr (r, w')"
  then obtain cl where cl: "w_cstore w c = Some cl"
    by (auto simp: Client_send_udp_def bnd_eq_Inr get_client_app split: option.splits)
  obtain buf cs where e: "CryptState_encrypt (x_aes (w_ext w)) data (c_cryptState cl) = (buf, cs)" by fastforce
  have "wf_crypt cs" using wf_encrypt [OF _ e] inv_client [OF I cl] by (simp add: client_ok_def)
  then have K: "keeps (inv A) (block [upd_client c (\<lambda>cl. cl\<lparr>c_cryptState := cs\<rparr>), emit (UdpOut (c_remote_udp cl) buf)])"
    by (intro keeps_intros keeps_upd_client harmless_crypt)
  have T: "keeps (inv A) (bnd (Msg_CreateVoiceMsg data) (send c))"
    by (intro keeps_intros send_keeps)
  from run cl e consider
      "block [upd_client c (\<lambda>cl. cl\<lparr>c_cryptState := cs\<rparr>), emit (UdpOut (c_remote_udp cl) buf)] w = Inr (r, w')"
    | "bnd (Msg_CreateVoiceMsg data) (send c) w = Inr (r, w')"
    by (auto simp: Client_send_udp_def bnd_Inr get_client_app split: if_splits)
  then show "inv A w'" using keepsD [OF K _ I] keepsD [OF T _ I] by cases
qed

lemma keeps_send_voice: "keeps (inv A) (Client_send_voice send src data poslen dst)"
  unfolding Client_send_voice_def
  by (intro keeps_intros keeps_send_udp reads_keeps [OF reads_same_context])

lemma keeps_whisper_channel: "keeps (inv A) (whisper_channel send c data poslen ct)"
  unfolding whisper_channel_def Let_def
  by (intro keeps_intros keeps_send_voice reads_keeps [OF reads_buildTree(1)])

lemma keeps_whisper_channels: "keeps (inv A) (whisper_channels send c target data poslen is)"
  by (induction "is") (auto intro!: keeps_intros keeps_whisper_channel)

lemma keeps_dispatch: "keeps (inv A) (dispatch_voice send c ch type target out poslen)"
  unfolding dispatch_voice_def whisper_sessions_def
  by (intro keeps_intros keeps_send_udp keeps_send_voice keeps_whisper_channels)

lemma keeps_voiceMsg: "keeps (inv A) (Client_voiceMsg send c data)"
  unfolding Client_voiceMsg_def
  by (auto split: list.split sum.split intro!: keeps_intros keeps_dispatch)

lemma keeps_request_resync: "keeps (inv A) (request_resync send c)"
  unfolding request_resync_def by (intro keeps_intros send_keeps)

lemma keeps_checkDecrypt: "keeps (inv A) (checkDecrypt send c packet)"
proof (rule keepsI)
  fix w r w' assume I: "inv A w" and run: "checkDecrypt send c packet w = Inr (r, w')"
  from run obtain cl ok plain cs u w1 where cl: "w_cstore w c = Some cl"
    and d: "try_decrypt (x_aes (w_ext w)) (w_now w) packet (c_cryptState cl) = (ok, plain, cs)"
    and u: "upd_client c (\<lambda>cl. cl\<lparr>c_cryptState := cs\<rparr>) w = Inr (u, w1)"
    and k: "(if ok then ret (Some plain) else bnd (request_resync send c) (\<lambda>_. ret None)) w1 = Inr (r, w')"
    by (auto simp: checkDecrypt_def bnd_eq_Inr get_client_app split: option.splits prod.splits)
  have "wf_crypt cs"
    using d inv_client [OF I cl] by (auto simp: try_decrypt_def client_ok_def dest: wf_decrypt split: if_splits)
  from keepsD [OF keeps_upd_client [OF harmless_crypt [OF this]] u I] have I1: "inv A w1" .
  have K: "keeps (inv A) (if ok then ret (Some plain) else bnd (request_resync send c) (\<lambda>_. ret None))"
    by (intro keeps_intros keeps_request_resync)
  show "inv A w'" by (rule keepsD [OF K k I1])
qed

lemma keeps_try_peer: "keeps (inv A) (try_peer send from packet c found)"
  unfolding try_peer_def by (intro keeps_intros keeps_checkDecrypt)

lemma keeps_read_udp: "keeps (inv A) (Client_read_udp send from packet)"
proof -
  have "keeps (inv A) (find_peer send from packet)"
    unfolding find_peer_def by (intro keeps_intros keeps_checkDecrypt keeps_try_peer)
  then show ?thesis
    unfolding Client_read_udp_def
    by (auto split: option.split UDPMessageType.split
        intro!: keeps_intros keeps_voiceMsg keeps_send_udp reads_keeps [OF reads_ping_reply])
qed

end

end
