(* ===== verification/Login.thy ===== *)
theory Login
  imports Clients
begin

text \<open>
  The Authenticate message of messagehandler.c: the checks a user has to pass, and what a
  user that passes them is sent and made part of.
\<close>

section \<open>Refusals\<close>

abbreviation MAX_TEXT :: nat where
  "MAX_TEXT \<equiv> 512"

abbreviation MAX_USERNAME :: nat where
  "MAX_USERNAME \<equiv> 128"

definition sendServerReject :: "transport \<Rightarrow> cref \<Rightarrow> string \<Rightarrow> rejectType \<Rightarrow> (world, unit) prog" where
  "sendServerReject send client reason type =
     bnd (compose (P_Reject \<lparr>rej_has_type = True, rej_type = type, rej_reason = Some reason\<rparr>)) (send client)"

definition sendPermissionDenied :: "transport \<Rightarrow> cref \<Rightarrow> string \<Rightarrow> (world, unit) prog" where
  "sendPermissionDenied send client reason =
     bnd (compose (P_PermissionDenied (init_PermissionDenied
       \<lparr>deny_has_type := True, deny_type := DenyText, deny_reason := Some reason\<rparr>))) (send client)"

text \<open>\<open>strncmp(a, b, n) == 0\<close> on strings, which hold no zero byte.\<close>

definition strncmp_equal :: "nat \<Rightarrow> string \<Rightarrow> string \<Rightarrow> bool" where
  "strncmp_equal n a b \<longleftrightarrow> take n a = take n b"

definition has_name :: "string \<Rightarrow> client \<Rightarrow> bool" where
  "has_name name cl \<longleftrightarrow> c_authenticated cl \<and>
     (case c_username cl of None \<Rightarrow> False | Some u \<Rightarrow> strncmp_equal MAX_USERNAME u name)"

definition wrong_password :: "string \<Rightarrow> string option \<Rightarrow> bool" where
  "wrong_password pass given \<longleftrightarrow> pass \<noteq> [] \<and>
     (case given of None \<Rightarrow> True | Some p \<Rightarrow> \<not> strncmp_equal MAX_TEXT pass p)"

text \<open>\<open>%d\<close>.\<close>

definition decimal_int :: "int \<Rightarrow> string" where
  "decimal_int i = (if i < 0 then CHR ''-'' # decimal (nat (- i)) else decimal (nat i))"

text \<open>The checks in their order; the reason and the type of the refusal, if there is one.\<close>

definition login_refusal :: "mp_Authenticate \<Rightarrow> string \<Rightarrow> (world, (string \<times> rejectType) option) prog" where
  "login_refusal a name =
     bnd (gets w_clients) (\<lambda>cs.
     bnd (search get_client (has_name name) cs) (\<lambda>taken.
     if taken \<noteq> None then ret (Some (''Username already in use'', UsernameInUse))
     else
       bnd (getStrConf PASSPHRASE) (\<lambda>pass.
       bnd (deref pass) (\<lambda>pass.
       if wrong_password pass (auth_password a) then ret (Some (''Wrong server password'', WrongServerPW))
       else if length name = 0 \<or> length name \<ge> MAX_USERNAME then ret (Some (''Invalid username'', InvalidUsername))
       else
         bnd Client_count (\<lambda>count.
         bnd (getIntConf MAX_CLIENTS) (\<lambda>max.
         if count \<ge> max
         then ret (Some (''Server is full (max '' @ decimal_int max @ '' users)'', ServerFull))
         else ret None))))))"

section \<open>Welcome\<close>

text \<open>Fresh keys; the \<open>n\<close>-th call gets the \<open>n\<close>-th random bytes.\<close>

definition setup_crypt :: "cref \<Rightarrow> (world, unit) prog" where
  "setup_crypt client =
     bnd (gets (\<lambda>w. (w_now w, rand_key (w_ext w) (w_keys w)))) (\<lambda>(now, rnd). block
       [modify (\<lambda>w. w\<lparr>w_keys := Suc (w_keys w)\<rparr>),
        upd_client client (\<lambda>cl. cl\<lparr>c_cryptState := CryptState_genKey rnd (CryptState_init now (c_cryptState cl))\<rparr>)])"

definition send_crypt :: "transport \<Rightarrow> cref \<Rightarrow> (world, unit) prog" where
  "send_crypt send client =
     bnd (get_client client) (\<lambda>cl.
     bnd (compose (P_CryptSetup
       \<lparr>crs_has_key = True, crs_key = raw_key (c_cryptState cl),
        crs_has_client_nonce = True, crs_client_nonce = decrypt_iv (c_cryptState cl),
        crs_has_server_nonce = True, crs_server_nonce = encrypt_iv (c_cryptState cl)\<rparr>)) (send client))"

definition announce_codecs :: "cref \<Rightarrow> u32 list \<Rightarrow> (world, unit) prog" where
  "announce_codecs client celt_versions =
     (if celt_versions \<noteq> [] then block
        [upd_client client (\<lambda>cl. cl\<lparr>c_codec_count := length celt_versions\<rparr>),
         for_each celt_versions (Client_codec_add client)]
      else block
        [Client_codec_add client 0x8000000a,
         upd_client client (\<lambda>cl. cl\<lparr>c_codec_count := 1\<rparr>)])"

definition channel_state :: "channel \<Rightarrow> int option \<Rightarrow> mp_ChannelState" where
  "channel_state x parent = init_ChannelState
     \<lparr>cst_has_channel_id := True, cst_channel_id := u32_of_int (ch_id x),
      cst_has_parent := (parent \<noteq> None),
      cst_parent := (case parent of None \<Rightarrow> 0 | Some p \<Rightarrow> u32_of_int p),
      cst_name := Some (ch_name x), cst_description := ch_desc x\<rparr>"

definition send_channel :: "transport \<Rightarrow> cref \<Rightarrow> chref \<Rightarrow> (world, unit) prog" where
  "send_channel send client ch =
     bnd (get_chan ch) (\<lambda>x.
     bnd (if ch_id x \<noteq> 0 then bnd (deref (ch_parent x)) (\<lambda>p. bnd (get_chan p) (\<lambda>y. ret (Some (ch_id y))))
          else ret None) (\<lambda>parent.
     bnd (compose (P_ChannelState (channel_state x parent))) (send client)))"

text \<open>The array has \<open>linkcount\<close> places, the list of links fills it.\<close>

definition send_links :: "transport \<Rightarrow> cref \<Rightarrow> chref \<Rightarrow> (world, unit) prog" where
  "send_links send client ch =
     bnd (get_chan ch) (\<lambda>x.
     guarded (ch_linkcount x > 0)
       (bnd (map_prog get_chan (ch_links x)) (\<lambda>links.
        if length links \<noteq> ch_linkcount x then fail OutOfBounds
        else bnd (compose (P_ChannelState (init_ChannelState
          \<lparr>cst_has_channel_id := True, cst_channel_id := u32_of_int (ch_id x),
           cst_links := map (\<lambda>y. u32_of_int (ch_id y)) links\<rparr>))) (send client))))"

definition user_state :: "client \<Rightarrow> string \<Rightarrow> channel \<Rightarrow> mp_UserState" where
  "user_state cl name x = init_UserState
     \<lparr>ust_has_session := True, ust_session := u32_of_int (c_sessionId cl), ust_name := Some name,
      ust_has_channel_id := True, ust_channel_id := u32_of_int (ch_id x)\<rparr>"

definition user_flags :: "client \<Rightarrow> mp_UserState \<Rightarrow> mp_UserState" where
  "user_flags cl u = u
     \<lparr>ust_has_self_deaf := c_deaf cl, ust_self_deaf := c_deaf cl,
      ust_has_self_mute := c_mute cl, ust_self_mute := c_mute cl,
      ust_has_recording := c_recording cl, ust_recording := c_recording cl\<rparr>"

text \<open>\<open>strdup(client->username)\<close> and \<open>client->channel->id\<close> need a user with both.\<close>

definition read_user :: "cref \<Rightarrow> (world, client \<times> mp_UserState) prog" where
  "read_user c =
     bnd (get_client c) (\<lambda>cl.
     bnd (deref (c_username cl)) (\<lambda>name.
     bnd (deref (c_channel cl)) (\<lambda>ch.
     bnd (get_chan ch) (\<lambda>x. ret (cl, user_state cl name x)))))"

definition announce_user :: "transport \<Rightarrow> cref \<Rightarrow> (world, unit) prog" where
  "announce_user send client =
     bnd (read_user client) (\<lambda>(cl, u).
     bnd (compose (P_UserState u)) (Client_send_message_except send (Some client)))"

definition send_user :: "transport \<Rightarrow> cref \<Rightarrow> cref \<Rightarrow> (world, unit) prog" where
  "send_user send client c =
     bnd (get_client c) (\<lambda>cl.
     guarded (c_authenticated cl)
       (bnd (read_user c) (\<lambda>(cl, u).
        bnd (compose (P_UserState (user_flags cl u))) (send client))))"

definition send_sync :: "transport \<Rightarrow> cref \<Rightarrow> (world, unit) prog" where
  "send_sync send client =
     bnd (get_client client) (\<lambda>cl.
     bnd (getStrConf WELCOMETEXT) (\<lambda>txt.
     bnd (deref txt) (\<lambda>txt.
     bnd (getIntConf MAX_BANDWIDTH) (\<lambda>bw.
     bnd (compose (P_ServerSync (init_ServerSync
       \<lparr>sync_has_session := True, sync_session := u32_of_int (c_sessionId cl),
        sync_welcome_text := Some txt,
        sync_has_max_bandwidth := True, sync_max_bandwidth := u32_of_int bw\<rparr>))) (send client)))))"

definition send_config :: "transport \<Rightarrow> cref \<Rightarrow> (world, unit) prog" where
  "send_config send client =
     bnd (compose (P_ServerConfig (init_ServerConfig
       \<lparr>scfg_has_allow_html := True, scfg_allow_html := True,
        scfg_has_message_length := True, scfg_message_length := of_nat MAX_TEXT,
        scfg_has_image_message_length := True, scfg_image_message_length := 0\<rparr>))) (send client)"

definition join_default :: "cref \<Rightarrow> (world, unit) prog" where
  "join_default client =
     bnd (gets w_defaultChan) (\<lambda>d.
     bnd (deref d) (\<lambda>ch.
     bnd (Chan_userJoin ch client) (\<lambda>_. ret ())))"

definition admit :: "transport \<Rightarrow> cref \<Rightarrow> mp_Authenticate \<Rightarrow> string \<Rightarrow> (world, unit) prog" where
  "admit send client a name = block
     [upd_client client (\<lambda>cl. cl\<lparr>c_username := Some name\<rparr>),
      setup_crypt client,
      send_crypt send client,
      join_default client,
      announce_codecs client (auth_celt_versions a),
      recheckCodecVersions send,
      bnd codec_message (send client),
      bnd (gets w_channels) (\<lambda>chs. each_chan chs (send_channel send client)),
      bnd (gets w_channels) (\<lambda>chs. each_chan chs (send_links send client)),
      announce_user send client,
      each_client (send_user send client),
      send_sync send client,
      send_config send client]"

text \<open>The result is whether the handler leaves through \<open>disconnect\<close>.\<close>

definition handle_Authenticate :: "transport \<Rightarrow> cref \<Rightarrow> mp_Authenticate \<Rightarrow> (world, bool) prog" where
  "handle_Authenticate send client a =
     bnd (get_client client) (\<lambda>cl.
     case auth_username a of
       None \<Rightarrow> ret False
     | Some name \<Rightarrow>
         if c_authenticated cl then ret False
         else
           bnd (upd_client client (\<lambda>cl. cl\<lparr>c_authenticated := True\<rparr>)) (\<lambda>_.
           bnd (login_refusal a name) (\<lambda>refusal.
           case refusal of
             Some (reason, type) \<Rightarrow> bnd (sendServerReject send client reason type) (\<lambda>_. ret True)
           | None \<Rightarrow> bnd (admit send client a name) (\<lambda>_. ret False))))"

section \<open>The invariant\<close>

lemma reads_login_refusal [reads_intros]: "reads (login_refusal a name)"
  unfolding login_refusal_def Client_count_def getIntConf_def getStrConf_def
  by (auto intro!: reads_intros)

lemma reads_read_user [reads_intros]: "reads (read_user c)"
  unfolding read_user_def by (intro reads_intros)

lemma harmless_login:
  "harmless (\<lambda>cl. cl\<lparr>c_username := u\<rparr>)" "harmless (\<lambda>cl. cl\<lparr>c_codec_count := n\<rparr>)"
  "harmless (\<lambda>cl. cl\<lparr>c_authenticated := True\<rparr>)"
  by (simp_all add: harmless_def client_ok_def)

lemmas keeps_login_upd [keeps_intros] = harmless_login [THEN keeps_upd_client]

lemma keeps_setup_crypt [keeps_intros]: "keeps (inv A) (setup_crypt c)"
proof (rule keepsI)
  fix w r w' assume I: "inv A w" and run: "setup_crypt c w = Inr (r, w')"
  obtain k e d where rnd: "rand_key (w_ext w) (w_keys w) = (k, e, d)" by (metis surj_pair)
  have "ext_ok (w_ext w)" using I by (simp add: inv_def)
  then have len: "length k = 16" "length e = 16" "length d = 16"
    using rnd unfolding ext_ok_def by (auto dest!: spec [of _ "w_keys w"])
  have "harmless (\<lambda>cl. cl\<lparr>c_cryptState := CryptState_genKey (k, e, d) (CryptState_init now (c_cryptState cl))\<rparr>)" for now
    using len by (simp add: harmless_def client_ok_def wf_genKey wf_init)
  then have K: "keeps (inv A) (block [modify (\<lambda>w. w\<lparr>w_keys := Suc (w_keys w)\<rparr>),
      upd_client c (\<lambda>cl. cl\<lparr>c_cryptState := CryptState_genKey (k, e, d) (CryptState_init (w_now w) (c_cryptState cl))\<rparr>)])"
    by (intro keeps_intros keeps_upd_client keeps_inv_modify) (simp_all add: core_def)
  from run rnd have "block [modify (\<lambda>w. w\<lparr>w_keys := Suc (w_keys w)\<rparr>),
      upd_client c (\<lambda>cl. cl\<lparr>c_cryptState := CryptState_genKey (k, e, d) (CryptState_init (w_now w) (c_cryptState cl))\<rparr>)] w =
      Inr (r, w')"
    by (simp add: setup_crypt_def)
  from keepsD [OF K this I] show "inv A w'" .
qed

lemma keeps_join_default: "c \<in> A \<Longrightarrow> keeps (inv A) (join_default c)"
  unfolding join_default_def by (intro keeps_intros keeps_Chan_userJoin)

lemma keeps_announce_codecs [keeps_intros]: "keeps (inv A) (announce_codecs c vs)"
  unfolding announce_codecs_def by (intro keeps_intros)

context transport
begin

lemma keeps_reject: "keeps (inv A) (sendServerReject send c reason t)"
  unfolding sendServerReject_def by (intro keeps_intros send_keeps)

lemma keeps_denied: "keeps (inv A) (sendPermissionDenied send c reason)"
  unfolding sendPermissionDenied_def by (intro keeps_intros send_keeps)

lemma keeps_send_channel: "keeps (inv A) (send_channel send c ch)"
  unfolding send_channel_def by (intro keeps_intros send_keeps)

lemma keeps_send_links: "keeps (inv A) (send_links send c ch)"
  unfolding send_links_def by (intro keeps_intros send_keeps reads_keeps [OF reads_map_prog] reads_get)

lemma keeps_user_messages: "keeps (inv A) (announce_user send c)" "keeps (inv A) (send_user send c d)"
  unfolding announce_user_def send_user_def split_def
  by (intro keeps_intros send_keeps keeps_except reads_keeps [OF reads_read_user])+

lemma keeps_sync: "keeps (inv A) (send_sync send c)" "keeps (inv A) (send_config send c)"
  unfolding send_sync_def send_config_def getStrConf_def getIntConf_def
  by (auto intro!: keeps_intros send_keeps)

lemma keeps_admit: "c \<in> A \<Longrightarrow> keeps (inv A) (admit send c a name)"
  unfolding admit_def send_crypt_def
  by (intro keeps_intros send_keeps keeps_join_default keeps_recheck keeps_send_channel keeps_send_links
      keeps_user_messages keeps_sync)

lemma keeps_Authenticate: "keeps (inv A) (handle_Authenticate send c a)"
proof (rule keepsI)
  fix w r w' assume I: "inv A w" and run: "handle_Authenticate send c a w = Inr (r, w')"
  then obtain cl where cl: "w_cstore w c = Some cl"
    by (auto simp: handle_Authenticate_def get_client_app bnd_eq_Inr split: option.splits)
  show "inv A w'"
  proof (cases "auth_username a = None \<or> c_authenticated cl")
    case True
    with run cl I show ?thesis
      by (auto simp: handle_Authenticate_def get_client_app bnd_Inr ret_app split: option.splits)
  next
    case False
    then obtain name where name: "auth_username a = Some name" by auto
    let ?cl = "cl\<lparr>c_authenticated := True\<rparr>"
    let ?m = "bnd (login_refusal a name) (\<lambda>refusal.
           case refusal of
             Some (reason, type) \<Rightarrow> bnd (sendServerReject send c reason type) (\<lambda>_. ret True)
           | None \<Rightarrow> bnd (admit send c a name) (\<lambda>_. ret False))"
    have w1: "inv A (put_client c ?cl w)"
      using inv_client [OF I cl] by (intro inv_put_client [OF I cl]) (auto simp: client_ok_def)
    from False run cl name have m: "?m (put_client c ?cl w) = Inr (r, w')"
      by (simp add: handle_Authenticate_def bnd_Inr prog_simps)
    have "keeps (inv (insert c A)) ?m"
      unfolding split_def
      by (intro keeps_intros keeps_reject keeps_admit reads_keeps [OF reads_login_refusal]) simp
    with m show ?thesis
      using inv_run_auth [OF w1, of c ?cl] by (simp add: put_client_def)
  qed
qed

end

end
