(* ===== verification/Handler.thy ===== *)
theory Handler
  imports Voice Login
begin

text \<open>
  \<open>Mh_handle_message\<close>: one definition per case of its switch, and the switch with the
  guard for users that have not authenticated. The pending message is \<open>msg\<close>; its payload,
  which no one else can change before it is sent on, is passed to the cases as a value.
\<close>

definition PERM_DEFAULT :: u32 where
  "PERM_DEFAULT = 0x2 OR 0x4 OR 0x8 OR 0x100 OR 0x200 OR 0x400"

section \<open>Ping and CryptSetup\<close>

definition ping_crypt :: "mp_Ping \<Rightarrow> cryptState \<Rightarrow> cryptState" where
  "ping_crypt p cs = cs
     \<lparr>uiRemoteGood := (if ping_has_good p then ping_good p else uiRemoteGood cs),
      uiRemoteLate := (if ping_has_late p then ping_late p else uiRemoteLate cs),
      uiRemoteLost := (if ping_has_lost p then ping_lost p else uiRemoteLost cs),
      uiRemoteResync := (if ping_has_resync p then ping_resync p else uiRemoteResync cs)\<rparr>"

definition ping_client :: "mp_Ping \<Rightarrow> client \<Rightarrow> client" where
  "ping_client p cl = cl
     \<lparr>c_cryptState := ping_crypt p (c_cryptState cl),
      c_UDPPingAvg := ping_udp_ping_avg p, c_UDPPingVar := ping_udp_ping_var p,
      c_TCPPingAvg := ping_tcp_ping_avg p, c_TCPPingVar := ping_tcp_ping_var p,
      c_UDPPackets := ping_udp_packets p, c_TCPPackets := ping_tcp_packets p\<rparr>"

definition ping_answer :: "mp_Ping \<Rightarrow> cryptState \<Rightarrow> mp_Ping" where
  "ping_answer p cs = init_Ping
     \<lparr>ping_has_timestamp := True, ping_timestamp := ping_timestamp p,
      ping_has_good := True, ping_good := uiGood cs,
      ping_has_late := True, ping_late := uiLate cs,
      ping_has_lost := True, ping_lost := uiLost cs,
      ping_has_resync := True, ping_resync := uiResync cs\<rparr>"

definition handle_Ping :: "transport \<Rightarrow> cref \<Rightarrow> mp_Ping \<Rightarrow> (world, unit) prog" where
  "handle_Ping send client p =
     bnd (upd_client client (ping_client p)) (\<lambda>_.
     bnd (get_client client) (\<lambda>cl.
     bnd (compose (P_Ping (ping_answer p (c_cryptState cl)))) (send client)))"

text \<open>The nonce is copied without a look at how long the one received is.\<close>

definition handle_CryptSetup :: "transport \<Rightarrow> cref \<Rightarrow> mp_CryptSetup \<Rightarrow> (world, unit) prog" where
  "handle_CryptSetup send client p =
     (if \<not> crs_has_client_nonce p then
        bnd (get_client client) (\<lambda>cl.
        bnd (compose (P_CryptSetup (init_CryptSetup
          \<lparr>crs_has_server_nonce := True, crs_server_nonce := decrypt_iv (c_cryptState cl)\<rparr>))) (send client))
      else if length (crs_client_nonce p) < 16 then fail OutOfBounds
      else upd_client client (\<lambda>cl. cl\<lparr>c_cryptState := (c_cryptState cl)
             \<lparr>decrypt_iv := take 16 (crs_client_nonce p), uiResync := uiResync (c_cryptState cl) + 1\<rparr>\<rparr>))"

section \<open>UserState\<close>

text \<open>The flags a user may set on itself, and the message with the consequences filled in.\<close>

definition apply_mute :: "mp_UserState \<Rightarrow> client \<Rightarrow> client" where
  "apply_mute u cl =
     (let cl1 = (if ust_has_self_deaf u then cl\<lparr>c_deaf := ust_self_deaf u\<rparr> else cl) in
      if ust_has_self_mute u then
        (let cl2 = cl1\<lparr>c_mute := ust_self_mute u\<rparr> in if \<not> c_mute cl2 then cl2\<lparr>c_deaf := False\<rparr> else cl2)
      else cl1)"

definition complete_state :: "client \<Rightarrow> mp_UserState \<Rightarrow> mp_UserState" where
  "complete_state cl u =
     (let u1 = u\<lparr>ust_has_session := True, ust_session := u32_of_int (c_sessionId cl),
                 ust_has_actor := True, ust_actor := u32_of_int (c_sessionId cl)\<rparr> in
      if ust_has_self_mute u \<and> \<not> ust_self_mute u
      then u1\<lparr>ust_has_self_deaf := True, ust_self_deaf := False\<rparr> else u1)"

definition announce_recording :: "transport \<Rightarrow> cref \<Rightarrow> bool \<Rightarrow> (world, unit) prog" where
  "announce_recording send client recording =
     bnd (upd_client client (\<lambda>cl. cl\<lparr>c_recording := recording\<rparr>)) (\<lambda>_.
     bnd (get_client client) (\<lambda>cl.
     bnd (deref (c_username cl)) (\<lambda>name.
     bnd (compose (P_TextMessage (init_TextMessage
       \<lparr>txt_tree_id := [0],
        txt_message := Some (''User '' @ name @
          (if recording then '' started recording'' else '' stopped recording''))\<rparr>))) (\<lambda>m.
     Client_send_message_except_ver send None m (NOT 0x010203)))))"

definition set_context :: "cref \<Rightarrow> byte list \<Rightarrow> (world, unit) prog" where
  "set_context client ctx = upd_client client (\<lambda>cl. cl\<lparr>c_context := Some ctx\<rparr>)"

text \<open>
  What follows the recording flag: the channel, the plugin context and the broadcast. The
  result of joining is pending as the message \<open>remove\<close> until the state has been sent.
\<close>

definition finish_state :: "transport \<Rightarrow> cref \<Rightarrow> mref \<Rightarrow> mp_UserState \<Rightarrow> mref option \<Rightarrow> (world, unit) prog" where
  "finish_state send client msg u remove =
     (if ust_has_plugin_context u then set_context client (ust_plugin_context u)
      else block
        [set_payload msg (\<lambda>_. P_UserState u),
         Msg_inc_ref msg,
         Client_send_message_except send None msg,
         (case remove of None \<Rightarrow> ret () | Some m \<Rightarrow> Client_send_message_except send None m)])"

definition channel_removed :: "int \<Rightarrow> (world, mref option) prog" where
  "channel_removed leave_id =
     (if leave_id > 0 then
        bnd (compose (P_ChannelRemove \<lparr>crem_channel_id = u32_of_int leave_id\<rparr>)) (\<lambda>m. ret (Some m))
      else ret None)"

definition move_user :: "transport \<Rightarrow> cref \<Rightarrow> mref \<Rightarrow> mp_UserState \<Rightarrow> (world, unit) prog" where
  "move_user send client msg u =
     (if ust_has_channel_id u then
        bnd (Chan_userJoin_id_test (int_of_u32 (ust_channel_id u))) (\<lambda>may_enter.
        guarded may_enter
          (bnd (Chan_userJoin_id (int_of_u32 (ust_channel_id u)) client) (\<lambda>leave_id.
           bnd (channel_removed leave_id) (finish_state send client msg u))))
      else finish_state send client msg u None)"

definition handle_UserState :: "transport \<Rightarrow> cref \<Rightarrow> mref \<Rightarrow> mp_UserState \<Rightarrow> (world, unit) prog" where
  "handle_UserState send client msg u =
     bnd (get_client client) (\<lambda>cl.
     if ust_has_session u \<and> ust_session u \<noteq> u32_of_int (c_sessionId cl)
     then sendPermissionDenied send client ''Permission denied''
     else if ust_has_user_id u \<or> ust_has_mute u \<or> ust_has_deaf u \<or> ust_has_suppress u \<or> ust_has_texture u
     then sendPermissionDenied send client ''Not supported by uMurmur''
     else block
       [upd_client client (apply_mute u),
        guarded (ust_has_recording u \<and> ust_recording u \<noteq> c_recording cl)
          (announce_recording send client (ust_recording u)),
        move_user send client msg (complete_state cl u)])"

section \<open>TextMessage\<close>

text \<open>Each further copy takes a reference of its own.\<close>

definition forward_to :: "transport \<Rightarrow> mref \<Rightarrow> cref \<Rightarrow> (world, unit) prog" where
  "forward_to send msg c =
     bnd (get_client c) (\<lambda>cl. guarded (\<not> c_deaf cl) (block [Msg_inc_ref msg, send c msg]))"

definition text_to_channel :: "transport \<Rightarrow> cref \<Rightarrow> mref \<Rightarrow> u32 \<Rightarrow> (world, unit) prog" where
  "text_to_channel send client msg i =
     bnd (find_chan (\<lambda>x. u32_of_int (ch_id x) = i)) (\<lambda>found.
     case found of
       None \<Rightarrow> ret ()
     | Some ch \<Rightarrow> each_chan_client ch (\<lambda>c. guarded (c \<noteq> client) (forward_to send msg c)))"

definition find_session :: "u32 \<Rightarrow> (world, cref option) prog" where
  "find_session s =
     bnd (gets w_clients) (search get_client (\<lambda>cl. c_authenticated cl \<and> u32_of_int (c_sessionId cl) = s))"

definition text_to_session :: "transport \<Rightarrow> mref \<Rightarrow> u32 \<Rightarrow> (world, unit) prog" where
  "text_to_session send msg s =
     bnd (find_session s) (\<lambda>found.
     case found of None \<Rightarrow> ret () | Some c \<Rightarrow> forward_to send msg c)"

definition handle_TextMessage :: "transport \<Rightarrow> cref \<Rightarrow> mref \<Rightarrow> mp_TextMessage \<Rightarrow> (world, unit) prog" where
  "handle_TextMessage send client msg t =
     bnd (get_client client) (\<lambda>cl. block
       [set_payload msg (\<lambda>_. P_TextMessage (t\<lparr>txt_has_actor := True, txt_actor := u32_of_int (c_sessionId cl)\<rparr>)),
        if txt_tree_id t \<noteq> [] then sendPermissionDenied send client ''Tree message not supported''
        else block
          [for_each (txt_channel_id t) (text_to_channel send client msg),
           for_each (txt_session t) (text_to_session send msg)]])"

section \<open>VoiceTarget, Version, PermissionQuery, UDPTunnel\<close>

definition add_target :: "cref \<Rightarrow> int \<Rightarrow> mp_VoiceTarget__Target \<Rightarrow> (world, unit) prog" where
  "add_target client targetId target = block
     [add_sessions client targetId (map int_of_u32 (vtt_session target)),
      guarded (vtt_has_channel_id target)
        (Voicetarget_add_channel client targetId (int_of_u32 (vtt_channel_id target))
          (vtt_has_links target \<and> vtt_links target)
          (vtt_has_children target \<and> vtt_children target))]"

definition handle_VoiceTarget :: "cref \<Rightarrow> mp_VoiceTarget \<Rightarrow> (world, unit) prog" where
  "handle_VoiceTarget client v =
     (let targetId = int_of_u32 (vt_id v) in
      if targetId = 0 \<or> targetId \<ge> 0x1f then ret ()
      else block
        [Voicetarget_add_id client targetId,
         for_each (vt_targets v) (add_target client targetId)])"

definition version_client :: "mp_Version \<Rightarrow> client \<Rightarrow> client" where
  "version_client v cl = cl
     \<lparr>c_version := (if ver_has_version v then ver_version v else c_version cl),
      c_release := (if ver_release v \<noteq> None then ver_release v else c_release cl),
      c_os := (if ver_os v \<noteq> None then ver_os v else c_os cl),
      c_os_version := (if ver_os_version v \<noteq> None then ver_os_version v else c_os_version cl)\<rparr>"

definition handle_Version :: "cref \<Rightarrow> mp_Version \<Rightarrow> (world, unit) prog" where
  "handle_Version client v = upd_client client (version_client v)"

definition handle_PermissionQuery :: "transport \<Rightarrow> cref \<Rightarrow> mref \<Rightarrow> mp_PermissionQuery \<Rightarrow> (world, unit) prog" where
  "handle_PermissionQuery send client msg q = block
     [Msg_inc_ref msg,
      set_payload msg (\<lambda>_. P_PermissionQuery (q\<lparr>pq_has_permissions := True, pq_permissions := PERM_DEFAULT\<rparr>)),
      send client msg]"

definition handle_UDPTunnel :: "transport \<Rightarrow> cref \<Rightarrow> mp_UDPTunnel \<Rightarrow> (world, unit) prog" where
  "handle_UDPTunnel send client p = block
     [upd_client client (\<lambda>cl. cl\<lparr>c_bUDP := False\<rparr>),
      Client_voiceMsg send client (udp_packet p)]"

section \<open>ChannelState\<close>

text \<open>The tests before the parent is looked up, with the text of the denial.\<close>

definition channel_denial :: "mp_ChannelState \<Rightarrow> string option" where
  "channel_denial s =
     (if cst_has_channel_id s then Some ''Not supported by uMurmur''
      else if \<not> cst_has_parent s then Some ''Not supported by uMurmur''
      else case cst_name s of
        None \<Rightarrow> Some ''Not supported by uMurmur''
      | Some name \<Rightarrow>
          if \<not> cst_temporary s then Some ''Only temporary channels are supported by uMurmur''
          else if length name > MAX_TEXT then Some ''Channel name too long''
          else None)"

text \<open>The new channel, linked below its parent.\<close>

definition create_temporary :: "chref \<Rightarrow> mp_ChannelState \<Rightarrow> (world, chref) prog" where
  "create_temporary parent s =
     bnd (Chan_createChannel (cst_name s) (cst_description s)) (\<lambda>newchan.
     bnd (upd_chan newchan (\<lambda>x. x\<lparr>ch_temporary := True\<rparr>)) (\<lambda>_.
     bnd (Chan_addChannel parent newchan) (\<lambda>_.
     ret newchan)))"

definition broadcast_new_channel :: "transport \<Rightarrow> cref \<Rightarrow> mref \<Rightarrow> mp_ChannelState \<Rightarrow> chref \<Rightarrow> (world, unit) prog" where
  "broadcast_new_channel send client msg s newchan =
     bnd (get_chan newchan) (\<lambda>x. block
       [set_payload msg (\<lambda>_. P_ChannelState (s\<lparr>cst_has_channel_id := True, cst_channel_id := u32_of_int (ch_id x)\<rparr>)),
        Msg_inc_ref msg,
        Client_send_message_except send None msg])"

definition broadcast_creator :: "transport \<Rightarrow> cref \<Rightarrow> chref \<Rightarrow> (world, unit) prog" where
  "broadcast_creator send client newchan =
     bnd (get_client client) (\<lambda>cl.
     bnd (get_chan newchan) (\<lambda>x.
     bnd (compose (P_UserState (init_UserState
       \<lparr>ust_has_session := True, ust_session := u32_of_int (c_sessionId cl),
        ust_has_channel_id := True, ust_channel_id := u32_of_int (ch_id x)\<rparr>)))
       (Client_send_message_except send None)))"

definition join_new_channel :: "transport \<Rightarrow> cref \<Rightarrow> chref \<Rightarrow> (world, unit) prog" where
  "join_new_channel send client newchan =
     bnd (Chan_userJoin newchan client) (\<lambda>leave_id.
     bnd (channel_removed leave_id) (\<lambda>remove.
     case remove of None \<Rightarrow> ret () | Some m \<Rightarrow> Client_send_message_except send None m))"

definition open_channel :: "transport \<Rightarrow> cref \<Rightarrow> mref \<Rightarrow> mp_ChannelState \<Rightarrow> chref \<Rightarrow> (world, unit) prog" where
  "open_channel send client msg s parent =
     bnd (create_temporary parent s) (\<lambda>newchan. block
       [broadcast_new_channel send client msg s newchan,
        broadcast_creator send client newchan,
        join_new_channel send client newchan])"

definition handle_ChannelState :: "transport \<Rightarrow> cref \<Rightarrow> mref \<Rightarrow> mp_ChannelState \<Rightarrow> (world, unit) prog" where
  "handle_ChannelState send client msg s =
     (case channel_denial s of
        Some reason \<Rightarrow> sendPermissionDenied send client reason
      | None \<Rightarrow>
          bnd (Chan_fromId (int_of_u32 (cst_parent s))) (\<lambda>parent.
          case parent of
            None \<Rightarrow> ret ()
          | Some p \<Rightarrow>
              bnd (find_sibling p (\<lambda>x. Some (ch_name x) = cst_name s)) (\<lambda>sibling.
              if sibling \<noteq> None then sendPermissionDenied send client ''Channel already exists''
              else
                bnd (get_chan p) (\<lambda>x.
                if ch_temporary x then sendPermissionDenied send client ''Parent channel is temporary channel''
                else open_channel send client msg s p))))"

section \<open>UserStats\<close>

definition client_stats :: "cryptState \<Rightarrow> mp_UserStats__Stats" where
  "client_stats cs =
     \<lparr>stat_has_good = True, stat_good = uiGood cs, stat_has_late = True, stat_late = uiLate cs,
      stat_has_lost = True, stat_lost = uiLost cs, stat_has_resync = True, stat_resync = uiResync cs\<rparr>"

definition server_stats :: "cryptState \<Rightarrow> mp_UserStats__Stats" where
  "server_stats cs =
     \<lparr>stat_has_good = True, stat_good = uiRemoteGood cs, stat_has_late = True, stat_late = uiRemoteLate cs,
      stat_has_lost = True, stat_lost = uiRemoteLost cs, stat_has_resync = True, stat_resync = uiRemoteResync cs\<rparr>"

definition base_stats :: "u64 \<Rightarrow> u32 \<Rightarrow> client \<Rightarrow> mp_UserStats" where
  "base_stats now session t = init_UserStats
     \<lparr>stats_session := session,
      stats_from_client := Some (client_stats (c_cryptState t)),
      stats_from_server := Some (server_stats (c_cryptState t)),
      stats_version := Some init_Version,
      stats_has_udp_packets := True, stats_udp_packets := c_UDPPackets t,
      stats_has_udp_ping_avg := True, stats_udp_ping_avg := c_UDPPingAvg t,
      stats_has_udp_ping_var := True, stats_udp_ping_var := c_UDPPingVar t,
      stats_has_tcp_ping_avg := True, stats_tcp_ping_avg := c_TCPPingAvg t,
      stats_has_tcp_ping_var := True, stats_tcp_ping_var := c_TCPPingVar t,
      stats_has_tcp_packets := True, stats_tcp_packets := c_TCPPackets t,
      stats_has_bandwidth := True, stats_bandwidth := u32_of_int (c_availableBandwidth t),
      stats_has_onlinesecs := True,
      stats_onlinesecs := ucast (Timer_elapsed now (c_connectTime t) div 1000000),
      stats_has_idlesecs := True,
      stats_idlesecs := ucast (Timer_elapsed now (c_idleTime t) div 1000000)\<rparr>"

text \<open>
  The details: \<open>strdup\<close> of texts the user may never have sent, the codecs in an array of
  \<open>codec_count\<close> places, and the address as an IPv4-mapped one with the bytes in memory
  order on a little-endian machine.
\<close>

definition detail_stats :: "client \<Rightarrow> mp_UserStats \<Rightarrow> (world, mp_UserStats) prog" where
  "detail_stats t s =
     bnd (deref (c_release t)) (\<lambda>release.
     bnd (deref (c_os t)) (\<lambda>os.
     bnd (deref (c_os_version t)) (\<lambda>os_version.
     if length (c_codecs t) \<noteq> c_codec_count t then fail OutOfBounds
     else ret (s
       \<lparr>stats_version := Some \<lparr>ver_has_version = True, ver_version = c_version t, ver_release = Some release,
          ver_os = Some os, ver_os_version = Some os_version\<rparr>,
        stats_celt_versions := c_codecs t,
        stats_has_address := True,
        stats_address := replicate 12 0 @ rev (be_bytes 4 (ucast (sin_addr (c_remote_tcp t))))\<rparr>))))"

definition handle_UserStats :: "transport \<Rightarrow> cref \<Rightarrow> mp_UserStats \<Rightarrow> (world, unit) prog" where
  "handle_UserStats send client s =
     (let details = (if stats_has_stats_only s then \<not> stats_stats_only s else True) in
      bnd (guarded (\<not> stats_has_session s) (sendPermissionDenied send client ''Not supported by uMurmur'')) (\<lambda>_.
      bnd (find_session (stats_session s)) (\<lambda>target.
      case target of
        None \<Rightarrow> ret ()
      | Some c \<Rightarrow>
          bnd (get_client c) (\<lambda>t.
          bnd (gets w_now) (\<lambda>now.
          let base = base_stats now (stats_session s) t in
          bnd (if details then detail_stats t base else ret base) (\<lambda>stats.
          bnd (compose (P_UserStats stats)) (send client)))))))"

section \<open>The switch\<close>

text \<open>The result is whether the handler leaves through \<open>disconnect\<close>.\<close>

definition handle_case :: "transport \<Rightarrow> cref \<Rightarrow> mref \<Rightarrow> payload \<Rightarrow> (world, bool) prog" where
  "handle_case send client msg p =
     (let done = (\<lambda>m. bnd m (\<lambda>_::unit. ret False)) in
      case p of
        P_Authenticate a \<Rightarrow> handle_Authenticate send client a
      | P_Ping a \<Rightarrow> done (handle_Ping send client a)
      | P_CryptSetup a \<Rightarrow> done (handle_CryptSetup send client a)
      | P_UserState a \<Rightarrow> done (handle_UserState send client msg a)
      | P_TextMessage a \<Rightarrow> done (handle_TextMessage send client msg a)
      | P_VoiceTarget a \<Rightarrow> done (handle_VoiceTarget client a)
      | P_Version a \<Rightarrow> done (handle_Version client a)
      | P_PermissionQuery a \<Rightarrow> done (handle_PermissionQuery send client msg a)
      | P_UDPTunnel a \<Rightarrow> done (handle_UDPTunnel send client a)
      | P_ChannelState a \<Rightarrow> done (handle_ChannelState send client msg a)
      | P_UserStats a \<Rightarrow> done (handle_UserStats send client a)
      | P_ChannelRemove a \<Rightarrow> done (sendPermissionDenied send client ''Not supported by uMurmur'')
      | P_UserList a \<Rightarrow> done (sendPermissionDenied send client ''Not supported by uMurmur'')
      | P_none t \<Rightarrow>
          done (guarded (t \<in> {ContextAction, ContextActionAdd, ACL, BanList, QueryUsers})
            (sendPermissionDenied send client ''Not supported by uMurmur''))
      | _ \<Rightarrow> ret False)"

text \<open>The messages that do not count as activity of the user.\<close>

definition counts_as_idle :: "messageType \<Rightarrow> bool" where
  "counts_as_idle t \<longleftrightarrow> t \<in> {UDPTunnel, Ping, CryptSetup, VoiceTarget, UserStats, PermissionQuery}"

definition restart_idle :: "cref \<Rightarrow> (world, unit) prog" where
  "restart_idle client =
     bnd (gets w_now) (\<lambda>now.
     upd_client client (\<lambda>cl. cl\<lparr>c_idleTime := snd (Timer_restart now (c_idleTime cl))\<rparr>))"

definition Mh_handle_message :: "transport \<Rightarrow> cref \<Rightarrow> mref \<Rightarrow> (world, unit) prog" where
  "Mh_handle_message send client msg =
     bnd (get_client client) (\<lambda>cl.
     bnd (get_msg msg) (\<lambda>m.
     if \<not> c_authenticated cl \<and> \<not> (type_of (m_payload m) = Authenticate \<or> type_of (m_payload m) = Version)
     then Msg_free msg
     else
       bnd (guarded (\<not> counts_as_idle (type_of (m_payload m))) (restart_idle client)) (\<lambda>_.
       bnd (handle_case send client msg (m_payload m)) (\<lambda>disconnect. block
         [Msg_free msg,
          guarded disconnect (Client_close client)]))))"

section \<open>The invariant\<close>

lemma harmless_handler:
  "harmless (ping_client p)" "harmless (apply_mute u)" "harmless (version_client v)"
  "harmless (\<lambda>cl. cl\<lparr>c_recording := b\<rparr>)" "harmless (\<lambda>cl. cl\<lparr>c_context := x\<rparr>)"
  "harmless (\<lambda>cl. cl\<lparr>c_idleTime := t cl\<rparr>)"
  by (auto simp: harmless_def client_ok_def ping_client_def ping_crypt_def wf_crypt_def apply_mute_def version_client_def Let_def)

lemma harmless_nonce:
  "\<not> length n < 16 \<Longrightarrow> harmless (\<lambda>cl. cl\<lparr>c_cryptState := (c_cryptState cl)\<lparr>decrypt_iv := take 16 n, uiResync := f cl\<rparr>\<rparr>)"
  by (simp add: harmless_def client_ok_def wf_crypt_def)

lemmas keeps_handler_upd [keeps_intros] = harmless_handler [THEN keeps_upd_client]

lemma reads_find_session [reads_intros]: "reads (find_session s)"
  unfolding find_session_def by (intro reads_intros)

lemma reads_detail_stats [reads_intros]: "reads (detail_stats t s)"
  unfolding detail_stats_def by (intro reads_intros)

lemma keeps_find_session [keeps_intros]: "keeps I (find_session s)"
  by (rule reads_keeps) (rule reads_find_session)

lemma keeps_add_target [keeps_intros]: "keeps (inv A) (add_target c t v)"
  unfolding add_target_def add_sessions_def by (intro keeps_intros)

lemma keeps_VoiceTarget: "keeps (inv A) (handle_VoiceTarget c v)"
  unfolding handle_VoiceTarget_def Let_def by (intro keeps_intros)

lemma keeps_channel_removed [keeps_intros]: "keeps (inv A) (channel_removed i)"
  unfolding channel_removed_def by (intro keeps_intros)

text \<open>Creating a temporary channel below a permanent one.\<close>

lemma create_temporary_result:
  assumes inv: "inv A w" and p: "w_chstore w p = Some y" "\<not> ch_temporary y"
    and run: "create_temporary p s w = Inr (ch, w')"
  shows "inv A w' \<and> w_cstore w' = w_cstore w \<and> w_clients w' = w_clients w \<and>
    (\<exists>x. w_chstore w' ch = Some x \<and> ch_temporary x \<and> ch_clients x = [] \<and> ch_parent x = Some p \<and>
      cst_name s = Some (ch_name x))"
proof -
  have ok: "channels_ok w" using inv by (simp add: inv_def)
  from run obtain w1 u1 w2 u2 where c: "Chan_createChannel (cst_name s) (cst_description s) w = Inr (ch, w1)"
    and t: "upd_chan ch (\<lambda>x. x\<lparr>ch_temporary := True\<rparr>) w1 = Inr (u1, w2)"
    and add: "Chan_addChannel p ch w2 = Inr (u2, w')"
    by (auto simp: create_temporary_def bnd_eq_Inr ret_app)
  from Chan_createChannel_result [OF c ok] obtain nm i where nm: "cst_name s = Some nm" and ch: "ch = w_next w"
    and w1: "w1 = put_chan ch (new_channel i nm (cst_description s)) (w\<lparr>w_next := Suc (w_next w)\<rparr>)" by blast
  let ?new = "new_channel i nm (cst_description s)"
  let ?x = "?new\<lparr>ch_temporary := True\<rparr>"
  have x0: "w_chstore w1 ch = Some ?new" by (simp add: w1 put_chan_def)
  have "w2 = put_chan ch ?x w1" using t x0 by (auto simp: upd_chan_app)
  moreover have "w_defaultChan w1 = w_defaultChan w" by (simp add: w1 put_chan_def)
  ultimately have w2: "w2 = put_chan ch ?x w1\<lparr>w_defaultChan := w_defaultChan w\<rparr>"
    by (intro world.equality) (simp_all add: put_chan_def)
  from inv_created_channel [OF inv p c x0 _ _ _ _ _ _ add [unfolded w2]]
  show ?thesis using nm by (auto simp: new_channel_def)
qed

context transport
begin

lemma keeps_except_ver: "keeps (inv A) (Client_send_message_except_ver send c m v)"
  unfolding Client_send_message_except_ver_def by (rule transport.keeps_except [OF ver_transport])

lemma keeps_Ping: "keeps (inv A) (handle_Ping send c p)"
  unfolding handle_Ping_def by (intro keeps_intros send_keeps)

lemma keeps_CryptSetup: "keeps (inv A) (handle_CryptSetup send c p)"
  unfolding handle_CryptSetup_def by (intro keeps_intros send_keeps keeps_upd_client harmless_nonce)

lemma keeps_finish_state: "keeps (inv A) (finish_state send c m u r)"
  unfolding finish_state_def set_context_def by (intro keeps_intros keeps_except)

lemma keeps_UserState:
  assumes "c \<in> A"
  shows "keeps (inv A) (handle_UserState send c m u)"
proof -
  have "keeps (inv A) (Chan_userJoin_id_test i)" for i by (rule reads_keeps) (rule reads_userJoin_id_test)
  then have "keeps (inv A) (move_user send c m v)" for v
    unfolding move_user_def by (intro keeps_intros keeps_finish_state keeps_Chan_userJoin_id assms)
  then show ?thesis
    unfolding handle_UserState_def announce_recording_def
    by (intro keeps_intros keeps_denied keeps_except_ver)
qed

lemma keeps_TextMessage: "keeps (inv A) (handle_TextMessage send c m t)"
  unfolding handle_TextMessage_def text_to_channel_def text_to_session_def forward_to_def
  by (intro keeps_intros send_keeps keeps_denied)

lemma keeps_PermissionQuery: "keeps (inv A) (handle_PermissionQuery send c m q)"
  unfolding handle_PermissionQuery_def by (intro keeps_intros send_keeps)

lemma keeps_UDPTunnel: "keeps (inv A) (handle_UDPTunnel send c p)"
  unfolding handle_UDPTunnel_def by (intro keeps_intros keeps_voiceMsg)

lemma keeps_UserStats: "keeps (inv A) (handle_UserStats send c s)"
  unfolding handle_UserStats_def Let_def
  by (intro keeps_intros send_keeps keeps_denied reads_keeps [OF reads_detail_stats])

lemma keeps_open_channel:
  assumes c: "c \<in> A" and I: "inv A w" and p: "w_chstore w p = Some y" "\<not> ch_temporary y"
    and run: "open_channel send c m s p w = Inr (r, w')"
  shows "inv A w'"
proof -
  from run obtain ch w1 where new: "create_temporary p s w = Inr (ch, w1)"
    and b: "block [broadcast_new_channel send c m s ch, broadcast_creator send c ch, join_new_channel send c ch] w1 = Inr (r, w')"
    unfolding open_channel_def by (rule bndE)
  have I1: "inv A w1" using create_temporary_result [OF I p new] by blast
  have K: "keeps (inv A) (block [broadcast_new_channel send c m s ch, broadcast_creator send c ch, join_new_channel send c ch])"
    unfolding broadcast_new_channel_def broadcast_creator_def join_new_channel_def
    by (intro keeps_intros keeps_except keeps_Chan_userJoin c)
  show ?thesis by (rule keepsD [OF K b I1])
qed

lemma keeps_ChannelState:
  assumes "c \<in> A"
  shows "keeps (inv A) (handle_ChannelState send c m s)"
proof (rule keepsI)
  fix w r w' assume I: "inv A w" and run: "handle_ChannelState send c m s w = Inr (r, w')"
  have D: "inv A w'" if "sendPermissionDenied send c reason w = Inr (r, w')" for reason
    using keepsD [OF keeps_denied that I] .
  show "inv A w'"
  proof (cases "channel_denial s")
    case (Some reason)
    with run D show ?thesis by (simp add: handle_ChannelState_def)
  next
    case None
    let ?create = "\<lambda>p x. if ch_temporary x then sendPermissionDenied send c ''Parent channel is temporary channel''
                else open_channel send c m s p"
    let ?check = "\<lambda>p sibling. if sibling \<noteq> None then sendPermissionDenied send c ''Channel already exists''
              else bnd (get_chan p) (?create p)"
    from run have "bnd (Chan_fromId (int_of_u32 (cst_parent s))) (\<lambda>parent. case parent of None \<Rightarrow> ret ()
          | Some p \<Rightarrow> bnd (find_sibling p (\<lambda>x. Some (ch_name x) = cst_name s)) (?check p)) w = Inr (r, w')"
      unfolding handle_ChannelState_def None option.case .
    then obtain parent where par: "(case parent of None \<Rightarrow> ret ()
          | Some p \<Rightarrow> bnd (find_sibling p (\<lambda>x. Some (ch_name x) = cst_name s)) (?check p)) w = Inr (r, w')"
      by (rule bnd_readsE) (rule reads_Chan_fromId)
    show ?thesis
    proof (cases parent)
      case None
      with par I show ?thesis by (simp add: ret_app)
    next
      case (Some p)
      with par have "bnd (find_sibling p (\<lambda>x. Some (ch_name x) = cst_name s)) (?check p) w = Inr (r, w')" by simp
      then obtain sibling :: "chref option" where "?check p sibling w = Inr (r, w')"
        by (rule bnd_readsE) (rule reads_find_sibling)
      then show ?thesis
        using D keeps_open_channel [OF assms I]
        by (auto simp: bnd_eq_Inr get_chan_app split: if_splits option.splits)
    qed
  qed
qed

lemma keeps_handle_case:
  assumes "c \<in> A"
  shows "keeps (inv A) (handle_case send c m p)"
proof -
  have V: "keeps (inv A) (handle_Version c v)" for v
    unfolding handle_Version_def by (intro keeps_intros)
  show ?thesis
    unfolding handle_case_def Let_def
    by (cases p) (simp_all, (intro keeps_intros keeps_Authenticate keeps_Ping keeps_CryptSetup keeps_UserState
        keeps_TextMessage keeps_VoiceTarget V keeps_PermissionQuery keeps_UDPTunnel keeps_ChannelState
        keeps_UserStats keeps_denied assms)+)
qed

lemma keeps_handle_message: "keeps (inv A) (Mh_handle_message send c m)"
proof (rule keepsI)
  fix w r w' assume I: "inv A w" and run: "Mh_handle_message send c m w = Inr (r, w')"
  from run obtain cl msg where cl: "w_cstore w c = Some cl" and msg: "w_mstore w m = Some msg"
    by (auto simp: Mh_handle_message_def get_client_app get_msg_app bnd_eq_Inr split: option.splits)
  let ?p = "m_payload msg"
  let ?go = "bnd (guarded (\<not> counts_as_idle (type_of ?p)) (restart_idle c)) (\<lambda>_.
       bnd (handle_case send c m ?p) (\<lambda>disconnect. block
         [Msg_free m, guarded disconnect (Client_close c)]))"
  have body: "keeps (inv B) (handle_case send c m ?p) \<Longrightarrow> keeps (inv B) ?go" for B
    unfolding restart_idle_def by (intro keeps_intros)
  show "inv A w'"
  proof (cases "c_authenticated cl")
    case True
    with run cl msg have "?go w = Inr (r, w')"
      by (simp add: Mh_handle_message_def bnd_Inr get_client_app get_msg_app)
    with inv_run_auth [OF I cl True body [OF keeps_handle_case]] show ?thesis by blast
  next
    case False
    show ?thesis
    proof (cases "type_of ?p = Authenticate \<or> type_of ?p = Version")
      case other: False
      with run cl msg False have "Msg_free m w = Inr (r, w')"
        by (simp add: Mh_handle_message_def bnd_Inr get_client_app get_msg_app)
      from keepsD [OF keeps_Msg_free this I] show ?thesis .
    next
      case True
      with run cl msg have go: "?go w = Inr (r, w')"
        by (auto simp: Mh_handle_message_def bnd_Inr get_client_app get_msg_app split: if_splits)
      have "keeps (inv A) (handle_case send c m ?p)"
        using True unfolding handle_case_def Let_def
        by (cases ?p) (auto simp: handle_Version_def guarded_def intro!: keeps_intros keeps_Authenticate)
      from keepsD [OF body [OF this] go I] show ?thesis .
    qed
  qed
qed

end

end
