(* ===== verification/Server.thy ===== *)
theory Server
  imports Handler
begin

text \<open>
  \<open>Client_read\<close>, the knot of the three functions of client.c that call each other, and
  the event loop of server.c. One unit of fuel is one call among \<open>Client_send_message\<close>,
  \<open>Client_write\<close> and \<open>Client_read\<close>, or one round of the loop in \<open>Client_read\<close>.
\<close>

section \<open>Reading\<close>

text \<open>How one round of the loop ends: with the test for pending data, or with a return.\<close>

datatype round = Again | Return

text \<open>\<open>ntohl\<close> of the four bytes after the type.\<close>

definition announced_size :: "byte list \<Rightarrow> nat" where
  "announced_size rxbuf = unat (load_be (take 4 (drop 2 rxbuf)))"

definition received :: "byte list \<Rightarrow> client \<Rightarrow> client" where
  "received bytes cl =
     (let rxbuf = overwrite (c_rxbuf cl) (c_rxcount cl) bytes;
          rxcount = c_rxcount cl + length bytes
      in cl\<lparr>c_rxbuf := rxbuf, c_rxcount := rxcount,
            c_msgsize := (if c_msgsize cl = 0 \<and> rxcount \<ge> 6 then announced_size rxbuf else c_msgsize cl)\<rparr>)"

text \<open>A complete message goes to the handler; then the buffer is empty again.\<close>

definition deliver :: "transport \<Rightarrow> cref \<Rightarrow> client \<Rightarrow> (world, round) prog" where
  "deliver send client cl =
     bnd (Msg_networkToMessage (take (c_msgsize cl + 6) (c_rxbuf cl))) (\<lambda>msg.
     bnd (case msg of None \<Rightarrow> ret () | Some m \<Rightarrow> Mh_handle_message send client m) (\<lambda>_.
     bnd (upd_client client (\<lambda>cl. cl\<lparr>c_rxcount := 0, c_msgsize := 0\<rparr>)) (\<lambda>_.
     ret Again)))"

definition got_bytes :: "transport \<Rightarrow> cref \<Rightarrow> byte list \<Rightarrow> (world, round) prog" where
  "got_bytes send client bytes =
     bnd (get_client client) (\<lambda>cl.
     if c_rxcount cl + length bytes > BUFSIZE then fail OutOfBounds
     else
       bnd (upd_client client (received bytes)) (\<lambda>_.
       if c_msgsize (received bytes cl) > BUFSIZE - 6 then bnd (Client_free send client) (\<lambda>_. ret Return)
       else if c_rxcount (received bytes cl) = c_msgsize (received bytes cl) + 6
       then deliver send client (received bytes cl)
       else ret Again))"

definition read_failed :: "transport \<Rightarrow> cref \<Rightarrow> ssl_error \<Rightarrow> (world, round) prog" where
  "read_failed send client e =
     (if e = WANT_READ then ret Return
      else if e = WANT_WRITE then
        bnd (upd_client client (\<lambda>cl. cl\<lparr>c_readBlockedOnWrite := True\<rparr>)) (\<lambda>_. ret Return)
      else if e = ZERO_RETURN then
        bnd (get_client client) (\<lambda>cl.
        bnd (guarded (\<not> c_shutdown_wait cl) (Client_close client)) (\<lambda>_. ret Again))
      else bnd (Client_free send client) (\<lambda>_. ret Return))"

text \<open>
  One round: what is missing of the six bytes of the preamble, or as many bytes as the
  whole message has after it.
\<close>

definition read_round :: "transport \<Rightarrow> cref \<Rightarrow> (world, round) prog" where
  "read_round send client =
     bnd (get_client client) (\<lambda>cl.
     if c_msgsize cl = 0 \<and> c_rxcount cl > 6 then fail OutOfBounds
     else
       bnd (SSLi_read (if c_msgsize cl = 0 then 6 - c_rxcount cl else c_msgsize cl)) (\<lambda>rc.
       case rc of
         Inr bytes \<Rightarrow> got_bytes send client bytes
       | Inl e \<Rightarrow> read_failed send client e))"

primrec read_loop :: "transport \<Rightarrow> cref \<Rightarrow> nat \<Rightarrow> (world, unit) prog" where
  "read_loop send client 0 = fail OutOfFuel"
| "read_loop send client (Suc k) =
     bnd (read_round send client) (\<lambda>r.
     if r = Return then ret ()
     else bnd SSLi_data_pending (\<lambda>pending. if pending then read_loop send client k else ret ()))"

text \<open>The handshake, when it is not done; the result is whether to go on.\<close>

definition accept_first :: "transport \<Rightarrow> cref \<Rightarrow> (world, bool) prog" where
  "accept_first send client =
     bnd (get_client client) (\<lambda>cl.
     if c_SSLready cl then ret True
     else
       bnd SSLi_nonblockaccept (\<lambda>rc.
       if rc = AcceptFailed then bnd (Client_free send client) (\<lambda>_. ret False)
       else if rc = Accepted then bnd (upd_client client (\<lambda>cl. cl\<lparr>c_SSLready := True\<rparr>)) (\<lambda>_. ret True)
       else ret True))"

definition read_body :: "transport \<Rightarrow> (cref \<Rightarrow> (world, unit) prog) \<Rightarrow> nat \<Rightarrow> cref \<Rightarrow> (world, unit) prog" where
  "read_body send write fuel client =
     bnd (gets w_now) (\<lambda>now.
     bnd (upd_client client (\<lambda>cl. cl\<lparr>c_lastActivity := snd (Timer_restart now (c_lastActivity cl))\<rparr>)) (\<lambda>_.
     bnd (get_client client) (\<lambda>cl.
     if c_writeBlockedOnRead cl then
       bnd (upd_client client (\<lambda>cl. cl\<lparr>c_writeBlockedOnRead := False\<rparr>)) (\<lambda>_. write client)
     else if c_shutdown_wait cl then Client_free send client
     else
       bnd (accept_first send client) (\<lambda>go. guarded go (read_loop send client fuel)))))"

section \<open>The knot\<close>

fun Client_send_message :: "nat \<Rightarrow> transport"
  and Client_write :: "nat \<Rightarrow> cref \<Rightarrow> (world, unit) prog"
  and Client_read :: "nat \<Rightarrow> cref \<Rightarrow> (world, unit) prog" where
  "Client_send_message 0 = (\<lambda>c m. fail OutOfFuel)"
| "Client_send_message (Suc n) = send_body (Client_write n)"
| "Client_write 0 = (\<lambda>c. fail OutOfFuel)"
| "Client_write (Suc n) = write_body (Client_read n) (Client_send_message n)"
| "Client_read 0 = (\<lambda>c. fail OutOfFuel)"
| "Client_read (Suc n) = read_body (Client_send_message n) (Client_write n) n"

definition Client_read_fd :: "nat \<Rightarrow> int \<Rightarrow> (world, unit) prog" where
  "Client_read_fd n fd = bnd (client_of_fd fd) (Client_read n)"

definition Client_write_fd :: "nat \<Rightarrow> int \<Rightarrow> (world, unit) prog" where
  "Client_write_fd n fd = bnd (client_of_fd fd) (Client_write n)"

section \<open>The event loop\<close>

text \<open>
  What \<open>poll\<close> reports: for the listening socket the connection \<open>accept\<close> returns, for the
  UDP socket the datagram \<open>recvfrom\<close> returns, and for the \<open>i\<close>-th client whether it can be
  read and written.
\<close>

datatype poll =
    PollTimeout
  | PollInterrupted
  | PollError
  | PollReady "(int \<times> sockaddr) option" "(sockaddr \<times> byte list) option" "nat \<Rightarrow> bool \<times> bool"

text \<open>The subtraction is done in 64 bits, its result is cut to an \<open>int\<close> and divided.\<close>

definition poll_timeout :: "u64 \<Rightarrow> etimer \<Rightarrow> int" where
  "poll_timeout now t = sint (ucast (1000000 - Timer_elapsed now t) :: u32) sdiv 1000"

definition serve_client :: "nat \<Rightarrow> (nat \<Rightarrow> bool \<times> bool) \<Rightarrow> nat \<times> int \<Rightarrow> (world, unit) prog" where
  "serve_client n revents = (\<lambda>(i, fd). block
     [guarded (fst (revents i)) (Client_read_fd n fd),
      guarded (snd (revents i)) (Client_write_fd n fd)])"

definition serve :: "nat \<Rightarrow> pollfd list \<Rightarrow> poll \<Rightarrow> (world, unit) prog" where
  "serve n fds p =
     (case p of
        PollReady conn udp revents \<Rightarrow> block
          [(case conn of None \<Rightarrow> ret ()
            | Some (fd, remote) \<Rightarrow> bnd (Client_add (Client_send_message n) fd remote) (\<lambda>_. ret ())),
           (case udp of None \<Rightarrow> ret ()
            | Some (from, packet) \<Rightarrow> Client_read_udp (Client_send_message n) from packet),
           for_each (enumerate 0 (map pfd_fd fds)) (serve_client n revents)]
      | PollError \<Rightarrow> fail Fatal
      | _ \<Rightarrow> ret ())"

text \<open>One turn of the loop, with the janitor's timer; \<open>places\<close> is the size of the array.\<close>

definition server_turn :: "nat \<Rightarrow> int \<Rightarrow> poll \<Rightarrow> etimer \<Rightarrow> (world, etimer) prog" where
  "server_turn n places p t =
     bnd (Client_getfds places) (\<lambda>fds.
     bnd (gets w_now) (\<lambda>now.
     let due = poll_timeout now t \<le> 0; t1 = (if due then snd (Timer_restart now t) else t) in
     bnd (guarded due (Client_janitor (Client_send_message n))) (\<lambda>_.
     if p = PollTimeout then
       bnd (Client_janitor (Client_send_message n)) (\<lambda>_. ret (snd (Timer_restart now t1)))
     else bnd (serve n fds p) (\<lambda>_. ret t1))))"

text \<open>
  The state of the server: the world, the janitor's timer and the places for descriptors.
  It starts as \<open>main\<close> does, with the timer at the time the loop begins, and each turn happens at some time with
  some events.
\<close>

definition start_up :: "nat \<Rightarrow> (world, int) prog" where
  "start_up n =
     bnd (Chan_init n) (\<lambda>_.
     bnd Client_init (\<lambda>_.
     bnd (getIntConf MAX_CLIENTS) (\<lambda>max. ret (max + 1))))"

inductive reachable :: "ext \<Rightarrow> tls \<Rightarrow> config \<Rightarrow> int \<Rightarrow> etimer \<Rightarrow> world \<Rightarrow> bool" for x t conf where
  start: "start_up n (boot_world x t conf now) = Inr (places, w) \<Longrightarrow>
    reachable x t conf places (Timer_init later) w"
| turn: "reachable x t conf places timer w \<Longrightarrow>
    server_turn n places p timer (w\<lparr>w_now := now\<rparr>) = Inr (timer', w') \<Longrightarrow>
    reachable x t conf places timer' w'"

definition shut_down :: "nat \<Rightarrow> (world, unit) prog" where
  "shut_down n = Client_disconnect_all (Client_send_message n)"

section \<open>The invariant\<close>

lemma harmless_read:
  "harmless (\<lambda>cl. cl\<lparr>c_rxcount := 0, c_msgsize := 0\<rparr>)"
  "harmless (\<lambda>cl. cl\<lparr>c_readBlockedOnWrite := b\<rparr>)" "harmless (\<lambda>cl. cl\<lparr>c_writeBlockedOnRead := b\<rparr>)"
  "harmless (\<lambda>cl. cl\<lparr>c_SSLready := b\<rparr>)" "harmless (\<lambda>cl. cl\<lparr>c_lastActivity := t cl\<rparr>)"
  by (simp_all add: harmless_def client_ok_def)

lemmas keeps_read_upd [keeps_intros] = harmless_read [THEN keeps_upd_client]

context transport
begin

lemma keeps_got_bytes: "keeps (inv A) (got_bytes send c bytes)"
proof (rule keepsI)
  fix w r w' assume I: "inv A w" and run: "got_bytes send c bytes w = Inr (r, w')"
  then obtain cl where cl: "w_cstore w c = Some cl" and fits: "c_rxcount cl + length bytes \<le> BUFSIZE"
    by (auto simp: got_bytes_def bnd_eq_Inr get_client_app fail_app split: option.splits if_splits)
  let ?next = "if c_msgsize (received bytes cl) > BUFSIZE - 6 then bnd (Client_free send c) (\<lambda>_. ret Return)
       else if c_rxcount (received bytes cl) = c_msgsize (received bytes cl) + 6
       then deliver send c (received bytes cl)
       else ret Again"
  from run cl fits obtain u w1 where u: "upd_client c (received bytes) w = Inr (u, w1)" and k: "?next w1 = Inr (r, w')"
    by (auto simp: got_bytes_def bnd_Inr get_client_app elim: bndE)
  have "client_ok cl \<Longrightarrow> client_ok (received bytes cl)"
    using fits by (simp add: client_ok_def received_def Let_def)
  then have I1: "inv A w1" using upd_client_at [OF I cl u] by (simp add: received_def Let_def)
  have K: "keeps (inv A) ?next"
    unfolding deliver_def by (intro keeps_intros keeps_Client_free keeps_handle_message)
  show "inv A w'" by (rule keepsD [OF K k I1])
qed

lemma keeps_read_loop: "keeps (inv A) (read_loop send c k)"
proof -
  have "keeps (inv A) (read_failed send c e)" for e
    unfolding read_failed_def by (intro keeps_intros keeps_Client_free)
  then have "keeps (inv A) (read_round send c)"
    unfolding read_round_def by (intro keeps_intros) (auto intro: keeps_got_bytes split: sum.split)
  then show ?thesis by (induction k) (auto intro!: keeps_intros)
qed

lemma keeps_read_body:
  assumes "\<And>A. keeps (inv A) (write c)"
  shows "keeps (inv A) (read_body send write k c)"
proof -
  have "keeps (inv A) (accept_first send c)"
    unfolding accept_first_def by (intro keeps_intros keeps_Client_free)
  then show ?thesis
    unfolding read_body_def by (intro keeps_intros assms keeps_Client_free keeps_read_loop)
qed

end

lemma keeps_knot:
  "keeps (inv A) (Client_send_message n c m) \<and> keeps (inv A) (Client_write n c) \<and> keeps (inv A) (Client_read n c)"
proof (induction n arbitrary: A c m)
  case 0
  then show ?case by (simp add: keeps_fail)
next
  case (Suc n)
  have t: "transport (Client_send_message n)" by unfold_locales (use Suc in blast)
  have w: "keeps (inv A) (Client_write n c)" and r: "keeps (inv A) (Client_read n c)" for A c using Suc by blast+
  have "keeps (inv A) (send_body (Client_write n) c m)"
    by (rule keeps_send_body) (rule w)
  moreover have "keeps (inv A) (write_body (Client_read n) (Client_send_message n) c)"
    by (rule transport.keeps_write_body [OF t]) (rule r)
  moreover have "keeps (inv A) (read_body (Client_send_message n) (Client_write n) n c)"
    by (rule transport.keeps_read_body [OF t]) (rule w)
  ultimately show ?case by simp
qed

interpretation tx: transport "Client_send_message n" for n
  by unfold_locales (use keeps_knot in blast)

lemma keeps_server_turn: "keeps (inv A) (server_turn n places p t)"
proof -
  have "keeps (inv A) (Client_read_fd n fd)" "keeps (inv A) (Client_write_fd n fd)" for fd
    unfolding Client_read_fd_def Client_write_fd_def using keeps_knot by (intro keeps_intros; blast)+
  then have "keeps (inv A) (serve_client n revents ifd)" for revents ifd
    unfolding serve_client_def split_def by (intro keeps_intros)
  then have "keeps (inv A) (serve n fds p)" for fds
    unfolding serve_def
    by (auto split: poll.split intro!: keeps_intros tx.keeps_Client_add tx.keeps_read_udp)
  then show ?thesis
    unfolding server_turn_def Let_def by (intro keeps_intros tx.keeps_janitor)
qed

lemma keeps_shut_down: "keeps (inv A) (shut_down n)"
  unfolding shut_down_def Client_disconnect_all_def
  by (rule keeps_self) (intro keeps_intros tx.keeps_Client_free)

lemma reachable_inv:
  assumes "ext_ok x" and "reachable x t conf places timer w"
  shows "inv {} w"
  using assms(2)
proof induction
  case (start n now places w later)
  then obtain u w1 where "Chan_init n (boot_world x t conf now) = Inr (u, w1)"
    and r: "bnd Client_init (\<lambda>_. bnd (getIntConf MAX_CLIENTS) (\<lambda>max. ret (max + 1))) w1 = Inr (places, w)"
    unfolding start_up_def by (auto elim: bndE)
  then have I: "inv {} w1" using Chan_init_ok [OF init_ok_boot [OF assms(1)]] by blast
  have K: "keeps (inv {}) (bnd Client_init (\<lambda>_. bnd (getIntConf MAX_CLIENTS) (\<lambda>max. ret (max + 1))))"
    unfolding getIntConf_def by (auto intro!: keeps_intros)
  show ?case by (rule keepsD [OF K r I])
next
  case (turn places timer w n p now timer' w')
  have "inv {} (w\<lparr>w_now := now\<rparr>)" by (rule inv_core [OF turn.IH]) (simp_all add: core_def)
  with keepsD [OF keeps_server_turn turn.hyps(2)] show ?case by blast
qed

section \<open>Properties\<close>

lemma keeps_conf_Chan_init: "keeps (\<lambda>w. w_conf w = cf) (Chan_init n)"
proof -
  have "keeps (\<lambda>w. w_conf w = cf) (init_links k i)" for k i
    by (induction k arbitrary: i) (auto simp: find_named_def intro!: keeps_intros keeps_conf_link_add)
  then show ?thesis
    unfolding Chan_init_def getStrConf_def
    by (auto intro!: keeps_intros keeps_conf_init_channels keeps_conf_modify simp: default_to_root_def)
qed

lemma demo_boot: "\<exists>w. start_up 3 (boot_world x t demo_conf now) = Inr (6, w) \<and> w_clients w = [] \<and> w_now w = now"
proof -
  obtain w1 where c: "Chan_init 3 (boot_world x t demo_conf now) = Inr ((), w1)" "w_clients w1 = []" "w_now w1 = now"
    using demo_start by blast
  have "w_conf w1 = demo_conf"
    using keepsD [OF keeps_conf_Chan_init c(1)] by (simp add: boot_world_def)
  then have conf: "int_or 10 ''max_users'' (w_conf w1) = 5"
    by (simp add: int_or_def demo_conf_def)
  have "start_up 3 (boot_world x t demo_conf now) =
      bnd Client_init (\<lambda>_. bnd (getIntConf MAX_CLIENTS) (\<lambda>max. ret (max + 1))) w1"
    unfolding start_up_def by (rule bnd_Inr) (rule c(1))
  then show ?thesis by (simp add: Client_init_def getIntConf_def bnd_def prog_simps conf c(2,3))
qed

text \<open>C2: Whatever connections, datagrams, stream contents and failures the environment feeds the server, and
  at whatever times, every state the event loop reaches satisfies the invariant: the lists agree
  with the heap, session and channel identifiers are unique, the channels form a tree, a user is
  in one channel at most, and every buffer, counter and queue is within its bounds.\<close>

theorem reachable_states_consistent:
  assumes "ext_ok x" and "reachable x t conf places timer w"
  shows "inv {} w"
  using reachable_inv [OF assms] .

theorem reachable_states_consistent_witness:
  "\<exists>w. reachable demo_ext idle_tls demo_conf 6 0 w \<and> inv {} w"
proof -
  obtain w where "start_up 3 (boot_world demo_ext idle_tls demo_conf 0) = Inr (6, w)" using demo_boot by blast
  then have "reachable demo_ext idle_tls demo_conf 6 (Timer_init 0) w" by (rule reachable.start)
  with reachable_states_consistent [OF demo_ext_ok this] show ?thesis by (auto simp: Timer_init_def)
qed

end
