(* ===== verification/Delivery.thy ===== *)
theory Delivery
  imports Server
begin

text \<open>
  What sending amounts to when the TLS layer accepts what it is given: a message to a
  client with an empty transmit buffer and an empty queue goes out at once and whole, a
  broadcast reaches every client once, and a new connection is greeted.
\<close>

section \<open>Bytes on the wire\<close>

definition wire :: "ext \<Rightarrow> payload \<Rightarrow> byte list" where
  "wire x p =
     (let t = (of_nat (type_num (type_of p)) :: u16); l = (of_nat (length (body_of x p)) :: u32) in
      [ucast (drop_bit 8 t AND 0xff), ucast (t AND 0xff), ucast (drop_bit 24 l AND 0xff),
       ucast (drop_bit 16 l AND 0xff), ucast (drop_bit 8 l AND 0xff), ucast (l AND 0xff)] @ body_of x p)"

definition sendable :: "ext \<Rightarrow> payload \<Rightarrow> bool" where
  "sendable x p \<longleftrightarrow> length (body_of x p) + 6 < BUFSIZE \<and> (\<forall>t. p \<noteq> P_none t)"

lemma take_preamble:
  assumes "6 \<le> length buffer"
  shows "take 6 (Msg_addPreamble buffer t l) =
    [ucast (drop_bit 8 t AND 0xff), ucast (t AND 0xff), ucast (drop_bit 24 l AND 0xff),
     ucast (drop_bit 16 l AND 0xff), ucast (drop_bit 8 l AND 0xff), ucast (l AND 0xff)]"
proof -
  obtain a b c d e f r where "buffer = a # b # c # d # e # f # r"
    using assms by (metis Suc_le_length_iff numeral_eq_Suc pred_numeral_simps(2-3) pred_numeral_simps(1) BitM.simps)
  then show ?thesis by (simp add: Msg_addPreamble_def)
qed

lemma messageToNetwork_wire:
  assumes "sendable x p" and "length buffer = BUFSIZE"
  obtains buffer' where "Msg_messageToNetwork x p buffer = Inr (length (wire x p), buffer')"
    and "take (length (wire x p)) buffer' = wire x p" and "length buffer' = BUFSIZE"
    and "0 < length (wire x p)" and "length (wire x p) < BUFSIZE"
proof -
  let ?b = "overwrite (Msg_addPreamble buffer (of_nat (type_num (type_of p))) (of_nat (length (body_of x p)))) 6 (body_of x p)"
  have len: "length (wire x p) = length (body_of x p) + 6" by (simp add: wire_def Let_def)
  have "Msg_messageToNetwork x p buffer = Inr (length (body_of x p) + 6, ?b)"
    by (rule messageToNetwork_fits) (use assms in \<open>auto simp: sendable_def\<close>)
  moreover have "take (6 + length (body_of x p)) ?b = wire x p"
    using assms by (subst take_overwrite) (simp_all add: take_preamble wire_def Let_def sendable_def)
  moreover have "length ?b = BUFSIZE" using assms by (simp add: sendable_def)
  ultimately show thesis using assms(1) by (intro that) (simp_all add: len add.commute sendable_def)
qed

section \<open>One message\<close>

definition accepting :: "world \<Rightarrow> bool" where
  "accepting w \<longleftrightarrow> (\<forall>i. tls_write (w_tls w) i = WAll)"

definition idle :: "client \<Rightarrow> bool" where
  "idle cl \<longleftrightarrow> c_SSLready cl \<and> c_txsize cl = 0 \<and> c_txMsgQueue cl = [] \<and> \<not> c_readBlockedOnWrite cl"

text \<open>The message leaves its trace in the transmit buffer only.\<close>

definition wrote :: "client \<Rightarrow> byte list \<Rightarrow> client" where
  "wrote cl buffer = cl\<lparr>c_txbuf := buffer, c_txsize := 0, c_txcount := 0\<rparr>"

lemma write_idle:
  assumes "accepting w" and "w_cstore w c = Some cl" and "\<not> c_readBlockedOnWrite cl" and "c_txMsgQueue cl = []"
    and "c_txcount cl = 0" and "0 < c_txsize cl" and "c_txsize cl \<le> length (c_txbuf cl)"
  shows "Client_write (Suc n) c w = Inr ((), (put_client c (cl\<lparr>c_txsize := 0, c_txcount := 0\<rparr>) w)
    \<lparr>w_tls := (w_tls w)\<lparr>tls_wn := Suc (tls_wn (w_tls w))\<rparr>,
     w_out := w_out w @ [TlsOut (c_tcpfd cl) (take (c_txsize cl) (c_txbuf cl))]\<rparr>)"
proof -
  have "tls_write (w_tls w) (tls_wn (w_tls w)) = WAll" using assms(1) by (simp add: accepting_def)
  then show ?thesis
    using assms(2-7)
    by (simp add: write_body_def SSLi_write_def after_write_def send_next_def bnd_def prog_simps put_client_def min_def)
qed

definition spend :: "mref \<Rightarrow> message \<Rightarrow> world \<Rightarrow> world" where
  "spend m msg w =
     (if m_refcount msg \<le> 1 then w\<lparr>w_mstore := (w_mstore w)(m := None)\<rparr>
      else put_msg m (msg\<lparr>m_refcount := m_refcount msg - 1\<rparr>) w)"

lemma Msg_free_spend:
  assumes "w_mstore w m = Some msg" and "\<forall>t. m_payload msg \<noteq> P_none t"
  shows "Msg_free m w = Inr ((), spend m msg w)"
  using assms Msg_free_last [of w m msg] Msg_free_shared [of w m msg] by (simp add: spend_def)

lemma send_idle:
  assumes "accepting w" and "w_cstore w c = Some cl" and "idle cl" and "length (c_txbuf cl) = BUFSIZE"
    and "w_mstore w m = Some msg" and "sendable (w_ext w) (m_payload msg)"
    and "c_authenticated cl \<or> type_of (m_payload msg) = Version"
  shows "\<exists>buffer. length buffer = BUFSIZE \<and>
    Client_send_message (Suc (Suc n)) c m w = Inr ((), spend m msg ((put_client c (wrote cl buffer) w)
      \<lparr>w_tls := (w_tls w)\<lparr>tls_wn := Suc (tls_wn (w_tls w))\<rparr>,
       w_out := w_out w @ [TlsOut (c_tcpfd cl) (wire (w_ext w) (m_payload msg))]\<rparr>))"
proof -
  let ?p = "m_payload msg"
  obtain buffer where mn: "Msg_messageToNetwork (w_ext w) ?p (c_txbuf cl) = Inr (length (wire (w_ext w) ?p), buffer)"
    and b: "take (length (wire (w_ext w) ?p)) buffer = wire (w_ext w) ?p" "length buffer = BUFSIZE"
    "0 < length (wire (w_ext w) ?p)" "length (wire (w_ext w) ?p) < BUFSIZE"
    using messageToNetwork_wire [OF assms(6,4)] by blast
  let ?cl = "cl\<lparr>c_txbuf := buffer, c_txsize := length (wire (w_ext w) ?p), c_txcount := 0\<rparr>"
  let ?w1 = "put_client c ?cl w"
  let ?w2 = "(put_client c (wrote cl buffer) w)
      \<lparr>w_tls := (w_tls w)\<lparr>tls_wn := Suc (tls_wn (w_tls w))\<rparr>,
       w_out := w_out w @ [TlsOut (c_tcpfd cl) (wire (w_ext w) ?p)]\<rparr>"
  have idle: "c_SSLready cl" "c_txsize cl = 0" "c_txMsgQueue cl = []" "\<not> c_readBlockedOnWrite cl"
    using assms(3) by (simp_all add: idle_def)
  have wr: "Client_write (Suc n) c ?w1 = Inr ((), ?w2)"
  proof -
    have "put_client c (?cl\<lparr>c_txsize := 0, c_txcount := 0\<rparr>) ?w1 = put_client c (wrote cl buffer) w"
      by (simp add: put_client_def wrote_def)
    moreover have "Client_write (Suc n) c ?w1 = Inr ((), (put_client c (?cl\<lparr>c_txsize := 0, c_txcount := 0\<rparr>) ?w1)
      \<lparr>w_tls := (w_tls ?w1)\<lparr>tls_wn := Suc (tls_wn (w_tls ?w1))\<rparr>,
       w_out := w_out ?w1 @ [TlsOut (c_tcpfd ?cl) (take (c_txsize ?cl) (c_txbuf ?cl))]\<rparr>)"
      by (rule write_idle) (use assms(1) idle b in \<open>simp_all add: accepting_def put_client_def\<close>)
    ultimately show ?thesis using b(1) by (simp add: put_client_def)
  qed
  have fr: "Msg_free m ?w2 = Inr ((), spend m msg ?w2)"
    by (rule Msg_free_spend) (use assms(5,6) in \<open>simp_all add: put_client_def sendable_def\<close>)
  have "Client_send_message (Suc (Suc n)) c m w =
      block [upd_client c (\<lambda>cl. cl\<lparr>c_txbuf := buffer, c_txsize := length (wire (w_ext w) ?p), c_txcount := 0\<rparr>),
        Client_write (Suc n) c, Msg_free m] w"
    using assms(2,5,7) idle mn b(4)
    by (auto simp: send_body_def bnd_Inr prog_simps simp del: Client_write.simps block.simps)
  also have "\<dots> = Inr ((), spend m msg ?w2)"
    using assms(2) wr fr by (simp add: bnd_Inr upd_client_app del: Client_write.simps)
  finally show ?thesis using b(2) by blast
qed

section \<open>Many messages\<close>

text \<open>Only transmit buffers, the TLS layer, the output and the messages differ.\<close>

definition touched :: "client \<Rightarrow> client \<Rightarrow> bool" where
  "touched cl cl' \<longleftrightarrow> cl' = cl \<or> (\<exists>b. length b = BUFSIZE \<and> cl' = wrote cl b)"

definition only_sent :: "world \<Rightarrow> world \<Rightarrow> bool" where
  "only_sent w w' \<longleftrightarrow>
     (\<exists>cs t out ms. w' = w\<lparr>w_cstore := cs, w_tls := t, w_out := out, w_mstore := ms\<rparr>) \<and>
     accepting w' \<and> (\<forall>c. rel_option touched (w_cstore w c) (w_cstore w' c))"

definition ready :: "client \<Rightarrow> bool" where
  "ready cl \<longleftrightarrow> idle cl \<and> c_authenticated cl \<and> length (c_txbuf cl) = BUFSIZE"

lemma touched_refl: "touched cl cl"
  by (simp add: touched_def)

lemma touched_trans: "touched a b \<Longrightarrow> touched b c \<Longrightarrow> touched a c"
  by (auto simp: touched_def wrote_def)

lemma touched_same:
  assumes "touched cl cl'"
  shows "c_tcpfd cl' = c_tcpfd cl" and "ready cl' \<longleftrightarrow> ready cl \<or> cl' \<noteq> cl \<and> ready cl'"
    and "ready cl \<Longrightarrow> ready cl'"
  using assms by (auto simp: touched_def wrote_def ready_def idle_def)

lemma only_sent_refl: "accepting w \<Longrightarrow> only_sent w w"
  unfolding only_sent_def
  by (intro conjI exI [of _ "w_cstore w"] exI [of _ "w_tls w"] exI [of _ "w_out w"] exI [of _ "w_mstore w"])
    (auto simp: option.rel_refl touched_refl)

lemma only_sent_trans:
  assumes "only_sent u v" and "only_sent v w"
  shows "only_sent u w"
proof -
  have "rel_option touched (w_cstore u c) (w_cstore w c)" for c
    using assms by (auto simp: only_sent_def option_rel_Some1 option_rel_Some2 dest!: spec [of _ c]
        intro: touched_trans elim!: option.rel_cases)
  with assms show ?thesis unfolding only_sent_def by fastforce
qed

lemma only_sent_client:
  assumes "only_sent w w'" and "w_cstore w c = Some cl"
  obtains cl' where "w_cstore w' c = Some cl'" and "touched cl cl'"
  using assms by (auto simp: only_sent_def option_rel_Some1 dest!: spec [of _ c])

lemma only_sent_same:
  assumes "only_sent w w'"
  shows "w_clients w' = w_clients w" and "w_ext w' = w_ext w" and "w_channels w' = w_channels w"
    and "w_chstore w' = w_chstore w" and "w_next w' = w_next w" and "w_conf w' = w_conf w" and "accepting w'"
  using assms by (auto simp: only_sent_def)

lemma send_ready:
  assumes "accepting w" and "w_cstore w c = Some cl" and "ready cl"
    and "w_mstore w m = Some msg" and "sendable (w_ext w) (m_payload msg)"
  shows "\<exists>w'. Client_send_message (Suc (Suc n)) c m w = Inr ((), w') \<and> only_sent w w' \<and>
    w_out w' = w_out w @ [TlsOut (c_tcpfd cl) (wire (w_ext w) (m_payload msg))] \<and>
    w_mstore w' = (w_mstore w)(m := if m_refcount msg \<le> 1 then None else Some (msg\<lparr>m_refcount := m_refcount msg - 1\<rparr>))"
proof -
  have "idle cl" "length (c_txbuf cl) = BUFSIZE" "c_authenticated cl \<or> type_of (m_payload msg) = Version"
    using assms(3) by (simp_all add: ready_def)
  from send_idle [OF assms(1,2) this(1,2) assms(4,5) this(3), of n] obtain b where b: "length b = BUFSIZE"
    and s: "Client_send_message (Suc (Suc n)) c m w = Inr ((), spend m msg ((put_client c (wrote cl b) w)
      \<lparr>w_tls := (w_tls w)\<lparr>tls_wn := Suc (tls_wn (w_tls w))\<rparr>,
       w_out := w_out w @ [TlsOut (c_tcpfd cl) (wire (w_ext w) (m_payload msg))]\<rparr>))" (is "_ = Inr ((), ?w')") by blast
  have "accepting ?w'" using assms(1) by (simp add: accepting_def spend_def put_client_def put_msg_def)
  moreover have "rel_option touched (w_cstore w d) (w_cstore ?w' d)" for d
    using assms(2) b by (auto simp: spend_def put_client_def put_msg_def touched_def option.rel_refl)
  moreover have "\<exists>cs t out ms. ?w' = w\<lparr>w_cstore := cs, w_tls := t, w_out := out, w_mstore := ms\<rparr>"
    by (intro exI) (rule world.equality; simp add: spend_def put_client_def put_msg_def)
  ultimately have "only_sent w ?w'" by (simp add: only_sent_def)
  with s show ?thesis by (intro exI [of _ ?w']) (simp add: spend_def put_client_def put_msg_def)
qed

section \<open>Broadcast\<close>

definition fd_of :: "world \<Rightarrow> cref \<Rightarrow> int" where
  "fd_of w c = c_tcpfd (the (w_cstore w c))"

definition all_ready :: "world \<Rightarrow> cref list \<Rightarrow> bool" where
  "all_ready w xs \<longleftrightarrow> (\<forall>c \<in> set xs. \<exists>cl. w_cstore w c = Some cl \<and> ready cl)"

lemma only_sent_ready:
  assumes "only_sent w w'" and "all_ready w xs"
  shows "all_ready w' xs" and "c \<in> set xs \<Longrightarrow> fd_of w' c = fd_of w c"
proof -
  have *: "\<exists>cl'. w_cstore w' d = Some cl' \<and> ready cl' \<and> c_tcpfd cl' = fd_of w d" if "d \<in> set xs" for d
  proof -
    obtain cl where cl: "w_cstore w d = Some cl" "ready cl" using assms(2) \<open>d \<in> set xs\<close> by (auto simp: all_ready_def)
    from only_sent_client [OF assms(1) cl(1)] obtain cl' where "w_cstore w' d = Some cl'" "touched cl cl'" .
    with cl touched_same [of cl cl'] show ?thesis by (simp add: fd_of_def)
  qed
  then show "all_ready w' xs" by (auto simp: all_ready_def)
  show "c \<in> set xs \<Longrightarrow> fd_of w' c = fd_of w c" using * [of c] by (auto simp: fd_of_def)
qed

text \<open>A broadcast in progress: the message has one reference left once a copy has been sent.\<close>

definition wanted :: "cref option \<Rightarrow> cref list \<Rightarrow> cref list" where
  "wanted client xs = filter (\<lambda>c. Some c \<noteq> client) xs"

lemma except_visit:
  assumes "accepting w" and "w_cstore w x = Some cl" and "ready cl" and "Some x \<noteq> client"
    and "w_mstore w m = Some (msg\<lparr>m_refcount := (if count > 0 then 1 else 2)\<rparr>)"
    and "sendable (w_ext w) (m_payload msg)"
  shows "\<exists>w'. bnd (guarded (count > (0::nat)) (Msg_inc_ref m)) (\<lambda>_.
         bnd (Client_send_message (Suc (Suc n)) x m) (\<lambda>_. ret (count + 1))) w = Inr (count + 1, w') \<and> only_sent w w' \<and>
    w_out w' = w_out w @ [TlsOut (c_tcpfd cl) (wire (w_ext w) (m_payload msg))] \<and>
    w_mstore w' = (w_mstore w)(m \<mapsto> msg\<lparr>m_refcount := 1\<rparr>)"
proof -
  let ?w = "put_msg m (msg\<lparr>m_refcount := 2\<rparr>) w"
  have g: "guarded (count > 0) (Msg_inc_ref m) w = Inr ((), ?w)"
  proof (cases "count > 0")
    case True
    then show ?thesis using assms(5) Msg_inc_ref_ok [OF assms(5)] by (simp add: guarded_app)
  next
    case False
    then have "w = ?w" using assms(5) by (intro world.equality) (auto simp: put_msg_def)
    with False show ?thesis by (simp add: guarded_app)
  qed
  have os: "only_sent w ?w"
    using assms(1) by (auto simp: only_sent_def put_msg_def accepting_def option.rel_refl touched_refl
        intro!: exI [of _ "w_cstore w"] exI [of _ "w_tls w"] exI [of _ "w_out w"] world.equality)
  have a: "accepting ?w" "w_cstore ?w x = Some cl" "w_mstore ?w m = Some (msg\<lparr>m_refcount := 2\<rparr>)"
    "sendable (w_ext ?w) (m_payload (msg\<lparr>m_refcount := 2\<rparr>))"
    using assms(1,2,6) by (simp_all add: put_msg_def accepting_def)
  from send_ready [OF a(1,2) assms(3) a(3,4), of n] obtain w' where
    s: "Client_send_message (Suc (Suc n)) x m ?w = Inr ((), w')" and w': "only_sent ?w w'"
    "w_out w' = w_out w @ [TlsOut (c_tcpfd cl) (wire (w_ext w) (m_payload msg))]"
    "w_mstore w' = (w_mstore w)(m \<mapsto> msg\<lparr>m_refcount := 1\<rparr>)"
    by (auto simp: put_msg_def)
  have "bnd (guarded (count > (0::nat)) (Msg_inc_ref m)) (\<lambda>_.
         bnd (Client_send_message (Suc (Suc n)) x m) (\<lambda>_. ret (count + 1))) w = Inr (count + 1, w')"
    by (simp only: bnd_def g s ret_app sum.case prod.case)
  with w' only_sent_trans [OF os w'(1)] show ?thesis by blast
qed

lemma except_loop_ready:
  assumes "accepting w" and "w_clients w = us @ xs" and "distinct (w_clients w)" and "all_ready w xs"
    and "w_mstore w m = Some (msg\<lparr>m_refcount := (if count > 0 then 1 else 2)\<rparr>)"
    and "sendable (w_ext w) (m_payload msg)"
  shows "\<exists>w'. each_with w_clients xs (\<lambda>itr count.
       if Some itr \<noteq> client then
         bnd (guarded (count > 0) (Msg_inc_ref m)) (\<lambda>_.
         bnd (Client_send_message (Suc (Suc n)) itr m) (\<lambda>_.
         ret (count + 1)))
       else ret count) count w = Inr (count + length (wanted client xs), w') \<and> only_sent w w' \<and>
    w_out w' = w_out w @ map (\<lambda>c. TlsOut (fd_of w c) (wire (w_ext w) (m_payload msg))) (wanted client xs) \<and>
    w_mstore w' = (w_mstore w)(m \<mapsto> msg\<lparr>m_refcount := (if count + length (wanted client xs) > 0 then 1 else 2)\<rparr>)"
  using assms
proof (induction xs arbitrary: w us count)
  case Nil
  then show ?case by (intro exI [of _ w]) (auto simp: ret_app wanted_def only_sent_refl)
next
  case (Cons x xs)
  let ?body = "\<lambda>itr count.
       if Some itr \<noteq> client then
         bnd (guarded (count > 0) (Msg_inc_ref m)) (\<lambda>_.
         bnd (Client_send_message (Suc (Suc n)) itr m) (\<lambda>_.
         ret (count + 1)))
       else ret count"
  obtain cl where cl: "w_cstore w x = Some cl" "ready cl" using Cons.prems(4) by (auto simp: all_ready_def)
  have x: "x \<in> set (w_clients w)" "x \<notin> set us" "w_clients w = us @ x # xs" using Cons.prems(2,3) by auto
  obtain k w1 where visit: "?body x count w = Inr (k, w1)" "only_sent w w1" and k: "k = count + length (wanted client [x])"
    "w_out w1 = w_out w @ map (\<lambda>c. TlsOut (fd_of w c) (wire (w_ext w) (m_payload msg))) (wanted client [x])"
    "w_mstore w1 = (w_mstore w)(m \<mapsto> msg\<lparr>m_refcount := (if k > 0 then 1 else 2)\<rparr>)"
  proof (cases "Some x = client")
    case True
    with Cons.prems(1,5) show ?thesis
      by (intro that [of count w]) (auto simp: ret_app wanted_def only_sent_refl fun_upd_idem)
  next
    case False
    from except_visit [OF Cons.prems(1) cl False Cons.prems(5,6), of n] False cl show ?thesis
      by (auto simp: wanted_def fd_of_def intro: that)
  qed
  note same = only_sent_same [OF visit(2)]
  have tail: "all_ready w xs" using Cons.prems(4) by (simp add: all_ready_def)
  have step: "each_with w_clients (x # xs) ?body count w = each_with w_clients xs ?body k w1"
  proof -
    obtain cl' where "w_cstore w1 x = Some cl'" using only_sent_client [OF visit(2) cl(1)] by blast
    moreover have "entries_after x (w_clients w1) = filter (\<lambda>y. y \<in> set (w_clients w1)) xs"
      using x entries_after_suffix [OF x(2), of xs] by (simp add: same(1) filter_id_conv)
    ultimately show ?thesis using x(1) visit(1) by (simp add: bnd_Inr same(1) del: Client_send_message.simps)
  qed
  have "\<exists>w'. each_with w_clients xs ?body k w1 = Inr (k + length (wanted client xs), w') \<and> only_sent w1 w' \<and>
    w_out w' = w_out w1 @ map (\<lambda>c. TlsOut (fd_of w1 c) (wire (w_ext w1) (m_payload msg))) (wanted client xs) \<and>
    w_mstore w' = (w_mstore w1)(m \<mapsto> msg\<lparr>m_refcount := (if k + length (wanted client xs) > 0 then 1 else 2)\<rparr>)"
    by (rule Cons.IH [where us = "us @ [x]"])
      (use Cons.prems x k(3) same only_sent_ready(1) [OF visit(2) tail] in auto)
  then obtain w' where w': "each_with w_clients xs ?body k w1 = Inr (k + length (wanted client xs), w')" "only_sent w1 w'"
    "w_out w' = w_out w1 @ map (\<lambda>c. TlsOut (fd_of w1 c) (wire (w_ext w1) (m_payload msg))) (wanted client xs)"
    "w_mstore w' = (w_mstore w1)(m \<mapsto> msg\<lparr>m_refcount := (if k + length (wanted client xs) > 0 then 1 else 2)\<rparr>)" by blast
  have fd: "map (\<lambda>c. TlsOut (fd_of w1 c) b) (wanted client xs) = map (\<lambda>c. TlsOut (fd_of w c) b) (wanted client xs)" for b
    by (rule map_cong) (auto simp: wanted_def intro: only_sent_ready(2) [OF visit(2) tail])
  have "wanted client (x # xs) = wanted client [x] @ wanted client xs" by (simp add: wanted_def)
  then show ?case
    using step w' k only_sent_trans [OF visit(2) w'(2)] fd same(2) by (intro exI [of _ w']) simp
qed

lemma only_sent_mstore:
  assumes "only_sent w w'"
  shows "only_sent w (w'\<lparr>w_mstore := ms\<rparr>)"
proof -
  from assms obtain cs t out ns where "w' = w\<lparr>w_cstore := cs, w_tls := t, w_out := out, w_mstore := ns\<rparr>"
    by (auto simp: only_sent_def)
  then have "w'\<lparr>w_mstore := ms\<rparr> = w\<lparr>w_cstore := cs, w_tls := t, w_out := out, w_mstore := ms\<rparr>" by simp
  moreover have "accepting (w'\<lparr>w_mstore := ms\<rparr>)" "\<forall>c. rel_option touched (w_cstore w c) (w_cstore (w'\<lparr>w_mstore := ms\<rparr>) c)"
    using assms by (simp_all add: only_sent_def accepting_def)
  ultimately show ?thesis unfolding only_sent_def by blast
qed

lemma broadcast_ready:
  assumes "accepting w" and "distinct (w_clients w)" and "all_ready w (w_clients w)"
    and "w_mstore w m = Some msg" and "m_refcount msg = 1" and "sendable (w_ext w) (m_payload msg)"
  shows "\<exists>w'. Client_send_message_except (Client_send_message (Suc (Suc n))) client m w = Inr ((), w') \<and> only_sent w w' \<and>
    w_out w' = w_out w @ map (\<lambda>c. TlsOut (fd_of w c) (wire (w_ext w) (m_payload msg))) (wanted client (w_clients w)) \<and>
    w_mstore w' = (w_mstore w)(m := None)"
proof -
  let ?w = "put_msg m (msg\<lparr>m_refcount := 2\<rparr>) w"
  have inc: "Msg_inc_ref m w = Inr ((), ?w)" using Msg_inc_ref_ok [OF assms(4)] assms(5) by simp
  have os: "only_sent w ?w"
    using assms(1) by (auto simp: only_sent_def put_msg_def accepting_def option.rel_refl touched_refl
        intro!: exI [of _ "w_cstore w"] exI [of _ "w_tls w"] exI [of _ "w_out w"] world.equality)
  have "\<exists>w'. except_loop (Client_send_message (Suc (Suc n))) client m ?w = Inr (0 + length (wanted client (w_clients w)), w') \<and>
    only_sent ?w w' \<and>
    w_out w' = w_out ?w @ map (\<lambda>c. TlsOut (fd_of ?w c) (wire (w_ext ?w) (m_payload msg))) (wanted client (w_clients w)) \<and>
    w_mstore w' = (w_mstore ?w)(m \<mapsto> msg\<lparr>m_refcount := (if 0 + length (wanted client (w_clients w)) > 0 then 1 else 2)\<rparr>)"
  proof -
    have cl: "w_clients ?w = w_clients w" by (simp add: put_msg_def)
    show ?thesis
      unfolding except_loop_def cl
      by (rule except_loop_ready [where us = "[]" and w = ?w and xs = "w_clients w" and msg = msg and count = 0 and m = m])
        (use assms in \<open>auto simp: accepting_def all_ready_def put_msg_def\<close>)
  qed
  then obtain w1 where loop: "except_loop (Client_send_message (Suc (Suc n))) client m ?w = Inr (length (wanted client (w_clients w)), w1)"
    and o1: "only_sent ?w w1"
    and out: "w_out w1 = w_out w @ map (\<lambda>c. TlsOut (fd_of w c) (wire (w_ext w) (m_payload msg))) (wanted client (w_clients w))"
    and ms: "w_mstore w1 = (w_mstore w)(m \<mapsto> msg\<lparr>m_refcount := (if length (wanted client (w_clients w)) > 0 then 1 else 2)\<rparr>)"
    by (auto simp: put_msg_def fd_of_def)
  let ?w' = "w1\<lparr>w_mstore := (w_mstore w)(m := None)\<rparr>"
  have pay: "\<forall>t. m_payload msg \<noteq> P_none t" using assms(6) by (simp add: sendable_def)
  have fin: "bnd (Msg_free m) (\<lambda>_. guarded (length (wanted client (w_clients w)) = 0) (Msg_free m)) w1 = Inr ((), ?w')"
  proof (cases "length (wanted client (w_clients w)) = 0")
    case True
    then have m1: "w_mstore w1 m = Some (msg\<lparr>m_refcount := 2\<rparr>)" by (simp add: ms)
    have f1: "Msg_free m w1 = Inr ((), put_msg m (msg\<lparr>m_refcount := 1\<rparr>) w1)"
      using Msg_free_shared [OF m1] by simp
    have "Msg_free m (put_msg m (msg\<lparr>m_refcount := 1\<rparr>) w1) = Inr ((), ?w')"
      using Msg_free_last [of "put_msg m (msg\<lparr>m_refcount := 1\<rparr>) w1" m "msg\<lparr>m_refcount := 1\<rparr>"] pay
      by (simp add: put_msg_def ms)
    then show ?thesis using True by (simp add: bnd_def f1 guarded_app)
  next
    case False
    then have m1: "w_mstore w1 m = Some (msg\<lparr>m_refcount := 1\<rparr>)" by (simp add: ms)
    have "Msg_free m w1 = Inr ((), ?w')"
      using Msg_free_last [OF m1] pay by (simp add: ms)
    then show ?thesis using False by (simp add: bnd_def guarded_app)
  qed
  have run: "Client_send_message_except (Client_send_message (Suc (Suc n))) client m w = Inr ((), ?w')"
    unfolding Client_send_message_except_def by (simp only: bnd_def inc loop sum.case prod.case) (rule fin [unfolded bnd_def])
  have "only_sent w ?w'"
    by (rule only_sent_mstore) (rule only_sent_trans [OF os o1])
  with run out show ?thesis by (intro exI [of _ ?w']) simp
qed

text \<open>C13: When every client is connected, idle and authenticated and the TLS layer accepts
  what it is given, a message sent to everyone but one client reaches each of the others
  exactly once, whole and in the order of the client list, and is released afterwards,
  whatever the number of recipients (none included).\<close>
theorem broadcast_reaches_everyone:
  assumes "accepting w" and "distinct (w_clients w)" and "all_ready w (w_clients w)"
    and "w_mstore w m = Some msg" and "m_refcount msg = 1" and "sendable (w_ext w) (m_payload msg)"
  shows "\<exists>w'. Client_send_message_except (Client_send_message (Suc (Suc n))) client m w = Inr ((), w') \<and>
    w_out w' = w_out w @ map (\<lambda>c. TlsOut (fd_of w c) (wire (w_ext w) (m_payload msg)))
      (filter (\<lambda>c. Some c \<noteq> client) (w_clients w)) \<and>
    w_mstore w' = (w_mstore w)(m := None) \<and> w_clients w' = w_clients w"
  using broadcast_ready [OF assms, of n client] only_sent_same(1) unfolding wanted_def by blast

lemma demo_ready: "accepting demo" "distinct (w_clients demo)" "all_ready demo (w_clients demo)"
  by (auto simp: accepting_def demo_def boot_world_def idle_tls_def all_ready_def ready_def idle_def
      demo_client_def zero_client_def)

theorem broadcast_reaches_everyone_witness:
  "\<exists>w'. Client_send_message_except (Client_send_message (Suc (Suc 0))) (Some 11)
      20 (put_msg 20 \<lparr>m_refcount = 1, m_unpacked = False, m_payload = P_UDPTunnel \<lparr>udp_packet = [1, 2, 3]\<rparr>\<rparr> demo) = Inr ((), w') \<and>
    w_out w' = [TlsOut 5 [0, 1, 0, 0, 0, 3, 1, 2, 3], TlsOut 7 [0, 1, 0, 0, 0, 3, 1, 2, 3]]"
proof -
  let ?msg = "\<lparr>m_refcount = 1, m_unpacked = False, m_payload = P_UDPTunnel \<lparr>udp_packet = [1, 2, 3]\<rparr>\<rparr>"
  let ?w = "put_msg 20 ?msg demo"
  have a: "accepting ?w" "distinct (w_clients ?w)" "all_ready ?w (w_clients ?w)" "w_mstore ?w 20 = Some ?msg"
    "m_refcount ?msg = 1" "sendable (w_ext ?w) (m_payload ?msg)"
    using demo_ready by (simp_all add: put_msg_def accepting_def all_ready_def sendable_def body_of_def)
  have d: "w_clients ?w = [10, 11, 12]" "fd_of ?w 10 = 5" "fd_of ?w 12 = 7" "w_out ?w = []"
    by (simp_all add: put_msg_def demo_def boot_world_def fd_of_def demo_client_def zero_client_def)
  have b: "wire (w_ext ?w) (m_payload ?msg) = [0, 1, 0, 0, 0, 3, 1, 2, 3]"
    by (simp add: wire_def body_of_def)
  from broadcast_reaches_everyone [OF a, of 0 "Some 11"] show ?thesis
    unfolding b d by (simp add: d del: Client_send_message.simps) blast
qed

end
