(* ===== verification/Fuel.thy ===== *)
theory Fuel
  imports Server
begin

text \<open>
  What the fuel of the model means: it bounds how deep the functions of client.c that call
  each other may nest, and it never shows in an answer. A run that ends with more fuel ends in
  the same way, with the same state.
\<close>

section \<open>Answering more\<close>

text \<open>The second program answers as the first one does, unless the first runs out of fuel.\<close>

named_theorems extends_intros \<open>rules that a program with more fuel answers more\<close>

definition extends :: "('w, 'a) prog \<Rightarrow> ('w, 'a) prog \<Rightarrow> bool" where
  "extends m m' \<longleftrightarrow> (\<forall>w. m w = Inl OutOfFuel \<or> m' w = m w)"

lemma extendsI: "(\<And>w. m w \<noteq> Inl OutOfFuel \<Longrightarrow> m' w = m w) \<Longrightarrow> extends m m'"
  by (auto simp: extends_def)

lemma extendsD: "extends m m' \<Longrightarrow> m w \<noteq> Inl OutOfFuel \<Longrightarrow> m' w = m w"
  by (auto simp: extends_def)

lemma extends_refl: "extends m m"
  by (simp add: extends_def)

lemma extends_trans: "extends m m' \<Longrightarrow> extends m' m'' \<Longrightarrow> extends m m''"
  unfolding extends_def by metis

lemma extends_fuel: "extends (fail OutOfFuel) m"
  by (simp add: extends_def fail_def)

lemma bnd_after_eq:
  assumes "extends m m'" and "\<And>x v. f x v \<noteq> Inl OutOfFuel \<Longrightarrow> f' x v = f x v" and "bnd m f w \<noteq> Inl OutOfFuel"
  shows "bnd m' f' w = bnd m f w"
proof -
  have "m w \<noteq> Inl OutOfFuel" using assms(3) by (auto simp: bnd_def)
  then have "m' w = m w" by (rule extendsD [OF assms(1)])
  with assms(2,3) show ?thesis by (auto simp: bnd_def split: sum.split)
qed

lemma extends_bnd [extends_intros]:
  "extends m m' \<Longrightarrow> (\<And>x. extends (f x) (f' x)) \<Longrightarrow> extends (bnd m f) (bnd m' f')"
  by (rule extendsI) (blast intro: bnd_after_eq dest: extendsD)

lemma extends_if [extends_intros]:
  "extends m m' \<Longrightarrow> extends n n' \<Longrightarrow> extends (if b then m else n) (if b then m' else n')"
  by simp

lemma extends_guarded [extends_intros]: "extends m m' \<Longrightarrow> extends (guarded b m) (guarded b m')"
  by (simp add: guarded_def extends_refl)

lemma extends_option [extends_intros]:
  "extends m m' \<Longrightarrow> (\<And>y. extends (f y) (f' y)) \<Longrightarrow>
   extends (case x of None \<Rightarrow> m | Some y \<Rightarrow> f y) (case x of None \<Rightarrow> m' | Some y \<Rightarrow> f' y)"
  by (simp split: option.split)

lemma extends_list [extends_intros]:
  "extends m m' \<Longrightarrow> (\<And>y ys. extends (f y ys) (f' y ys)) \<Longrightarrow>
   extends (case xs of [] \<Rightarrow> m | y # ys \<Rightarrow> f y ys) (case xs of [] \<Rightarrow> m' | y # ys \<Rightarrow> f' y ys)"
  by (simp split: list.split)

lemma extends_sum [extends_intros]:
  "(\<And>e. extends (f e) (f' e)) \<Longrightarrow> (\<And>x. extends (g x) (g' x)) \<Longrightarrow>
   extends (case s of Inl e \<Rightarrow> f e | Inr x \<Rightarrow> g x) (case s of Inl e \<Rightarrow> f' e | Inr x \<Rightarrow> g' x)"
  by (simp split: sum.split)

lemma extends_prod [extends_intros]:
  "(\<And>a b. extends (f a b) (f' a b)) \<Longrightarrow> extends (case p of (a, b) \<Rightarrow> f a b) (case p of (a, b) \<Rightarrow> f' a b)"
  by (simp split: prod.split)

lemma extends_self: "(\<And>v. extends (m v) (m' v)) \<Longrightarrow> extends (\<lambda>w. m w w) (\<lambda>w. m' w w)"
  unfolding extends_def by blast

lemma extends_block [extends_intros]:
  "extends s s' \<Longrightarrow> extends (block [s]) (block [s'])"
  "extends s s' \<Longrightarrow> extends (block (t # ss)) (block (t' # ss')) \<Longrightarrow> extends (block (s # t # ss)) (block (s' # t' # ss'))"
  by (simp_all add: extends_bnd)

lemma extends_for_each [extends_intros]:
  "(\<And>x. extends (body x) (body' x)) \<Longrightarrow> extends (for_each xs body) (for_each xs body')"
  by (induction xs) (simp_all add: extends_refl extends_bnd)

lemma extends_each_with [extends_intros]:
  assumes "\<And>x a. extends (body x a) (body' x a)"
  shows "extends (each_with L xs body a) (each_with L xs body' a)"
proof (induction xs arbitrary: a)
  case Nil
  then show ?case by (simp add: extends_refl)
next
  case (Cons x xs)
  show ?case
  proof (rule extendsI)
    fix w assume ne: "each_with L (x # xs) body a w \<noteq> Inl OutOfFuel"
    show "each_with L (x # xs) body' a w = each_with L (x # xs) body a w"
    proof (cases "x \<in> set (L w)")
      case False
      with ne extendsD [OF Cons] show ?thesis by simp
    next
      case True
      show ?thesis
        using ne True unfolding each_with.simps
        by (auto intro!: bnd_after_eq [OF assms] dest: extendsD [OF Cons] split: if_splits)
    qed
  qed
qed

lemma extends_each [extends_intros]: "(\<And>x. extends (body x) (body' x)) \<Longrightarrow> extends (each L xs body) (each L xs body')"
  unfolding each_def by (intro extends_each_with)

lemma extends_each_client [extends_intros]:
  "(\<And>x. extends (body x) (body' x)) \<Longrightarrow> extends (each_client body) (each_client body')"
  unfolding each_client_def by (rule extends_self) (rule extends_each)

lemma extends_each_chan_client [extends_intros]:
  "(\<And>x. extends (body x) (body' x)) \<Longrightarrow> extends (each_chan_client ch body) (each_chan_client ch body')"
  unfolding each_chan_client_def by (intro extends_bnd extends_refl extends_each)

lemma extends_each_chan [extends_intros]:
  assumes "\<And>x. extends (body x) (body' x)"
  shows "extends (each_chan xs body) (each_chan xs body')"
proof (induction xs)
  case Nil
  then show ?case by (simp add: extends_refl)
next
  case (Cons x xs)
  show ?case
  proof (rule extendsI)
    fix w assume ne: "each_chan (x # xs) body w \<noteq> Inl OutOfFuel"
    show "each_chan (x # xs) body' w = each_chan (x # xs) body w"
    proof (cases "x \<in> set (w_channels w)")
      case False
      with ne extendsD [OF Cons] show ?thesis by simp
    next
      case True
      show ?thesis
        using ne True unfolding each_chan.simps
        by (auto intro!: bnd_after_eq [OF assms] dest: extendsD [OF Cons] split: if_splits)
    qed
  qed
qed

lemma extends_each_safe [extends_intros]:
  assumes "\<And>x. extends (body x) (body' x)"
  shows "extends (each_safe L xs body) (each_safe L xs body')"
proof (induction xs rule: measure_induct_rule [of length])
  case (less xs)
  show ?case
  proof (cases xs)
    case Nil
    then show ?thesis by (simp add: extends_refl)
  next
    case (Cons x ys)
    show ?thesis
    proof (rule extendsI)
      fix w assume ne: "each_safe L xs body w \<noteq> Inl OutOfFuel"
      let ?zs = "filter (\<lambda>y. y \<in> set (L w)) ys"
      have "length ?zs < length xs" by (simp add: Cons le_imp_less_Suc)
      from extendsD [OF less [OF this]] ne show "each_safe L xs body' w = each_safe L xs body w"
        unfolding Cons each_safe.simps Let_def
        by (intro bnd_after_eq [OF assms]) (auto split: if_splits)
    qed
  qed
qed

section \<open>The operations that send\<close>

text \<open>Two transports, the second with more fuel; everything that sends answers more with it.\<close>

locale fueled =
  fixes send send' :: "cref \<Rightarrow> mref \<Rightarrow> (world, unit) prog"
  assumes more: "extends (send c m) (send' c m)"
begin

lemma extends_except_loop [extends_intros]: "extends (except_loop send c m) (except_loop send' c m)"
  unfolding except_loop_def by (rule extends_self) (intro extends_refl extends_intros more)

lemma extends_Client_send_message_except [extends_intros]: "extends (Client_send_message_except send c m) (Client_send_message_except send' c m)"
  unfolding Client_send_message_except_def Let_def by (intro extends_refl extends_intros more)

lemma fueled_ver: "fueled (\<lambda>c m. Client_send_message_ver send c m v) (\<lambda>c m. Client_send_message_ver send' c m v)"
  unfolding Client_send_message_ver_def by unfold_locales (intro extends_refl extends_intros more)

lemma extends_announce_leave [extends_intros]: "extends (announce_leave send c) (announce_leave send' c)"
  unfolding announce_leave_def Let_def by (intro extends_refl extends_intros more)

lemma extends_Client_free [extends_intros]: "extends (Client_free send c) (Client_free send' c)"
  unfolding Client_free_def Let_def by (intro extends_refl extends_intros more)

lemma extends_Client_disconnect_all: "extends (Client_disconnect_all send) (Client_disconnect_all send')"
  unfolding Client_disconnect_all_def by (rule extends_self) (intro extends_intros)

lemma extends_send_next [extends_intros]: "extends (send_next send c) (send_next send' c)"
  unfolding send_next_def Let_def by (intro extends_refl extends_intros more)

lemma extends_after_write [extends_intros]: "extends (after_write send c rc) (after_write send' c rc)"
  unfolding after_write_def Let_def by (intro extends_refl extends_intros more)

lemma extends_janitor_visit [extends_intros]: "extends (janitor_visit send c) (janitor_visit send' c)"
  unfolding janitor_visit_def Let_def by (intro extends_refl extends_intros more)

lemma extends_Client_janitor [extends_intros]: "extends (Client_janitor send ) (Client_janitor send' )"
  unfolding Client_janitor_def Let_def by (intro extends_refl extends_intros more)

lemma extends_recheckCodecVersions [extends_intros]: "extends (recheckCodecVersions send ) (recheckCodecVersions send' )"
  unfolding recheckCodecVersions_def Let_def by (intro extends_refl extends_intros more)

lemma extends_Client_add [extends_intros]: "extends (Client_add send fd remote) (Client_add send' fd remote)"
  unfolding Client_add_def Let_def by (intro extends_refl extends_intros more)

lemma extends_Client_send_udp [extends_intros]: "extends (Client_send_udp send c data) (Client_send_udp send' c data)"
  unfolding Client_send_udp_def Let_def by (intro extends_refl extends_intros more)

lemma extends_Client_send_voice [extends_intros]: "extends (Client_send_voice send c data k d) (Client_send_voice send' c data k d)"
  unfolding Client_send_voice_def Let_def by (intro extends_refl extends_intros more)

lemma extends_whisper_channel [extends_intros]: "extends (whisper_channel send c data k ct) (whisper_channel send' c data k ct)"
  unfolding whisper_channel_def Let_def by (intro extends_refl extends_intros more)

lemma extends_whisper_channels [extends_intros]:
  "extends (whisper_channels send c t data k is) (whisper_channels send' c t data k is)"
  by (induction "is") (simp_all, (intro extends_refl extends_intros)+)

lemma extends_dispatch_voice [extends_intros]: "extends (dispatch_voice send c ch b t out k) (dispatch_voice send' c ch b t out k)"
  unfolding dispatch_voice_def Let_def by (intro extends_refl extends_intros more)

lemma extends_Client_voiceMsg [extends_intros]: "extends (Client_voiceMsg send c data) (Client_voiceMsg send' c data)"
  unfolding Client_voiceMsg_def Let_def by (intro extends_refl extends_intros more)

lemma extends_request_resync [extends_intros]: "extends (request_resync send c) (request_resync send' c)"
  unfolding request_resync_def Let_def by (intro extends_refl extends_intros more)

lemma extends_checkDecrypt [extends_intros]: "extends (checkDecrypt send c data) (checkDecrypt send' c data)"
  unfolding checkDecrypt_def Let_def by (intro extends_refl extends_intros more)

lemma extends_try_peer [extends_intros]: "extends (try_peer send from data c found) (try_peer send' from data c found)"
  unfolding try_peer_def Let_def by (intro extends_refl extends_intros more)

lemma extends_find_peer [extends_intros]: "extends (find_peer send from data) (find_peer send' from data)"
  unfolding find_peer_def Let_def by (intro extends_refl extends_intros more)

lemma extends_Client_read_udp [extends_intros]: "extends (Client_read_udp send from data) (Client_read_udp send' from data)"
  unfolding Client_read_udp_def
  by (intro extends_refl extends_intros) (auto split: option.split UDPMessageType.split intro!: extends_refl extends_intros)

lemma extends_sendServerReject [extends_intros]: "extends (sendServerReject send c s t) (sendServerReject send' c s t)"
  unfolding sendServerReject_def Let_def by (intro extends_refl extends_intros more)

lemma extends_sendPermissionDenied [extends_intros]: "extends (sendPermissionDenied send c s) (sendPermissionDenied send' c s)"
  unfolding sendPermissionDenied_def Let_def by (intro extends_refl extends_intros more)

lemma extends_send_crypt [extends_intros]: "extends (send_crypt send c) (send_crypt send' c)"
  unfolding send_crypt_def Let_def by (intro extends_refl extends_intros more)

lemma extends_send_channel [extends_intros]: "extends (send_channel send c ch) (send_channel send' c ch)"
  unfolding send_channel_def Let_def by (intro extends_refl extends_intros more)

lemma extends_send_links [extends_intros]: "extends (send_links send c ch) (send_links send' c ch)"
  unfolding send_links_def Let_def by (intro extends_refl extends_intros more)

lemma extends_announce_user [extends_intros]: "extends (announce_user send c) (announce_user send' c)"
  unfolding announce_user_def Let_def by (intro extends_refl extends_intros more)

lemma extends_send_user [extends_intros]: "extends (send_user send c d) (send_user send' c d)"
  unfolding send_user_def Let_def by (intro extends_refl extends_intros more)

lemma extends_send_sync [extends_intros]: "extends (send_sync send c) (send_sync send' c)"
  unfolding send_sync_def Let_def by (intro extends_refl extends_intros more)

lemma extends_send_config [extends_intros]: "extends (send_config send c) (send_config send' c)"
  unfolding send_config_def Let_def by (intro extends_refl extends_intros more)

lemma extends_admit [extends_intros]: "extends (admit send c a name) (admit send' c a name)"
  unfolding admit_def Let_def by (intro extends_refl extends_intros more)

lemma extends_handle_Authenticate [extends_intros]: "extends (handle_Authenticate send c a) (handle_Authenticate send' c a)"
  unfolding handle_Authenticate_def by (intro extends_refl extends_intros more)

lemma extends_handle_Ping [extends_intros]: "extends (handle_Ping send c p) (handle_Ping send' c p)"
  unfolding handle_Ping_def Let_def by (intro extends_refl extends_intros more)

lemma extends_handle_CryptSetup [extends_intros]: "extends (handle_CryptSetup send c p) (handle_CryptSetup send' c p)"
  unfolding handle_CryptSetup_def Let_def by (intro extends_refl extends_intros more)

lemma extends_announce_recording [extends_intros]: "extends (announce_recording send c b) (announce_recording send' c b)"
  unfolding announce_recording_def Client_send_message_except_ver_def
  by (intro extends_refl extends_intros fueled.extends_Client_send_message_except [OF fueled_ver])

lemma extends_finish_state [extends_intros]: "extends (finish_state send c m u r) (finish_state send' c m u r)"
  unfolding finish_state_def Let_def by (intro extends_refl extends_intros more)

lemma extends_move_user [extends_intros]: "extends (move_user send c m u) (move_user send' c m u)"
  unfolding move_user_def Let_def by (intro extends_refl extends_intros more)

lemma extends_handle_UserState [extends_intros]: "extends (handle_UserState send c m u) (handle_UserState send' c m u)"
  unfolding handle_UserState_def Let_def by (intro extends_refl extends_intros more)

lemma extends_forward_to [extends_intros]: "extends (forward_to send m c) (forward_to send' m c)"
  unfolding forward_to_def Let_def by (intro extends_refl extends_intros more)

lemma extends_text_to_channel [extends_intros]: "extends (text_to_channel send c m i) (text_to_channel send' c m i)"
  unfolding text_to_channel_def Let_def by (intro extends_refl extends_intros more)

lemma extends_text_to_session [extends_intros]: "extends (text_to_session send m i) (text_to_session send' m i)"
  unfolding text_to_session_def Let_def by (intro extends_refl extends_intros more)

lemma extends_handle_TextMessage [extends_intros]: "extends (handle_TextMessage send c m t) (handle_TextMessage send' c m t)"
  unfolding handle_TextMessage_def Let_def by (intro extends_refl extends_intros more)

lemma extends_handle_PermissionQuery [extends_intros]: "extends (handle_PermissionQuery send c m q) (handle_PermissionQuery send' c m q)"
  unfolding handle_PermissionQuery_def Let_def by (intro extends_refl extends_intros more)

lemma extends_handle_UDPTunnel [extends_intros]: "extends (handle_UDPTunnel send c p) (handle_UDPTunnel send' c p)"
  unfolding handle_UDPTunnel_def Let_def by (intro extends_refl extends_intros more)

lemma extends_broadcast_new_channel [extends_intros]: "extends (broadcast_new_channel send c m s ch) (broadcast_new_channel send' c m s ch)"
  unfolding broadcast_new_channel_def Let_def by (intro extends_refl extends_intros more)

lemma extends_broadcast_creator [extends_intros]: "extends (broadcast_creator send c ch) (broadcast_creator send' c ch)"
  unfolding broadcast_creator_def Let_def by (intro extends_refl extends_intros more)

lemma extends_join_new_channel [extends_intros]: "extends (join_new_channel send c ch) (join_new_channel send' c ch)"
  unfolding join_new_channel_def Let_def by (intro extends_refl extends_intros more)

lemma extends_open_channel [extends_intros]: "extends (open_channel send c m s ch) (open_channel send' c m s ch)"
  unfolding open_channel_def Let_def by (intro extends_refl extends_intros more)

lemma extends_handle_ChannelState [extends_intros]: "extends (handle_ChannelState send c m s) (handle_ChannelState send' c m s)"
  unfolding handle_ChannelState_def Let_def by (intro extends_refl extends_intros more)

lemma extends_handle_UserStats [extends_intros]: "extends (handle_UserStats send c s) (handle_UserStats send' c s)"
  unfolding handle_UserStats_def Let_def by (intro extends_refl extends_intros more)

lemma extends_handle_case [extends_intros]: "extends (handle_case send c m p) (handle_case send' c m p)"
  unfolding handle_case_def Let_def by (cases p) (simp_all, (intro extends_refl extends_intros)+)

lemma extends_Mh_handle_message [extends_intros]: "extends (Mh_handle_message send c m) (Mh_handle_message send' c m)"
  unfolding Mh_handle_message_def Let_def by (intro extends_refl extends_intros more)

lemma extends_deliver [extends_intros]: "extends (deliver send c cl) (deliver send' c cl)"
  unfolding deliver_def Let_def by (intro extends_refl extends_intros more)

lemma extends_got_bytes [extends_intros]: "extends (got_bytes send c bytes) (got_bytes send' c bytes)"
  unfolding got_bytes_def Let_def by (intro extends_refl extends_intros more)

lemma extends_read_failed [extends_intros]: "extends (read_failed send c e) (read_failed send' c e)"
  unfolding read_failed_def Let_def by (intro extends_refl extends_intros more)

lemma extends_read_round [extends_intros]: "extends (read_round send c) (read_round send' c)"
  unfolding read_round_def Let_def by (intro extends_refl extends_intros more)

lemma extends_read_loop: "extends (read_loop send c k) (read_loop send' c (Suc k))"
proof (induction k)
  case 0
  then show ?case by (simp add: extends_fuel)
next
  case (Suc k)
  show ?case unfolding read_loop.simps(2) [of send] read_loop.simps(2) [of send' c "Suc k"]
    by (intro extends_refl extends_intros Suc)
qed

lemma extends_accept_first [extends_intros]: "extends (accept_first send c) (accept_first send' c)"
  unfolding accept_first_def Let_def by (intro extends_refl extends_intros more)

lemma extends_read_body:
  "extends (write c) (write' c) \<Longrightarrow> extends (read_body send write k c) (read_body send' write' (Suc k) c)"
  unfolding read_body_def by (intro extends_refl extends_intros extends_read_loop)

lemma extends_write_body:
  "extends (read c) (read' c) \<Longrightarrow> extends (write_body read send c) (write_body read' send' c)"
  unfolding write_body_def by (intro extends_refl extends_intros)

end

lemma extends_send_body: "extends (write c) (write' c) \<Longrightarrow> extends (send_body write c m) (send_body write' c m)"
  unfolding send_body_def by (intro extends_refl extends_intros)

section \<open>The knot and the event loop\<close>

lemma knot_step:
  "extends (Client_send_message n c m) (Client_send_message (Suc n) c m) \<and>
   extends (Client_write n c) (Client_write (Suc n) c) \<and> extends (Client_read n c) (Client_read (Suc n) c)"
proof (induction n arbitrary: c m)
  case 0
  then show ?case by (simp add: extends_fuel)
next
  case (Suc n)
  have f: "fueled (Client_send_message n) (Client_send_message (Suc n))" by unfold_locales (use Suc in blast)
  have w: "extends (Client_write n c) (Client_write (Suc n) c)" and r: "extends (Client_read n c) (Client_read (Suc n) c)"
    using Suc by blast+
  have "extends (send_body (Client_write n) c m) (send_body (Client_write (Suc n)) c m)"
    by (rule extends_send_body) (rule w)
  moreover have "extends (write_body (Client_read n) (Client_send_message n) c)
      (write_body (Client_read (Suc n)) (Client_send_message (Suc n)) c)"
    by (rule fueled.extends_write_body [OF f]) (rule r)
  moreover have "extends (read_body (Client_send_message n) (Client_write n) n c)
      (read_body (Client_send_message (Suc n)) (Client_write (Suc n)) (Suc n) c)"
    by (rule fueled.extends_read_body [OF f]) (rule w)
  ultimately show ?case by simp
qed

lemma extends_le:
  assumes "\<And>n. extends (f n) (f (Suc n))" and "n \<le> k"
  shows "extends (f n) (f k)"
  using assms(2) by (induction rule: dec_induct) (auto intro: extends_refl extends_trans assms(1))

interpretation more_fuel: fueled "Client_send_message n" "Client_send_message (Suc n)" for n
  by unfold_locales (use knot_step in blast)

lemma server_turn_step: "extends (server_turn n places p t) (server_turn (Suc n) places p t)"
proof -
  have "extends (Client_read_fd n fd) (Client_read_fd (Suc n) fd)" "extends (Client_write_fd n fd) (Client_write_fd (Suc n) fd)" for fd
    unfolding Client_read_fd_def Client_write_fd_def using knot_step by (intro extends_refl extends_intros; blast)+
  then have "extends (serve_client n revents ifd) (serve_client (Suc n) revents ifd)" for revents ifd
    unfolding serve_client_def by (intro extends_refl extends_intros) auto
  then have "extends (serve n fds p) (serve (Suc n) fds p)" for fds
    unfolding serve_def by (auto split: poll.split intro!: extends_refl extends_intros more_fuel.extends_Client_add
      more_fuel.extends_Client_read_udp)
  then show ?thesis
    unfolding server_turn_def Let_def by (intro extends_refl extends_intros more_fuel.extends_Client_janitor)
qed

lemma demo_getfds: "Client_getfds 6 demo = Inr ([\<lparr>pfd_fd = 5, pfd_out = False\<rparr>, \<lparr>pfd_fd = 6, pfd_out = False\<rparr>, \<lparr>pfd_fd = 7, pfd_out = False\<rparr>], demo)"
  by (simp add: Client_getfds_def demo_def boot_world_def prog_simps poll_entry_def demo_client_def zero_client_def)



end
