(* ===== verification/Names.thy ===== *)
theory Names
  imports Fuel
begin

text \<open>
  No two users have the same name. This invariant is about less of the state than \<open>inv\<close> and
  does not rest on it: a name is given to a client by a login only, after a look at every
  client in the list, and every live client is in the list.
\<close>

section \<open>The invariant\<close>

definition names_ok :: "world \<Rightarrow> bool" where
  "names_ok w \<longleftrightarrow>
     dom (w_cstore w) \<subseteq> set (w_clients w) \<and>
     (\<forall>c cl u. w_cstore w c = Some cl \<longrightarrow> c_username cl = Some u \<longrightarrow>
        c_authenticated cl \<and> 1 \<le> length u \<and> length u < MAX_USERNAME) \<and>
     (\<forall>c cl d dl u. w_cstore w c = Some cl \<longrightarrow> w_cstore w d = Some dl \<longrightarrow>
        c_username cl = Some u \<longrightarrow> c_username dl = Some u \<longrightarrow> c = d)"

definition same_name :: "(client \<Rightarrow> client) \<Rightarrow> bool" where
  "same_name f \<longleftrightarrow> (\<forall>cl. c_username (f cl) = c_username cl \<and> (c_authenticated cl \<longrightarrow> c_authenticated (f cl)))"

lemma names_put_client:
  assumes "names_ok w" and "w_cstore w c = Some cl" and "c_username cl' = c_username cl"
    and "c_authenticated cl \<longrightarrow> c_authenticated cl'"
  shows "names_ok (put_client c cl' w)"
proof -
  have "dom (w_cstore w) \<subseteq> set (w_clients w)" using assms(1) by (simp add: names_ok_def)
  then have "dom (w_cstore (put_client c cl' w)) \<subseteq> set (w_clients (put_client c cl' w))"
    using assms(2) by (auto simp: put_client_def)
  moreover have "\<exists>el. w_cstore w e = Some el \<and> c_username el = c_username dl \<and> (c_authenticated el \<longrightarrow> c_authenticated dl)"
    if "w_cstore (put_client c cl' w) e = Some dl" for e dl
    using that assms(2-4) by (auto simp: put_client_def split: if_splits)
  ultimately show ?thesis using assms(1) unfolding names_ok_def by metis
qed

lemma keeps_name_upd: "same_name f \<Longrightarrow> keeps names_ok (upd_client c f)"
  by (rule keepsI) (auto simp: upd_client_app same_name_def intro: names_put_client split: option.splits)

lemma keeps_names_modify:
  "(\<And>w. w_clients (f w) = w_clients w \<and> w_cstore (f w) = w_cstore w) \<Longrightarrow> keeps names_ok (modify f)"
  by (rule keeps_modify) (simp add: names_ok_def)

lemma keeps_prod: "(\<And>a b. keeps I (f a b)) \<Longrightarrow> keeps I (case p of (a, b) \<Rightarrow> f a b)"
  by (simp split: prod.split)

lemma keeps_sum: "(\<And>a. keeps I (f a)) \<Longrightarrow> (\<And>b. keeps I (g b)) \<Longrightarrow> keeps I (case s of Inl a \<Rightarrow> f a | Inr b \<Rightarrow> g b)"
  by (simp split: sum.split)

lemma keeps_list: "keeps I m \<Longrightarrow> (\<And>y ys. keeps I (f y ys)) \<Longrightarrow> keeps I (case xs of [] \<Rightarrow> m | y # ys \<Rightarrow> f y ys)"
  by (simp split: list.split)

lemmas same_name_simps = same_name_def put_msg_def put_chan_def charge_def ping_client_def apply_mute_def
  version_client_def set_codec_def received_def Let_def

lemmas names_intros = keeps_name_upd keeps_names_modify keeps_prod keeps_sum keeps_list

lemma keeps_names_fresh [keeps_intros]: "keeps names_ok fresh"
  by (rule keepsI) (auto simp: fresh_def names_ok_def)

lemma keeps_names_upd_chan [keeps_intros]: "keeps names_ok (upd_chan ch f)"
  unfolding upd_chan_def by (intro keeps_intros names_intros; simp add: put_chan_def)

lemma keeps_names_emit [keeps_intros]: "keeps names_ok (emit e)"
  unfolding emit_def by (intro names_intros) simp

lemma keeps_names_set_payload [keeps_intros]: "keeps names_ok (set_payload m f)"
  unfolding set_payload_def by (intro keeps_intros names_intros; simp add: same_name_simps)

lemma keeps_names_Msg_create_nopayload [keeps_intros]: "keeps names_ok (Msg_create_nopayload t)"
  unfolding Msg_create_nopayload_def by (intro keeps_intros names_intros; simp add: same_name_simps)

lemma keeps_names_Msg_create [keeps_intros]: "keeps names_ok (Msg_create t)"
  unfolding Msg_create_def by (intro keeps_intros names_intros; simp add: same_name_simps)

lemma keeps_names_Msg_CreateVoiceMsg [keeps_intros]: "keeps names_ok (Msg_CreateVoiceMsg bs)"
  unfolding Msg_CreateVoiceMsg_def by (intro keeps_intros names_intros; simp add: same_name_simps)

lemma keeps_names_Msg_inc_ref [keeps_intros]: "keeps names_ok (Msg_inc_ref m)"
  unfolding Msg_inc_ref_def by (intro keeps_intros names_intros; simp add: same_name_simps)

lemma keeps_names_Msg_free [keeps_intros]: "keeps names_ok (Msg_free m)"
  unfolding Msg_free_def Let_def by (intro keeps_intros names_intros; simp add: same_name_simps)

lemma keeps_names_unpacked_msg [keeps_intros]: "keeps names_ok (unpacked_msg t b)"
  unfolding unpacked_msg_def by (intro keeps_intros names_intros; simp add: same_name_simps)

lemma keeps_names_networkToMessage [keeps_intros]: "keeps names_ok (Msg_networkToMessage data)"
  unfolding Msg_networkToMessage_def Let_def
  by (rule keeps_prod) (auto split: option.split messageType.split intro!: keeps_intros)

lemma keeps_names_compose [keeps_intros]: "keeps names_ok (compose p)"
  unfolding compose_def by (intro keeps_intros names_intros; simp add: same_name_simps)

lemma keeps_names_SSLi_write [keeps_intros]: "keeps names_ok (SSLi_write fd b)"
  unfolding SSLi_write_def by (intro keeps_intros names_intros; simp add: same_name_simps)

lemma keeps_names_SSLi_read [keeps_intros]: "keeps names_ok (SSLi_read n)"
  unfolding SSLi_read_def by (intro keeps_intros names_intros; simp add: same_name_simps)

lemma keeps_names_SSLi_data_pending [keeps_intros]: "keeps names_ok (SSLi_data_pending)"
  unfolding SSLi_data_pending_def by (intro keeps_intros names_intros; simp add: same_name_simps)

lemma keeps_names_SSLi_nonblockaccept [keeps_intros]: "keeps names_ok (SSLi_nonblockaccept)"
  unfolding SSLi_nonblockaccept_def by (intro keeps_intros names_intros; simp add: same_name_simps)

lemma keeps_names_Chan_removeChannel [keeps_intros]: "keeps names_ok (Chan_removeChannel ch)"
  unfolding Chan_removeChannel_def by (intro keeps_intros names_intros; simp add: same_name_simps)

lemma keeps_names_Chan_freeChannel [keeps_intros]: "keeps names_ok (Chan_freeChannel ch)"
  unfolding Chan_freeChannel_def by (intro keeps_intros names_intros; simp add: same_name_simps)

lemma keeps_names_chan_unlink [keeps_intros]: "keeps names_ok (chan_unlink ch c)"
  unfolding chan_unlink_def by (intro keeps_intros names_intros; simp add: same_name_simps)

lemma keeps_names_Chan_userLeave [keeps_intros]: "keeps names_ok (Chan_userLeave c)"
  unfolding Chan_userLeave_def by (intro keeps_intros names_intros; simp add: same_name_simps)

lemma keeps_names_Chan_userJoin [keeps_intros]: "keeps names_ok (Chan_userJoin ch c)"
  unfolding Chan_userJoin_def by (intro keeps_intros names_intros; simp add: same_name_simps)

lemma keeps_names_Chan_userJoin_id [keeps_intros]: "keeps names_ok (Chan_userJoin_id i c)"
  unfolding Chan_userJoin_id_def by (intro keeps_intros names_intros; simp add: same_name_simps)

lemma keeps_names_createChannel [keeps_intros]: "keeps names_ok (createChannel i nm d)"
  unfolding createChannel_def by (intro keeps_intros names_intros; simp add: same_name_simps)

lemma keeps_names_Chan_createChannel [keeps_intros]: "keeps names_ok (Chan_createChannel nm d)"
  unfolding Chan_createChannel_def by (intro keeps_intros names_intros; simp add: same_name_simps)

lemma keeps_names_flat_add [keeps_intros]: "keeps names_ok (flat_add ch)"
  unfolding flat_add_def by (intro keeps_intros names_intros; simp add: same_name_simps)

lemma keeps_names_Chan_addChannel [keeps_intros]: "keeps names_ok (Chan_addChannel p ch)"
  unfolding Chan_addChannel_def by (intro keeps_intros names_intros; simp add: same_name_simps)

lemma keeps_names_Voicetarget_add_session [keeps_intros]: "keeps names_ok (Voicetarget_add_session c t s)"
  unfolding Voicetarget_add_session_def by (intro keeps_intros names_intros; simp add: same_name_simps)

lemma keeps_names_Voicetarget_add_channel [keeps_intros]: "keeps names_ok (Voicetarget_add_channel c t i l k)"
  unfolding Voicetarget_add_channel_def by (intro keeps_intros names_intros; simp add: same_name_simps)

lemma keeps_names_Voicetarget_add_id [keeps_intros]: "keeps names_ok (Voicetarget_add_id c t)"
  unfolding Voicetarget_add_id_def by (intro keeps_intros names_intros reads_keeps [OF reads_del_id]; simp add: same_name_simps)

lemma keeps_names_Voicetarget_free_all [keeps_intros]: "keeps names_ok (Voicetarget_free_all c)"
  unfolding Voicetarget_free_all_def by (intro keeps_intros names_intros; simp add: same_name_simps)

lemma keeps_names_Client_codec_free [keeps_intros]: "keeps names_ok (Client_codec_free c)"
  unfolding Client_codec_free_def by (intro keeps_intros names_intros; simp add: same_name_simps)

lemma keeps_names_Client_close [keeps_intros]: "keeps names_ok (Client_close c)"
  unfolding Client_close_def by (intro keeps_intros names_intros; simp add: same_name_simps)

lemma keeps_names_drop_queue [keeps_intros]: "keeps names_ok (drop_queue c)"
  unfolding drop_queue_def by (intro keeps_intros names_intros; simp add: same_name_simps)

text \<open>The list and the store lose a released client together.\<close>

lemma keeps_names_release [keeps_intros]: "keeps names_ok (release_client c)"
proof (rule keepsI)
  fix w r w' assume N: "names_ok w" and "release_client c w = Inr (r, w')"
  then obtain cl where "w_cstore w c = Some cl" "w' = w\<lparr>w_clients := remove1 c (w_clients w), w_out := w_out w @ [TlsFree (c_tcpfd cl), CloseFd (c_tcpfd cl)],
      w_clientcount := w_clientcount w - 1, w_cstore := (w_cstore w)(c := None)\<rparr>"
    by (auto simp: release_client_def bnd_eq_Inr prog_simps split: option.splits if_splits)
  note w' = this(2)
  have N': "dom (w_cstore w) \<subseteq> set (w_clients w)"
    "\<And>d dl u. w_cstore w d = Some dl \<Longrightarrow> c_username dl = Some u \<Longrightarrow> c_authenticated dl \<and> 1 \<le> length u \<and> length u < MAX_USERNAME"
    "\<And>d dl e el u. w_cstore w d = Some dl \<Longrightarrow> w_cstore w e = Some el \<Longrightarrow> c_username dl = Some u \<Longrightarrow> c_username el = Some u \<Longrightarrow> d = e"
    using N unfolding names_ok_def by blast+
  have old: "w_cstore w d = Some dl" if "w_cstore w' d = Some dl" for d dl
    using that by (auto simp: w' split: if_splits)
  have "dom ((w_cstore w)(c := None)) \<subseteq> set (remove1 c (w_clients w))"
  proof
    fix d assume "d \<in> dom ((w_cstore w)(c := None))"
    then have "d \<noteq> c" "d \<in> dom (w_cstore w)" by (auto split: if_splits)
    with N'(1) show "d \<in> set (remove1 c (w_clients w))" by (auto simp: in_set_remove1)
  qed
  then have "dom (w_cstore w') \<subseteq> set (w_clients w')" by (simp add: w')
  then show "names_ok w'"
    unfolding names_ok_def
  proof (intro conjI allI impI)
    fix d dl u assume "w_cstore w' d = Some dl" "c_username dl = Some u"
    from N'(2) [OF old [OF this(1)] this(2)]
    show "c_authenticated dl" "1 \<le> length u" "length u < MAX_USERNAME" by simp_all
  next
    fix d dl e el u assume a: "w_cstore w' d = Some dl" "w_cstore w' e = Some el" "c_username dl = Some u" "c_username el = Some u"
    show "d = e" by (rule N'(3) [OF old [OF a(1)] old [OF a(2)] a(3,4)])
  qed
qed

lemma keeps_names_Client_codec_add [keeps_intros]: "keeps names_ok (Client_codec_add c v)"
  unfolding Client_codec_add_def by (intro keeps_intros names_intros; simp add: same_name_simps)

lemma keeps_names_elect_codec [keeps_intros]: "keeps names_ok (elect_codec)"
  unfolding elect_codec_def by (intro keeps_intros names_intros reads_keeps [OF reads_map_prog] reads_get; simp add: same_name_simps)

lemma keeps_names_codec_message [keeps_intros]: "keeps names_ok (codec_message)"
  unfolding codec_message_def by (intro keeps_intros names_intros; simp add: same_name_simps)

lemma keeps_names_SSLi_newconnection [keeps_intros]: "keeps names_ok (SSLi_newconnection fd)"
  unfolding SSLi_newconnection_def by (intro keeps_intros) (auto intro!: keeps_intros split: accept_answer.split)

lemma keeps_names_link [keeps_intros]: "c_username cl = None \<Longrightarrow> keeps names_ok (modify (link_client c cl))"
  by (rule keeps_modify) (auto simp: names_ok_def link_client_def put_client_def split: if_splits)

lemma keeps_names_setup_crypt [keeps_intros]: "keeps names_ok (setup_crypt c)"
  unfolding setup_crypt_def by (intro keeps_intros names_intros; simp add: same_name_simps)

lemma keeps_names_join_default [keeps_intros]: "keeps names_ok (join_default c)"
  unfolding join_default_def by (intro keeps_intros names_intros; simp add: same_name_simps)

lemma keeps_names_announce_codecs [keeps_intros]: "keeps names_ok (announce_codecs c vs)"
  unfolding announce_codecs_def by (intro keeps_intros names_intros; simp add: same_name_simps)

lemma keeps_names_restart_idle [keeps_intros]: "keeps names_ok (restart_idle c)"
  unfolding restart_idle_def by (intro keeps_intros names_intros; simp add: same_name_simps)

lemma keeps_names_set_context [keeps_intros]: "keeps names_ok (set_context c x)"
  unfolding set_context_def by (intro keeps_intros names_intros; simp add: same_name_simps)

lemma keeps_names_channel_removed [keeps_intros]: "keeps names_ok (channel_removed i)"
  unfolding channel_removed_def by (intro keeps_intros names_intros; simp add: same_name_simps)

lemma keeps_names_handle_Version [keeps_intros]: "keeps names_ok (handle_Version c v)"
  unfolding handle_Version_def by (intro keeps_intros names_intros; simp add: same_name_simps)

lemma keeps_names_add_target [keeps_intros]: "keeps names_ok (add_target c t v)"
  unfolding add_target_def add_sessions_def by (intro keeps_intros names_intros; simp add: same_name_simps)

lemma keeps_names_handle_VoiceTarget [keeps_intros]: "keeps names_ok (handle_VoiceTarget c v)"
  unfolding handle_VoiceTarget_def Let_def by (intro keeps_intros names_intros; simp add: same_name_simps)

definition welcome_steps :: "transport \<Rightarrow> cref \<Rightarrow> mp_Authenticate \<Rightarrow> (world, unit) prog list" where
  "welcome_steps send c a =
     [setup_crypt c, send_crypt send c, join_default c, announce_codecs c (auth_celt_versions a),
      recheckCodecVersions send, bnd codec_message (send c),
      bnd (gets w_channels) (\<lambda>chs. each_chan chs (send_channel send c)),
      bnd (gets w_channels) (\<lambda>chs. each_chan chs (send_links send c)),
      announce_user send c, each_client (send_user send c), send_sync send c, send_config send c]"


lemma keeps_names_create_temporary [keeps_intros]: "keeps names_ok (create_temporary p s)"
  unfolding create_temporary_def by (intro keeps_intros)

lemma keeps_names_enqueue [keeps_intros]: "keeps names_ok (enqueue c m)"
  unfolding enqueue_def by (intro keeps_intros names_intros; simp add: same_name_def)

section \<open>The operations that send\<close>

locale name_keeper =
  fixes send :: "cref \<Rightarrow> mref \<Rightarrow> (world, unit) prog"
  assumes send_names [keeps_intros]: "keeps names_ok (send c m)"
begin

lemma keeps_names_except_loop [keeps_intros]: "keeps names_ok (except_loop send c m)"
  unfolding except_loop_def by (rule keeps_self) (intro keeps_intros send_names)

lemma keeps_names_Client_send_message_except [keeps_intros]: "keeps names_ok (Client_send_message_except send c m)"
  unfolding Client_send_message_except_def by (intro keeps_intros names_intros send_names; simp add: same_name_simps)

lemma ver_name_keeper: "name_keeper (\<lambda>c m. Client_send_message_ver send c m v)"
  unfolding Client_send_message_ver_def by unfold_locales (intro keeps_intros send_names)

lemma keeps_names_announce_leave [keeps_intros]: "keeps names_ok (announce_leave send c)"
  unfolding announce_leave_def by (intro keeps_intros names_intros send_names; simp add: same_name_simps)

lemma keeps_names_Client_free [keeps_intros]: "keeps names_ok (Client_free send c)"
  unfolding Client_free_def by (intro keeps_intros names_intros send_names; simp add: same_name_simps)

lemma keeps_names_send_next [keeps_intros]: "keeps names_ok (send_next send c)"
  unfolding send_next_def by (intro keeps_intros names_intros send_names; simp add: same_name_simps)

lemma keeps_names_after_write [keeps_intros]: "keeps names_ok (after_write send c rc)"
  unfolding after_write_def by (intro keeps_intros names_intros send_names; simp add: same_name_simps)

lemma keeps_names_disconnect_all [keeps_intros]: "keeps names_ok (Client_disconnect_all send)"
  unfolding Client_disconnect_all_def by (rule keeps_self) (intro keeps_intros)

lemma keeps_names_janitor_visit [keeps_intros]: "keeps names_ok (janitor_visit send c)"
  unfolding janitor_visit_def Let_def by (intro keeps_intros names_intros send_names; simp add: same_name_simps)

lemma keeps_names_Client_janitor [keeps_intros]: "keeps names_ok (Client_janitor send)"
  unfolding Client_janitor_def by (intro keeps_intros names_intros send_names; simp add: same_name_simps)

lemma keeps_names_recheckCodecVersions [keeps_intros]: "keeps names_ok (recheckCodecVersions send)"
  unfolding recheckCodecVersions_def by (intro keeps_intros names_intros send_names; simp add: same_name_simps)

lemma keeps_names_Client_add [keeps_intros]: "keeps names_ok (Client_add send fd remote)"
  unfolding Client_add_def by (intro keeps_intros names_intros send_names reads_keeps [OF reads_findFreeSessionId]; simp add: zero_client_def same_name_simps)

lemma keeps_names_Client_send_udp [keeps_intros]: "keeps names_ok (Client_send_udp send c data)"
  unfolding Client_send_udp_def Let_def by (intro keeps_intros names_intros send_names; simp add: same_name_simps)

lemma keeps_names_Client_send_voice [keeps_intros]: "keeps names_ok (Client_send_voice send c data k d)"
  unfolding Client_send_voice_def by (intro keeps_intros names_intros send_names reads_keeps [OF reads_same_context]; simp add: same_name_simps)

lemma keeps_names_whisper_channel [keeps_intros]: "keeps names_ok (whisper_channel send c data k ct)"
  unfolding whisper_channel_def Let_def by (intro keeps_intros names_intros send_names reads_keeps [OF reads_buildTree(1)]; simp add: same_name_simps)

lemma keeps_names_whisper_channels [keeps_intros]: "keeps names_ok (whisper_channels send c t data k is)"
  by (induction "is") (auto intro!: keeps_intros keeps_get_id)

lemma keeps_names_dispatch_voice [keeps_intros]: "keeps names_ok (dispatch_voice send c ch b t out k)"
  unfolding dispatch_voice_def whisper_sessions_def by (intro keeps_intros names_intros send_names keeps_get_id; simp add: same_name_simps)

lemma keeps_names_Client_voiceMsg [keeps_intros]: "keeps names_ok (Client_voiceMsg send c data)"
  unfolding Client_voiceMsg_def by (intro keeps_intros names_intros send_names; simp add: same_name_simps)

lemma keeps_names_request_resync [keeps_intros]: "keeps names_ok (request_resync send c)"
  unfolding request_resync_def by (intro keeps_intros names_intros send_names; simp add: same_name_simps)

lemma keeps_names_checkDecrypt [keeps_intros]: "keeps names_ok (checkDecrypt send c data)"
  unfolding checkDecrypt_def by (intro keeps_intros names_intros send_names; simp add: same_name_simps)

lemma keeps_names_try_peer [keeps_intros]: "keeps names_ok (try_peer send from data c found)"
  unfolding try_peer_def by (intro keeps_intros names_intros send_names; simp add: same_name_simps)

lemma keeps_names_find_peer [keeps_intros]: "keeps names_ok (find_peer send from data)"
  unfolding find_peer_def by (intro keeps_intros names_intros send_names; simp add: same_name_simps)

lemma keeps_names_read_udp [keeps_intros]: "keeps names_ok (Client_read_udp send from data)"
  unfolding Client_read_udp_def
  by (auto split: option.split UDPMessageType.split prod.split simp: same_name_def
      intro!: keeps_intros keeps_name_upd reads_keeps [OF reads_ping_reply])

lemma keeps_names_sendServerReject [keeps_intros]: "keeps names_ok (sendServerReject send c s t)"
  unfolding sendServerReject_def by (intro keeps_intros names_intros send_names; simp add: same_name_simps)

lemma keeps_names_sendPermissionDenied [keeps_intros]: "keeps names_ok (sendPermissionDenied send c s)"
  unfolding sendPermissionDenied_def by (intro keeps_intros names_intros send_names; simp add: same_name_simps)

lemma keeps_names_send_crypt [keeps_intros]: "keeps names_ok (send_crypt send c)"
  unfolding send_crypt_def by (intro keeps_intros names_intros send_names; simp add: same_name_simps)

lemma keeps_names_send_channel [keeps_intros]: "keeps names_ok (send_channel send c ch)"
  unfolding send_channel_def by (intro keeps_intros names_intros send_names; simp add: same_name_simps)

lemma keeps_names_send_links [keeps_intros]: "keeps names_ok (send_links send c ch)"
  unfolding send_links_def by (intro keeps_intros names_intros send_names reads_keeps [OF reads_map_prog] reads_get; simp add: same_name_simps)

lemma keeps_names_announce_user [keeps_intros]: "keeps names_ok (announce_user send c)"
  unfolding announce_user_def by (intro keeps_intros names_intros send_names reads_keeps [OF reads_read_user]; simp add: same_name_simps)

lemma keeps_names_send_user [keeps_intros]: "keeps names_ok (send_user send c d)"
  unfolding send_user_def by (intro keeps_intros names_intros send_names reads_keeps [OF reads_read_user]; simp add: same_name_simps)

lemma keeps_names_send_sync [keeps_intros]: "keeps names_ok (send_sync send c)"
  unfolding send_sync_def by (intro keeps_intros names_intros send_names; simp add: same_name_simps)

lemma keeps_names_send_config [keeps_intros]: "keeps names_ok (send_config send c)"
  unfolding send_config_def by (intro keeps_intros names_intros send_names; simp add: same_name_simps)

text \<open>A login that is not refused has found no client with the name.\<close>

lemma login_refusal_None:
  assumes "login_refusal a name w = Inr (None, w')"
  shows "1 \<le> length name \<and> length name < MAX_USERNAME \<and>
    (\<forall>c \<in> set (w_clients w). \<forall>cl. w_cstore w c = Some cl \<longrightarrow> \<not> has_name name cl)"
proof -
  let ?rest = "\<lambda>taken. if taken \<noteq> None then ret (Some (''Username already in use'', UsernameInUse))
     else
       bnd (getStrConf PASSPHRASE) (\<lambda>pass.
       bnd (deref pass) (\<lambda>pass.
       if wrong_password pass (auth_password a) then ret (Some (''Wrong server password'', WrongServerPW))
       else if length name = 0 \<or> length name \<ge> MAX_USERNAME then ret (Some (''Invalid username'', InvalidUsername))
       else
         bnd Client_count (\<lambda>count.
         bnd (getIntConf MAX_CLIENTS) (\<lambda>max.
         if count \<ge> max
         then ret (Some (''Server is full (max '' @ decimal_int max @ '' users)'', ServerFull))
         else ret None))))"
  from assms have "bnd (search get_client (has_name name) (w_clients w)) ?rest w = Inr (None, w')"
    by (simp add: login_refusal_def)
  then obtain taken where s: "search get_client (has_name name) (w_clients w) w = Inr (taken, w)"
    and r: "?rest taken w = Inr (None, w')"
    by (rule bnd_readsE) (rule reads_search, rule reads_get)
  from r have "taken = None" "1 \<le> length name \<and> length name < MAX_USERNAME"
    by (auto simp: bnd_eq_Inr ret_app Suc_le_eq split: if_splits)
  with search_None [of get_client "has_name name" "w_clients w" w w] s reads_get show ?thesis
    by (fastforce simp: get_client_app)
qed

lemma names_new_user:
  assumes N: "names_ok w" and c: "w_cstore w c = Some cl" "c_authenticated cl"
    and l: "login_refusal a name w = Inr (None, w')"
  shows "names_ok (put_client c (cl\<lparr>c_username := Some name\<rparr>) w)"
proof -
  note ok = login_refusal_None [OF l]
  have other: "u \<noteq> name" if "w_cstore w d = Some dl" "c_username dl = Some u" for d dl u
  proof
    assume "u = name"
    moreover have "d \<in> set (w_clients w)" "c_authenticated dl" using N that unfolding names_ok_def by blast+
    ultimately show False using ok that by (auto simp: has_name_def strncmp_equal_def)
  qed
  have "dom (w_cstore w) \<subseteq> set (w_clients w)" using N by (simp add: names_ok_def)
  then have "dom (w_cstore (put_client c (cl\<lparr>c_username := Some name\<rparr>) w)) \<subseteq> set (w_clients (put_client c (cl\<lparr>c_username := Some name\<rparr>) w))"
    using c by (auto simp: put_client_def)
  moreover have "c_authenticated el \<and> 1 \<le> length u \<and> length u < MAX_USERNAME"
    if "w_cstore (put_client c (cl\<lparr>c_username := Some name\<rparr>) w) e = Some el" "c_username el = Some u" for e el u
    using that ok c N unfolding names_ok_def put_client_def by (auto split: if_splits)
  moreover have "d = e"
    if "w_cstore (put_client c (cl\<lparr>c_username := Some name\<rparr>) w) d = Some dl" "w_cstore (put_client c (cl\<lparr>c_username := Some name\<rparr>) w) e = Some el"
      "c_username dl = Some u" "c_username el = Some u" for d dl e el u
    using that other N unfolding names_ok_def put_client_def by (auto split: if_splits) (metis option.inject)+
  ultimately show ?thesis unfolding names_ok_def by blast
qed

lemma keeps_names_handle_Authenticate [keeps_intros]: "keeps names_ok (handle_Authenticate send c a)"
proof (rule keepsI)
  fix w r w' assume N: "names_ok w" and run: "handle_Authenticate send c a w = Inr (r, w')"
  then obtain cl where cl: "w_cstore w c = Some cl"
    by (auto simp: handle_Authenticate_def get_client_app bnd_eq_Inr split: option.splits)
  show "names_ok w'"
  proof (cases "auth_username a = None \<or> c_authenticated cl")
    case True
    with run cl N show ?thesis
      by (auto simp: handle_Authenticate_def get_client_app bnd_Inr ret_app split: option.splits)
  next
    case False
    then obtain name where name: "auth_username a = Some name" by auto
    let ?cl = "cl\<lparr>c_authenticated := True\<rparr>"
    let ?w = "put_client c ?cl w"
    let ?after = "\<lambda>refusal. case refusal of
        Some (reason, type) \<Rightarrow> bnd (sendServerReject send c reason type) (\<lambda>_. ret True)
      | None \<Rightarrow> bnd (admit send c a name) (\<lambda>_. ret False)"
    have N1: "names_ok ?w" by (rule names_put_client [OF N cl]) simp_all
    from run cl False name have "bnd (login_refusal a name) ?after ?w = Inr (r, w')"
      by (simp add: handle_Authenticate_def get_client_app bnd_Inr upd_client_app)
    then obtain refusal where lr: "login_refusal a name ?w = Inr (refusal, ?w)" and k: "?after refusal ?w = Inr (r, w')"
      by (rule bnd_readsE) (rule reads_login_refusal)
    show ?thesis
    proof (cases refusal)
      case (Some p)
      obtain reason t where "p = (reason, t)" by fastforce
      with k Some have b: "bnd (sendServerReject send c reason t) (\<lambda>_. ret True) ?w = Inr (r, w')" by simp
      have "keeps names_ok (bnd (sendServerReject send c reason t) (\<lambda>_. ret True))" by (intro keeps_intros)
      from keepsD [OF this b N1] show ?thesis .
    next
      case None
      let ?w2 = "put_client c (?cl\<lparr>c_username := Some name\<rparr>) ?w"
      have c1: "w_cstore ?w c = Some ?cl" by (simp add: put_client_def)
      have N2: "names_ok ?w2" by (rule names_new_user [OF N1 c1 _ lr [unfolded None]]) simp
      from k None have b: "bnd (block (welcome_steps send c a)) (\<lambda>_. ret False) ?w2 = Inr (r, w')"
        using c1 by (simp add: admit_def welcome_steps_def bnd_assoc bnd_Inr upd_client_app)
      have "keeps names_ok (bnd (block (welcome_steps send c a)) (\<lambda>_. ret False))"
        unfolding welcome_steps_def by (intro keeps_intros send_names)
      from keepsD [OF this b N2] show ?thesis .
    qed
  qed
qed

lemma keeps_names_handle_Ping [keeps_intros]: "keeps names_ok (handle_Ping send c p)"
  unfolding handle_Ping_def by (intro keeps_intros names_intros send_names; simp add: same_name_simps)

lemma keeps_names_handle_CryptSetup [keeps_intros]: "keeps names_ok (handle_CryptSetup send c p)"
  unfolding handle_CryptSetup_def by (intro keeps_intros names_intros send_names; simp add: same_name_simps)

lemma keeps_names_announce_recording [keeps_intros]: "keeps names_ok (announce_recording send c b)"
  unfolding announce_recording_def Client_send_message_except_ver_def
  by (intro keeps_intros names_intros name_keeper.keeps_names_Client_send_message_except [OF ver_name_keeper]; simp add: same_name_def)

lemma keeps_names_finish_state [keeps_intros]: "keeps names_ok (finish_state send c m u r)"
  unfolding finish_state_def Let_def by (intro keeps_intros names_intros send_names; simp add: same_name_simps)

lemma keeps_names_move_user [keeps_intros]: "keeps names_ok (move_user send c m u)"
  unfolding move_user_def Let_def by (intro keeps_intros names_intros send_names; simp add: same_name_simps)

lemma keeps_names_handle_UserState [keeps_intros]: "keeps names_ok (handle_UserState send c m u)"
  unfolding handle_UserState_def Let_def by (intro keeps_intros names_intros send_names; simp add: same_name_simps)

lemma keeps_names_forward_to [keeps_intros]: "keeps names_ok (forward_to send m c)"
  unfolding forward_to_def Let_def by (intro keeps_intros names_intros send_names; simp add: same_name_simps)

lemma keeps_names_text_to_channel [keeps_intros]: "keeps names_ok (text_to_channel send c m i)"
  unfolding text_to_channel_def Let_def by (intro keeps_intros names_intros send_names; simp add: same_name_simps)

lemma keeps_names_text_to_session [keeps_intros]: "keeps names_ok (text_to_session send m i)"
  unfolding text_to_session_def Let_def by (intro keeps_intros names_intros send_names; simp add: same_name_simps)

lemma keeps_names_handle_TextMessage [keeps_intros]: "keeps names_ok (handle_TextMessage send c m t)"
  unfolding handle_TextMessage_def Let_def by (intro keeps_intros names_intros send_names; simp add: same_name_simps)

lemma keeps_names_handle_PermissionQuery [keeps_intros]: "keeps names_ok (handle_PermissionQuery send c m q)"
  unfolding handle_PermissionQuery_def Let_def by (intro keeps_intros names_intros send_names; simp add: same_name_simps)

lemma keeps_names_handle_UDPTunnel [keeps_intros]: "keeps names_ok (handle_UDPTunnel send c p)"
  unfolding handle_UDPTunnel_def Let_def by (intro keeps_intros names_intros send_names; simp add: same_name_simps)

lemma keeps_names_broadcast_new_channel [keeps_intros]: "keeps names_ok (broadcast_new_channel send c m s ch)"
  unfolding broadcast_new_channel_def Let_def by (intro keeps_intros names_intros send_names; simp add: same_name_simps)

lemma keeps_names_broadcast_creator [keeps_intros]: "keeps names_ok (broadcast_creator send c ch)"
  unfolding broadcast_creator_def Let_def by (intro keeps_intros names_intros send_names; simp add: same_name_simps)

lemma keeps_names_join_new_channel [keeps_intros]: "keeps names_ok (join_new_channel send c ch)"
  unfolding join_new_channel_def Let_def by (intro keeps_intros names_intros send_names; simp add: same_name_simps)

lemma keeps_names_open_channel [keeps_intros]: "keeps names_ok (open_channel send c m s ch)"
  unfolding open_channel_def Let_def by (intro keeps_intros names_intros send_names; simp add: same_name_simps)

lemma keeps_names_handle_ChannelState [keeps_intros]: "keeps names_ok (handle_ChannelState send c m s)"
  unfolding handle_ChannelState_def Let_def by (intro keeps_intros names_intros send_names; simp add: same_name_simps)

lemma keeps_names_handle_UserStats [keeps_intros]: "keeps names_ok (handle_UserStats send c s)"
  unfolding handle_UserStats_def Let_def by (intro keeps_intros names_intros send_names reads_keeps [OF reads_detail_stats]; simp add: same_name_simps)

lemma keeps_names_handle_case [keeps_intros]: "keeps names_ok (handle_case send c m p)"
  unfolding handle_case_def Let_def by (cases p) (simp_all, (intro keeps_intros)+)

lemma keeps_names_Mh_handle_message [keeps_intros]: "keeps names_ok (Mh_handle_message send c m)"
  unfolding Mh_handle_message_def by (intro keeps_intros names_intros send_names; simp add: same_name_simps)

lemma keeps_names_deliver [keeps_intros]: "keeps names_ok (deliver send c cl)"
  unfolding deliver_def by (intro keeps_intros names_intros send_names; simp add: same_name_simps)

lemma keeps_names_got_bytes [keeps_intros]: "keeps names_ok (got_bytes send c b)"
  unfolding got_bytes_def by (intro keeps_intros names_intros send_names; simp add: same_name_simps)

lemma keeps_names_read_failed [keeps_intros]: "keeps names_ok (read_failed send c e)"
  unfolding read_failed_def by (intro keeps_intros names_intros send_names; simp add: same_name_simps)

lemma keeps_names_read_round [keeps_intros]: "keeps names_ok (read_round send c)"
  unfolding read_round_def by (intro keeps_intros names_intros send_names; simp add: same_name_simps)

lemma keeps_names_read_loop [keeps_intros]: "keeps names_ok (read_loop send c k)"
  by (induction k) (auto intro!: keeps_intros)

lemma keeps_names_accept_first [keeps_intros]: "keeps names_ok (accept_first send c)"
  unfolding accept_first_def by (intro keeps_intros names_intros send_names; simp add: same_name_simps)

lemma keeps_names_read_body: "keeps names_ok (write c) \<Longrightarrow> keeps names_ok (read_body send write k c)"
  unfolding read_body_def by (intro keeps_intros names_intros; simp add: same_name_def)

lemma keeps_names_write_body: "keeps names_ok (read c) \<Longrightarrow> keeps names_ok (write_body read send c)"
  unfolding write_body_def by (intro keeps_intros names_intros; simp add: same_name_def)

end

lemma keeps_names_send_body: "keeps names_ok (write c) \<Longrightarrow> keeps names_ok (send_body write c m)"
  unfolding send_body_def by (intro keeps_intros names_intros; simp add: same_name_def)

section \<open>The server\<close>

lemma names_knot:
  "keeps names_ok (Client_send_message n c m) \<and> keeps names_ok (Client_write n c) \<and> keeps names_ok (Client_read n c)"
proof (induction n arbitrary: c m)
  case 0
  then show ?case by (simp add: keeps_fail)
next
  case (Suc n)
  have k: "name_keeper (Client_send_message n)" by unfold_locales (use Suc in blast)
  have w: "keeps names_ok (Client_write n c)" and r: "keeps names_ok (Client_read n c)" using Suc by blast+
  show ?case
    using keeps_names_send_body [of "Client_write n", OF w] name_keeper.keeps_names_write_body [OF k, of "Client_read n", OF r]
      name_keeper.keeps_names_read_body [OF k, of "Client_write n", OF w] by simp
qed

interpretation nk: name_keeper "Client_send_message n" for n
  by unfold_locales (use names_knot in blast)

lemma keeps_names_turn: "keeps names_ok (server_turn n places p t)"
proof -
  have "keeps names_ok (Client_read_fd n fd)" "keeps names_ok (Client_write_fd n fd)" for fd
    unfolding Client_read_fd_def Client_write_fd_def using names_knot by (intro keeps_intros; blast)+
  then have "keeps names_ok (serve_client n revents ifd)" for revents ifd
    unfolding serve_client_def split_def by (intro keeps_intros)
  then have "keeps names_ok (serve n fds p)" for fds
    unfolding serve_def
    by (auto split: poll.split intro!: keeps_intros nk.keeps_names_Client_add nk.keeps_names_read_udp)
  then show ?thesis
    unfolding server_turn_def Let_def by (intro keeps_intros nk.keeps_names_Client_janitor)
qed

lemma keeps_names_free_id_loop [keeps_intros]: "(\<And>i. keeps names_ok (user i)) \<Longrightarrow> keeps names_ok (free_id_loop user n i)"
  by (induction n arbitrary: i) (auto intro!: keeps_intros)

lemma keeps_names_start_up: "keeps names_ok (start_up n)"
proof -
  have ch: "keeps names_ok (init_channel d i x)" for d i x
    unfolding init_channel_def by (intro keeps_intros names_intros; simp)
  have "keeps names_ok (init_channels n d i)" for d i
    by (induction n arbitrary: i) (auto intro!: keeps_intros ch)
  moreover have "keeps names_ok (init_links n i)" for i
    by (induction n arbitrary: i)
      (auto intro!: keeps_intros names_intros simp: find_named_def link_add_def)
  ultimately show ?thesis
    unfolding start_up_def Chan_init_def Client_init_def getStrConf_def getIntConf_def
    by (intro keeps_intros names_intros; simp add: default_to_root_def keeps_gets)
qed

lemma reachable_names: "reachable x t conf places timer w \<Longrightarrow> names_ok w"
proof (induction rule: reachable.induct)
  case (start n now places w later)
  have "names_ok (boot_world x t conf now)" by (simp add: names_ok_def boot_world_def)
  with start keepsD [OF keeps_names_start_up] show ?case by blast
next
  case (turn places timer w n p now timer' w')
  have "names_ok (w\<lparr>w_now := now\<rparr>)" using turn.IH by (simp add: names_ok_def)
  from keepsD [OF keeps_names_turn turn.hyps(2) this] show ?case .
qed

text \<open>C4: In every state the server reaches, and after every turn from a state where it is so,
  whatever the clients send and however calls nest, a name belongs to one client at most, has
  between 1 and 127 bytes, and its bearer has authenticated.\<close>

theorem user_names_unique:
  "(reachable x t conf places timer w \<longrightarrow> names_ok w) \<and>
   (names_ok v \<longrightarrow> server_turn n k p tm v = Inr (tm', v') \<longrightarrow> names_ok v')"
  using reachable_names keepsD [OF keeps_names_turn] by blast

lemma demo_names: "names_ok demo"
  by (auto simp: names_ok_def demo_def demo_client_def split: if_splits)

theorem user_names_unique_witness:
  "\<exists>w. reachable demo_ext idle_tls demo_conf 6 0 w \<and> names_ok w \<and>
    (\<exists>v. server_turn 1 6 PollInterrupted 1000 demo = Inr (1000, v) \<and> names_ok v)"
proof -
  obtain w where "start_up 3 (boot_world demo_ext idle_tls demo_conf 0) = Inr (6, w)" using demo_boot by blast
  then have r: "reachable demo_ext idle_tls demo_conf 6 (Timer_init 0) w" by (rule reachable.start)
  have due: "\<not> poll_timeout (w_now demo) 1000 \<le> 0"
    by (simp add: demo_def boot_world_def poll_timeout_def Timer_elapsed_def)
  have t: "server_turn 1 6 PollInterrupted 1000 demo = Inr (1000, demo)"
    using due unfolding server_turn_def by (simp add: bnd_Inr demo_getfds Let_def prog_simps serve_def)
  from user_names_unique [of demo_ext idle_tls demo_conf 6 "Timer_init 0" w demo 1 6 PollInterrupted 1000 1000 demo]
  show ?thesis using r t demo_names by (auto simp: Timer_init_def)
qed

end
