(* ===== verification/Admission.thy ===== *)
theory Admission
  imports Names Delivery
begin

text \<open>
  How a connection becomes a user: the greeting of a new connection, the isolation of a
  client that has not authenticated, what a login needs to be admitted, and what a
  refused one leaves behind.
\<close>

section \<open>A new connection\<close>

lemma compose_ok:
  "compose p w = Inr (w_next w, w\<lparr>w_next := Suc (w_next w),
     w_mstore := (w_mstore w)(w_next w \<mapsto> \<lparr>m_refcount = 1, m_unpacked = False, m_payload = p\<rparr>)\<rparr>)"
  unfolding compose_def by (simp add: bnd_def Msg_create_ok set_payload_def prog_simps put_msg_def)

definition new_client :: "world \<Rightarrow> int \<Rightarrow> sockaddr \<Rightarrow> int \<Rightarrow> client" where
  "new_client w fd remote i = zero_client
     \<lparr>c_tcpfd := fd, c_remote_tcp := remote, c_SSLready := True,
      c_availableBandwidth := w_maxBandwidth w, c_lastActivity := Timer_init (w_now w),
      c_connectTime := Timer_init (w_now w), c_idleTime := Timer_init (w_now w), c_sessionId := i\<rparr>"

lemma new_client_idle: "idle (new_client w fd remote i)" "length (c_txbuf (new_client w fd remote i)) = BUFSIZE"
  by (simp_all add: idle_def new_client_def zero_client_def)

lemma greet_new_client:
  assumes I: "inv A w" and acc: "accepting w" and ssl: "tls_accept (w_tls w) (tls_an (w_tls w)) = Accepted"
    and small: "length (w_clients w) < nat INT_MAX - 1" and fits: "sendable (w_ext w) (version_payload (w_ext w))"
  shows "\<exists>i b w'. Client_add (Client_send_message (Suc (Suc n))) fd remote w = Inr (0, w') \<and> length b = BUFSIZE \<and>
    1 \<le> i \<and> (\<forall>c cl. w_cstore w c = Some cl \<longrightarrow> c_sessionId cl \<noteq> i) \<and>
    (\<forall>j. 1 \<le> j \<and> j < i \<longrightarrow> (\<exists>c cl. w_cstore w c = Some cl \<and> c_sessionId cl = j)) \<and>
    w_clients w' = w_clients w @ [w_next w] \<and>
    w_cstore w' = (w_cstore w)(w_next w \<mapsto> wrote (new_client w fd remote i) b) \<and>
    w_out w' = w_out w @ [TlsOut fd (wire (w_ext w) (version_payload (w_ext w)))]"
proof -
  let ?c = "w_next w" and ?p = "version_payload (w_ext w)"
  let ?w1 = "w\<lparr>w_next := Suc (w_next w), w_tls := (w_tls w)\<lparr>tls_an := Suc (tls_an (w_tls w))\<rparr>\<rparr>"
  have fresh: "fresh w = Inr (?c, w\<lparr>w_next := Suc (w_next w)\<rparr>)" by (rule fresh_app)
  have conn: "SSLi_newconnection fd (w\<lparr>w_next := Suc (w_next w)\<rparr>) = Inr (Some True, ?w1)"
    using ssl by (simp add: SSLi_newconnection_def SSLi_nonblockaccept_def bnd_def prog_simps)
  have "inv A ?w1" by (rule inv_core [OF I]) (simp_all add: core_def)
  then have "clients_ok ?w1" by (simp add: inv_def)
  from findFreeSessionId_least [OF this] small obtain i where i: "findFreeSessionId ?w1 = Inr (i, ?w1)" "1 \<le> i"
    "\<forall>c cl. w_cstore w c = Some cl \<longrightarrow> c_sessionId cl \<noteq> i"
    "\<forall>j. 1 \<le> j \<and> j < i \<longrightarrow> (\<exists>c cl. w_cstore w c = Some cl \<and> c_sessionId cl = j)" by auto
  let ?cl = "new_client w fd remote i"
  let ?w2 = "link_client ?c ?cl ?w1"
  let ?msg = "\<lparr>m_refcount = 1, m_unpacked = False, m_payload = ?p\<rparr>"
  let ?w3 = "?w2\<lparr>w_next := Suc (w_next ?w2), w_mstore := (w_mstore ?w2)(w_next ?w2 \<mapsto> ?msg)\<rparr>"
  have e2: "w_ext ?w2 = w_ext w" by (simp add: link_client_def put_client_def)
  have "Client_add (Client_send_message (Suc (Suc n))) fd remote w =
      bnd (Client_send_message (Suc (Suc n)) ?c (w_next ?w2)) (\<lambda>_. ret 0) ?w3"
    using fresh conn i(1,2) e2 compose_ok [of ?p ?w2]
    by (simp add: Client_add_def bnd_def prog_simps new_client_def del: Client_send_message.simps)
  moreover have "accepting ?w3" "w_cstore ?w3 ?c = Some ?cl" "w_mstore ?w3 (w_next ?w2) = Some ?msg"
    "sendable (w_ext ?w3) (m_payload ?msg)" "c_authenticated ?cl \<or> type_of (m_payload ?msg) = Version"
    using acc fits by (simp_all add: accepting_def link_client_def put_client_def version_payload_def)
  from send_idle [OF this(1,2) new_client_idle this(3-5), of n] obtain b where "length b = BUFSIZE"
    and "Client_send_message (Suc (Suc n)) ?c (w_next ?w2) ?w3 = Inr ((), spend (w_next ?w2) ?msg ((put_client ?c (wrote ?cl b) ?w3)
      \<lparr>w_tls := (w_tls ?w3)\<lparr>tls_wn := Suc (tls_wn (w_tls ?w3))\<rparr>,
       w_out := w_out ?w3 @ [TlsOut (c_tcpfd ?cl) (wire (w_ext ?w3) ?p)]\<rparr>))" (is "_ = Inr ((), ?w4)") by auto
  moreover have "w_clients ?w4 = w_clients w @ [?c]" "w_cstore ?w4 = (w_cstore w)(?c \<mapsto> wrote ?cl b)"
    "w_out ?w4 = w_out w @ [TlsOut fd (wire (w_ext w) ?p)]"
    by (simp_all add: spend_def link_client_def put_client_def put_msg_def new_client_def)
  ultimately show ?thesis using i(2-4) by (intro exI [of _ i] exI [of _ b] exI [of _ ?w4]) (simp add: bnd_def ret_app)
qed

text \<open>C28: When the TLS handshake completes at once and the connection takes what is written, a new
  connection becomes the last client, with the smallest session number that is free, no name
  and no channel and not authenticated; it is sent the server's version, and nothing else
  happens to anyone.\<close>

theorem new_connection_greeted:
  assumes "inv A w" and "accepting w" and "tls_accept (w_tls w) (tls_an (w_tls w)) = Accepted"
    and "length (w_clients w) < nat INT_MAX - 1" and "sendable (w_ext w) (version_payload (w_ext w))"
  shows "\<exists>cl w'. Client_add (Client_send_message (Suc (Suc n))) fd remote w = Inr (0, w') \<and>
    c_tcpfd cl = fd \<and> c_remote_tcp cl = remote \<and> \<not> c_authenticated cl \<and> c_username cl = None \<and> c_channel cl = None \<and>
    c_sessionId cl = int (LEAST i. 1 \<le> i \<and> (\<forall>d dl. w_cstore w d = Some dl \<longrightarrow> c_sessionId dl \<noteq> int i)) \<and>
    w_clients w' = w_clients w @ [w_next w] \<and> w_cstore w' = (w_cstore w)(w_next w \<mapsto> cl) \<and>
    w_out w' = w_out w @ [TlsOut fd (wire (w_ext w) (version_payload (w_ext w)))]"
proof -
  from greet_new_client [OF assms, of n fd remote] obtain i b w' where
    run: "Client_add (Client_send_message (Suc (Suc n))) fd remote w = Inr (0, w')" and i: "1 \<le> i"
    "\<forall>c cl. w_cstore w c = Some cl \<longrightarrow> c_sessionId cl \<noteq> i"
    "\<forall>j. 1 \<le> j \<and> j < i \<longrightarrow> (\<exists>c cl. w_cstore w c = Some cl \<and> c_sessionId cl = j)"
    and w': "w_clients w' = w_clients w @ [w_next w]"
    "w_cstore w' = (w_cstore w)(w_next w \<mapsto> wrote (new_client w fd remote i) b)"
    "w_out w' = w_out w @ [TlsOut fd (wire (w_ext w) (version_payload (w_ext w)))]" by blast
  have "(LEAST i. 1 \<le> i \<and> (\<forall>d dl. w_cstore w d = Some dl \<longrightarrow> c_sessionId dl \<noteq> int i)) = nat i"
  proof (rule Least_equality)
    fix j :: nat assume j: "1 \<le> j \<and> (\<forall>d dl. w_cstore w d = Some dl \<longrightarrow> c_sessionId dl \<noteq> int j)"
    have "\<not> int j < i"
    proof
      assume "int j < i"
      with j i(3) [rule_format, of "int j"] show False by auto
    qed
    then show "nat i \<le> j" by simp
  qed (use i in auto)
  then have "c_sessionId (wrote (new_client w fd remote i) b) =
      int (LEAST i. 1 \<le> i \<and> (\<forall>d dl. w_cstore w d = Some dl \<longrightarrow> c_sessionId dl \<noteq> int i))"
    using i(1) by (simp add: wrote_def new_client_def)
  then show ?thesis
    using run w' by (intro exI [of _ "wrote (new_client w fd remote i) b"] exI [of _ w'])
      (simp add: wrote_def new_client_def zero_client_def)
qed

section \<open>Before authentication\<close>

lemma Msg_free_only_messages:
  assumes "Msg_free m w = Inr (r, w')"
  shows "\<exists>ms. w' = w\<lparr>w_mstore := ms\<rparr>"
proof -
  from assms obtain msg x w1 where w1: "w1 = put_msg m x w" and k: "w' = w1 \<or>
      bnd (free_payload msg) (\<lambda>_. modify (\<lambda>w. w\<lparr>w_mstore := (w_mstore w)(m := None)\<rparr>)) w1 = Inr (r, w')"
    by (fastforce simp: Msg_free_def Let_def bnd_eq_Inr [of "get_msg m"] prog_simps split: option.splits if_splits)
  have "reads (free_payload msg)" by (auto simp: free_payload_def reads_ret reads_fail split: payload.split)
  then have "bnd (free_payload msg) f w1 = Inr (r, w') \<Longrightarrow> \<exists>u. f u w1 = Inr (r, w')" for f :: "unit \<Rightarrow> (world, unit) prog"
    by (auto elim: bnd_readsE)
  with k w1 show ?thesis by (fastforce simp: modify_app put_msg_def)
qed

text \<open>C16: As long as a client has not authenticated, a message from it that is not a login can
  change nothing but what the client says about itself and leaves it unauthenticated, without a name, a
  channel or output; its voice packets have no effect; and every message to it other
  than the server's version is dropped.\<close>

theorem stranger_is_isolated:
  assumes "w_cstore w c = Some cl" and "\<not> c_authenticated cl" and "w_mstore w m = Some msg"
  shows "(type_of (m_payload msg) \<noteq> Authenticate \<longrightarrow> Mh_handle_message send c m w = Inr ((), w') \<longrightarrow>
      (\<exists>cl' ms. w' = w\<lparr>w_cstore := (w_cstore w)(c \<mapsto> cl'), w_mstore := ms\<rparr> \<and> \<not> c_authenticated cl' \<and>
        c_username cl' = c_username cl \<and> c_channel cl' = c_channel cl \<and> c_sessionId cl' = c_sessionId cl)) \<and>
    (data \<noteq> [] \<longrightarrow> Client_voiceMsg send c data w = Inr ((), w)) \<and>
    (type_of (m_payload msg) \<noteq> Version \<longrightarrow> Client_send_message (Suc n) c m w = Msg_free m w)"
proof (intro conjI impI)
  assume t: "type_of (m_payload msg) \<noteq> Authenticate" and run: "Mh_handle_message send c m w = Inr ((), w')"
  show "\<exists>cl' ms. w' = w\<lparr>w_cstore := (w_cstore w)(c \<mapsto> cl'), w_mstore := ms\<rparr> \<and> \<not> c_authenticated cl' \<and>
        c_username cl' = c_username cl \<and> c_channel cl' = c_channel cl \<and> c_sessionId cl' = c_sessionId cl"
  proof (cases "type_of (m_payload msg) = Version")
    case False
    with run t assms have "Msg_free m w = Inr ((), w')"
      by (simp add: Mh_handle_message_def bnd_Inr get_client_app get_msg_app)
    from Msg_free_only_messages [OF this] assms show ?thesis by (auto simp: fun_upd_idem intro!: exI [of _ cl])
  next
    case True
    then consider v where "m_payload msg = P_Version v" | "m_payload msg = P_none Version" by (cases "m_payload msg") auto
    then show ?thesis
    proof cases
      case (1 v)
      let ?cl = "cl\<lparr>c_idleTime := snd (Timer_restart (w_now w) (c_idleTime cl))\<rparr>"
      have "Msg_free m (put_client c (version_client v ?cl) (put_client c ?cl w)) = Inr ((), w')"
        using run 1 assms
        by (simp add: Mh_handle_message_def bnd_Inr prog_simps handle_case_def handle_Version_def counts_as_idle_def
            restart_idle_def put_client_def bnd_eq_Inr)
      from Msg_free_only_messages [OF this] obtain ms where "w' = (put_client c (version_client v ?cl) (put_client c ?cl w))\<lparr>w_mstore := ms\<rparr>" ..
      then have "w' = w\<lparr>w_cstore := (w_cstore w)(c \<mapsto> version_client v ?cl), w_mstore := ms\<rparr>" by (simp add: put_client_def)
      moreover have "\<not> c_authenticated (version_client v ?cl)" "c_username (version_client v ?cl) = c_username cl"
        "c_channel (version_client v ?cl) = c_channel cl" "c_sessionId (version_client v ?cl) = c_sessionId cl"
        using assms(2) by (simp_all add: version_client_def)
      ultimately show ?thesis by blast
    next
      case 2
      let ?cl = "cl\<lparr>c_idleTime := snd (Timer_restart (w_now w) (c_idleTime cl))\<rparr>"
      have "Msg_free m (put_client c ?cl w) = Inr ((), w')"
        using run 2 assms
        by (simp add: Mh_handle_message_def bnd_Inr prog_simps handle_case_def counts_as_idle_def
            restart_idle_def put_client_def bnd_eq_Inr)
      from Msg_free_only_messages [OF this] obtain ms where "w' = (put_client c ?cl w)\<lparr>w_mstore := ms\<rparr>" ..
      then have "w' = w\<lparr>w_cstore := (w_cstore w)(c \<mapsto> ?cl), w_mstore := ms\<rparr>" by (simp add: put_client_def)
      then show ?thesis using assms(2) by (intro exI [of _ ?cl] exI [of _ ms]) simp
    qed
  qed
next
  assume "data \<noteq> []"
  then show "Client_voiceMsg send c data w = Inr ((), w)"
    using assms(1,2) by (cases data) (simp_all add: Client_voiceMsg_def bnd_Inr prog_simps)
next
  assume "type_of (m_payload msg) \<noteq> Version"
  then show "Client_send_message (Suc n) c m w = Msg_free m w"
    using assms by (simp add: send_body_def bnd_Inr prog_simps)
qed

section \<open>Admission\<close>

definition passphrase :: "world \<Rightarrow> string" where
  "passphrase w = the (string_or (Some []) ''password'' (w_conf w))"

definition max_users :: "world \<Rightarrow> int" where
  "max_users w = int_or 10 ''max_users'' (w_conf w)"

lemma passphrase_Some: "string_or (Some []) ''password'' (w_conf w) = Some (passphrase w)"
  by (simp add: passphrase_def string_or_def split: option.split)

text \<open>C17: A login is decided in every consistent state, and it is admitted exactly when no
  authenticated client bears the name, the password is right where the server has one,
  the name has 1 to 127 bytes, and the connections, the candidate's own included, are fewer
  than the configured number of users.\<close>

theorem login_decision:
  assumes "inv A w"
  shows "\<exists>refusal. login_refusal a name w = Inr (refusal, w) \<and>
    (refusal = None \<longleftrightarrow> (\<forall>c cl. w_cstore w c = Some cl \<longrightarrow> c_authenticated cl \<longrightarrow>
         (\<forall>u. c_username cl = Some u \<longrightarrow> take 128 u \<noteq> take 128 name)) \<and>
       (passphrase w \<noteq> [] \<longrightarrow> (\<exists>p. auth_password a = Some p \<and> take 512 p = take 512 (passphrase w))) \<and>
       1 \<le> length name \<and> length name < 128 \<and> int (card (dom (w_cstore w))) < max_users w)"
proof -
  let ?free = "\<forall>c cl. w_cstore w c = Some cl \<longrightarrow> \<not> has_name name cl"
  have dom: "set (w_clients w) = dom (w_cstore w)" "distinct (w_clients w)" "w_clientcount w = int (length (w_clients w))"
    using assms by (simp_all add: inv_def clients_ok_def)
  let ?taken = "find (\<lambda>c. has_name name (the (w_cstore w c))) (w_clients w)"
  have s: "search get_client (has_name name) (w_clients w) w = Inr (?taken, w)"
    by (rule search_total) (use dom in \<open>auto simp: get_client_app\<close>)
  have none: "?taken = None \<longleftrightarrow> ?free" unfolding find_None_iff dom(1) by force
  have free: "?free \<longleftrightarrow> (\<forall>c cl. w_cstore w c = Some cl \<longrightarrow> c_authenticated cl \<longrightarrow>
         (\<forall>u. c_username cl = Some u \<longrightarrow> take 128 u \<noteq> take 128 name))"
    by (auto simp: has_name_def strncmp_equal_def split: option.split)
  have count: "w_clientcount w = int (card (dom (w_cstore w)))" using dom distinct_card [OF dom(2)] by simp
  have pass: "wrong_password (passphrase w) (auth_password a) \<longleftrightarrow>
      \<not> (passphrase w \<noteq> [] \<longrightarrow> (\<exists>p. auth_password a = Some p \<and> take 512 p = take 512 (passphrase w)))"
    by (auto simp: wrong_password_def strncmp_equal_def split: option.split)
  have "login_refusal a name w =
      (if ?taken \<noteq> None then Inr (Some (''Username already in use'', UsernameInUse), w)
       else if wrong_password (passphrase w) (auth_password a) then Inr (Some (''Wrong server password'', WrongServerPW), w)
       else if length name = 0 \<or> length name \<ge> MAX_USERNAME then Inr (Some (''Invalid username'', InvalidUsername), w)
       else if w_clientcount w \<ge> max_users w
         then Inr (Some (''Server is full (max '' @ decimal_int (max_users w) @ '' users)'', ServerFull), w)
       else Inr (None, w))"
    using s by (simp add: login_refusal_def bnd_Inr prog_simps getStrConf_def getIntConf_def passphrase_Some
        Client_count_def max_users_def)
  then show ?thesis unfolding none free pass count by (auto simp: Suc_le_eq not_le)
qed

lemma name_taken:
  assumes I: "inv A w" and d: "w_cstore w d = Some dl" "c_authenticated dl" "c_username dl = Some name"
  shows "login_refusal a name w = Inr (Some (''Username already in use'', UsernameInUse), w)"
proof -
  have dom: "set (w_clients w) = dom (w_cstore w)" using I by (simp add: inv_def clients_ok_def)
  let ?taken = "find (\<lambda>c. has_name name (the (w_cstore w c))) (w_clients w)"
  have s: "search get_client (has_name name) (w_clients w) w = Inr (?taken, w)"
    by (rule search_total) (use dom in \<open>auto simp: get_client_app\<close>)
  have "d \<in> set (w_clients w)" "has_name name (the (w_cstore w d))"
    using d dom by (auto simp: has_name_def strncmp_equal_def)
  then have "?taken \<noteq> None" unfolding find_None_iff by blast
  with s show ?thesis by (simp add: login_refusal_def bnd_Inr prog_simps)
qed

text \<open>C35: A login with a name that is taken is answered with a rejection and the connection is
  shut down for writing, but the client has been marked authenticated before the checks and stays
  in the list, without a name, until its connection ends. Telling a user about it, which every login that is
  admitted meanwhile does for each authenticated client, copies the missing name and crashes.\<close>

theorem refused_login_lingers:
  assumes "inv A w" and "accepting w" and "w_cstore w c = Some cl" and "idle cl" and "\<not> c_authenticated cl"
    and "c_username cl = None" and "m < w_next w"
    and "w_mstore w m = Some \<lparr>m_refcount = 1, m_unpacked = u, m_payload = P_Authenticate a\<rparr>"
    and "auth_username a = Some name"
    and "w_cstore w d = Some dl" and "c_authenticated dl" and "c_username dl = Some name"
    and "sendable (w_ext w) (P_Reject \<lparr>rej_has_type = True, rej_type = UsernameInUse, rej_reason = Some ''Username already in use''\<rparr>)"
  shows "\<exists>w' cl'. Mh_handle_message (Client_send_message (Suc (Suc n))) c m w = Inr ((), w') \<and>
    w_out w' = w_out w @ [TlsOut (c_tcpfd cl) (wire (w_ext w)
        (P_Reject \<lparr>rej_has_type = True, rej_type = UsernameInUse, rej_reason = Some ''Username already in use''\<rparr>)),
      TlsShutdown (c_tcpfd cl)] \<and>
    w_clients w' = w_clients w \<and> w_cstore w' = (w_cstore w)(c \<mapsto> cl') \<and>
    c_authenticated cl' \<and> c_username cl' = None \<and> c_shutdown_wait cl' \<and>
    (\<forall>send e. send_user send e c w' = Inl NullDeref)"
proof -
  let ?msg = "\<lparr>m_refcount = 1, m_unpacked = u, m_payload = P_Authenticate a\<rparr>"
  let ?rej = "P_Reject \<lparr>rej_has_type = True, rej_type = UsernameInUse, rej_reason = Some ''Username already in use''\<rparr>"
  let ?cl1 = "cl\<lparr>c_idleTime := snd (Timer_restart (w_now w) (c_idleTime cl)), c_authenticated := True\<rparr>"
  let ?w1 = "put_client c ?cl1 w"
  have I1: "inv A ?w1"
    by (rule inv_put_client [OF assms(1,3)]) (use inv_client [OF assms(1,3)] in \<open>simp_all add: client_ok_def\<close>)
  have "d \<noteq> c" using assms(3,5,10,11) by auto
  then have lr: "login_refusal a name ?w1 = Inr (Some (''Username already in use'', UsernameInUse), ?w1)"
    using name_taken [OF I1, of d dl name a] assms(10-12) by (simp add: put_client_def)
  let ?m = "w_next w"
  let ?rmsg = "\<lparr>m_refcount = 1, m_unpacked = False, m_payload = ?rej\<rparr>"
  let ?w2 = "?w1\<lparr>w_next := Suc ?m, w_mstore := (w_mstore w)(?m \<mapsto> ?rmsg)\<rparr>"
  have comp: "compose ?rej ?w1 = Inr (?m, ?w2)" by (simp add: compose_ok put_client_def)
  have s2: "accepting ?w2" "w_cstore ?w2 c = Some ?cl1" "idle ?cl1" "length (c_txbuf ?cl1) = BUFSIZE"
    "w_mstore ?w2 ?m = Some ?rmsg" "sendable (w_ext ?w2) (m_payload ?rmsg)"
    "c_authenticated ?cl1 \<or> type_of (m_payload ?rmsg) = Version"
    using assms(2,4,13) inv_client [OF assms(1,3)]
    by (simp_all add: accepting_def put_client_def idle_def client_ok_def)
  from send_idle [OF s2, of n] obtain b where
    send: "Client_send_message (Suc (Suc n)) c ?m ?w2 = Inr ((), spend ?m ?rmsg ((put_client c (wrote ?cl1 b) ?w2)
      \<lparr>w_tls := (w_tls ?w2)\<lparr>tls_wn := Suc (tls_wn (w_tls ?w2))\<rparr>,
       w_out := w_out ?w2 @ [TlsOut (c_tcpfd ?cl1) (wire (w_ext ?w2) ?rej)]\<rparr>))" (is "_ = Inr ((), ?w3)") by auto
  have w3: "w_mstore ?w3 m = Some ?msg" "w_cstore ?w3 = (w_cstore w)(c \<mapsto> wrote ?cl1 b)" "w_clients ?w3 = w_clients w"
    "w_out ?w3 = w_out w @ [TlsOut (c_tcpfd cl) (wire (w_ext w) ?rej)]"
    using assms(7,8) by (simp_all add: spend_def put_client_def)
  have fr: "Msg_free m ?w3 = Inr ((), ?w3\<lparr>w_mstore := (w_mstore ?w3)(m := None)\<rparr>)"
    by (rule Msg_free_last [OF w3(1)]) simp_all
  let ?cl4 = "(wrote ?cl1 b)\<lparr>c_shutdown_wait := True\<rparr>"
  let ?w4 = "(put_client c ?cl4 (?w3\<lparr>w_mstore := (w_mstore ?w3)(m := None)\<rparr>))\<lparr>w_out := w_out ?w3 @ [TlsShutdown (c_tcpfd cl)]\<rparr>"
  have cl: "Client_close c (?w3\<lparr>w_mstore := (w_mstore ?w3)(m := None)\<rparr>) = Inr ((), ?w4)"
    using w3(2) by (simp add: Client_close_def bnd_Inr prog_simps put_client_def wrote_def)
  have "Mh_handle_message (Client_send_message (Suc (Suc n))) c m w = Inr ((), ?w4)"
  proof -
    let ?cl0 = "cl\<lparr>c_idleTime := snd (Timer_restart (w_now w) (c_idleTime cl))\<rparr>"
    let ?w0 = "put_client c ?cl0 w"
    have w01: "put_client c (?cl0\<lparr>c_authenticated := True\<rparr>) ?w0 = ?w1" by (simp add: put_client_def)
    have idle: "restart_idle c w = Inr ((), ?w0)"
      using assms(3) by (simp add: restart_idle_def upd_client_app)
    have cl0: "w_cstore ?w0 c = Some ?cl0" "\<not> c_authenticated ?cl0" using assms(5) by (simp_all add: put_client_def)
    have rej: "sendServerReject (Client_send_message (Suc (Suc n))) c ''Username already in use'' UsernameInUse ?w1 = Inr ((), ?w3)"
      using comp send unfolding sendServerReject_def by (simp only: bnd_def sum.case prod.case)
    have "handle_Authenticate (Client_send_message (Suc (Suc n))) c a ?w0 = Inr (True, ?w3)"
      using cl0 assms(9) lr w01 rej
      by (simp add: handle_Authenticate_def bnd_def get_client_app upd_client_app ret_app del: Client_send_message.simps)
    then show ?thesis
      using assms(3,5,8) idle fr cl
      by (simp add: Mh_handle_message_def bnd_def get_client_app get_msg_app counts_as_idle_def handle_case_def guarded_app ret_app
          del: Client_send_message.simps)
  qed
  moreover have "send_user send e c ?w4 = Inl NullDeref" for send e
    using assms(6) by (simp add: send_user_def read_user_def bnd_def prog_simps put_client_def wrote_def)
  moreover have "w_cstore ?w4 = (w_cstore w)(c \<mapsto> ?cl4)" "w_clients ?w4 = w_clients w"
    "w_out ?w4 = w_out w @ [TlsOut (c_tcpfd cl) (wire (w_ext w) ?rej), TlsShutdown (c_tcpfd cl)]"
    using w3 by (simp_all add: put_client_def)
  moreover have "c_authenticated ?cl4" "c_username ?cl4 = None" "c_shutdown_wait ?cl4"
    using assms(6) by (simp_all add: wrote_def)
  ultimately show ?thesis by blast
qed

section \<open>Concrete instances\<close>

definition guest :: client where
  "guest = zero_client\<lparr>c_tcpfd := 9, c_SSLready := True, c_sessionId := 4\<rparr>"

definition demo_guest :: world where
  "demo_guest = link_client 13 guest demo"

lemma demo_guest_inv: "inv {10, 11, 12} demo_guest"
  unfolding demo_guest_def
proof (rule inv_link_client [OF demo_inv])
  show "client_ok guest" by (simp add: guest_def client_ok_def zero_client_def wf_zero INT_MAX_def)
  show "c_sessionId dl \<noteq> c_sessionId guest" if "w_cstore demo d = Some dl" for d dl
    using that by (auto simp: demo_def guest_def demo_client_def split: if_splits)
qed (auto simp: demo_def guest_def zero_client_def)

lemma demo_guest_simps:
  "accepting demo_guest" "w_cstore demo_guest 13 = Some guest" "idle guest" "\<not> c_authenticated guest"
  "c_username guest = None" "w_next demo_guest = 20" "w_cstore demo_guest 10 = Some (demo_client 1 ''ann'' 0)"
  "w_clients demo_guest = [10, 11, 12, 13]" "w_out demo_guest = []" "c_tcpfd guest = 9" "w_ext demo_guest = demo_ext"
  by (simp_all add: demo_guest_def link_client_def put_client_def demo_def boot_world_def accepting_def idle_tls_def
      guest_def zero_client_def idle_def)

theorem new_connection_greeted_witness:
  "\<exists>cl w'. Client_add (Client_send_message 2) 8 zero_sockaddr demo = Inr (0, w') \<and> c_sessionId cl = 4 \<and>
    w_cstore w' = (w_cstore demo)(20 \<mapsto> cl) \<and>
    w_out w' = [TlsOut 8 (wire demo_ext (version_payload demo_ext))]"
proof -
  have s: "w_next demo = 20" "w_ext demo = demo_ext" "w_out demo = []" "w_clients demo = [10, 11, 12]"
    by (simp_all add: demo_def boot_world_def)
  have a: "tls_accept (w_tls demo) (tls_an (w_tls demo)) = Accepted" "length (w_clients demo) < nat INT_MAX - 1"
    "sendable (w_ext demo) (version_payload (w_ext demo))"
    by (simp_all add: s) (simp_all add: demo_def boot_world_def idle_tls_def INT_MAX_def sendable_def version_payload_def
        body_of_def demo_ext_def)
  have "(LEAST i. 1 \<le> i \<and> (\<forall>d dl. w_cstore demo d = Some dl \<longrightarrow> c_sessionId dl \<noteq> int i)) = 4"
  proof (rule Least_equality)
    show "1 \<le> (4::nat) \<and> (\<forall>d dl. w_cstore demo d = Some dl \<longrightarrow> c_sessionId dl \<noteq> int 4)"
      by (auto simp: demo_def demo_client_def split: if_splits)
    fix i :: nat assume i: "1 \<le> i \<and> (\<forall>d dl. w_cstore demo d = Some dl \<longrightarrow> c_sessionId dl \<noteq> int i)"
    have "w_cstore demo 10 = Some (demo_client 1 ''ann'' 0)" "w_cstore demo 11 = Some (demo_client 2 ''bob'' 0)"
      "w_cstore demo 12 = Some (demo_client 3 ''cid'' 2)" by (simp_all add: demo_def)
    then have "c_sessionId (demo_client 1 ''ann'' 0) \<noteq> int i" "c_sessionId (demo_client 2 ''bob'' 0) \<noteq> int i"
      "c_sessionId (demo_client 3 ''cid'' 2) \<noteq> int i" using i by blast+
    with i show "4 \<le> i" by (simp add: demo_client_def)
  qed
  with new_connection_greeted [OF demo_inv demo_ready(1) a, of 0 8 zero_sockaddr] show ?thesis
    unfolding s numeral_2_eq_2 by (auto simp del: Client_send_message.simps)
qed

theorem stranger_is_isolated_witness:
  "let w = put_msg 14 \<lparr>m_refcount = 1, m_unpacked = False, m_payload = P_UDPTunnel \<lparr>udp_packet = []\<rparr>\<rparr> demo_guest in
     Client_voiceMsg (Client_send_message 2) 13 [0, 1, 2] w = Inr ((), w) \<and>
     Client_send_message (Suc 1) 13 14 w = Msg_free 14 w \<and>
     (\<exists>w' cl'. Mh_handle_message (Client_send_message 2) 13 14 w = Inr ((), w') \<and> w_cstore w' = (w_cstore w)(13 \<mapsto> cl') \<and>
        \<not> c_authenticated cl' \<and> w_out w' = w_out w)"
proof -
  let ?msg = "\<lparr>m_refcount = 1, m_unpacked = False, m_payload = P_UDPTunnel \<lparr>udp_packet = []\<rparr>\<rparr>"
  let ?w = "put_msg 14 ?msg demo_guest"
  have w: "w_cstore ?w 13 = Some guest" "w_mstore ?w 14 = Some ?msg" using demo_guest_simps by (simp_all add: put_msg_def)
  have t: "type_of (m_payload ?msg) \<noteq> Version" "type_of (m_payload ?msg) \<noteq> Authenticate" by simp_all
  have "Msg_free 14 ?w = Inr ((), ?w\<lparr>w_mstore := (w_mstore ?w)(14 := None)\<rparr>)" by (rule Msg_free_last [OF w(2)]) simp_all
  then have "Mh_handle_message (Client_send_message 2) 13 14 ?w = Inr ((), ?w\<lparr>w_mstore := (w_mstore ?w)(14 := None)\<rparr>)" (is "_ = Inr ((), ?w')")
    using w demo_guest_simps(4)
    by (simp add: Mh_handle_message_def bnd_Inr get_client_app get_msg_app)
  with stranger_is_isolated [OF w(1) demo_guest_simps(4) w(2), of "Client_send_message 2" ?w' "[0, 1, 2]" 1] t
  have "Client_voiceMsg (Client_send_message 2) 13 [0, 1, 2] ?w = Inr ((), ?w)"
    "Client_send_message (Suc 1) 13 14 ?w = Msg_free 14 ?w"
    "\<exists>w' cl'. Mh_handle_message (Client_send_message 2) 13 14 ?w = Inr ((), w') \<and> w_cstore w' = (w_cstore ?w)(13 \<mapsto> cl') \<and>
        \<not> c_authenticated cl' \<and> w_out w' = w_out ?w"
    by (blast, blast, fastforce simp del: Client_send_message.simps)
  then show ?thesis unfolding Let_def by blast
qed

theorem login_decision_witness:
  "login_refusal init_Authenticate ''dan'' demo = Inr (None, demo) \<and>
   (\<exists>r. login_refusal init_Authenticate ''ann'' demo = Inr (Some r, demo))"
proof -
  have d: "dom (w_cstore demo) = {10, 11, 12}" "max_users demo = 5" "passphrase demo = []"
    by (auto simp: demo_def boot_world_def max_users_def passphrase_def demo_conf_def int_or_def string_or_def split: if_splits)
  have n: "c_username cl \<noteq> Some ''dan''" "c_username cl = Some u \<Longrightarrow> length u = 3" if "w_cstore demo c = Some cl" for c cl u
    using that by (auto simp: demo_def demo_client_def split: if_splits)
  have a: "w_cstore demo 10 = Some (demo_client 1 ''ann'' 0)" "c_authenticated (demo_client 1 ''ann'' 0)"
    "c_username (demo_client 1 ''ann'' 0) = Some ''ann''"
    by (simp_all add: demo_def demo_client_def)
  from login_decision [OF demo_inv, of init_Authenticate "''dan''"] have "login_refusal init_Authenticate ''dan'' demo = Inr (None, demo)"
    unfolding d using n by (auto simp: INT_MAX_def)
  moreover from login_decision [OF demo_inv, of init_Authenticate "''ann''"] obtain r where
    "login_refusal init_Authenticate ''ann'' demo = Inr (r, demo)" "r \<noteq> None" using a by blast
  ultimately show ?thesis by auto
qed

theorem refused_login_lingers_witness:
  "\<exists>w' cl'. Mh_handle_message (Client_send_message 2) 13 14
      (put_msg 14 \<lparr>m_refcount = 1, m_unpacked = True, m_payload = P_Authenticate (init_Authenticate\<lparr>auth_username := Some ''ann''\<rparr>)\<rparr> demo_guest) = Inr ((), w') \<and>
    w_cstore w' 13 = Some cl' \<and> c_authenticated cl' \<and> c_username cl' = None \<and>
    send_user (Client_send_message 2) 10 13 w' = Inl NullDeref"
proof -
  let ?a = "init_Authenticate\<lparr>auth_username := Some ''ann''\<rparr>"
  let ?msg = "\<lparr>m_refcount = 1, m_unpacked = True, m_payload = P_Authenticate ?a\<rparr>"
  let ?w = "put_msg 14 ?msg demo_guest"
  have I: "inv {10, 11, 12} ?w" by (rule inv_core [OF demo_guest_inv]) (simp_all add: core_def put_msg_def)
  have s: "accepting ?w" "w_cstore ?w 13 = Some guest" "14 < w_next ?w" "w_mstore ?w 14 = Some ?msg"
    "w_cstore ?w 10 = Some (demo_client 1 ''ann'' 0)" "w_ext ?w = demo_ext"
    using demo_guest_simps by (simp_all add: put_msg_def accepting_def)
  have r: "sendable (w_ext ?w) (P_Reject \<lparr>rej_has_type = True, rej_type = UsernameInUse, rej_reason = Some ''Username already in use''\<rparr>)"
    unfolding s(6) by (simp add: sendable_def body_of_def demo_ext_def)
  have u: "auth_username ?a = Some ''ann''" "c_authenticated (demo_client 1 ''ann'' 0)"
    "c_username (demo_client 1 ''ann'' 0) = Some ''ann''"
    by (simp_all add: demo_client_def)
  from refused_login_lingers [OF I s(1,2) demo_guest_simps(3-5) s(3,4) u(1) s(5) u(2,3) r, of 0] show ?thesis
    by (auto simp: numeral_2_eq_2 simp del: Client_send_message.simps)
qed

end
