(* ===== verification/Relay.thy ===== *)
theory Relay
  imports Admission
begin

text \<open>
  What becomes of a voice packet: its format and the bounds of the code that rewrites it,
  and who hears it.
\<close>

section \<open>The format\<close>

text \<open>A frame is a byte with its length, at most 127, and its contents; all but the last
  have the top bit of the length byte set.\<close>

fun frame_bytes :: "byte list list \<Rightarrow> byte list" where
  "frame_bytes [] = []"
| "frame_bytes [f] = of_nat (length f) # f"
| "frame_bytes (f # g # fs) = (of_nat (length f) OR 0x80) # f @ frame_bytes (g # fs)"

fun frames_ok :: "byte list list \<Rightarrow> bool" where
  "frames_ok [] \<longleftrightarrow> False"
| "frames_ok [f] \<longleftrightarrow> length f < 128"
| "frames_ok (f # g # fs) \<longleftrightarrow> f \<noteq> [] \<and> length f < 128 \<and> frames_ok (g # fs)"

lemma frame_header:
  assumes "k < 128"
  shows "unat ((of_nat k :: byte) AND 0x7f) = k" "(of_nat k :: byte) AND 0x80 = 0"
    "unat (((of_nat k :: byte) OR 0x80) AND 0x7f) = k" "((of_nat k :: byte) OR 0x80) AND 0x80 \<noteq> 0"
proof -
  have m: "(0x7f :: byte) = mask 7" "(0x80 :: byte) = push_bit 7 (mask 1)" by (simp_all add: mask_eq_exp_minus_1)
  have bm: "bit (0x7f :: byte) n \<longleftrightarrow> n < 7" "bit (0x80 :: byte) n \<longleftrightarrow> n = 7" for n
    unfolding m by (auto simp only: bit_push_bit_iff bit_mask_iff possible_bit_word) auto
  have "(of_nat k :: byte) < 2 ^ 7"
    using assms by (simp add: word_less_nat_alt unsigned_of_nat take_bit_nat_eq_self)
  then have b: "bit (of_nat k :: byte) n \<Longrightarrow> n < 7" for n by (rule bit_less_2p) simp_all
  have low: "(of_nat k :: byte) AND 0x7f = of_nat k" "((of_nat k :: byte) OR 0x80) AND 0x7f = of_nat k"
    by (rule bit_word_eqI, simp only: bit_and_iff bit_or_iff bm, use b in auto)+
  have "unat (of_nat k :: byte) = k" using assms by (simp add: unsigned_of_nat take_bit_nat_eq_self)
  with low show "unat ((of_nat k :: byte) AND 0x7f) = k" "unat (((of_nat k :: byte) OR 0x80) AND 0x7f) = k" by simp_all
  show "(of_nat k :: byte) AND 0x80 = 0"
    by (rule bit_word_eqI, simp only: bit_and_iff bm, use b in auto)
  have "bit (((of_nat k :: byte) OR 0x80) AND 0x80) 7" by (simp only: bit_and_iff bit_or_iff bm) simp
  then show "((of_nat k :: byte) OR 0x80) AND 0x80 \<noteq> 0" by (metis bit_0_eq bot_apply bot_bool_def)
qed

lemma wf_skip_frames:
  "wf_pds p \<Longrightarrow> \<exists>p'. skip_frames p = Inr ((), p') \<and> wf_pds p' \<and> pdata p' = pdata p \<and> maxsize p' = maxsize p \<and> offset p \<le> offset p'"
proof (induction p rule: skip_frames.induct)
  case (1 p)
  obtain b p1 where p1: "Pds_next8 p = Inr (b, p1)" "wf_pds p1" "pdata p1 = pdata p" "maxsize p1 = maxsize p" "offset p \<le> offset p1"
    using wf_next8 [OF "1.prems"] by blast
  let ?k = "unat (b AND 0x7f)"
  have "?k < 2 ^ 31" by (rule less_trans [of _ "2 ^ LENGTH(8)"]) (rule unsigned_less, simp)
  note sk = wf_skip [OF p1(2) this]
  show ?case
  proof (cases "offset p1 + ?k \<le> maxsize p1")
    case False
    with sk p1 show ?thesis by (subst skip_frames.simps) (simp add: wf_pds_def)
  next
    case True
    let ?p2 = "p1\<lparr>offset := offset p1 + ?k\<rparr>"
    have s2: "Pds_skip ?k p1 = Inr (?k, ?p2)" using sk True by simp
    have wf2: "wf_pds ?p2" using p1(2) True by (simp add: wf_pds_def)
    show ?thesis
    proof (cases "b AND 0x80 \<noteq> 0 \<and> ?k > 0")
      case True
      then have lt: "offset p < offset ?p2" using p1(5) by simp
      from "1.IH" [OF p1(1) refl s2 refl True lt wf2] p1 lt True s2 show ?thesis
        by (subst skip_frames.simps) auto
    next
      case False
      with p1 s2 wf2 show ?thesis by (subst skip_frames.simps) auto
    qed
  qed
qed

lemma skip_frames_exact:
  assumes "frames_ok fs" and "rest p = frame_bytes fs @ pos" and "maxsize p < 2 ^ 31" and "maxsize p = length (pdata p)"
  shows "skip_frames p = Inr ((), adv (length (frame_bytes fs)) p)"
  using assms
proof (induction fs arbitrary: p rule: frame_bytes.induct)
  case 1
  then show ?case by simp
next
  case (2 f)
  have h: "Pds_next8 p = Inr (of_nat (length f), adv 1 p)" using 2 next8_rest [of p] by simp
  have "length (rest p) = maxsize p - offset p" using 2(4) by (simp add: rest_def)
  with 2(2) have "offset p + 1 + length f \<le> maxsize p" by simp
  with 2(3) frame_header [of "length f"] 2(1) h show ?case
    by (subst skip_frames.simps) (simp add: Pds_skip_def adv_def)
next
  case (3 f g fs)
  have k: "length f < 128" "f \<noteq> []" using 3(2) by simp_all
  have h: "Pds_next8 p = Inr (of_nat (length f) OR 0x80, adv 1 p)" using 3(3) next8_rest [of p] by simp
  have "length (rest p) = maxsize p - offset p" using 3(5) by (simp add: rest_def)
  with 3(3) have b: "offset p + 1 + length f \<le> maxsize p" by simp
  let ?p2 = "adv (1 + length f) p"
  have "rest ?p2 = frame_bytes (g # fs) @ pos" using 3(3) by (simp add: rest_adv)
  with 3(1) [of ?p2] 3(2,4,5) have IH: "skip_frames ?p2 = Inr ((), adv (length (frame_bytes (g # fs))) ?p2)" by simp
  have s: "Pds_skip (length f) (adv 1 p) = Inr (length f, ?p2)"
    using b 3(4) by (simp add: Pds_skip_def adv_def)
  show ?case
    using h s k IH frame_header [OF k(1)] by (subst skip_frames.simps) (simp add: adv_def add.commute add.left_commute)
qed

definition voice_payload :: "u64 \<Rightarrow> byte list list \<Rightarrow> byte list \<Rightarrow> byte list" where
  "voice_payload sequence fs position = numval_bytes sequence @ frame_bytes fs @ position"

lemma create_wf: "length buf < 2 ^ 31 \<Longrightarrow> wf_pds (Pds_create buf (int (length buf)))"
  "length buf < 2 ^ 31 \<Longrightarrow> rest (Pds_create buf (int (length buf))) = buf"
  "length buf < 2 ^ 31 \<Longrightarrow> maxsize (Pds_create buf (int (length buf))) = length buf"
  by (simp_all add: wf_pds_def Pds_create_def u32_of_int_def rest_def unsigned_of_nat take_bit_nat_eq_self)

lemma positional_length_wf:
  assumes "length payload < 2 ^ 31"
  obtains k where "positional_length payload = Inr k" and "k \<le> length payload"
proof -
  let ?p = "Pds_create payload (int (length payload))"
  obtain v p1 where p1: "Pds_get_numval ?p = Inr (v, p1)" "wf_pds p1" "maxsize p1 = maxsize ?p"
    using wf_get_numval [OF create_wf(1) [OF assms]] by blast
  obtain p2 where p2: "skip_frames p1 = Inr ((), p2)" "maxsize p2 = maxsize p1"
    using wf_skip_frames [OF p1(2)] by blast
  have "positional_length payload = Inr (maxsize p2 - offset p2)"
    by (simp add: positional_length_def bnd_Inr p1(1) p2(1))
  moreover have "maxsize p2 - offset p2 \<le> length payload"
    using p1(3) p2(2) create_wf(3) [OF assms] by simp
  ultimately show thesis by (rule that)
qed

lemma positional_length_exact:
  assumes "frames_ok fs" and "length (voice_payload sequence fs pos) < 2 ^ 31"
  shows "positional_length (voice_payload sequence fs pos) = Inr (length pos)"
proof -
  let ?b = "voice_payload sequence fs pos"
  let ?p = "Pds_create ?b (int (length ?b))"
  let ?k = "length (numval_bytes sequence)"
  have r: "rest ?p = numval_bytes sequence @ frame_bytes fs @ pos"
    using create_wf(2) [OF assms(2)] by (simp add: voice_payload_def)
  have g: "Pds_get_numval ?p = Inr (sequence, adv ?k ?p)" by (rule get_numval_numval_bytes) (rule r)
  have "rest (adv ?k ?p) = frame_bytes fs @ pos" by (simp add: rest_adv r)
  moreover have "maxsize (adv ?k ?p) < 2 ^ 31" "maxsize (adv ?k ?p) = length (pdata (adv ?k ?p))"
    using create_wf(3) [OF assms(2)] assms(2) by (simp_all add: Pds_create_def)
  ultimately have s: "skip_frames (adv ?k ?p) = Inr ((), adv (length (frame_bytes fs)) (adv ?k ?p))"
    by (rule skip_frames_exact [OF assms(1)])
  have "offset ?p = 0" by (simp add: Pds_create_def)
  moreover have "length ?b = ?k + length (frame_bytes fs) + length pos" by (simp add: voice_payload_def)
  ultimately show ?thesis
    using g s create_wf(3) [OF assms(2)] by (simp add: positional_length_def bnd_Inr)
qed

lemma append_nosize_wf:
  assumes "wf_pds p"
  shows "\<exists>p'. Pds_append_data_nosize src (length src) p = Inr ((), p') \<and> offset p' \<le> maxsize p \<and> length (pdata p') = length (pdata p)"
proof (cases "offset p + length src \<le> maxsize p")
  case True
  then have "room p (length src)" using assms by (auto simp: room_def wf_pds_def)
  from append_nosize_room [OF this order.refl] assms True show ?thesis
    by (auto simp: wf_pds_def put_def)
next
  case False
  let ?left = "maxsize p - offset p"
  have o: "offset p \<le> maxsize p" "maxsize p \<le> length (pdata p)" "maxsize p < 2 ^ 31" using assms by (simp_all add: wf_pds_def)
  then have "maxsize p + 2 ^ 32 - offset p = ?left + 2 ^ 32" "?left < 2 ^ 32" by simp_all
  then have "(maxsize p + 2 ^ 32 - offset p) mod 2 ^ 32 = ?left" by (simp only: mod_add_self2 mod_less)
  moreover have "\<not> length src \<le> ?left" "?left < 2 ^ 31" "offset p + ?left = maxsize p" using False o by simp_all
  ultimately show ?thesis using o by (simp add: Pds_append_data_nosize_def Let_def)
qed

lemma relayed_room:
  fixes session :: int
  defines "n \<equiv> length (numval_bytes (word_of_int session :: u64))"
  shows "\<exists>out. relayed session payload = Inr out \<and> length out \<le> UDP_PACKET_SIZE - 1 \<and>
    (n + length payload \<le> UDP_PACKET_SIZE - 1 \<longrightarrow> out = numval_bytes (word_of_int session) @ payload)"
proof -
  let ?buf = "replicate (UDP_PACKET_SIZE - 1) 0 :: byte list"
  let ?p = "Pds_create ?buf (int (length ?buf))"
  let ?s = "numval_bytes (word_of_int session :: u64)"
  have n: "n \<le> 9" unfolding n_def using length_numval_bytes by blast
  have p: "maxsize ?p = 1023" "pdata ?p = ?buf" "offset ?p = 0"
    using create_wf(3) [of ?buf] by (simp_all add: Pds_create_def)
  then have "room ?p n" using n by (simp add: room_def)
  then have a: "Pds_add_numval (word_of_int session) ?p = Inr ((), put ?s ?p)"
    unfolding n_def by (rule Pds_add_numval_room)
  let ?q = "put ?s ?p"
  have q: "offset ?q = n" "maxsize ?q = 1023" "length (pdata ?q) = 1023" "take n (pdata ?q) = ?s"
    using n p by (simp_all add: put_def n_def overwrite_def)
  then have "wf_pds ?q" using n by (simp add: wf_pds_def)
  from append_nosize_wf [OF this, of payload] obtain q' where
    q': "Pds_append_data_nosize payload (length payload) ?q = Inr ((), q')" "offset q' \<le> 1023" "length (pdata q') = 1023"
    using q by auto
  have r: "relayed session payload = Inr (take (offset q') (pdata q'))"
    using a q' by (simp add: relayed_def bnd_Inr)
  moreover have "take (offset q') (pdata q') = ?s @ payload" if "n + length payload \<le> UDP_PACKET_SIZE - 1"
  proof -
    have room: "room ?q (length payload)" using that q by (simp add: room_def)
    have "maxsize ?q < 2 ^ 31" using q by simp
    from append_nosize_room [OF room order.refl this] q'(1) have "q' = put payload ?q" by simp
    then have "offset q' = n + length payload" "pdata q' = overwrite (pdata ?q) n payload"
      using q(1) by (simp_all add: put_def)
    moreover have "take (n + length payload) (overwrite (pdata ?q) n payload) = take n (pdata ?q) @ payload"
      by (rule take_overwrite) (use that q(3) in simp)
    ultimately show ?thesis using q(4) by simp
  qed
  ultimately show ?thesis using q' by simp
qed

text \<open>C29: Taking a voice packet apart and putting the speaker's session in front never reads or writes
  outside a buffer and always ends, whatever bytes the packet holds, and what is relayed fits
  the send buffer. On a well-formed packet the positional data is recognised exactly, and a packet
  that fits is relayed unchanged behind the session number.\<close>

theorem voice_packet_bounds:
  assumes "length payload < 2 ^ 31"
  shows "\<exists>k out. positional_length payload = Inr k \<and> k \<le> length payload \<and>
    relayed session payload = Inr out \<and> length out \<le> 1023 \<and>
    (length payload \<le> 1014 \<longrightarrow> out = numval_bytes (word_of_int session) @ payload) \<and>
    (\<forall>sequence fs pos. frames_ok fs \<and> payload = voice_payload sequence fs pos \<longrightarrow> k = length pos)"
proof -
  obtain k where k: "positional_length payload = Inr k" "k \<le> length payload" by (rule positional_length_wf [OF assms])
  have "k = length pos" if "frames_ok fs" "payload = voice_payload sequence fs pos" for sequence fs pos
    using positional_length_exact [OF that(1), of sequence pos] that(2) k assms by simp
  moreover have "length (numval_bytes (word_of_int session :: u64)) \<le> 9" using length_numval_bytes by blast
  ultimately show ?thesis using k relayed_room [of session payload] by fastforce
qed

theorem voice_packet_bounds_witness:
  "positional_length [1, 0x82, 7, 7, 1, 9, 5, 6, 4] = Inr 3 \<and>
   relayed 3 [1, 0x82, 7, 7, 1, 9, 5, 6, 4] = Inr [3, 1, 0x82, 7, 7, 1, 9, 5, 6, 4]"
proof -
  let ?p = "[1, 0x82, 7, 7, 1, 9, 5, 6, 4] :: byte list"
  have v: "numval_bytes 1 = [1]" "numval_bytes (word_of_int 3) = [3]"
    by (simp_all add: numval_bytes_def small_negative_def unsigned_bytes_def)
  have f: "?p = voice_payload 1 [[7, 7], [9]] [5, 6, 4]" by (simp add: voice_payload_def v)
  have "length ?p < 2 ^ 31" "frames_ok [[7, 7], [9 :: byte]]" by simp_all
  note ok = this
  obtain k out where k: "positional_length ?p = Inr k" and out: "relayed 3 ?p = Inr out"
    "length ?p \<le> 1014 \<longrightarrow> out = numval_bytes (word_of_int 3) @ ?p"
    and fs: "\<forall>sequence fs pos. frames_ok fs \<and> ?p = voice_payload sequence fs pos \<longrightarrow> k = length pos"
    using voice_packet_bounds [OF ok(1), of 3] by blast
  have "k = length [5, 6, 4 :: byte]" using fs ok(2) f by blast
  moreover have "out = 3 # ?p" using out(2) v(2) by simp
  ultimately show ?thesis using k out(1) by simp
qed

section \<open>Who hears it\<close>

definition speaks_udp :: "client \<Rightarrow> bool" where
  "speaks_udp cl \<longleftrightarrow> sin_port (c_remote_udp cl) \<noteq> 0 \<and> CryptState_isValid (c_cryptState cl) \<and> c_bUDP cl"

text \<open>A copy goes out encrypted by UDP, or in the clear in a message of the TLS connection.\<close>

definition copy_to :: "ext \<Rightarrow> client \<Rightarrow> byte list \<Rightarrow> event" where
  "copy_to x cl data =
     (if speaks_udp cl then UdpOut (c_remote_udp cl) (fst (CryptState_encrypt (x_aes x) data (c_cryptState cl)))
      else TlsOut (c_tcpfd cl) (wire x (P_UDPTunnel \<lparr>udp_packet = data\<rparr>)))"

definition hears :: "cref \<Rightarrow> cref \<Rightarrow> client \<Rightarrow> bool" where
  "hears src d dl \<longleftrightarrow> c_authenticated dl \<and> d \<noteq> src \<and> \<not> c_deaf dl"

definition context_match :: "client \<Rightarrow> client \<Rightarrow> bool option" where
  "context_match s d = (case (c_context s, c_context d) of (Some a, Some b) \<Rightarrow> strcmp_equal a b | _ \<Rightarrow> Some False)"

text \<open>A listener in the same plugin context gets the positional data, anyone else does not.\<close>

definition heard :: "client \<Rightarrow> byte list \<Rightarrow> nat \<Rightarrow> client \<Rightarrow> byte list" where
  "heard s data k d = (if k > 0 \<and> context_match s d = Some True then data else take (length data - k) data)"

definition reachable_for_voice :: "client \<Rightarrow> nat \<Rightarrow> client \<Rightarrow> bool" where
  "reachable_for_voice s k d \<longleftrightarrow> (speaks_udp d \<or> ready d) \<and> (k > 0 \<longrightarrow> context_match s d \<noteq> None)"

text \<open>Besides output and messages, only the clients in \<open>V\<close> have changed.\<close>

definition sent_to :: "cref set \<Rightarrow> world \<Rightarrow> world \<Rightarrow> bool" where
  "sent_to V w w' \<longleftrightarrow>
     (\<exists>cs t out ms nx. w' = w\<lparr>w_cstore := cs, w_tls := t, w_out := out, w_mstore := ms, w_next := nx\<rparr> \<and>
        dom cs = dom (w_cstore w) \<and> (\<forall>e. e \<notin> V \<longrightarrow> cs e = w_cstore w e)) \<and> accepting w'"

lemma sent_to_refl: "accepting w \<Longrightarrow> sent_to V w w"
  unfolding sent_to_def
  by (intro conjI exI [of _ "w_cstore w"] exI [of _ "w_tls w"] exI [of _ "w_out w"] exI [of _ "w_mstore w"] exI [of _ "w_next w"])
    simp_all

lemma sent_to_trans:
  assumes "sent_to U u v" and "sent_to V v w"
  shows "sent_to (U \<union> V) u w"
proof -
  obtain cs t out ms nx where v: "v = u\<lparr>w_cstore := cs, w_tls := t, w_out := out, w_mstore := ms, w_next := nx\<rparr>"
    "dom cs = dom (w_cstore u)" "\<forall>e. e \<notin> U \<longrightarrow> cs e = w_cstore u e"
    using assms(1) unfolding sent_to_def by blast
  obtain cs' t' out' ms' nx' where w: "w = v\<lparr>w_cstore := cs', w_tls := t', w_out := out', w_mstore := ms', w_next := nx'\<rparr>"
    "dom cs' = dom (w_cstore v)" "\<forall>e. e \<notin> V \<longrightarrow> cs' e = w_cstore v e" "accepting w"
    using assms(2) unfolding sent_to_def by blast
  have "w = u\<lparr>w_cstore := cs', w_tls := t', w_out := out', w_mstore := ms', w_next := nx'\<rparr>"
    "dom cs' = dom (w_cstore u)" "\<forall>e. e \<notin> U \<union> V \<longrightarrow> cs' e = w_cstore u e"
    using v w(1-3) by simp_all
  with w(4) show ?thesis unfolding sent_to_def by blast
qed

lemma sent_to_same:
  assumes "sent_to V w w'"
  shows "w_clients w' = w_clients w" "w_chstore w' = w_chstore w" "w_ext w' = w_ext w" "accepting w'"
    "e \<notin> V \<Longrightarrow> w_cstore w' e = w_cstore w e" "dom (w_cstore w') = dom (w_cstore w)"
proof -
  obtain cs t out ms nx where w: "w' = w\<lparr>w_cstore := cs, w_tls := t, w_out := out, w_mstore := ms, w_next := nx\<rparr>"
    "dom cs = dom (w_cstore w)" "\<forall>e. e \<notin> V \<longrightarrow> cs e = w_cstore w e" "accepting w'"
    using assms unfolding sent_to_def by blast
  show "w_clients w' = w_clients w" "w_chstore w' = w_chstore w" "w_ext w' = w_ext w" using w(1) by simp_all
  show "accepting w'" by (rule w(4))
  show "dom (w_cstore w') = dom (w_cstore w)" "e \<notin> V \<Longrightarrow> w_cstore w' e = w_cstore w e" using w by simp_all
qed

lemma sent_to_one:
  assumes "w' = w\<lparr>w_cstore := (w_cstore w)(d \<mapsto> dl'), w_tls := t, w_out := out, w_mstore := ms, w_next := nx\<rparr>"
    and "w_cstore w d = Some dl" and "accepting w'"
  shows "sent_to {d} w w'"
proof -
  have "dom ((w_cstore w)(d \<mapsto> dl')) = dom (w_cstore w)" using assms(2) by auto
  moreover have "\<forall>e. e \<notin> {d} \<longrightarrow> ((w_cstore w)(d \<mapsto> dl')) e = w_cstore w e" by simp
  ultimately show ?thesis using assms(1,3) unfolding sent_to_def by blast
qed

lemma send_udp_delivers:
  assumes "accepting w" and "w_cstore w d = Some dl" and "speaks_udp dl \<or> ready dl" and "length data + 6 < BUFSIZE"
  shows "\<exists>w'. Client_send_udp (Client_send_message (Suc (Suc n))) d data w = Inr ((), w') \<and> sent_to {d} w w' \<and>
    w_out w' = w_out w @ [copy_to (w_ext w) dl data]"
proof (cases "speaks_udp dl")
  case True
  obtain buf cs where e: "CryptState_encrypt (x_aes (w_ext w)) data (c_cryptState dl) = (buf, cs)" by fastforce
  let ?w = "(put_client d (dl\<lparr>c_cryptState := cs\<rparr>) w)\<lparr>w_out := w_out w @ [UdpOut (c_remote_udp dl) buf]\<rparr>"
  have "Client_send_udp (Client_send_message (Suc (Suc n))) d data w = Inr ((), ?w)"
    using True e assms(2) by (simp add: Client_send_udp_def speaks_udp_def bnd_Inr prog_simps put_client_def)
  moreover have "sent_to {d} w ?w"
    by (rule sent_to_one [OF _ assms(2), where dl' = "dl\<lparr>c_cryptState := cs\<rparr>" and t = "w_tls w" and out = "w_out ?w" and ms = "w_mstore w" and nx = "w_next w"])
      (use assms(1) in \<open>simp_all add: put_client_def accepting_def\<close>)
  ultimately show ?thesis using True e by (intro exI [of _ ?w]) (simp add: copy_to_def)
next
  case False
  then have rd: "ready dl" using assms(3) by simp
  let ?m = "w_next w"
  let ?msg = "\<lparr>m_refcount = 1, m_unpacked = False, m_payload = P_UDPTunnel \<lparr>udp_packet = data\<rparr>\<rparr>"
  let ?w1 = "w\<lparr>w_next := Suc ?m, w_mstore := (w_mstore w)(?m \<mapsto> ?msg)\<rparr>"
  have s: "accepting ?w1" "w_cstore ?w1 d = Some dl" "idle dl" "length (c_txbuf dl) = BUFSIZE" "w_mstore ?w1 ?m = Some ?msg"
    "sendable (w_ext ?w1) (m_payload ?msg)" "c_authenticated dl \<or> type_of (m_payload ?msg) = Version"
    using assms(1,2,4) rd by (simp_all add: accepting_def ready_def sendable_def body_of_def)
  from send_idle [OF s, of n] obtain b where
    b: "Client_send_message (Suc (Suc n)) d ?m ?w1 = Inr ((), spend ?m ?msg ((put_client d (wrote dl b) ?w1)
      \<lparr>w_tls := (w_tls ?w1)\<lparr>tls_wn := Suc (tls_wn (w_tls ?w1))\<rparr>,
       w_out := w_out ?w1 @ [TlsOut (c_tcpfd dl) (wire (w_ext ?w1) (m_payload ?msg))]\<rparr>))" (is "_ = Inr ((), ?w2)") by blast
  have "Client_send_udp (Client_send_message (Suc (Suc n))) d data w = Client_send_message (Suc (Suc n)) d ?m ?w1"
    using False assms(2) unfolding Client_send_udp_def
    by (simp add: speaks_udp_def bnd_def get_client_app CreateVoiceMsg_ok del: Client_send_message.simps) blast
  moreover have "sent_to {d} w ?w2"
    by (rule sent_to_one [OF _ assms(2), where dl' = "wrote dl b" and t = "w_tls ?w2" and out = "w_out ?w2" and ms = "w_mstore ?w2" and nx = "w_next ?w2"])
      (use assms(1) in \<open>simp_all add: put_client_def accepting_def spend_def\<close>)
  ultimately show ?thesis using False b by (intro exI [of _ ?w2]) (simp add: copy_to_def spend_def put_client_def)
qed

lemma send_voice_visit:
  assumes "accepting w" and "w_cstore w src = Some s" and "w_cstore w d = Some dl"
    and "hears src d dl \<Longrightarrow> reachable_for_voice s k dl" and "length data + 6 < BUFSIZE"
  shows "\<exists>w'. Client_send_voice (Client_send_message (Suc (Suc n))) src data k d w = Inr ((), w') \<and>
    sent_to (if hears src d dl then {d} else {}) w w' \<and>
    w_out w' = w_out w @ (if hears src d dl then [copy_to (w_ext w) dl (heard s data k dl)] else [])"
proof (cases "hears src d dl")
  case False
  then have "Client_send_voice (Client_send_message (Suc (Suc n))) src data k d w = Inr ((), w)"
    using assms(3) unfolding Client_send_voice_def
    by (simp add: bnd_def get_client_app guarded_app hears_def del: Client_send_message.simps) blast
  with False sent_to_refl [OF assms(1)] show ?thesis by auto
next
  case True
  then have r: "speaks_udp dl \<or> ready dl" "k > 0 \<longrightarrow> context_match s dl \<noteq> None"
    using assms(4) by (simp_all add: reachable_for_voice_def)
  have pos: "(if k > 0 then same_context src dl else ret False) w = Inr (k > 0 \<and> context_match s dl = Some True, w)"
    using r(2) assms(2)
    by (auto simp: same_context_def context_match_def bnd_Inr prog_simps split: option.splits)
  have "length (heard s data k dl) + 6 < BUFSIZE" using assms(5) by (auto simp: heard_def)
  from send_udp_delivers [OF assms(1,3) r(1) this, of n] obtain w' where
    w': "Client_send_udp (Client_send_message (Suc (Suc n))) d (heard s data k dl) w = Inr ((), w')" "sent_to {d} w w'"
    "w_out w' = w_out w @ [copy_to (w_ext w) dl (heard s data k dl)]" by blast
  have "Client_send_voice (Client_send_message (Suc (Suc n))) src data k d w =
      Client_send_udp (Client_send_message (Suc (Suc n))) d (heard s data k dl) w"
    using True assms(3) pos unfolding Client_send_voice_def
    by (simp add: bnd_def get_client_app guarded_app hears_def heard_def del: Client_send_message.simps)
  with True w' show ?thesis by auto
qed

lemma voice_loop:
  assumes "accepting w" and "w_chstore w ch = Some x" and "ch_clients x = us @ xs" and "distinct (ch_clients x)"
    and "w_cstore w src = Some s" and "set xs \<subseteq> dom (w_cstore w)"
    and "\<And>d dl. d \<in> set xs \<Longrightarrow> w_cstore w d = Some dl \<Longrightarrow> hears src d dl \<Longrightarrow> reachable_for_voice s k dl"
    and "length data + 6 < BUFSIZE"
  defines "hearers \<equiv> filter (\<lambda>d. hears src d (the (w_cstore w d))) xs"
  shows "\<exists>w'. each (chan_clients ch) xs (Client_send_voice (Client_send_message (Suc (Suc n))) src data k) w = Inr ((), w') \<and>
    sent_to (set hearers) w w' \<and>
    w_out w' = w_out w @ map (\<lambda>d. copy_to (w_ext w) (the (w_cstore w d)) (heard s data k (the (w_cstore w d)))) hearers"
  using assms(1-8) unfolding hearers_def
proof (induction xs arbitrary: w us)
  case Nil
  then show ?case by (intro exI [of _ w]) (simp add: each_def ret_app sent_to_refl)
next
  case (Cons d xs)
  let ?send = "Client_send_message (Suc (Suc n))"
  obtain dl where dl: "w_cstore w d = Some dl" using Cons.prems(6) by auto
  have d: "d \<in> set (chan_clients ch w)" "d \<notin> set us" "d \<notin> set xs" "chan_clients ch w = us @ d # xs"
    using Cons.prems(2-4) by (auto simp: chan_clients_def)
  have "hears src d dl \<Longrightarrow> reachable_for_voice s k dl" using Cons.prems(7) [OF _ dl] by simp
  from send_voice_visit [OF Cons.prems(1,5) dl this Cons.prems(8), of n] obtain w1 where
    v: "Client_send_voice ?send src data k d w = Inr ((), w1)" and st: "sent_to (if hears src d dl then {d} else {}) w w1"
    and out: "w_out w1 = w_out w @ (if hears src d dl then [copy_to (w_ext w) dl (heard s data k dl)] else [])" by blast
  note same = sent_to_same [OF st]
  have other: "w_cstore w1 e = w_cstore w e" if "e \<in> insert src (set xs)" for e
  proof (rule same(5))
    show "e \<notin> (if hears src d dl then {d} else {})" using that d(3) by (auto simp: hears_def)
  qed
  have cc: "chan_clients ch w1 = chan_clients ch w" by (simp add: chan_clients_def same(2))
  obtain dl1 where dl1: "w_cstore w1 d = Some dl1" using same(6) dl by (metis domD domI)
  have "entries_after d (chan_clients ch w1) = filter (\<lambda>y. y \<in> set (chan_clients ch w1)) xs"
    unfolding cc using d entries_after_suffix [OF d(2), of xs] by (simp add: filter_id_conv)
  with dl1 have step: "each (chan_clients ch) (d # xs) (Client_send_voice ?send src data k) w =
      each (chan_clients ch) xs (Client_send_voice ?send src data k) w1"
    using d(1) v unfolding each_def each_with.simps by (simp add: bnd_Inr cc del: Client_send_message.simps)
  have "\<exists>w'. each (chan_clients ch) xs (Client_send_voice ?send src data k) w1 = Inr ((), w') \<and>
    sent_to (set (filter (\<lambda>d. hears src d (the (w_cstore w1 d))) xs)) w1 w' \<and>
    w_out w' = w_out w1 @ map (\<lambda>d. copy_to (w_ext w1) (the (w_cstore w1 d)) (heard s data k (the (w_cstore w1 d))))
      (filter (\<lambda>d. hears src d (the (w_cstore w1 d))) xs)"
  proof (rule Cons.IH [of w1 "us @ [d]"])
    show "w_chstore w1 ch = Some x" "ch_clients x = (us @ [d]) @ xs" "distinct (ch_clients x)" "accepting w1"
      "length data + 6 < BUFSIZE" using Cons.prems same by simp_all
    show "w_cstore w1 src = Some s" using other [of src] Cons.prems(5) by simp
    show "set xs \<subseteq> dom (w_cstore w1)" using Cons.prems(6) same(6) by simp
    show "reachable_for_voice s k el" if "e \<in> set xs" "w_cstore w1 e = Some el" "hears src e el" for e el
      using Cons.prems(7) [of e el] that other [of e] by simp
  qed
  moreover have "filter (\<lambda>d. hears src d (the (w_cstore w1 d))) xs = filter (\<lambda>d. hears src d (the (w_cstore w d))) xs"
    by (rule filter_cong) (use other in auto)
  moreover have "map (\<lambda>d. copy_to (w_ext w1) (the (w_cstore w1 d)) (heard s data k (the (w_cstore w1 d)))) (filter P xs) =
      map (\<lambda>d. copy_to (w_ext w) (the (w_cstore w d)) (heard s data k (the (w_cstore w d)))) (filter P xs)" for P
    by (rule map_cong) (use other same(3) in auto)
  ultimately obtain w' where w': "each (chan_clients ch) xs (Client_send_voice ?send src data k) w1 = Inr ((), w')"
    "sent_to (set (filter (\<lambda>d. hears src d (the (w_cstore w d))) xs)) w1 w'"
    "w_out w' = w_out w1 @ map (\<lambda>d. copy_to (w_ext w) (the (w_cstore w d)) (heard s data k (the (w_cstore w d))))
      (filter (\<lambda>d. hears src d (the (w_cstore w d))) xs)" by auto
  have "(if hears src d dl then {d} else {}) \<union> set (filter (\<lambda>d. hears src d (the (w_cstore w d))) xs) =
      set (filter (\<lambda>d. hears src d (the (w_cstore w d))) (d # xs))" using dl by auto
  with sent_to_trans [OF st w'(2)] have "sent_to (set (filter (\<lambda>d. hears src d (the (w_cstore w d))) (d # xs))) w w'" by simp
  with step w'(1,3) out dl show ?case by (intro exI [of _ w']) simp
qed

text \<open>C3: A voice packet of a user that is neither muted nor over its bandwidth reaches, in one copy each and
  in the order of the channel's list, exactly the other users of the channel that have authenticated and are
  not deaf, provided each can be reached; the copy carries the speaker's session in
  front, and the positional data only for listeners in the same plugin context.\<close>

theorem voice_reaches_channel:
  assumes "inv A w" and "accepting w" and "w_cstore w c = Some cl" and "c_authenticated cl" and "\<not> c_mute cl"
    and "c_channel cl = Some ch" and "w_chstore w ch = Some x" and "header AND 0x1f = 0"
    and "frames_ok fs" and "length (voice_payload sequence fs pos) \<le> 1014"
    and "33 + int (length (voice_payload sequence fs pos)) \<le> c_availableBandwidth cl"
    and "\<forall>d \<in> set (ch_clients x). \<forall>dl. w_cstore w d = Some dl \<longrightarrow> hears c d dl \<longrightarrow> reachable_for_voice cl (length pos) dl"
  shows "\<exists>w'. Client_voiceMsg (Client_send_message (Suc (Suc n))) c (header # voice_payload sequence fs pos) w = Inr ((), w') \<and>
    w_out w' = w_out w @ map (\<lambda>d. copy_to (w_ext w) (the (w_cstore w d))
        ((header AND 0xe0) # numval_bytes (word_of_int (c_sessionId cl)) @ voice_payload sequence fs
          (if context_match cl (the (w_cstore w d)) = Some True then pos else [])))
      (filter (\<lambda>d. hears c d (the (w_cstore w d))) (ch_clients x))"
proof -
  let ?payload = "voice_payload sequence fs pos"
  let ?s = "numval_bytes (word_of_int (c_sessionId cl) :: u64)"
  let ?data = "(header AND 0xe0) # ?s @ ?payload"
  let ?cl = "charge (length (header # ?payload)) (w_now w) cl"
  let ?w = "put_client c ?cl w"
  have n: "length ?s \<le> 9" using length_numval_bytes by blast
  have pl: "positional_length ?payload = Inr (length pos)"
    by (rule positional_length_exact [OF assms(9)]) (use assms(10) in simp)
  have rl: "relayed (c_sessionId cl) ?payload = Inr (?s @ ?payload)"
    using relayed_room [of "c_sessionId cl" ?payload] n assms(10) by fastforce
  have bw: "\<not> c_availableBandwidth cl - int (20 + 8 + 4 + length (header # ?payload)) < 0" using assms(11) by simp
  have keep: "hears c d (the (w_cstore ?w d)) \<longleftrightarrow> hears c d (the (w_cstore w d))" "d \<noteq> c \<Longrightarrow> w_cstore ?w d = w_cstore w d" for d
    by (auto simp: put_client_def hears_def)
  have ctx: "reachable_for_voice ?cl k dl \<longleftrightarrow> reachable_for_voice cl k dl" "context_match ?cl dl = context_match cl dl" for k dl
    by (simp_all add: charge_def reachable_for_voice_def context_match_def)
  have mem: "distinct (ch_clients x)" "set (ch_clients x) \<subseteq> dom (w_cstore w)"
    using assms(1,7) unfolding inv_def members_ok_def by (blast, blast)
  have "\<exists>w'. each (chan_clients ch) (ch_clients x) (Client_send_voice (Client_send_message (Suc (Suc n))) c ?data (length pos)) ?w = Inr ((), w') \<and>
    sent_to (set (filter (\<lambda>d. hears c d (the (w_cstore ?w d))) (ch_clients x))) ?w w' \<and>
    w_out w' = w_out ?w @ map (\<lambda>d. copy_to (w_ext ?w) (the (w_cstore ?w d)) (heard ?cl ?data (length pos) (the (w_cstore ?w d))))
      (filter (\<lambda>d. hears c d (the (w_cstore ?w d))) (ch_clients x))"
  proof (rule voice_loop [where us = "[]" and x = x])
    show "accepting ?w" "w_chstore ?w ch = Some x" "ch_clients x = [] @ ch_clients x" "w_cstore ?w c = Some ?cl"
      using assms(2,7) by (simp_all add: accepting_def put_client_def)
    show "set (ch_clients x) \<subseteq> dom (w_cstore ?w)" using mem(2) assms(3) by (auto simp: put_client_def)
    show "length ?data + 6 < BUFSIZE" using n assms(10) by simp
    show "reachable_for_voice ?cl (length pos) dl" if "d \<in> set (ch_clients x)" "w_cstore ?w d = Some dl" "hears c d dl" for d dl
    proof -
      have "d \<noteq> c" using that(3) by (simp add: hears_def)
      then have "w_cstore w d = Some dl" using that(2) keep(2) by simp
      then show ?thesis using assms(12) that(1,3) unfolding ctx by blast
    qed
  qed (rule mem(1))
  then obtain w' where loop: "each (chan_clients ch) (ch_clients x) (Client_send_voice (Client_send_message (Suc (Suc n))) c ?data (length pos)) ?w = Inr ((), w')"
    and out: "w_out w' = w_out w @ map (\<lambda>d. copy_to (w_ext w) (the (w_cstore ?w d)) (heard ?cl ?data (length pos) (the (w_cstore ?w d))))
      (filter (\<lambda>d. hears c d (the (w_cstore w d))) (ch_clients x))"
    unfolding keep(1) by (auto simp: put_client_def)
  have "Client_voiceMsg (Client_send_message (Suc (Suc n))) c (header # ?payload) w = Inr ((), w')"
    using assms(3-8) bw pl rl loop
    by (simp add: Client_voiceMsg_def bnd_def get_client_app gets_app upd_client_app dispatch_voice_def each_chan_client_def
        get_chan_app put_client_def del: Client_send_message.simps)
  moreover have "map (\<lambda>d. copy_to (w_ext w) (the (w_cstore ?w d)) (heard ?cl ?data (length pos) (the (w_cstore ?w d))))
      (filter (\<lambda>d. hears c d (the (w_cstore w d))) (ch_clients x)) =
    map (\<lambda>d. copy_to (w_ext w) (the (w_cstore w d)) ((header AND 0xe0) # ?s @ voice_payload sequence fs
          (if context_match cl (the (w_cstore w d)) = Some True then pos else [])))
      (filter (\<lambda>d. hears c d (the (w_cstore w d))) (ch_clients x))"
  proof (rule map_cong [OF refl])
    fix d assume "d \<in> set (filter (\<lambda>d. hears c d (the (w_cstore w d))) (ch_clients x))"
    then have "d \<noteq> c" by (simp add: hears_def)
    then have d: "w_cstore ?w d = w_cstore w d" by (rule keep(2))
    have "take (length ?data - length pos) ?data = (header AND 0xe0) # ?s @ voice_payload sequence fs []"
      by (simp add: voice_payload_def)
    then have "heard ?cl ?data (length pos) dl = (header AND 0xe0) # ?s @ voice_payload sequence fs
          (if context_match cl dl = Some True then pos else [])" for dl
      unfolding heard_def ctx by auto
    then show "copy_to (w_ext w) (the (w_cstore ?w d)) (heard ?cl ?data (length pos) (the (w_cstore ?w d))) =
      copy_to (w_ext w) (the (w_cstore w d)) ((header AND 0xe0) # ?s @ voice_payload sequence fs
          (if context_match cl (the (w_cstore w d)) = Some True then pos else []))" unfolding d by simp
  qed
  ultimately show ?thesis using out by (intro exI [of _ w']) simp
qed

theorem voice_reaches_channel_witness:
  "\<exists>w'. Client_voiceMsg (Client_send_message 2) 10 [0x80, 1, 2, 9, 9, 5, 5] demo = Inr ((), w') \<and>
    w_out w' = [TlsOut 6 [0, 1, 0, 0, 0, 6, 0x80, 1, 1, 2, 9, 9]]"
proof -
  let ?x = "(demo_channel 0 ''Root'' None)\<lparr>ch_subs := [1, 2], ch_clients := [10, 11]\<rparr>"
  let ?ann = "demo_client 1 ''ann'' 0" and ?bob = "demo_client 2 ''bob'' 0"
  have nv: "numval_bytes 1 = [1]" by (simp add: numval_bytes_def small_negative_def unsigned_bytes_def)
  have p: "[1, 2, 9, 9, 5, 5] = voice_payload 1 [[9, 9]] [5, 5]" by (simp add: voice_payload_def nv)
  have s: "w_cstore demo 10 = Some ?ann" "w_cstore demo 11 = Some ?bob" "w_chstore demo 0 = Some ?x" "ch_clients ?x = [10, 11]"
    "w_out demo = []" by (simp_all add: demo_def boot_world_def)
  have a: "c_authenticated ?ann" "\<not> c_mute ?ann" "c_channel ?ann = Some 0" "c_availableBandwidth ?ann = 6000" "c_sessionId ?ann = 1"
    "c_context ?ann = None" by (simp_all add: demo_client_def zero_client_def)
  have b: "hears 10 11 ?bob" "ready ?bob" "\<not> speaks_udp ?bob" "c_tcpfd ?bob = 6"
    by (simp_all add: hears_def demo_client_def zero_client_def ready_def idle_def speaks_udp_def zero_sockaddr_def)
  have cm: "context_match ?ann dl = Some False" for dl by (simp add: context_match_def a)
  have hdr: "(0x80 :: byte) AND 0x1f = 0" "(0x80 :: byte) AND 0xe0 = 0x80" by simp_all
  have f: "frames_ok [[9, 9 :: byte]]" "length (voice_payload 1 [[9, 9]] [5, 5 :: byte]) \<le> 1014"
    "33 + int (length (voice_payload 1 [[9, 9]] [5, 5])) \<le> c_availableBandwidth ?ann"
    unfolding p [symmetric] a by simp_all
  have r: "\<forall>d \<in> set (ch_clients ?x). \<forall>dl. w_cstore demo d = Some dl \<longrightarrow> hears 10 d dl \<longrightarrow> reachable_for_voice ?ann (length [5, 5 :: byte]) dl"
    using s b cm by (auto simp: reachable_for_voice_def hears_def)
  from voice_reaches_channel [where n = 0, OF demo_inv demo_ready(1) s(1) a(1-3) s(3) hdr(1) f r] obtain w' where
    run: "Client_voiceMsg (Client_send_message (Suc (Suc 0))) 10 (0x80 # voice_payload 1 [[9, 9]] [5, 5]) demo = Inr ((), w')"
    and out: "w_out w' = w_out demo @ map (\<lambda>d. copy_to (w_ext demo) (the (w_cstore demo d))
        ((0x80 AND 0xe0) # numval_bytes (word_of_int (c_sessionId ?ann)) @ voice_payload 1 [[9, 9]]
          (if context_match ?ann (the (w_cstore demo d)) = Some True then [5, 5] else [])))
      (filter (\<lambda>d. hears 10 d (the (w_cstore demo d))) (ch_clients ?x))" by blast
  have "filter (\<lambda>d. hears 10 d (the (w_cstore demo d))) (ch_clients ?x) = [11]"
    using b(1) s by (simp add: hears_def)
  moreover have "copy_to (w_ext demo) ?bob [0x80, 1, 1, 2, 9, 9] = TlsOut 6 [0, 1, 0, 0, 0, 6, 0x80, 1, 1, 2, 9, 9]"
    using b by (simp add: copy_to_def wire_def body_of_def Let_def)
  ultimately have "w_out w' = [TlsOut 6 [0, 1, 0, 0, 0, 6, 0x80, 1, 1, 2, 9, 9]]"
    using out s cm hdr by (simp add: a nv voice_payload_def)
  with run show ?thesis unfolding p numeral_2_eq_2 by blast
qed

end
