(* ===== verification/Posting.thy ===== *)
theory Posting
  imports Delivery
begin

text \<open>
  Control messages on their way: a message written in pieces, a text message to its
  recipients, and a message that is too big to be sent.
\<close>

section \<open>Written in pieces\<close>

text \<open>What is left of the message in the transmit buffer.\<close>

definition pending :: "client \<Rightarrow> byte list" where
  "pending cl = take (c_txsize cl - c_txcount cl) (drop (c_txcount cl) (c_txbuf cl))"

text \<open>A TLS layer that takes at least one byte of every write.\<close>

definition progressing :: "world \<Rightarrow> bool" where
  "progressing w \<longleftrightarrow> (\<forall>i. case tls_write (w_tls w) i of WAll \<Rightarrow> True | WSome k \<Rightarrow> 0 < k | WFail e \<Rightarrow> False)"

definition accepted :: "world \<Rightarrow> byte list \<Rightarrow> byte list" where
  "accepted w bs = (case tls_write (w_tls w) (tls_wn (w_tls w)) of WSome k \<Rightarrow> take k bs | _ \<Rightarrow> bs)"

definition advance :: "nat \<Rightarrow> client \<Rightarrow> client" where
  "advance k cl = (if k = 0 then cl else if c_txcount cl + k = c_txsize cl then cl\<lparr>c_txsize := 0, c_txcount := 0\<rparr>
     else cl\<lparr>c_txcount := c_txcount cl + k\<rparr>)"

lemma write_step:
  assumes "progressing w" and "w_cstore w c = Some cl" and "\<not> c_readBlockedOnWrite cl" and "c_txMsgQueue cl = []"
  shows "Client_write (Suc n) c w = Inr ((), (put_client c (advance (length (accepted w (pending cl))) cl) w)
    \<lparr>w_tls := (w_tls w)\<lparr>tls_wn := Suc (tls_wn (w_tls w))\<rparr>,
     w_out := w_out w @ [TlsOut (c_tcpfd cl) (accepted w (pending cl))]\<rparr>)"
proof -
  let ?bs = "accepted w (pending cl)"
  let ?w1 = "w\<lparr>w_tls := (w_tls w)\<lparr>tls_wn := Suc (tls_wn (w_tls w))\<rparr>, w_out := w_out w @ [TlsOut (c_tcpfd cl) ?bs]\<rparr>"
  have "SSLi_write (c_tcpfd cl) (pending cl) w = Inr (Inr (length ?bs), ?w1)"
    using assms(1) by (auto simp: SSLi_write_def bnd_def prog_simps accepted_def progressing_def split: write_answer.splits
        dest!: spec [of _ "tls_wn (w_tls w)"])
  moreover have "after_write (Client_send_message n) c (Inr (length ?bs)) ?w1 = Inr ((), put_client c (advance (length ?bs) cl) ?w1)"
    using assms(2,4) by (auto simp: after_write_def send_next_def bnd_def prog_simps advance_def put_client_def fun_upd_idem)
  ultimately show ?thesis
    using assms(2,3) by (simp add: write_body_def bnd_def get_client_app pending_def put_client_def)
qed

lemma advance_pending:
  assumes "c_txcount cl \<le> c_txsize cl" and "c_txsize cl \<le> length (c_txbuf cl)" and "k \<le> length (pending cl)"
  shows "pending (advance k cl) = drop k (pending cl)" and "c_txcount (advance k cl) \<le> c_txsize (advance k cl)"
    and "c_txsize (advance k cl) \<le> length (c_txbuf (advance k cl))"
    and "length (pending cl) = c_txsize cl - c_txcount cl"
proof -
  show "length (pending cl) = c_txsize cl - c_txcount cl" using assms(1,2) by (simp add: pending_def)
  with assms show "pending (advance k cl) = drop k (pending cl)" "c_txcount (advance k cl) \<le> c_txsize (advance k cl)"
    "c_txsize (advance k cl) \<le> length (c_txbuf (advance k cl))"
    by (auto simp: advance_def pending_def drop_take add.commute)
qed

lemma accepted_part:
  assumes "progressing w"
  shows "accepted w bs = take (length (accepted w bs)) bs" and "bs \<noteq> [] \<Longrightarrow> accepted w bs \<noteq> []"
proof -
  show "accepted w bs = take (length (accepted w bs)) bs"
    by (auto simp: accepted_def min_def split: write_answer.split)
  show "bs \<noteq> [] \<Longrightarrow> accepted w bs \<noteq> []"
    using assms by (auto simp: accepted_def progressing_def split: write_answer.splits dest!: spec [of _ "tls_wn (w_tls w)"])
qed

lemma writes_complete:
  assumes "progressing w" and "w_cstore w c = Some cl" and "\<not> c_readBlockedOnWrite cl" and "c_txMsgQueue cl = []"
    and "c_txcount cl \<le> c_txsize cl" and "c_txsize cl \<le> length (c_txbuf cl)" and "length (pending cl) \<le> length us"
  shows "\<exists>w' cl' bss. for_each us (\<lambda>_. Client_write (Suc n) c) w = Inr ((), w') \<and>
    w_out w' = w_out w @ map (TlsOut (c_tcpfd cl)) bss \<and> concat bss = pending cl \<and>
    w_cstore w' = (w_cstore w)(c \<mapsto> cl') \<and> pending cl' = []"
  using assms
proof (induction us arbitrary: w cl)
  case Nil
  then show ?case
    by (intro exI [of _ w] exI [of _ cl] exI [of _ "[]"]) (simp add: ret_app fun_upd_idem)
next
  case (Cons u us)
  let ?bs = "accepted w (pending cl)"
  let ?cl = "advance (length ?bs) cl"
  let ?w = "(put_client c ?cl w)\<lparr>w_tls := (w_tls w)\<lparr>tls_wn := Suc (tls_wn (w_tls w))\<rparr>,
     w_out := w_out w @ [TlsOut (c_tcpfd cl) ?bs]\<rparr>"
  note part = accepted_part [OF Cons.prems(1), of "pending cl"]
  have len: "length ?bs \<le> length (pending cl)" by (metis part(1) length_take min.cobounded1 min.commute)
  note adv = advance_pending [OF Cons.prems(5,6) len]
  have same: "c_tcpfd ?cl = c_tcpfd cl" "c_readBlockedOnWrite ?cl = c_readBlockedOnWrite cl" "c_txMsgQueue ?cl = c_txMsgQueue cl"
    by (simp_all add: advance_def)
  have short: "length (pending ?cl) \<le> length us"
  proof (cases "pending cl = []")
    case False
    then have "0 < length ?bs" using part(2) by blast
    then have "length (pending cl) - length ?bs \<le> length us" using Cons.prems(7) unfolding list.size by linarith
    then show ?thesis using adv(1) by simp
  next
    case True
    have "pending ?cl = []" using adv(1) True by (metis drop_Nil)
    then show ?thesis by simp
  qed
  have "progressing ?w" "w_cstore ?w c = Some ?cl" using Cons.prems(1) by (simp_all add: progressing_def put_client_def)
  note w = this
  have "\<not> c_readBlockedOnWrite ?cl" "c_txMsgQueue ?cl = []" using same Cons.prems(3,4) by simp_all
  from Cons.IH [OF w this adv(2,3) short] obtain w' cl' bss where
    IH: "for_each us (\<lambda>_. Client_write (Suc n) c) ?w = Inr ((), w')" "w_out w' = w_out ?w @ map (TlsOut (c_tcpfd cl)) bss"
    "concat bss = pending ?cl" "w_cstore w' = (w_cstore ?w)(c \<mapsto> cl')" "pending cl' = []" unfolding same(1) by blast
  have "Client_write (Suc n) c w = Inr ((), ?w)" by (rule write_step [OF Cons.prems(1-4)])
  then have "for_each (u # us) (\<lambda>_. Client_write (Suc n) c) w = Inr ((), w')"
    using IH(1) by (simp only: for_each.simps bnd_def sum.case prod.case)
  moreover have "?bs @ pending ?cl = pending cl" by (metis adv(1) append_take_drop_id part(1))
  ultimately show ?case using IH(2-5)
    by (intro exI [of _ w'] exI [of _ cl'] exI [of _ "?bs # bss"]) (simp add: put_client_def)
qed

text \<open>C19: A message that the TLS layer takes in pieces, whatever their sizes, goes out whole, in order and
  once: as many writes as it has bytes left are enough, and afterwards nothing is left to send.\<close>

theorem partial_writes_complete:
  assumes "progressing w" and "w_cstore w c = Some cl" and "client_ok cl" and "\<not> c_readBlockedOnWrite cl"
    and "c_txMsgQueue cl = []" and "length (pending cl) \<le> k"
  shows "\<exists>w' cl' bss. for_each [0..<k] (\<lambda>_. Client_write (Suc n) c) w = Inr ((), w') \<and>
    w_out w' = w_out w @ map (TlsOut (c_tcpfd cl)) bss \<and> concat bss = pending cl \<and>
    w_cstore w' = (w_cstore w)(c \<mapsto> cl') \<and> pending cl' = []"
proof (rule writes_complete)
  show "c_txcount cl \<le> c_txsize cl" "c_txsize cl \<le> length (c_txbuf cl)" "length (pending cl) \<le> length [0..<k]"
    using assms(3,6) by (simp_all add: client_ok_def)
qed (rule assms)+

theorem partial_writes_complete_witness:
  "\<exists>w' bss. for_each [0..<4] (\<lambda>_. Client_write 1 10)
      (put_client 10 ((demo_client 1 ''ann'' 0)\<lparr>c_txbuf := [0, 1, 2, 3] @ replicate 8188 0, c_txsize := 4, c_txcount := 1\<rparr>)
        (demo\<lparr>w_tls := idle_tls\<lparr>tls_write := \<lambda>_. WSome 2\<rparr>\<rparr>)) = Inr ((), w') \<and>
    w_out w' = map (TlsOut 5) bss \<and> concat bss = [1, 2, 3]"
proof -
  let ?cl = "(demo_client 1 ''ann'' 0)\<lparr>c_txbuf := [0, 1, 2, 3] @ replicate 8188 0, c_txsize := 4, c_txcount := 1\<rparr>"
  let ?w = "put_client 10 ?cl (demo\<lparr>w_tls := idle_tls\<lparr>tls_write := \<lambda>_. WSome 2\<rparr>\<rparr>)"
  have c: "w_cstore demo 10 = Some (demo_client 1 ''ann'' 0)" by (simp add: demo_def)
  have ok: "client_ok ?cl" using inv_client [OF demo_inv c] by (simp add: client_ok_def)
  have w: "progressing ?w" "w_cstore ?w 10 = Some ?cl" "w_out ?w = []"
    by (simp_all add: progressing_def put_client_def demo_def boot_world_def)
  have p: "pending ?cl = [1, 2, 3]" by (simp add: pending_def)
  have s: "\<not> c_readBlockedOnWrite ?cl" "c_txMsgQueue ?cl = []" "length (pending ?cl) \<le> 4" "c_tcpfd ?cl = 5"
    unfolding p by (simp_all add: demo_client_def zero_client_def)
  from partial_writes_complete [OF w(1,2) ok s(1-3), of 0] show ?thesis unfolding p w(3) s(4) by auto
qed

section \<open>Too big\<close>

text \<open>C36: A message whose serialised body has 8186 bytes or more makes the server abort as soon as
  it is sent to a client that is ready for it; the size check lets a body of exactly 8186
  bytes pass and only logs a longer one.\<close>

theorem oversized_message_aborts:
  assumes "w_cstore w c = Some cl" and "c_authenticated cl" and "c_txsize cl = 0" and "c_SSLready cl"
    and "w_mstore w m = Some msg" and "\<forall>t. m_payload msg \<noteq> P_none t" and "type_of (m_payload msg) \<noteq> UDPTunnel"
    and "8186 \<le> length (body_of (w_ext w) (m_payload msg))"
  shows "Client_send_message (Suc n) c m w = Inl Assertion"
proof -
  obtain b where "Msg_messageToNetwork (w_ext w) (m_payload msg) (c_txbuf cl) = Inr (length (body_of (w_ext w) (m_payload msg)) + 6, b)"
    using messageToNetwork_fits [OF _ assms(6)] messageToNetwork_too_big [OF _ assms(7)] by (meson not_le)
  then show ?thesis
    using assms by (simp add: send_body_def bnd_def get_client_app get_msg_app gets_app fail_app)
qed

theorem oversized_message_aborts_witness:
  "Client_send_message 1 10 20 (put_msg 20 \<lparr>m_refcount = 1, m_unpacked = False, m_payload = P_TextMessage init_TextMessage\<rparr>
     (demo\<lparr>w_ext := demo_ext\<lparr>pack := \<lambda>_. replicate 8186 0\<rparr>\<rparr>)) = Inl Assertion"
proof -
  let ?msg = "\<lparr>m_refcount = 1, m_unpacked = False, m_payload = P_TextMessage init_TextMessage\<rparr>"
  let ?w = "put_msg 20 ?msg (demo\<lparr>w_ext := demo_ext\<lparr>pack := \<lambda>_. replicate 8186 0\<rparr>\<rparr>)"
  have c: "w_cstore ?w 10 = Some (demo_client 1 ''ann'' 0)" "w_mstore ?w 20 = Some ?msg"
    by (simp_all add: put_msg_def demo_def)
  have "c_authenticated (demo_client 1 ''ann'' 0)" "c_txsize (demo_client 1 ''ann'' 0) = 0" "c_SSLready (demo_client 1 ''ann'' 0)"
    by (simp_all add: demo_client_def zero_client_def)
  moreover have "8186 \<le> length (body_of (w_ext ?w) (m_payload ?msg))" by (simp add: put_msg_def body_of_def)
  ultimately have "Client_send_message (Suc 0) 10 20 ?w = Inl Assertion"
    by (intro oversized_message_aborts [OF c(1) _ _ _ c(2)]) simp_all
  then show ?thesis by simp
qed

section \<open>Text messages\<close>

text \<open>
  A program that, from every state that differs from \<open>v\<close> by what has been sent only, sends
  the bytes once to each of the clients \<open>xs\<close> and leaves the messages as they are.
\<close>

definition posts :: "world \<Rightarrow> byte list \<Rightarrow> (world, unit) prog \<Rightarrow> cref list \<Rightarrow> bool" where
  "posts v bytes p xs \<longleftrightarrow>
     (\<forall>w. only_sent v w \<longrightarrow> w_mstore w = w_mstore v \<longrightarrow>
        (\<exists>w'. p w = Inr ((), w') \<and> only_sent v w' \<and> w_mstore w' = w_mstore v \<and>
           w_out w' = w_out w @ map (\<lambda>d. TlsOut (fd_of v d) bytes) xs))"

lemma postsD:
  assumes "posts v bytes p xs" and "only_sent v w" and "w_mstore w = w_mstore v"
  obtains w' where "p w = Inr ((), w')" and "only_sent v w'" and "w_mstore w' = w_mstore v"
    and "w_out w' = w_out w @ map (\<lambda>d. TlsOut (fd_of v d) bytes) xs"
  using assms unfolding posts_def by blast

lemma posts_ret: "posts v bytes (ret ()) []"
  by (auto simp: posts_def ret_app)

lemma posts_bnd: "posts v bytes p xs \<Longrightarrow> posts v bytes q ys \<Longrightarrow> posts v bytes (bnd p (\<lambda>_. q)) (xs @ ys)"
  unfolding posts_def by (fastforce simp: bnd_def)

lemma posts_for_each:
  "(\<And>x. x \<in> set xs \<Longrightarrow> posts v bytes (body x) (f x)) \<Longrightarrow> posts v bytes (for_each xs body) (concat (map f xs))"
  by (induction xs) (auto simp: posts_ret intro!: posts_bnd)

lemma posts_each:
  assumes "\<And>w. only_sent v w \<Longrightarrow> L w = L v" and "L v = us @ xs" and "distinct (L v)" and "set xs \<subseteq> dom (w_cstore v)"
    and "\<And>x. x \<in> set xs \<Longrightarrow> posts v bytes (body x) (f x)"
  shows "posts v bytes (each L xs body) (concat (map f xs))"
  using assms(2,4,5)
proof (induction xs arbitrary: us)
  case Nil
  then show ?case by (simp add: each_def posts_ret)
next
  case (Cons x xs)
  have IH: "posts v bytes (each L xs body) (concat (map f xs))"
    by (rule Cons.IH [of "us @ [x]"]) (use Cons.prems in auto)
  have x: "x \<in> set (L v)" "x \<notin> set us" using Cons.prems(1) assms(3) by auto
  show ?case
    unfolding posts_def
  proof (intro allI impI)
    fix w assume w: "only_sent v w" "w_mstore w = w_mstore v"
    have "posts v bytes (body x) (f x)" using Cons.prems(3) by simp
    from postsD [OF this w] obtain w1 where w1: "body x w = Inr ((), w1)" "only_sent v w1" "w_mstore w1 = w_mstore v"
      "w_out w1 = w_out w @ map (\<lambda>d. TlsOut (fd_of v d) bytes) (f x)" .
    from postsD [OF IH w1(2,3)] obtain w2 where w2: "each L xs body w1 = Inr ((), w2)" "only_sent v w2" "w_mstore w2 = w_mstore v"
      "w_out w2 = w_out w1 @ map (\<lambda>d. TlsOut (fd_of v d) bytes) (concat (map f xs))" .
    obtain xl where "w_cstore v x = Some xl" using Cons.prems(2) by auto
    from only_sent_client [OF w1(2) this] obtain xl' where xl': "w_cstore w1 x = Some xl'" by blast
    have L: "L w = L v" "L w1 = L v" using assms(1) w(1) w1(2) by blast+
    have "entries_after x (L v) = filter (\<lambda>y. y \<in> set (L v)) xs"
      using Cons.prems(1) entries_after_suffix [OF x(2), of xs] by (simp add: filter_id_conv)
    then have "each L (x # xs) body w = each L xs body w1"
      using x(1) xl' w1(1) by (simp add: each_def bnd_def L)
    with w1 w2 show "\<exists>w'. each L (x # xs) body w = Inr ((), w') \<and> only_sent v w' \<and> w_mstore w' = w_mstore v \<and>
        w_out w' = w_out w @ map (\<lambda>d. TlsOut (fd_of v d) bytes) (concat (map f (x # xs)))" by simp
  qed
qed

text \<open>The properties of a client that sending leaves alone.\<close>

lemma only_sent_clientE:
  assumes "only_sent v w" and "w_cstore v c = Some cl"
  obtains cl' where "w_cstore w c = Some cl'" and "c_deaf cl' = c_deaf cl" and "c_authenticated cl' = c_authenticated cl"
    and "c_sessionId cl' = c_sessionId cl" and "c_tcpfd cl' = c_tcpfd cl" and "ready cl \<Longrightarrow> ready cl'"
proof -
  from only_sent_client [OF assms] obtain cl' where c: "w_cstore w c = Some cl'" and t: "touched cl cl'" .
  from t have "c_deaf cl' = c_deaf cl" "c_authenticated cl' = c_authenticated cl" "c_sessionId cl' = c_sessionId cl"
    by (auto simp: touched_def wrote_def)
  with c touched_same [OF t] show thesis using that by blast
qed

definition listens :: "world \<Rightarrow> cref \<Rightarrow> bool" where
  "listens w d \<longleftrightarrow> \<not> c_deaf (the (w_cstore w d))"

lemma posts_forward:
  assumes "w_mstore v m = Some msg" and "m_refcount msg = 1" and "sendable (w_ext v) (m_payload msg)"
    and "w_cstore v d = Some dl" and "ready dl"
  shows "posts v (wire (w_ext v) (m_payload msg)) (forward_to (Client_send_message (Suc (Suc n))) m d) (filter (listens v) [d])"
  unfolding posts_def
proof (intro allI impI)
  fix w assume w: "only_sent v w" "w_mstore w = w_mstore v"
  note same = only_sent_same [OF w(1)]
  from only_sent_clientE [OF w(1) assms(4)] obtain el where el: "w_cstore w d = Some el" "c_deaf el = c_deaf dl"
    "c_tcpfd el = c_tcpfd dl" "ready el" using assms(5) by blast
  show "\<exists>w'. forward_to (Client_send_message (Suc (Suc n))) m d w = Inr ((), w') \<and> only_sent v w' \<and> w_mstore w' = w_mstore v \<and>
      w_out w' = w_out w @ map (\<lambda>d. TlsOut (fd_of v d) (wire (w_ext v) (m_payload msg))) (filter (listens v) [d])"
  proof (cases "c_deaf dl")
    case True
    with el w assms(4) show ?thesis
      by (intro exI [of _ w]) (simp add: forward_to_def bnd_def get_client_app guarded_app listens_def)
  next
    case False
    let ?w1 = "put_msg m (msg\<lparr>m_refcount := 2\<rparr>) w"
    have m: "w_mstore w m = Some msg" using w(2) assms(1) by simp
    have inc: "Msg_inc_ref m w = Inr ((), ?w1)" using Msg_inc_ref_ok [OF m] assms(2) by simp
    have a: "accepting ?w1" "w_cstore ?w1 d = Some el" "w_mstore ?w1 m = Some (msg\<lparr>m_refcount := 2\<rparr>)"
      "sendable (w_ext ?w1) (m_payload (msg\<lparr>m_refcount := 2\<rparr>))"
      using same(7) el(1) assms(3) same(2) by (simp_all add: put_msg_def accepting_def)
    from send_ready [OF a(1,2) el(4) a(3,4), of n] obtain w2 where
      s: "Client_send_message (Suc (Suc n)) d m ?w1 = Inr ((), w2)" and os: "only_sent ?w1 w2"
      and out: "w_out w2 = w_out w @ [TlsOut (c_tcpfd el) (wire (w_ext v) (m_payload msg))]"
      and ms: "w_mstore w2 = (w_mstore ?w1)(m \<mapsto> msg\<lparr>m_refcount := 1\<rparr>)"
      using same(2) by (auto simp: put_msg_def)
    have "only_sent w ?w1" unfolding put_msg_def by (rule only_sent_mstore) (rule only_sent_refl [OF same(7)])
    with w(1) os have "only_sent v w2" by (blast intro: only_sent_trans)
    moreover have "w_mstore w2 = w_mstore v"
      using ms m w(2) assms(2) by (simp add: put_msg_def fun_upd_idem_iff)
    moreover have "forward_to (Client_send_message (Suc (Suc n))) m d w = Inr ((), w2)"
      using el(1,2) False inc s by (simp add: forward_to_def bnd_def get_client_app guarded_app del: Client_send_message.simps)
    ultimately show ?thesis using False out el(3) assms(4) by (simp add: listens_def fd_of_def)
  qed
qed

definition channel_members :: "world \<Rightarrow> u32 \<Rightarrow> cref list" where
  "channel_members w i =
     (case find (\<lambda>ch. u32_of_int (ch_id (the (w_chstore w ch))) = i) (w_channels w) of
        None \<Rightarrow> [] | Some ch \<Rightarrow> ch_clients (the (w_chstore w ch)))"

definition session_user :: "world \<Rightarrow> u32 \<Rightarrow> cref list" where
  "session_user w s =
     (case find (\<lambda>c. c_authenticated (the (w_cstore w c)) \<and> u32_of_int (c_sessionId (the (w_cstore w c))) = s) (w_clients w) of
        None \<Rightarrow> [] | Some c \<Rightarrow> [c])"

lemma posts_channel:
  assumes I: "inv A v" and all: "all_ready v (w_clients v)"
    and m: "w_mstore v m = Some msg" "m_refcount msg = 1" "sendable (w_ext v) (m_payload msg)"
  shows "posts v (wire (w_ext v) (m_payload msg)) (text_to_channel (Client_send_message (Suc (Suc n))) client m i)
    (filter (listens v) (filter (\<lambda>d. d \<noteq> client) (channel_members v i)))"
proof -
  let ?P = "\<lambda>ch. u32_of_int (ch_id (the (w_chstore v ch))) = i"
  let ?bytes = "wire (w_ext v) (m_payload msg)"
  have ch: "set (w_channels v) = dom (w_chstore v)" using I by (simp add: inv_def channels_ok_def)
  have found: "find_chan (\<lambda>x. u32_of_int (ch_id x) = i) w = Inr (find ?P (w_channels v), w)" if "only_sent v w" for w
    unfolding find_chan_def using only_sent_same [OF that] ch
    by (auto simp: bnd_def gets_app get_chan_app intro!: search_total)
  have dl: "\<exists>dl. w_cstore v d = Some dl \<and> ready dl" if "d \<in> dom (w_cstore v)" for d
    using all that I by (auto simp: all_ready_def inv_def clients_ok_def)
  show ?thesis
  proof (cases "find ?P (w_channels v)")
    case None
    then show ?thesis
      unfolding posts_def text_to_channel_def using found by (simp add: bnd_def ret_app channel_members_def)
  next
    case (Some ch)
    then have "ch \<in> set (w_channels v)" by (metis find_Some_iff nth_mem)
    then obtain x where x: "w_chstore v ch = Some x" using ch by auto
    have mem: "distinct (ch_clients x)" "set (ch_clients x) \<subseteq> dom (w_cstore v)"
      using I x unfolding inv_def members_ok_def by (blast, blast)
    have "posts v ?bytes (each (chan_clients ch) (ch_clients x) (\<lambda>c. guarded (c \<noteq> client) (forward_to (Client_send_message (Suc (Suc n))) m c)))
        (concat (map (\<lambda>d. filter (listens v) (filter (\<lambda>d. d \<noteq> client) [d])) (ch_clients x)))"
    proof (rule posts_each [where us = "[]"])
      show "chan_clients ch w = chan_clients ch v" if "only_sent v w" for w
        using only_sent_same(4) [OF that] by (simp add: chan_clients_def)
      show "chan_clients ch v = [] @ ch_clients x" "distinct (chan_clients ch v)" using x mem(1) by (simp_all add: chan_clients_def)
      fix d assume "d \<in> set (ch_clients x)"
      then obtain dl where "w_cstore v d = Some dl" "ready dl" using mem(2) dl by blast
      from posts_forward [OF m this, of n]
      show "posts v ?bytes (guarded (d \<noteq> client) (forward_to (Client_send_message (Suc (Suc n))) m d))
          (filter (listens v) (filter (\<lambda>d. d \<noteq> client) [d]))"
        by (auto simp: guarded_def posts_ret)
    qed (rule mem(2))
    moreover have "concat (map (\<lambda>d. filter P (filter Q [d])) xs) = filter P (filter Q xs)" for P Q and xs :: "cref list"
      by (induction xs) auto
    ultimately have p: "posts v ?bytes (each (chan_clients ch) (ch_clients x) (\<lambda>c. guarded (c \<noteq> client) (forward_to (Client_send_message (Suc (Suc n))) m c)))
        (filter (listens v) (filter (\<lambda>d. d \<noteq> client) (ch_clients x)))" by simp
    show ?thesis
      unfolding posts_def
    proof (intro allI impI)
      fix w assume w: "only_sent v w" "w_mstore w = w_mstore v"
      have "w_chstore w ch = Some x" using only_sent_same(4) [OF w(1)] x by simp
      then have "text_to_channel (Client_send_message (Suc (Suc n))) client m i w =
          each (chan_clients ch) (ch_clients x) (\<lambda>c. guarded (c \<noteq> client) (forward_to (Client_send_message (Suc (Suc n))) m c)) w"
        using found [OF w(1)] Some
        by (simp add: text_to_channel_def bnd_def each_chan_client_def get_chan_app del: Client_send_message.simps)
      moreover have "channel_members v i = ch_clients x" using Some x by (simp add: channel_members_def)
      ultimately show "\<exists>w'. text_to_channel (Client_send_message (Suc (Suc n))) client m i w = Inr ((), w') \<and> only_sent v w' \<and>
          w_mstore w' = w_mstore v \<and> w_out w' = w_out w @ map (\<lambda>d. TlsOut (fd_of v d) ?bytes)
            (filter (listens v) (filter (\<lambda>d. d \<noteq> client) (channel_members v i)))"
        using p w unfolding posts_def by simp
    qed
  qed
qed

lemma posts_session:
  assumes I: "inv A v" and all: "all_ready v (w_clients v)"
    and m: "w_mstore v m = Some msg" "m_refcount msg = 1" "sendable (w_ext v) (m_payload msg)"
  shows "posts v (wire (w_ext v) (m_payload msg)) (text_to_session (Client_send_message (Suc (Suc n))) m s)
    (filter (listens v) (session_user v s))"
proof -
  let ?P = "\<lambda>w c. c_authenticated (the (w_cstore w c)) \<and> u32_of_int (c_sessionId (the (w_cstore w c))) = s"
  have dom: "set (w_clients v) = dom (w_cstore v)" using I by (simp add: inv_def clients_ok_def)
  have found: "find_session s w = Inr (find (?P v) (w_clients v), w)" if w: "only_sent v w" for w
  proof -
    have live: "\<exists>cl cl'. w_cstore v c = Some cl \<and> w_cstore w c = Some cl' \<and> c_authenticated cl' = c_authenticated cl \<and>
        c_sessionId cl' = c_sessionId cl" if c: "c \<in> set (w_clients v)" for c
    proof -
      obtain cl where cl: "w_cstore v c = Some cl" using c dom by auto
      from only_sent_clientE [OF w cl] cl show ?thesis by metis
    qed
    have "find_session s w = Inr (find (?P w) (w_clients w), w)"
      unfolding find_session_def using live only_sent_same(1) [OF w]
      by (force simp: bnd_def gets_app get_client_app intro!: search_total [where val = "\<lambda>c. the (w_cstore w c)"])
    moreover have "find (?P w) (w_clients w) = find (?P v) (w_clients v)"
      unfolding only_sent_same(1) [OF w] by (rule find_cong) (use live in fastforce)+
    ultimately show ?thesis by simp
  qed
  show ?thesis
  proof (cases "find (?P v) (w_clients v)")
    case None
    then show ?thesis
      unfolding posts_def text_to_session_def using found by (simp add: bnd_def ret_app session_user_def)
  next
    case (Some c)
    then have "c \<in> set (w_clients v)" by (metis (no_types, lifting) find_Some_iff nth_mem)
    then obtain cl where "w_cstore v c = Some cl" "ready cl" using all by (auto simp: all_ready_def)
    from posts_forward [OF m this, of n] show ?thesis
      unfolding posts_def text_to_session_def using found Some
      by (simp add: bnd_def session_user_def del: Client_send_message.simps)
  qed
qed

definition text_recipients :: "world \<Rightarrow> cref \<Rightarrow> mp_TextMessage \<Rightarrow> cref list" where
  "text_recipients w sender t = filter (listens w)
     (concat (map (\<lambda>i. filter (\<lambda>d. d \<noteq> sender) (channel_members w i)) (txt_channel_id t)) @
      concat (map (session_user w) (txt_session t)))"

text \<open>C18: A text message goes, signed with its sender's session, to the members of each channel it names
  except the sender, and to each user it names by session; a deaf user gets none, and channels and
  sessions that do not exist are passed over. The message itself is not used up.\<close>

theorem text_message_delivered:
  assumes "inv A w" and "accepting w" and "all_ready w (w_clients w)" and "w_cstore w c = Some cl"
    and "w_mstore w m = Some msg" and "m_refcount msg = 1" and "txt_tree_id t = []"
    and "sendable (w_ext w) (P_TextMessage (t\<lparr>txt_has_actor := True, txt_actor := u32_of_int (c_sessionId cl)\<rparr>))"
  shows "\<exists>w'. handle_TextMessage (Client_send_message (Suc (Suc n))) c m t w = Inr ((), w') \<and>
    w_out w' = w_out w @ map (\<lambda>d. TlsOut (fd_of w d) (wire (w_ext w)
        (P_TextMessage (t\<lparr>txt_has_actor := True, txt_actor := u32_of_int (c_sessionId cl)\<rparr>)))) (text_recipients w c t) \<and>
    map_option m_refcount (w_mstore w' m) = Some 1"
proof -
  let ?p = "P_TextMessage (t\<lparr>txt_has_actor := True, txt_actor := u32_of_int (c_sessionId cl)\<rparr>)"
  let ?msg = "msg\<lparr>m_payload := ?p\<rparr>"
  let ?w = "put_msg m ?msg w"
  let ?send = "Client_send_message (Suc (Suc n))"
  have I: "inv A ?w" by (rule inv_core [OF assms(1)]) (simp_all add: core_def put_msg_def)
  have a: "all_ready ?w (w_clients ?w)" "accepting ?w" "w_mstore ?w m = Some ?msg" "m_refcount ?msg = 1"
    "sendable (w_ext ?w) (m_payload ?msg)"
    using assms by (simp_all add: put_msg_def all_ready_def accepting_def)
  have e: "fd_of ?w = fd_of w" "listens ?w = listens w" "channel_members ?w = channel_members w" "session_user ?w = session_user w"
    "w_ext ?w = w_ext w" "w_out ?w = w_out w"
    by (simp_all add: put_msg_def fd_of_def listens_def channel_members_def session_user_def fun_eq_iff split: option.split)
  have "posts ?w (wire (w_ext ?w) ?p) (bnd (for_each (txt_channel_id t) (text_to_channel ?send c m)) (\<lambda>_.
      for_each (txt_session t) (text_to_session ?send m)))
    (concat (map (\<lambda>i. filter (listens w) (filter (\<lambda>d. d \<noteq> c) (channel_members w i))) (txt_channel_id t)) @
     concat (map (\<lambda>s. filter (listens w) (session_user w s)) (txt_session t)))"
    using posts_channel [OF I a(1,3,4,5), of n c] posts_session [OF I a(1,3,4,5), of n]
    by (intro posts_bnd posts_for_each) (simp_all add: e)
  moreover have "concat (map (\<lambda>i. filter (listens w) (filter (\<lambda>d. d \<noteq> c) (channel_members w i))) (txt_channel_id t)) @
     concat (map (\<lambda>s. filter (listens w) (session_user w s)) (txt_session t)) = text_recipients w c t"
    by (simp add: text_recipients_def filter_concat o_def)
  ultimately have p: "posts ?w (wire (w_ext ?w) ?p) (bnd (for_each (txt_channel_id t) (text_to_channel ?send c m)) (\<lambda>_.
      for_each (txt_session t) (text_to_session ?send m))) (text_recipients w c t)" by simp
  from postsD [OF p only_sent_refl [OF a(2)] refl] obtain w' where run: "bnd (for_each (txt_channel_id t) (text_to_channel ?send c m)) (\<lambda>_.
      for_each (txt_session t) (text_to_session ?send m)) ?w = Inr ((), w')" and "only_sent ?w w'"
    and ms: "w_mstore w' = w_mstore ?w" and out: "w_out w' = w_out w @ map (\<lambda>d. TlsOut (fd_of w d) (wire (w_ext w) ?p)) (text_recipients w c t)"
    unfolding e by blast
  have "set_payload m (\<lambda>_. ?p) w = Inr ((), ?w)" using assms(5) by (simp add: set_payload_def bnd_def prog_simps)
  then have "handle_TextMessage ?send c m t w = Inr ((), w')"
    using run assms(4,7) by (simp add: handle_TextMessage_def bnd_def get_client_app del: Client_send_message.simps)
  with out ms a(3,4) show ?thesis by (intro exI [of _ w']) simp
qed

theorem text_message_delivered_witness:
  "\<exists>w'. handle_TextMessage (Client_send_message 2) 10 20 (init_TextMessage\<lparr>txt_channel_id := [0, 7], txt_session := [3]\<rparr>)
      (put_msg 20 \<lparr>m_refcount = 1, m_unpacked = True, m_payload = P_TextMessage init_TextMessage\<rparr> demo) = Inr ((), w') \<and>
    w_out w' = map (\<lambda>fd. TlsOut fd (wire demo_ext (P_TextMessage (init_TextMessage
      \<lparr>txt_channel_id := [0, 7], txt_session := [3], txt_has_actor := True, txt_actor := 1\<rparr>)))) [6, 7]"
proof -
  let ?msg = "\<lparr>m_refcount = 1, m_unpacked = True, m_payload = P_TextMessage init_TextMessage\<rparr>"
  let ?w = "put_msg 20 ?msg demo"
  let ?t = "init_TextMessage\<lparr>txt_channel_id := [0, 7], txt_session := [3]\<rparr>"
  let ?ann = "demo_client 1 ''ann'' 0"
  have I: "inv {10, 11, 12} ?w" by (rule inv_core [OF demo_inv]) (simp_all add: core_def put_msg_def)
  have a: "accepting ?w" "all_ready ?w (w_clients ?w)" "w_cstore ?w 10 = Some ?ann" "w_mstore ?w 20 = Some ?msg" "m_refcount ?msg = 1"
    "w_ext ?w = demo_ext" "w_out ?w = []"
    using demo_ready by (simp_all add: put_msg_def all_ready_def accepting_def) (simp_all add: demo_def boot_world_def)
  have s: "c_sessionId ?ann = 1" "u32_of_int 1 = 1" by (simp_all add: demo_client_def u32_of_int_def)
  have t: "txt_tree_id ?t = []" "sendable (w_ext ?w) (P_TextMessage (?t\<lparr>txt_has_actor := True, txt_actor := u32_of_int (c_sessionId ?ann)\<rparr>))"
    unfolding a(6) by (simp_all add: init_TextMessage_def sendable_def body_of_def demo_ext_def)
  have r: "text_recipients ?w 10 ?t = [11, 12]" "fd_of ?w 11 = 6" "fd_of ?w 12 = 7"
    by (simp_all add: text_recipients_def channel_members_def session_user_def listens_def put_msg_def demo_def demo_channel_def
        demo_client_def zero_client_def u32_of_int_def fd_of_def init_TextMessage_def)
  from text_message_delivered [OF I a(1-5) t, of 0] show ?thesis
    unfolding a(6,7) r s by (simp add: r numeral_2_eq_2 del: Client_send_message.simps) blast
qed

end
