(* ===== verification/PbWire.thy ===== *)
theory PbWire
  imports Prelude
begin

text \<open>
  The wire primitives of src/src/google/protobuf-c/protobuf-c.c: the sizes, packers and
  parsers of the variable-length and fixed-length integers, of strings and byte strings, of
  field tags and of length prefixes. A C \<open>int32_t\<close> is its 32 bits (\<open>u32\<close>, read with
  \<open>sint\<close>). A packer returns the bytes it writes, a parser takes the bytes from the current
  position to the end of the buffer. The reference encoding \<open>varint\<close> (base 128, least
  significant digit first) and its value \<open>unvarint\<close> are what the unrolled routines of the
  library are proved equal to.
\<close>

section \<open>Sizes\<close>

definition get_tag_size :: "u32 \<Rightarrow> nat" where
  "get_tag_size number =
     (if number < 2 ^ 4 then 1
      else if number < 2 ^ 11 then 2
      else if number < 2 ^ 18 then 3
      else if number < 2 ^ 25 then 4
      else 5)"

definition uint32_size :: "u32 \<Rightarrow> nat" where
  "uint32_size v =
     (if v < 2 ^ 7 then 1
      else if v < 2 ^ 14 then 2
      else if v < 2 ^ 21 then 3
      else if v < 2 ^ 28 then 4
      else 5)"

definition int32_size :: "u32 \<Rightarrow> nat" where
  "int32_size v =
     (if sint v < 0 then 10
      else if sint v < 2 ^ 7 then 1
      else if sint v < 2 ^ 14 then 2
      else if sint v < 2 ^ 21 then 3
      else if sint v < 2 ^ 28 then 4
      else 5)"

definition zigzag32 :: "u32 \<Rightarrow> u32" where
  "zigzag32 v = (if sint v < 0 then (- v) * 2 - 1 else v * 2)"

definition sint32_size :: "u32 \<Rightarrow> nat" where
  "sint32_size v = uint32_size (zigzag32 v)"

definition uint64_size :: "u64 \<Rightarrow> nat" where
  "uint64_size v =
     (let upper_v = ucast (drop_bit 32 v) :: u32 in
      if upper_v = 0 then uint32_size (ucast v)
      else if upper_v < 2 ^ 3 then 5
      else if upper_v < 2 ^ 10 then 6
      else if upper_v < 2 ^ 17 then 7
      else if upper_v < 2 ^ 24 then 8
      else if upper_v < 2 ^ 31 then 9
      else 10)"

definition zigzag64 :: "u64 \<Rightarrow> u64" where
  "zigzag64 v = (if sint v < 0 then (- v) * 2 - 1 else v * 2)"

definition sint64_size :: "u64 \<Rightarrow> nat" where
  "sint64_size v = uint64_size (zigzag64 v)"

section \<open>Packing\<close>

definition uint32_pack :: "u32 \<Rightarrow> byte list" where
  "uint32_pack value =
     (if value \<ge> 0x80 then
        ucast (value OR 0x80) # (let value = drop_bit 7 value in
        if value \<ge> 0x80 then
          ucast (value OR 0x80) # (let value = drop_bit 7 value in
          if value \<ge> 0x80 then
            ucast (value OR 0x80) # (let value = drop_bit 7 value in
            if value \<ge> 0x80 then
              ucast (value OR 0x80) # (let value = drop_bit 7 value in [ucast value])
            else [ucast value])
          else [ucast value])
        else [ucast value])
      else [ucast value])"

definition int32_pack :: "u32 \<Rightarrow> byte list" where
  "int32_pack value =
     (if sint value < 0 then
        [ucast (value OR 0x80),
         ucast (signed_drop_bit 7 value OR 0x80),
         ucast (signed_drop_bit 14 value OR 0x80),
         ucast (signed_drop_bit 21 value OR 0x80),
         ucast (signed_drop_bit 28 value OR 0x80),
         0xFF, 0xFF, 0xFF, 0xFF, 0x01]
      else uint32_pack value)"

definition sint32_pack :: "u32 \<Rightarrow> byte list" where
  "sint32_pack value = uint32_pack (zigzag32 value)"

text \<open>The loop at the end of \<open>uint64_pack\<close>, over the high word.\<close>

function hi_pack :: "u32 \<Rightarrow> byte list" where
  "hi_pack hi = (if hi \<ge> 128 then ucast (hi OR 0x80) # hi_pack (drop_bit 7 hi) else [ucast hi])"
  by auto
termination
proof (relation "measure unat")
  fix hi :: u32
  assume "hi \<ge> 128"
  then have "unat hi \<ge> 128" by (simp add: word_le_nat_alt)
  moreover have "unat (drop_bit 7 hi) = unat hi div 128"
    by (simp add: unat_drop_bit_eq) (simp add: drop_bit_eq_div)
  ultimately show "(drop_bit 7 hi, hi) \<in> measure unat" by simp
qed simp

declare hi_pack.simps [simp del]

definition uint64_pack :: "u64 \<Rightarrow> byte list" where
  "uint64_pack value =
     (let hi = ucast (drop_bit 32 value) :: u32; lo = ucast value :: u32 in
      if hi = 0 then uint32_pack lo
      else
        [ucast (lo OR 0x80), ucast (drop_bit 7 lo OR 0x80),
         ucast (drop_bit 14 lo OR 0x80), ucast (drop_bit 21 lo OR 0x80)] @
        (if hi < 8 then [ucast (push_bit 4 hi OR drop_bit 28 lo)]
         else ucast (push_bit 4 (hi AND 7) OR drop_bit 28 lo OR 0x80) # hi_pack (drop_bit 3 hi)))"

definition sint64_pack :: "u64 \<Rightarrow> byte list" where
  "sint64_pack value = uint64_pack (zigzag64 value)"

definition fixed32_pack :: "u32 \<Rightarrow> byte list" where
  "fixed32_pack value =
     [ucast value, ucast (drop_bit 8 value), ucast (drop_bit 16 value), ucast (drop_bit 24 value)]"

definition fixed64_pack :: "u64 \<Rightarrow> byte list" where
  "fixed64_pack value = fixed32_pack (ucast value) @ fixed32_pack (ucast (drop_bit 32 value))"

definition boolean_pack :: "bool \<Rightarrow> byte list" where
  "boolean_pack value = [if value then 1 else 0]"

text \<open>
  A \<open>char *\<close> is NULL or the bytes of its block before the terminator the allocation ends
  with; as a C string it ends at the first zero byte.
\<close>

definition cstr :: "byte list \<Rightarrow> byte list" where
  "cstr str = takeWhile (\<lambda>c. c \<noteq> 0) str"

definition string_pack :: "byte list option \<Rightarrow> byte list" where
  "string_pack str =
     (case str of
        None \<Rightarrow> [0]
      | Some s \<Rightarrow> uint32_pack (of_nat (length (cstr s))) @ cstr s)"

definition binary_data_pack :: "byte list \<Rightarrow> byte list" where
  "binary_data_pack bd = uint32_pack (of_nat (length bd)) @ bd"

definition tag_pack :: "u32 \<Rightarrow> byte list" where
  "tag_pack ident =
     (if ident < 2 ^ (32 - 3) then uint32_pack (push_bit 3 ident)
      else uint64_pack (push_bit 3 (ucast ident)))"

section \<open>Parsing\<close>

text \<open>
  The tag and the wire type in front of a field, with the bytes they take; \<open>None\<close> is the
  C result 0. The loop runs over the bytes after the first.
\<close>

fun tag_loop :: "nat \<Rightarrow> nat \<Rightarrow> nat \<Rightarrow> byte list \<Rightarrow> u32 \<Rightarrow> (nat \<times> u32) option" where
  "tag_loop 0 rv shift data tag = None"
| "tag_loop (Suc left) rv shift data tag =
     (if data ! rv AND 0x80 \<noteq> 0
      then tag_loop left (rv + 1) (shift + 7) data (tag OR push_bit shift (ucast (data ! rv AND 0x7F)))
      else Some (rv + 1, tag OR push_bit shift (ucast (data ! rv))))"

definition parse_tag_and_wiretype :: "byte list \<Rightarrow> (nat \<times> u32 \<times> byte) option" where
  "parse_tag_and_wiretype data =
     (let max_rv = (if length data > 5 then 5 else length data);
          tag = drop_bit 3 (ucast (data ! 0 AND 0x7F));
          wiretype = data ! 0 AND 7
      in if data ! 0 AND 0x80 = 0 then Some (1, tag, wiretype)
         else map_option (\<lambda>(used, tag). (used, tag, wiretype)) (tag_loop (max_rv - 1) 1 4 data tag))"

text \<open>
  The length prefix: the total of the prefix and the data, and the prefix's own length. The
  sum is computed in 32 bits, so a length close to \<open>2 ^ 32\<close> wraps round; \<open>None\<close> is the C
  result 0.
\<close>

fun prefix_loop :: "nat \<Rightarrow> nat \<Rightarrow> byte list \<Rightarrow> u32 \<Rightarrow> (nat \<times> u32) option" where
  "prefix_loop 0 i data val = None"
| "prefix_loop (Suc left) i data val =
     (let val' = val OR push_bit (7 * i) (ucast (data ! i AND 0x7F)) in
      if data ! i AND 0x80 = 0 then Some (i, val') else prefix_loop left (i + 1) data val')"

definition scan_length_prefixed_data :: "byte list \<Rightarrow> (nat \<times> nat) option" where
  "scan_length_prefixed_data data =
     (let hdr_max = (if length data < 5 then length data else 5) in
      case prefix_loop hdr_max 0 data 0 of
        None \<Rightarrow> None
      | Some (i, val) \<Rightarrow>
          let hdr_len = i + 1; total = unat (of_nat hdr_len + val) in
          if total > length data \<or> total = 0 then None else Some (total, hdr_len))"

text \<open>A varint of at most ten bytes: the number of its bytes.\<close>

fun varint_loop :: "nat \<Rightarrow> nat \<Rightarrow> byte list \<Rightarrow> nat option" where
  "varint_loop 0 i data = None"
| "varint_loop (Suc left) i data = (if data ! i AND 0x80 = 0 then Some (i + 1) else varint_loop left (i + 1) data)"

definition scan_varint :: "byte list \<Rightarrow> nat option" where
  "scan_varint data = varint_loop (if length data < 10 then length data else 10) 0 data"

definition parse_uint32 :: "nat \<Rightarrow> byte list \<Rightarrow> u32" where
  "parse_uint32 len data =
     (let rv = ucast (data ! 0 AND 0x7F) in
      if len > 1 then
        let rv = rv OR push_bit 7 (ucast (data ! 1 AND 0x7F)) in
        if len > 2 then
          let rv = rv OR push_bit 14 (ucast (data ! 2 AND 0x7F)) in
          if len > 3 then
            let rv = rv OR push_bit 21 (ucast (data ! 3 AND 0x7F)) in
            if len > 4 then rv OR push_bit 28 (ucast (data ! 4)) else rv
          else rv
        else rv
      else rv)"

definition parse_int32 :: "nat \<Rightarrow> byte list \<Rightarrow> u32" where
  "parse_int32 len data = parse_uint32 len data"

definition unzigzag32 :: "u32 \<Rightarrow> u32" where
  "unzigzag32 v = (if v AND 1 \<noteq> 0 then - drop_bit 1 v - 1 else drop_bit 1 v)"

definition parse_fixed_uint32 :: "byte list \<Rightarrow> u32" where
  "parse_fixed_uint32 data =
     ucast (data ! 0) OR push_bit 8 (ucast (data ! 1)) OR push_bit 16 (ucast (data ! 2)) OR
     push_bit 24 (ucast (data ! 3))"

fun uint64_loop :: "byte list \<Rightarrow> nat \<Rightarrow> u64 \<Rightarrow> u64" where
  "uint64_loop [] shift rv = rv"
| "uint64_loop (b # bs) shift rv = uint64_loop bs (shift + 7) (rv OR push_bit shift (ucast (b AND 0x7F)))"

definition parse_uint64 :: "nat \<Rightarrow> byte list \<Rightarrow> u64" where
  "parse_uint64 len data =
     (if len < 5 then ucast (parse_uint32 len data)
      else
        let rv = ucast (data ! 0 AND 0x7F) OR push_bit 7 (ucast (data ! 1 AND 0x7F)) OR
                 push_bit 14 (ucast (data ! 2 AND 0x7F)) OR push_bit 21 (ucast (data ! 3 AND 0x7F))
        in uint64_loop (drop 4 (take len data)) 28 rv)"

definition unzigzag64 :: "u64 \<Rightarrow> u64" where
  "unzigzag64 v = (if v AND 1 \<noteq> 0 then - drop_bit 1 v - 1 else drop_bit 1 v)"

definition parse_fixed_uint64 :: "byte list \<Rightarrow> u64" where
  "parse_fixed_uint64 data =
     ucast (parse_fixed_uint32 data) OR push_bit 32 (ucast (parse_fixed_uint32 (drop 4 data)))"

definition parse_boolean :: "nat \<Rightarrow> byte list \<Rightarrow> bool" where
  "parse_boolean len data \<longleftrightarrow> (\<exists>b \<in> set (take len data). b AND 0x7F \<noteq> 0)"

section \<open>The reference encoding\<close>

fun varint :: "nat \<Rightarrow> byte list" where
  "varint n = (if n < 128 then [of_nat n] else of_nat (n mod 128 + 128) # varint (n div 128))"

declare varint.simps [simp del]

fun unvarint :: "byte list \<Rightarrow> nat" where
  "unvarint [] = 0"
| "unvarint (b # bs) = unat b mod 128 + 128 * unvarint bs"

lemma unat_digit [simp]: "unat (of_nat (n mod 128 + 128) :: byte) = n mod 128 + 128"
  by (simp add: unat_of_nat del: of_nat_add)

lemma unat_digit_last: "n < 128 \<Longrightarrow> unat (of_nat n :: byte) = n"
  by (simp add: unat_of_nat del: of_nat_add)

lemma unvarint_varint: "unvarint (varint n) = n"
proof (induction n rule: varint.induct)
  case (1 n)
  then show ?case by (subst varint.simps) (auto simp: unat_digit_last simp del: of_nat_add)
qed

lemma and_7F: "x AND 0x7F = take_bit 7 (x :: 'a :: len word)"
  by (simp add: take_bit_eq_mask mask_eq_exp_minus_1)

lemma and_7: "x AND 7 = take_bit 3 (x :: 'a :: len word)"
  by (simp add: take_bit_eq_mask mask_eq_exp_minus_1)

lemma or_80: "x OR 0x80 = set_bit 7 (x :: 'a :: len word)"
  by (simp add: set_bit_eq_or)

lemma and_80: "(x AND 0x80 = 0) = (\<not> bit (x :: byte) 7)"
  by (simp add: bit_iff_and_push_bit_not_eq_0)

lemma ge_80: "((x :: u32) \<ge> 0x80) = (unat x \<ge> 128)"
  by (simp add: word_le_nat_alt)

lemma nat_or_80: "take_bit 8 (x OR 128) = x mod 128 + (128 :: nat)"
proof -
  have "take_bit 8 (x OR 128) = take_bit 7 x OR 128"
  proof (rule bit_eqI)
    fix i :: nat
    have "128 = (2 ^ 7 :: nat)" by simp
    then have "bit (128 :: nat) i = (i = 7)" by (simp only: bit_exp_iff) simp
    then show "bit (take_bit 8 (x OR 128)) i = bit (take_bit 7 x OR 128) i"
      by (auto simp: bit_simps)
  qed
  also have "... = take_bit 7 x + 128"
  proof (rule disjunctive_add [symmetric])
    fix i :: nat
    have "128 = (2 ^ 7 :: nat)" by simp
    then have "bit (128 :: nat) i = (i = 7)" by (simp only: bit_exp_iff) simp
    then show "\<not> bit (take_bit 7 x) i \<or> \<not> bit (128 :: nat) i" by (auto simp: bit_simps)
  qed
  finally show ?thesis by (simp add: take_bit_eq_mod)
qed

lemma byte_or: "(ucast ((v :: u32) OR 0x80) :: byte) = of_nat (unat v mod 128 + 128)"
proof -
  have "unat (ucast (v OR 0x80) :: byte) = take_bit 8 (unat v OR 128)"
    by (simp add: unsigned_ucast_eq unsigned_or_eq)
  then have "unat (ucast (v OR 0x80) :: byte) = unat v mod 128 + 128"
    unfolding nat_or_80 .
  then show ?thesis
    unfolding word_unat_eq_iff unat_digit .
qed

lemma unat_shift: "unat (drop_bit 7 (v :: u32)) = unat v div 128"
  by (simp add: unat_drop_bit_eq) (simp add: drop_bit_eq_div)

lemma varint_word:
  "varint (unat (v :: u32)) =
     (if v \<ge> 0x80 then ucast (v OR 0x80) # varint (unat (drop_bit 7 v)) else [ucast v])"
  unfolding byte_or unat_shift ge_80 by (subst varint.simps) (simp del: of_nat_add)

section \<open>The packers produce it\<close>

lemma uint32_pack_varint: "uint32_pack v = varint (unat v)"
proof -
  have "unat v < 2 ^ 32" using unsigned_less [of v] by simp
  then have small: "unat (drop_bit 7 (drop_bit 7 (drop_bit 7 (drop_bit 7 v)))) < 128"
    unfolding unat_shift by simp
  have fin: "varint (unat (drop_bit 7 (drop_bit 7 (drop_bit 7 (drop_bit 7 v))))) =
      [ucast (drop_bit 7 (drop_bit 7 (drop_bit 7 (drop_bit 7 v))))]"
    by (subst varint_word) (use small in \<open>simp only: ge_80 not_le if_False if_True split: if_split\<close>, simp)
  show ?thesis
    unfolding uint32_pack_def Let_def
    by (subst varint_word, subst varint_word, subst varint_word, subst varint_word) (simp only: fin)
qed

lemma hi_pack_varint: "hi_pack v = varint (unat v)"
  by (induction v rule: hi_pack.induct) (subst hi_pack.simps, subst varint_word, simp)


lemma byte_or64: "(ucast ((v :: u64) OR 0x80) :: byte) = of_nat (unat v mod 128 + 128)"
proof -
  have "unat (ucast (v OR 0x80) :: byte) = take_bit 8 (unat v OR 128)"
    by (simp add: unsigned_ucast_eq unsigned_or_eq)
  then have "unat (ucast (v OR 0x80) :: byte) = unat v mod 128 + 128"
    unfolding nat_or_80 .
  then show ?thesis
    unfolding word_unat_eq_iff unat_digit .
qed

lemma unat_shift64: "unat (drop_bit 7 (v :: u64)) = unat v div 128"
  by (simp add: unat_drop_bit_eq) (simp add: drop_bit_eq_div)

lemma varint_word64:
  "varint (unat (v :: u64)) =
     (if unat v \<ge> 128 then ucast (v OR 0x80) # varint (unat (drop_bit 7 v)) else [ucast v])"
  unfolding byte_or64 unat_shift64 by (subst varint.simps) (simp del: of_nat_add)

lemma bit_80: "bit (0x80 :: 'a :: len word) i \<longleftrightarrow> i = 7 \<and> 7 < LENGTH('a)"
proof -
  have "(0x80 :: 'a word) = push_bit 7 1" by simp
  then show ?thesis by (simp only: bit_push_bit_iff) (auto simp: bit_simps)
qed

lemma bit_80_int: "bit (0x80 :: int) i \<longleftrightarrow> i = 7"
proof -
  have "(0x80 :: int) = 2 ^ 7" by simp
  then show ?thesis by (simp only: bit_exp_iff) simp
qed

lemma low_byte:
  assumes "k \<le> 24"
  shows "(ucast (drop_bit k (v :: u64) OR 0x80) :: byte) = ucast (drop_bit k (ucast v :: u32) OR 0x80)"
  by (rule bit_eqI) (use assms in \<open>auto simp: bit_simps bit_80\<close>)

lemma uint64_pack_varint: "uint64_pack v = varint (unat v)"
proof -
  define hi :: u32 where "hi = ucast (drop_bit 32 v)"
  define lo :: u32 where "lo = ucast v"
  have hi: "unat hi = unat v div 2 ^ 32"
  proof -
    have "unat v < 2 ^ 64" using unsigned_less [of v] by simp
    then have "unat v div 2 ^ 32 < 2 ^ 32" by (simp add: div_less_iff_less_mult)
    then show ?thesis
      unfolding hi_def by (simp add: unsigned_ucast_eq unat_drop_bit_eq take_bit_eq_mod) (simp add: drop_bit_eq_div)
  qed
  show ?thesis
  proof (cases "hi = 0")
    case True
    then have "unat v < 2 ^ 32" using hi by (simp add: div_eq_0_iff)
    then have "unat lo = unat v" unfolding lo_def by (simp add: unsigned_ucast_eq take_bit_eq_mod)
    then show ?thesis using True unfolding uint64_pack_def Let_def hi_def [symmetric] lo_def [symmetric]
      by (simp add: uint32_pack_varint)
  next
    case False
    then have "unat v div 2 ^ 32 > 0" using hi by (metis gr0I unsigned_0 word_unat_eq_iff)
    then have big: "unat v \<ge> 2 ^ 32" by (simp add: div_greater_zero_iff)
    have s: "drop_bit 7 (drop_bit 7 v) = drop_bit 14 v" "drop_bit 7 (drop_bit 14 v) = drop_bit 21 v"
      "drop_bit 7 (drop_bit 21 v) = drop_bit 28 v" "drop_bit 7 (drop_bit 28 v) = drop_bit 35 v"
      by (simp_all add: drop_bit_drop_bit)
    have u: "unat (drop_bit 14 v) = unat v div 128 div 128"
      "unat (drop_bit 21 v) = unat v div 128 div 128 div 128"
      "unat (drop_bit 28 v) = unat v div 128 div 128 div 128 div 128"
      by (simp_all only: s [symmetric] unat_shift64)
    have four: "varint (unat v) =
        [ucast (lo OR 0x80), ucast (drop_bit 7 lo OR 0x80), ucast (drop_bit 14 lo OR 0x80),
         ucast (drop_bit 21 lo OR 0x80)] @ varint (unat (drop_bit 28 v))"
      using big low_byte [of 0 v] low_byte [of 7 v] low_byte [of 14 v] low_byte [of 21 v]
      by (subst varint_word64, subst varint_word64, subst varint_word64, subst varint_word64)
        (simp add: s u unat_shift64 lo_def less_eq_div_iff_mult_less_eq)
    have b5: "(ucast (drop_bit 28 v OR 0x80) :: byte) = ucast (push_bit 4 (hi AND 7) OR drop_bit 28 lo OR 0x80)"
      unfolding hi_def lo_def and_7
      by (rule bit_eqI) (auto simp: bit_simps bit_80 bit_80_int)
    have b5': "(ucast (drop_bit 28 v) :: byte) = ucast (push_bit 4 hi OR drop_bit 28 lo)"
      unfolding hi_def lo_def
      by (rule bit_eqI) (auto simp: bit_simps bit_80)
    have lt: "(hi < 8) = (unat (drop_bit 28 v) < 128)"
    proof -
      have "unat (drop_bit 28 v) div 16 = unat hi"
        using hi by (simp add: unat_drop_bit_eq) (simp add: drop_bit_eq_div div_mult2_eq [symmetric])
      then show ?thesis by (simp add: word_less_nat_alt) linarith
    qed
    have rest: "unat (drop_bit 35 v) = unat (drop_bit 3 hi)"
      using hi by (simp add: unat_drop_bit_eq) (simp add: drop_bit_eq_div div_mult2_eq [symmetric])
    have "varint (unat (drop_bit 28 v)) =
        (if hi < 8 then [ucast (push_bit 4 hi OR drop_bit 28 lo)]
         else ucast (push_bit 4 (hi AND 7) OR drop_bit 28 lo OR 0x80) # hi_pack (drop_bit 3 hi))"
      by (subst varint_word64) (simp only: lt hi_pack_varint rest s b5 b5' not_le if_not_P split: if_split, simp)
    then show ?thesis using False four
      unfolding uint64_pack_def Let_def hi_def [symmetric] lo_def [symmetric] by simp
  qed
qed


section \<open>Sizes are lengths\<close>

lemma length_varint: "length (varint n) = (if n < 128 then 1 else Suc (length (varint (n div 128))))"
  by (subst varint.simps) simp

lemma varint_not_Nil [simp]: "varint n \<noteq> []"
  by (subst varint.simps) simp

lemma sint_nonneg:
  assumes "\<not> sint (v :: 'a :: len word) < 0"
  shows "sint v = uint v"
proof -
  have "\<not> bit v (LENGTH('a) - 1)" using assms by (simp add: bit_last_iff)
  then show ?thesis by (simp add: sint_uint signed_take_bit_eq_take_bit_minus bit_uint_iff
        take_bit_int_eq_self [OF unsigned_greater_eq unsigned_less])
qed

lemma uint32_size_pack: "length (uint32_pack v) = uint32_size v"
proof -
  have "unat v < 2 ^ 32" using unsigned_less [of v] by simp
  then show ?thesis
    unfolding uint32_pack_varint uint32_size_def word_less_nat_alt
    by (subst length_varint, subst length_varint, subst length_varint, subst length_varint, subst length_varint)
      (simp add: div_less_iff_less_mult div_mult2_eq [symmetric])
qed

lemma int32_size_pack: "length (int32_pack v) = int32_size v"
proof (cases "sint v < 0")
  case False
  then have "sint v = uint v" by (rule sint_nonneg)
  then show ?thesis
    unfolding int32_pack_def int32_size_def uint32_size_def uint32_size_pack if_not_P [OF False]
    by (simp add: word_less_def)
qed (simp add: int32_pack_def int32_size_def)

section \<open>The parsers read its value\<close>

lemma word_digit: "(of_nat (unat (b :: byte) mod 128) :: 'a :: len word) = take_bit 7 (ucast b)"
proof -
  have "(of_nat (take_bit 7 (unat b)) :: 'a word) = take_bit 7 (of_nat (unat b))"
    by (rule take_bit_of_nat [symmetric])
  then show ?thesis by (simp add: take_bit_eq_mod)
qed

lemma word_of_unvarint:
  "(of_nat (unvarint (b # bs)) :: 'a :: len word) = take_bit 7 (ucast b) OR push_bit 7 (of_nat (unvarint bs))"
proof -
  have "take_bit 7 (ucast b :: 'a word) OR push_bit 7 (of_nat (unvarint bs)) =
      take_bit 7 (ucast b) + push_bit 7 (of_nat (unvarint bs))"
    by (rule disjunctive_add [symmetric]) (auto simp: bit_simps)
  also have "... = of_nat (unat b mod 128) + of_nat (128 * unvarint bs)"
    by (simp only: word_digit push_bit_eq_mult) simp
  finally show ?thesis by simp
qed

lemma shift_out [simp]: "LENGTH('a) \<le> n \<Longrightarrow> push_bit n (w :: 'a :: len word) = 0"
  by (rule bit_word_eqI) (simp add: bit_push_bit_iff)

lemma top_digit: "push_bit 28 (take_bit 7 (w :: u32)) = push_bit 28 w"
  by (rule bit_word_eqI) (auto simp: bit_simps)

lemma ucast_7F: "(ucast ((b :: byte) AND 0x7F) :: 'a :: len word) = take_bit 7 (ucast b)"
  unfolding and_7F by (rule bit_word_eqI) (auto simp: bit_simps)

lemmas unvarint_steps = word_of_unvarint push_bit_or push_bit_push_bit ucast_7F or.assoc

lemma parse_uint32_value:
  assumes "1 \<le> len" and "len \<le> length data"
  shows "parse_uint32 len data = of_nat (unvarint (take len data))"
proof -
  consider "len = 1" | "len = 2" | "len = 3" | "len = 4" | "5 \<le> len" using assms(1) by linarith
  then show ?thesis
  proof cases
    case 1 then show ?thesis using assms(2)
      by (cases data) (auto simp add: parse_uint32_def unvarint_steps simp del: unvarint.simps(2))
  next
    case 2 then obtain a b r where "data = a # b # r" using assms(2) by (metis Suc_le_length_iff numeral_2_eq_2)
    with 2 show ?thesis by (simp add: parse_uint32_def unvarint_steps del: unvarint.simps(2))
  next
    case 3 then obtain a b c r where "data = a # b # c # r" using assms(2) by (metis Suc_le_length_iff numeral_3_eq_3)
    with 3 show ?thesis by (simp add: parse_uint32_def unvarint_steps del: unvarint.simps(2))
  next
    case 4 then obtain a b c d r where "data = a # b # c # d # r"
      using assms(2) by (auto simp: Suc_le_length_iff eval_nat_numeral)
    with 4 show ?thesis by (simp add: parse_uint32_def unvarint_steps del: unvarint.simps(2))
  next
    case 5
    then have "5 \<le> length data" using assms(2) by simp
    then obtain a b c d e r where "data = a # b # c # d # e # r"
      by (auto simp: Suc_le_length_iff eval_nat_numeral)
    with 5 show ?thesis
      by (simp add: parse_uint32_def take_Cons' unvarint_steps top_digit del: unvarint.simps(2))
  qed
qed


lemma unvarint_less: "unvarint bs < 128 ^ length bs"
proof (induction bs)
  case (Cons b bs)
  then show ?case
    by simp
qed simp

lemma uint64_loop_value:
  "uint64_loop bs shift rv = rv OR push_bit shift (of_nat (unvarint bs))"
proof (induction bs arbitrary: shift rv)
  case (Cons b bs)
  then show ?case
    by (simp only: uint64_loop.simps unvarint_steps)
qed simp

lemma parse_uint64_value:
  assumes "1 \<le> len" and "len \<le> length data"
  shows "parse_uint64 len data = of_nat (unvarint (take len data))"
proof (cases "len < 5")
  case True
  have "unvarint (take len data) < 128 ^ length (take len data)" by (rule unvarint_less)
  also have "... \<le> 128 ^ 4" using True by (intro power_increasing) auto
  finally have "unvarint (take len data) < 2 ^ 32" by simp
  then show ?thesis using True assms
    by (simp add: parse_uint64_def parse_uint32_value unsigned_of_nat take_bit_nat_eq_self)
next
  case False
  then have "4 \<le> length data" using assms(2) by simp
  then obtain a b c d r where "data = a # b # c # d # r"
    by (auto simp: Suc_le_length_iff eval_nat_numeral)
  with False show ?thesis
    by (simp add: parse_uint64_def take_Cons' uint64_loop_value unvarint_steps del: unvarint.simps(2))
qed

lemma bit_7_unat: "bit (b :: byte) 7 \<longleftrightarrow> 128 \<le> unat b"
proof -
  have lt: "unat b < 256" using unsigned_less [of b] by simp
  have "bit b 7 \<longleftrightarrow> odd (unat b div 128)"
  proof -
    have "bit b 7 \<longleftrightarrow> bit (unat b) 7" by (simp add: bit_simps)
    then show ?thesis by (simp only: bit_iff_odd [of "unat b"]) simp
  qed
  moreover have "unat b div 128 = (if unat b < 128 then 0 else 1)"
    using lt by auto
  ultimately show ?thesis by simp
qed

fun is_varint :: "byte list \<Rightarrow> bool" where
  "is_varint [] = False"
| "is_varint (b # bs) = (if bs = [] then \<not> bit b 7 else bit b 7 \<and> is_varint bs)"

lemma is_varint_varint [simp]: "is_varint (varint n)"
proof (induction n rule: varint.induct)
  case (1 n)
  then show ?case
    by (subst varint.simps) (simp add: bit_7_unat unat_digit_last del: of_nat_add)
qed

lemma bit_or_80 [simp]: "bit (ucast ((x :: u32) OR 0x80) :: byte) 7"
  by (simp add: bit_simps bit_80)

lemma is_varint_int32: "is_varint (int32_pack v)"
  by (simp add: int32_pack_def uint32_pack_varint)

lemma varint_loop_ok:
  assumes "is_varint bs" and "drop i data = bs @ rest" and "length bs \<le> left"
  shows "varint_loop left i data = Some (i + length bs)"
  using assms
proof (induction bs arbitrary: i left)
  case (Cons b bs)
  then obtain left' where left: "left = Suc left'" by (cases left) auto
  have at: "data ! i = b" and dr: "drop (Suc i) data = bs @ rest"
    using Cons.prems(2) by (metis append_Cons nth_via_drop) (metis Cons.prems(2) append_Cons drop_Suc list.sel(3) tl_drop)
  show ?case using Cons.prems Cons.IH [of "Suc i" left'] dr unfolding left
    by (auto simp: at and_80 split: if_splits)
qed simp


lemma scan_varint_ok:
  assumes "is_varint bs" and "length bs \<le> 10"
  shows "scan_varint (bs @ rest) = Some (length bs)"
  unfolding scan_varint_def using varint_loop_ok [OF assms(1), of 0 "bs @ rest" rest] assms(2)
  by simp

lemma prefix_loop_ok:
  assumes "is_varint bs" and "drop i data = bs @ rest" and "length bs \<le> left"
  shows "prefix_loop left i data val = Some (i + length bs - 1, val OR push_bit (7 * i) (of_nat (unvarint bs)))"
  using assms
proof (induction bs arbitrary: i left val)
  case (Cons b bs)
  then obtain left' where left: "left = Suc left'" by (cases left) auto
  have at: "data ! i = b" and dr: "drop (Suc i) data = bs @ rest"
    using Cons.prems(2) by (metis append_Cons nth_via_drop) (metis Cons.prems(2) append_Cons drop_Suc list.sel(3) tl_drop)
  show ?case
  proof (cases "bs = []")
    case True
    then show ?thesis using Cons.prems unfolding left
      by (simp add: at and_80 Let_def unvarint_steps del: unvarint.simps(2))
  next
    case False
    then show ?thesis using Cons.prems Cons.IH [of "Suc i" left' "val OR push_bit (7 * i) (take_bit 7 (ucast b))"] dr unfolding left
      by (simp add: at and_80 Let_def unvarint_steps ac_simps del: unvarint.simps(2))
  qed
qed simp

lemma take_bit_low:
  assumes "\<not> bit (b :: byte) 7"
  shows "take_bit 7 (ucast b) = (ucast b :: u32)"
proof (rule bit_word_eqI)
  fix n
  have "n < 7" if "bit b n"
    using bit_imp_le_length [OF that] that assms by (cases "n = 7") auto
  then show "bit (take_bit 7 (ucast b :: u32)) n = bit (ucast b :: u32) n"
    by (auto simp: bit_simps)
qed

lemma tag_loop_ok:
  assumes "is_varint bs" and "drop rv data = bs @ rest" and "length bs \<le> left"
  shows "tag_loop left rv shift data tag = Some (rv + length bs, tag OR push_bit shift (of_nat (unvarint bs)))"
  using assms
proof (induction bs arbitrary: rv left shift tag)
  case (Cons b bs)
  then obtain left' where left: "left = Suc left'" by (cases left) auto
  have at: "data ! rv = b" and dr: "drop (Suc rv) data = bs @ rest"
    using Cons.prems(2) by (metis append_Cons nth_via_drop) (metis Cons.prems(2) append_Cons drop_Suc list.sel(3) tl_drop)
  show ?case
  proof (cases "bs = []")
    case True
    then show ?thesis using Cons.prems unfolding left
      by (simp add: at and_80 unvarint_steps take_bit_low del: unvarint.simps(2))
  next
    case False
    then show ?thesis using Cons.prems Cons.IH [of "Suc rv" left' "shift + 7" "tag OR push_bit shift (take_bit 7 (ucast b))"] dr unfolding left
      by (simp add: at and_80 unvarint_steps ac_simps del: unvarint.simps(2))
  qed
qed simp

lemma scan_length_prefixed_ok:
  assumes "length body < 2 ^ 32 - 5"
  shows "scan_length_prefixed_data (uint32_pack (of_nat (length body)) @ body @ rest) =
    Some (length (uint32_pack (of_nat (length body))) + length body, length (uint32_pack (of_nat (length body))))"
proof -
  define v :: u32 where "v = of_nat (length body)"
  let ?h = "uint32_pack v"
  have v: "unat v = length body" using assms by (simp add: v_def unat_of_nat)
  have l: "length ?h \<le> 5" "1 \<le> length ?h" by (simp_all add: uint32_size_pack uint32_size_def)
  have "prefix_loop (if length (?h @ body @ rest) < 5 then length (?h @ body @ rest) else 5) 0 (?h @ body @ rest) 0 =
      Some (0 + length ?h - 1, 0 OR push_bit (7 * 0) (of_nat (unvarint ?h)))"
    by (rule prefix_loop_ok [where rest = "body @ rest"]) (use l in \<open>simp_all add: uint32_pack_varint\<close>)
  moreover have "(of_nat (unvarint ?h) :: u32) = v" by (simp add: uint32_pack_varint unvarint_varint)
  moreover have "unat (of_nat (length ?h) + v :: u32) = length ?h + length body"
    using assms l v by (simp add: unat_word_ariths unat_of_nat)
  moreover have "?h \<noteq> []" using l by auto
  ultimately show ?thesis using l unfolding scan_length_prefixed_data_def v_def [symmetric] by simp
qed


text \<open>The tag of a field with its wire type put into the first byte.\<close>

definition tagged :: "byte \<Rightarrow> byte list \<Rightarrow> byte list" where
  "tagged wire_type out = (hd out OR wire_type) # tl out"

lemma tag_pack_varint: "tag_pack ident = varint (8 * unat ident)"
proof (cases "ident < 2 ^ (32 - 3)")
  case True
  then have "unat ident < 2 ^ 29" by (simp add: word_less_nat_alt)
  then have "unat (push_bit 3 ident) = 8 * unat ident"
    by (simp add: push_bit_eq_mult unat_word_ariths)
  then show ?thesis using True by (simp add: tag_pack_def uint32_pack_varint)
next
  case False
  have "unat ident < 2 ^ 32" using unsigned_less [of ident] by simp
  then have "unat (push_bit 3 (ucast ident :: u64)) = 8 * unat ident"
    by (simp add: push_bit_eq_mult unat_word_ariths unsigned_ucast_eq take_bit_nat_eq_self)
  then show ?thesis using False by (simp add: tag_pack_def uint64_pack_varint)
qed

lemma unat_or_low:
  assumes "unat (w :: byte) < 8" and "unat b mod 8 = 0"
  shows "unat (b OR w) = unat b + unat w"
proof -
  have "unat (take_bit 3 w) = unat w" "unat (take_bit 3 b) = unat (0 :: byte)"
    unfolding unsigned_take_bit_eq using assms by (simp_all add: take_bit_eq_mod)
  then have w: "take_bit 3 w = w" and b: "take_bit 3 b = 0"
    by (simp_all only: word_unat_eq_iff)
  have "\<not> bit b i \<or> \<not> bit w i" for i
    by (metis b bit_0_eq bit_take_bit_iff bot_apply bot_bool_def w)
  then have "b OR w = b + w" by (rule disjunctive_add [symmetric])
  moreover have "unat b < 256" using unsigned_less [of b] by simp
  then have "unat b + unat w < 256" using assms by presburger
  ultimately show ?thesis by (simp add: unat_word_ariths)
qed

lemma low_digit:
  fixes k :: nat
  assumes "k < 8"
  shows "(8 * a + k) mod 128 = 8 * a mod 128 + k \<and> (8 * a + k) div 128 = 8 * a div 128 \<and>
    (8 * a < 128 \<longleftrightarrow> 8 * a + k < 128)"
proof -
  have "a = 16 * (a div 16) + a mod 16" by simp
  then obtain q r where a: "a = 16 * q + r" and r: "r < 16" by (metis mod_less_divisor zero_less_numeral)
  have lt: "8 * r + k < 128" "8 * r < 128" using r assms by simp_all
  have e: "8 * a + k = (8 * r + k) + 128 * q" "8 * a = 8 * r + 128 * q" using a by simp_all
  have "(8 * a + k) mod 128 = 8 * r + k" "(8 * a + k) div 128 = q"
    unfolding e(1) using lt by simp_all
  moreover have "8 * a mod 128 = 8 * r" "8 * a div 128 = q"
    unfolding e(2) using lt by simp_all
  moreover have "8 * a < 128 \<longleftrightarrow> 8 * a + k < 128" using assms by presburger
  ultimately show ?thesis by simp
qed

lemma or_low_digit:
  assumes "unat (w :: byte) < 8" and "m mod 8 = 0" and "m < 256"
  shows "(of_nat m OR w :: byte) = of_nat (m + unat w)"
proof -
  have m: "unat (of_nat m :: byte) = m" using assms(3) by (simp add: unat_of_nat)
  have "m + unat w < 256" using assms by presburger
  then have "unat (of_nat (m + unat w) :: byte) = m + unat w" by (simp add: unat_of_nat del: of_nat_add)
  moreover have "unat (of_nat m OR w) = m + unat w" using unat_or_low [of w "of_nat m"] assms m by simp
  ultimately show ?thesis unfolding word_unat_eq_iff by simp
qed

lemma tagged_tag_pack:
  assumes "unat w < 8"
  shows "tagged w (tag_pack ident) = varint (8 * unat ident + unat w)"
proof -
  define n where "n = 8 * unat ident"
  have m: "(n + unat w) mod 128 = n mod 128 + unat w" "(n + unat w) div 128 = n div 128"
    "n < 128 \<longleftrightarrow> n + unat w < 128"
    unfolding n_def using low_digit [OF assms, of "unat ident"] by simp_all
  have n8: "n mod 8 = 0" "(n mod 128 + 128) mod 8 = 0" unfolding n_def by presburger+
  have small: "n < 128 \<Longrightarrow> (of_nat n OR w :: byte) = of_nat (n + unat w)"
    using n8 assms by (intro or_low_digit) simp_all
  have large: "(of_nat (n mod 128 + 128) OR w :: byte) = of_nat ((n + unat w) mod 128 + 128)"
    using or_low_digit [OF assms n8(2)] m by (simp add: ac_simps del: of_nat_add)
  show ?thesis unfolding tag_pack_varint tagged_def n_def [symmetric]
    by (subst (1 2) varint.simps, subst (3) varint.simps) (simp add: small large m del: of_nat_add)
qed

lemma get_tag_size_pack: "length (tag_pack ident) = get_tag_size ident"
proof -
  have "unat ident < 2 ^ 32" using unsigned_less [of ident] by simp
  then show ?thesis
    unfolding tag_pack_varint get_tag_size_def word_less_nat_alt
    by (subst length_varint, subst length_varint, subst length_varint, subst length_varint, subst length_varint)
      (simp add: div_less_iff_less_mult div_mult2_eq [symmetric])
qed


lemma unat_hd_varint: "unat (hd (varint n)) = (if n < 128 then n else n mod 128 + 128)"
  by (subst varint.simps) (simp add: unat_digit_last del: of_nat_add)

lemma hd_varint_7F: "(ucast (hd (varint n) AND 0x7F) :: u32) = of_nat (n mod 128)"
proof -
  have "unat (take_bit 7 (hd (varint n))) = n mod 128"
    unfolding unsigned_take_bit_eq unat_hd_varint by (simp add: take_bit_eq_mod)
  then show ?thesis unfolding and_7F by (simp add: word_unat_eq_iff unsigned_ucast_eq unat_of_nat take_bit_eq_mod)
qed

lemma hd_varint_7: "hd (varint n) AND 7 = of_nat (n mod 8)"
proof -
  have "unat (take_bit 3 (hd (varint n))) = n mod 8"
    unfolding unsigned_take_bit_eq unat_hd_varint by (simp add: take_bit_eq_mod mod_mod_cancel flip: mod_add_eq [of _ 8])
  then show ?thesis unfolding and_7 by (simp add: word_unat_eq_iff unat_of_nat)
qed

lemma tag_digits: "of_nat (n mod 128 div 8) OR push_bit 4 (of_nat (n div 128)) = (of_nat (n div 8) :: 'a :: len word)"
proof -
  have "n mod 128 div 8 < 16" by (simp add: div_less_iff_less_mult)
  then have "take_bit 4 (of_nat (n mod 128 div 8)) = (of_nat (n mod 128 div 8) :: 'a word)"
    by (simp only: take_bit_of_nat take_bit_nat_eq_self) (simp add: take_bit_nat_eq_self)
  then have "of_nat (n mod 128 div 8) OR push_bit 4 (of_nat (n div 128)) =
      (of_nat (n mod 128 div 8) + push_bit 4 (of_nat (n div 128)) :: 'a word)"
    by (intro disjunctive_add [symmetric]) (metis bit_push_bit_iff bit_take_bit_iff not_le)
  also have "... = of_nat (n mod 128 div 8 + 16 * (n div 128))"
    by (simp add: push_bit_eq_mult)
  also have "n mod 128 div 8 + 16 * (n div 128) = n div 8"
  proof -
    have "n mod 128 = 8 * (n div 8 mod 16) + n mod 8" using mod_mult2_eq [of n 8 16] by simp
    then have "n mod 128 div 8 = n div 8 mod 16" by simp
    moreover have "n div 128 = n div 8 div 16" by (simp add: div_mult2_eq [symmetric])
    ultimately show ?thesis by simp
  qed
  finally show ?thesis .
qed

lemma parse_tag_ok:
  assumes "unat w < 8"
  shows "parse_tag_and_wiretype (tagged w (tag_pack ident) @ rest) = Some (get_tag_size ident, ident, w)"
proof -
  define n where "n = 8 * unat ident + unat w"
  have len: "length (varint n) = get_tag_size ident"
    unfolding get_tag_size_pack [symmetric] n_def tagged_tag_pack [OF assms, symmetric]
    by (simp add: tagged_def tag_pack_varint)
  have le5: "get_tag_size ident \<le> 5" by (simp add: get_tag_size_def)
  have "n mod 8 = unat w" "n div 8 = unat ident" using assms by (simp_all add: n_def)
  then have w: "(of_nat (n mod 8) :: byte) = w" and q: "(of_nat (n div 8) :: u32) = ident" by simp_all
  have c: "(varint n @ rest) ! 0 = hd (varint n)" by (simp add: hd_conv_nth nth_append)
  have tag: "drop_bit 3 (of_nat (n mod 128)) = (of_nat (n mod 128 div 8) :: u32)"
  proof -
    have "unat (drop_bit 3 (of_nat (n mod 128) :: u32)) = n mod 128 div 8"
      unfolding unat_drop_bit_eq by (simp add: unat_of_nat drop_bit_eq_div)
    then show ?thesis unfolding word_unat_eq_iff by (simp add: unat_of_nat)
  qed
  have last: "bit (hd (varint n)) 7 \<longleftrightarrow> \<not> n < 128" by (simp add: bit_7_unat unat_hd_varint)
  show ?thesis
  proof (cases "n < 128")
    case True
    then have "get_tag_size ident = 1" using len by (subst (asm) varint.simps) simp
    with True show ?thesis
      unfolding tagged_tag_pack [OF assms] n_def [symmetric] parse_tag_and_wiretype_def Let_def c
        hd_varint_7F hd_varint_7 tag and_80 last w using q by simp
  next
    case False
    then have v: "varint n = of_nat (n mod 128 + 128) # varint (n div 128)" by (subst varint.simps) simp
    let ?data = "varint n @ rest"
    have "tag_loop ((if length ?data > 5 then 5 else length ?data) - 1) 1 4 ?data (of_nat (n mod 128 div 8)) =
        Some (1 + length (varint (n div 128)),
          of_nat (n mod 128 div 8) OR push_bit 4 (of_nat (unvarint (varint (n div 128)))))"
      by (rule tag_loop_ok [where rest = rest]) (use v len le5 in auto)
    then have "tag_loop ((if length ?data > 5 then 5 else length ?data) - 1) 1 4 ?data (of_nat (n mod 128 div 8)) =
        Some (get_tag_size ident, ident)"
      using len v unfolding unvarint_varint tag_digits q by simp
    with False show ?thesis
      unfolding tagged_tag_pack [OF assms] n_def [symmetric] parse_tag_and_wiretype_def Let_def c
        hd_varint_7F hd_varint_7 tag and_80 last w by simp
  qed
qed

section \<open>Round trips of the scalars\<close>

lemma parse_uint32_pack: "parse_uint32 (length (uint32_pack v)) (uint32_pack v @ rest) = v"
  by (subst parse_uint32_value) (simp_all add: uint32_pack_varint unvarint_varint Suc_le_eq)

lemma parse_uint64_pack: "parse_uint64 (length (uint64_pack v)) (uint64_pack v @ rest) = v"
  by (subst parse_uint64_value) (simp_all add: uint64_pack_varint unvarint_varint Suc_le_eq)

lemma split_low: "take_bit n v OR push_bit n (drop_bit n v) = (v :: 'a :: len word)"
proof (rule bit_word_eqI)
  fix i
  assume "i < LENGTH('a)"
  then show "bit (take_bit n v OR push_bit n (drop_bit n v)) i = bit v i"
    by (cases "i < n") (auto simp: bit_simps)
qed

lemma join_digit:
  "push_bit k (take_bit 7 (drop_bit k v)) OR push_bit (k + 7) (drop_bit (k + 7) v) =
     push_bit k (drop_bit k (v :: 'a :: len word))"
proof -
  have "push_bit k (take_bit 7 (drop_bit k v) OR push_bit 7 (drop_bit 7 (drop_bit k v))) =
      push_bit k (drop_bit k v)" by (simp only: split_low)
  then show ?thesis by (simp add: push_bit_or drop_bit_drop_bit add.commute)
qed

lemma byte_digit: "take_bit 7 (ucast (ucast ((x :: u32) OR 0x80) :: byte) :: u32) = take_bit 7 x"
  by (rule bit_word_eqI) (auto simp: bit_simps bit_80 bit_80_int)

lemma signed_digit:
  "k \<le> 25 \<Longrightarrow> take_bit 7 (signed_drop_bit k (v :: u32)) = take_bit 7 (drop_bit k v)"
  by (rule bit_word_eqI) (auto simp: bit_simps)

lemma signed_top: "push_bit 28 (signed_drop_bit 28 (v :: u32)) = push_bit 28 (drop_bit 28 v)"
  by (rule bit_word_eqI) (auto simp: bit_simps)

lemma word_of_five:
  "(of_nat (unvarint (a # b # c # d # e # bs)) :: u32) =
     take_bit 7 (ucast a) OR (push_bit 7 (take_bit 7 (ucast b)) OR (push_bit 14 (take_bit 7 (ucast c)) OR
     (push_bit 21 (take_bit 7 (ucast d)) OR push_bit 28 (ucast e))))"
  by (simp add: unvarint_steps top_digit del: unvarint.simps(2))

lemma parse_int32_pack: "parse_int32 (length (int32_pack v)) (int32_pack v @ rest) = v"
proof (cases "sint v < 0")
  case True
  have "(of_nat (unvarint (int32_pack v)) :: u32) =
      take_bit 7 v OR (push_bit 7 (take_bit 7 (drop_bit 7 v)) OR (push_bit 14 (take_bit 7 (drop_bit 14 v)) OR
      (push_bit 21 (take_bit 7 (drop_bit 21 v)) OR push_bit 28 (drop_bit 28 v))))"
    unfolding int32_pack_def if_P [OF True]
    unfolding word_of_five top_digit [symmetric, of "ucast _"] byte_digit
    by (simp add: signed_digit top_digit signed_top)
  also have "... = v"
    using join_digit [of 21 v] join_digit [of 14 v] join_digit [of 7 v] split_low [of 7 v] by simp
  finally have "(of_nat (unvarint (int32_pack v)) :: u32) = v" .
  moreover have "length (int32_pack v) \<noteq> 0" by (simp add: int32_pack_def True)
  ultimately show ?thesis unfolding parse_int32_def
    by (subst parse_uint32_value) (simp_all add: Suc_le_eq)
next
  case False
  then have "int32_pack v = uint32_pack v" by (simp add: int32_pack_def)
  then show ?thesis by (simp add: parse_int32_def parse_uint32_pack)
qed

lemma parse_boolean_pack: "parse_boolean 1 (boolean_pack b @ rest) = b"
  by (simp add: parse_boolean_def boolean_pack_def)

lemma parse_fixed_uint32_pack: "parse_fixed_uint32 (fixed32_pack v @ rest) = v"
proof (rule bit_word_eqI)
  fix n
  assume "n < LENGTH(32)"
  then consider "n < 8" | "8 \<le> n \<and> n < 16" | "16 \<le> n \<and> n < 24" | "24 \<le> n \<and> n < 32" by force
  then show "bit (parse_fixed_uint32 (fixed32_pack v @ rest)) n = bit v n"
    by cases (auto simp: parse_fixed_uint32_def fixed32_pack_def bit_simps)
qed

lemma length_fixed32 [simp]: "length (fixed32_pack v) = 4"
  by (simp add: fixed32_pack_def)

lemma length_fixed64 [simp]: "length (fixed64_pack v) = 8"
  by (simp add: fixed64_pack_def)

lemma parse_fixed_uint64_pack: "parse_fixed_uint64 (fixed64_pack v @ rest) = v"
proof -
  have "drop 4 (fixed64_pack v @ rest) = fixed32_pack (ucast (drop_bit 32 v)) @ rest"
    by (simp add: fixed64_pack_def)
  moreover have "ucast (ucast v :: u32) OR push_bit 32 (ucast (ucast (drop_bit 32 v) :: u32)) = v"
    by (rule bit_word_eqI) (auto simp: bit_simps)
  ultimately show ?thesis
    by (simp add: parse_fixed_uint64_def parse_fixed_uint32_pack) (simp add: fixed64_pack_def parse_fixed_uint32_pack)
qed

lemma zigzag_cancel:
  fixes v :: "'a :: len word"
  defines "z \<equiv> (if sint v < 0 then (- v) * 2 - 1 else v * 2)"
  shows "(if z AND 1 \<noteq> 0 then - drop_bit 1 z - 1 else drop_bit 1 z) = v"
proof (cases "sint v < 0")
  case True
  then have top: "bit v (LENGTH('a) - 1)" by (simp add: bit_last_iff)
  have "- v * 2 - 1 = push_bit 1 (NOT v) + 1" by (simp add: push_bit_eq_mult not_eq_complement)
  also have "... = push_bit 1 (NOT v) OR 1"
    by (rule disjunctive_add) (simp only: bit_push_bit_iff bit_1_iff, auto)
  finally have z: "z = push_bit 1 (NOT v) OR 1" using True by (simp add: z_def)
  have "bit (z AND 1) 0" by (simp add: z bit_simps)
  then have "z AND 1 \<noteq> 0" by auto
  moreover have "drop_bit 1 z = NOT v"
  proof (rule bit_word_eqI)
    fix n assume "n < LENGTH('a)"
    then show "bit (drop_bit 1 z) n = bit (NOT v) n"
      using top
      by (cases "n = LENGTH('a) - 1")
        (simp_all only: z bit_drop_bit_eq comp_def bit_or_iff bit_push_bit_iff bit_1_iff bit_not_iff, auto)
  qed
  ultimately show ?thesis by (simp add: not_eq_complement)
next
  case False
  then have top: "\<not> bit v (LENGTH('a) - 1)" by (simp add: bit_last_iff)
  have z: "z = push_bit 1 v" using False by (simp add: z_def push_bit_eq_mult)
  have "z AND 1 = 0"
    by (rule bit_word_eqI) (simp only: z bit_and_iff bit_push_bit_iff bit_1_iff bit_0_eq, auto)
  moreover have "drop_bit 1 z = v"
  proof (rule bit_word_eqI)
    fix n assume "n < LENGTH('a)"
    then show "bit (drop_bit 1 z) n = bit v n"
      using top
      by (cases "n = LENGTH('a) - 1")
        (simp_all only: z bit_drop_bit_eq comp_def bit_or_iff bit_push_bit_iff bit_1_iff bit_not_iff, auto)
  qed
  ultimately show ?thesis by simp
qed

lemma unzigzag32_zigzag32 [simp]: "unzigzag32 (zigzag32 v) = v"
  using zigzag_cancel [of v] by (simp only: unzigzag32_def zigzag32_def)

lemma unzigzag64_zigzag64 [simp]: "unzigzag64 (zigzag64 v) = v"
  using zigzag_cancel [of v] by (simp only: unzigzag64_def zigzag64_def)

end
