(* ===== verification/PbMessage.thy ===== *)
theory PbMessage
  imports PbWire
begin

text \<open>
  Messages and their descriptors (src/src/google/protobuf-c/protobuf-c.h) and the three generic
  operations of protobuf-c.c on them: the packed size, packing and unpacking. The C code walks
  a message structure by the offsets of its descriptor; here a message is the list of its
  members in the order of the descriptor's fields. The member of a required field or of an
  optional \<open>char *\<close> or message pointer is a single value, that of another optional field also
  carries its \<open>has_\<close> flag, that of a repeated field is the counted array.

  The library is recursive only through messages nested in messages. The helper functions take
  the recursive operation as their first argument, and the three operations tie the knot.
  No field of the program's descriptors is packed; PbPacked has the functions for arrays that are.
  Default values of strings and sub-messages are left out, for no descriptor has one.
\<close>

section \<open>Descriptors and messages\<close>

datatype label = REQUIRED | OPTIONAL | REPEATED

datatype dval = D32 u32 | D64 u64 | DBool bool

datatype ctype =
    T_INT32 | T_SINT32 | T_SFIXED32 | T_INT64 | T_SINT64 | T_SFIXED64
  | T_UINT32 | T_FIXED32 | T_UINT64 | T_FIXED64 | T_FLOAT | T_DOUBLE
  | T_BOOL | T_ENUM | T_STRING | T_BYTES | T_MESSAGE desc
and field =
    Field (fd_name: string) (fd_id: u32) (fd_label: label) (fd_type: ctype) (fd_quantified: bool)
      (fd_default: "dval option")
and desc = Desc (d_fields: "field list") (d_ranges: "(int \<times> nat) list")

datatype unknown = Unknown u32 byte "byte list"

datatype mval =
    V32 u32 | V64 u64 | VBool bool | VStr "byte list option" | VBytes "byte list" | VMsg "msg option"
and slot = One mval | Opt bool mval | Rep "mval list"
and msg = Msg (m_desc: desc) (m_slots: "slot list") (m_unknown: "unknown list")

text \<open>The types whose C member is a pointer that can be NULL.\<close>

fun pointer_type :: "ctype \<Rightarrow> bool" where
  "pointer_type T_STRING = True"
| "pointer_type (T_MESSAGE d) = True"
| "pointer_type _ = False"

text \<open>The C code reads a member at the type of its field.\<close>

fun v32 :: "mval \<Rightarrow> u32" where
  "v32 (V32 w) = w"
| "v32 _ = 0"

fun v64 :: "mval \<Rightarrow> u64" where
  "v64 (V64 w) = w"
| "v64 _ = 0"

fun vbool :: "mval \<Rightarrow> bool" where
  "vbool (VBool b) = b"
| "vbool _ = False"

fun vstr :: "mval \<Rightarrow> byte list option" where
  "vstr (VStr s) = s"
| "vstr _ = None"

fun vbytes :: "mval \<Rightarrow> byte list" where
  "vbytes (VBytes bs) = bs"
| "vbytes _ = []"

fun vmsg :: "mval \<Rightarrow> msg option" where
  "vmsg (VMsg m) = m"
| "vmsg _ = None"

fun slot_has :: "slot \<Rightarrow> bool" where
  "slot_has (Opt h v) = h"
| "slot_has _ = False"

fun slot_val :: "slot \<Rightarrow> mval" where
  "slot_val (One v) = v"
| "slot_val (Opt h v) = v"
| "slot_val (Rep vs) = V32 0"

fun slot_vals :: "slot \<Rightarrow> mval list" where
  "slot_vals (Rep vs) = vs"
| "slot_vals _ = []"

text \<open>The messages directly inside a value, a member and a message.\<close>

definition vsubs :: "mval \<Rightarrow> msg set" where
  "vsubs v = set_option (vmsg v)"

definition ssubs :: "slot \<Rightarrow> msg set" where
  "ssubs s = vsubs (slot_val s) \<union> (\<Union>v \<in> set (slot_vals s). vsubs v)"

definition submsgs :: "slot list \<Rightarrow> msg set" where
  "submsgs ss = (\<Union>s \<in> set ss. ssubs s)"

lemma vsubs_size: "m \<in> vsubs v \<Longrightarrow> size m < size v"
  by (cases v) (auto simp: vsubs_def)

lemma ssubs_size: "m \<in> ssubs s \<Longrightarrow> size m < size s"
proof (cases s)
  case (Rep vs)
  assume "m \<in> ssubs s"
  then obtain v where "v \<in> set vs" "m \<in> vsubs v" using Rep by (auto simp: ssubs_def vsubs_def)
  then have "size m < size v" "size v \<le> size_list size vs"
    by (auto simp: vsubs_size intro: size_list_estimation')
  then show ?thesis using Rep by simp
qed (auto simp: ssubs_def dest: vsubs_size)

lemma submsgs_size: "m \<in> submsgs ss \<Longrightarrow> size m < size (Msg d ss us)"
proof -
  assume "m \<in> submsgs ss"
  then obtain s where "s \<in> set ss" "m \<in> ssubs s" by (auto simp: submsgs_def)
  then have "size m < size s" "size s \<le> size_list size ss"
    by (auto simp: ssubs_size intro: size_list_estimation')
  then show ?thesis by simp
qed

lemma msg_induct:
  assumes "\<And>d ss us. (\<And>m. m \<in> submsgs ss \<Longrightarrow> P m) \<Longrightarrow> P (Msg d ss us)"
  shows "P m"
proof (induction m rule: measure_induct_rule [where f = size])
  case (less m)
  then show ?case by (cases m) (metis assms submsgs_size)
qed

section \<open>Packed size\<close>

text \<open>The size of one value without its tag, the same in a required and in a repeated field.\<close>

definition value_size :: "(msg \<Rightarrow> nat) \<Rightarrow> ctype \<Rightarrow> mval \<Rightarrow> nat" where
  "value_size msize type member =
     (case type of
        T_SINT32 \<Rightarrow> sint32_size (v32 member)
      | T_INT32 \<Rightarrow> int32_size (v32 member)
      | T_UINT32 \<Rightarrow> uint32_size (v32 member)
      | T_SINT64 \<Rightarrow> sint64_size (v64 member)
      | T_INT64 \<Rightarrow> uint64_size (v64 member)
      | T_UINT64 \<Rightarrow> uint64_size (v64 member)
      | T_SFIXED32 \<Rightarrow> 4
      | T_FIXED32 \<Rightarrow> 4
      | T_SFIXED64 \<Rightarrow> 8
      | T_FIXED64 \<Rightarrow> 8
      | T_BOOL \<Rightarrow> 1
      | T_FLOAT \<Rightarrow> 4
      | T_DOUBLE \<Rightarrow> 8
      | T_ENUM \<Rightarrow> uint32_size (v32 member)
      | T_STRING \<Rightarrow>
          let len = (case vstr member of None \<Rightarrow> 0 | Some str \<Rightarrow> length (cstr str))
          in uint32_size (of_nat len) + len
      | T_BYTES \<Rightarrow>
          let len = length (vbytes member) in uint32_size (of_nat len) + len
      | T_MESSAGE d \<Rightarrow>
          let subrv = (case vmsg member of None \<Rightarrow> 0 | Some msg \<Rightarrow> msize msg)
          in uint32_size (of_nat subrv) + subrv)"

definition required_field_get_packed_size :: "(msg \<Rightarrow> nat) \<Rightarrow> field \<Rightarrow> mval \<Rightarrow> nat" where
  "required_field_get_packed_size msize field member =
     get_tag_size (fd_id field) + value_size msize (fd_type field) member"

definition is_null :: "mval \<Rightarrow> bool" where
  "is_null v \<longleftrightarrow> vstr v = None \<and> vmsg v = None"

definition optional_field_get_packed_size :: "(msg \<Rightarrow> nat) \<Rightarrow> field \<Rightarrow> slot \<Rightarrow> nat" where
  "optional_field_get_packed_size msize field s =
     (if pointer_type (fd_type field) then
        if is_null (slot_val s) then 0 else required_field_get_packed_size msize field (slot_val s)
      else if \<not> slot_has s then 0
      else required_field_get_packed_size msize field (slot_val s))"

definition repeated_field_get_packed_size :: "(msg \<Rightarrow> nat) \<Rightarrow> field \<Rightarrow> mval list \<Rightarrow> nat" where
  "repeated_field_get_packed_size msize field array =
     (let count = length array in
      if count = 0 then 0
      else get_tag_size (fd_id field) * count + sum_list (map (value_size msize (fd_type field)) array))"

fun unknown_field_get_packed_size :: "unknown \<Rightarrow> nat" where
  "unknown_field_get_packed_size (Unknown tag wire_type data) = get_tag_size tag + length data"

text \<open>The body of the loop over the fields, and the loop.\<close>

definition field_size :: "(msg \<Rightarrow> nat) \<Rightarrow> field \<Rightarrow> slot \<Rightarrow> nat" where
  "field_size msize field s =
     (case fd_label field of
        REQUIRED \<Rightarrow> required_field_get_packed_size msize field (slot_val s)
      | OPTIONAL \<Rightarrow> optional_field_get_packed_size msize field s
      | REPEATED \<Rightarrow> repeated_field_get_packed_size msize field (slot_vals s))"

definition fields_size :: "(msg \<Rightarrow> nat) \<Rightarrow> field list \<Rightarrow> slot list \<Rightarrow> nat" where
  "fields_size msize fields ss = sum_list (map (\<lambda>(f, s). field_size msize f s) (zip fields ss))"

lemma value_size_cong:
  assumes "\<And>m. m \<in> vsubs v \<Longrightarrow> f m = g m"
  shows "value_size f t v = value_size g t v"
  using assms by (cases t; cases "vmsg v") (simp_all add: value_size_def vsubs_def)

lemma field_size_cong:
  assumes "\<And>m. m \<in> ssubs s \<Longrightarrow> f m = g m"
  shows "field_size f t s = field_size g t s"
proof -
  have "value_size f (fd_type t) (slot_val s) = value_size g (fd_type t) (slot_val s)"
    using assms by (intro value_size_cong) (simp add: ssubs_def)
  moreover have "map (value_size f (fd_type t)) (slot_vals s) = map (value_size g (fd_type t)) (slot_vals s)"
    using assms by (auto intro!: value_size_cong simp: ssubs_def)
  ultimately show ?thesis
    by (simp add: field_size_def required_field_get_packed_size_def optional_field_get_packed_size_def
        repeated_field_get_packed_size_def
        del: map_eq_conv split: label.split)
qed

lemma fields_size_cong [fundef_cong]:
  assumes "fs = fs'" and "ss = ss'" and "\<And>m. m \<in> submsgs ss' \<Longrightarrow> f m = g m"
  shows "fields_size f fs ss = fields_size g fs' ss'"
proof -
  have "field_size f a s = field_size g a s" if "(a, s) \<in> set (zip fs' ss')" for a s
    using that assms(3) by (intro field_size_cong) (auto simp: submsgs_def dest: set_zip_rightD)
  then have "map (\<lambda>(a, s). field_size f a s) (zip fs' ss') = map (\<lambda>(a, s). field_size g a s) (zip fs' ss')"
    by auto
  then show ?thesis using assms(1,2) by (simp add: fields_size_def del: map_eq_conv)
qed

function protobuf_c_message_get_packed_size :: "msg \<Rightarrow> nat" where
  "protobuf_c_message_get_packed_size (Msg d ss us) =
     fields_size protobuf_c_message_get_packed_size (d_fields d) ss +
     sum_list (map unknown_field_get_packed_size us)"
  by pat_completeness auto
termination
  by (relation "measure size") (auto dest: submsgs_size)

section \<open>Packing\<close>

definition WIRE_TYPE_VARINT :: byte where "WIRE_TYPE_VARINT = 0"
definition WIRE_TYPE_64BIT :: byte where "WIRE_TYPE_64BIT = 1"
definition WIRE_TYPE_LENGTH_PREFIXED :: byte where "WIRE_TYPE_LENGTH_PREFIXED = 2"
definition WIRE_TYPE_32BIT :: byte where "WIRE_TYPE_32BIT = 5"

text \<open>
  \<open>prefixed_message_pack\<close> packs the message one byte after the start, moves it when its length
  needs a longer prefix, and then writes the prefix.
\<close>

definition prefixed_message_pack :: "(msg \<Rightarrow> byte list) \<Rightarrow> msg option \<Rightarrow> byte list" where
  "prefixed_message_pack mpack message =
     (case message of
        None \<Rightarrow> [0]
      | Some m \<Rightarrow>
          let packed = mpack m;
              rv = length packed;
              rv_packed_size = uint32_size (of_nat rv);
              out = (if rv_packed_size \<noteq> 1 then replicate rv_packed_size 0 @ packed else 0 # packed)
          in overwrite out 0 (uint32_pack (of_nat rv)))"

text \<open>The two halves of the switch in \<open>required_field_pack\<close>: the wire type and the value.\<close>

fun wire_type_of :: "ctype \<Rightarrow> byte" where
  "wire_type_of T_SFIXED32 = WIRE_TYPE_32BIT"
| "wire_type_of T_FIXED32 = WIRE_TYPE_32BIT"
| "wire_type_of T_FLOAT = WIRE_TYPE_32BIT"
| "wire_type_of T_SFIXED64 = WIRE_TYPE_64BIT"
| "wire_type_of T_FIXED64 = WIRE_TYPE_64BIT"
| "wire_type_of T_DOUBLE = WIRE_TYPE_64BIT"
| "wire_type_of T_STRING = WIRE_TYPE_LENGTH_PREFIXED"
| "wire_type_of T_BYTES = WIRE_TYPE_LENGTH_PREFIXED"
| "wire_type_of (T_MESSAGE d) = WIRE_TYPE_LENGTH_PREFIXED"
| "wire_type_of _ = WIRE_TYPE_VARINT"

definition value_pack :: "(msg \<Rightarrow> byte list) \<Rightarrow> ctype \<Rightarrow> mval \<Rightarrow> byte list" where
  "value_pack mpack type member =
     (case type of
        T_SINT32 \<Rightarrow> sint32_pack (v32 member)
      | T_INT32 \<Rightarrow> int32_pack (v32 member)
      | T_UINT32 \<Rightarrow> uint32_pack (v32 member)
      | T_ENUM \<Rightarrow> uint32_pack (v32 member)
      | T_SINT64 \<Rightarrow> sint64_pack (v64 member)
      | T_INT64 \<Rightarrow> uint64_pack (v64 member)
      | T_UINT64 \<Rightarrow> uint64_pack (v64 member)
      | T_SFIXED32 \<Rightarrow> fixed32_pack (v32 member)
      | T_FIXED32 \<Rightarrow> fixed32_pack (v32 member)
      | T_FLOAT \<Rightarrow> fixed32_pack (v32 member)
      | T_SFIXED64 \<Rightarrow> fixed64_pack (v64 member)
      | T_FIXED64 \<Rightarrow> fixed64_pack (v64 member)
      | T_DOUBLE \<Rightarrow> fixed64_pack (v64 member)
      | T_BOOL \<Rightarrow> boolean_pack (vbool member)
      | T_STRING \<Rightarrow> string_pack (vstr member)
      | T_BYTES \<Rightarrow> binary_data_pack (vbytes member)
      | T_MESSAGE d \<Rightarrow> prefixed_message_pack mpack (vmsg member))"

definition required_field_pack :: "(msg \<Rightarrow> byte list) \<Rightarrow> field \<Rightarrow> mval \<Rightarrow> byte list" where
  "required_field_pack mpack field member =
     tagged (wire_type_of (fd_type field)) (tag_pack (fd_id field)) @ value_pack mpack (fd_type field) member"

definition optional_field_pack :: "(msg \<Rightarrow> byte list) \<Rightarrow> field \<Rightarrow> slot \<Rightarrow> byte list" where
  "optional_field_pack mpack field s =
     (if pointer_type (fd_type field) then
        if is_null (slot_val s) then [] else required_field_pack mpack field (slot_val s)
      else if \<not> slot_has s then []
      else required_field_pack mpack field (slot_val s))"

definition repeated_field_pack :: "(msg \<Rightarrow> byte list) \<Rightarrow> field \<Rightarrow> mval list \<Rightarrow> byte list" where
  "repeated_field_pack mpack field array = concat (map (required_field_pack mpack field) array)"

fun unknown_field_pack :: "unknown \<Rightarrow> byte list" where
  "unknown_field_pack (Unknown tag wire_type data) = tagged wire_type (tag_pack tag) @ data"

definition field_pack :: "(msg \<Rightarrow> byte list) \<Rightarrow> field \<Rightarrow> slot \<Rightarrow> byte list" where
  "field_pack mpack field s =
     (case fd_label field of
        REQUIRED \<Rightarrow> required_field_pack mpack field (slot_val s)
      | OPTIONAL \<Rightarrow> optional_field_pack mpack field s
      | REPEATED \<Rightarrow> repeated_field_pack mpack field (slot_vals s))"

definition fields_pack :: "(msg \<Rightarrow> byte list) \<Rightarrow> field list \<Rightarrow> slot list \<Rightarrow> byte list" where
  "fields_pack mpack fields ss = concat (map (\<lambda>(f, s). field_pack mpack f s) (zip fields ss))"

lemma value_pack_cong:
  assumes "\<And>m. m \<in> vsubs v \<Longrightarrow> f m = g m"
  shows "value_pack f t v = value_pack g t v"
  using assms by (cases t; cases "vmsg v") (simp_all add: value_pack_def prefixed_message_pack_def vsubs_def)

lemma required_field_pack_cong:
  assumes "\<And>m. m \<in> vsubs v \<Longrightarrow> f m = g m"
  shows "required_field_pack f t v = required_field_pack g t v"
  using value_pack_cong [OF assms] by (simp add: required_field_pack_def)

lemma field_pack_cong:
  assumes "\<And>m. m \<in> ssubs s \<Longrightarrow> f m = g m"
  shows "field_pack f t s = field_pack g t s"
proof -
  have "required_field_pack f t (slot_val s) = required_field_pack g t (slot_val s)"
    using assms by (intro required_field_pack_cong) (simp add: ssubs_def)
  moreover have "map (required_field_pack f t) (slot_vals s) = map (required_field_pack g t) (slot_vals s)"
    using assms by (auto intro!: required_field_pack_cong simp: ssubs_def)
  ultimately show ?thesis
    by (simp add: field_pack_def optional_field_pack_def repeated_field_pack_def
        del: map_eq_conv split: label.split)
qed

lemma fields_pack_cong [fundef_cong]:
  assumes "fs = fs'" and "ss = ss'" and "\<And>m. m \<in> submsgs ss' \<Longrightarrow> f m = g m"
  shows "fields_pack f fs ss = fields_pack g fs' ss'"
proof -
  have "field_pack f a s = field_pack g a s" if "(a, s) \<in> set (zip fs' ss')" for a s
    using that assms(3) by (intro field_pack_cong) (auto simp: submsgs_def dest: set_zip_rightD)
  then have "map (\<lambda>(a, s). field_pack f a s) (zip fs' ss') = map (\<lambda>(a, s). field_pack g a s) (zip fs' ss')"
    by auto
  then show ?thesis using assms(1,2) by (simp add: fields_pack_def del: map_eq_conv)
qed

function protobuf_c_message_pack :: "msg \<Rightarrow> byte list" where
  "protobuf_c_message_pack (Msg d ss us) =
     fields_pack protobuf_c_message_pack (d_fields d) ss @ concat (map unknown_field_pack us)"
  by pat_completeness auto
termination
  by (relation "measure size") (auto dest: submsgs_size)

section \<open>Unpacking\<close>

text \<open>
  The lookup of a field by its number: a binary search over the ranges of consecutive numbers.
  \<open>ranges\<close> ends with a sentinel, whose index closes the last range.
\<close>

function range_loop :: "(int \<times> nat) list \<Rightarrow> int \<Rightarrow> nat \<Rightarrow> nat \<Rightarrow> int" where
  "range_loop ranges v start n =
     (if n > 1 then
        let mid = start + n div 2 in
        if v < fst (ranges ! mid) then range_loop ranges v start (mid - start)
        else if v \<ge> fst (ranges ! mid) + (int (snd (ranges ! (mid + 1))) - int (snd (ranges ! mid))) then
          let new_start = mid + 1 in range_loop ranges v new_start (start + n - new_start)
        else v - fst (ranges ! mid) + int (snd (ranges ! mid))
      else if n > 0 then
        let start_orig_index = int (snd (ranges ! start));
            range_size = int (snd (ranges ! (start + 1))) - start_orig_index
        in if fst (ranges ! start) \<le> v \<and> v < fst (ranges ! start) + range_size
           then v - fst (ranges ! start) + start_orig_index
           else -1
      else -1)"
  by auto
termination
  by (relation "measure (\<lambda>(ranges, v, start, n). n)") auto

declare range_loop.simps [simp del]

definition int_range_lookup :: "(int \<times> nat) list \<Rightarrow> int \<Rightarrow> int" where
  "int_range_lookup ranges v =
     (let n_ranges = length ranges - 1 in if n_ranges = 0 then -1 else range_loop ranges v 0 n_ranges)"

text \<open>
  A scanned member: \<open>field\<close> is the index of the field in the descriptor (\<open>None\<close> for an unknown
  one) and \<open>data\<close> the position of the member, the bytes from there to the end of the buffer.
\<close>

record scanned =
  sm_tag :: u32
  sm_wire_type :: byte
  sm_length_prefix_len :: nat
  sm_field :: "nat option"
  sm_len :: nat
  sm_data :: "byte list"

text \<open>The switch on the wire type: the length of the member and of its length prefix.\<close>

definition member_len :: "byte \<Rightarrow> byte list \<Rightarrow> (nat \<times> nat) option" where
  "member_len wire_type data =
     (if wire_type = WIRE_TYPE_VARINT then map_option (\<lambda>len. (len, 0)) (scan_varint data)
      else if wire_type = WIRE_TYPE_64BIT then if length data < 8 then None else Some (8, 0)
      else if wire_type = WIRE_TYPE_LENGTH_PREFIXED then scan_length_prefixed_data data
      else if wire_type = WIRE_TYPE_32BIT then if length data < 4 then None else Some (4, 0)
      else None)"

text \<open>
  The scanning loop of \<open>protobuf_c_message_unpack\<close>; \<open>last_field\<close> is the index it looks at
  first. \<open>None\<close> is the jump to \<open>error_cleanup_during_scan\<close>.
\<close>

definition lookup_field :: "desc \<Rightarrow> nat \<Rightarrow> u32 \<Rightarrow> nat option" where
  "lookup_field desc last_field tag =
     (if fd_id (d_fields desc ! last_field) \<noteq> tag then
        let field_index = int_range_lookup (d_ranges desc) (sint tag)
        in if field_index < 0 then None else Some (nat field_index)
      else Some last_field)"

function scan_members :: "desc \<Rightarrow> nat \<Rightarrow> byte list \<Rightarrow> scanned list option" where
  "scan_members desc last_field data =
     (if data = [] then Some []
      else case parse_tag_and_wiretype data of
        None \<Rightarrow> None
      | Some (used, tag, wire_type) \<Rightarrow>
          let field = lookup_field desc last_field tag;
              data' = tl (drop (used - 1) data)
          in case member_len wire_type data' of
               None \<Rightarrow> None
             | Some (len, pref_len) \<Rightarrow>
                 map_option (Cons \<lparr>sm_tag = tag, sm_wire_type = wire_type, sm_length_prefix_len = pref_len,
                     sm_field = field, sm_len = len, sm_data = data'\<rparr>)
                   (scan_members desc (case field of None \<Rightarrow> last_field | Some i \<Rightarrow> i) (drop len data')))"
  by auto
termination
  by (relation "measure (\<lambda>(desc, last_field, data). length data)") auto

declare scan_members.simps [simp del]

text \<open>The check after the scan: a required field without a default that has not been seen.\<close>

definition missing_required :: "desc \<Rightarrow> scanned list \<Rightarrow> bool" where
  "missing_required desc sms \<longleftrightarrow>
     (\<exists>f \<in> set [0..<length (d_fields desc)].
        fd_label (d_fields desc ! f) = REQUIRED \<and> fd_default (d_fields desc ! f) = None \<and>
        Some f \<notin> set (map sm_field sms))"

text \<open>The bytes behind a length prefix; their number is an \<open>unsigned\<close> difference.\<close>

definition member_bytes :: "scanned \<Rightarrow> byte list parsed" where
  "member_bytes sm =
     (let n = unat (of_nat (sm_len sm) - of_nat (sm_length_prefix_len sm) :: u32);
          from = drop (sm_length_prefix_len sm) (sm_data sm)
      in if n > length from then Overrun else Parsed (take n from))"

definition needs :: "byte \<Rightarrow> scanned \<Rightarrow> 'a parsed \<Rightarrow> 'a parsed" where
  "needs wire_type sm p = (if sm_wire_type sm \<noteq> wire_type then Rejected else p)"

definition parse_required_member ::
    "(desc \<Rightarrow> byte list \<Rightarrow> msg parsed) \<Rightarrow> field \<Rightarrow> scanned \<Rightarrow> mval parsed" where
  "parse_required_member munpack field sm =
     (let len = sm_len sm; data = sm_data sm in
      case fd_type field of
        T_INT32 \<Rightarrow> needs WIRE_TYPE_VARINT sm (Parsed (V32 (parse_int32 len data)))
      | T_UINT32 \<Rightarrow> needs WIRE_TYPE_VARINT sm (Parsed (V32 (parse_uint32 len data)))
      | T_SINT32 \<Rightarrow> needs WIRE_TYPE_VARINT sm (Parsed (V32 (unzigzag32 (parse_uint32 len data))))
      | T_SFIXED32 \<Rightarrow> needs WIRE_TYPE_32BIT sm (Parsed (V32 (parse_fixed_uint32 data)))
      | T_FIXED32 \<Rightarrow> needs WIRE_TYPE_32BIT sm (Parsed (V32 (parse_fixed_uint32 data)))
      | T_FLOAT \<Rightarrow> needs WIRE_TYPE_32BIT sm (Parsed (V32 (parse_fixed_uint32 data)))
      | T_INT64 \<Rightarrow> needs WIRE_TYPE_VARINT sm (Parsed (V64 (parse_uint64 len data)))
      | T_UINT64 \<Rightarrow> needs WIRE_TYPE_VARINT sm (Parsed (V64 (parse_uint64 len data)))
      | T_SINT64 \<Rightarrow> needs WIRE_TYPE_VARINT sm (Parsed (V64 (unzigzag64 (parse_uint64 len data))))
      | T_SFIXED64 \<Rightarrow> needs WIRE_TYPE_64BIT sm (Parsed (V64 (parse_fixed_uint64 data)))
      | T_FIXED64 \<Rightarrow> needs WIRE_TYPE_64BIT sm (Parsed (V64 (parse_fixed_uint64 data)))
      | T_DOUBLE \<Rightarrow> needs WIRE_TYPE_64BIT sm (Parsed (V64 (parse_fixed_uint64 data)))
      | T_BOOL \<Rightarrow> Parsed (VBool (parse_boolean len data))
      | T_ENUM \<Rightarrow> needs WIRE_TYPE_VARINT sm (Parsed (V32 (parse_uint32 len data)))
      | T_STRING \<Rightarrow> needs WIRE_TYPE_LENGTH_PREFIXED sm
          (and_then (member_bytes sm) (\<lambda>bs. Parsed (VStr (Some bs))))
      | T_BYTES \<Rightarrow> needs WIRE_TYPE_LENGTH_PREFIXED sm
          (and_then (member_bytes sm) (\<lambda>bs. Parsed (VBytes bs)))
      | T_MESSAGE d \<Rightarrow> needs WIRE_TYPE_LENGTH_PREFIXED sm
          (and_then (member_bytes sm) (\<lambda>bs. and_then (munpack d bs) (\<lambda>m. Parsed (VMsg (Some m))))))"

text \<open>
  \<open>parse_member\<close> with \<open>parse_optional_member\<close> and \<open>parse_repeated_member\<close>: the state is the
  members of the message and its unknown fields.
\<close>

definition parse_optional_member ::
    "(desc \<Rightarrow> byte list \<Rightarrow> msg parsed) \<Rightarrow> field \<Rightarrow> scanned \<Rightarrow> slot parsed" where
  "parse_optional_member munpack field sm =
     and_then (parse_required_member munpack field sm)
       (\<lambda>v. Parsed (if fd_quantified field then Opt True v else One v))"

definition parse_repeated_member ::
    "(desc \<Rightarrow> byte list \<Rightarrow> msg parsed) \<Rightarrow> field \<Rightarrow> scanned \<Rightarrow> slot \<Rightarrow> slot parsed" where
  "parse_repeated_member munpack field sm s =
     and_then (parse_required_member munpack field sm) (\<lambda>v. Parsed (Rep (slot_vals s @ [v])))"

definition parse_member ::
    "(desc \<Rightarrow> byte list \<Rightarrow> msg parsed) \<Rightarrow> desc \<Rightarrow> scanned \<Rightarrow> slot list \<times> unknown list
      \<Rightarrow> (slot list \<times> unknown list) parsed" where
  "parse_member munpack desc sm state =
     (case state of (ss, us) \<Rightarrow>
      case sm_field sm of
        None \<Rightarrow> Parsed (ss, us @ [Unknown (sm_tag sm) (sm_wire_type sm) (take (sm_len sm) (sm_data sm))])
      | Some i \<Rightarrow>
          if i < length (d_fields desc) then
            let field = d_fields desc ! i in
            and_then
              (case fd_label field of
                 REQUIRED \<Rightarrow> and_then (parse_required_member munpack field sm) (\<lambda>v. Parsed (One v))
               | OPTIONAL \<Rightarrow> parse_optional_member munpack field sm
               | REPEATED \<Rightarrow> parse_repeated_member munpack field sm (ss ! i))
              (\<lambda>s. Parsed (ss[i := s], us))
          else Rejected)"

fun parse_members ::
    "(desc \<Rightarrow> byte list \<Rightarrow> msg parsed) \<Rightarrow> desc \<Rightarrow> scanned list \<Rightarrow> slot list \<times> unknown list
      \<Rightarrow> (slot list \<times> unknown list) parsed" where
  "parse_members munpack desc [] state = Parsed state"
| "parse_members munpack desc (sm # sms) state =
     and_then (parse_member munpack desc sm state) (parse_members munpack desc sms)"

text \<open>The initial message: zero, or the default value of the field.\<close>

fun dval_val :: "dval \<Rightarrow> mval" where
  "dval_val (D32 w) = V32 w"
| "dval_val (D64 w) = V64 w"
| "dval_val (DBool b) = VBool b"

fun zero_val :: "ctype \<Rightarrow> mval" where
  "zero_val T_INT64 = V64 0"
| "zero_val T_SINT64 = V64 0"
| "zero_val T_SFIXED64 = V64 0"
| "zero_val T_UINT64 = V64 0"
| "zero_val T_FIXED64 = V64 0"
| "zero_val T_DOUBLE = V64 0"
| "zero_val T_BOOL = VBool False"
| "zero_val T_STRING = VStr None"
| "zero_val T_BYTES = VBytes []"
| "zero_val (T_MESSAGE d) = VMsg None"
| "zero_val _ = V32 0"

definition init_val :: "field \<Rightarrow> mval" where
  "init_val field = (case fd_default field of None \<Rightarrow> zero_val (fd_type field) | Some dv \<Rightarrow> dval_val dv)"

definition init_slot :: "field \<Rightarrow> slot" where
  "init_slot field =
     (case fd_label field of
        REQUIRED \<Rightarrow> One (init_val field)
      | OPTIONAL \<Rightarrow> if fd_quantified field then Opt False (init_val field) else One (init_val field)
      | REPEATED \<Rightarrow> Rep [])"

definition protobuf_c_message_init_generic :: "desc \<Rightarrow> msg" where
  "protobuf_c_message_init_generic desc = Msg desc (map init_slot (d_fields desc)) []"

definition subdescs :: "desc \<Rightarrow> desc set" where
  "subdescs d = {e. \<exists>f \<in> set (d_fields d). fd_type f = T_MESSAGE e}"

lemma subdescs_size: "e \<in> subdescs d \<Longrightarrow> size e < size d"
proof -
  assume "e \<in> subdescs d"
  then obtain f where f: "f \<in> set (d_fields d)" "fd_type f = T_MESSAGE e" by (auto simp: subdescs_def)
  have "size e < size f" using f(2) by (cases f) simp
  moreover have "size f \<le> size_list size (d_fields d)" using f(1) by (auto intro: size_list_estimation')
  ultimately show ?thesis by (cases d) simp
qed

lemma parse_required_member_cong:
  assumes "\<And>e bs. fd_type f = T_MESSAGE e \<Longrightarrow> u e bs = u' e bs"
  shows "parse_required_member u f sm = parse_required_member u' f sm"
  using assms by (auto simp: parse_required_member_def Let_def split: ctype.split)

lemma parse_member_cong:
  assumes "\<And>e bs. e \<in> subdescs d \<Longrightarrow> u e bs = u' e bs"
  shows "parse_member u d sm state = parse_member u' d sm state"
proof -
  have "parse_required_member u (d_fields d ! i) sm = parse_required_member u' (d_fields d ! i) sm"
    if "i < length (d_fields d)" for i
  proof (rule parse_required_member_cong)
    fix e bs
    assume "fd_type (d_fields d ! i) = T_MESSAGE e"
    then have "e \<in> subdescs d" using that by (auto simp: subdescs_def intro: nth_mem)
    then show "u e bs = u' e bs" by (rule assms)
  qed
  then show ?thesis
    by (cases state; cases "sm_field sm")
      (simp_all add: parse_member_def parse_optional_member_def parse_repeated_member_def Let_def
        split: label.split)
qed

lemma parse_members_cong [fundef_cong]:
  assumes "d = d'" and "sms = sms'" and "state = state'"
    and "\<And>e bs. e \<in> subdescs d' \<Longrightarrow> u e bs = u' e bs"
  shows "parse_members u d sms state = parse_members u' d' sms' state'"
proof -
  have "parse_members u d' ts st = parse_members u' d' ts st" for ts st
    by (induction ts arbitrary: st) (use parse_member_cong [OF assms(4)] in \<open>auto intro!: and_then_cong\<close>)
  then show ?thesis using assms(1-3) by simp
qed

function protobuf_c_message_unpack :: "desc \<Rightarrow> byte list \<Rightarrow> msg parsed" where
  "protobuf_c_message_unpack desc data =
     (case scan_members desc 0 data of
        None \<Rightarrow> Rejected
      | Some sms \<Rightarrow>
          if missing_required desc sms then Rejected
          else
            let rv = protobuf_c_message_init_generic desc in
            and_then (parse_members protobuf_c_message_unpack desc sms (m_slots rv, m_unknown rv))
              (\<lambda>(ss, us). Parsed (Msg (m_desc rv) ss us)))"
  by auto
termination
  by (relation "measure (\<lambda>(desc, data). size desc)") (auto dest: subdescs_size)

declare protobuf_c_message_unpack.simps [simp del]

end
