(* ===== verification/PbRound.thy ===== *)
theory PbRound
  imports PbMessage
begin

text \<open>
  Correctness of the generic protobuf operations of \<open>PbMessage\<close>: the packed size is the
  number of bytes packed, the binary search over number ranges is a linear search over the
  field numbers, and unpacking a packed message gives the message back.
\<close>

section \<open>The packed size is the length of the packed message\<close>

lemma uint64_size_pack: "length (uint64_pack v) = uint64_size v"
proof -
  define hi :: u32 where "hi = ucast (drop_bit 32 v)"
  show ?thesis
  proof (cases "hi = 0")
    case True
    then show ?thesis by (simp add: uint64_pack_def uint64_size_def hi_def uint32_size_pack)
  next
    case False
    have len: "length (varint n) = (if n < 2 ^ 7 then 1 else if n < 2 ^ 14 then 2 else if n < 2 ^ 21 then 3
        else if n < 2 ^ 28 then 4 else 5)" if "n < 2 ^ 35" for n
      using that by (subst length_varint, subst length_varint, subst length_varint, subst length_varint, subst length_varint)
      (simp add: div_less_iff_less_mult div_mult2_eq [symmetric])
    have "unat hi < 2 ^ 32" using unsigned_less [of hi] by simp
    then have d: "unat (drop_bit 3 hi) = unat hi div 8" "unat (drop_bit 3 hi) < 2 ^ 35"
      by (simp_all add: unat_drop_bit_eq) (simp_all add: drop_bit_eq_div)
    have "length (hi_pack (drop_bit 3 hi)) = (if unat hi < 2 ^ 10 then 1 else if unat hi < 2 ^ 17 then 2
        else if unat hi < 2 ^ 24 then 3 else if unat hi < 2 ^ 31 then 4 else 5)"
      unfolding hi_pack_varint by (subst len [OF d(2)]) (simp add: d(1) div_less_iff_less_mult)
    then show ?thesis using False
      unfolding uint64_pack_def uint64_size_def hi_def [symmetric] Let_def
      by (simp add: word_less_nat_alt)
  qed
qed

lemma length_prefixed:
  "length (prefixed_message_pack mpack (Some m)) =
     uint32_size (of_nat (length (mpack m))) + length (mpack m)"
  by (simp add: prefixed_message_pack_def Let_def uint32_size_pack)

lemma prefixed_None: "prefixed_message_pack mpack None = [0]" "uint32_size 0 = 1"
  by (simp_all add: prefixed_message_pack_def uint32_size_def)

lemma prefixed_message_pack_Some:
  "prefixed_message_pack mpack (Some m) = uint32_pack (of_nat (length (mpack m))) @ mpack m"
proof -
  have "overwrite (xs @ ys) 0 zs = zs @ ys" if "length xs = length zs" for xs ys zs :: "byte list"
    using that by (simp add: overwrite_def)
  then show ?thesis
    using uint32_size_pack [of "of_nat (length (mpack m))"]
    by (auto simp: prefixed_message_pack_def Let_def overwrite_def)
qed

lemma value_size_pack:
  assumes "\<And>m. m \<in> vsubs v \<Longrightarrow> msize m = length (mpack m)"
  shows "length (value_pack mpack t v) = value_size msize t v"
proof -
  have m: "msize m = length (mpack m)" if "vmsg v = Some m" for m using assms that by (simp add: vsubs_def)
  show ?thesis
    by (cases t; cases "vstr v"; cases "vmsg v")
      (simp_all add: value_pack_def value_size_def Let_def uint32_size_pack int32_size_pack uint64_size_pack
        sint32_pack_def sint32_size_def sint64_pack_def sint64_size_def boolean_pack_def string_pack_def
        binary_data_pack_def m length_prefixed prefixed_None)
qed

lemma required_size_pack:
  assumes "\<And>m. m \<in> vsubs v \<Longrightarrow> msize m = length (mpack m)"
  shows "length (required_field_pack mpack f v) = required_field_get_packed_size msize f v"
  using value_size_pack [OF assms]
  by (simp add: required_field_pack_def required_field_get_packed_size_def tagged_def get_tag_size_pack [symmetric])
    (simp add: tag_pack_varint)

lemma field_size_pack:
  assumes "\<And>m. m \<in> ssubs s \<Longrightarrow> msize m = length (mpack m)"
  shows "length (field_pack mpack f s) = field_size msize f s"
proof -
  have r: "length (required_field_pack mpack f (slot_val s)) = required_field_get_packed_size msize f (slot_val s)"
    using assms by (intro required_size_pack) (simp add: ssubs_def)
  have "length (concat (map (required_field_pack mpack f) vs)) =
      sum_list (map (required_field_get_packed_size msize f) vs)" if "set vs \<subseteq> set (slot_vals s)" for vs
    using that
  proof (induction vs)
    case (Cons v vs)
    have "length (required_field_pack mpack f v) = required_field_get_packed_size msize f v"
      using Cons.prems assms by (intro required_size_pack) (auto simp: ssubs_def)
    with Cons show ?case by simp
  qed simp
  moreover have "sum_list (map (required_field_get_packed_size msize f) vs) =
      get_tag_size (fd_id f) * length vs + sum_list (map (value_size msize (fd_type f)) vs)" for vs
    by (induction vs) (simp_all add: required_field_get_packed_size_def)
  ultimately show ?thesis using r
    by (auto simp: field_pack_def field_size_def optional_field_pack_def optional_field_get_packed_size_def
        repeated_field_pack_def repeated_field_get_packed_size_def Let_def split: label.split)
qed

lemma unknown_size_pack: "length (unknown_field_pack u) = unknown_field_get_packed_size u"
  by (cases u) (simp add: tagged_def get_tag_size_pack [symmetric], simp add: tag_pack_varint)

lemma fields_size_pack:
  assumes "\<And>m. m \<in> submsgs ss \<Longrightarrow> msize m = length (mpack m)"
  shows "length (fields_pack mpack fs ss) = fields_size msize fs ss"
proof -
  have "length (concat (map (\<lambda>(f, s). field_pack mpack f s) fss)) = sum_list (map (\<lambda>(f, s). field_size msize f s) fss)"
    if "set (map snd fss) \<subseteq> set ss" for fss
    using that
  proof (induction fss)
    case (Cons fs fss)
    obtain f s where fs: "fs = (f, s)" by (cases fs)
    have "length (field_pack mpack f s) = field_size msize f s"
      using Cons.prems assms fs by (intro field_size_pack) (auto simp: submsgs_def)
    with Cons fs show ?case by simp
  qed simp
  moreover have "set (map snd (zip fs ss)) \<subseteq> set ss" by (auto dest: set_zip_rightD)
  ultimately show ?thesis by (simp add: fields_pack_def fields_size_def)
qed

lemma packed_length:
  "length (protobuf_c_message_pack m) = protobuf_c_message_get_packed_size m"
proof (induction m rule: msg_induct)
  case (1 d ss us)
  have "length (concat (map unknown_field_pack us)) = sum_list (map unknown_field_get_packed_size us)"
    by (induction us) (simp_all add: unknown_size_pack)
  then show ?case using fields_size_pack [of ss _ _ "d_fields d", OF 1 [symmetric]] by simp
qed

section \<open>The binary search\<close>

text \<open>
  The field numbers the ranges stand for, in the order of the fields, and what makes the
  ranges well formed: the indices grow and the intervals follow one another.
\<close>

fun numbers :: "(int \<times> nat) list \<Rightarrow> int list" where
  "numbers ((s, i) # (s', i') # rs) = map (\<lambda>k. s + int k) [0..<i' - i] @ numbers ((s', i') # rs)"
| "numbers _ = []"

fun ranges_ok :: "(int \<times> nat) list \<Rightarrow> bool" where
  "ranges_ok ((s, i) # (s', i') # rs) \<longleftrightarrow>
     i \<le> i' \<and> (rs \<noteq> [] \<longrightarrow> s + (int i' - int i) \<le> s') \<and> ranges_ok ((s', i') # rs)"
| "ranges_ok _ \<longleftrightarrow> True"

fun linear_lookup :: "int list \<Rightarrow> int \<Rightarrow> int \<Rightarrow> int" where
  "linear_lookup [] v k = -1"
| "linear_lookup (n # ns) v k = (if n = v then k else linear_lookup ns v (k + 1))"

definition hits :: "(int \<times> nat) list \<Rightarrow> int \<Rightarrow> nat \<Rightarrow> bool" where
  "hits rs v i \<longleftrightarrow> Suc i < length rs \<and> fst (rs ! i) \<le> v \<and>
     v < fst (rs ! i) + (int (snd (rs ! Suc i)) - int (snd (rs ! i)))"

lemma linear_lookup_append:
  "linear_lookup (xs @ ys) v k =
     (if v \<in> set xs then linear_lookup xs v k else linear_lookup ys v (k + int (length xs)))"
  by (induction xs arbitrary: k) (auto simp: ac_simps)

lemma linear_lookup_notin: "v \<notin> set ns \<Longrightarrow> linear_lookup ns v k = -1"
  by (induction ns arbitrary: k) auto

lemma linear_lookup_upt:
  "i \<le> j \<Longrightarrow> j < m \<Longrightarrow> linear_lookup (map (\<lambda>k. s + int k) [i..<m]) (s + int j) k = k + int (j - i)"
proof (induction "m - i" arbitrary: i k)
  case (Suc d)
  then have "[i..<m] = i # [Suc i..<m]" by (simp add: upt_conv_Cons)
  with Suc show ?case by (cases "i = j") auto
qed simp

lemma ranges_ok_later:
  assumes "ranges_ok ((s, i) # (s', i') # rs)" and "Suc j < length ((s', i') # rs)"
  shows "s + (int i' - int i) \<le> fst (((s', i') # rs) ! j)"
  using assms
proof (induction rs arbitrary: s i s' i' j)
  case (Cons r rs)
  obtain s2 i2 where r: "r = (s2, i2)" by (cases r)
  show ?case
  proof (cases j)
    case (Suc k)
    then have "s' + (int i2 - int i') \<le> fst ((r # rs) ! k)"
      using Cons.IH [of s' i' s2 i2 k] Cons.prems r by simp
    moreover have "s + (int i' - int i) \<le> s'" "i' \<le> i2" using Cons.prems(1) r by simp_all
    ultimately show ?thesis using Suc by simp
  qed (use Cons.prems r in simp)
qed simp

lemma linear_lookup_hit:
  assumes "ranges_ok rs" and "hits rs v i"
  shows "linear_lookup (numbers rs) v k = k + int (snd (rs ! i)) - int (snd (hd rs)) + (v - fst (rs ! i))"
  using assms
proof (induction rs arbitrary: i k rule: numbers.induct)
  case (1 s o1 s' o2 rs)
  show ?case
  proof (cases i)
    case 0
    with 1 have v: "s \<le> v" "v < s + (int o2 - int o1)" "o1 \<le> o2" by (auto simp: hits_def)
    define d where "d = nat (v - s)"
    have d: "v = s + int d" "d < o2 - o1" using v by (auto simp: d_def)
    then have "v \<in> set (map (\<lambda>k. s + int k) [0..<o2 - o1])" by auto
    moreover have "linear_lookup (map (\<lambda>k. s + int k) [0..<o2 - o1]) v k = k + int d"
      using linear_lookup_upt [of 0 d "o2 - o1" s k] d by simp
    ultimately show ?thesis using 0 d(1) by (simp only: numbers.simps linear_lookup_append if_True) simp
  next
    case (Suc j)
    have h: "hits ((s', o2) # rs) v j" using 1 Suc by (simp add: hits_def)
    have ok: "o1 \<le> o2" "ranges_ok ((s', o2) # rs)" using 1(2) by simp_all
    have "s + (int o2 - int o1) \<le> v"
      using ranges_ok_later [OF 1(2), of j] h by (auto simp: hits_def)
    then have "v \<notin> set (map (\<lambda>k. s + int k) [0..<o2 - o1])" using ok(1) by auto
    then show ?thesis using 1(1) [OF ok(2) h, of "k + int (o2 - o1)"] Suc ok(1)
      by (simp only: numbers.simps linear_lookup_append if_False) simp
  qed
qed (auto simp: hits_def)

lemma numbers_hit:
  assumes "v \<in> set (numbers rs)"
  shows "\<exists>i. hits rs v i"
  using assms
proof (induction rs rule: numbers.induct)
  case (1 s o1 s' o2 rs)
  show ?case
  proof (cases "v \<in> set (numbers ((s', o2) # rs))")
    case True
    then obtain i where "hits ((s', o2) # rs) v i" using 1 by auto
    then have "hits ((s, o1) # (s', o2) # rs) v (Suc i)" by (simp add: hits_def)
    then show ?thesis ..
  next
    case False
    then have "hits ((s, o1) # (s', o2) # rs) v 0" using 1 by (auto simp: hits_def)
    then show ?thesis ..
  qed
qed auto

lemma ranges_mono:
  assumes "ranges_ok rs" and "Suc i < length rs"
  shows "snd (rs ! i) \<le> snd (rs ! Suc i)"
  using assms
proof (induction rs arbitrary: i rule: numbers.induct)
  case (1 s o1 s' o2 rs)
  then show ?case by (cases i) auto
qed auto

lemma ranges_sorted:
  assumes "ranges_ok rs" and "i < j" and "Suc j < length rs"
  shows "fst (rs ! i) + (int (snd (rs ! Suc i)) - int (snd (rs ! i))) \<le> fst (rs ! j)"
  using assms
proof (induction rs arbitrary: i j rule: numbers.induct)
  case (1 s o1 s' o2 rs)
  then obtain j' where j: "j = Suc j'" by (cases j) auto
  show ?case
  proof (cases i)
    case 0
    with 1 j ranges_ok_later [OF 1(2), of j'] show ?thesis by simp
  next
    case (Suc i')
    with 1 j show ?thesis by simp
  qed
qed auto

text \<open>What the loop finds in the indices \<open>start\<close> to \<open>start + n - 1\<close>.\<close>

definition found :: "(int \<times> nat) list \<Rightarrow> int \<Rightarrow> nat \<Rightarrow> nat \<Rightarrow> int \<Rightarrow> bool" where
  "found rs v start n r \<longleftrightarrow>
     (\<exists>i. start \<le> i \<and> i < start + n \<and> hits rs v i \<and> r = v - fst (rs ! i) + int (snd (rs ! i))) \<or>
     (r = -1 \<and> (\<forall>i. start \<le> i \<and> i < start + n \<longrightarrow> \<not> hits rs v i))"

lemma found_part:
  assumes "found rs v start' n' r" and "start \<le> start'" and "start' + n' \<le> start + n"
    and "\<And>i. start \<le> i \<Longrightarrow> i < start + n \<Longrightarrow> \<not> (start' \<le> i \<and> i < start' + n') \<Longrightarrow> \<not> hits rs v i"
  shows "found rs v start n r"
proof -
  consider i where "start' \<le> i" "i < start' + n'" "hits rs v i" "r = v - fst (rs ! i) + int (snd (rs ! i))"
    | "r = -1" "\<forall>i. start' \<le> i \<and> i < start' + n' \<longrightarrow> \<not> hits rs v i"
    using assms(1) unfolding found_def by blast
  then show ?thesis
  proof cases
    case 1
    with assms(2,3) have "start \<le> i" "i < start + n" by simp_all
    with 1 show ?thesis unfolding found_def by blast
  next
    case 2
    with assms(4) show ?thesis unfolding found_def by blast
  qed
qed

lemma found_here:
  assumes "start \<le> i" and "i < start + n" and "Suc i < length rs"
    and "\<not> v < fst (rs ! i)" and "\<not> v \<ge> fst (rs ! i) + (int (snd (rs ! (i + 1))) - int (snd (rs ! i)))"
  shows "found rs v start n (v - fst (rs ! i) + int (snd (rs ! i)))"
proof -
  have "hits rs v i" using assms(3-5) by (simp add: hits_def)
  with assms(1,2) show ?thesis unfolding found_def by blast
qed

lemma range_loop_correct:
  assumes "ranges_ok rs" and "start + n < length rs"
  shows "found rs v start n (range_loop rs v start n)"
  using assms
proof (induction rs v start n rule: range_loop.induct)
  case (1 rs v start n)
  note ok = 1(3) and bound = 1(4)
  define mid where "mid = start + n div 2"
  define stop' where "stop' = fst (rs ! mid) + (int (snd (rs ! (mid + 1))) - int (snd (rs ! mid)))"
  have later: "\<not> hits rs v i" if "v < fst (rs ! mid)" "mid \<le> i" "Suc i < length rs" for i
  proof (cases "i = mid")
    case False
    with that have "mid < i" by simp
    from ranges_sorted [OF ok this that(3)] ranges_mono [OF ok, of mid] that \<open>mid < i\<close>
    show ?thesis by (simp add: hits_def)
  qed (use that in \<open>simp add: hits_def\<close>)
  have earlier: "\<not> hits rs v i" if "v \<ge> stop'" "i \<le> mid" "Suc mid < length rs" for i
  proof (cases "i = mid")
    case False
    with that have "i < mid" by simp
    from ranges_sorted [OF ok this that(3)] ranges_mono [OF ok that(3)] that(1)
    show ?thesis by (simp add: hits_def stop'_def)
  qed (use that in \<open>simp add: hits_def stop'_def\<close>)
  show ?case
  proof (cases "n > 1")
    case True
    then have m: "start < mid" "mid < start + n" unfolding mid_def by auto
    consider "v < fst (rs ! mid)" | "\<not> v < fst (rs ! mid)" "v \<ge> stop'"
      | "\<not> v < fst (rs ! mid)" "\<not> v \<ge> stop'" by blast
    then show ?thesis
    proof cases
      case a: 1
      have "found rs v start (mid - start) (range_loop rs v start (mid - start))"
        using 1(1) [OF True mid_def a ok] m bound by simp
      then have "found rs v start n (range_loop rs v start (mid - start))"
        by (rule found_part) (use m bound a later in auto)
      then show ?thesis using True a by (subst range_loop.simps) (simp add: Let_def flip: mid_def)
    next
      case b: 2
      have "found rs v (mid + 1) (start + n - (mid + 1)) (range_loop rs v (mid + 1) (start + n - (mid + 1)))"
        using 1(2) [OF True mid_def b(1) b(2) [unfolded stop'_def] refl ok] m bound by simp
      then have "found rs v start n (range_loop rs v (mid + 1) (start + n - (mid + 1)))"
        by (rule found_part) (use m bound b earlier in auto)
      then show ?thesis using True b unfolding stop'_def
        by (subst range_loop.simps) (simp add: Let_def flip: mid_def)
    next
      case c: 3
      then have "found rs v start n (v - fst (rs ! mid) + int (snd (rs ! mid)))"
        unfolding stop'_def using m bound by (intro found_here) auto
      then show ?thesis using True c unfolding stop'_def
        by (subst range_loop.simps) (simp add: Let_def flip: mid_def)
    qed
  next
    case False
    show ?thesis
    proof (cases "n > 0")
      case True
      with False have "n = 1" by simp
      then show ?thesis using bound
        by (subst range_loop.simps) (auto simp: found_def hits_def Let_def less_Suc_eq)
    next
      case z: False
      then show ?thesis using False by (subst range_loop.simps) (auto simp: found_def)
    qed
  qed
qed

lemma range_lookup_linear:
  assumes "ranges_ok rs" and "snd (hd rs) = 0"
  shows "int_range_lookup rs v = linear_lookup (numbers rs) v 0"
proof (cases "length rs \<le> 1")
  case True
  then have "numbers rs = []" by (cases rs rule: numbers.cases) auto
  with True show ?thesis by (simp add: int_range_lookup_def)
next
  case False
  then have l: "int_range_lookup rs v = range_loop rs v 0 (length rs - 1)" by (simp add: int_range_lookup_def)
  have "found rs v 0 (length rs - 1) (range_loop rs v 0 (length rs - 1))"
    by (rule range_loop_correct [OF assms(1)]) (use False in simp)
  then consider i where "hits rs v i" "int_range_lookup rs v = v - fst (rs ! i) + int (snd (rs ! i))"
    | "int_range_lookup rs v = -1" "\<And>i. \<not> hits rs v i"
    unfolding found_def l by (auto simp: hits_def)
  then show ?thesis
  proof cases
    case 1
    then show ?thesis using linear_lookup_hit [OF assms(1) 1(1), of 0] assms(2) by simp
  next
    case 2
    then have "v \<notin> set (numbers rs)" using numbers_hit by blast
    with 2 show ?thesis by (simp add: linear_lookup_notin)
  qed
qed

section \<open>Well-formed descriptors and messages\<close>

definition field_ok :: "field \<Rightarrow> bool" where
  "field_ok f \<longleftrightarrow>
     (fd_label f = OPTIONAL \<longrightarrow> (fd_quantified f \<longleftrightarrow> \<not> pointer_type (fd_type f))) \<and>
     (pointer_type (fd_type f) \<longrightarrow> fd_default f = None)"

definition desc_ok :: "desc \<Rightarrow> bool" where
  "desc_ok d \<longleftrightarrow>
     d_fields d \<noteq> [] \<and> ranges_ok (d_ranges d) \<and> snd (hd (d_ranges d)) = 0 \<and>
     numbers (d_ranges d) = map (\<lambda>f. sint (fd_id f)) (d_fields d) \<and>
     distinct (numbers (d_ranges d)) \<and> list_all field_ok (d_fields d)"

text \<open>
  A value of its type: a string has no zero byte before its terminator and, like a
  sub-message, is present; \<open>mok\<close> says the sub-message is in order.
\<close>

definition value_ok :: "(msg \<Rightarrow> bool) \<Rightarrow> ctype \<Rightarrow> mval \<Rightarrow> bool" where
  "value_ok mok t v =
     (case t of
        T_STRING \<Rightarrow> (case v of VStr (Some s) \<Rightarrow> 0 \<notin> set s | _ \<Rightarrow> False)
      | T_BYTES \<Rightarrow> (case v of VBytes bs \<Rightarrow> True | _ \<Rightarrow> False)
      | T_BOOL \<Rightarrow> (case v of VBool b \<Rightarrow> True | _ \<Rightarrow> False)
      | T_MESSAGE d \<Rightarrow> (case v of VMsg (Some m) \<Rightarrow> m_desc m = d \<and> mok m | _ \<Rightarrow> False)
      | _ \<Rightarrow> (case zero_val t of
                V64 z \<Rightarrow> (case v of V64 w \<Rightarrow> True | _ \<Rightarrow> False)
              | _ \<Rightarrow> (case v of V32 w \<Rightarrow> True | _ \<Rightarrow> False)))"

text \<open>An optional member that is not set holds its initial value.\<close>

definition slot_ok :: "(msg \<Rightarrow> bool) \<Rightarrow> field \<Rightarrow> slot \<Rightarrow> bool" where
  "slot_ok mok f s =
     (case fd_label f of
        REQUIRED \<Rightarrow> (case s of One v \<Rightarrow> value_ok mok (fd_type f) v | _ \<Rightarrow> False)
      | OPTIONAL \<Rightarrow>
          if fd_quantified f
          then (case s of Opt h v \<Rightarrow> if h then value_ok mok (fd_type f) v else v = init_val f | _ \<Rightarrow> False)
          else (case s of One v \<Rightarrow> v = init_val f \<or> value_ok mok (fd_type f) v | _ \<Rightarrow> False)
      | REPEATED \<Rightarrow> (case s of Rep vs \<Rightarrow> list_all (value_ok mok (fd_type f)) vs | _ \<Rightarrow> False))"

text \<open>An unknown field: its number is not one of the descriptor's and its data is one member.\<close>

fun unknown_ok :: "desc \<Rightarrow> unknown \<Rightarrow> bool" where
  "unknown_ok d (Unknown tag wire_type data) \<longleftrightarrow>
     tag \<notin> set (map fd_id (d_fields d)) \<and> unat wire_type < 8 \<and>
     (\<exists>pref_len. member_len wire_type data = Some (length data, pref_len))"

definition slots_ok :: "(msg \<Rightarrow> bool) \<Rightarrow> field list \<Rightarrow> slot list \<Rightarrow> bool" where
  "slots_ok mok fs ss \<longleftrightarrow> list_all2 (slot_ok mok) fs ss"

lemma value_ok_cong:
  assumes "\<And>m. m \<in> vsubs v \<Longrightarrow> p m = q m"
  shows "value_ok p t v = value_ok q t v"
  using assms by (auto simp: value_ok_def vsubs_def split: ctype.split mval.split option.split)

lemma slot_ok_cong:
  assumes "\<And>m. m \<in> ssubs s \<Longrightarrow> p m = q m"
  shows "slot_ok p f s = slot_ok q f s"
proof -
  have "value_ok p (fd_type f) v = value_ok q (fd_type f) v" if "v = slot_val s \<or> v \<in> set (slot_vals s)" for v
    using that assms by (intro value_ok_cong) (auto simp: ssubs_def)
  then show ?thesis by (cases s) (auto simp: slot_ok_def list_all_iff split: label.split)
qed

lemma slots_ok_cong [fundef_cong]:
  assumes "fs = fs'" and "ss = ss'" and "\<And>m. m \<in> submsgs ss' \<Longrightarrow> p m = q m"
  shows "slots_ok p fs ss = slots_ok q fs' ss'"
proof -
  have "slot_ok p f s = slot_ok q f s" if "s \<in> set ss'" for f s
    using that assms(3) by (intro slot_ok_cong) (auto simp: submsgs_def)
  then show ?thesis using assms(1,2) unfolding slots_ok_def
    by (auto simp: list_all2_conv_all_nth)
qed

function msg_ok :: "msg \<Rightarrow> bool" where
  "msg_ok (Msg d ss us) \<longleftrightarrow> desc_ok d \<and> slots_ok msg_ok (d_fields d) ss \<and> list_all (unknown_ok d) us"
  by pat_completeness auto
termination
  by (relation "measure size") (auto dest: submsgs_size)

section \<open>Looking a field up\<close>

lemma linear_lookup_nth:
  "distinct ns \<Longrightarrow> i < length ns \<Longrightarrow> linear_lookup ns (ns ! i) k = k + int i"
  by (induction ns arbitrary: i k) (auto simp: nth_Cons split: nat.split)

lemma range_lookup_fields:
  assumes "desc_ok d"
  shows "int_range_lookup (d_ranges d) v = linear_lookup (map (\<lambda>f. sint (fd_id f)) (d_fields d)) v 0"
  using assms by (simp add: desc_ok_def range_lookup_linear)

lemma lookup_field_own:
  assumes "desc_ok d" and "i < length (d_fields d)" and "lf < length (d_fields d)"
  shows "lookup_field d lf (fd_id (d_fields d ! i)) = Some i"
proof (cases "fd_id (d_fields d ! lf) = fd_id (d_fields d ! i)")
  case True
  have "distinct (map (\<lambda>f. sint (fd_id f)) (d_fields d))" using assms(1) by (auto simp: desc_ok_def)
  then have "lf = i" using True assms(2,3) by (auto simp: distinct_conv_nth) metis
  with True show ?thesis by (simp add: lookup_field_def)
next
  case False
  have "linear_lookup (map (\<lambda>f. sint (fd_id f)) (d_fields d)) (map (\<lambda>f. sint (fd_id f)) (d_fields d) ! i) 0 = 0 + int i"
    by (rule linear_lookup_nth) (use assms in \<open>auto simp: desc_ok_def\<close>)
  with False assms show ?thesis
    by (simp add: lookup_field_def range_lookup_fields)
qed

lemma lookup_field_foreign:
  assumes "desc_ok d" and "tag \<notin> set (map fd_id (d_fields d))" and "lf < length (d_fields d)"
  shows "lookup_field d lf tag = None"
proof -
  have "sint tag \<notin> set (map (\<lambda>f. sint (fd_id f)) (d_fields d))"
    using assms(2) by (auto simp flip: word_eq_iff_signed)
  moreover have "fd_id (d_fields d ! lf) \<noteq> tag" using assms(2,3) by auto
  ultimately show ?thesis using assms(1)
    by (simp add: lookup_field_def range_lookup_fields linear_lookup_notin)
qed

section \<open>One member\<close>

lemma is_varint_packs [simp]:
  "is_varint (uint32_pack w)" "is_varint (uint64_pack x)" "is_varint (int32_pack w)"
  "is_varint (sint32_pack w)" "is_varint (sint64_pack x)" "is_varint (boolean_pack b)"
  by (simp_all add: uint32_pack_varint uint64_pack_varint is_varint_int32 sint32_pack_def sint64_pack_def
      boolean_pack_def bit_7_unat)

lemma pack_lengths:
  "length (uint32_pack w) \<le> 10" "length (uint64_pack x) \<le> 10" "length (int32_pack w) \<le> 10"
  "length (sint32_pack w) \<le> 10" "length (sint64_pack x) \<le> 10" "length (boolean_pack b) \<le> 10"
  by (simp_all add: uint32_size_pack uint64_size_pack int32_size_pack sint32_pack_def sint64_pack_def boolean_pack_def
      uint32_size_def uint64_size_def int32_size_def Let_def)

lemma member_len_varint:
  assumes "is_varint bs" and "length bs \<le> 10"
  shows "member_len 0 (bs @ rest) = Some (length bs, 0)"
  using scan_varint_ok [OF assms] by (simp add: member_len_def WIRE_TYPE_VARINT_def)

lemma member_len_prefixed:
  assumes "length body < 2 ^ 32 - 5"
  shows "member_len 2 (uint32_pack (of_nat (length body)) @ body @ rest) =
    Some (length (uint32_pack (of_nat (length body)) @ body), length (uint32_pack (of_nat (length body))))"
  using scan_length_prefixed_ok [OF assms]
  by (simp add: member_len_def WIRE_TYPE_VARINT_def WIRE_TYPE_64BIT_def WIRE_TYPE_LENGTH_PREFIXED_def)

lemma member_len_fixed:
  "length bs = 4 \<Longrightarrow> member_len 5 (bs @ rest) = Some (4, 0)"
  "length bs = 8 \<Longrightarrow> member_len 1 (bs @ rest) = Some (8, 0)"
  by (simp_all add: member_len_def WIRE_TYPE_VARINT_def WIRE_TYPE_64BIT_def WIRE_TYPE_LENGTH_PREFIXED_def
      WIRE_TYPE_32BIT_def)

lemma member_bytes_ok:
  assumes "length body < 2 ^ 32 - 5"
    and "sm_len sm = length hdr + length body" and "sm_length_prefix_len sm = length hdr"
    and "sm_data sm = hdr @ body @ rest"
  shows "member_bytes sm = Parsed body"
  using assms by (simp add: member_bytes_def unat_of_nat Let_def)

lemmas wire_types = WIRE_TYPE_VARINT_def WIRE_TYPE_64BIT_def WIRE_TYPE_LENGTH_PREFIXED_def WIRE_TYPE_32BIT_def

text \<open>
  The bytes of one value behind its tag: what the scan makes of them and what the parser
  makes of that.
\<close>

definition value_reads :: "(desc \<Rightarrow> byte list \<Rightarrow> msg parsed) \<Rightarrow> ctype \<Rightarrow> mval \<Rightarrow> byte list \<Rightarrow> bool" where
  "value_reads u t v bs \<longleftrightarrow>
     (\<forall>rest. \<exists>pref. member_len (wire_type_of t) (bs @ rest) = Some (length bs, pref) \<and>
       (\<forall>f sm. fd_type f = t \<and> sm_wire_type sm = wire_type_of t \<and> sm_length_prefix_len sm = pref \<and>
          sm_len sm = length bs \<and> sm_data sm = bs @ rest \<longrightarrow>
          parse_required_member u f sm = Parsed v))"

lemma value_reads_varint:
  assumes "is_varint bs" and "length bs \<le> 10" and "wire_type_of t = 0"
    and "\<And>rest f sm. fd_type f = t \<Longrightarrow> sm_wire_type sm = 0 \<Longrightarrow> sm_len sm = length bs \<Longrightarrow>
          sm_data sm = bs @ rest \<Longrightarrow> parse_required_member u f sm = Parsed v"
  shows "value_reads u t v bs"
  unfolding value_reads_def assms(3) using member_len_varint [OF assms(1,2)] assms(4) by blast

lemma value_reads_fixed:
  assumes "length bs = n" and "n = 4 \<and> wire_type_of t = 5 \<or> n = 8 \<and> wire_type_of t = 1"
    and "\<And>rest f sm. fd_type f = t \<Longrightarrow> sm_wire_type sm = wire_type_of t \<Longrightarrow> sm_len sm = length bs \<Longrightarrow>
          sm_data sm = bs @ rest \<Longrightarrow> parse_required_member u f sm = Parsed v"
  shows "value_reads u t v bs"
  unfolding value_reads_def using assms member_len_fixed [of bs] by metis

lemma value_reads_prefixed:
  assumes "length body < 2 ^ 32 - 5" and "wire_type_of t = 2"
    and "\<And>f sm. fd_type f = t \<Longrightarrow> sm_wire_type sm = 2 \<Longrightarrow> member_bytes sm = Parsed body \<Longrightarrow>
          parse_required_member u f sm = Parsed v"
  shows "value_reads u t v (uint32_pack (of_nat (length body)) @ body)"
  unfolding value_reads_def assms(2)
proof (intro allI exI conjI impI)
  let ?h = "uint32_pack (of_nat (length body))"
  fix rest
  show "member_len 2 ((?h @ body) @ rest) = Some (length (?h @ body), length ?h)"
    using member_len_prefixed [OF assms(1)] by simp
  fix f and sm :: scanned
  assume "fd_type f = t \<and> sm_wire_type sm = 2 \<and> sm_length_prefix_len sm = length ?h \<and>
    sm_len sm = length (?h @ body) \<and> sm_data sm = (?h @ body) @ rest"
  then show "parse_required_member u f sm = Parsed v"
    using assms(3) member_bytes_ok [OF assms(1), of sm ?h rest] by simp
qed

lemma cstr_id: "0 \<notin> set s \<Longrightarrow> cstr s = s"
  unfolding cstr_def by (rule takeWhile_eq_all_conv [THEN iffD2]) auto

lemma scalar_reads:
  "value_reads u T_INT32 (V32 w) (int32_pack w)"
  "value_reads u T_SINT32 (V32 w) (sint32_pack w)"
  "value_reads u T_UINT32 (V32 w) (uint32_pack w)"
  "value_reads u T_ENUM (V32 w) (uint32_pack w)"
  "value_reads u T_INT64 (V64 x) (uint64_pack x)"
  "value_reads u T_SINT64 (V64 x) (sint64_pack x)"
  "value_reads u T_UINT64 (V64 x) (uint64_pack x)"
  "value_reads u T_BOOL (VBool b) (boolean_pack b)"
  by (rule value_reads_varint; simp add: pack_lengths wire_types parse_required_member_def needs_def
      parse_int32_pack parse_uint32_pack parse_uint64_pack sint32_pack_def sint64_pack_def
      parse_boolean_pack [simplified] boolean_pack_def parse_boolean_def)+

lemma fixed_reads:
  "value_reads u T_SFIXED32 (V32 w) (fixed32_pack w)"
  "value_reads u T_FIXED32 (V32 w) (fixed32_pack w)"
  "value_reads u T_FLOAT (V32 w) (fixed32_pack w)"
  "value_reads u T_SFIXED64 (V64 x) (fixed64_pack x)"
  "value_reads u T_FIXED64 (V64 x) (fixed64_pack x)"
  "value_reads u T_DOUBLE (V64 x) (fixed64_pack x)"
  by (rule value_reads_fixed [OF refl]; simp add: wire_types parse_required_member_def needs_def
      parse_fixed_uint32_pack parse_fixed_uint64_pack)+

lemma value_pack_reads:
  assumes "value_ok mok t v" and "length (value_pack mpack t v) < 2 ^ 32 - 5"
    and "\<And>d m. t = T_MESSAGE d \<Longrightarrow> v = VMsg (Some m) \<Longrightarrow> u d (mpack m) = Parsed m"
  shows "value_reads u t v (value_pack mpack t v)"
proof (cases t)
  case T_STRING
  then obtain s where v: "v = VStr (Some s)" "0 \<notin> set s"
    using assms(1) by (auto simp: value_ok_def split: mval.splits option.splits)
  have "value_pack mpack t v = uint32_pack (of_nat (length s)) @ s"
    using T_STRING v by (simp add: value_pack_def string_pack_def cstr_id)
  then show ?thesis using assms(2) T_STRING v
    by (auto intro!: value_reads_prefixed simp: wire_types parse_required_member_def needs_def)
next
  case T_BYTES
  then obtain s where v: "v = VBytes s"
    using assms(1) by (auto simp: value_ok_def split: mval.splits)
  have "value_pack mpack t v = uint32_pack (of_nat (length s)) @ s"
    using T_BYTES v by (simp add: value_pack_def binary_data_pack_def)
  then show ?thesis using assms(2) T_BYTES v
    by (auto intro!: value_reads_prefixed simp: wire_types parse_required_member_def needs_def)
next
  case (T_MESSAGE d)
  then obtain m where v: "v = VMsg (Some m)"
    using assms(1) by (auto simp: value_ok_def split: mval.splits option.splits)
  have "value_pack mpack t v = uint32_pack (of_nat (length (mpack m))) @ mpack m"
    using T_MESSAGE v by (simp add: value_pack_def prefixed_message_pack_Some)
  then show ?thesis using assms(2,3) T_MESSAGE v
    by (auto intro!: value_reads_prefixed simp: wire_types parse_required_member_def needs_def)
qed (use assms(1) scalar_reads [where u = u] fixed_reads [where u = u] in \<open>auto simp: value_ok_def value_pack_def split: mval.splits\<close>)

section \<open>A sequence of members\<close>

text \<open>
  A member of the packed message, as unpacking sees it: a value of the field with this
  index, or an unknown field; and its effect on the message being built.
\<close>

datatype event = Seen nat mval | Foreign unknown

fun yields :: "(desc \<Rightarrow> byte list \<Rightarrow> msg parsed) \<Rightarrow> desc \<Rightarrow> scanned \<Rightarrow> event \<Rightarrow> bool" where
  "yields u d sm (Seen i v) \<longleftrightarrow>
     sm_field sm = Some i \<and> i < length (d_fields d) \<and> parse_required_member u (d_fields d ! i) sm = Parsed v"
| "yields u d sm (Foreign uk) \<longleftrightarrow>
     sm_field sm = None \<and> Unknown (sm_tag sm) (sm_wire_type sm) (take (sm_len sm) (sm_data sm)) = uk"

definition put :: "field \<Rightarrow> mval \<Rightarrow> slot \<Rightarrow> slot" where
  "put f v s =
     (case fd_label f of
        REQUIRED \<Rightarrow> One v
      | OPTIONAL \<Rightarrow> if fd_quantified f then Opt True v else One v
      | REPEATED \<Rightarrow> Rep (slot_vals s @ [v]))"

fun store :: "desc \<Rightarrow> event \<Rightarrow> slot list \<times> unknown list \<Rightarrow> slot list \<times> unknown list" where
  "store d (Seen i v) (ss, us) = (ss[i := put (d_fields d ! i) v (ss ! i)], us)"
| "store d (Foreign uk) (ss, us) = (ss, us @ [uk])"

lemma parse_member_yields:
  "yields u d sm ev \<Longrightarrow> parse_member u d sm state = Parsed (store d ev state)"
  by (cases ev; cases state)
    (auto simp: parse_member_def put_def parse_optional_member_def parse_repeated_member_def Let_def
      split: label.split)

lemma parse_members_yields:
  "list_all2 (yields u d) sms evs \<Longrightarrow> parse_members u d sms state = Parsed (fold (store d) evs state)"
  by (induction sms evs arbitrary: state rule: list_all2_induct) (simp_all add: parse_member_yields)

definition scans_as :: "(desc \<Rightarrow> byte list \<Rightarrow> msg parsed) \<Rightarrow> desc \<Rightarrow> byte list \<Rightarrow> event list \<Rightarrow> bool" where
  "scans_as u d bs evs \<longleftrightarrow>
     (\<forall>lf rest. lf < length (d_fields d) \<longrightarrow>
       (\<exists>sms lf'. lf' < length (d_fields d) \<and> list_all2 (yields u d) sms evs \<and>
          (\<forall>tail. scan_members d lf' rest = Some tail \<longrightarrow> scan_members d lf (bs @ rest) = Some (sms @ tail))))"

lemma scans_as_Nil [simp]: "scans_as u d [] []"
  unfolding scans_as_def by (metis append_Nil list_all2_Nil)

lemma scans_as_append:
  assumes "scans_as u d bs es" and "scans_as u d bs' es'"
  shows "scans_as u d (bs @ bs') (es @ es')"
  unfolding scans_as_def
proof (intro allI impI)
  fix lf rest
  assume "lf < length (d_fields d)"
  then obtain sms l1 where a: "l1 < length (d_fields d)" "list_all2 (yields u d) sms es"
    "\<And>tail. scan_members d l1 (bs' @ rest) = Some tail \<Longrightarrow> scan_members d lf (bs @ bs' @ rest) = Some (sms @ tail)"
    using assms(1) unfolding scans_as_def by blast
  then obtain sms' l2 where b: "l2 < length (d_fields d)" "list_all2 (yields u d) sms' es'"
    "\<And>tail. scan_members d l2 rest = Some tail \<Longrightarrow> scan_members d l1 (bs' @ rest) = Some (sms' @ tail)"
    using assms(2) unfolding scans_as_def by blast
  show "\<exists>sms lf'. lf' < length (d_fields d) \<and> list_all2 (yields u d) sms (es @ es') \<and>
      (\<forall>tail. scan_members d lf' rest = Some tail \<longrightarrow> scan_members d lf ((bs @ bs') @ rest) = Some (sms @ tail))"
  proof (intro exI conjI allI impI)
    show "list_all2 (yields u d) (sms @ sms') (es @ es')" using a(2) b(2) by (rule list_all2_appendI)
    fix tail
    assume "scan_members d l2 rest = Some tail"
    then show "scan_members d lf ((bs @ bs') @ rest) = Some ((sms @ sms') @ tail)"
      using a(3) b(3) by simp
  qed (rule b(1))
qed

lemma scans_as_concat:
  assumes "\<And>x. x \<in> set xs \<Longrightarrow> scans_as u d (f x) (g x)"
  shows "scans_as u d (concat (map f xs)) (concat (map g xs))"
  using assms by (induction xs) (simp_all add: scans_as_append)

text \<open>One step of the scan.\<close>

lemma tl_drop_append: "length t = n \<Longrightarrow> t \<noteq> [] \<Longrightarrow> tl (drop (n - 1) (t @ xs)) = xs"
  by (cases t) (auto simp: tl_drop)

lemma scan_step:
  assumes "unat w < 8" and "member_len w (bs @ rest) = Some (length bs, pref)"
    and "lookup_field d lf ident = field"
    and "scan_members d (case field of None \<Rightarrow> lf | Some i \<Rightarrow> i) rest = Some tail"
  shows "scan_members d lf ((tagged w (tag_pack ident) @ bs) @ rest) =
    Some (\<lparr>sm_tag = ident, sm_wire_type = w, sm_length_prefix_len = pref, sm_field = field,
      sm_len = length bs, sm_data = bs @ rest\<rparr> # tail)"
proof -
  let ?t = "tagged w (tag_pack ident)"
  have l: "length ?t = get_tag_size ident"
    unfolding get_tag_size_pack [symmetric] by (simp add: tagged_def) (simp add: tag_pack_varint)
  then have "tl (drop (get_tag_size ident - 1) (?t @ bs @ rest)) = bs @ rest"
    by (intro tl_drop_append) (simp_all add: tagged_def)
  moreover have "?t \<noteq> []" by (simp add: tagged_def)
  ultimately show ?thesis using assms
    by (subst scan_members.simps) (simp add: parse_tag_ok Let_def)
qed

lemma wire_type_small: "unat (wire_type_of t) < 8"
  by (cases t) (simp_all add: wire_types)

lemma scans_as_value:
  assumes "desc_ok d" and "i < length (d_fields d)"
    and "value_reads u (fd_type (d_fields d ! i)) v (value_pack mpack (fd_type (d_fields d ! i)) v)"
  shows "scans_as u d (required_field_pack mpack (d_fields d ! i) v) [Seen i v]"
  unfolding scans_as_def
proof (intro allI impI)
  fix lf rest
  assume lf: "lf < length (d_fields d)"
  let ?f = "d_fields d ! i"
  let ?bs = "value_pack mpack (fd_type ?f) v"
  obtain pref where p: "member_len (wire_type_of (fd_type ?f)) (?bs @ rest) = Some (length ?bs, pref)"
    "\<And>sm. sm_wire_type sm = wire_type_of (fd_type ?f) \<Longrightarrow> sm_length_prefix_len sm = pref \<Longrightarrow>
      sm_len sm = length ?bs \<Longrightarrow> sm_data sm = ?bs @ rest \<Longrightarrow> parse_required_member u ?f sm = Parsed v"
    using assms(3) unfolding value_reads_def by metis
  have "scan_members d lf (required_field_pack mpack ?f v @ rest) =
      Some (\<lparr>sm_tag = fd_id ?f, sm_wire_type = wire_type_of (fd_type ?f), sm_length_prefix_len = pref,
        sm_field = Some i, sm_len = length ?bs, sm_data = ?bs @ rest\<rparr> # tail)"
    if "scan_members d i rest = Some tail" for tail
    unfolding required_field_pack_def
    using scan_step [OF wire_type_small p(1) lookup_field_own [OF assms(1,2) lf]] that by simp
  then show "\<exists>sms lf'. lf' < length (d_fields d) \<and> list_all2 (yields u d) sms [Seen i v] \<and>
      (\<forall>tail. scan_members d lf' rest = Some tail \<longrightarrow>
        scan_members d lf (required_field_pack mpack ?f v @ rest) = Some (sms @ tail))"
    using assms(2) p(2)
    by (intro exI [of _ "[\<lparr>sm_tag = fd_id ?f, sm_wire_type = wire_type_of (fd_type ?f),
          sm_length_prefix_len = pref, sm_field = Some i, sm_len = length ?bs, sm_data = ?bs @ rest\<rparr>]"]
        exI [of _ i]) simp
qed

lemma varint_loop_append:
  assumes "varint_loop left i data = Some k" and "i + left \<le> length data" and "left \<le> left'"
  shows "varint_loop left' i (data @ rest) = Some k"
  using assms
proof (induction left i data arbitrary: left' rule: varint_loop.induct)
  case (2 left i data)
  then obtain l where l: "left' = Suc l" by (cases left') auto
  from 2 show ?case by (auto simp: l nth_append split: if_splits)
qed simp

lemma prefix_loop_append:
  assumes "prefix_loop left i data val = Some r" and "i + left \<le> length data" and "left \<le> left'"
  shows "prefix_loop left' i (data @ rest) val = Some r"
  using assms
proof (induction left i data val arbitrary: left' rule: prefix_loop.induct)
  case (2 left i data val)
  then obtain l where l: "left' = Suc l" by (cases left') auto
  from 2 show ?case by (auto simp: l nth_append Let_def split: if_splits)
qed simp

lemma member_len_append:
  assumes "member_len w data = Some (len, pref)"
  shows "member_len w (data @ rest) = Some (len, pref)"
proof -
  have v: "scan_varint (data @ rest) = Some k" if "scan_varint data = Some k" for k
    using that unfolding scan_varint_def by (rule varint_loop_append) auto
  have p: "scan_length_prefixed_data (data @ rest) = Some r" if r: "scan_length_prefixed_data data = Some r" for r
  proof -
    obtain i val where h: "prefix_loop (if length data < 5 then length data else 5) 0 data 0 = Some (i, val)"
      using r by (auto simp: scan_length_prefixed_data_def Let_def split: option.splits)
    have "prefix_loop (if length (data @ rest) < 5 then length (data @ rest) else 5) 0 (data @ rest) 0 = Some (i, val)"
      by (rule prefix_loop_append [OF h]) auto
    with h r show ?thesis by (auto simp: scan_length_prefixed_data_def Let_def split: if_splits)
  qed
  show ?thesis using assms v p
    by (auto simp: member_len_def split: if_splits)
qed

lemma scans_as_unknown:
  assumes "desc_ok d" and "unknown_ok d uk"
  shows "scans_as u d (unknown_field_pack uk) [Foreign uk]"
  unfolding scans_as_def
proof (intro allI impI)
  fix lf rest
  assume lf: "lf < length (d_fields d)"
  obtain tag w data where uk: "uk = Unknown tag w data" by (cases uk)
  with assms(2) obtain pref where ok: "tag \<notin> set (map fd_id (d_fields d))" "unat w < 8"
    "member_len w data = Some (length data, pref)" by auto
  have "scan_members d lf (unknown_field_pack uk @ rest) =
      Some (\<lparr>sm_tag = tag, sm_wire_type = w, sm_length_prefix_len = pref,
        sm_field = None, sm_len = length data, sm_data = data @ rest\<rparr> # tail)"
    if "scan_members d lf rest = Some tail" for tail
    using scan_step [OF ok(2) member_len_append [OF ok(3)] lookup_field_foreign [OF assms(1) ok(1) lf]] that uk
    by simp
  then show "\<exists>sms lf'. lf' < length (d_fields d) \<and> list_all2 (yields u d) sms [Foreign uk] \<and>
      (\<forall>tail. scan_members d lf' rest = Some tail \<longrightarrow>
        scan_members d lf (unknown_field_pack uk @ rest) = Some (sms @ tail))"
    using lf uk
    by (intro exI [of _ "[\<lparr>sm_tag = tag, sm_wire_type = w, sm_length_prefix_len = pref,
          sm_field = None, sm_len = length data, sm_data = data @ rest\<rparr>]"] exI [of _ lf]) simp
qed

section \<open>The round trip\<close>

definition slot_events :: "nat \<Rightarrow> field \<Rightarrow> slot \<Rightarrow> event list" where
  "slot_events i f s =
     (case fd_label f of
        REQUIRED \<Rightarrow> [Seen i (slot_val s)]
      | OPTIONAL \<Rightarrow>
          if (if fd_quantified f then \<not> slot_has s else is_null (slot_val s)) then [] else [Seen i (slot_val s)]
      | REPEATED \<Rightarrow> map (Seen i) (slot_vals s))"

lemma required_scans_as:
  assumes "desc_ok d" and "i < length (d_fields d)"
    and "value_ok mok (fd_type (d_fields d ! i)) v"
    and "length (required_field_pack mpack (d_fields d ! i) v) < 2 ^ 32 - 5"
    and "\<And>m. m \<in> vsubs v \<Longrightarrow> mok m \<Longrightarrow> length (mpack m) < 2 ^ 32 - 5 \<Longrightarrow> u (m_desc m) (mpack m) = Parsed m"
  shows "scans_as u d (required_field_pack mpack (d_fields d ! i) v) [Seen i v]"
proof -
  let ?t = "fd_type (d_fields d ! i)"
  have len: "length (value_pack mpack ?t v) < 2 ^ 32 - 5" using assms(4) by (simp add: required_field_pack_def)
  have "u e (mpack m) = Parsed m" if "?t = T_MESSAGE e" "v = VMsg (Some m)" for e m
  proof -
    have "m \<in> vsubs v" "mok m" "m_desc m = e" using that assms(3) by (simp_all add: vsubs_def value_ok_def)
    moreover have "length (mpack m) < 2 ^ 32 - 5"
      using len that by (simp add: value_pack_def prefixed_message_pack_Some)
    ultimately show ?thesis using assms(5) by blast
  qed
  then have "value_reads u ?t v (value_pack mpack ?t v)"
    by (intro value_pack_reads [OF assms(3) len])
  then show ?thesis by (rule scans_as_value [OF assms(1,2)])
qed

lemma value_ok_not_null: "value_ok mok t v \<Longrightarrow> pointer_type t \<Longrightarrow> \<not> is_null v"
  by (cases t) (auto simp: value_ok_def is_null_def split: mval.splits option.splits)

lemma init_null:
  assumes "field_ok f" and "pointer_type (fd_type f)"
  shows "is_null (init_val f)"
  using assms by (cases "fd_type f") (simp_all add: field_ok_def init_val_def is_null_def)

lemma field_scans_as:
  assumes "desc_ok d" and "i < length (d_fields d)"
    and "slot_ok mok (d_fields d ! i) s"
    and "length (field_pack mpack (d_fields d ! i) s) < 2 ^ 32 - 5"
    and "\<And>m. m \<in> ssubs s \<Longrightarrow> mok m \<Longrightarrow> length (mpack m) < 2 ^ 32 - 5 \<Longrightarrow> u (m_desc m) (mpack m) = Parsed m"
  shows "scans_as u d (field_pack mpack (d_fields d ! i) s) (slot_events i (d_fields d ! i) s)"
proof -
  define f where "f = d_fields d ! i"
  have fok: "field_ok f" using assms(1,2) by (simp add: desc_ok_def f_def list_all_length)
  note req = required_scans_as [OF assms(1,2), folded f_def, of mok]
  show ?thesis unfolding f_def [symmetric]
  proof (cases "fd_label f")
    case REQUIRED
    then obtain v where "s = One v" "value_ok mok (fd_type f) v"
      using assms(3) by (auto simp: slot_ok_def f_def split: slot.splits)
    with REQUIRED req [of v mpack u] assms(4,5) show "scans_as u d (field_pack mpack f s) (slot_events i f s)"
      by (simp add: field_pack_def slot_events_def f_def ssubs_def)
  next
    case OPTIONAL
    show "scans_as u d (field_pack mpack f s) (slot_events i f s)"
    proof (cases "fd_quantified f")
      case True
      then obtain h v where s: "s = Opt h v" "h \<Longrightarrow> value_ok mok (fd_type f) v"
        using OPTIONAL assms(3) by (auto simp: slot_ok_def f_def split: slot.splits if_splits)
      have "\<not> pointer_type (fd_type f)" using True fok OPTIONAL by (simp add: field_ok_def)
      with True OPTIONAL req [of v mpack u] s assms(4,5) show ?thesis
        by (cases h) (simp_all add: field_pack_def optional_field_pack_def slot_events_def f_def ssubs_def)
    next
      case False
      then obtain v where s: "s = One v" "v = init_val f \<or> value_ok mok (fd_type f) v"
        using OPTIONAL assms(3) by (auto simp: slot_ok_def f_def split: slot.splits if_splits)
      have p: "pointer_type (fd_type f)" using False fok OPTIONAL by (simp add: field_ok_def)
      show ?thesis
      proof (cases "is_null v")
        case True
        with s False OPTIONAL p show ?thesis
          by (simp add: field_pack_def optional_field_pack_def slot_events_def)
      next
        case nn: False
        then have "value_ok mok (fd_type f) v" using s(2) init_null [OF fok p] by auto
        with nn s False OPTIONAL p req [of v mpack u] assms(4,5) show ?thesis
          by (simp add: field_pack_def optional_field_pack_def slot_events_def f_def ssubs_def)
      qed
    qed
  next
    case REPEATED
    then obtain vs where s: "s = Rep vs" "list_all (value_ok mok (fd_type f)) vs"
      using assms(3) by (auto simp: slot_ok_def f_def split: slot.splits)
    have len: "length (concat (map (required_field_pack mpack f) vs)) < 2 ^ 32 - 5"
      using assms(4) REPEATED s by (simp add: field_pack_def repeated_field_pack_def f_def)
    have "scans_as u d (required_field_pack mpack f v) [Seen i v]" if v: "v \<in> set vs" for v
    proof (rule req)
      show "value_ok mok (fd_type f) v" using s(2) v by (simp add: list_all_iff)
      have "length (required_field_pack mpack f v) \<le> length (concat (map (required_field_pack mpack f) vs))"
        using v by (induction vs) auto
      then show "length (required_field_pack mpack f v) < 2 ^ 32 - 5" using len by simp
    qed (use assms(5) s v in \<open>auto simp: ssubs_def\<close>)
    then have "scans_as u d (concat (map (required_field_pack mpack f) vs)) (concat (map (\<lambda>v. [Seen i v]) vs))"
      by (rule scans_as_concat)
    moreover have "concat (map (\<lambda>v. [Seen i v]) vs) = map (Seen i) vs" by (induction vs) simp_all
    ultimately show "scans_as u d (field_pack mpack f s) (slot_events i f s)" using REPEATED s
      by (simp add: field_pack_def repeated_field_pack_def slot_events_def)
  qed
qed

lemma store_slot_events:
  assumes "field_ok (d_fields d ! i)" and "i < length ss"
    and "slot_ok mok (d_fields d ! i) s" and "ss ! i = init_slot (d_fields d ! i)"
  shows "fold (store d) (slot_events i (d_fields d ! i) s) (ss, us) = (ss[i := s], us)"
proof -
  define f where "f = d_fields d ! i"
  have rep: "fold (store d) (map (Seen i) vs) (ss[i := Rep ws], us) = (ss[i := Rep (ws @ vs)], us)"
    if "fd_label f = REPEATED" for vs ws
    using that assms(2) by (induction vs arbitrary: ws) (simp_all add: put_def f_def)
  have keep: "ss[i := init_slot f] = ss" using assms(4) by (metis f_def list_update_id)
  show ?thesis unfolding f_def [symmetric]
  proof (cases "fd_label f")
    case REQUIRED
    with assms(3) show "fold (store d) (slot_events i f s) (ss, us) = (ss[i := s], us)"
      by (auto simp: slot_ok_def slot_events_def put_def f_def split: slot.splits)
  next
    case OPTIONAL
    with assms(1,3) keep show "fold (store d) (slot_events i f s) (ss, us) = (ss[i := s], us)"
      by (auto simp: slot_ok_def slot_events_def put_def init_slot_def field_ok_def simp flip: f_def
          split: slot.splits if_splits dest: value_ok_not_null)
  next
    case REPEATED
    with assms(3) rep [of "slot_vals s" "[]"] keep show "fold (store d) (slot_events i f s) (ss, us) = (ss[i := s], us)"
      by (auto simp: slot_ok_def slot_events_def init_slot_def simp flip: f_def split: slot.splits)
  qed
qed

definition msg_events :: "desc \<Rightarrow> slot list \<Rightarrow> unknown list \<Rightarrow> event list" where
  "msg_events d ss us =
     concat (map (\<lambda>i. slot_events i (d_fields d ! i) (ss ! i)) [0..<length (d_fields d)]) @ map Foreign us"

lemma store_msg_events:
  assumes "desc_ok d" and "slots_ok mok (d_fields d) ss"
  shows "fold (store d) (msg_events d ss us) (map init_slot (d_fields d), []) = (ss, us)"
proof -
  let ?n = "length (d_fields d)"
  have len: "length ss = ?n" and ok: "\<And>i. i < ?n \<Longrightarrow> slot_ok mok (d_fields d ! i) (ss ! i)"
    using assms(2) by (simp_all add: slots_ok_def list_all2_conv_all_nth)
  have fok: "\<And>i. i < ?n \<Longrightarrow> field_ok (d_fields d ! i)" using assms(1) by (simp add: desc_ok_def list_all_length)
  have "fold (store d) (concat (map (\<lambda>i. slot_events i (d_fields d ! i) (ss ! i)) [0..<k]))
      (map init_slot (d_fields d), []) = (take k ss @ drop k (map init_slot (d_fields d)), [])" if "k \<le> ?n" for k
    using that
  proof (induction k)
    case (Suc k)
    let ?st = "take k ss @ drop k (map init_slot (d_fields d))"
    have "?st ! k = init_slot (d_fields d ! k)" using Suc.prems len by (simp add: nth_append)
    then have "fold (store d) (slot_events k (d_fields d ! k) (ss ! k)) (?st, []) = (?st[k := ss ! k], [])"
      using Suc.prems len fok ok by (intro store_slot_events [where mok = mok]) simp_all
    moreover have "?st[k := ss ! k] = take (Suc k) ss @ drop (Suc k) (map init_slot (d_fields d))"
      using Suc.prems len
      by (simp add: list_update_append take_Suc_conv_app_nth Cons_nth_drop_Suc [symmetric, of k "map init_slot (d_fields d)"]
          del: drop_map)
    ultimately show ?case using Suc by simp
  qed simp
  from this [of ?n] len have "fold (store d) (concat (map (\<lambda>i. slot_events i (d_fields d ! i) (ss ! i)) [0..<?n]))
      (map init_slot (d_fields d), []) = (ss, [])" by simp
  moreover have "fold (store d) (map Foreign us) (ss, us') = (ss, us' @ us)" for us'
    by (induction us arbitrary: us') simp_all
  ultimately show ?thesis by (simp add: msg_events_def)
qed

lemma msg_scans_as:
  assumes "desc_ok d" and "slots_ok mok (d_fields d) ss" and "list_all (unknown_ok d) us"
    and "length (fields_pack mpack (d_fields d) ss) < 2 ^ 32 - 5"
    and "\<And>m. m \<in> submsgs ss \<Longrightarrow> mok m \<Longrightarrow> length (mpack m) < 2 ^ 32 - 5 \<Longrightarrow> u (m_desc m) (mpack m) = Parsed m"
  shows "scans_as u d (fields_pack mpack (d_fields d) ss @ concat (map unknown_field_pack us)) (msg_events d ss us)"
proof -
  let ?n = "length (d_fields d)"
  have len: "length ss = ?n" and ok: "\<And>i. i < ?n \<Longrightarrow> slot_ok mok (d_fields d ! i) (ss ! i)"
    using assms(2) by (simp_all add: slots_ok_def list_all2_conv_all_nth)
  have fp: "fields_pack mpack (d_fields d) ss = concat (map (\<lambda>i. field_pack mpack (d_fields d ! i) (ss ! i)) [0..<?n])"
  proof -
    have "map (\<lambda>(f, s). field_pack mpack f s) (zip (d_fields d) ss) =
        map (\<lambda>i. field_pack mpack (d_fields d ! i) (ss ! i)) [0..<?n]"
      by (rule nth_equalityI) (simp_all add: len)
    then show ?thesis unfolding fields_pack_def by simp
  qed
  have "scans_as u d (field_pack mpack (d_fields d ! i) (ss ! i)) (slot_events i (d_fields d ! i) (ss ! i))"
    if i: "i \<in> set [0..<?n]" for i
  proof (rule field_scans_as [OF assms(1) _ ok])
    show "length (field_pack mpack (d_fields d ! i) (ss ! i)) < 2 ^ 32 - 5"
    proof -
      have "length (g i) \<le> length (concat (map g xs))" if "i \<in> set xs" for g :: "nat \<Rightarrow> byte list" and xs
        using that by (induction xs) auto
      from this [OF i, of "\<lambda>i. field_pack mpack (d_fields d ! i) (ss ! i)"] assms(4) fp show ?thesis by simp
    qed
    fix m
    assume "m \<in> ssubs (ss ! i)" "mok m" "length (mpack m) < 2 ^ 32 - 5"
    moreover have "ss ! i \<in> set ss" using i len by simp
    ultimately show "u (m_desc m) (mpack m) = Parsed m" using assms(5) by (auto simp: submsgs_def)
  qed (use i in simp_all)
  then have "scans_as u d (concat (map (\<lambda>i. field_pack mpack (d_fields d ! i) (ss ! i)) [0..<?n]))
      (concat (map (\<lambda>i. slot_events i (d_fields d ! i) (ss ! i)) [0..<?n]))"
    by (rule scans_as_concat)
  moreover have "scans_as u d (concat (map unknown_field_pack us)) (concat (map (\<lambda>k. [Foreign k]) us))"
    by (rule scans_as_concat) (use assms(1,3) in \<open>auto intro: scans_as_unknown simp: list_all_iff\<close>)
  moreover have "concat (map (\<lambda>k. [Foreign k]) us) = map Foreign us" by (induction us) simp_all
  ultimately show ?thesis unfolding msg_events_def fp by (simp add: scans_as_append)
qed

lemma nothing_missing:
  assumes "list_all2 (yields u d) sms (msg_events d ss us)"
  shows "\<not> missing_required d sms"
proof -
  have "Some i \<in> set (map sm_field sms)" if i: "i < length (d_fields d)" "fd_label (d_fields d ! i) = REQUIRED" for i
  proof -
    have "Seen i (slot_val (ss ! i)) \<in> set (msg_events d ss us)"
      using i by (force simp: msg_events_def slot_events_def)
    then obtain sm where "sm \<in> set sms" "yields u d sm (Seen i (slot_val (ss ! i)))"
      using assms by (metis in_set_conv_nth list_all2_conv_all_nth)
    then show ?thesis by force
  qed
  then show ?thesis by (auto simp: missing_required_def)
qed

lemma unpack_pack:
  assumes "msg_ok m" and "length (protobuf_c_message_pack m) < 2 ^ 32 - 5"
  shows "protobuf_c_message_unpack (m_desc m) (protobuf_c_message_pack m) = Parsed m"
  using assms
proof (induction m rule: msg_induct)
  case (1 d ss us)
  let ?u = protobuf_c_message_unpack and ?p = protobuf_c_message_pack
  have ok: "desc_ok d" "slots_ok msg_ok (d_fields d) ss" "list_all (unknown_ok d) us" using 1(2) by simp_all
  have "scans_as ?u d (?p (Msg d ss us)) (msg_events d ss us)"
    unfolding protobuf_c_message_pack.simps
    by (rule msg_scans_as [OF ok]) (use 1 in auto)
  moreover have "0 < length (d_fields d)" using ok(1) by (simp add: desc_ok_def)
  moreover have "scan_members d lf [] = Some []" for lf by (simp add: scan_members.simps)
  ultimately obtain sms where s: "list_all2 (yields ?u d) sms (msg_events d ss us)"
    "scan_members d 0 (?p (Msg d ss us)) = Some sms"
    unfolding scans_as_def by (metis append_Nil2)
  show ?case
    unfolding msg.sel
    by (subst protobuf_c_message_unpack.simps)
      (simp add: s(2) nothing_missing [OF s(1)] parse_members_yields [OF s(1)] Let_def
        protobuf_c_message_init_generic_def store_msg_events [OF ok(1,2)] del: protobuf_c_message_pack.simps)
qed

text \<open>The definitions that compute the packed size of a concrete message.\<close>

lemmas size_defs = packed_length fields_size_def field_size_def required_field_get_packed_size_def
  optional_field_get_packed_size_def repeated_field_get_packed_size_def value_size_def Let_def
  get_tag_size_def uint32_size_def uint64_size_def is_null_def cstr_def

section \<open>Properties\<close>

text \<open>C21: \<open>protobuf_c_message_get_packed_size\<close>, which computes without packing how much room a message
  needs, is exactly the number of bytes \<open>protobuf_c_message_pack\<close> writes, for every message with
  nested messages, absent members and unknown fields. So a caller that checks the size never
  overruns its buffer.\<close>

theorem packed_size_exact:
  "length (protobuf_c_message_pack m) = protobuf_c_message_get_packed_size m"
  by (rule packed_length)

text \<open>The binary search \<open>int_range_lookup\<close> over a well-formed range table finds exactly what a
  linear search over the field numbers finds: the field's index, or -1.\<close>

theorem int_range_lookup_linear:
  assumes "ranges_ok rs" and "snd (hd rs) = 0"
  shows "int_range_lookup rs v = linear_lookup (numbers rs) v 0"
  using assms by (rule range_lookup_linear)

theorem int_range_lookup_linear_witness:
  "int_range_lookup [(1, 0), (5, 3), (0, 5)] 6 = 4"
  using int_range_lookup_linear [of "[(1, 0), (5, 3), (0, 5)]" 6] by (simp add: upt_rec)

end
