(* ===== verification/PbSafe.thy ===== *)
theory PbSafe
  imports PbRound
begin

text \<open>
  What unpacking guarantees for every input: it never reads past its data, and a message it
  returns has the members its descriptor declares.
\<close>

section \<open>No overrun\<close>

text \<open>
  No input makes unpacking read past its data, although the length check of
  \<open>scan_length_prefixed_data\<close> wraps round: a length so large leaves bytes of its own
  prefix to be scanned next, and those have the unsupported wire type 7.
\<close>

lemma prefix_loop_value:
  assumes "prefix_loop left i data val = Some (j, val')" and "i + left \<le> length data"
  shows "i \<le> j \<and> j < i + left \<and> val' = val OR push_bit (7 * i) (of_nat (unvarint (take (Suc j - i) (drop i data))))"
  using assms
proof (induction left i data val rule: prefix_loop.induct)
  case (2 left i data val)
  let ?v = "val OR push_bit (7 * i) (ucast (data ! i AND 0x7F))"
  have d: "drop i data = data ! i # drop (Suc i) data" using 2(3) by (simp add: Cons_nth_drop_Suc)
  show ?case
  proof (cases "data ! i AND 0x80 = 0")
    case True
    with 2(2) have "j = i" "val' = ?v" by (auto simp: Let_def)
    then show ?thesis by (simp add: d unvarint_steps del: unvarint.simps(2))
  next
    case False
    with 2(2) have "prefix_loop left (i + 1) data ?v = Some (j, val')" by (simp add: Let_def)
    then have IH: "i + 1 \<le> j" "j < i + 1 + left"
      "val' = ?v OR push_bit (7 * (i + 1)) (of_nat (unvarint (take (Suc j - (i + 1)) (drop (i + 1) data))))"
      using 2(1) [OF refl False] 2(3) by simp_all
    have "Suc j - i = Suc (Suc j - (i + 1))" using IH(1) by simp
    then have "take (Suc j - i) (drop i data) = data ! i # take (Suc j - (i + 1)) (drop (i + 1) data)"
      by (simp add: d)
    then show ?thesis using IH by (simp add: unvarint_steps ac_simps del: unvarint.simps(2))
  qed
qed simp

lemma high_bits:
  assumes "unat (v :: u32) \<ge> 2 ^ 32 - 4" and "2 \<le> n" and "n < 32"
  shows "bit v n"
proof -
  have "uint (NOT v) = mask 32 - take_bit 32 (uint v)"
    by (simp add: unsigned_not_eq take_bit_not_eq_mask_diff)
  also have "take_bit 32 (uint v) = uint v"
    by (rule take_bit_int_eq_self) (use unsigned_less [of v] in simp_all)
  finally have "uint (NOT v) = 2 ^ 32 - 1 - uint v" by (simp add: mask_eq_exp_minus_1)
  moreover have "uint v \<ge> 2 ^ 32 - 4"
  proof -
    have "int (unat v) \<ge> int (2 ^ 32 - 4)" using assms(1) by (simp only: of_nat_le_iff)
    then show ?thesis by simp
  qed
  ultimately have "int (unat (NOT v)) < 4" by simp
  then have "unat (NOT v) < 4" by linarith
  then have "unat (take_bit 2 (NOT v)) = unat (NOT v)"
    unfolding unsigned_take_bit_eq by (simp add: take_bit_nat_eq_self)
  then have "take_bit 2 (NOT v) = NOT v" by (simp only: word_unat_eq_iff)
  then have "\<not> bit (NOT v) n" using assms(2) by (metis bit_take_bit_iff not_le)
  then show ?thesis using assms(3) by (simp add: bit_simps)
qed

lemma low_three:
  assumes "bit (b :: byte) 0" and "bit b 1" and "bit b 2"
  shows "b AND 7 = 7"
proof (rule bit_word_eqI)
  fix n
  have "bit (7 :: byte) n \<longleftrightarrow> n < 3"
  proof -
    have "(7 :: byte) = mask 3" by (simp add: mask_eq_exp_minus_1)
    then show ?thesis by (simp only: bit_mask_iff) auto
  qed
  moreover have "n < 3 \<Longrightarrow> n = 0 \<or> n = 1 \<or> n = 2" by auto
  ultimately show "bit (b AND 7) n = bit (7 :: byte) n" using assms by (auto simp: bit_and_iff)
qed

lemma wrapped_digits:
  assumes "unat (of_nat (unvarint [a, b, c, d, e]) :: u32) \<ge> 2 ^ 32 - 4"
  shows "b AND 7 = 7" and "c AND 7 = 7" and "d AND 7 = 7" and "e AND 7 = 7"
proof -
  have h: "bit (take_bit 7 (ucast a) OR (push_bit 7 (take_bit 7 (ucast b)) OR (push_bit 14 (take_bit 7 (ucast c)) OR
     (push_bit 21 (take_bit 7 (ucast d)) OR push_bit 28 (ucast e)))) :: u32) n" if "2 \<le> n" "n < 32" for n
    using high_bits [OF assms that] unfolding word_of_five .
  show "b AND 7 = 7" by (rule low_three) (use h [of 7] h [of 8] h [of 9] in \<open>simp_all add: bit_simps\<close>)
  show "c AND 7 = 7" by (rule low_three) (use h [of 14] h [of 15] h [of 16] in \<open>simp_all add: bit_simps\<close>)
  show "d AND 7 = 7" by (rule low_three) (use h [of 21] h [of 22] h [of 23] in \<open>simp_all add: bit_simps\<close>)
  show "e AND 7 = 7" by (rule low_three) (use h [of 28] h [of 29] h [of 30] in \<open>simp_all add: bit_simps\<close>)
qed

lemma prefixed_cases:
  assumes "scan_length_prefixed_data data = Some (tot, hdr)"
  shows "tot \<le> length data" and "tot < 2 ^ 32"
    and "hdr \<le> tot \<or> tot < length data \<and> data ! tot AND 7 = 7"
proof -
  let ?n = "if length data < 5 then length data else 5"
  obtain i val where l: "prefix_loop ?n 0 data 0 = Some (i, val)" "hdr = i + 1"
    "tot = unat (of_nat (i + 1) + val :: u32)" "tot \<le> length data" "tot \<noteq> 0"
    using assms by (auto simp: scan_length_prefixed_data_def Let_def split: option.splits if_splits)
  show "tot \<le> length data" by (rule l(4))
  show "tot < 2 ^ 32" using unsigned_less [of "of_nat (i + 1) + val :: u32"] unfolding l(3) by simp
  have v: "i < ?n" "val = of_nat (unvarint (take (i + 1) data))"
    using prefix_loop_value [OF l(1)] by auto
  show "hdr \<le> tot \<or> tot < length data \<and> data ! tot AND 7 = 7"
  proof (cases "i + 1 + unat val < 2 ^ 32")
    case True
    then have "tot = i + 1 + unat val" using v(1) unfolding l(3) by (simp add: unat_word_ariths unat_of_nat)
    then show ?thesis using l(2) by simp
  next
    case False
    have "unat (of_nat (unvarint (take (i + 1) data)) :: u32) \<le> unvarint (take (i + 1) data)"
      by (simp add: unat_of_nat)
    also have "... < 128 ^ length (take (i + 1) data)" by (rule unvarint_less)
    finally have val: "unat val < 128 ^ (i + 1)" using v by (simp split: if_splits)
    have "i = 4"
    proof (rule ccontr)
      assume "i \<noteq> 4"
      then have "i + 1 \<le> 4" using v(1) by (simp split: if_splits)
      then have "(128 :: nat) ^ (i + 1) \<le> 128 ^ 4" by (intro power_increasing) simp_all
      then show False using val False \<open>i + 1 \<le> 4\<close> by simp
    qed
    then have "5 \<le> length data" using v(1) by (simp split: if_splits)
    then obtain a b c d e r where data: "data = a # b # c # d # e # r"
      by (auto simp: Suc_le_length_iff eval_nat_numeral)
    have lt: "unat val < 2 ^ 32" using unsigned_less [of val] by simp
    have "tot = (5 + unat val) mod 2 ^ 32" using \<open>i = 4\<close> unfolding l(3) by (simp add: unat_word_ariths)
    also have "... = 5 + unat val - 2 ^ 32" using False lt \<open>i = 4\<close> by (simp add: mod_if)
    finally have t: "tot = 5 + unat val - 2 ^ 32" .
    then have "tot \<in> {1, 2, 3, 4}" and big: "unat val \<ge> 2 ^ 32 - 4" using lt l(5) by auto
    moreover have "val = of_nat (unvarint [a, b, c, d, e])" using v(2) data \<open>i = 4\<close> by simp
    ultimately show ?thesis using wrapped_digits [of a b c d e] data by auto
  qed
qed


text \<open>A member that was scanned: its length is in its data and covers its length prefix.\<close>

definition sound :: "scanned \<Rightarrow> bool" where
  "sound sm \<longleftrightarrow>
     (sm_wire_type sm = 2 \<longrightarrow> sm_length_prefix_len sm \<le> sm_len sm \<and> sm_len sm \<le> length (sm_data sm) \<and> sm_len sm < 2 ^ 32)"

lemma scan_stuck:
  assumes "data \<noteq> []" and "hd data AND 7 = 7"
  shows "scan_members d lf data = None"
proof (cases "parse_tag_and_wiretype data")
  case (Some r)
  then obtain used tag where "r = (used, tag, hd data AND 7)"
    using assms(1) by (auto simp: parse_tag_and_wiretype_def Let_def hd_conv_nth split: if_splits)
  then show ?thesis using Some assms
    by (subst scan_members.simps) (simp add: member_len_def wire_types Let_def)
qed (use assms in \<open>simp add: scan_members.simps\<close>)

lemma scan_sound: "scan_members d lf data = Some sms \<Longrightarrow> list_all sound sms"
proof (induction d lf data arbitrary: sms rule: scan_members.induct)
  case (1 d lf data)
  show ?case
  proof (cases "data = []")
    case True
    with 1(2) show ?thesis by (simp add: scan_members.simps)
  next
    case False
    obtain used tag wt where t: "parse_tag_and_wiretype data = Some (used, tag, wt)"
      using 1(2) False by (subst (asm) scan_members.simps) (auto split: option.splits)
    let ?data = "tl (drop (used - 1) data)"
    obtain len pref where m: "member_len wt ?data = Some (len, pref)"
      using 1(2) False t by (subst (asm) scan_members.simps) (auto simp: Let_def split: option.splits)
    let ?lf = "case lookup_field d lf tag of None \<Rightarrow> lf | Some i \<Rightarrow> i"
    obtain rest where r: "scan_members d ?lf (drop len ?data) = Some rest"
      "sms = \<lparr>sm_tag = tag, sm_wire_type = wt, sm_length_prefix_len = pref,
        sm_field = lookup_field d lf tag, sm_len = len, sm_data = ?data\<rparr> # rest"
      using 1(2) False t m by (subst (asm) scan_members.simps) (auto simp: Let_def)
    have "list_all sound rest" using 1(1) [OF False t refl refl refl refl m refl r(1)] by simp
    moreover have "pref \<le> len \<and> len \<le> length ?data \<and> len < 2 ^ 32" if "wt = 2"
    proof -
      have p: "scan_length_prefixed_data ?data = Some (len, pref)"
        using m that by (simp add: member_len_def wire_types)
      have "pref \<le> len"
      proof (rule ccontr)
        assume "\<not> pref \<le> len"
        then have "len < length ?data" "?data ! len AND 7 = 7" using prefixed_cases(3) [OF p] by auto
        then have "drop len ?data \<noteq> []" "hd (drop len ?data) AND 7 = 7" by (simp_all add: hd_drop_conv_nth)
        then show False using scan_stuck r(1) by simp
      qed
      then show ?thesis using prefixed_cases(1,2) [OF p] by simp
    qed
    ultimately show ?thesis by (simp add: r(2)) (simp add: sound_def)
  qed
qed

lemma member_bytes_sound:
  assumes "sound sm" and "sm_wire_type sm = 2"
  shows "member_bytes sm \<noteq> Overrun"
proof -
  have s: "sm_length_prefix_len sm \<le> sm_len sm" "sm_len sm \<le> length (sm_data sm)" "sm_len sm < 2 ^ 32"
    using assms by (auto simp: sound_def)
  have "unat (of_nat (sm_len sm) - of_nat (sm_length_prefix_len sm) :: u32) =
      unat (of_nat (sm_len sm - sm_length_prefix_len sm) :: u32)" using s(1) by (simp add: of_nat_diff)
  also have "... \<le> sm_len sm - sm_length_prefix_len sm" by (simp add: unat_of_nat)
  finally show ?thesis using s by (simp add: member_bytes_def Let_def)
qed

lemma and_then_Overrun: "and_then p f = Overrun \<longleftrightarrow> p = Overrun \<or> (\<exists>x. p = Parsed x \<and> f x = Overrun)"
  by (cases p) auto

lemma required_no_overrun:
  assumes "sound sm" and "\<And>e bs. fd_type f = T_MESSAGE e \<Longrightarrow> u e bs \<noteq> Overrun"
  shows "parse_required_member u f sm \<noteq> Overrun"
  using assms member_bytes_sound [OF assms(1)]
  by (cases "fd_type f")
    (auto simp: parse_required_member_def needs_def Let_def wire_types and_then_Overrun)

lemma members_no_overrun:
  assumes "list_all sound sms" and "\<And>e bs. e \<in> subdescs d \<Longrightarrow> u e bs \<noteq> Overrun"
  shows "parse_members u d sms state \<noteq> Overrun"
  using assms(1)
proof (induction sms arbitrary: state)
  case (Cons sm sms)
  have "parse_required_member u (d_fields d ! i) sm \<noteq> Overrun" if "i < length (d_fields d)" for i
    using Cons.prems that assms(2) by (intro required_no_overrun) (auto simp: subdescs_def intro: nth_mem)
  then have "parse_member u d sm state \<noteq> Overrun"
    by (cases state; cases "sm_field sm")
      (auto simp: parse_member_def parse_optional_member_def parse_repeated_member_def Let_def and_then_Overrun
        split: label.splits if_splits)
  with Cons show ?case by (auto simp: and_then_Overrun)
qed simp

lemma unpack_no_overrun: "protobuf_c_message_unpack d data \<noteq> Overrun"
proof (induction d data rule: protobuf_c_message_unpack.induct)
  case (1 d data)
  show ?case
  proof (cases "scan_members d 0 data")
    case (Some sms)
    have "parse_members protobuf_c_message_unpack d sms
        (m_slots (protobuf_c_message_init_generic d), m_unknown (protobuf_c_message_init_generic d)) \<noteq> Overrun"
      if "\<not> missing_required d sms"
      by (rule members_no_overrun [OF scan_sound [OF Some]]) (use 1 Some that in auto)
    with Some show ?thesis
      by (subst protobuf_c_message_unpack.simps) (auto simp: Let_def and_then_Overrun)
  qed (simp add: protobuf_c_message_unpack.simps)
qed

section \<open>Types\<close>

text \<open>
  A value of a type: the constructor the type calls for, a string or sub-message present.
  Unlike \<open>value_ok\<close> it says nothing of the bytes.
\<close>

definition value_typed :: "(msg \<Rightarrow> bool) \<Rightarrow> ctype \<Rightarrow> mval \<Rightarrow> bool" where
  "value_typed mt t v =
     (case t of
        T_STRING \<Rightarrow> (case v of VStr (Some s) \<Rightarrow> True | _ \<Rightarrow> False)
      | T_BYTES \<Rightarrow> (case v of VBytes bs \<Rightarrow> True | _ \<Rightarrow> False)
      | T_BOOL \<Rightarrow> (case v of VBool b \<Rightarrow> True | _ \<Rightarrow> False)
      | T_MESSAGE d \<Rightarrow> (case v of VMsg (Some m) \<Rightarrow> m_desc m = d \<and> mt m | _ \<Rightarrow> False)
      | _ \<Rightarrow> (case zero_val t of
                V64 z \<Rightarrow> (case v of V64 w \<Rightarrow> True | _ \<Rightarrow> False)
              | _ \<Rightarrow> (case v of V32 w \<Rightarrow> True | _ \<Rightarrow> False)))"

definition slot_typed :: "(msg \<Rightarrow> bool) \<Rightarrow> field \<Rightarrow> slot \<Rightarrow> bool" where
  "slot_typed mt f s =
     (case fd_label f of
        REQUIRED \<Rightarrow> (case s of One v \<Rightarrow> value_typed mt (fd_type f) v | _ \<Rightarrow> False)
      | OPTIONAL \<Rightarrow>
          if fd_quantified f
          then (case s of Opt h v \<Rightarrow> value_typed mt (fd_type f) v | _ \<Rightarrow> False)
          else (case s of One v \<Rightarrow> v = init_val f \<or> value_typed mt (fd_type f) v | _ \<Rightarrow> False)
      | REPEATED \<Rightarrow> (case s of Rep vs \<Rightarrow> list_all (value_typed mt (fd_type f)) vs | _ \<Rightarrow> False))"

definition slots_typed :: "(msg \<Rightarrow> bool) \<Rightarrow> field list \<Rightarrow> slot list \<Rightarrow> bool" where
  "slots_typed mt fs ss \<longleftrightarrow> list_all2 (slot_typed mt) fs ss"

lemma value_typed_cong:
  assumes "\<And>m. m \<in> vsubs v \<Longrightarrow> p m = q m"
  shows "value_typed p t v = value_typed q t v"
  using assms by (auto simp: value_typed_def vsubs_def split: ctype.split mval.split option.split)

lemma slot_typed_cong:
  assumes "\<And>m. m \<in> ssubs s \<Longrightarrow> p m = q m"
  shows "slot_typed p f s = slot_typed q f s"
proof -
  have "value_typed p (fd_type f) v = value_typed q (fd_type f) v" if "v = slot_val s \<or> v \<in> set (slot_vals s)" for v
    using that assms by (intro value_typed_cong) (auto simp: ssubs_def)
  then show ?thesis by (cases s) (auto simp: slot_typed_def list_all_iff split: label.split)
qed

lemma slots_typed_cong [fundef_cong]:
  assumes "fs = fs'" and "ss = ss'" and "\<And>m. m \<in> submsgs ss' \<Longrightarrow> p m = q m"
  shows "slots_typed p fs ss = slots_typed q fs' ss'"
proof -
  have "slot_typed p f s = slot_typed q f s" if "s \<in> set ss'" for f s
    using that assms(3) by (intro slot_typed_cong) (auto simp: submsgs_def)
  then show ?thesis using assms(1,2) unfolding slots_typed_def
    by (auto simp: list_all2_conv_all_nth)
qed

function msg_typed :: "msg \<Rightarrow> bool" where
  "msg_typed (Msg d ss us) \<longleftrightarrow> slots_typed msg_typed (d_fields d) ss"
  by pat_completeness auto
termination
  by (relation "measure size") (auto dest: submsgs_size)

text \<open>Descriptors whose default values have the type of their field, down to the nested ones.\<close>

definition field_typed :: "field \<Rightarrow> bool" where
  "field_typed f \<longleftrightarrow>
     field_ok f \<and> (case fd_default f of None \<Rightarrow> True | Some dv \<Rightarrow> value_typed (\<lambda>_. True) (fd_type f) (dval_val dv))"

definition subdesc_list :: "desc \<Rightarrow> desc list" where
  "subdesc_list d = concat (map (\<lambda>f. case fd_type f of T_MESSAGE e \<Rightarrow> [e] | _ \<Rightarrow> []) (d_fields d))"

lemma set_subdesc_list [simp]: "set (subdesc_list d) = subdescs d"
  by (auto simp: subdesc_list_def subdescs_def split: ctype.splits)

function desc_typed :: "desc \<Rightarrow> bool" where
  "desc_typed d \<longleftrightarrow> list_all field_typed (d_fields d) \<and> list_all desc_typed (subdesc_list d)"
  by auto
termination
  by (relation "measure size") (auto dest: subdescs_size)

declare desc_typed.simps [simp del]

lemma init_typed:
  assumes "field_typed f" and "\<not> pointer_type (fd_type f)"
  shows "value_typed mt (fd_type f) (init_val f)"
proof -
  have "value_typed mt (fd_type f) (zero_val (fd_type f))" using assms(2)
    by (cases "fd_type f") (simp_all add: value_typed_def)
  moreover have "value_typed mt (fd_type f) (dval_val dv)" if "fd_default f = Some dv" for dv
    using assms that by (cases "fd_type f"; cases dv) (auto simp: field_typed_def value_typed_def)
  ultimately show ?thesis by (auto simp: init_val_def split: option.split)
qed

lemma parse_value_typed:
  assumes "parse_required_member u f sm = Parsed v"
    and "\<And>e bs m. fd_type f = T_MESSAGE e \<Longrightarrow> u e bs = Parsed m \<Longrightarrow> m_desc m = e \<and> mt m"
  shows "value_typed mt (fd_type f) v"
proof -
  have needs: "needs w sm p = Parsed x \<Longrightarrow> p = Parsed x" for w x and p :: "mval parsed"
    by (simp add: needs_def split: if_splits)
  have bindE: "and_then p g = Parsed y \<Longrightarrow> \<exists>x. p = Parsed x \<and> g x = Parsed y" for p :: "'x parsed" and g and y :: mval
    by (cases p) auto
  show ?thesis using assms
    by (cases "fd_type f") (auto simp: parse_required_member_def Let_def value_typed_def dest!: needs bindE)
qed

text \<open>While the members are parsed, a member is of its type unless it is required and still to come.\<close>

definition building :: "(msg \<Rightarrow> bool) \<Rightarrow> desc \<Rightarrow> nat option set \<Rightarrow> slot list \<Rightarrow> bool" where
  "building mt d S ss \<longleftrightarrow>
     length ss = length (d_fields d) \<and>
     (\<forall>i < length ss. slot_typed mt (d_fields d ! i) (ss ! i) \<or>
        (fd_label (d_fields d ! i) = REQUIRED \<and> fd_default (d_fields d ! i) = None \<and> Some i \<notin> S))"

lemma building_init:
  assumes "list_all field_typed (d_fields d)"
  shows "building mt d {} (map init_slot (d_fields d))"
  unfolding building_def
proof (intro conjI allI impI)
  fix i
  assume "i < length (map init_slot (d_fields d))"
  then have i: "i < length (d_fields d)" by simp
  let ?f = "d_fields d ! i"
  have f: "field_typed ?f" using assms i by (simp add: list_all_length)
  then have fo: "field_ok ?f" by (simp add: field_typed_def)
  show "slot_typed mt ?f (map init_slot (d_fields d) ! i) \<or>
      (fd_label ?f = REQUIRED \<and> fd_default ?f = None \<and> Some i \<notin> {})"
  proof (cases "pointer_type (fd_type ?f)")
    case True
    with fo i show ?thesis
      by (cases "fd_label ?f") (auto simp: slot_typed_def init_slot_def field_ok_def)
  next
    case False
    with init_typed [OF f False, of mt] fo i show ?thesis
      by (cases "fd_label ?f") (auto simp: slot_typed_def init_slot_def field_ok_def)
  qed
qed simp

lemma and_then_Parsed: "and_then p f = Parsed y \<longleftrightarrow> (\<exists>x. p = Parsed x \<and> f x = Parsed y)"
  by (cases p) auto

lemma building_step:
  assumes "building mt d S ss" and "parse_member u d sm (ss, us) = Parsed (ss', us')"
    and "\<And>e bs m. e \<in> subdescs d \<Longrightarrow> u e bs = Parsed m \<Longrightarrow> m_desc m = e \<and> mt m"
  shows "building mt d (insert (sm_field sm) S) ss'"
proof (cases "sm_field sm")
  case None
  with assms(1,2) show ?thesis by (auto simp: parse_member_def building_def)
next
  case (Some i)
  let ?f = "d_fields d ! i"
  from assms(2) Some obtain s where i: "i < length (d_fields d)" and ss': "ss' = ss[i := s]"
    and s: "(case fd_label ?f of
                 REQUIRED \<Rightarrow> and_then (parse_required_member u ?f sm) (\<lambda>v. Parsed (One v))
               | OPTIONAL \<Rightarrow> parse_optional_member u ?f sm
               | REPEATED \<Rightarrow> parse_repeated_member u ?f sm (ss ! i)) = Parsed s"
    by (auto simp: parse_member_def Let_def and_then_Parsed split: if_splits)
  have val: "value_typed mt (fd_type ?f) v" if "parse_required_member u ?f sm = Parsed v" for v
  proof (rule parse_value_typed [OF that])
    fix e bs m
    assume "fd_type ?f = T_MESSAGE e" "u e bs = Parsed m"
    moreover have "e \<in> subdescs d" using i calculation(1) by (auto simp: subdescs_def intro: nth_mem)
    ultimately show "m_desc m = e \<and> mt m" using assms(3) by blast
  qed
  have old: "slot_typed mt ?f (ss ! i)" if "fd_label ?f = REPEATED"
    using assms(1) i that by (auto simp: building_def)
  have "slot_typed mt ?f s"
  proof (cases "fd_label ?f")
    case REQUIRED
    with s val show ?thesis by (auto simp: slot_typed_def and_then_Parsed)
  next
    case OPTIONAL
    with s val show ?thesis by (auto simp: slot_typed_def parse_optional_member_def and_then_Parsed)
  next
    case REPEATED
    with s val old show ?thesis
      by (auto simp: slot_typed_def parse_repeated_member_def and_then_Parsed split: slot.splits)
  qed
  with assms(1) i show ?thesis unfolding building_def ss' Some by (auto simp: nth_list_update)
qed

lemma building_members:
  assumes "building mt d S ss" and "parse_members u d sms (ss, us) = Parsed (ss', us')"
    and "\<And>e bs m. e \<in> subdescs d \<Longrightarrow> u e bs = Parsed m \<Longrightarrow> m_desc m = e \<and> mt m"
  shows "building mt d (S \<union> sm_field ` set sms) ss'"
  using assms(1,2)
proof (induction sms arbitrary: S ss us)
  case (Cons sm sms)
  then obtain ss1 us1 where "parse_member u d sm (ss, us) = Parsed (ss1, us1)"
    "parse_members u d sms (ss1, us1) = Parsed (ss', us')" by (auto simp: and_then_Parsed)
  with Cons.IH [of "insert (sm_field sm) S" ss1 us1] building_step [OF Cons.prems(1) _ assms(3)]
  show ?case by simp
qed simp

lemma unpack_typed:
  "desc_typed d \<Longrightarrow> protobuf_c_message_unpack d data = Parsed m \<Longrightarrow> m_desc m = d \<and> msg_typed m"
proof (induction d data arbitrary: m rule: protobuf_c_message_unpack.induct)
  case (1 d data)
  have d: "list_all field_typed (d_fields d)" "\<And>e. e \<in> subdescs d \<Longrightarrow> desc_typed e"
    using 1(2) by (simp_all add: desc_typed.simps [of d] list_all_iff)
  obtain sms ss us where s: "scan_members d 0 data = Some sms" "\<not> missing_required d sms"
    "parse_members protobuf_c_message_unpack d sms (map init_slot (d_fields d), []) = Parsed (ss, us)"
    "m = Msg d ss us"
    using 1(3) by (subst (asm) protobuf_c_message_unpack.simps)
      (auto simp: Let_def protobuf_c_message_init_generic_def and_then_Parsed split: option.splits if_splits)
  have IH: "m_desc m' = e \<and> msg_typed m'" if "e \<in> subdescs d" "protobuf_c_message_unpack e bs = Parsed m'" for e bs m'
    using 1(1) [OF s(1,2) refl, of e bs m'] that d(2) by blast
  have "building msg_typed d ({} \<union> sm_field ` set sms) ss"
    by (rule building_members [OF building_init [OF d(1)] s(3) IH])
  moreover have "Some i \<in> sm_field ` set sms"
    if "i < length (d_fields d)" "fd_label (d_fields d ! i) = REQUIRED" "fd_default (d_fields d ! i) = None" for i
    using s(2) that by (force simp: missing_required_def)
  ultimately show ?case
    by (auto simp: s(4) slots_typed_def list_all2_conv_all_nth building_def)
qed

section \<open>Properties\<close>


end
