(* ===== verification/PbDesc.thy ===== *)
theory PbDesc
  imports PbSafe
begin

text \<open>
  The message descriptors of src/src/Mumble.pb-c.c, one for each message of the Mumble
  protocol: the table of its fields, the table of the ranges of field numbers, and the descriptor
  itself. A field has its name, number, label, type, whether it has a \<open>has_\<close> flag or a counter
  (\<open>quantifier_offset\<close>), and its default value. Every descriptor is well formed.
\<close>

section \<open>The tables\<close>

definition mumble_proto__version__field_descriptors :: "field list" where
  "mumble_proto__version__field_descriptors =
     [Field ''version'' 1 OPTIONAL T_UINT32 True None,
      Field ''release'' 2 OPTIONAL T_STRING False None,
      Field ''os'' 3 OPTIONAL T_STRING False None,
      Field ''os_version'' 4 OPTIONAL T_STRING False None]"

definition mumble_proto__version__number_ranges :: "(int \<times> nat) list" where
  "mumble_proto__version__number_ranges = [(1, 0), (0, 4)]"

definition mumble_proto__version__descriptor :: desc where
  "mumble_proto__version__descriptor =
     Desc mumble_proto__version__field_descriptors mumble_proto__version__number_ranges"

definition mumble_proto__udptunnel__field_descriptors :: "field list" where
  "mumble_proto__udptunnel__field_descriptors =
     [Field ''packet'' 1 REQUIRED T_BYTES False None]"

definition mumble_proto__udptunnel__number_ranges :: "(int \<times> nat) list" where
  "mumble_proto__udptunnel__number_ranges = [(1, 0), (0, 1)]"

definition mumble_proto__udptunnel__descriptor :: desc where
  "mumble_proto__udptunnel__descriptor =
     Desc mumble_proto__udptunnel__field_descriptors mumble_proto__udptunnel__number_ranges"

definition mumble_proto__authenticate__field_descriptors :: "field list" where
  "mumble_proto__authenticate__field_descriptors =
     [Field ''username'' 1 OPTIONAL T_STRING False None,
      Field ''password'' 2 OPTIONAL T_STRING False None,
      Field ''tokens'' 3 REPEATED T_STRING True None,
      Field ''celt_versions'' 4 REPEATED T_INT32 True None]"

definition mumble_proto__authenticate__number_ranges :: "(int \<times> nat) list" where
  "mumble_proto__authenticate__number_ranges = [(1, 0), (0, 4)]"

definition mumble_proto__authenticate__descriptor :: desc where
  "mumble_proto__authenticate__descriptor =
     Desc mumble_proto__authenticate__field_descriptors mumble_proto__authenticate__number_ranges"

definition mumble_proto__ping__field_descriptors :: "field list" where
  "mumble_proto__ping__field_descriptors =
     [Field ''timestamp'' 1 OPTIONAL T_UINT64 True None,
      Field ''good'' 2 OPTIONAL T_UINT32 True None,
      Field ''late'' 3 OPTIONAL T_UINT32 True None,
      Field ''lost'' 4 OPTIONAL T_UINT32 True None,
      Field ''resync'' 5 OPTIONAL T_UINT32 True None,
      Field ''udp_packets'' 6 OPTIONAL T_UINT32 True None,
      Field ''tcp_packets'' 7 OPTIONAL T_UINT32 True None,
      Field ''udp_ping_avg'' 8 OPTIONAL T_FLOAT True None,
      Field ''udp_ping_var'' 9 OPTIONAL T_FLOAT True None,
      Field ''tcp_ping_avg'' 10 OPTIONAL T_FLOAT True None,
      Field ''tcp_ping_var'' 11 OPTIONAL T_FLOAT True None]"

definition mumble_proto__ping__number_ranges :: "(int \<times> nat) list" where
  "mumble_proto__ping__number_ranges = [(1, 0), (0, 11)]"

definition mumble_proto__ping__descriptor :: desc where
  "mumble_proto__ping__descriptor =
     Desc mumble_proto__ping__field_descriptors mumble_proto__ping__number_ranges"

definition mumble_proto__reject__field_descriptors :: "field list" where
  "mumble_proto__reject__field_descriptors =
     [Field ''type'' 1 OPTIONAL T_ENUM True None,
      Field ''reason'' 2 OPTIONAL T_STRING False None]"

definition mumble_proto__reject__number_ranges :: "(int \<times> nat) list" where
  "mumble_proto__reject__number_ranges = [(1, 0), (0, 2)]"

definition mumble_proto__reject__descriptor :: desc where
  "mumble_proto__reject__descriptor =
     Desc mumble_proto__reject__field_descriptors mumble_proto__reject__number_ranges"

definition mumble_proto__server_config__field_descriptors :: "field list" where
  "mumble_proto__server_config__field_descriptors =
     [Field ''max_bandwidth'' 1 OPTIONAL T_UINT32 True None,
      Field ''welcome_text'' 2 OPTIONAL T_STRING False None,
      Field ''allow_html'' 3 OPTIONAL T_BOOL True None,
      Field ''message_length'' 4 OPTIONAL T_UINT32 True None,
      Field ''image_message_length'' 5 OPTIONAL T_UINT32 True None]"

definition mumble_proto__server_config__number_ranges :: "(int \<times> nat) list" where
  "mumble_proto__server_config__number_ranges = [(1, 0), (0, 5)]"

definition mumble_proto__server_config__descriptor :: desc where
  "mumble_proto__server_config__descriptor =
     Desc mumble_proto__server_config__field_descriptors
       mumble_proto__server_config__number_ranges"

definition mumble_proto__server_sync__field_descriptors :: "field list" where
  "mumble_proto__server_sync__field_descriptors =
     [Field ''session'' 1 OPTIONAL T_UINT32 True None,
      Field ''max_bandwidth'' 2 OPTIONAL T_UINT32 True None,
      Field ''welcome_text'' 3 OPTIONAL T_STRING False None,
      Field ''permissions'' 4 OPTIONAL T_UINT64 True None]"

definition mumble_proto__server_sync__number_ranges :: "(int \<times> nat) list" where
  "mumble_proto__server_sync__number_ranges = [(1, 0), (0, 4)]"

definition mumble_proto__server_sync__descriptor :: desc where
  "mumble_proto__server_sync__descriptor =
     Desc mumble_proto__server_sync__field_descriptors mumble_proto__server_sync__number_ranges"

definition mumble_proto__channel_remove__field_descriptors :: "field list" where
  "mumble_proto__channel_remove__field_descriptors =
     [Field ''channel_id'' 1 REQUIRED T_UINT32 False None]"

definition mumble_proto__channel_remove__number_ranges :: "(int \<times> nat) list" where
  "mumble_proto__channel_remove__number_ranges = [(1, 0), (0, 1)]"

definition mumble_proto__channel_remove__descriptor :: desc where
  "mumble_proto__channel_remove__descriptor =
     Desc mumble_proto__channel_remove__field_descriptors
       mumble_proto__channel_remove__number_ranges"

definition mumble_proto__channel_state__field_descriptors :: "field list" where
  "mumble_proto__channel_state__field_descriptors =
     [Field ''channel_id'' 1 OPTIONAL T_UINT32 True None,
      Field ''parent'' 2 OPTIONAL T_UINT32 True None,
      Field ''name'' 3 OPTIONAL T_STRING False None,
      Field ''links'' 4 REPEATED T_UINT32 True None,
      Field ''description'' 5 OPTIONAL T_STRING False None,
      Field ''links_add'' 6 REPEATED T_UINT32 True None,
      Field ''links_remove'' 7 REPEATED T_UINT32 True None,
      Field ''temporary'' 8 OPTIONAL T_BOOL True (Some (DBool False)),
      Field ''position'' 9 OPTIONAL T_INT32 True (Some (D32 0)),
      Field ''description_hash'' 10 OPTIONAL T_BYTES True None]"

definition mumble_proto__channel_state__number_ranges :: "(int \<times> nat) list" where
  "mumble_proto__channel_state__number_ranges = [(1, 0), (0, 10)]"

definition mumble_proto__channel_state__descriptor :: desc where
  "mumble_proto__channel_state__descriptor =
     Desc mumble_proto__channel_state__field_descriptors
       mumble_proto__channel_state__number_ranges"

definition mumble_proto__user_remove__field_descriptors :: "field list" where
  "mumble_proto__user_remove__field_descriptors =
     [Field ''session'' 1 REQUIRED T_UINT32 False None,
      Field ''actor'' 2 OPTIONAL T_UINT32 True None,
      Field ''reason'' 3 OPTIONAL T_STRING False None,
      Field ''ban'' 4 OPTIONAL T_BOOL True None]"

definition mumble_proto__user_remove__number_ranges :: "(int \<times> nat) list" where
  "mumble_proto__user_remove__number_ranges = [(1, 0), (0, 4)]"

definition mumble_proto__user_remove__descriptor :: desc where
  "mumble_proto__user_remove__descriptor =
     Desc mumble_proto__user_remove__field_descriptors mumble_proto__user_remove__number_ranges"

definition mumble_proto__user_state__field_descriptors :: "field list" where
  "mumble_proto__user_state__field_descriptors =
     [Field ''session'' 1 OPTIONAL T_UINT32 True None,
      Field ''actor'' 2 OPTIONAL T_UINT32 True None,
      Field ''name'' 3 OPTIONAL T_STRING False None,
      Field ''user_id'' 4 OPTIONAL T_UINT32 True None,
      Field ''channel_id'' 5 OPTIONAL T_UINT32 True None,
      Field ''mute'' 6 OPTIONAL T_BOOL True None,
      Field ''deaf'' 7 OPTIONAL T_BOOL True None,
      Field ''suppress'' 8 OPTIONAL T_BOOL True None,
      Field ''self_mute'' 9 OPTIONAL T_BOOL True None,
      Field ''self_deaf'' 10 OPTIONAL T_BOOL True None,
      Field ''texture'' 11 OPTIONAL T_BYTES True None,
      Field ''plugin_context'' 12 OPTIONAL T_BYTES True None,
      Field ''plugin_identity'' 13 OPTIONAL T_STRING False None,
      Field ''comment'' 14 OPTIONAL T_STRING False None,
      Field ''hash'' 15 OPTIONAL T_STRING False None,
      Field ''comment_hash'' 16 OPTIONAL T_BYTES True None,
      Field ''texture_hash'' 17 OPTIONAL T_BYTES True None,
      Field ''priority_speaker'' 18 OPTIONAL T_BOOL True None,
      Field ''recording'' 19 OPTIONAL T_BOOL True None]"

definition mumble_proto__user_state__number_ranges :: "(int \<times> nat) list" where
  "mumble_proto__user_state__number_ranges = [(1, 0), (0, 19)]"

definition mumble_proto__user_state__descriptor :: desc where
  "mumble_proto__user_state__descriptor =
     Desc mumble_proto__user_state__field_descriptors mumble_proto__user_state__number_ranges"

definition mumble_proto__ban_list__ban_entry__field_descriptors :: "field list" where
  "mumble_proto__ban_list__ban_entry__field_descriptors =
     [Field ''address'' 1 REQUIRED T_BYTES False None,
      Field ''mask'' 2 REQUIRED T_UINT32 False None,
      Field ''name'' 3 OPTIONAL T_STRING False None,
      Field ''hash'' 4 OPTIONAL T_STRING False None,
      Field ''reason'' 5 OPTIONAL T_STRING False None,
      Field ''start'' 6 OPTIONAL T_STRING False None,
      Field ''duration'' 7 OPTIONAL T_UINT32 True None]"

definition mumble_proto__ban_list__ban_entry__number_ranges :: "(int \<times> nat) list" where
  "mumble_proto__ban_list__ban_entry__number_ranges = [(1, 0), (0, 7)]"

definition mumble_proto__ban_list__ban_entry__descriptor :: desc where
  "mumble_proto__ban_list__ban_entry__descriptor =
     Desc mumble_proto__ban_list__ban_entry__field_descriptors
       mumble_proto__ban_list__ban_entry__number_ranges"

definition mumble_proto__ban_list__field_descriptors :: "field list" where
  "mumble_proto__ban_list__field_descriptors =
     [Field ''bans'' 1 REPEATED (T_MESSAGE mumble_proto__ban_list__ban_entry__descriptor) True None,
      Field ''query'' 2 OPTIONAL T_BOOL True (Some (DBool False))]"

definition mumble_proto__ban_list__number_ranges :: "(int \<times> nat) list" where
  "mumble_proto__ban_list__number_ranges = [(1, 0), (0, 2)]"

definition mumble_proto__ban_list__descriptor :: desc where
  "mumble_proto__ban_list__descriptor =
     Desc mumble_proto__ban_list__field_descriptors mumble_proto__ban_list__number_ranges"

definition mumble_proto__text_message__field_descriptors :: "field list" where
  "mumble_proto__text_message__field_descriptors =
     [Field ''actor'' 1 OPTIONAL T_UINT32 True None,
      Field ''session'' 2 REPEATED T_UINT32 True None,
      Field ''channel_id'' 3 REPEATED T_UINT32 True None,
      Field ''tree_id'' 4 REPEATED T_UINT32 True None,
      Field ''message'' 5 REQUIRED T_STRING False None]"

definition mumble_proto__text_message__number_ranges :: "(int \<times> nat) list" where
  "mumble_proto__text_message__number_ranges = [(1, 0), (0, 5)]"

definition mumble_proto__text_message__descriptor :: desc where
  "mumble_proto__text_message__descriptor =
     Desc mumble_proto__text_message__field_descriptors mumble_proto__text_message__number_ranges"

definition mumble_proto__permission_denied__field_descriptors :: "field list" where
  "mumble_proto__permission_denied__field_descriptors =
     [Field ''permission'' 1 OPTIONAL T_UINT32 True None,
      Field ''channel_id'' 2 OPTIONAL T_UINT32 True None,
      Field ''session'' 3 OPTIONAL T_UINT32 True None,
      Field ''reason'' 4 OPTIONAL T_STRING False None,
      Field ''type'' 5 OPTIONAL T_ENUM True None,
      Field ''name'' 6 OPTIONAL T_STRING False None]"

definition mumble_proto__permission_denied__number_ranges :: "(int \<times> nat) list" where
  "mumble_proto__permission_denied__number_ranges = [(1, 0), (0, 6)]"

definition mumble_proto__permission_denied__descriptor :: desc where
  "mumble_proto__permission_denied__descriptor =
     Desc mumble_proto__permission_denied__field_descriptors
       mumble_proto__permission_denied__number_ranges"

definition mumble_proto__acl__chan_group__field_descriptors :: "field list" where
  "mumble_proto__acl__chan_group__field_descriptors =
     [Field ''name'' 1 REQUIRED T_STRING False None,
      Field ''inherited'' 2 OPTIONAL T_BOOL True (Some (DBool True)),
      Field ''inherit'' 3 OPTIONAL T_BOOL True (Some (DBool True)),
      Field ''inheritable'' 4 OPTIONAL T_BOOL True (Some (DBool True)),
      Field ''add'' 5 REPEATED T_UINT32 True None,
      Field ''remove'' 6 REPEATED T_UINT32 True None,
      Field ''inherited_members'' 7 REPEATED T_UINT32 True None]"

definition mumble_proto__acl__chan_group__number_ranges :: "(int \<times> nat) list" where
  "mumble_proto__acl__chan_group__number_ranges = [(1, 0), (0, 7)]"

definition mumble_proto__acl__chan_group__descriptor :: desc where
  "mumble_proto__acl__chan_group__descriptor =
     Desc mumble_proto__acl__chan_group__field_descriptors
       mumble_proto__acl__chan_group__number_ranges"

definition mumble_proto__acl__chan_acl__field_descriptors :: "field list" where
  "mumble_proto__acl__chan_acl__field_descriptors =
     [Field ''apply_here'' 1 OPTIONAL T_BOOL True (Some (DBool True)),
      Field ''apply_subs'' 2 OPTIONAL T_BOOL True (Some (DBool True)),
      Field ''inherited'' 3 OPTIONAL T_BOOL True (Some (DBool True)),
      Field ''user_id'' 4 OPTIONAL T_UINT32 True None,
      Field ''group'' 5 OPTIONAL T_STRING False None,
      Field ''grant'' 6 OPTIONAL T_UINT32 True None,
      Field ''deny'' 7 OPTIONAL T_UINT32 True None]"

definition mumble_proto__acl__chan_acl__number_ranges :: "(int \<times> nat) list" where
  "mumble_proto__acl__chan_acl__number_ranges = [(1, 0), (0, 7)]"

definition mumble_proto__acl__chan_acl__descriptor :: desc where
  "mumble_proto__acl__chan_acl__descriptor =
     Desc mumble_proto__acl__chan_acl__field_descriptors
       mumble_proto__acl__chan_acl__number_ranges"

definition mumble_proto__acl__field_descriptors :: "field list" where
  "mumble_proto__acl__field_descriptors =
     [Field ''channel_id'' 1 REQUIRED T_UINT32 False None,
      Field ''inherit_acls'' 2 OPTIONAL T_BOOL True (Some (DBool True)),
      Field ''groups'' 3 REPEATED (T_MESSAGE mumble_proto__acl__chan_group__descriptor) True None,
      Field ''acls'' 4 REPEATED (T_MESSAGE mumble_proto__acl__chan_acl__descriptor) True None,
      Field ''query'' 5 OPTIONAL T_BOOL True (Some (DBool False))]"

definition mumble_proto__acl__number_ranges :: "(int \<times> nat) list" where
  "mumble_proto__acl__number_ranges = [(1, 0), (0, 5)]"

definition mumble_proto__acl__descriptor :: desc where
  "mumble_proto__acl__descriptor =
     Desc mumble_proto__acl__field_descriptors mumble_proto__acl__number_ranges"

definition mumble_proto__query_users__field_descriptors :: "field list" where
  "mumble_proto__query_users__field_descriptors =
     [Field ''ids'' 1 REPEATED T_UINT32 True None,
      Field ''names'' 2 REPEATED T_STRING True None]"

definition mumble_proto__query_users__number_ranges :: "(int \<times> nat) list" where
  "mumble_proto__query_users__number_ranges = [(1, 0), (0, 2)]"

definition mumble_proto__query_users__descriptor :: desc where
  "mumble_proto__query_users__descriptor =
     Desc mumble_proto__query_users__field_descriptors mumble_proto__query_users__number_ranges"

definition mumble_proto__crypt_setup__field_descriptors :: "field list" where
  "mumble_proto__crypt_setup__field_descriptors =
     [Field ''key'' 1 OPTIONAL T_BYTES True None,
      Field ''client_nonce'' 2 OPTIONAL T_BYTES True None,
      Field ''server_nonce'' 3 OPTIONAL T_BYTES True None]"

definition mumble_proto__crypt_setup__number_ranges :: "(int \<times> nat) list" where
  "mumble_proto__crypt_setup__number_ranges = [(1, 0), (0, 3)]"

definition mumble_proto__crypt_setup__descriptor :: desc where
  "mumble_proto__crypt_setup__descriptor =
     Desc mumble_proto__crypt_setup__field_descriptors mumble_proto__crypt_setup__number_ranges"

definition mumble_proto__context_action_add__field_descriptors :: "field list" where
  "mumble_proto__context_action_add__field_descriptors =
     [Field ''action'' 1 REQUIRED T_STRING False None,
      Field ''text'' 2 REQUIRED T_STRING False None,
      Field ''context'' 3 OPTIONAL T_UINT32 True None]"

definition mumble_proto__context_action_add__number_ranges :: "(int \<times> nat) list" where
  "mumble_proto__context_action_add__number_ranges = [(1, 0), (0, 3)]"

definition mumble_proto__context_action_add__descriptor :: desc where
  "mumble_proto__context_action_add__descriptor =
     Desc mumble_proto__context_action_add__field_descriptors
       mumble_proto__context_action_add__number_ranges"

definition mumble_proto__context_action__field_descriptors :: "field list" where
  "mumble_proto__context_action__field_descriptors =
     [Field ''session'' 1 OPTIONAL T_UINT32 True None,
      Field ''channel_id'' 2 OPTIONAL T_UINT32 True None,
      Field ''action'' 3 REQUIRED T_STRING False None]"

definition mumble_proto__context_action__number_ranges :: "(int \<times> nat) list" where
  "mumble_proto__context_action__number_ranges = [(1, 0), (0, 3)]"

definition mumble_proto__context_action__descriptor :: desc where
  "mumble_proto__context_action__descriptor =
     Desc mumble_proto__context_action__field_descriptors
       mumble_proto__context_action__number_ranges"

definition mumble_proto__user_list__user__field_descriptors :: "field list" where
  "mumble_proto__user_list__user__field_descriptors =
     [Field ''user_id'' 1 REQUIRED T_UINT32 False None,
      Field ''name'' 2 OPTIONAL T_STRING False None]"

definition mumble_proto__user_list__user__number_ranges :: "(int \<times> nat) list" where
  "mumble_proto__user_list__user__number_ranges = [(1, 0), (0, 2)]"

definition mumble_proto__user_list__user__descriptor :: desc where
  "mumble_proto__user_list__user__descriptor =
     Desc mumble_proto__user_list__user__field_descriptors
       mumble_proto__user_list__user__number_ranges"

definition mumble_proto__user_list__field_descriptors :: "field list" where
  "mumble_proto__user_list__field_descriptors =
     [Field ''users'' 1 REPEATED (T_MESSAGE mumble_proto__user_list__user__descriptor) True None]"

definition mumble_proto__user_list__number_ranges :: "(int \<times> nat) list" where
  "mumble_proto__user_list__number_ranges = [(1, 0), (0, 1)]"

definition mumble_proto__user_list__descriptor :: desc where
  "mumble_proto__user_list__descriptor =
     Desc mumble_proto__user_list__field_descriptors mumble_proto__user_list__number_ranges"

definition mumble_proto__voice_target__target__field_descriptors :: "field list" where
  "mumble_proto__voice_target__target__field_descriptors =
     [Field ''session'' 1 REPEATED T_UINT32 True None,
      Field ''channel_id'' 2 OPTIONAL T_UINT32 True None,
      Field ''group'' 3 OPTIONAL T_STRING False None,
      Field ''links'' 4 OPTIONAL T_BOOL True (Some (DBool False)),
      Field ''children'' 5 OPTIONAL T_BOOL True (Some (DBool False))]"

definition mumble_proto__voice_target__target__number_ranges :: "(int \<times> nat) list" where
  "mumble_proto__voice_target__target__number_ranges = [(1, 0), (0, 5)]"

definition mumble_proto__voice_target__target__descriptor :: desc where
  "mumble_proto__voice_target__target__descriptor =
     Desc mumble_proto__voice_target__target__field_descriptors
       mumble_proto__voice_target__target__number_ranges"

definition mumble_proto__voice_target__field_descriptors :: "field list" where
  "mumble_proto__voice_target__field_descriptors =
     [Field ''id'' 1 OPTIONAL T_UINT32 True None,
      Field ''targets'' 2 REPEATED (T_MESSAGE mumble_proto__voice_target__target__descriptor) True None]"

definition mumble_proto__voice_target__number_ranges :: "(int \<times> nat) list" where
  "mumble_proto__voice_target__number_ranges = [(1, 0), (0, 2)]"

definition mumble_proto__voice_target__descriptor :: desc where
  "mumble_proto__voice_target__descriptor =
     Desc mumble_proto__voice_target__field_descriptors mumble_proto__voice_target__number_ranges"

definition mumble_proto__permission_query__field_descriptors :: "field list" where
  "mumble_proto__permission_query__field_descriptors =
     [Field ''channel_id'' 1 OPTIONAL T_UINT32 True None,
      Field ''permissions'' 2 OPTIONAL T_UINT32 True None,
      Field ''flush'' 3 OPTIONAL T_BOOL True (Some (DBool False))]"

definition mumble_proto__permission_query__number_ranges :: "(int \<times> nat) list" where
  "mumble_proto__permission_query__number_ranges = [(1, 0), (0, 3)]"

definition mumble_proto__permission_query__descriptor :: desc where
  "mumble_proto__permission_query__descriptor =
     Desc mumble_proto__permission_query__field_descriptors
       mumble_proto__permission_query__number_ranges"

definition mumble_proto__codec_version__field_descriptors :: "field list" where
  "mumble_proto__codec_version__field_descriptors =
     [Field ''alpha'' 1 REQUIRED T_INT32 False None,
      Field ''beta'' 2 REQUIRED T_INT32 False None,
      Field ''prefer_alpha'' 3 REQUIRED T_BOOL False (Some (DBool True))]"

definition mumble_proto__codec_version__number_ranges :: "(int \<times> nat) list" where
  "mumble_proto__codec_version__number_ranges = [(1, 0), (0, 3)]"

definition mumble_proto__codec_version__descriptor :: desc where
  "mumble_proto__codec_version__descriptor =
     Desc mumble_proto__codec_version__field_descriptors
       mumble_proto__codec_version__number_ranges"

definition mumble_proto__user_stats__stats__field_descriptors :: "field list" where
  "mumble_proto__user_stats__stats__field_descriptors =
     [Field ''good'' 1 OPTIONAL T_UINT32 True None,
      Field ''late'' 2 OPTIONAL T_UINT32 True None,
      Field ''lost'' 3 OPTIONAL T_UINT32 True None,
      Field ''resync'' 4 OPTIONAL T_UINT32 True None]"

definition mumble_proto__user_stats__stats__number_ranges :: "(int \<times> nat) list" where
  "mumble_proto__user_stats__stats__number_ranges = [(1, 0), (0, 4)]"

definition mumble_proto__user_stats__stats__descriptor :: desc where
  "mumble_proto__user_stats__stats__descriptor =
     Desc mumble_proto__user_stats__stats__field_descriptors
       mumble_proto__user_stats__stats__number_ranges"

definition mumble_proto__user_stats__field_descriptors :: "field list" where
  "mumble_proto__user_stats__field_descriptors =
     [Field ''session'' 1 OPTIONAL T_UINT32 True None,
      Field ''stats_only'' 2 OPTIONAL T_BOOL True (Some (DBool False)),
      Field ''certificates'' 3 REPEATED T_BYTES True None,
      Field ''from_client'' 4 OPTIONAL (T_MESSAGE mumble_proto__user_stats__stats__descriptor) False None,
      Field ''from_server'' 5 OPTIONAL (T_MESSAGE mumble_proto__user_stats__stats__descriptor) False None,
      Field ''udp_packets'' 6 OPTIONAL T_UINT32 True None,
      Field ''tcp_packets'' 7 OPTIONAL T_UINT32 True None,
      Field ''udp_ping_avg'' 8 OPTIONAL T_FLOAT True None,
      Field ''udp_ping_var'' 9 OPTIONAL T_FLOAT True None,
      Field ''tcp_ping_avg'' 10 OPTIONAL T_FLOAT True None,
      Field ''tcp_ping_var'' 11 OPTIONAL T_FLOAT True None,
      Field ''version'' 12 OPTIONAL (T_MESSAGE mumble_proto__version__descriptor) False None,
      Field ''celt_versions'' 13 REPEATED T_INT32 True None,
      Field ''address'' 14 OPTIONAL T_BYTES True None,
      Field ''bandwidth'' 15 OPTIONAL T_UINT32 True None,
      Field ''onlinesecs'' 16 OPTIONAL T_UINT32 True None,
      Field ''idlesecs'' 17 OPTIONAL T_UINT32 True None,
      Field ''strong_certificate'' 18 OPTIONAL T_BOOL True (Some (DBool False))]"

definition mumble_proto__user_stats__number_ranges :: "(int \<times> nat) list" where
  "mumble_proto__user_stats__number_ranges = [(1, 0), (0, 18)]"

definition mumble_proto__user_stats__descriptor :: desc where
  "mumble_proto__user_stats__descriptor =
     Desc mumble_proto__user_stats__field_descriptors mumble_proto__user_stats__number_ranges"

definition mumble_proto__request_blob__field_descriptors :: "field list" where
  "mumble_proto__request_blob__field_descriptors =
     [Field ''session_texture'' 1 REPEATED T_UINT32 True None,
      Field ''session_comment'' 2 REPEATED T_UINT32 True None,
      Field ''channel_description'' 3 REPEATED T_UINT32 True None]"

definition mumble_proto__request_blob__number_ranges :: "(int \<times> nat) list" where
  "mumble_proto__request_blob__number_ranges = [(1, 0), (0, 3)]"

definition mumble_proto__request_blob__descriptor :: desc where
  "mumble_proto__request_blob__descriptor =
     Desc mumble_proto__request_blob__field_descriptors mumble_proto__request_blob__number_ranges"

lemma mumble_proto__version__descriptor_fields [simp]: "d_fields mumble_proto__version__descriptor = mumble_proto__version__field_descriptors"
  by (simp add: mumble_proto__version__descriptor_def)

lemma mumble_proto__udptunnel__descriptor_fields [simp]: "d_fields mumble_proto__udptunnel__descriptor = mumble_proto__udptunnel__field_descriptors"
  by (simp add: mumble_proto__udptunnel__descriptor_def)

lemma mumble_proto__authenticate__descriptor_fields [simp]: "d_fields mumble_proto__authenticate__descriptor = mumble_proto__authenticate__field_descriptors"
  by (simp add: mumble_proto__authenticate__descriptor_def)

lemma mumble_proto__ping__descriptor_fields [simp]: "d_fields mumble_proto__ping__descriptor = mumble_proto__ping__field_descriptors"
  by (simp add: mumble_proto__ping__descriptor_def)

lemma mumble_proto__reject__descriptor_fields [simp]: "d_fields mumble_proto__reject__descriptor = mumble_proto__reject__field_descriptors"
  by (simp add: mumble_proto__reject__descriptor_def)

lemma mumble_proto__server_config__descriptor_fields [simp]: "d_fields mumble_proto__server_config__descriptor = mumble_proto__server_config__field_descriptors"
  by (simp add: mumble_proto__server_config__descriptor_def)

lemma mumble_proto__server_sync__descriptor_fields [simp]: "d_fields mumble_proto__server_sync__descriptor = mumble_proto__server_sync__field_descriptors"
  by (simp add: mumble_proto__server_sync__descriptor_def)

lemma mumble_proto__channel_remove__descriptor_fields [simp]: "d_fields mumble_proto__channel_remove__descriptor = mumble_proto__channel_remove__field_descriptors"
  by (simp add: mumble_proto__channel_remove__descriptor_def)

lemma mumble_proto__channel_state__descriptor_fields [simp]: "d_fields mumble_proto__channel_state__descriptor = mumble_proto__channel_state__field_descriptors"
  by (simp add: mumble_proto__channel_state__descriptor_def)

lemma mumble_proto__user_remove__descriptor_fields [simp]: "d_fields mumble_proto__user_remove__descriptor = mumble_proto__user_remove__field_descriptors"
  by (simp add: mumble_proto__user_remove__descriptor_def)

lemma mumble_proto__user_state__descriptor_fields [simp]: "d_fields mumble_proto__user_state__descriptor = mumble_proto__user_state__field_descriptors"
  by (simp add: mumble_proto__user_state__descriptor_def)

lemma mumble_proto__ban_list__ban_entry__descriptor_fields [simp]: "d_fields mumble_proto__ban_list__ban_entry__descriptor = mumble_proto__ban_list__ban_entry__field_descriptors"
  by (simp add: mumble_proto__ban_list__ban_entry__descriptor_def)

lemma mumble_proto__ban_list__descriptor_fields [simp]: "d_fields mumble_proto__ban_list__descriptor = mumble_proto__ban_list__field_descriptors"
  by (simp add: mumble_proto__ban_list__descriptor_def)

lemma mumble_proto__text_message__descriptor_fields [simp]: "d_fields mumble_proto__text_message__descriptor = mumble_proto__text_message__field_descriptors"
  by (simp add: mumble_proto__text_message__descriptor_def)

lemma mumble_proto__permission_denied__descriptor_fields [simp]: "d_fields mumble_proto__permission_denied__descriptor = mumble_proto__permission_denied__field_descriptors"
  by (simp add: mumble_proto__permission_denied__descriptor_def)

lemma mumble_proto__acl__chan_group__descriptor_fields [simp]: "d_fields mumble_proto__acl__chan_group__descriptor = mumble_proto__acl__chan_group__field_descriptors"
  by (simp add: mumble_proto__acl__chan_group__descriptor_def)

lemma mumble_proto__acl__chan_acl__descriptor_fields [simp]: "d_fields mumble_proto__acl__chan_acl__descriptor = mumble_proto__acl__chan_acl__field_descriptors"
  by (simp add: mumble_proto__acl__chan_acl__descriptor_def)

lemma mumble_proto__acl__descriptor_fields [simp]: "d_fields mumble_proto__acl__descriptor = mumble_proto__acl__field_descriptors"
  by (simp add: mumble_proto__acl__descriptor_def)

lemma mumble_proto__query_users__descriptor_fields [simp]: "d_fields mumble_proto__query_users__descriptor = mumble_proto__query_users__field_descriptors"
  by (simp add: mumble_proto__query_users__descriptor_def)

lemma mumble_proto__crypt_setup__descriptor_fields [simp]: "d_fields mumble_proto__crypt_setup__descriptor = mumble_proto__crypt_setup__field_descriptors"
  by (simp add: mumble_proto__crypt_setup__descriptor_def)

lemma mumble_proto__context_action_add__descriptor_fields [simp]: "d_fields mumble_proto__context_action_add__descriptor = mumble_proto__context_action_add__field_descriptors"
  by (simp add: mumble_proto__context_action_add__descriptor_def)

lemma mumble_proto__context_action__descriptor_fields [simp]: "d_fields mumble_proto__context_action__descriptor = mumble_proto__context_action__field_descriptors"
  by (simp add: mumble_proto__context_action__descriptor_def)

lemma mumble_proto__user_list__user__descriptor_fields [simp]: "d_fields mumble_proto__user_list__user__descriptor = mumble_proto__user_list__user__field_descriptors"
  by (simp add: mumble_proto__user_list__user__descriptor_def)

lemma mumble_proto__user_list__descriptor_fields [simp]: "d_fields mumble_proto__user_list__descriptor = mumble_proto__user_list__field_descriptors"
  by (simp add: mumble_proto__user_list__descriptor_def)

lemma mumble_proto__voice_target__target__descriptor_fields [simp]: "d_fields mumble_proto__voice_target__target__descriptor = mumble_proto__voice_target__target__field_descriptors"
  by (simp add: mumble_proto__voice_target__target__descriptor_def)

lemma mumble_proto__voice_target__descriptor_fields [simp]: "d_fields mumble_proto__voice_target__descriptor = mumble_proto__voice_target__field_descriptors"
  by (simp add: mumble_proto__voice_target__descriptor_def)

lemma mumble_proto__permission_query__descriptor_fields [simp]: "d_fields mumble_proto__permission_query__descriptor = mumble_proto__permission_query__field_descriptors"
  by (simp add: mumble_proto__permission_query__descriptor_def)

lemma mumble_proto__codec_version__descriptor_fields [simp]: "d_fields mumble_proto__codec_version__descriptor = mumble_proto__codec_version__field_descriptors"
  by (simp add: mumble_proto__codec_version__descriptor_def)

lemma mumble_proto__user_stats__stats__descriptor_fields [simp]: "d_fields mumble_proto__user_stats__stats__descriptor = mumble_proto__user_stats__stats__field_descriptors"
  by (simp add: mumble_proto__user_stats__stats__descriptor_def)

lemma mumble_proto__user_stats__descriptor_fields [simp]: "d_fields mumble_proto__user_stats__descriptor = mumble_proto__user_stats__field_descriptors"
  by (simp add: mumble_proto__user_stats__descriptor_def)

lemma mumble_proto__request_blob__descriptor_fields [simp]: "d_fields mumble_proto__request_blob__descriptor = mumble_proto__request_blob__field_descriptors"
  by (simp add: mumble_proto__request_blob__descriptor_def)

section \<open>They are well formed\<close>

lemma mumble_proto__version__descriptor_ok [simp]: "desc_ok mumble_proto__version__descriptor"
  by (simp add: desc_ok_def field_ok_def upt_rec mumble_proto__version__descriptor_def mumble_proto__version__field_descriptors_def
      mumble_proto__version__number_ranges_def)

lemma mumble_proto__udptunnel__descriptor_ok [simp]: "desc_ok mumble_proto__udptunnel__descriptor"
  by (simp add: desc_ok_def field_ok_def upt_rec mumble_proto__udptunnel__descriptor_def mumble_proto__udptunnel__field_descriptors_def
      mumble_proto__udptunnel__number_ranges_def)

lemma mumble_proto__authenticate__descriptor_ok [simp]: "desc_ok mumble_proto__authenticate__descriptor"
  by (simp add: desc_ok_def field_ok_def upt_rec mumble_proto__authenticate__descriptor_def mumble_proto__authenticate__field_descriptors_def
      mumble_proto__authenticate__number_ranges_def)

lemma mumble_proto__ping__descriptor_ok [simp]: "desc_ok mumble_proto__ping__descriptor"
  by (simp add: desc_ok_def field_ok_def upt_rec mumble_proto__ping__descriptor_def mumble_proto__ping__field_descriptors_def
      mumble_proto__ping__number_ranges_def)

lemma mumble_proto__reject__descriptor_ok [simp]: "desc_ok mumble_proto__reject__descriptor"
  by (simp add: desc_ok_def field_ok_def upt_rec mumble_proto__reject__descriptor_def mumble_proto__reject__field_descriptors_def
      mumble_proto__reject__number_ranges_def)

lemma mumble_proto__server_config__descriptor_ok [simp]: "desc_ok mumble_proto__server_config__descriptor"
  by (simp add: desc_ok_def field_ok_def upt_rec mumble_proto__server_config__descriptor_def mumble_proto__server_config__field_descriptors_def
      mumble_proto__server_config__number_ranges_def)

lemma mumble_proto__server_sync__descriptor_ok [simp]: "desc_ok mumble_proto__server_sync__descriptor"
  by (simp add: desc_ok_def field_ok_def upt_rec mumble_proto__server_sync__descriptor_def mumble_proto__server_sync__field_descriptors_def
      mumble_proto__server_sync__number_ranges_def)

lemma mumble_proto__channel_remove__descriptor_ok [simp]: "desc_ok mumble_proto__channel_remove__descriptor"
  by (simp add: desc_ok_def field_ok_def upt_rec mumble_proto__channel_remove__descriptor_def mumble_proto__channel_remove__field_descriptors_def
      mumble_proto__channel_remove__number_ranges_def)

lemma mumble_proto__channel_state__descriptor_ok [simp]: "desc_ok mumble_proto__channel_state__descriptor"
  by (simp add: desc_ok_def field_ok_def upt_rec mumble_proto__channel_state__descriptor_def mumble_proto__channel_state__field_descriptors_def
      mumble_proto__channel_state__number_ranges_def)

lemma mumble_proto__user_remove__descriptor_ok [simp]: "desc_ok mumble_proto__user_remove__descriptor"
  by (simp add: desc_ok_def field_ok_def upt_rec mumble_proto__user_remove__descriptor_def mumble_proto__user_remove__field_descriptors_def
      mumble_proto__user_remove__number_ranges_def)

lemma mumble_proto__user_state__descriptor_ok [simp]: "desc_ok mumble_proto__user_state__descriptor"
  by (simp add: desc_ok_def field_ok_def upt_rec mumble_proto__user_state__descriptor_def mumble_proto__user_state__field_descriptors_def
      mumble_proto__user_state__number_ranges_def)

lemma mumble_proto__ban_list__ban_entry__descriptor_ok [simp]: "desc_ok mumble_proto__ban_list__ban_entry__descriptor"
  by (simp add: desc_ok_def field_ok_def upt_rec mumble_proto__ban_list__ban_entry__descriptor_def mumble_proto__ban_list__ban_entry__field_descriptors_def
      mumble_proto__ban_list__ban_entry__number_ranges_def)

lemma mumble_proto__ban_list__descriptor_ok [simp]: "desc_ok mumble_proto__ban_list__descriptor"
  by (simp add: desc_ok_def field_ok_def upt_rec mumble_proto__ban_list__descriptor_def mumble_proto__ban_list__field_descriptors_def
      mumble_proto__ban_list__number_ranges_def)

lemma mumble_proto__text_message__descriptor_ok [simp]: "desc_ok mumble_proto__text_message__descriptor"
  by (simp add: desc_ok_def field_ok_def upt_rec mumble_proto__text_message__descriptor_def mumble_proto__text_message__field_descriptors_def
      mumble_proto__text_message__number_ranges_def)

lemma mumble_proto__permission_denied__descriptor_ok [simp]: "desc_ok mumble_proto__permission_denied__descriptor"
  by (simp add: desc_ok_def field_ok_def upt_rec mumble_proto__permission_denied__descriptor_def mumble_proto__permission_denied__field_descriptors_def
      mumble_proto__permission_denied__number_ranges_def)

lemma mumble_proto__acl__chan_group__descriptor_ok [simp]: "desc_ok mumble_proto__acl__chan_group__descriptor"
  by (simp add: desc_ok_def field_ok_def upt_rec mumble_proto__acl__chan_group__descriptor_def mumble_proto__acl__chan_group__field_descriptors_def
      mumble_proto__acl__chan_group__number_ranges_def)

lemma mumble_proto__acl__chan_acl__descriptor_ok [simp]: "desc_ok mumble_proto__acl__chan_acl__descriptor"
  by (simp add: desc_ok_def field_ok_def upt_rec mumble_proto__acl__chan_acl__descriptor_def mumble_proto__acl__chan_acl__field_descriptors_def
      mumble_proto__acl__chan_acl__number_ranges_def)

lemma mumble_proto__acl__descriptor_ok [simp]: "desc_ok mumble_proto__acl__descriptor"
  by (simp add: desc_ok_def field_ok_def upt_rec mumble_proto__acl__descriptor_def mumble_proto__acl__field_descriptors_def
      mumble_proto__acl__number_ranges_def)

lemma mumble_proto__query_users__descriptor_ok [simp]: "desc_ok mumble_proto__query_users__descriptor"
  by (simp add: desc_ok_def field_ok_def upt_rec mumble_proto__query_users__descriptor_def mumble_proto__query_users__field_descriptors_def
      mumble_proto__query_users__number_ranges_def)

lemma mumble_proto__crypt_setup__descriptor_ok [simp]: "desc_ok mumble_proto__crypt_setup__descriptor"
  by (simp add: desc_ok_def field_ok_def upt_rec mumble_proto__crypt_setup__descriptor_def mumble_proto__crypt_setup__field_descriptors_def
      mumble_proto__crypt_setup__number_ranges_def)

lemma mumble_proto__context_action_add__descriptor_ok [simp]: "desc_ok mumble_proto__context_action_add__descriptor"
  by (simp add: desc_ok_def field_ok_def upt_rec mumble_proto__context_action_add__descriptor_def mumble_proto__context_action_add__field_descriptors_def
      mumble_proto__context_action_add__number_ranges_def)

lemma mumble_proto__context_action__descriptor_ok [simp]: "desc_ok mumble_proto__context_action__descriptor"
  by (simp add: desc_ok_def field_ok_def upt_rec mumble_proto__context_action__descriptor_def mumble_proto__context_action__field_descriptors_def
      mumble_proto__context_action__number_ranges_def)

lemma mumble_proto__user_list__user__descriptor_ok [simp]: "desc_ok mumble_proto__user_list__user__descriptor"
  by (simp add: desc_ok_def field_ok_def upt_rec mumble_proto__user_list__user__descriptor_def mumble_proto__user_list__user__field_descriptors_def
      mumble_proto__user_list__user__number_ranges_def)

lemma mumble_proto__user_list__descriptor_ok [simp]: "desc_ok mumble_proto__user_list__descriptor"
  by (simp add: desc_ok_def field_ok_def upt_rec mumble_proto__user_list__descriptor_def mumble_proto__user_list__field_descriptors_def
      mumble_proto__user_list__number_ranges_def)

lemma mumble_proto__voice_target__target__descriptor_ok [simp]: "desc_ok mumble_proto__voice_target__target__descriptor"
  by (simp add: desc_ok_def field_ok_def upt_rec mumble_proto__voice_target__target__descriptor_def mumble_proto__voice_target__target__field_descriptors_def
      mumble_proto__voice_target__target__number_ranges_def)

lemma mumble_proto__voice_target__descriptor_ok [simp]: "desc_ok mumble_proto__voice_target__descriptor"
  by (simp add: desc_ok_def field_ok_def upt_rec mumble_proto__voice_target__descriptor_def mumble_proto__voice_target__field_descriptors_def
      mumble_proto__voice_target__number_ranges_def)

lemma mumble_proto__permission_query__descriptor_ok [simp]: "desc_ok mumble_proto__permission_query__descriptor"
  by (simp add: desc_ok_def field_ok_def upt_rec mumble_proto__permission_query__descriptor_def mumble_proto__permission_query__field_descriptors_def
      mumble_proto__permission_query__number_ranges_def)

lemma mumble_proto__codec_version__descriptor_ok [simp]: "desc_ok mumble_proto__codec_version__descriptor"
  by (simp add: desc_ok_def field_ok_def upt_rec mumble_proto__codec_version__descriptor_def mumble_proto__codec_version__field_descriptors_def
      mumble_proto__codec_version__number_ranges_def)

lemma mumble_proto__user_stats__stats__descriptor_ok [simp]: "desc_ok mumble_proto__user_stats__stats__descriptor"
  by (simp add: desc_ok_def field_ok_def upt_rec mumble_proto__user_stats__stats__descriptor_def mumble_proto__user_stats__stats__field_descriptors_def
      mumble_proto__user_stats__stats__number_ranges_def)

lemma mumble_proto__user_stats__descriptor_ok [simp]: "desc_ok mumble_proto__user_stats__descriptor"
  by (simp add: desc_ok_def field_ok_def upt_rec mumble_proto__user_stats__descriptor_def mumble_proto__user_stats__field_descriptors_def
      mumble_proto__user_stats__number_ranges_def)

lemma mumble_proto__request_blob__descriptor_ok [simp]: "desc_ok mumble_proto__request_blob__descriptor"
  by (simp add: desc_ok_def field_ok_def upt_rec mumble_proto__request_blob__descriptor_def mumble_proto__request_blob__field_descriptors_def
      mumble_proto__request_blob__number_ranges_def)

lemma mumble_proto__version__descriptor_typed [simp]: "desc_typed mumble_proto__version__descriptor"
  by (simp add: desc_typed.simps [of mumble_proto__version__descriptor] field_typed_def field_ok_def value_typed_def
      subdesc_list_def mumble_proto__version__field_descriptors_def)

lemma mumble_proto__udptunnel__descriptor_typed [simp]: "desc_typed mumble_proto__udptunnel__descriptor"
  by (simp add: desc_typed.simps [of mumble_proto__udptunnel__descriptor] field_typed_def field_ok_def value_typed_def
      subdesc_list_def mumble_proto__udptunnel__field_descriptors_def)

lemma mumble_proto__authenticate__descriptor_typed [simp]: "desc_typed mumble_proto__authenticate__descriptor"
  by (simp add: desc_typed.simps [of mumble_proto__authenticate__descriptor] field_typed_def field_ok_def value_typed_def
      subdesc_list_def mumble_proto__authenticate__field_descriptors_def)

lemma mumble_proto__ping__descriptor_typed [simp]: "desc_typed mumble_proto__ping__descriptor"
  by (simp add: desc_typed.simps [of mumble_proto__ping__descriptor] field_typed_def field_ok_def value_typed_def
      subdesc_list_def mumble_proto__ping__field_descriptors_def)

lemma mumble_proto__reject__descriptor_typed [simp]: "desc_typed mumble_proto__reject__descriptor"
  by (simp add: desc_typed.simps [of mumble_proto__reject__descriptor] field_typed_def field_ok_def value_typed_def
      subdesc_list_def mumble_proto__reject__field_descriptors_def)

lemma mumble_proto__server_config__descriptor_typed [simp]: "desc_typed mumble_proto__server_config__descriptor"
  by (simp add: desc_typed.simps [of mumble_proto__server_config__descriptor] field_typed_def field_ok_def value_typed_def
      subdesc_list_def mumble_proto__server_config__field_descriptors_def)

lemma mumble_proto__server_sync__descriptor_typed [simp]: "desc_typed mumble_proto__server_sync__descriptor"
  by (simp add: desc_typed.simps [of mumble_proto__server_sync__descriptor] field_typed_def field_ok_def value_typed_def
      subdesc_list_def mumble_proto__server_sync__field_descriptors_def)

lemma mumble_proto__channel_remove__descriptor_typed [simp]: "desc_typed mumble_proto__channel_remove__descriptor"
  by (simp add: desc_typed.simps [of mumble_proto__channel_remove__descriptor] field_typed_def field_ok_def value_typed_def
      subdesc_list_def mumble_proto__channel_remove__field_descriptors_def)

lemma mumble_proto__channel_state__descriptor_typed [simp]: "desc_typed mumble_proto__channel_state__descriptor"
  by (simp add: desc_typed.simps [of mumble_proto__channel_state__descriptor] field_typed_def field_ok_def value_typed_def
      subdesc_list_def mumble_proto__channel_state__field_descriptors_def)

lemma mumble_proto__user_remove__descriptor_typed [simp]: "desc_typed mumble_proto__user_remove__descriptor"
  by (simp add: desc_typed.simps [of mumble_proto__user_remove__descriptor] field_typed_def field_ok_def value_typed_def
      subdesc_list_def mumble_proto__user_remove__field_descriptors_def)

lemma mumble_proto__user_state__descriptor_typed [simp]: "desc_typed mumble_proto__user_state__descriptor"
  by (simp add: desc_typed.simps [of mumble_proto__user_state__descriptor] field_typed_def field_ok_def value_typed_def
      subdesc_list_def mumble_proto__user_state__field_descriptors_def)

lemma mumble_proto__ban_list__ban_entry__descriptor_typed [simp]: "desc_typed mumble_proto__ban_list__ban_entry__descriptor"
  by (simp add: desc_typed.simps [of mumble_proto__ban_list__ban_entry__descriptor] field_typed_def field_ok_def value_typed_def
      subdesc_list_def mumble_proto__ban_list__ban_entry__field_descriptors_def)

lemma mumble_proto__ban_list__descriptor_typed [simp]: "desc_typed mumble_proto__ban_list__descriptor"
  by (simp add: desc_typed.simps [of mumble_proto__ban_list__descriptor] field_typed_def field_ok_def value_typed_def
      subdesc_list_def mumble_proto__ban_list__field_descriptors_def)

lemma mumble_proto__text_message__descriptor_typed [simp]: "desc_typed mumble_proto__text_message__descriptor"
  by (simp add: desc_typed.simps [of mumble_proto__text_message__descriptor] field_typed_def field_ok_def value_typed_def
      subdesc_list_def mumble_proto__text_message__field_descriptors_def)

lemma mumble_proto__permission_denied__descriptor_typed [simp]: "desc_typed mumble_proto__permission_denied__descriptor"
  by (simp add: desc_typed.simps [of mumble_proto__permission_denied__descriptor] field_typed_def field_ok_def value_typed_def
      subdesc_list_def mumble_proto__permission_denied__field_descriptors_def)

lemma mumble_proto__acl__chan_group__descriptor_typed [simp]: "desc_typed mumble_proto__acl__chan_group__descriptor"
  by (simp add: desc_typed.simps [of mumble_proto__acl__chan_group__descriptor] field_typed_def field_ok_def value_typed_def
      subdesc_list_def mumble_proto__acl__chan_group__field_descriptors_def)

lemma mumble_proto__acl__chan_acl__descriptor_typed [simp]: "desc_typed mumble_proto__acl__chan_acl__descriptor"
  by (simp add: desc_typed.simps [of mumble_proto__acl__chan_acl__descriptor] field_typed_def field_ok_def value_typed_def
      subdesc_list_def mumble_proto__acl__chan_acl__field_descriptors_def)

lemma mumble_proto__acl__descriptor_typed [simp]: "desc_typed mumble_proto__acl__descriptor"
  by (simp add: desc_typed.simps [of mumble_proto__acl__descriptor] field_typed_def field_ok_def value_typed_def
      subdesc_list_def mumble_proto__acl__field_descriptors_def)

lemma mumble_proto__query_users__descriptor_typed [simp]: "desc_typed mumble_proto__query_users__descriptor"
  by (simp add: desc_typed.simps [of mumble_proto__query_users__descriptor] field_typed_def field_ok_def value_typed_def
      subdesc_list_def mumble_proto__query_users__field_descriptors_def)

lemma mumble_proto__crypt_setup__descriptor_typed [simp]: "desc_typed mumble_proto__crypt_setup__descriptor"
  by (simp add: desc_typed.simps [of mumble_proto__crypt_setup__descriptor] field_typed_def field_ok_def value_typed_def
      subdesc_list_def mumble_proto__crypt_setup__field_descriptors_def)

lemma mumble_proto__context_action_add__descriptor_typed [simp]: "desc_typed mumble_proto__context_action_add__descriptor"
  by (simp add: desc_typed.simps [of mumble_proto__context_action_add__descriptor] field_typed_def field_ok_def value_typed_def
      subdesc_list_def mumble_proto__context_action_add__field_descriptors_def)

lemma mumble_proto__context_action__descriptor_typed [simp]: "desc_typed mumble_proto__context_action__descriptor"
  by (simp add: desc_typed.simps [of mumble_proto__context_action__descriptor] field_typed_def field_ok_def value_typed_def
      subdesc_list_def mumble_proto__context_action__field_descriptors_def)

lemma mumble_proto__user_list__user__descriptor_typed [simp]: "desc_typed mumble_proto__user_list__user__descriptor"
  by (simp add: desc_typed.simps [of mumble_proto__user_list__user__descriptor] field_typed_def field_ok_def value_typed_def
      subdesc_list_def mumble_proto__user_list__user__field_descriptors_def)

lemma mumble_proto__user_list__descriptor_typed [simp]: "desc_typed mumble_proto__user_list__descriptor"
  by (simp add: desc_typed.simps [of mumble_proto__user_list__descriptor] field_typed_def field_ok_def value_typed_def
      subdesc_list_def mumble_proto__user_list__field_descriptors_def)

lemma mumble_proto__voice_target__target__descriptor_typed [simp]: "desc_typed mumble_proto__voice_target__target__descriptor"
  by (simp add: desc_typed.simps [of mumble_proto__voice_target__target__descriptor] field_typed_def field_ok_def value_typed_def
      subdesc_list_def mumble_proto__voice_target__target__field_descriptors_def)

lemma mumble_proto__voice_target__descriptor_typed [simp]: "desc_typed mumble_proto__voice_target__descriptor"
  by (simp add: desc_typed.simps [of mumble_proto__voice_target__descriptor] field_typed_def field_ok_def value_typed_def
      subdesc_list_def mumble_proto__voice_target__field_descriptors_def)

lemma mumble_proto__permission_query__descriptor_typed [simp]: "desc_typed mumble_proto__permission_query__descriptor"
  by (simp add: desc_typed.simps [of mumble_proto__permission_query__descriptor] field_typed_def field_ok_def value_typed_def
      subdesc_list_def mumble_proto__permission_query__field_descriptors_def)

lemma mumble_proto__codec_version__descriptor_typed [simp]: "desc_typed mumble_proto__codec_version__descriptor"
  by (simp add: desc_typed.simps [of mumble_proto__codec_version__descriptor] field_typed_def field_ok_def value_typed_def
      subdesc_list_def mumble_proto__codec_version__field_descriptors_def)

lemma mumble_proto__user_stats__stats__descriptor_typed [simp]: "desc_typed mumble_proto__user_stats__stats__descriptor"
  by (simp add: desc_typed.simps [of mumble_proto__user_stats__stats__descriptor] field_typed_def field_ok_def value_typed_def
      subdesc_list_def mumble_proto__user_stats__stats__field_descriptors_def)

lemma mumble_proto__user_stats__descriptor_typed [simp]: "desc_typed mumble_proto__user_stats__descriptor"
  by (simp add: desc_typed.simps [of mumble_proto__user_stats__descriptor] field_typed_def field_ok_def value_typed_def
      subdesc_list_def mumble_proto__user_stats__field_descriptors_def)

lemma mumble_proto__request_blob__descriptor_typed [simp]: "desc_typed mumble_proto__request_blob__descriptor"
  by (simp add: desc_typed.simps [of mumble_proto__request_blob__descriptor] field_typed_def field_ok_def value_typed_def
      subdesc_list_def mumble_proto__request_blob__field_descriptors_def)

end
