(* ===== verification/PbMumble.thy ===== *)
theory PbMumble
  imports PbDesc Proto
begin

text \<open>
  The wire format of the messages of \<open>Proto\<close>: each structure as the generic message that
  protobuf-c sees through its descriptor, and the generated functions of src/src/Mumble.pb-c.c
  (size, pack, unpack) on the structures. A structure has no place for unknown fields: the
  C code keeps those of a received message in its base and packs them again, here they are dropped.
\<close>

section \<open>Strings and enumerations\<close>

definition string_bytes :: "string \<Rightarrow> byte list" where
  "string_bytes s = map (\<lambda>c. of_nat (of_char c)) s"

definition bytes_string :: "byte list \<Rightarrow> string" where
  "bytes_string bs = map (\<lambda>b. char_of (unat b)) (cstr bs)"

fun reject_num :: "rejectType \<Rightarrow> u32" where
  "reject_num RejectNone = 0"
| "reject_num WrongVersion = 1"
| "reject_num InvalidUsername = 2"
| "reject_num WrongUserPW = 3"
| "reject_num WrongServerPW = 4"
| "reject_num UsernameInUse = 5"
| "reject_num ServerFull = 6"
| "reject_num NoCertificate = 7"
| "reject_num (RejectOther n) = n"

definition reject_of_num :: "u32 \<Rightarrow> rejectType" where
  "reject_of_num n =
     (case map_of (map (\<lambda>t. (reject_num t, t)) [RejectNone, WrongVersion, InvalidUsername, WrongUserPW,
        WrongServerPW, UsernameInUse, ServerFull, NoCertificate]) n of
        None \<Rightarrow> RejectOther n
      | Some t \<Rightarrow> t)"

fun deny_num :: "denyType \<Rightarrow> u32" where
  "deny_num DenyText = 0"
| "deny_num DenyPermission = 1"
| "deny_num DenySuperUser = 2"
| "deny_num DenyChannelName = 3"
| "deny_num DenyTextTooLong = 4"
| "deny_num DenyH9K = 5"
| "deny_num DenyTemporaryChannel = 6"
| "deny_num DenyMissingCertificate = 7"
| "deny_num DenyUserName = 8"
| "deny_num DenyChannelFull = 9"
| "deny_num (DenyOther n) = n"

definition deny_of_num :: "u32 \<Rightarrow> denyType" where
  "deny_of_num n =
     (case map_of (map (\<lambda>t. (deny_num t, t)) [DenyText, DenyPermission, DenySuperUser, DenyChannelName,
        DenyTextTooLong, DenyH9K, DenyTemporaryChannel, DenyMissingCertificate, DenyUserName, DenyChannelFull]) n of
        None \<Rightarrow> DenyOther n
      | Some t \<Rightarrow> t)"

section \<open>The structures as generic messages\<close>

definition Version_msg :: "mp_Version \<Rightarrow> msg" where
  "Version_msg p = Msg mumble_proto__version__descriptor
     [Opt (ver_has_version p) (V32 (ver_version p)),
      One (VStr (map_option string_bytes (ver_release p))),
      One (VStr (map_option string_bytes (ver_os p))),
      One (VStr (map_option string_bytes (ver_os_version p)))] []"

definition msg_Version :: "msg \<Rightarrow> mp_Version" where
  "msg_Version m =
     (let s = (!) (m_slots m) in
      \<lparr>ver_has_version = slot_has (s 0),
       ver_version = v32 (slot_val (s 0)),
       ver_release = map_option bytes_string (vstr (slot_val (s 1))),
       ver_os = map_option bytes_string (vstr (slot_val (s 2))),
       ver_os_version = map_option bytes_string (vstr (slot_val (s 3)))\<rparr>)"

definition UDPTunnel_msg :: "mp_UDPTunnel \<Rightarrow> msg" where
  "UDPTunnel_msg p = Msg mumble_proto__udptunnel__descriptor
     [One (VBytes (udp_packet p))] []"

definition msg_UDPTunnel :: "msg \<Rightarrow> mp_UDPTunnel" where
  "msg_UDPTunnel m =
     (let s = (!) (m_slots m) in
      \<lparr>udp_packet = vbytes (slot_val (s 0))\<rparr>)"

definition Authenticate_msg :: "mp_Authenticate \<Rightarrow> msg" where
  "Authenticate_msg p = Msg mumble_proto__authenticate__descriptor
     [One (VStr (map_option string_bytes (auth_username p))),
      One (VStr (map_option string_bytes (auth_password p))),
      Rep (map (\<lambda>x. VStr (Some (string_bytes x))) (auth_tokens p)),
      Rep (map V32 (auth_celt_versions p))] []"

definition msg_Authenticate :: "msg \<Rightarrow> mp_Authenticate" where
  "msg_Authenticate m =
     (let s = (!) (m_slots m) in
      \<lparr>auth_username = map_option bytes_string (vstr (slot_val (s 0))),
       auth_password = map_option bytes_string (vstr (slot_val (s 1))),
       auth_tokens = map (\<lambda>v. bytes_string (the (vstr v))) (slot_vals (s 2)),
       auth_celt_versions = map v32 (slot_vals (s 3))\<rparr>)"

definition Ping_msg :: "mp_Ping \<Rightarrow> msg" where
  "Ping_msg p = Msg mumble_proto__ping__descriptor
     [Opt (ping_has_timestamp p) (V64 (ping_timestamp p)),
      Opt (ping_has_good p) (V32 (ping_good p)),
      Opt (ping_has_late p) (V32 (ping_late p)),
      Opt (ping_has_lost p) (V32 (ping_lost p)),
      Opt (ping_has_resync p) (V32 (ping_resync p)),
      Opt (ping_has_udp_packets p) (V32 (ping_udp_packets p)),
      Opt (ping_has_tcp_packets p) (V32 (ping_tcp_packets p)),
      Opt (ping_has_udp_ping_avg p) (V32 (ping_udp_ping_avg p)),
      Opt (ping_has_udp_ping_var p) (V32 (ping_udp_ping_var p)),
      Opt (ping_has_tcp_ping_avg p) (V32 (ping_tcp_ping_avg p)),
      Opt (ping_has_tcp_ping_var p) (V32 (ping_tcp_ping_var p))] []"

definition msg_Ping :: "msg \<Rightarrow> mp_Ping" where
  "msg_Ping m =
     (let s = (!) (m_slots m) in
      \<lparr>ping_has_timestamp = slot_has (s 0),
       ping_timestamp = v64 (slot_val (s 0)),
       ping_has_good = slot_has (s 1),
       ping_good = v32 (slot_val (s 1)),
       ping_has_late = slot_has (s 2),
       ping_late = v32 (slot_val (s 2)),
       ping_has_lost = slot_has (s 3),
       ping_lost = v32 (slot_val (s 3)),
       ping_has_resync = slot_has (s 4),
       ping_resync = v32 (slot_val (s 4)),
       ping_has_udp_packets = slot_has (s 5),
       ping_udp_packets = v32 (slot_val (s 5)),
       ping_has_tcp_packets = slot_has (s 6),
       ping_tcp_packets = v32 (slot_val (s 6)),
       ping_has_udp_ping_avg = slot_has (s 7),
       ping_udp_ping_avg = v32 (slot_val (s 7)),
       ping_has_udp_ping_var = slot_has (s 8),
       ping_udp_ping_var = v32 (slot_val (s 8)),
       ping_has_tcp_ping_avg = slot_has (s 9),
       ping_tcp_ping_avg = v32 (slot_val (s 9)),
       ping_has_tcp_ping_var = slot_has (s 10),
       ping_tcp_ping_var = v32 (slot_val (s 10))\<rparr>)"

definition Reject_msg :: "mp_Reject \<Rightarrow> msg" where
  "Reject_msg p = Msg mumble_proto__reject__descriptor
     [Opt (rej_has_type p) (V32 (reject_num (rej_type p))),
      One (VStr (map_option string_bytes (rej_reason p)))] []"

definition msg_Reject :: "msg \<Rightarrow> mp_Reject" where
  "msg_Reject m =
     (let s = (!) (m_slots m) in
      \<lparr>rej_has_type = slot_has (s 0),
       rej_type = reject_of_num (v32 (slot_val (s 0))),
       rej_reason = map_option bytes_string (vstr (slot_val (s 1)))\<rparr>)"

definition ServerConfig_msg :: "mp_ServerConfig \<Rightarrow> msg" where
  "ServerConfig_msg p = Msg mumble_proto__server_config__descriptor
     [Opt (scfg_has_max_bandwidth p) (V32 (scfg_max_bandwidth p)),
      One (VStr (map_option string_bytes (scfg_welcome_text p))),
      Opt (scfg_has_allow_html p) (VBool (scfg_allow_html p)),
      Opt (scfg_has_message_length p) (V32 (scfg_message_length p)),
      Opt (scfg_has_image_message_length p) (V32 (scfg_image_message_length p))] []"

definition msg_ServerConfig :: "msg \<Rightarrow> mp_ServerConfig" where
  "msg_ServerConfig m =
     (let s = (!) (m_slots m) in
      \<lparr>scfg_has_max_bandwidth = slot_has (s 0),
       scfg_max_bandwidth = v32 (slot_val (s 0)),
       scfg_welcome_text = map_option bytes_string (vstr (slot_val (s 1))),
       scfg_has_allow_html = slot_has (s 2),
       scfg_allow_html = vbool (slot_val (s 2)),
       scfg_has_message_length = slot_has (s 3),
       scfg_message_length = v32 (slot_val (s 3)),
       scfg_has_image_message_length = slot_has (s 4),
       scfg_image_message_length = v32 (slot_val (s 4))\<rparr>)"

definition ServerSync_msg :: "mp_ServerSync \<Rightarrow> msg" where
  "ServerSync_msg p = Msg mumble_proto__server_sync__descriptor
     [Opt (sync_has_session p) (V32 (sync_session p)),
      Opt (sync_has_max_bandwidth p) (V32 (sync_max_bandwidth p)),
      One (VStr (map_option string_bytes (sync_welcome_text p))),
      Opt (sync_has_permissions p) (V64 (sync_permissions p))] []"

definition msg_ServerSync :: "msg \<Rightarrow> mp_ServerSync" where
  "msg_ServerSync m =
     (let s = (!) (m_slots m) in
      \<lparr>sync_has_session = slot_has (s 0),
       sync_session = v32 (slot_val (s 0)),
       sync_has_max_bandwidth = slot_has (s 1),
       sync_max_bandwidth = v32 (slot_val (s 1)),
       sync_welcome_text = map_option bytes_string (vstr (slot_val (s 2))),
       sync_has_permissions = slot_has (s 3),
       sync_permissions = v64 (slot_val (s 3))\<rparr>)"

definition ChannelRemove_msg :: "mp_ChannelRemove \<Rightarrow> msg" where
  "ChannelRemove_msg p = Msg mumble_proto__channel_remove__descriptor
     [One (V32 (crem_channel_id p))] []"

definition msg_ChannelRemove :: "msg \<Rightarrow> mp_ChannelRemove" where
  "msg_ChannelRemove m =
     (let s = (!) (m_slots m) in
      \<lparr>crem_channel_id = v32 (slot_val (s 0))\<rparr>)"

definition ChannelState_msg :: "mp_ChannelState \<Rightarrow> msg" where
  "ChannelState_msg p = Msg mumble_proto__channel_state__descriptor
     [Opt (cst_has_channel_id p) (V32 (cst_channel_id p)),
      Opt (cst_has_parent p) (V32 (cst_parent p)),
      One (VStr (map_option string_bytes (cst_name p))),
      Rep (map V32 (cst_links p)),
      One (VStr (map_option string_bytes (cst_description p))),
      Rep (map V32 (cst_links_add p)),
      Rep (map V32 (cst_links_remove p)),
      Opt (cst_has_temporary p) (VBool (cst_temporary p)),
      Opt (cst_has_position p) (V32 (cst_position p)),
      Opt (cst_has_description_hash p) (VBytes (cst_description_hash p))] []"

definition msg_ChannelState :: "msg \<Rightarrow> mp_ChannelState" where
  "msg_ChannelState m =
     (let s = (!) (m_slots m) in
      \<lparr>cst_has_channel_id = slot_has (s 0),
       cst_channel_id = v32 (slot_val (s 0)),
       cst_has_parent = slot_has (s 1),
       cst_parent = v32 (slot_val (s 1)),
       cst_name = map_option bytes_string (vstr (slot_val (s 2))),
       cst_links = map v32 (slot_vals (s 3)),
       cst_description = map_option bytes_string (vstr (slot_val (s 4))),
       cst_links_add = map v32 (slot_vals (s 5)),
       cst_links_remove = map v32 (slot_vals (s 6)),
       cst_has_temporary = slot_has (s 7),
       cst_temporary = vbool (slot_val (s 7)),
       cst_has_position = slot_has (s 8),
       cst_position = v32 (slot_val (s 8)),
       cst_has_description_hash = slot_has (s 9),
       cst_description_hash = vbytes (slot_val (s 9))\<rparr>)"

definition UserRemove_msg :: "mp_UserRemove \<Rightarrow> msg" where
  "UserRemove_msg p = Msg mumble_proto__user_remove__descriptor
     [One (V32 (urem_session p)),
      Opt (urem_has_actor p) (V32 (urem_actor p)),
      One (VStr (map_option string_bytes (urem_reason p))),
      Opt (urem_has_ban p) (VBool (urem_ban p))] []"

definition msg_UserRemove :: "msg \<Rightarrow> mp_UserRemove" where
  "msg_UserRemove m =
     (let s = (!) (m_slots m) in
      \<lparr>urem_session = v32 (slot_val (s 0)),
       urem_has_actor = slot_has (s 1),
       urem_actor = v32 (slot_val (s 1)),
       urem_reason = map_option bytes_string (vstr (slot_val (s 2))),
       urem_has_ban = slot_has (s 3),
       urem_ban = vbool (slot_val (s 3))\<rparr>)"

definition UserState_msg :: "mp_UserState \<Rightarrow> msg" where
  "UserState_msg p = Msg mumble_proto__user_state__descriptor
     [Opt (ust_has_session p) (V32 (ust_session p)),
      Opt (ust_has_actor p) (V32 (ust_actor p)),
      One (VStr (map_option string_bytes (ust_name p))),
      Opt (ust_has_user_id p) (V32 (ust_user_id p)),
      Opt (ust_has_channel_id p) (V32 (ust_channel_id p)),
      Opt (ust_has_mute p) (VBool (ust_mute p)),
      Opt (ust_has_deaf p) (VBool (ust_deaf p)),
      Opt (ust_has_suppress p) (VBool (ust_suppress p)),
      Opt (ust_has_self_mute p) (VBool (ust_self_mute p)),
      Opt (ust_has_self_deaf p) (VBool (ust_self_deaf p)),
      Opt (ust_has_texture p) (VBytes (ust_texture p)),
      Opt (ust_has_plugin_context p) (VBytes (ust_plugin_context p)),
      One (VStr (map_option string_bytes (ust_plugin_identity p))),
      One (VStr (map_option string_bytes (ust_comment p))),
      One (VStr (map_option string_bytes (ust_hash p))),
      Opt (ust_has_comment_hash p) (VBytes (ust_comment_hash p)),
      Opt (ust_has_texture_hash p) (VBytes (ust_texture_hash p)),
      Opt (ust_has_priority_speaker p) (VBool (ust_priority_speaker p)),
      Opt (ust_has_recording p) (VBool (ust_recording p))] []"

definition msg_UserState :: "msg \<Rightarrow> mp_UserState" where
  "msg_UserState m =
     (let s = (!) (m_slots m) in
      \<lparr>ust_has_session = slot_has (s 0),
       ust_session = v32 (slot_val (s 0)),
       ust_has_actor = slot_has (s 1),
       ust_actor = v32 (slot_val (s 1)),
       ust_name = map_option bytes_string (vstr (slot_val (s 2))),
       ust_has_user_id = slot_has (s 3),
       ust_user_id = v32 (slot_val (s 3)),
       ust_has_channel_id = slot_has (s 4),
       ust_channel_id = v32 (slot_val (s 4)),
       ust_has_mute = slot_has (s 5),
       ust_mute = vbool (slot_val (s 5)),
       ust_has_deaf = slot_has (s 6),
       ust_deaf = vbool (slot_val (s 6)),
       ust_has_suppress = slot_has (s 7),
       ust_suppress = vbool (slot_val (s 7)),
       ust_has_self_mute = slot_has (s 8),
       ust_self_mute = vbool (slot_val (s 8)),
       ust_has_self_deaf = slot_has (s 9),
       ust_self_deaf = vbool (slot_val (s 9)),
       ust_has_texture = slot_has (s 10),
       ust_texture = vbytes (slot_val (s 10)),
       ust_has_plugin_context = slot_has (s 11),
       ust_plugin_context = vbytes (slot_val (s 11)),
       ust_plugin_identity = map_option bytes_string (vstr (slot_val (s 12))),
       ust_comment = map_option bytes_string (vstr (slot_val (s 13))),
       ust_hash = map_option bytes_string (vstr (slot_val (s 14))),
       ust_has_comment_hash = slot_has (s 15),
       ust_comment_hash = vbytes (slot_val (s 15)),
       ust_has_texture_hash = slot_has (s 16),
       ust_texture_hash = vbytes (slot_val (s 16)),
       ust_has_priority_speaker = slot_has (s 17),
       ust_priority_speaker = vbool (slot_val (s 17)),
       ust_has_recording = slot_has (s 18),
       ust_recording = vbool (slot_val (s 18))\<rparr>)"

definition TextMessage_msg :: "mp_TextMessage \<Rightarrow> msg" where
  "TextMessage_msg p = Msg mumble_proto__text_message__descriptor
     [Opt (txt_has_actor p) (V32 (txt_actor p)),
      Rep (map V32 (txt_session p)),
      Rep (map V32 (txt_channel_id p)),
      Rep (map V32 (txt_tree_id p)),
      One (VStr (map_option string_bytes (txt_message p)))] []"

definition msg_TextMessage :: "msg \<Rightarrow> mp_TextMessage" where
  "msg_TextMessage m =
     (let s = (!) (m_slots m) in
      \<lparr>txt_has_actor = slot_has (s 0),
       txt_actor = v32 (slot_val (s 0)),
       txt_session = map v32 (slot_vals (s 1)),
       txt_channel_id = map v32 (slot_vals (s 2)),
       txt_tree_id = map v32 (slot_vals (s 3)),
       txt_message = map_option bytes_string (vstr (slot_val (s 4)))\<rparr>)"

definition PermissionDenied_msg :: "mp_PermissionDenied \<Rightarrow> msg" where
  "PermissionDenied_msg p = Msg mumble_proto__permission_denied__descriptor
     [Opt (deny_has_permission p) (V32 (deny_permission p)),
      Opt (deny_has_channel_id p) (V32 (deny_channel_id p)),
      Opt (deny_has_session p) (V32 (deny_session p)),
      One (VStr (map_option string_bytes (deny_reason p))),
      Opt (deny_has_type p) (V32 (deny_num (deny_type p))),
      One (VStr (map_option string_bytes (deny_name p)))] []"

definition msg_PermissionDenied :: "msg \<Rightarrow> mp_PermissionDenied" where
  "msg_PermissionDenied m =
     (let s = (!) (m_slots m) in
      \<lparr>deny_has_permission = slot_has (s 0),
       deny_permission = v32 (slot_val (s 0)),
       deny_has_channel_id = slot_has (s 1),
       deny_channel_id = v32 (slot_val (s 1)),
       deny_has_session = slot_has (s 2),
       deny_session = v32 (slot_val (s 2)),
       deny_reason = map_option bytes_string (vstr (slot_val (s 3))),
       deny_has_type = slot_has (s 4),
       deny_type = deny_of_num (v32 (slot_val (s 4))),
       deny_name = map_option bytes_string (vstr (slot_val (s 5)))\<rparr>)"

definition CryptSetup_msg :: "mp_CryptSetup \<Rightarrow> msg" where
  "CryptSetup_msg p = Msg mumble_proto__crypt_setup__descriptor
     [Opt (crs_has_key p) (VBytes (crs_key p)),
      Opt (crs_has_client_nonce p) (VBytes (crs_client_nonce p)),
      Opt (crs_has_server_nonce p) (VBytes (crs_server_nonce p))] []"

definition msg_CryptSetup :: "msg \<Rightarrow> mp_CryptSetup" where
  "msg_CryptSetup m =
     (let s = (!) (m_slots m) in
      \<lparr>crs_has_key = slot_has (s 0),
       crs_key = vbytes (slot_val (s 0)),
       crs_has_client_nonce = slot_has (s 1),
       crs_client_nonce = vbytes (slot_val (s 1)),
       crs_has_server_nonce = slot_has (s 2),
       crs_server_nonce = vbytes (slot_val (s 2))\<rparr>)"

definition UserList__User_msg :: "mp_UserList__User \<Rightarrow> msg" where
  "UserList__User_msg p = Msg mumble_proto__user_list__user__descriptor
     [One (V32 (usr_user_id p)),
      One (VStr (map_option string_bytes (usr_name p)))] []"

definition msg_UserList__User :: "msg \<Rightarrow> mp_UserList__User" where
  "msg_UserList__User m =
     (let s = (!) (m_slots m) in
      \<lparr>usr_user_id = v32 (slot_val (s 0)),
       usr_name = map_option bytes_string (vstr (slot_val (s 1)))\<rparr>)"

definition UserList_msg :: "mp_UserList \<Rightarrow> msg" where
  "UserList_msg p = Msg mumble_proto__user_list__descriptor
     [Rep (map (\<lambda>x. VMsg (Some (UserList__User_msg x))) (ulist_users p))] []"

definition msg_UserList :: "msg \<Rightarrow> mp_UserList" where
  "msg_UserList m =
     (let s = (!) (m_slots m) in
      \<lparr>ulist_users = map (\<lambda>v. msg_UserList__User (the (vmsg v))) (slot_vals (s 0))\<rparr>)"

definition VoiceTarget__Target_msg :: "mp_VoiceTarget__Target \<Rightarrow> msg" where
  "VoiceTarget__Target_msg p = Msg mumble_proto__voice_target__target__descriptor
     [Rep (map V32 (vtt_session p)),
      Opt (vtt_has_channel_id p) (V32 (vtt_channel_id p)),
      One (VStr (map_option string_bytes (vtt_group p))),
      Opt (vtt_has_links p) (VBool (vtt_links p)),
      Opt (vtt_has_children p) (VBool (vtt_children p))] []"

definition msg_VoiceTarget__Target :: "msg \<Rightarrow> mp_VoiceTarget__Target" where
  "msg_VoiceTarget__Target m =
     (let s = (!) (m_slots m) in
      \<lparr>vtt_session = map v32 (slot_vals (s 0)),
       vtt_has_channel_id = slot_has (s 1),
       vtt_channel_id = v32 (slot_val (s 1)),
       vtt_group = map_option bytes_string (vstr (slot_val (s 2))),
       vtt_has_links = slot_has (s 3),
       vtt_links = vbool (slot_val (s 3)),
       vtt_has_children = slot_has (s 4),
       vtt_children = vbool (slot_val (s 4))\<rparr>)"

definition VoiceTarget_msg :: "mp_VoiceTarget \<Rightarrow> msg" where
  "VoiceTarget_msg p = Msg mumble_proto__voice_target__descriptor
     [Opt (vt_has_id p) (V32 (vt_id p)),
      Rep (map (\<lambda>x. VMsg (Some (VoiceTarget__Target_msg x))) (vt_targets p))] []"

definition msg_VoiceTarget :: "msg \<Rightarrow> mp_VoiceTarget" where
  "msg_VoiceTarget m =
     (let s = (!) (m_slots m) in
      \<lparr>vt_has_id = slot_has (s 0),
       vt_id = v32 (slot_val (s 0)),
       vt_targets = map (\<lambda>v. msg_VoiceTarget__Target (the (vmsg v))) (slot_vals (s 1))\<rparr>)"

definition PermissionQuery_msg :: "mp_PermissionQuery \<Rightarrow> msg" where
  "PermissionQuery_msg p = Msg mumble_proto__permission_query__descriptor
     [Opt (pq_has_channel_id p) (V32 (pq_channel_id p)),
      Opt (pq_has_permissions p) (V32 (pq_permissions p)),
      Opt (pq_has_flush p) (VBool (pq_flush p))] []"

definition msg_PermissionQuery :: "msg \<Rightarrow> mp_PermissionQuery" where
  "msg_PermissionQuery m =
     (let s = (!) (m_slots m) in
      \<lparr>pq_has_channel_id = slot_has (s 0),
       pq_channel_id = v32 (slot_val (s 0)),
       pq_has_permissions = slot_has (s 1),
       pq_permissions = v32 (slot_val (s 1)),
       pq_has_flush = slot_has (s 2),
       pq_flush = vbool (slot_val (s 2))\<rparr>)"

definition CodecVersion_msg :: "mp_CodecVersion \<Rightarrow> msg" where
  "CodecVersion_msg p = Msg mumble_proto__codec_version__descriptor
     [One (V32 (cdv_alpha p)),
      One (V32 (cdv_beta p)),
      One (VBool (cdv_prefer_alpha p))] []"

definition msg_CodecVersion :: "msg \<Rightarrow> mp_CodecVersion" where
  "msg_CodecVersion m =
     (let s = (!) (m_slots m) in
      \<lparr>cdv_alpha = v32 (slot_val (s 0)),
       cdv_beta = v32 (slot_val (s 1)),
       cdv_prefer_alpha = vbool (slot_val (s 2))\<rparr>)"

definition UserStats__Stats_msg :: "mp_UserStats__Stats \<Rightarrow> msg" where
  "UserStats__Stats_msg p = Msg mumble_proto__user_stats__stats__descriptor
     [Opt (stat_has_good p) (V32 (stat_good p)),
      Opt (stat_has_late p) (V32 (stat_late p)),
      Opt (stat_has_lost p) (V32 (stat_lost p)),
      Opt (stat_has_resync p) (V32 (stat_resync p))] []"

definition msg_UserStats__Stats :: "msg \<Rightarrow> mp_UserStats__Stats" where
  "msg_UserStats__Stats m =
     (let s = (!) (m_slots m) in
      \<lparr>stat_has_good = slot_has (s 0),
       stat_good = v32 (slot_val (s 0)),
       stat_has_late = slot_has (s 1),
       stat_late = v32 (slot_val (s 1)),
       stat_has_lost = slot_has (s 2),
       stat_lost = v32 (slot_val (s 2)),
       stat_has_resync = slot_has (s 3),
       stat_resync = v32 (slot_val (s 3))\<rparr>)"

definition UserStats_msg :: "mp_UserStats \<Rightarrow> msg" where
  "UserStats_msg p = Msg mumble_proto__user_stats__descriptor
     [Opt (stats_has_session p) (V32 (stats_session p)),
      Opt (stats_has_stats_only p) (VBool (stats_stats_only p)),
      Rep (map VBytes (stats_certificates p)),
      One (VMsg (map_option UserStats__Stats_msg (stats_from_client p))),
      One (VMsg (map_option UserStats__Stats_msg (stats_from_server p))),
      Opt (stats_has_udp_packets p) (V32 (stats_udp_packets p)),
      Opt (stats_has_tcp_packets p) (V32 (stats_tcp_packets p)),
      Opt (stats_has_udp_ping_avg p) (V32 (stats_udp_ping_avg p)),
      Opt (stats_has_udp_ping_var p) (V32 (stats_udp_ping_var p)),
      Opt (stats_has_tcp_ping_avg p) (V32 (stats_tcp_ping_avg p)),
      Opt (stats_has_tcp_ping_var p) (V32 (stats_tcp_ping_var p)),
      One (VMsg (map_option Version_msg (stats_version p))),
      Rep (map V32 (stats_celt_versions p)),
      Opt (stats_has_address p) (VBytes (stats_address p)),
      Opt (stats_has_bandwidth p) (V32 (stats_bandwidth p)),
      Opt (stats_has_onlinesecs p) (V32 (stats_onlinesecs p)),
      Opt (stats_has_idlesecs p) (V32 (stats_idlesecs p)),
      Opt (stats_has_strong_certificate p) (VBool (stats_strong_certificate p))] []"

definition msg_UserStats :: "msg \<Rightarrow> mp_UserStats" where
  "msg_UserStats m =
     (let s = (!) (m_slots m) in
      \<lparr>stats_has_session = slot_has (s 0),
       stats_session = v32 (slot_val (s 0)),
       stats_has_stats_only = slot_has (s 1),
       stats_stats_only = vbool (slot_val (s 1)),
       stats_certificates = map vbytes (slot_vals (s 2)),
       stats_from_client = map_option msg_UserStats__Stats (vmsg (slot_val (s 3))),
       stats_from_server = map_option msg_UserStats__Stats (vmsg (slot_val (s 4))),
       stats_has_udp_packets = slot_has (s 5),
       stats_udp_packets = v32 (slot_val (s 5)),
       stats_has_tcp_packets = slot_has (s 6),
       stats_tcp_packets = v32 (slot_val (s 6)),
       stats_has_udp_ping_avg = slot_has (s 7),
       stats_udp_ping_avg = v32 (slot_val (s 7)),
       stats_has_udp_ping_var = slot_has (s 8),
       stats_udp_ping_var = v32 (slot_val (s 8)),
       stats_has_tcp_ping_avg = slot_has (s 9),
       stats_tcp_ping_avg = v32 (slot_val (s 9)),
       stats_has_tcp_ping_var = slot_has (s 10),
       stats_tcp_ping_var = v32 (slot_val (s 10)),
       stats_version = map_option msg_Version (vmsg (slot_val (s 11))),
       stats_celt_versions = map v32 (slot_vals (s 12)),
       stats_has_address = slot_has (s 13),
       stats_address = vbytes (slot_val (s 13)),
       stats_has_bandwidth = slot_has (s 14),
       stats_bandwidth = v32 (slot_val (s 14)),
       stats_has_onlinesecs = slot_has (s 15),
       stats_onlinesecs = v32 (slot_val (s 15)),
       stats_has_idlesecs = slot_has (s 16),
       stats_idlesecs = v32 (slot_val (s 16)),
       stats_has_strong_certificate = slot_has (s 17),
       stats_strong_certificate = vbool (slot_val (s 17))\<rparr>)"

section \<open>The generated functions\<close>

definition mumble_proto__version__init :: mp_Version where
  "mumble_proto__version__init = init_Version"

definition mumble_proto__udptunnel__init :: mp_UDPTunnel where
  "mumble_proto__udptunnel__init = init_UDPTunnel"

definition mumble_proto__authenticate__init :: mp_Authenticate where
  "mumble_proto__authenticate__init = init_Authenticate"

definition mumble_proto__ping__init :: mp_Ping where
  "mumble_proto__ping__init = init_Ping"

definition mumble_proto__reject__init :: mp_Reject where
  "mumble_proto__reject__init = init_Reject"

definition mumble_proto__server_config__init :: mp_ServerConfig where
  "mumble_proto__server_config__init = init_ServerConfig"

definition mumble_proto__server_sync__init :: mp_ServerSync where
  "mumble_proto__server_sync__init = init_ServerSync"

definition mumble_proto__channel_remove__init :: mp_ChannelRemove where
  "mumble_proto__channel_remove__init = init_ChannelRemove"

definition mumble_proto__channel_state__init :: mp_ChannelState where
  "mumble_proto__channel_state__init = init_ChannelState"

definition mumble_proto__user_remove__init :: mp_UserRemove where
  "mumble_proto__user_remove__init = init_UserRemove"

definition mumble_proto__user_state__init :: mp_UserState where
  "mumble_proto__user_state__init = init_UserState"

definition mumble_proto__text_message__init :: mp_TextMessage where
  "mumble_proto__text_message__init = init_TextMessage"

definition mumble_proto__permission_denied__init :: mp_PermissionDenied where
  "mumble_proto__permission_denied__init = init_PermissionDenied"

definition mumble_proto__crypt_setup__init :: mp_CryptSetup where
  "mumble_proto__crypt_setup__init = init_CryptSetup"

definition mumble_proto__user_list__init :: mp_UserList where
  "mumble_proto__user_list__init = init_UserList"

definition mumble_proto__voice_target__init :: mp_VoiceTarget where
  "mumble_proto__voice_target__init = init_VoiceTarget"

definition mumble_proto__permission_query__init :: mp_PermissionQuery where
  "mumble_proto__permission_query__init = init_PermissionQuery"

definition mumble_proto__codec_version__init :: mp_CodecVersion where
  "mumble_proto__codec_version__init = init_CodecVersion"

definition mumble_proto__user_stats__init :: mp_UserStats where
  "mumble_proto__user_stats__init = init_UserStats"

definition mumble_proto__version__get_packed_size :: "mp_Version \<Rightarrow> nat" where
  "mumble_proto__version__get_packed_size message = protobuf_c_message_get_packed_size (Version_msg message)"

definition mumble_proto__version__pack :: "mp_Version \<Rightarrow> byte list" where
  "mumble_proto__version__pack message = protobuf_c_message_pack (Version_msg message)"

definition mumble_proto__version__unpack :: "byte list \<Rightarrow> mp_Version parsed" where
  "mumble_proto__version__unpack data = and_then (protobuf_c_message_unpack mumble_proto__version__descriptor data) (\<lambda>m. Parsed (msg_Version m))"

definition mumble_proto__udptunnel__get_packed_size :: "mp_UDPTunnel \<Rightarrow> nat" where
  "mumble_proto__udptunnel__get_packed_size message = protobuf_c_message_get_packed_size (UDPTunnel_msg message)"

definition mumble_proto__udptunnel__pack :: "mp_UDPTunnel \<Rightarrow> byte list" where
  "mumble_proto__udptunnel__pack message = protobuf_c_message_pack (UDPTunnel_msg message)"

definition mumble_proto__udptunnel__unpack :: "byte list \<Rightarrow> mp_UDPTunnel parsed" where
  "mumble_proto__udptunnel__unpack data = and_then (protobuf_c_message_unpack mumble_proto__udptunnel__descriptor data) (\<lambda>m. Parsed (msg_UDPTunnel m))"

definition mumble_proto__authenticate__get_packed_size :: "mp_Authenticate \<Rightarrow> nat" where
  "mumble_proto__authenticate__get_packed_size message = protobuf_c_message_get_packed_size (Authenticate_msg message)"

definition mumble_proto__authenticate__pack :: "mp_Authenticate \<Rightarrow> byte list" where
  "mumble_proto__authenticate__pack message = protobuf_c_message_pack (Authenticate_msg message)"

definition mumble_proto__authenticate__unpack :: "byte list \<Rightarrow> mp_Authenticate parsed" where
  "mumble_proto__authenticate__unpack data = and_then (protobuf_c_message_unpack mumble_proto__authenticate__descriptor data) (\<lambda>m. Parsed (msg_Authenticate m))"

definition mumble_proto__ping__get_packed_size :: "mp_Ping \<Rightarrow> nat" where
  "mumble_proto__ping__get_packed_size message = protobuf_c_message_get_packed_size (Ping_msg message)"

definition mumble_proto__ping__pack :: "mp_Ping \<Rightarrow> byte list" where
  "mumble_proto__ping__pack message = protobuf_c_message_pack (Ping_msg message)"

definition mumble_proto__ping__unpack :: "byte list \<Rightarrow> mp_Ping parsed" where
  "mumble_proto__ping__unpack data = and_then (protobuf_c_message_unpack mumble_proto__ping__descriptor data) (\<lambda>m. Parsed (msg_Ping m))"

definition mumble_proto__reject__get_packed_size :: "mp_Reject \<Rightarrow> nat" where
  "mumble_proto__reject__get_packed_size message = protobuf_c_message_get_packed_size (Reject_msg message)"

definition mumble_proto__reject__pack :: "mp_Reject \<Rightarrow> byte list" where
  "mumble_proto__reject__pack message = protobuf_c_message_pack (Reject_msg message)"

definition mumble_proto__reject__unpack :: "byte list \<Rightarrow> mp_Reject parsed" where
  "mumble_proto__reject__unpack data = and_then (protobuf_c_message_unpack mumble_proto__reject__descriptor data) (\<lambda>m. Parsed (msg_Reject m))"

definition mumble_proto__server_config__get_packed_size :: "mp_ServerConfig \<Rightarrow> nat" where
  "mumble_proto__server_config__get_packed_size message = protobuf_c_message_get_packed_size (ServerConfig_msg message)"

definition mumble_proto__server_config__pack :: "mp_ServerConfig \<Rightarrow> byte list" where
  "mumble_proto__server_config__pack message = protobuf_c_message_pack (ServerConfig_msg message)"

definition mumble_proto__server_config__unpack :: "byte list \<Rightarrow> mp_ServerConfig parsed" where
  "mumble_proto__server_config__unpack data = and_then (protobuf_c_message_unpack mumble_proto__server_config__descriptor data) (\<lambda>m. Parsed (msg_ServerConfig m))"

definition mumble_proto__server_sync__get_packed_size :: "mp_ServerSync \<Rightarrow> nat" where
  "mumble_proto__server_sync__get_packed_size message = protobuf_c_message_get_packed_size (ServerSync_msg message)"

definition mumble_proto__server_sync__pack :: "mp_ServerSync \<Rightarrow> byte list" where
  "mumble_proto__server_sync__pack message = protobuf_c_message_pack (ServerSync_msg message)"

definition mumble_proto__server_sync__unpack :: "byte list \<Rightarrow> mp_ServerSync parsed" where
  "mumble_proto__server_sync__unpack data = and_then (protobuf_c_message_unpack mumble_proto__server_sync__descriptor data) (\<lambda>m. Parsed (msg_ServerSync m))"

definition mumble_proto__channel_remove__get_packed_size :: "mp_ChannelRemove \<Rightarrow> nat" where
  "mumble_proto__channel_remove__get_packed_size message = protobuf_c_message_get_packed_size (ChannelRemove_msg message)"

definition mumble_proto__channel_remove__pack :: "mp_ChannelRemove \<Rightarrow> byte list" where
  "mumble_proto__channel_remove__pack message = protobuf_c_message_pack (ChannelRemove_msg message)"

definition mumble_proto__channel_remove__unpack :: "byte list \<Rightarrow> mp_ChannelRemove parsed" where
  "mumble_proto__channel_remove__unpack data = and_then (protobuf_c_message_unpack mumble_proto__channel_remove__descriptor data) (\<lambda>m. Parsed (msg_ChannelRemove m))"

definition mumble_proto__channel_state__get_packed_size :: "mp_ChannelState \<Rightarrow> nat" where
  "mumble_proto__channel_state__get_packed_size message = protobuf_c_message_get_packed_size (ChannelState_msg message)"

definition mumble_proto__channel_state__pack :: "mp_ChannelState \<Rightarrow> byte list" where
  "mumble_proto__channel_state__pack message = protobuf_c_message_pack (ChannelState_msg message)"

definition mumble_proto__channel_state__unpack :: "byte list \<Rightarrow> mp_ChannelState parsed" where
  "mumble_proto__channel_state__unpack data = and_then (protobuf_c_message_unpack mumble_proto__channel_state__descriptor data) (\<lambda>m. Parsed (msg_ChannelState m))"

definition mumble_proto__user_remove__get_packed_size :: "mp_UserRemove \<Rightarrow> nat" where
  "mumble_proto__user_remove__get_packed_size message = protobuf_c_message_get_packed_size (UserRemove_msg message)"

definition mumble_proto__user_remove__pack :: "mp_UserRemove \<Rightarrow> byte list" where
  "mumble_proto__user_remove__pack message = protobuf_c_message_pack (UserRemove_msg message)"

definition mumble_proto__user_remove__unpack :: "byte list \<Rightarrow> mp_UserRemove parsed" where
  "mumble_proto__user_remove__unpack data = and_then (protobuf_c_message_unpack mumble_proto__user_remove__descriptor data) (\<lambda>m. Parsed (msg_UserRemove m))"

definition mumble_proto__user_state__get_packed_size :: "mp_UserState \<Rightarrow> nat" where
  "mumble_proto__user_state__get_packed_size message = protobuf_c_message_get_packed_size (UserState_msg message)"

definition mumble_proto__user_state__pack :: "mp_UserState \<Rightarrow> byte list" where
  "mumble_proto__user_state__pack message = protobuf_c_message_pack (UserState_msg message)"

definition mumble_proto__user_state__unpack :: "byte list \<Rightarrow> mp_UserState parsed" where
  "mumble_proto__user_state__unpack data = and_then (protobuf_c_message_unpack mumble_proto__user_state__descriptor data) (\<lambda>m. Parsed (msg_UserState m))"

definition mumble_proto__text_message__get_packed_size :: "mp_TextMessage \<Rightarrow> nat" where
  "mumble_proto__text_message__get_packed_size message = protobuf_c_message_get_packed_size (TextMessage_msg message)"

definition mumble_proto__text_message__pack :: "mp_TextMessage \<Rightarrow> byte list" where
  "mumble_proto__text_message__pack message = protobuf_c_message_pack (TextMessage_msg message)"

definition mumble_proto__text_message__unpack :: "byte list \<Rightarrow> mp_TextMessage parsed" where
  "mumble_proto__text_message__unpack data = and_then (protobuf_c_message_unpack mumble_proto__text_message__descriptor data) (\<lambda>m. Parsed (msg_TextMessage m))"

definition mumble_proto__permission_denied__get_packed_size :: "mp_PermissionDenied \<Rightarrow> nat" where
  "mumble_proto__permission_denied__get_packed_size message = protobuf_c_message_get_packed_size (PermissionDenied_msg message)"

definition mumble_proto__permission_denied__pack :: "mp_PermissionDenied \<Rightarrow> byte list" where
  "mumble_proto__permission_denied__pack message = protobuf_c_message_pack (PermissionDenied_msg message)"

definition mumble_proto__permission_denied__unpack :: "byte list \<Rightarrow> mp_PermissionDenied parsed" where
  "mumble_proto__permission_denied__unpack data = and_then (protobuf_c_message_unpack mumble_proto__permission_denied__descriptor data) (\<lambda>m. Parsed (msg_PermissionDenied m))"

definition mumble_proto__crypt_setup__get_packed_size :: "mp_CryptSetup \<Rightarrow> nat" where
  "mumble_proto__crypt_setup__get_packed_size message = protobuf_c_message_get_packed_size (CryptSetup_msg message)"

definition mumble_proto__crypt_setup__pack :: "mp_CryptSetup \<Rightarrow> byte list" where
  "mumble_proto__crypt_setup__pack message = protobuf_c_message_pack (CryptSetup_msg message)"

definition mumble_proto__crypt_setup__unpack :: "byte list \<Rightarrow> mp_CryptSetup parsed" where
  "mumble_proto__crypt_setup__unpack data = and_then (protobuf_c_message_unpack mumble_proto__crypt_setup__descriptor data) (\<lambda>m. Parsed (msg_CryptSetup m))"

definition mumble_proto__user_list__get_packed_size :: "mp_UserList \<Rightarrow> nat" where
  "mumble_proto__user_list__get_packed_size message = protobuf_c_message_get_packed_size (UserList_msg message)"

definition mumble_proto__user_list__pack :: "mp_UserList \<Rightarrow> byte list" where
  "mumble_proto__user_list__pack message = protobuf_c_message_pack (UserList_msg message)"

definition mumble_proto__user_list__unpack :: "byte list \<Rightarrow> mp_UserList parsed" where
  "mumble_proto__user_list__unpack data = and_then (protobuf_c_message_unpack mumble_proto__user_list__descriptor data) (\<lambda>m. Parsed (msg_UserList m))"

definition mumble_proto__voice_target__get_packed_size :: "mp_VoiceTarget \<Rightarrow> nat" where
  "mumble_proto__voice_target__get_packed_size message = protobuf_c_message_get_packed_size (VoiceTarget_msg message)"

definition mumble_proto__voice_target__pack :: "mp_VoiceTarget \<Rightarrow> byte list" where
  "mumble_proto__voice_target__pack message = protobuf_c_message_pack (VoiceTarget_msg message)"

definition mumble_proto__voice_target__unpack :: "byte list \<Rightarrow> mp_VoiceTarget parsed" where
  "mumble_proto__voice_target__unpack data = and_then (protobuf_c_message_unpack mumble_proto__voice_target__descriptor data) (\<lambda>m. Parsed (msg_VoiceTarget m))"

definition mumble_proto__permission_query__get_packed_size :: "mp_PermissionQuery \<Rightarrow> nat" where
  "mumble_proto__permission_query__get_packed_size message = protobuf_c_message_get_packed_size (PermissionQuery_msg message)"

definition mumble_proto__permission_query__pack :: "mp_PermissionQuery \<Rightarrow> byte list" where
  "mumble_proto__permission_query__pack message = protobuf_c_message_pack (PermissionQuery_msg message)"

definition mumble_proto__permission_query__unpack :: "byte list \<Rightarrow> mp_PermissionQuery parsed" where
  "mumble_proto__permission_query__unpack data = and_then (protobuf_c_message_unpack mumble_proto__permission_query__descriptor data) (\<lambda>m. Parsed (msg_PermissionQuery m))"

definition mumble_proto__codec_version__get_packed_size :: "mp_CodecVersion \<Rightarrow> nat" where
  "mumble_proto__codec_version__get_packed_size message = protobuf_c_message_get_packed_size (CodecVersion_msg message)"

definition mumble_proto__codec_version__pack :: "mp_CodecVersion \<Rightarrow> byte list" where
  "mumble_proto__codec_version__pack message = protobuf_c_message_pack (CodecVersion_msg message)"

definition mumble_proto__codec_version__unpack :: "byte list \<Rightarrow> mp_CodecVersion parsed" where
  "mumble_proto__codec_version__unpack data = and_then (protobuf_c_message_unpack mumble_proto__codec_version__descriptor data) (\<lambda>m. Parsed (msg_CodecVersion m))"

definition mumble_proto__user_stats__get_packed_size :: "mp_UserStats \<Rightarrow> nat" where
  "mumble_proto__user_stats__get_packed_size message = protobuf_c_message_get_packed_size (UserStats_msg message)"

definition mumble_proto__user_stats__pack :: "mp_UserStats \<Rightarrow> byte list" where
  "mumble_proto__user_stats__pack message = protobuf_c_message_pack (UserStats_msg message)"

definition mumble_proto__user_stats__unpack :: "byte list \<Rightarrow> mp_UserStats parsed" where
  "mumble_proto__user_stats__unpack data = and_then (protobuf_c_message_unpack mumble_proto__user_stats__descriptor data) (\<lambda>m. Parsed (msg_UserStats m))"

lemmas generated_inits =
  mumble_proto__version__init_def init_Version_def Version_msg_def
  mumble_proto__version__descriptor_def mumble_proto__version__field_descriptors_def
  mumble_proto__udptunnel__init_def init_UDPTunnel_def UDPTunnel_msg_def
  mumble_proto__udptunnel__descriptor_def mumble_proto__udptunnel__field_descriptors_def
  mumble_proto__authenticate__init_def init_Authenticate_def Authenticate_msg_def
  mumble_proto__authenticate__descriptor_def mumble_proto__authenticate__field_descriptors_def
  mumble_proto__ping__init_def init_Ping_def Ping_msg_def
  mumble_proto__ping__descriptor_def mumble_proto__ping__field_descriptors_def
  mumble_proto__reject__init_def init_Reject_def Reject_msg_def
  mumble_proto__reject__descriptor_def mumble_proto__reject__field_descriptors_def
  mumble_proto__server_config__init_def init_ServerConfig_def ServerConfig_msg_def
  mumble_proto__server_config__descriptor_def mumble_proto__server_config__field_descriptors_def
  mumble_proto__server_sync__init_def init_ServerSync_def ServerSync_msg_def
  mumble_proto__server_sync__descriptor_def mumble_proto__server_sync__field_descriptors_def
  mumble_proto__channel_remove__init_def init_ChannelRemove_def ChannelRemove_msg_def
  mumble_proto__channel_remove__descriptor_def mumble_proto__channel_remove__field_descriptors_def
  mumble_proto__channel_state__init_def init_ChannelState_def ChannelState_msg_def
  mumble_proto__channel_state__descriptor_def mumble_proto__channel_state__field_descriptors_def
  mumble_proto__user_remove__init_def init_UserRemove_def UserRemove_msg_def
  mumble_proto__user_remove__descriptor_def mumble_proto__user_remove__field_descriptors_def
  mumble_proto__user_state__init_def init_UserState_def UserState_msg_def
  mumble_proto__user_state__descriptor_def mumble_proto__user_state__field_descriptors_def
  mumble_proto__text_message__init_def init_TextMessage_def TextMessage_msg_def
  mumble_proto__text_message__descriptor_def mumble_proto__text_message__field_descriptors_def
  mumble_proto__permission_denied__init_def init_PermissionDenied_def PermissionDenied_msg_def
  mumble_proto__permission_denied__descriptor_def mumble_proto__permission_denied__field_descriptors_def
  mumble_proto__crypt_setup__init_def init_CryptSetup_def CryptSetup_msg_def
  mumble_proto__crypt_setup__descriptor_def mumble_proto__crypt_setup__field_descriptors_def
  mumble_proto__user_list__init_def init_UserList_def UserList_msg_def
  mumble_proto__user_list__descriptor_def mumble_proto__user_list__field_descriptors_def
  mumble_proto__voice_target__init_def init_VoiceTarget_def VoiceTarget_msg_def
  mumble_proto__voice_target__descriptor_def mumble_proto__voice_target__field_descriptors_def
  mumble_proto__permission_query__init_def init_PermissionQuery_def PermissionQuery_msg_def
  mumble_proto__permission_query__descriptor_def mumble_proto__permission_query__field_descriptors_def
  mumble_proto__codec_version__init_def init_CodecVersion_def CodecVersion_msg_def
  mumble_proto__codec_version__descriptor_def mumble_proto__codec_version__field_descriptors_def
  mumble_proto__user_stats__init_def init_UserStats_def UserStats_msg_def
  mumble_proto__user_stats__descriptor_def mumble_proto__user_stats__field_descriptors_def

text \<open>The initial messages of the generated code are those of the generic initialisation.\<close>

lemma generated_init:
  "Version_msg mumble_proto__version__init =
    protobuf_c_message_init_generic mumble_proto__version__descriptor"
  "UDPTunnel_msg mumble_proto__udptunnel__init =
    protobuf_c_message_init_generic mumble_proto__udptunnel__descriptor"
  "Authenticate_msg mumble_proto__authenticate__init =
    protobuf_c_message_init_generic mumble_proto__authenticate__descriptor"
  "Ping_msg mumble_proto__ping__init =
    protobuf_c_message_init_generic mumble_proto__ping__descriptor"
  "Reject_msg mumble_proto__reject__init =
    protobuf_c_message_init_generic mumble_proto__reject__descriptor"
  "ServerConfig_msg mumble_proto__server_config__init =
    protobuf_c_message_init_generic mumble_proto__server_config__descriptor"
  "ServerSync_msg mumble_proto__server_sync__init =
    protobuf_c_message_init_generic mumble_proto__server_sync__descriptor"
  "ChannelRemove_msg mumble_proto__channel_remove__init =
    protobuf_c_message_init_generic mumble_proto__channel_remove__descriptor"
  "ChannelState_msg mumble_proto__channel_state__init =
    protobuf_c_message_init_generic mumble_proto__channel_state__descriptor"
  "UserRemove_msg mumble_proto__user_remove__init =
    protobuf_c_message_init_generic mumble_proto__user_remove__descriptor"
  "UserState_msg mumble_proto__user_state__init =
    protobuf_c_message_init_generic mumble_proto__user_state__descriptor"
  "TextMessage_msg mumble_proto__text_message__init =
    protobuf_c_message_init_generic mumble_proto__text_message__descriptor"
  "PermissionDenied_msg mumble_proto__permission_denied__init =
    protobuf_c_message_init_generic mumble_proto__permission_denied__descriptor"
  "CryptSetup_msg mumble_proto__crypt_setup__init =
    protobuf_c_message_init_generic mumble_proto__crypt_setup__descriptor"
  "UserList_msg mumble_proto__user_list__init =
    protobuf_c_message_init_generic mumble_proto__user_list__descriptor"
  "VoiceTarget_msg mumble_proto__voice_target__init =
    protobuf_c_message_init_generic mumble_proto__voice_target__descriptor"
  "PermissionQuery_msg mumble_proto__permission_query__init =
    protobuf_c_message_init_generic mumble_proto__permission_query__descriptor"
  "CodecVersion_msg mumble_proto__codec_version__init =
    protobuf_c_message_init_generic mumble_proto__codec_version__descriptor"
  "UserStats_msg mumble_proto__user_stats__init =
    protobuf_c_message_init_generic mumble_proto__user_stats__descriptor"
  by (simp_all add: generated_inits protobuf_c_message_init_generic_def init_slot_def init_val_def)

section \<open>By message type\<close>

text \<open>The calls of the switches in \<open>Msg_messageToNetwork\<close> and \<open>Msg_networkToMessage\<close>.\<close>

fun payload_msg :: "payload \<Rightarrow> msg option" where
  "payload_msg (P_Version p) = Some (Version_msg p)"
| "payload_msg (P_UDPTunnel p) = Some (UDPTunnel_msg p)"
| "payload_msg (P_Authenticate p) = Some (Authenticate_msg p)"
| "payload_msg (P_Ping p) = Some (Ping_msg p)"
| "payload_msg (P_Reject p) = Some (Reject_msg p)"
| "payload_msg (P_ServerConfig p) = Some (ServerConfig_msg p)"
| "payload_msg (P_ServerSync p) = Some (ServerSync_msg p)"
| "payload_msg (P_ChannelRemove p) = Some (ChannelRemove_msg p)"
| "payload_msg (P_ChannelState p) = Some (ChannelState_msg p)"
| "payload_msg (P_UserRemove p) = Some (UserRemove_msg p)"
| "payload_msg (P_UserState p) = Some (UserState_msg p)"
| "payload_msg (P_TextMessage p) = Some (TextMessage_msg p)"
| "payload_msg (P_PermissionDenied p) = Some (PermissionDenied_msg p)"
| "payload_msg (P_CryptSetup p) = Some (CryptSetup_msg p)"
| "payload_msg (P_UserList p) = Some (UserList_msg p)"
| "payload_msg (P_VoiceTarget p) = Some (VoiceTarget_msg p)"
| "payload_msg (P_PermissionQuery p) = Some (PermissionQuery_msg p)"
| "payload_msg (P_CodecVersion p) = Some (CodecVersion_msg p)"
| "payload_msg (P_UserStats p) = Some (UserStats_msg p)"
| "payload_msg (P_none t) = None"

fun payload_pack :: "payload \<Rightarrow> byte list" where
  "payload_pack (P_Version p) = mumble_proto__version__pack p"
| "payload_pack (P_UDPTunnel p) = mumble_proto__udptunnel__pack p"
| "payload_pack (P_Authenticate p) = mumble_proto__authenticate__pack p"
| "payload_pack (P_Ping p) = mumble_proto__ping__pack p"
| "payload_pack (P_Reject p) = mumble_proto__reject__pack p"
| "payload_pack (P_ServerConfig p) = mumble_proto__server_config__pack p"
| "payload_pack (P_ServerSync p) = mumble_proto__server_sync__pack p"
| "payload_pack (P_ChannelRemove p) = mumble_proto__channel_remove__pack p"
| "payload_pack (P_ChannelState p) = mumble_proto__channel_state__pack p"
| "payload_pack (P_UserRemove p) = mumble_proto__user_remove__pack p"
| "payload_pack (P_UserState p) = mumble_proto__user_state__pack p"
| "payload_pack (P_TextMessage p) = mumble_proto__text_message__pack p"
| "payload_pack (P_PermissionDenied p) = mumble_proto__permission_denied__pack p"
| "payload_pack (P_CryptSetup p) = mumble_proto__crypt_setup__pack p"
| "payload_pack (P_UserList p) = mumble_proto__user_list__pack p"
| "payload_pack (P_VoiceTarget p) = mumble_proto__voice_target__pack p"
| "payload_pack (P_PermissionQuery p) = mumble_proto__permission_query__pack p"
| "payload_pack (P_CodecVersion p) = mumble_proto__codec_version__pack p"
| "payload_pack (P_UserStats p) = mumble_proto__user_stats__pack p"
| "payload_pack (P_none t) = []"

fun payload_unpack :: "messageType \<Rightarrow> byte list \<Rightarrow> payload parsed" where
  "payload_unpack Version data = and_then (mumble_proto__version__unpack data) (\<lambda>p. Parsed (P_Version p))"
| "payload_unpack UDPTunnel data = and_then (mumble_proto__udptunnel__unpack data) (\<lambda>p. Parsed (P_UDPTunnel p))"
| "payload_unpack Authenticate data = and_then (mumble_proto__authenticate__unpack data) (\<lambda>p. Parsed (P_Authenticate p))"
| "payload_unpack Ping data = and_then (mumble_proto__ping__unpack data) (\<lambda>p. Parsed (P_Ping p))"
| "payload_unpack Reject data = and_then (mumble_proto__reject__unpack data) (\<lambda>p. Parsed (P_Reject p))"
| "payload_unpack ServerConfig data = and_then (mumble_proto__server_config__unpack data) (\<lambda>p. Parsed (P_ServerConfig p))"
| "payload_unpack ServerSync data = and_then (mumble_proto__server_sync__unpack data) (\<lambda>p. Parsed (P_ServerSync p))"
| "payload_unpack ChannelRemove data = and_then (mumble_proto__channel_remove__unpack data) (\<lambda>p. Parsed (P_ChannelRemove p))"
| "payload_unpack ChannelState data = and_then (mumble_proto__channel_state__unpack data) (\<lambda>p. Parsed (P_ChannelState p))"
| "payload_unpack UserRemove data = and_then (mumble_proto__user_remove__unpack data) (\<lambda>p. Parsed (P_UserRemove p))"
| "payload_unpack UserState data = and_then (mumble_proto__user_state__unpack data) (\<lambda>p. Parsed (P_UserState p))"
| "payload_unpack TextMessage data = and_then (mumble_proto__text_message__unpack data) (\<lambda>p. Parsed (P_TextMessage p))"
| "payload_unpack PermissionDenied data = and_then (mumble_proto__permission_denied__unpack data) (\<lambda>p. Parsed (P_PermissionDenied p))"
| "payload_unpack CryptSetup data = and_then (mumble_proto__crypt_setup__unpack data) (\<lambda>p. Parsed (P_CryptSetup p))"
| "payload_unpack UserList data = and_then (mumble_proto__user_list__unpack data) (\<lambda>p. Parsed (P_UserList p))"
| "payload_unpack VoiceTarget data = and_then (mumble_proto__voice_target__unpack data) (\<lambda>p. Parsed (P_VoiceTarget p))"
| "payload_unpack PermissionQuery data = and_then (mumble_proto__permission_query__unpack data) (\<lambda>p. Parsed (P_PermissionQuery p))"
| "payload_unpack CodecVersion data = and_then (mumble_proto__codec_version__unpack data) (\<lambda>p. Parsed (P_CodecVersion p))"
| "payload_unpack UserStats data = and_then (mumble_proto__user_stats__unpack data) (\<lambda>p. Parsed (P_UserStats p))"
| "payload_unpack t data = Rejected"

section \<open>Back from the generic message\<close>

definition clean :: "string \<Rightarrow> bool" where
  "clean s \<longleftrightarrow> CHR 0x00 \<notin> set s"

lemma of_char_byte: "unat (of_nat (of_char c) :: byte) = of_char c"
  by (simp add: unat_of_nat)

lemma string_bytes_clean: "0 \<notin> set (string_bytes s) \<longleftrightarrow> clean s"
proof -
  have k: "(of_nat (of_char c) :: byte) = 0 \<longleftrightarrow> c = CHR 0x00" for c
  proof -
    have z: "of_char (CHR 0x00) = (0 :: nat)" by (simp add: of_char_def)
    have "(of_nat (of_char c) :: byte) = 0 \<longleftrightarrow> (of_char c :: nat) = 0"
      unfolding word_unat_eq_iff of_char_byte by (simp only: unsigned_0)
    also have "... \<longleftrightarrow> c = CHR 0x00"
      by (metis z of_char_eq_iff)
    finally show ?thesis .
  qed
  show ?thesis unfolding string_bytes_def clean_def set_map image_iff by (metis k)
qed

lemma bytes_string_bytes [simp]: "clean s \<Longrightarrow> bytes_string (string_bytes s) = s"
  using cstr_id [of "string_bytes s"]
  by (simp add: bytes_string_def string_bytes_clean) (simp add: string_bytes_def of_char_byte o_def)

lemma bytes_string_option: "pred_option clean x \<Longrightarrow> map_option bytes_string (map_option string_bytes x) = x"
  by (cases x) simp_all

lemma value_ok_simps [simp]:
  "value_ok mok T_UINT32 (V32 w)" "value_ok mok T_INT32 (V32 w)" "value_ok mok T_FLOAT (V32 w)"
  "value_ok mok T_ENUM (V32 w)" "value_ok mok T_UINT64 (V64 x)" "value_ok mok T_BOOL (VBool b)"
  "value_ok mok T_BYTES (VBytes bs)"
  "value_ok mok T_STRING (VStr None) = False"
  "value_ok mok T_STRING (VStr (Some (string_bytes s))) = clean s"
  "value_ok mok (T_MESSAGE d) (VMsg None) = False"
  "value_ok mok (T_MESSAGE d) (VMsg (Some m)) = (m_desc m = d \<and> mok m)"
  by (simp_all add: value_ok_def string_bytes_clean)

lemma value_ok_string [simp]:
  "value_ok mok T_STRING (VStr (map_option string_bytes x)) \<longleftrightarrow> x \<noteq> None \<and> pred_option clean x"
  by (cases x) simp_all

lemma slot_ok_simps [simp]:
  "slot_ok mok (Field n i REQUIRED t q df) (One v) = value_ok mok t v"
  "slot_ok mok (Field n i OPTIONAL t True df) (Opt h v) =
     (if h then value_ok mok t v else v = init_val (Field n i OPTIONAL t True df))"
  "slot_ok mok (Field n i REPEATED t q df) (Rep vs) = list_all (value_ok mok t) vs"
  by (simp_all add: slot_ok_def)

lemma slot_ok_string [simp]:
  "slot_ok mok (Field n i OPTIONAL T_STRING False None) (One (VStr (map_option string_bytes x))) = pred_option clean x"
  "slot_ok mok (Field n i OPTIONAL T_STRING False None) (One (VStr (Some (string_bytes s)))) = clean s"
  "slot_ok mok (Field n i OPTIONAL T_STRING False None) (One (VStr None))"
  by (cases x) (simp_all add: slot_ok_def init_val_def)

lemma slot_ok_message [simp]:
  "slot_ok mok (Field n i OPTIONAL (T_MESSAGE d) False None) (One (VMsg (map_option f y))) =
     pred_option (\<lambda>z. m_desc (f z) = d \<and> mok (f z)) y"
  by (cases y) (simp_all add: slot_ok_def init_val_def)

lemma bytes_string_list: "list_all clean xs \<Longrightarrow> map (\<lambda>x. bytes_string (string_bytes x)) xs = xs"
  by (induction xs) simp_all

lemma Version_msg_desc [simp]: "m_desc (Version_msg p) = mumble_proto__version__descriptor"
  by (simp add: Version_msg_def)

lemma Version_msg_back: "msg_ok (Version_msg p) \<Longrightarrow> msg_Version (Version_msg p) = p"
  by (simp add: Version_msg_def msg_Version_def slots_ok_def mumble_proto__version__descriptor_def
      mumble_proto__version__field_descriptors_def bytes_string_option bytes_string_list list.pred_map o_def Let_def)

lemma Version_option_back:
  "pred_option (\<lambda>x. msg_ok (Version_msg x)) x \<Longrightarrow> map_option msg_Version (map_option Version_msg x) = x"
  by (cases x) (simp_all add: Version_msg_back)

lemma Version_msg_init: "Version_msg init_Version = protobuf_c_message_init_generic mumble_proto__version__descriptor"
  by (simp add: Version_msg_def init_Version_def protobuf_c_message_init_generic_def init_slot_def init_val_def
      mumble_proto__version__descriptor_def mumble_proto__version__field_descriptors_def)

lemma UDPTunnel_msg_desc [simp]: "m_desc (UDPTunnel_msg p) = mumble_proto__udptunnel__descriptor"
  by (simp add: UDPTunnel_msg_def)

lemma UDPTunnel_msg_back: "msg_ok (UDPTunnel_msg p) \<Longrightarrow> msg_UDPTunnel (UDPTunnel_msg p) = p"
  by (simp add: UDPTunnel_msg_def msg_UDPTunnel_def slots_ok_def mumble_proto__udptunnel__descriptor_def
      mumble_proto__udptunnel__field_descriptors_def bytes_string_option bytes_string_list list.pred_map o_def Let_def)

lemma UDPTunnel_msg_init: "UDPTunnel_msg init_UDPTunnel = protobuf_c_message_init_generic mumble_proto__udptunnel__descriptor"
  by (simp add: UDPTunnel_msg_def init_UDPTunnel_def protobuf_c_message_init_generic_def init_slot_def init_val_def
      mumble_proto__udptunnel__descriptor_def mumble_proto__udptunnel__field_descriptors_def)

lemma Authenticate_msg_desc [simp]: "m_desc (Authenticate_msg p) = mumble_proto__authenticate__descriptor"
  by (simp add: Authenticate_msg_def)

lemma Authenticate_msg_back: "msg_ok (Authenticate_msg p) \<Longrightarrow> msg_Authenticate (Authenticate_msg p) = p"
  by (simp add: Authenticate_msg_def msg_Authenticate_def slots_ok_def mumble_proto__authenticate__descriptor_def
      mumble_proto__authenticate__field_descriptors_def bytes_string_option bytes_string_list list.pred_map o_def Let_def)

lemma Authenticate_msg_init: "Authenticate_msg init_Authenticate = protobuf_c_message_init_generic mumble_proto__authenticate__descriptor"
  by (simp add: Authenticate_msg_def init_Authenticate_def protobuf_c_message_init_generic_def init_slot_def init_val_def
      mumble_proto__authenticate__descriptor_def mumble_proto__authenticate__field_descriptors_def)

lemma Ping_msg_desc [simp]: "m_desc (Ping_msg p) = mumble_proto__ping__descriptor"
  by (simp add: Ping_msg_def)

lemma Ping_msg_back: "msg_ok (Ping_msg p) \<Longrightarrow> msg_Ping (Ping_msg p) = p"
  by (simp add: Ping_msg_def msg_Ping_def slots_ok_def mumble_proto__ping__descriptor_def
      mumble_proto__ping__field_descriptors_def bytes_string_option bytes_string_list list.pred_map o_def Let_def)

lemma Ping_msg_init: "Ping_msg init_Ping = protobuf_c_message_init_generic mumble_proto__ping__descriptor"
  by (simp add: Ping_msg_def init_Ping_def protobuf_c_message_init_generic_def init_slot_def init_val_def
      mumble_proto__ping__descriptor_def mumble_proto__ping__field_descriptors_def)

lemma Reject_msg_desc [simp]: "m_desc (Reject_msg p) = mumble_proto__reject__descriptor"
  by (simp add: Reject_msg_def)

lemma Reject_msg_back: "msg_ok (Reject_msg p) \<Longrightarrow> reject_of_num (reject_num (rej_type p)) = rej_type p \<Longrightarrow> msg_Reject (Reject_msg p) = p"
  by (simp add: Reject_msg_def msg_Reject_def slots_ok_def mumble_proto__reject__descriptor_def
      mumble_proto__reject__field_descriptors_def bytes_string_option bytes_string_list list.pred_map o_def Let_def)

lemma Reject_msg_init: "Reject_msg init_Reject = protobuf_c_message_init_generic mumble_proto__reject__descriptor"
  by (simp add: Reject_msg_def init_Reject_def protobuf_c_message_init_generic_def init_slot_def init_val_def
      mumble_proto__reject__descriptor_def mumble_proto__reject__field_descriptors_def)

lemma ServerConfig_msg_desc [simp]: "m_desc (ServerConfig_msg p) = mumble_proto__server_config__descriptor"
  by (simp add: ServerConfig_msg_def)

lemma ServerConfig_msg_back: "msg_ok (ServerConfig_msg p) \<Longrightarrow> msg_ServerConfig (ServerConfig_msg p) = p"
  by (simp add: ServerConfig_msg_def msg_ServerConfig_def slots_ok_def mumble_proto__server_config__descriptor_def
      mumble_proto__server_config__field_descriptors_def bytes_string_option bytes_string_list list.pred_map o_def Let_def)

lemma ServerConfig_msg_init: "ServerConfig_msg init_ServerConfig = protobuf_c_message_init_generic mumble_proto__server_config__descriptor"
  by (simp add: ServerConfig_msg_def init_ServerConfig_def protobuf_c_message_init_generic_def init_slot_def init_val_def
      mumble_proto__server_config__descriptor_def mumble_proto__server_config__field_descriptors_def)

lemma ServerSync_msg_desc [simp]: "m_desc (ServerSync_msg p) = mumble_proto__server_sync__descriptor"
  by (simp add: ServerSync_msg_def)

lemma ServerSync_msg_back: "msg_ok (ServerSync_msg p) \<Longrightarrow> msg_ServerSync (ServerSync_msg p) = p"
  by (simp add: ServerSync_msg_def msg_ServerSync_def slots_ok_def mumble_proto__server_sync__descriptor_def
      mumble_proto__server_sync__field_descriptors_def bytes_string_option bytes_string_list list.pred_map o_def Let_def)

lemma ServerSync_msg_init: "ServerSync_msg init_ServerSync = protobuf_c_message_init_generic mumble_proto__server_sync__descriptor"
  by (simp add: ServerSync_msg_def init_ServerSync_def protobuf_c_message_init_generic_def init_slot_def init_val_def
      mumble_proto__server_sync__descriptor_def mumble_proto__server_sync__field_descriptors_def)

lemma ChannelRemove_msg_desc [simp]: "m_desc (ChannelRemove_msg p) = mumble_proto__channel_remove__descriptor"
  by (simp add: ChannelRemove_msg_def)

lemma ChannelRemove_msg_back: "msg_ok (ChannelRemove_msg p) \<Longrightarrow> msg_ChannelRemove (ChannelRemove_msg p) = p"
  by (simp add: ChannelRemove_msg_def msg_ChannelRemove_def slots_ok_def mumble_proto__channel_remove__descriptor_def
      mumble_proto__channel_remove__field_descriptors_def bytes_string_option bytes_string_list list.pred_map o_def Let_def)

lemma ChannelRemove_msg_init: "ChannelRemove_msg init_ChannelRemove = protobuf_c_message_init_generic mumble_proto__channel_remove__descriptor"
  by (simp add: ChannelRemove_msg_def init_ChannelRemove_def protobuf_c_message_init_generic_def init_slot_def init_val_def
      mumble_proto__channel_remove__descriptor_def mumble_proto__channel_remove__field_descriptors_def)

lemma ChannelState_msg_desc [simp]: "m_desc (ChannelState_msg p) = mumble_proto__channel_state__descriptor"
  by (simp add: ChannelState_msg_def)

lemma ChannelState_msg_back: "msg_ok (ChannelState_msg p) \<Longrightarrow> msg_ChannelState (ChannelState_msg p) = p"
  by (simp add: ChannelState_msg_def msg_ChannelState_def slots_ok_def mumble_proto__channel_state__descriptor_def
      mumble_proto__channel_state__field_descriptors_def bytes_string_option bytes_string_list list.pred_map o_def Let_def)

lemma ChannelState_msg_init: "ChannelState_msg init_ChannelState = protobuf_c_message_init_generic mumble_proto__channel_state__descriptor"
  by (simp add: ChannelState_msg_def init_ChannelState_def protobuf_c_message_init_generic_def init_slot_def init_val_def
      mumble_proto__channel_state__descriptor_def mumble_proto__channel_state__field_descriptors_def)

lemma UserRemove_msg_desc [simp]: "m_desc (UserRemove_msg p) = mumble_proto__user_remove__descriptor"
  by (simp add: UserRemove_msg_def)

lemma UserRemove_msg_back: "msg_ok (UserRemove_msg p) \<Longrightarrow> msg_UserRemove (UserRemove_msg p) = p"
  by (simp add: UserRemove_msg_def msg_UserRemove_def slots_ok_def mumble_proto__user_remove__descriptor_def
      mumble_proto__user_remove__field_descriptors_def bytes_string_option bytes_string_list list.pred_map o_def Let_def)

lemma UserRemove_msg_init: "UserRemove_msg init_UserRemove = protobuf_c_message_init_generic mumble_proto__user_remove__descriptor"
  by (simp add: UserRemove_msg_def init_UserRemove_def protobuf_c_message_init_generic_def init_slot_def init_val_def
      mumble_proto__user_remove__descriptor_def mumble_proto__user_remove__field_descriptors_def)

lemma UserState_msg_desc [simp]: "m_desc (UserState_msg p) = mumble_proto__user_state__descriptor"
  by (simp add: UserState_msg_def)

lemma UserState_msg_back: "msg_ok (UserState_msg p) \<Longrightarrow> msg_UserState (UserState_msg p) = p"
  by (simp add: UserState_msg_def msg_UserState_def slots_ok_def mumble_proto__user_state__descriptor_def
      mumble_proto__user_state__field_descriptors_def bytes_string_option bytes_string_list list.pred_map o_def Let_def)

lemma UserState_msg_init: "UserState_msg init_UserState = protobuf_c_message_init_generic mumble_proto__user_state__descriptor"
  by (simp add: UserState_msg_def init_UserState_def protobuf_c_message_init_generic_def init_slot_def init_val_def
      mumble_proto__user_state__descriptor_def mumble_proto__user_state__field_descriptors_def)

lemma TextMessage_msg_desc [simp]: "m_desc (TextMessage_msg p) = mumble_proto__text_message__descriptor"
  by (simp add: TextMessage_msg_def)

lemma TextMessage_msg_back: "msg_ok (TextMessage_msg p) \<Longrightarrow> msg_TextMessage (TextMessage_msg p) = p"
  by (simp add: TextMessage_msg_def msg_TextMessage_def slots_ok_def mumble_proto__text_message__descriptor_def
      mumble_proto__text_message__field_descriptors_def bytes_string_option bytes_string_list list.pred_map o_def Let_def)

lemma TextMessage_msg_init: "TextMessage_msg init_TextMessage = protobuf_c_message_init_generic mumble_proto__text_message__descriptor"
  by (simp add: TextMessage_msg_def init_TextMessage_def protobuf_c_message_init_generic_def init_slot_def init_val_def
      mumble_proto__text_message__descriptor_def mumble_proto__text_message__field_descriptors_def)

lemma PermissionDenied_msg_desc [simp]: "m_desc (PermissionDenied_msg p) = mumble_proto__permission_denied__descriptor"
  by (simp add: PermissionDenied_msg_def)

lemma PermissionDenied_msg_back: "msg_ok (PermissionDenied_msg p) \<Longrightarrow> deny_of_num (deny_num (deny_type p)) = deny_type p \<Longrightarrow> msg_PermissionDenied (PermissionDenied_msg p) = p"
  by (simp add: PermissionDenied_msg_def msg_PermissionDenied_def slots_ok_def mumble_proto__permission_denied__descriptor_def
      mumble_proto__permission_denied__field_descriptors_def bytes_string_option bytes_string_list list.pred_map o_def Let_def)

lemma PermissionDenied_msg_init: "PermissionDenied_msg init_PermissionDenied = protobuf_c_message_init_generic mumble_proto__permission_denied__descriptor"
  by (simp add: PermissionDenied_msg_def init_PermissionDenied_def protobuf_c_message_init_generic_def init_slot_def init_val_def
      mumble_proto__permission_denied__descriptor_def mumble_proto__permission_denied__field_descriptors_def)

lemma CryptSetup_msg_desc [simp]: "m_desc (CryptSetup_msg p) = mumble_proto__crypt_setup__descriptor"
  by (simp add: CryptSetup_msg_def)

lemma CryptSetup_msg_back: "msg_ok (CryptSetup_msg p) \<Longrightarrow> msg_CryptSetup (CryptSetup_msg p) = p"
  by (simp add: CryptSetup_msg_def msg_CryptSetup_def slots_ok_def mumble_proto__crypt_setup__descriptor_def
      mumble_proto__crypt_setup__field_descriptors_def bytes_string_option bytes_string_list list.pred_map o_def Let_def)

lemma CryptSetup_msg_init: "CryptSetup_msg init_CryptSetup = protobuf_c_message_init_generic mumble_proto__crypt_setup__descriptor"
  by (simp add: CryptSetup_msg_def init_CryptSetup_def protobuf_c_message_init_generic_def init_slot_def init_val_def
      mumble_proto__crypt_setup__descriptor_def mumble_proto__crypt_setup__field_descriptors_def)

lemma UserList__User_msg_desc [simp]: "m_desc (UserList__User_msg p) = mumble_proto__user_list__user__descriptor"
  by (simp add: UserList__User_msg_def)

lemma UserList__User_msg_back: "msg_ok (UserList__User_msg p) \<Longrightarrow> msg_UserList__User (UserList__User_msg p) = p"
  by (simp add: UserList__User_msg_def msg_UserList__User_def slots_ok_def mumble_proto__user_list__user__descriptor_def
      mumble_proto__user_list__user__field_descriptors_def bytes_string_option bytes_string_list list.pred_map o_def Let_def)

lemma UserList__User_list_back:
  "list_all (\<lambda>x. msg_ok (UserList__User_msg x)) xs \<Longrightarrow> map (\<lambda>x. msg_UserList__User (UserList__User_msg x)) xs = xs"
  by (induction xs) (simp_all add: UserList__User_msg_back)

lemma UserList__User_msg_init: "UserList__User_msg init_UserList__User = protobuf_c_message_init_generic mumble_proto__user_list__user__descriptor"
  by (simp add: UserList__User_msg_def init_UserList__User_def protobuf_c_message_init_generic_def init_slot_def init_val_def
      mumble_proto__user_list__user__descriptor_def mumble_proto__user_list__user__field_descriptors_def)

lemma UserList_msg_desc [simp]: "m_desc (UserList_msg p) = mumble_proto__user_list__descriptor"
  by (simp add: UserList_msg_def)

lemma UserList_msg_back: "msg_ok (UserList_msg p) \<Longrightarrow> msg_UserList (UserList_msg p) = p"
  by (simp add: UserList_msg_def msg_UserList_def slots_ok_def mumble_proto__user_list__descriptor_def
      mumble_proto__user_list__field_descriptors_def bytes_string_option bytes_string_list list.pred_map UserList__User_list_back o_def Let_def)

lemma UserList_msg_init: "UserList_msg init_UserList = protobuf_c_message_init_generic mumble_proto__user_list__descriptor"
  by (simp add: UserList_msg_def init_UserList_def protobuf_c_message_init_generic_def init_slot_def init_val_def
      mumble_proto__user_list__descriptor_def mumble_proto__user_list__field_descriptors_def)

lemma VoiceTarget__Target_msg_desc [simp]: "m_desc (VoiceTarget__Target_msg p) = mumble_proto__voice_target__target__descriptor"
  by (simp add: VoiceTarget__Target_msg_def)

lemma VoiceTarget__Target_msg_back: "msg_ok (VoiceTarget__Target_msg p) \<Longrightarrow> msg_VoiceTarget__Target (VoiceTarget__Target_msg p) = p"
  by (simp add: VoiceTarget__Target_msg_def msg_VoiceTarget__Target_def slots_ok_def mumble_proto__voice_target__target__descriptor_def
      mumble_proto__voice_target__target__field_descriptors_def bytes_string_option bytes_string_list list.pred_map o_def Let_def)

lemma VoiceTarget__Target_list_back:
  "list_all (\<lambda>x. msg_ok (VoiceTarget__Target_msg x)) xs \<Longrightarrow> map (\<lambda>x. msg_VoiceTarget__Target (VoiceTarget__Target_msg x)) xs = xs"
  by (induction xs) (simp_all add: VoiceTarget__Target_msg_back)

lemma VoiceTarget__Target_msg_init: "VoiceTarget__Target_msg init_VoiceTarget__Target = protobuf_c_message_init_generic mumble_proto__voice_target__target__descriptor"
  by (simp add: VoiceTarget__Target_msg_def init_VoiceTarget__Target_def protobuf_c_message_init_generic_def init_slot_def init_val_def
      mumble_proto__voice_target__target__descriptor_def mumble_proto__voice_target__target__field_descriptors_def)

lemma VoiceTarget_msg_desc [simp]: "m_desc (VoiceTarget_msg p) = mumble_proto__voice_target__descriptor"
  by (simp add: VoiceTarget_msg_def)

lemma VoiceTarget_msg_back: "msg_ok (VoiceTarget_msg p) \<Longrightarrow> msg_VoiceTarget (VoiceTarget_msg p) = p"
  by (simp add: VoiceTarget_msg_def msg_VoiceTarget_def slots_ok_def mumble_proto__voice_target__descriptor_def
      mumble_proto__voice_target__field_descriptors_def bytes_string_option bytes_string_list list.pred_map VoiceTarget__Target_list_back o_def Let_def)

lemma VoiceTarget_msg_init: "VoiceTarget_msg init_VoiceTarget = protobuf_c_message_init_generic mumble_proto__voice_target__descriptor"
  by (simp add: VoiceTarget_msg_def init_VoiceTarget_def protobuf_c_message_init_generic_def init_slot_def init_val_def
      mumble_proto__voice_target__descriptor_def mumble_proto__voice_target__field_descriptors_def)

lemma PermissionQuery_msg_desc [simp]: "m_desc (PermissionQuery_msg p) = mumble_proto__permission_query__descriptor"
  by (simp add: PermissionQuery_msg_def)

lemma PermissionQuery_msg_back: "msg_ok (PermissionQuery_msg p) \<Longrightarrow> msg_PermissionQuery (PermissionQuery_msg p) = p"
  by (simp add: PermissionQuery_msg_def msg_PermissionQuery_def slots_ok_def mumble_proto__permission_query__descriptor_def
      mumble_proto__permission_query__field_descriptors_def bytes_string_option bytes_string_list list.pred_map o_def Let_def)

lemma PermissionQuery_msg_init: "PermissionQuery_msg init_PermissionQuery = protobuf_c_message_init_generic mumble_proto__permission_query__descriptor"
  by (simp add: PermissionQuery_msg_def init_PermissionQuery_def protobuf_c_message_init_generic_def init_slot_def init_val_def
      mumble_proto__permission_query__descriptor_def mumble_proto__permission_query__field_descriptors_def)

lemma CodecVersion_msg_desc [simp]: "m_desc (CodecVersion_msg p) = mumble_proto__codec_version__descriptor"
  by (simp add: CodecVersion_msg_def)

lemma CodecVersion_msg_back: "msg_ok (CodecVersion_msg p) \<Longrightarrow> msg_CodecVersion (CodecVersion_msg p) = p"
  by (simp add: CodecVersion_msg_def msg_CodecVersion_def slots_ok_def mumble_proto__codec_version__descriptor_def
      mumble_proto__codec_version__field_descriptors_def bytes_string_option bytes_string_list list.pred_map o_def Let_def)

lemma CodecVersion_msg_init: "CodecVersion_msg init_CodecVersion = protobuf_c_message_init_generic mumble_proto__codec_version__descriptor"
  by (simp add: CodecVersion_msg_def init_CodecVersion_def protobuf_c_message_init_generic_def init_slot_def init_val_def
      mumble_proto__codec_version__descriptor_def mumble_proto__codec_version__field_descriptors_def)

lemma UserStats__Stats_msg_desc [simp]: "m_desc (UserStats__Stats_msg p) = mumble_proto__user_stats__stats__descriptor"
  by (simp add: UserStats__Stats_msg_def)

lemma UserStats__Stats_msg_back: "msg_ok (UserStats__Stats_msg p) \<Longrightarrow> msg_UserStats__Stats (UserStats__Stats_msg p) = p"
  by (simp add: UserStats__Stats_msg_def msg_UserStats__Stats_def slots_ok_def mumble_proto__user_stats__stats__descriptor_def
      mumble_proto__user_stats__stats__field_descriptors_def bytes_string_option bytes_string_list list.pred_map o_def Let_def)

lemma UserStats__Stats_option_back:
  "pred_option (\<lambda>x. msg_ok (UserStats__Stats_msg x)) x \<Longrightarrow> map_option msg_UserStats__Stats (map_option UserStats__Stats_msg x) = x"
  by (cases x) (simp_all add: UserStats__Stats_msg_back)

lemma UserStats__Stats_msg_init: "UserStats__Stats_msg init_UserStats__Stats = protobuf_c_message_init_generic mumble_proto__user_stats__stats__descriptor"
  by (simp add: UserStats__Stats_msg_def init_UserStats__Stats_def protobuf_c_message_init_generic_def init_slot_def init_val_def
      mumble_proto__user_stats__stats__descriptor_def mumble_proto__user_stats__stats__field_descriptors_def)

lemma UserStats_msg_desc [simp]: "m_desc (UserStats_msg p) = mumble_proto__user_stats__descriptor"
  by (simp add: UserStats_msg_def)

lemma UserStats_msg_back: "msg_ok (UserStats_msg p) \<Longrightarrow> msg_UserStats (UserStats_msg p) = p"
  by (simp add: UserStats_msg_def msg_UserStats_def slots_ok_def mumble_proto__user_stats__descriptor_def
      mumble_proto__user_stats__field_descriptors_def bytes_string_option bytes_string_list list.pred_map Version_option_back
      UserStats__Stats_option_back o_def Let_def)

lemma UserStats_msg_init: "UserStats_msg init_UserStats = protobuf_c_message_init_generic mumble_proto__user_stats__descriptor"
  by (simp add: UserStats_msg_def init_UserStats_def protobuf_c_message_init_generic_def init_slot_def init_val_def
      mumble_proto__user_stats__descriptor_def mumble_proto__user_stats__field_descriptors_def)

section \<open>The round trip of the messages\<close>

text \<open>
  A payload that the wire format carries faithfully: its generic message is in order (no
  zero byte inside a string, required members present, unset members at their initial values)
  and an enumeration number that has a name is that name.
\<close>

fun named_enums :: "payload \<Rightarrow> bool" where
  "named_enums (P_Reject r) \<longleftrightarrow> reject_of_num (reject_num (rej_type r)) = rej_type r"
| "named_enums (P_PermissionDenied d) \<longleftrightarrow> deny_of_num (deny_num (deny_type d)) = deny_type d"
| "named_enums p \<longleftrightarrow> True"

definition payload_ok :: "payload \<Rightarrow> bool" where
  "payload_ok p \<longleftrightarrow> pred_option msg_ok (payload_msg p) \<and> payload_msg p \<noteq> None \<and> named_enums p"

lemmas pack_wrappers =
  mumble_proto__version__pack_def mumble_proto__udptunnel__pack_def
  mumble_proto__authenticate__pack_def mumble_proto__ping__pack_def mumble_proto__reject__pack_def
  mumble_proto__server_config__pack_def mumble_proto__server_sync__pack_def
  mumble_proto__channel_remove__pack_def mumble_proto__channel_state__pack_def
  mumble_proto__user_remove__pack_def mumble_proto__user_state__pack_def
  mumble_proto__text_message__pack_def mumble_proto__permission_denied__pack_def
  mumble_proto__crypt_setup__pack_def mumble_proto__user_list__pack_def
  mumble_proto__voice_target__pack_def mumble_proto__permission_query__pack_def
  mumble_proto__codec_version__pack_def mumble_proto__user_stats__pack_def

lemmas unpack_wrappers =
  mumble_proto__version__unpack_def mumble_proto__udptunnel__unpack_def
  mumble_proto__authenticate__unpack_def mumble_proto__ping__unpack_def
  mumble_proto__reject__unpack_def mumble_proto__server_config__unpack_def
  mumble_proto__server_sync__unpack_def mumble_proto__channel_remove__unpack_def
  mumble_proto__channel_state__unpack_def mumble_proto__user_remove__unpack_def
  mumble_proto__user_state__unpack_def mumble_proto__text_message__unpack_def
  mumble_proto__permission_denied__unpack_def mumble_proto__crypt_setup__unpack_def
  mumble_proto__user_list__unpack_def mumble_proto__voice_target__unpack_def
  mumble_proto__permission_query__unpack_def mumble_proto__codec_version__unpack_def
  mumble_proto__user_stats__unpack_def

lemmas backs =
  Version_msg_back UDPTunnel_msg_back Authenticate_msg_back Ping_msg_back Reject_msg_back
  ServerConfig_msg_back ServerSync_msg_back ChannelRemove_msg_back ChannelState_msg_back
  UserRemove_msg_back UserState_msg_back TextMessage_msg_back PermissionDenied_msg_back
  CryptSetup_msg_back UserList_msg_back VoiceTarget_msg_back PermissionQuery_msg_back
  CodecVersion_msg_back UserStats_msg_back

lemma payload_pack_msg: "payload_msg p = Some m \<Longrightarrow> payload_pack p = protobuf_c_message_pack m"
  by (cases p) (auto simp: pack_wrappers)

lemma payload_unpack_pack:
  assumes "payload_ok p" and "length (payload_pack p) < 2 ^ 32 - 5"
  shows "payload_unpack (type_of p) (payload_pack p) = Parsed p"
proof -
  from assms(1) obtain m where m: "payload_msg p = Some m" "msg_ok m" "named_enums p"
    by (cases "payload_msg p") (auto simp: payload_ok_def)
  have "protobuf_c_message_unpack (m_desc m) (protobuf_c_message_pack m) = Parsed m"
    using m assms(2) by (intro unpack_pack) (simp_all add: payload_pack_msg)
  then show ?thesis using m
    by (cases p) (auto simp: pack_wrappers unpack_wrappers backs)
qed

text \<open>C11: What a peer that uses the generated functions unpacks is the message that was packed, for each
  message type and each well-formed payload below the length at which the prefix arithmetic
  of protobuf-c wraps round.\<close>

theorem payload_roundtrip:
  assumes "payload_ok p" and "length (payload_pack p) < 2 ^ 32 - 5"
  shows "payload_unpack (type_of p) (payload_pack p) = Parsed p"
  using assms by (rule payload_unpack_pack)

theorem payload_roundtrip_witness:
  "let p = P_TextMessage \<lparr>txt_has_actor = True, txt_actor = 300, txt_session = [1, 7], txt_channel_id = [],
     txt_tree_id = [], txt_message = Some ''hi''\<rparr>
   in payload_unpack TextMessage (payload_pack p) = Parsed p"
proof -
  let ?t = "\<lparr>txt_has_actor = True, txt_actor = 300, txt_session = [1, 7], txt_channel_id = [],
     txt_tree_id = [], txt_message = Some ''hi''\<rparr>"
  have ok: "payload_ok (P_TextMessage ?t)"
    by (simp add: payload_ok_def TextMessage_msg_def slots_ok_def
        mumble_proto__text_message__field_descriptors_def clean_def)
  have "length (payload_pack (P_TextMessage ?t)) < 2 ^ 32 - 5"
    by (simp add: mumble_proto__text_message__pack_def TextMessage_msg_def size_defs string_bytes_def
        mumble_proto__text_message__field_descriptors_def del: protobuf_c_message_pack.simps)
  from payload_roundtrip [OF ok this] show ?thesis by simp
qed

text \<open>C20: A message that unpacking returns has the shape its descriptor declares, down to the nested
  messages: every member is of its field's type, and required strings and sub-messages are
  not NULL. The handlers dereference such members without a test.\<close>

theorem unpack_well_typed:
  assumes "desc_typed d" and "protobuf_c_message_unpack d data = Parsed m"
  shows "m_desc m = d \<and> msg_typed m"
  using assms by (rule unpack_typed)

theorem unpack_well_typed_witness:
  "\<exists>data. protobuf_c_message_unpack mumble_proto__user_list__descriptor data =
      Parsed (UserList_msg \<lparr>ulist_users = [\<lparr>usr_user_id = 7, usr_name = Some ''ann''\<rparr>]\<rparr>) \<and>
    msg_typed (UserList_msg \<lparr>ulist_users = [\<lparr>usr_user_id = 7, usr_name = Some ''ann''\<rparr>]\<rparr>)"
proof -
  let ?m = "UserList_msg \<lparr>ulist_users = [\<lparr>usr_user_id = 7, usr_name = Some ''ann''\<rparr>]\<rparr>"
  have ok: "msg_ok ?m"
    by (simp add: UserList_msg_def UserList__User_msg_def slots_ok_def clean_def
        mumble_proto__user_list__field_descriptors_def mumble_proto__user_list__user__field_descriptors_def)
  have "length (protobuf_c_message_pack ?m) < 2 ^ 32 - 5"
    by (simp add: UserList_msg_def UserList__User_msg_def size_defs string_bytes_def
        mumble_proto__user_list__field_descriptors_def mumble_proto__user_list__user__field_descriptors_def
        del: protobuf_c_message_pack.simps)
  with unpack_pack [OF ok] have u: "protobuf_c_message_unpack mumble_proto__user_list__descriptor (protobuf_c_message_pack ?m) = Parsed ?m"
    by (simp del: protobuf_c_message_pack.simps)
  from unpack_well_typed [OF mumble_proto__user_list__descriptor_typed u] u show ?thesis by blast
qed

end
