(* ===== verification/PbNet.thy ===== *)
theory PbNet
  imports PbMumble Messages
begin

text \<open>
  The message layer over the real wire format: protobuf with the program's descriptors
  satisfies the interface \<open>wire_format\<close> of \<open>Messages\<close>.
\<close>

section \<open>The interface\<close>

text \<open>An environment whose serialisation is protobuf-c's.\<close>

definition protobuf :: "ext \<Rightarrow> bool" where
  "protobuf x \<longleftrightarrow> pack x = payload_pack \<and> unpack x = payload_unpack"

interpretation pb: wire_format payload_pack payload_unpack
  "\<lambda>p. payload_ok p \<and> length (payload_pack p) < 2 ^ 32 - 5"
  by unfold_locales (simp add: payload_unpack_pack)

text \<open>A tunnelled voice packet travels without its protobuf frame of at most six bytes.\<close>

lemma packed_body:
  assumes "payload_ok p" and "protobuf x"
  shows "length (payload_pack p) \<le> length (body_of x p) + 6"
proof (cases p)
  case (P_UDPTunnel u)
  then show ?thesis
    by (simp add: body_of_def mumble_proto__udptunnel__pack_def UDPTunnel_msg_def size_defs
        mumble_proto__udptunnel__field_descriptors_def del: protobuf_c_message_pack.simps)
qed (use assms in \<open>simp_all add: body_of_def protobuf_def payload_ok_def del: payload_pack.simps\<close>)

section \<open>Properties\<close>

text \<open>C10: A well-formed message written into a send buffer and arriving as the beginning of a receive
  buffer is read back as a new message with one reference and the same payload, provided it fits:
  the six bytes of the preamble, the protobuf encoding of every field, and their inverses.\<close>

theorem message_crosses_network:
  assumes "receivable (type_of p)" and "payload_ok p"
    and "length (body_of x p) \<le> MAX_MSGSIZE"
    and "protobuf x" and "protobuf (w_ext w)"
    and "length buffer = BUFSIZE"
    and "Msg_messageToNetwork x p buffer = Inr (len, sent)"
    and "take len data = take len sent"
  shows "\<exists>w' b. Msg_networkToMessage data w = Inr (Some (w_next w), w') \<and>
    w_mstore w' = (w_mstore w)(w_next w \<mapsto> \<lparr>m_refcount = 1, m_unpacked = b, m_payload = p\<rparr>)"
proof (rule pb.crosses_network [OF assms(1) _ assms(3) _ _ _ assms(6-8)])
  show "\<forall>t. p \<noteq> P_none t" using assms(2) by (auto simp: payload_ok_def)
  show "pack x = payload_pack" "unpack (w_ext w) = payload_unpack"
    using assms(4,5) by (simp_all add: protobuf_def)
  show "payload_ok p \<and> length (payload_pack p) < 2 ^ 32 - 5"
    using assms(2) packed_body [OF assms(2,4)] assms(3) by simp
qed

theorem message_crosses_network_witness:
  "let x = demo_ext\<lparr>pack := payload_pack, unpack := payload_unpack\<rparr>;
       p = P_TextMessage (init_TextMessage\<lparr>txt_session := [2], txt_message := Some ''hello''\<rparr>)
   in \<exists>sent w' b. Msg_messageToNetwork x p (replicate BUFSIZE 0) = Inr (15, sent) \<and>
        Msg_networkToMessage sent (boot_world x idle_tls Map.empty 0) = Inr (Some 0, w') \<and>
        w_mstore w' 0 = Some \<lparr>m_refcount = 1, m_unpacked = b, m_payload = p\<rparr>"
proof -
  let ?x = "demo_ext\<lparr>pack := payload_pack, unpack := payload_unpack\<rparr>"
  let ?t = "init_TextMessage\<lparr>txt_session := [2], txt_message := Some ''hello''\<rparr>"
  let ?w = "boot_world ?x idle_tls Map.empty 0"
  have ok: "payload_ok (P_TextMessage ?t)"
    by (simp add: payload_ok_def TextMessage_msg_def slots_ok_def clean_def init_TextMessage_def init_val_def
        mumble_proto__text_message__field_descriptors_def)
  have x: "protobuf ?x" "protobuf (w_ext ?w)" by (simp_all add: protobuf_def boot_world_def)
  have r: "receivable (type_of (P_TextMessage ?t))" by (simp add: receivable_def supported_def initial_payload_def)
  have l: "length (body_of ?x (P_TextMessage ?t)) = 9"
    by (simp add: body_of_def mumble_proto__text_message__pack_def TextMessage_msg_def size_defs string_bytes_def
        init_TextMessage_def mumble_proto__text_message__field_descriptors_def del: protobuf_c_message_pack.simps)
  obtain sent where s: "Msg_messageToNetwork ?x (P_TextMessage ?t) (replicate BUFSIZE 0) = Inr (15, sent)"
    using messageToNetwork_fits [of ?x "P_TextMessage ?t" "replicate BUFSIZE 0"] by (simp add: l)
  have "length (body_of ?x (P_TextMessage ?t)) \<le> MAX_MSGSIZE" by (simp add: l)
  from message_crosses_network [OF r ok this x _ s refl] s show ?thesis
    by (fastforce simp: boot_world_def)
qed

end
