(* ===== verification/PbPacked.thy ===== *)
theory PbPacked
  imports PbRound
begin

text \<open>
  Packed arrays (the \<open>packed\<close> branches of protobuf-c.c): a repeated field of numbers written as
  one length-prefixed block. No field of the program's own descriptors is packed, so these branches
  are functions of their own: \<open>packed_size\<close> and \<open>packed_array_pack\<close> are what
  \<open>repeated_field_get_packed_size\<close> and \<open>repeated_field_pack\<close> do for a packed field.
\<close>

section \<open>Sizes\<close>

fun sizeof_elt_in_repeated_array :: "ctype \<Rightarrow> nat" where
  "sizeof_elt_in_repeated_array T_SINT32 = 4"
| "sizeof_elt_in_repeated_array T_INT32 = 4"
| "sizeof_elt_in_repeated_array T_UINT32 = 4"
| "sizeof_elt_in_repeated_array T_SFIXED32 = 4"
| "sizeof_elt_in_repeated_array T_FIXED32 = 4"
| "sizeof_elt_in_repeated_array T_FLOAT = 4"
| "sizeof_elt_in_repeated_array T_ENUM = 4"
| "sizeof_elt_in_repeated_array T_SINT64 = 8"
| "sizeof_elt_in_repeated_array T_INT64 = 8"
| "sizeof_elt_in_repeated_array T_UINT64 = 8"
| "sizeof_elt_in_repeated_array T_SFIXED64 = 8"
| "sizeof_elt_in_repeated_array T_FIXED64 = 8"
| "sizeof_elt_in_repeated_array T_DOUBLE = 8"
| "sizeof_elt_in_repeated_array T_BOOL = 4"
| "sizeof_elt_in_repeated_array T_STRING = 8"
| "sizeof_elt_in_repeated_array (T_MESSAGE d) = 8"
| "sizeof_elt_in_repeated_array T_BYTES = 16"

definition get_type_min_size :: "ctype \<Rightarrow> nat" where
  "get_type_min_size type =
     (if type = T_SFIXED32 \<or> type = T_FIXED32 \<or> type = T_FLOAT then 4
      else if type = T_SFIXED64 \<or> type = T_FIXED64 \<or> type = T_DOUBLE then 8
      else 1)"

text \<open>The types an array can be packed of; the others end in \<open>assert (0)\<close>.\<close>

definition packable :: "ctype \<Rightarrow> bool" where
  "packable type \<longleftrightarrow> wire_type_of type \<noteq> WIRE_TYPE_LENGTH_PREFIXED"

abbreviation no_message :: "msg \<Rightarrow> 'a list" where
  "no_message \<equiv> \<lambda>_. []"

definition get_packed_payload_length :: "ctype \<Rightarrow> mval list \<Rightarrow> fault + nat" where
  "get_packed_payload_length type array =
     (case type of
        T_SFIXED32 \<Rightarrow> Inr (length array * 4)
      | T_FIXED32 \<Rightarrow> Inr (length array * 4)
      | T_FLOAT \<Rightarrow> Inr (length array * 4)
      | T_SFIXED64 \<Rightarrow> Inr (length array * 8)
      | T_FIXED64 \<Rightarrow> Inr (length array * 8)
      | T_DOUBLE \<Rightarrow> Inr (length array * 8)
      | T_INT32 \<Rightarrow> Inr (sum_list (map (int32_size \<circ> v32) array))
      | T_SINT32 \<Rightarrow> Inr (sum_list (map (sint32_size \<circ> v32) array))
      | T_ENUM \<Rightarrow> Inr (sum_list (map (uint32_size \<circ> v32) array))
      | T_UINT32 \<Rightarrow> Inr (sum_list (map (uint32_size \<circ> v32) array))
      | T_SINT64 \<Rightarrow> Inr (sum_list (map (sint64_size \<circ> v64) array))
      | T_INT64 \<Rightarrow> Inr (sum_list (map (uint64_size \<circ> v64) array))
      | T_UINT64 \<Rightarrow> Inr (sum_list (map (uint64_size \<circ> v64) array))
      | T_BOOL \<Rightarrow> Inr (length array)
      | _ \<Rightarrow> Inl Assertion)"

text \<open>The size of a packed field: one tag, the length of the block and the block.\<close>

definition packed_size :: "field \<Rightarrow> mval list \<Rightarrow> nat" where
  "packed_size field array =
     (if length array = 0 then 0
      else
        let rv = sum_list (map (value_size (\<lambda>_. 0) (fd_type field)) array);
            header_size = get_tag_size (fd_id field) + uint32_size (of_nat rv)
        in header_size + rv)"

section \<open>Packing\<close>

text \<open>
  The block is written after the room its length needs when every element has the smallest
  size, and moved by one byte when that is not enough.
\<close>

definition packed_array_pack :: "field \<Rightarrow> mval list \<Rightarrow> fault + byte list" where
  "packed_array_pack field array =
     (if length array = 0 then Inr []
      else if \<not> packable (fd_type field) then Inl Assertion
      else
        let header = tagged WIRE_TYPE_LENGTH_PREFIXED (tag_pack (fd_id field));
            min_length = of_nat (get_type_min_size (fd_type field) * length array) :: u32;
            length_size_min = uint32_size min_length;
            payload = concat (map (value_pack no_message (fd_type field)) array);
            payload_len = of_nat (length payload) :: u32;
            actual_length_size = uint32_size payload_len
        in if length_size_min \<noteq> actual_length_size \<and> actual_length_size \<noteq> length_size_min + 1 then Inl Assertion
           else
             let room = (if length_size_min \<noteq> actual_length_size then length_size_min + 1 else length_size_min);
                 out = header @ replicate room 0 @ payload
             in Inr (overwrite out (length header) (uint32_pack payload_len)))"

section \<open>Unpacking\<close>

fun max_b128_numbers :: "byte list \<Rightarrow> nat" where
  "max_b128_numbers [] = 0"
| "max_b128_numbers (b # data) = (if b AND 0x80 = 0 then 1 else 0) + max_b128_numbers data"

definition count_packed_elements :: "ctype \<Rightarrow> byte list \<Rightarrow> nat option" where
  "count_packed_elements type data =
     (case type of
        T_SFIXED32 \<Rightarrow> if length data mod 4 \<noteq> 0 then None else Some (length data div 4)
      | T_FIXED32 \<Rightarrow> if length data mod 4 \<noteq> 0 then None else Some (length data div 4)
      | T_FLOAT \<Rightarrow> if length data mod 4 \<noteq> 0 then None else Some (length data div 4)
      | T_SFIXED64 \<Rightarrow> if length data mod 8 \<noteq> 0 then None else Some (length data div 8)
      | T_FIXED64 \<Rightarrow> if length data mod 8 \<noteq> 0 then None else Some (length data div 8)
      | T_DOUBLE \<Rightarrow> if length data mod 8 \<noteq> 0 then None else Some (length data div 8)
      | T_BOOL \<Rightarrow> Some (length data)
      | T_STRING \<Rightarrow> None
      | T_BYTES \<Rightarrow> None
      | T_MESSAGE d \<Rightarrow> None
      | _ \<Rightarrow> Some (max_b128_numbers data))"

text \<open>The loop over varints: \<open>at\<close> is what remains of the block.\<close>

function varints_loop :: "(nat \<Rightarrow> byte list \<Rightarrow> mval) \<Rightarrow> byte list \<Rightarrow> mval list option" where
  "varints_loop parse at =
     (if at = [] then Some []
      else case scan_varint at of
        None \<Rightarrow> None
      | Some s \<Rightarrow> if s = 0 then None else map_option (Cons (parse s at)) (varints_loop parse (drop s at)))"
  by auto
termination
  by (relation "measure (length \<circ> snd)") auto

declare varints_loop.simps [simp del]

text \<open>\<open>memcpy\<close> of \<open>count\<close> elements of 4 or 8 bytes on a little-endian machine.\<close>

fun fixed_loop :: "(byte list \<Rightarrow> mval) \<Rightarrow> nat \<Rightarrow> nat \<Rightarrow> byte list \<Rightarrow> mval list" where
  "fixed_loop parse siz 0 at = []"
| "fixed_loop parse siz (Suc count) at = parse at # fixed_loop parse siz count (drop siz at)"

definition booleans :: "byte list \<Rightarrow> mval list option" where
  "booleans at = (if \<exists>b \<in> set at. b > 1 then None else Some (map (\<lambda>b. VBool (b \<noteq> 0)) at))"

definition packed_elements :: "ctype \<Rightarrow> byte list \<Rightarrow> mval list option" where
  "packed_elements type at =
     (case type of
        T_SFIXED32 \<Rightarrow> Some (fixed_loop (V32 \<circ> parse_fixed_uint32) 4 (length at div 4) at)
      | T_FIXED32 \<Rightarrow> Some (fixed_loop (V32 \<circ> parse_fixed_uint32) 4 (length at div 4) at)
      | T_FLOAT \<Rightarrow> Some (fixed_loop (V32 \<circ> parse_fixed_uint32) 4 (length at div 4) at)
      | T_SFIXED64 \<Rightarrow> Some (fixed_loop (V64 \<circ> parse_fixed_uint64) 8 (length at div 8) at)
      | T_FIXED64 \<Rightarrow> Some (fixed_loop (V64 \<circ> parse_fixed_uint64) 8 (length at div 8) at)
      | T_DOUBLE \<Rightarrow> Some (fixed_loop (V64 \<circ> parse_fixed_uint64) 8 (length at div 8) at)
      | T_INT32 \<Rightarrow> varints_loop (\<lambda>s at. V32 (parse_int32 s at)) at
      | T_SINT32 \<Rightarrow> varints_loop (\<lambda>s at. V32 (unzigzag32 (parse_uint32 s at))) at
      | T_ENUM \<Rightarrow> varints_loop (\<lambda>s at. V32 (parse_uint32 s at)) at
      | T_UINT32 \<Rightarrow> varints_loop (\<lambda>s at. V32 (parse_uint32 s at)) at
      | T_SINT64 \<Rightarrow> varints_loop (\<lambda>s at. V64 (unzigzag64 (parse_uint64 s at))) at
      | T_INT64 \<Rightarrow> varints_loop (\<lambda>s at. V64 (parse_uint64 s at)) at
      | T_UINT64 \<Rightarrow> varints_loop (\<lambda>s at. V64 (parse_uint64 s at)) at
      | T_BOOL \<Rightarrow> booleans at
      | _ \<Rightarrow> None)"

text \<open>
  The elements are put behind those the array has. For a type that cannot be packed the code
  stops with an assertion; \<open>count_packed_elements\<close> has rejected such a member before.
\<close>

definition parse_packed_repeated_member :: "field \<Rightarrow> scanned \<Rightarrow> slot \<Rightarrow> slot parsed" where
  "parse_packed_repeated_member field sm s =
     and_then (member_bytes sm) (\<lambda>at.
       case packed_elements (fd_type field) at of
         None \<Rightarrow> Rejected
       | Some vs \<Rightarrow> Parsed (Rep (slot_vals s @ vs)))"

section \<open>Lengths\<close>

lemma pack_nonempty:
  "0 < length (uint32_pack w)" "0 < length (uint64_pack x)" "0 < length (int32_pack w)"
  "0 < length (sint32_pack w)" "0 < length (sint64_pack x)" "0 < length (boolean_pack b)"
  by (simp_all add: uint32_pack_varint uint64_pack_varint int32_pack_def sint32_pack_def sint64_pack_def boolean_pack_def)

lemma value_bounds:
  assumes "packable t"
  shows "get_type_min_size t \<le> length (value_pack mp t v)" and "length (value_pack mp t v) \<le> 10 * get_type_min_size t"
proof -
  show "get_type_min_size t \<le> length (value_pack mp t v)"
    using assms
    by (cases t) (simp_all add: value_pack_def get_type_min_size_def packable_def wire_types Suc_le_eq pack_nonempty del: length_greater_0_conv)
  show "length (value_pack mp t v) \<le> 10 * get_type_min_size t"
    using assms
    by (cases t) (simp_all add: value_pack_def get_type_min_size_def packable_def wire_types pack_lengths)
qed

lemma payload_length:
  assumes "packable t"
  shows "get_packed_payload_length t array = Inr (length (concat (map (value_pack mp t) array)))"
proof -
  have "sum_list (map (\<lambda>v. length (value_pack mp t v)) array) = sum_list (map (value_size (\<lambda>_. 0) t) array)"
    using assms by (intro arg_cong [where f = sum_list] map_cong refl)
      (cases t; simp add: value_pack_def value_size_def packable_def wire_types uint32_size_pack uint64_size_pack
        int32_size_pack sint32_pack_def sint64_pack_def sint32_size_def sint64_size_def boolean_pack_def)
  moreover have "get_packed_payload_length t array = Inr (sum_list (map (value_size (\<lambda>_. 0) t) array))"
    using assms
    by (cases t; simp add: get_packed_payload_length_def value_size_def [abs_def] packable_def wire_types comp_def sum_list_triv)
  ultimately show ?thesis by (simp add: length_concat comp_def)
qed

lemma min_size_bounds:
  assumes "packable t"
  shows "get_type_min_size t * length array \<le> length (concat (map (value_pack mp t) array))"
    and "length (concat (map (value_pack mp t) array)) \<le> 10 * (get_type_min_size t * length array)"
  using value_bounds(1,2) [OF assms, of mp]
  by (induction array) (simp_all add: algebra_simps add_mono)

text \<open>The length of a number that is at most ten times as big is at most one byte more.\<close>

lemma uint32_size_ten:
  assumes "m \<le> n" and "n \<le> 10 * m" and "n < 2 ^ 32"
  shows "uint32_size (of_nat n) = uint32_size (of_nat m) \<or> uint32_size (of_nat n) = uint32_size (of_nat m) + 1"
proof -
  have u: "unat (of_nat k :: u32) = k" if "k \<le> n" for k using that assms(3) by (simp add: unat_of_nat)
  have s: "uint32_size (of_nat k) = (if k < 2 ^ 7 then 1 else if k < 2 ^ 14 then 2 else if k < 2 ^ 21 then 3 else if k < 2 ^ 28 then 4 else 5)"
    if "k \<le> n" for k
    unfolding uint32_size_def by (simp add: word_less_nat_alt u [OF that])
  show ?thesis unfolding s [OF assms(1)] s [OF order_refl] using assms(1,2) by simp
qed

text \<open>The assertion in the code holds, and what it writes is the tag, the length and the block.\<close>

lemma packed_array_pack_eq:
  assumes "packable (fd_type f)" and "array \<noteq> []"
    and "length (concat (map (value_pack no_message (fd_type f)) array)) < 2 ^ 32"
  shows "packed_array_pack f array = Inr (tagged WIRE_TYPE_LENGTH_PREFIXED (tag_pack (fd_id f)) @
    uint32_pack (of_nat (length (concat (map (value_pack no_message (fd_type f)) array)))) @
    concat (map (value_pack no_message (fd_type f)) array))"
proof -
  let ?p = "concat (map (value_pack no_message (fd_type f)) array)"
  let ?min = "uint32_size (of_nat (get_type_min_size (fd_type f) * length array))"
  let ?act = "uint32_size (of_nat (length ?p))"
  have two: "?act = ?min \<or> ?act = ?min + 1"
    using uint32_size_ten [OF min_size_bounds [OF assms(1)] assms(3)] .
  have o: "overwrite (h @ replicate ?act 0 @ ?p) (length h) (uint32_pack (of_nat (length ?p))) = h @ uint32_pack (of_nat (length ?p)) @ ?p"
    for h :: "byte list"
    by (simp add: overwrite_def uint32_size_pack)
  show ?thesis
    using two assms(1,2) o unfolding packed_array_pack_def Let_def
    by (auto simp del: of_nat_mult)
qed

lemma packed_size_eq:
  assumes "packable (fd_type f)" and "packed_array_pack f array = Inr bs"
    and "length (concat (map (value_pack no_message (fd_type f)) array)) < 2 ^ 32"
  shows "length bs = packed_size f array"
proof (cases "array = []")
  case True
  then show ?thesis using assms(2) by (simp add: packed_size_def packed_array_pack_def)
next
  case False
  have "length (concat (map (value_pack no_message (fd_type f)) array)) = sum_list (map (value_size (\<lambda>_. 0) (fd_type f)) array)"
    by (simp add: length_concat comp_def value_size_pack)
  moreover have "length (tagged wt (tag_pack (fd_id f))) = get_tag_size (fd_id f)" for wt
  proof -
    have "tag_pack (fd_id f) \<noteq> []" using tag_pack_varint [of "fd_id f"] by simp
    then have "length (tagged wt (tag_pack (fd_id f))) = length (tag_pack (fd_id f))" by (simp add: tagged_def)
    then show ?thesis using get_tag_size_pack by simp
  qed
  moreover have "bs = tagged WIRE_TYPE_LENGTH_PREFIXED (tag_pack (fd_id f)) @
      uint32_pack (of_nat (length (concat (map (value_pack no_message (fd_type f)) array)))) @
      concat (map (value_pack no_message (fd_type f)) array)"
    using assms(2) packed_array_pack_eq [OF assms(1) False assms(3)] by simp
  ultimately show ?thesis using False
    by (simp add: packed_size_def Let_def uint32_size_pack del: length_concat)
qed

section \<open>Reading a packed array back\<close>

lemma varints_loop_pack:
  assumes "\<And>v. v \<in> set vs \<Longrightarrow> is_varint (pack v) \<and> length (pack v) \<le> 10 \<and> (\<forall>more. parse (length (pack v)) (pack v @ more) = v)"
  shows "varints_loop parse (concat (map pack vs)) = Some vs"
  using assms
proof (induction vs)
  case Nil
  then show ?case by (simp add: varints_loop.simps)
next
  case (Cons v vs)
  have v: "is_varint (pack v)" "length (pack v) \<le> 10" "parse (length (pack v)) (pack v @ concat (map pack vs)) = v"
    using Cons.prems [of v] by simp_all
  then have "pack v \<noteq> []" by (cases "pack v") simp_all
  moreover have "varints_loop parse (concat (map pack vs)) = Some vs" using Cons by simp
  ultimately show ?case
    using scan_varint_ok [OF v(1,2), of "concat (map pack vs)"] v(3)
    by (subst varints_loop.simps) simp
qed

lemma fixed_loop_pack:
  assumes "\<And>v more. v \<in> set vs \<Longrightarrow> length (pack v) = siz \<and> parse (pack v @ more) = v"
  shows "fixed_loop parse siz (length vs) (concat (map pack vs)) = vs"
  using assms by (induction vs) simp_all

lemma value_ok_cases:
  assumes "value_ok mok t v" and "packable t"
  shows "if t = T_BOOL then v = VBool (vbool v)
    else if t \<in> {T_INT64, T_SINT64, T_SFIXED64, T_UINT64, T_FIXED64, T_DOUBLE} then v = V64 (v64 v) else v = V32 (v32 v)"
  using assms by (cases t; cases v) (simp_all add: value_ok_def packable_def wire_types)

lemma booleans_pack:
  "(\<And>v. v \<in> set vs \<Longrightarrow> v = VBool (vbool v)) \<Longrightarrow> booleans (concat (map (\<lambda>v. boolean_pack (vbool v)) vs)) = Some vs"
proof (induction vs)
  case (Cons v vs)
  then have "booleans (concat (map (\<lambda>v. boolean_pack (vbool v)) vs)) = Some vs" by simp
  moreover have "v = VBool (vbool v)" using Cons.prems by simp
  ultimately show ?case by (cases v) (auto simp: booleans_def boolean_pack_def split: if_splits)
qed (simp add: booleans_def)

lemma varints32:
  assumes "\<And>v. v \<in> set vs \<Longrightarrow> v = V32 (v32 v)"
    and "\<And>w more. is_varint (pack w) \<and> length (pack w) \<le> 10 \<and> parse (length (pack w)) (pack w @ more) = w"
  shows "varints_loop (\<lambda>s at. V32 (parse s at)) (concat (map (\<lambda>v. pack (v32 v)) vs)) = Some vs"
  by (rule varints_loop_pack) (use assms in metis)

lemma varints64:
  assumes "\<And>v. v \<in> set vs \<Longrightarrow> v = V64 (v64 v)"
    and "\<And>w more. is_varint (pack w) \<and> length (pack w) \<le> 10 \<and> parse (length (pack w)) (pack w @ more) = w"
  shows "varints_loop (\<lambda>s at. V64 (parse s at)) (concat (map (\<lambda>v. pack (v64 v)) vs)) = Some vs"
  by (rule varints_loop_pack) (use assms in metis)

lemma fixed_elements:
  assumes "\<And>v. v \<in> set vs \<Longrightarrow> length (pack v) = siz \<and> (\<forall>more. parse (pack v @ more) = v)" and "siz > 0"
  shows "fixed_loop parse siz (length (concat (map pack vs)) div siz) (concat (map pack vs)) = vs"
proof -
  have "length (concat (map pack vs)) = siz * length vs" using assms(1) by (induction vs) simp_all
  then have "length (concat (map pack vs)) div siz = length vs" using assms(2) by simp
  then show ?thesis using fixed_loop_pack [of vs pack siz parse] assms(1) by simp
qed

lemma packed_elements_pack:
  assumes "packable t" and ok: "\<forall>v \<in> set vs. value_ok mok t v"
  shows "packed_elements t (concat (map (value_pack mp t) vs)) = Some vs"
proof -
  have b: "t = T_BOOL \<Longrightarrow> v \<in> set vs \<Longrightarrow> v = VBool (vbool v)" 
    and v64: "t \<in> {T_INT64, T_SINT64, T_SFIXED64, T_UINT64, T_FIXED64, T_DOUBLE} \<Longrightarrow> v \<in> set vs \<Longrightarrow> v = V64 (v64 v)"
    and v32: "t \<in> {T_INT32, T_SINT32, T_SFIXED32, T_UINT32, T_FIXED32, T_FLOAT, T_ENUM} \<Longrightarrow> v \<in> set vs \<Longrightarrow> v = V32 (v32 v)" for v
    using value_ok_cases [OF _ assms(1), of mok v] ok by (auto split: if_splits)
  have f32: "t \<in> {T_SFIXED32, T_FIXED32, T_FLOAT} \<Longrightarrow>
      fixed_loop (V32 \<circ> parse_fixed_uint32) 4 (length (concat (map (\<lambda>v. fixed32_pack (v32 v)) vs)) div 4) (concat (map (\<lambda>v. fixed32_pack (v32 v)) vs)) = vs"
    by (rule fixed_elements) (use v32 in \<open>auto simp: parse_fixed_uint32_pack\<close>)
  have f64: "t \<in> {T_SFIXED64, T_FIXED64, T_DOUBLE} \<Longrightarrow>
      fixed_loop (V64 \<circ> parse_fixed_uint64) 8 (length (concat (map (\<lambda>v. fixed64_pack (v64 v)) vs)) div 8) (concat (map (\<lambda>v. fixed64_pack (v64 v)) vs)) = vs"
    by (rule fixed_elements) (use v64 in \<open>auto simp: parse_fixed_uint64_pack\<close>)
  note packs = pack_lengths parse_int32_pack parse_uint32_pack parse_uint64_pack
  note s32 = varints32 [where pack = sint32_pack and parse = "\<lambda>s at. unzigzag32 (parse_uint32 s at)"]
  note s64 = varints64 [where pack = sint64_pack and parse = "\<lambda>s at. unzigzag64 (parse_uint64 s at)"]
  have z: "unzigzag32 (parse_uint32 (length (sint32_pack w)) (sint32_pack w @ more)) = w"
    "unzigzag64 (parse_uint64 (length (sint64_pack x)) (sint64_pack x @ more)) = x" for w x more
    by (simp_all add: sint32_pack_def sint64_pack_def parse_uint32_pack parse_uint64_pack)
  show ?thesis
    using assms(1)
    by (cases t) (simp_all add: packed_elements_def value_pack_def [abs_def] packable_def wire_types f32 f64
        varints32 varints64 s32 s64 v32 v64 packs z booleans_pack b del: length_concat)
qed

section \<open>The number of elements\<close>

lemma varint_loop_split:
  assumes "varint_loop left i at = Some s" and "i + left \<le> length at" and "\<forall>j < i. at ! j AND 0x80 \<noteq> 0"
  shows "i < s \<and> s \<le> length at \<and> at ! (s - 1) AND 0x80 = 0 \<and> (\<forall>j < s - 1. at ! j AND 0x80 \<noteq> 0)"
  using assms
proof (induction left i at rule: varint_loop.induct)
  case (2 left i at)
  show ?case
  proof (cases "at ! i AND 0x80 = 0")
    case True
    with 2 show ?thesis by auto
  next
    case False
    then have "varint_loop left (i + 1) at = Some s" using 2(2) by simp
    moreover have "\<forall>j < i + 1. at ! j AND 0x80 \<noteq> 0" using False 2(4) by (simp add: less_Suc_eq)
    ultimately show ?thesis using 2(1) [OF False] 2(3) by auto
  qed
qed simp

lemma max_b128_append: "max_b128_numbers (xs @ ys) = max_b128_numbers xs + max_b128_numbers ys"
  by (induction xs) simp_all

lemma max_b128_none: "\<forall>b \<in> set xs. b AND 0x80 \<noteq> 0 \<Longrightarrow> max_b128_numbers xs = 0"
  by (induction xs) simp_all

lemma scan_varint_one:
  assumes "scan_varint at = Some s"
  shows "max_b128_numbers at = Suc (max_b128_numbers (drop s at))"
proof -
  have h: "0 < s \<and> s \<le> length at \<and> at ! (s - 1) AND 0x80 = 0 \<and> (\<forall>j < s - 1. at ! j AND 0x80 \<noteq> 0)"
    using varint_loop_split [of _ 0 at s] assms unfolding scan_varint_def by (auto split: if_splits)
  then have "s - 1 < length at" "Suc (s - 1) = s" by auto
  then have t: "take s at = take (s - 1) at @ [at ! (s - 1)]" using take_Suc_conv_app_nth [of "s - 1" at] by simp
  have "max_b128_numbers (take (s - 1) at) = 0"
    using h by (intro max_b128_none) (auto simp: in_set_conv_nth)
  then have "max_b128_numbers (take s at) = 1" using h unfolding t by (simp add: max_b128_append)
  then show ?thesis using max_b128_append [of "take s at" "drop s at"] by simp
qed

lemma varints_loop_count: "varints_loop parse at = Some vs \<Longrightarrow> length vs = max_b128_numbers at"
proof (induction parse at arbitrary: vs rule: varints_loop.induct)
  case (1 parse at)
  show ?case
  proof (cases "at = []")
    case True
    then show ?thesis using 1(2) by (simp add: varints_loop.simps)
  next
    case False
    with 1(2) obtain s ws where s: "scan_varint at = Some s" "s \<noteq> 0" "varints_loop parse (drop s at) = Some ws" "vs = parse s at # ws"
      by (subst (asm) varints_loop.simps) (auto split: option.splits if_splits)
    with 1(1) [OF False s(1,2) s(3)] scan_varint_one [OF s(1)] show ?thesis by simp
  qed
qed

lemma length_fixed_loop [simp]: "length (fixed_loop parse siz n at) = n"
  by (induction n arbitrary: at) simp_all

lemma packed_elements_count:
  assumes "count_packed_elements t at = Some c" and "packed_elements t at = Some vs"
  shows "length vs = c"
  using assms
  by (cases t) (auto simp: count_packed_elements_def packed_elements_def booleans_def dest: varints_loop_count split: if_splits)

section \<open>Properties\<close>

text \<open>C24: A packed array of up to 4 GB is packed without meeting the assertion on the length of its prefix, in
  exactly the computed number of bytes; these bytes are scanned as one member, for which space
  for exactly the array's elements is counted, and parsing it appends the array's elements to the field.\<close>

theorem packed_array_roundtrip:
  assumes "packable (fd_type f)" and "array \<noteq> []" and "\<forall>v \<in> set array. value_ok mok (fd_type f) v"
    and "length (concat (map (value_pack no_message (fd_type f)) array)) < 2 ^ 32 - 5"
  shows "\<exists>bs len pref. packed_array_pack f array = Inr bs \<and> length bs = packed_size f array \<and>
    parse_tag_and_wiretype (bs @ later) = Some (get_tag_size (fd_id f), fd_id f, WIRE_TYPE_LENGTH_PREFIXED) \<and>
    member_len WIRE_TYPE_LENGTH_PREFIXED (drop (get_tag_size (fd_id f)) (bs @ later)) = Some (len, pref) \<and>
    get_tag_size (fd_id f) + len = length bs \<and>
    (\<forall>sm. sm_len sm = len \<and> sm_length_prefix_len sm = pref \<and> sm_data sm = drop (get_tag_size (fd_id f)) (bs @ later) \<longrightarrow>
      parse_packed_repeated_member f sm (Rep vs) = Parsed (Rep (vs @ array)) \<and>
      (\<forall>body c. member_bytes sm = Parsed body \<and> count_packed_elements (fd_type f) body = Some c \<longrightarrow> c = length array))"
proof -
  let ?p = "concat (map (value_pack no_message (fd_type f)) array)"
  let ?h = "tagged WIRE_TYPE_LENGTH_PREFIXED (tag_pack (fd_id f))"
  let ?u = "uint32_pack (of_nat (length ?p))"
  have lt: "length ?p < 2 ^ 32" using assms(4) by simp
  have run: "packed_array_pack f array = Inr (?h @ ?u @ ?p)"
    by (rule packed_array_pack_eq [OF assms(1,2) lt])
  have lh: "length ?h = get_tag_size (fd_id f)"
    unfolding get_tag_size_pack [symmetric] by (simp add: tagged_def) (simp add: tag_pack_varint)
  have d: "drop (get_tag_size (fd_id f)) ((?h @ ?u @ ?p) @ later) = ?u @ ?p @ later" using lh by simp
  have tag: "parse_tag_and_wiretype ((?h @ ?u @ ?p) @ later) = Some (get_tag_size (fd_id f), fd_id f, WIRE_TYPE_LENGTH_PREFIXED)"
    using parse_tag_ok [of WIRE_TYPE_LENGTH_PREFIXED "fd_id f" "?u @ ?p @ later"] by (simp add: wire_types)
  have len: "member_len WIRE_TYPE_LENGTH_PREFIXED (?u @ ?p @ later) = Some (length (?u @ ?p), length ?u)"
    using member_len_prefixed [OF assms(4), of later] by (simp add: wire_types)
  have els: "packed_elements (fd_type f) ?p = Some array"
    by (rule packed_elements_pack [OF assms(1,3)])
  have body: "member_bytes sm = Parsed ?p"
    if "sm_len sm = length (?u @ ?p)" "sm_length_prefix_len sm = length ?u" "sm_data sm = ?u @ ?p @ later" for sm
    using that by (intro member_bytes_ok [OF assms(4)]) simp_all
  show ?thesis
    using run tag len d lh packed_size_eq [OF assms(1) run lt] body els packed_elements_count [of "fd_type f" ?p _ array]
    by (intro exI [of _ "?h @ ?u @ ?p"] exI [of _ "length (?u @ ?p)"] exI [of _ "length ?u"])
      (auto simp: parse_packed_repeated_member_def simp del: length_concat)
qed

theorem packed_array_roundtrip_witness:
  "\<exists>bs. packed_array_pack (Field ''session'' 3 REPEATED T_UINT32 True None) [V32 1, V32 300] = Inr bs \<and> length bs = 5"
proof -
  let ?f = "Field ''session'' 3 REPEATED T_UINT32 True None"
  have p: "packable (fd_type ?f)" "\<forall>v \<in> set [V32 1, V32 300]. value_ok (\<lambda>_. True) (fd_type ?f) v"
    by (simp_all add: packable_def wire_types value_ok_def)
  have l: "length (concat (map (value_pack no_message (fd_type ?f)) [V32 1, V32 300])) = 3"
    by (simp add: value_pack_def uint32_size_pack uint32_size_def)
  have "packed_size ?f [V32 1, V32 300] = 5"
    by (simp add: packed_size_def value_size_def uint32_size_def get_tag_size_def)
  moreover have "length (concat (map (value_pack no_message (fd_type ?f)) [V32 1, V32 300])) < 2 ^ 32 - 5" unfolding l by simp
  then obtain bs where "packed_array_pack ?f [V32 1, V32 300] = Inr bs" "length bs = packed_size ?f [V32 1, V32 300]"
    using packed_array_roundtrip [OF p(1) _ p(2), of "[]" "[]"] by blast
  ultimately show ?thesis by auto
qed

end
