(* ===== verification/DataBuf.thy ===== *)
theory DataBuf
  imports Prelude
begin

text \<open>
  The fragment buffers of protobuf-c-data-buffer.c, which hold a stream of bytes in a chain
  of fragments: data is appended to the last one and taken from the first one. The interface
  \<open>byte_queue\<close> says what a user of such a buffer relies on, and the buffers implement it.
\<close>

section \<open>Fragments\<close>

text \<open>
  A fragment is the chunk the allocator returned, less its header of 16 bytes; only the
  first 4096 of its bytes are used. The bytes of a new chunk are taken to be 0; they are written
  before they are read.
\<close>

abbreviation PROTOBUF_C_FRAGMENT_DATA_SIZE :: nat where
  "PROTOBUF_C_FRAGMENT_DATA_SIZE \<equiv> 4096"

abbreviation BUF_CHUNK_SIZE :: nat where
  "BUF_CHUNK_SIZE \<equiv> 8192"

abbreviation MAX_FRAGMENTS_TO_WRITE :: nat where
  "MAX_FRAGMENTS_TO_WRITE \<equiv> 16"

record fragment =
  buf_start :: nat
  buf_length :: nat
  buf_data :: "byte list"

text \<open>\<open>first_frag\<close> and \<open>last_frag\<close> are the ends of the chain, null when it is empty.\<close>

record data_buffer =
  buf_size :: u64
  buf_frags :: "fragment list"

text \<open>Conversions to \<open>size_t\<close> and to the \<open>int\<close> that some operations return.\<close>

definition size_t :: "int \<Rightarrow> nat" where
  "size_t i = nat (i mod 2 ^ 64)"

definition int_of_size :: "nat \<Rightarrow> int" where
  "int_of_size n = sint (of_nat n :: u32)"

definition protobuf_c_data_buffer_fragment_avail :: "fragment \<Rightarrow> int" where
  "protobuf_c_data_buffer_fragment_avail frag =
     int PROTOBUF_C_FRAGMENT_DATA_SIZE - int (buf_start frag) - int (buf_length frag)"

text \<open>The bytes from the start of a fragment's data to its end.\<close>

definition fragment_bytes :: "fragment \<Rightarrow> byte list" where
  "fragment_bytes frag = take (buf_length frag) (drop (buf_start frag) (buf_data frag))"

definition new_native_fragment :: fragment where
  "new_native_fragment = \<lparr>buf_start = 0, buf_length = 0, buf_data = replicate (BUF_CHUNK_SIZE - 16) 0\<rparr>"

definition protobuf_c_data_buffer_init :: data_buffer where
  "protobuf_c_data_buffer_init = \<lparr>buf_size = 0, buf_frags = []\<rparr>"

section \<open>Appending\<close>

text \<open>
  The chain with a last fragment that has room. When the loop adds a fragment behind a full one it
  asks the full one for its room and copies nothing in that turn; the next turn fills the new one.
\<close>

definition with_room :: "fragment list \<Rightarrow> fragment list" where
  "with_room frags =
     (if frags = [] \<or> size_t (protobuf_c_data_buffer_fragment_avail (last frags)) = 0
      then frags @ [new_native_fragment] else frags)"

definition fill_end :: "byte list \<Rightarrow> fragment \<Rightarrow> fault + fragment" where
  "fill_end bytes frag =
     (let end = buf_start frag + buf_length frag in
      if end + length bytes > length (buf_data frag) then Inl OutOfBounds
      else Inr (frag\<lparr>buf_data := overwrite (buf_data frag) end bytes, buf_length := buf_length frag + length bytes\<rparr>))"

lemma avail_with_room: "size_t (protobuf_c_data_buffer_fragment_avail (last (with_room frags))) > 0"
  by (auto simp: with_room_def new_native_fragment_def protobuf_c_data_buffer_fragment_avail_def size_t_def)

function append_loop :: "byte list \<Rightarrow> fragment list \<Rightarrow> fault + fragment list" where
  "append_loop data frags =
     (if data = [] then Inr frags
      else
        let chain = with_room frags;
            frag = last chain;
            avail = min (size_t (protobuf_c_data_buffer_fragment_avail frag)) (length data)
        in case fill_end (take avail data) frag of
             Inl e \<Rightarrow> Inl e
           | Inr frag' \<Rightarrow> append_loop (drop avail data) (butlast chain @ [frag']))"
  by auto
termination
proof (relation "measure (length \<circ> fst)")
  fix data :: "byte list" and frags chain frag avail
  assume "data \<noteq> []" and "chain = with_room frags" and "frag = last chain"
    and "avail = min (size_t (protobuf_c_data_buffer_fragment_avail frag)) (length data)"
  then have "avail > 0" "data \<noteq> []" using avail_with_room by auto
  then show "((drop avail data, butlast chain @ [frag']), data, frags) \<in> measure (length \<circ> fst)" for frag' by simp
qed simp

declare append_loop.simps [simp del]

definition protobuf_c_data_buffer_append :: "byte list \<Rightarrow> (data_buffer, unit) prog" where
  "protobuf_c_data_buffer_append data = (\<lambda>b.
     case append_loop data (buf_frags b) of
       Inl e \<Rightarrow> Inl e
     | Inr frags \<Rightarrow> Inr ((), b\<lparr>buf_size := buf_size b + of_nat (length data), buf_frags := frags\<rparr>))"

function append_repeated_loop :: "byte \<Rightarrow> nat \<Rightarrow> fragment list \<Rightarrow> fault + fragment list" where
  "append_repeated_loop character count frags =
     (if count = 0 then Inr frags
      else
        let chain = with_room frags;
            frag = last chain;
            avail = min (size_t (protobuf_c_data_buffer_fragment_avail frag)) count
        in case fill_end (replicate avail character) frag of
             Inl e \<Rightarrow> Inl e
           | Inr frag' \<Rightarrow> append_repeated_loop character (count - avail) (butlast chain @ [frag']))"
  by auto
termination
proof (relation "measure (\<lambda>(c, n, fs). n)")
  fix count :: nat and character :: byte and frags chain frag avail
  assume "count \<noteq> 0" and "chain = with_room frags" and "frag = last chain"
    and "avail = min (size_t (protobuf_c_data_buffer_fragment_avail frag)) count"
  then have "avail > 0" "count \<noteq> 0" using avail_with_room by auto
  then show "((character, count - avail, butlast chain @ [frag']), character, count, frags) \<in> measure (\<lambda>(c, n, fs). n)"
    for frag' by simp
qed simp

declare append_repeated_loop.simps [simp del]

definition protobuf_c_data_buffer_append_repeated_char :: "byte \<Rightarrow> nat \<Rightarrow> (data_buffer, unit) prog" where
  "protobuf_c_data_buffer_append_repeated_char character count = (\<lambda>b.
     case append_repeated_loop character count (buf_frags b) of
       Inl e \<Rightarrow> Inl e
     | Inr frags \<Rightarrow> Inr ((), b\<lparr>buf_size := buf_size b + of_nat count, buf_frags := frags\<rparr>))"

text \<open>A string is given without its terminator.\<close>

definition protobuf_c_data_buffer_append_string :: "byte list \<Rightarrow> (data_buffer, unit) prog" where
  "protobuf_c_data_buffer_append_string str = protobuf_c_data_buffer_append str"

definition protobuf_c_data_buffer_append_char :: "byte \<Rightarrow> (data_buffer, unit) prog" where
  "protobuf_c_data_buffer_append_char character = protobuf_c_data_buffer_append [character]"

definition protobuf_c_data_buffer_append_string0 :: "byte list \<Rightarrow> (data_buffer, unit) prog" where
  "protobuf_c_data_buffer_append_string0 str = protobuf_c_data_buffer_append (str @ [0])"

section \<open>Taking\<close>

definition cut_front :: "nat \<Rightarrow> fragment \<Rightarrow> fragment" where
  "cut_front n frag = frag\<lparr>buf_start := buf_start frag + n, buf_length := buf_length frag - n\<rparr>"

fun take_loop :: "nat \<Rightarrow> fragment list \<Rightarrow> byte list \<times> fragment list" where
  "take_loop max_length [] = ([], [])"
| "take_loop max_length (first # frags) =
     (if max_length = 0 then ([], first # frags)
      else if buf_length first \<le> max_length then
        (let (data, chain) = take_loop (max_length - buf_length first) frags
         in (fragment_bytes first @ data, chain))
      else (take max_length (fragment_bytes first), cut_front max_length first # frags))"

definition protobuf_c_data_buffer_read :: "nat \<Rightarrow> (data_buffer, byte list) prog" where
  "protobuf_c_data_buffer_read max_length = (\<lambda>b.
     let (data, frags) = take_loop max_length (buf_frags b);
         rv = length data;
         size = buf_size b - of_nat rv
     in if rv = max_length \<or> size = 0 then Inr (data, b\<lparr>buf_size := size, buf_frags := frags\<rparr>)
        else Inl Assertion)"

fun peek_loop :: "nat \<Rightarrow> fragment list \<Rightarrow> byte list" where
  "peek_loop max_length [] = []"
| "peek_loop max_length (frag # frags) =
     (if max_length = 0 then []
      else if buf_length frag \<le> max_length then fragment_bytes frag @ peek_loop (max_length - buf_length frag) frags
      else take max_length (fragment_bytes frag))"

text \<open>The bytes copied out, and the result, which is counted in an \<open>int\<close>.\<close>

definition protobuf_c_data_buffer_peek :: "nat \<Rightarrow> data_buffer \<Rightarrow> byte list \<times> int" where
  "protobuf_c_data_buffer_peek max_length b =
     (let data = peek_loop max_length (buf_frags b) in (data, int_of_size (length data)))"

fun discard_loop :: "nat \<Rightarrow> fragment list \<Rightarrow> nat \<times> fragment list" where
  "discard_loop max_discard [] = (0, [])"
| "discard_loop max_discard (first # frags) =
     (if max_discard = 0 then (0, first # frags)
      else if buf_length first \<le> max_discard then
        (let (rv, chain) = discard_loop (max_discard - buf_length first) frags in (buf_length first + rv, chain))
      else (max_discard, cut_front max_discard first # frags))"

definition protobuf_c_data_buffer_discard :: "nat \<Rightarrow> (data_buffer, int) prog" where
  "protobuf_c_data_buffer_discard max_discard = (\<lambda>b.
     let (n, frags) = discard_loop max_discard (buf_frags b);
         rv = int_of_size n
     in Inr (rv, b\<lparr>buf_size := buf_size b - word_of_int rv, buf_frags := frags\<rparr>))"

fun memchr :: "byte \<Rightarrow> byte list \<Rightarrow> nat option" where
  "memchr c [] = None"
| "memchr c (x # xs) = (if x = c then Some 0 else map_option Suc (memchr c xs))"

text \<open>The loop that \<open>read_line\<close> and \<open>index_of\<close> share: the distance to a byte.\<close>

fun index_loop :: "byte \<Rightarrow> fragment list \<Rightarrow> nat option" where
  "index_loop c [] = None"
| "index_loop c (at # frags) =
     (case memchr c (fragment_bytes at) of
        Some i \<Rightarrow> Some i
      | None \<Rightarrow> map_option ((+) (buf_length at)) (index_loop c frags))"

text \<open>The memory a line is returned in, with the terminator in place of the newline.\<close>

definition protobuf_c_data_buffer_read_line :: "(data_buffer, byte list option) prog" where
  "protobuf_c_data_buffer_read_line =
     bnd (gets (\<lambda>b. index_loop 0x0A (buf_frags b))) (\<lambda>len.
     case len of
       None \<Rightarrow> ret None
     | Some len \<Rightarrow>
         bnd (protobuf_c_data_buffer_read (len + 1)) (\<lambda>rv.
         ret (Some (rv[len := 0]))))"

definition protobuf_c_data_buffer_index_of :: "byte \<Rightarrow> data_buffer \<Rightarrow> int" where
  "protobuf_c_data_buffer_index_of char_to_find b =
     (case index_loop char_to_find (buf_frags b) of None \<Rightarrow> - 1 | Some i \<Rightarrow> int_of_size i)"

definition protobuf_c_data_buffer_parse_string0 :: "(data_buffer, byte list option) prog" where
  "protobuf_c_data_buffer_parse_string0 =
     bnd (gets (protobuf_c_data_buffer_index_of 0)) (\<lambda>index0.
     if index0 < 0 then ret None
     else bnd (protobuf_c_data_buffer_read (nat index0 + 1)) (\<lambda>rv. ret (Some rv)))"

definition protobuf_c_data_buffer_peek_char :: "data_buffer \<Rightarrow> fault + int" where
  "protobuf_c_data_buffer_peek_char b =
     (if buf_size b = 0 then Inr (- 1)
      else case find (\<lambda>frag. buf_length frag > 0) (buf_frags b) of
        None \<Rightarrow> Inl NullDeref
      | Some frag \<Rightarrow> Inr (uint (hd (fragment_bytes frag))))"

definition protobuf_c_data_buffer_read_char :: "(data_buffer, int) prog" where
  "protobuf_c_data_buffer_read_char =
     bnd (protobuf_c_data_buffer_read 1) (\<lambda>c. ret (if c = [] then - 1 else uint (hd c)))"

section \<open>Files\<close>

text \<open>
  The system's answer to a write of some pieces, and to a read: the result, and whether
  \<open>errno\<close> may be ignored; for a read the bytes, or a negative result.
\<close>

type_synonym written = "byte list list \<Rightarrow> int \<times> bool"

definition finish_write :: "int \<times> bool \<Rightarrow> (data_buffer, int) prog" where
  "finish_write answer =
     (let (rv, ignorable) = answer in
      if rv < 0 \<and> ignorable then ret 0
      else if rv \<le> 0 then ret rv
      else bnd (protobuf_c_data_buffer_discard (nat rv)) (\<lambda>_. ret rv))"

definition protobuf_c_data_buffer_writev :: "written \<Rightarrow> (data_buffer, int) prog" where
  "protobuf_c_data_buffer_writev writev =
     bnd (gets (\<lambda>b. map fragment_bytes (take MAX_FRAGMENTS_TO_WRITE (buf_frags b)))) (\<lambda>iov.
     finish_write (writev iov))"

text \<open>The number of fragments that hold \<open>max_bytes\<close>, and the pieces of them that are written.\<close>

fun count_frags :: "nat \<Rightarrow> nat \<Rightarrow> fragment list \<Rightarrow> nat" where
  "count_frags nfrag max_bytes [] = nfrag"
| "count_frags nfrag max_bytes (frag_at # frags) =
     (if max_bytes > 0 \<and> nfrag < MAX_FRAGMENTS_TO_WRITE
      then count_frags (nfrag + 1) (max_bytes - buf_length frag_at) frags else nfrag)"

fun pieces_of :: "nat \<Rightarrow> fragment list \<Rightarrow> byte list list" where
  "pieces_of bytes [] = []"
| "pieces_of bytes (frag_at # frags) =
     (if bytes > 0
      then take (min (buf_length frag_at) bytes) (fragment_bytes frag_at) # pieces_of (bytes - min (buf_length frag_at) bytes) frags
      else [])"

definition protobuf_c_data_buffer_writev_len :: "written \<Rightarrow> nat \<Rightarrow> (data_buffer, int) prog" where
  "protobuf_c_data_buffer_writev_len writev max_bytes =
     bnd (gets (\<lambda>b. pieces_of max_bytes (take (count_frags 0 max_bytes (buf_frags b)) (buf_frags b)))) (\<lambda>iov.
     finish_write (writev iov))"

definition protobuf_c_data_buffer_read_in_fd :: "int + byte list \<Rightarrow> (data_buffer, int) prog" where
  "protobuf_c_data_buffer_read_in_fd answer =
     (case answer of
        Inl rv \<Rightarrow> ret rv
      | Inr buf \<Rightarrow> bnd (protobuf_c_data_buffer_append buf) (\<lambda>_. ret (int (length buf))))"

section \<open>Emptying and moving\<close>

definition protobuf_c_data_buffer_reset :: "(data_buffer, unit) prog" where
  "protobuf_c_data_buffer_reset = modify (\<lambda>b. b\<lparr>buf_size := 0, buf_frags := []\<rparr>)"

text \<open>The result, the destination and the source.\<close>

definition protobuf_c_data_buffer_drain :: "data_buffer \<Rightarrow> data_buffer \<Rightarrow> u64 \<times> data_buffer \<times> data_buffer" where
  "protobuf_c_data_buffer_drain dst src =
     (if buf_frags src = [] then (buf_size src, dst, src)
      else (buf_size src,
        dst\<lparr>buf_size := buf_size dst + buf_size src, buf_frags := buf_frags dst @ buf_frags src\<rparr>,
        src\<lparr>buf_size := 0, buf_frags := []\<rparr>))"

text \<open>The fragments that are moved as they are, and what is left of the budget and of the source.\<close>

fun move_loop :: "nat \<Rightarrow> fragment list \<Rightarrow> fragment list \<times> nat \<times> fragment list" where
  "move_loop max_transfer [] = ([], max_transfer, [])"
| "move_loop max_transfer (first # frags) =
     (if max_transfer \<ge> buf_length first then
        (let (moved, left, chain) = move_loop (max_transfer - buf_length first) frags in (first # moved, left, chain))
      else ([], max_transfer, first # frags))"

definition protobuf_c_data_buffer_transfer ::
  "data_buffer \<Rightarrow> data_buffer \<Rightarrow> nat \<Rightarrow> fault + nat \<times> data_buffer \<times> data_buffer" where
  "protobuf_c_data_buffer_transfer dst src max_transfer =
     (let (moved, left, chain) = move_loop max_transfer (buf_frags src);
          rv = sum_list (map buf_length moved);
          dst1 = dst\<lparr>buf_size := buf_size dst + of_nat rv, buf_frags := buf_frags dst @ moved\<rparr>
      in case chain of
           [] \<Rightarrow> Inr (rv, dst1, src\<lparr>buf_size := buf_size src - of_nat rv, buf_frags := []\<rparr>)
         | frag # frags \<Rightarrow>
             if left = 0 then Inr (rv, dst1, src\<lparr>buf_size := buf_size src - of_nat rv, buf_frags := chain\<rparr>)
             else
               (case protobuf_c_data_buffer_append (take left (fragment_bytes frag)) dst1 of
                  Inl e \<Rightarrow> Inl e
                | Inr (_, dst2) \<Rightarrow> Inr (rv + left, dst2,
                    src\<lparr>buf_size := buf_size src - of_nat (rv + left), buf_frags := cut_front left frag # frags\<rparr>)))"

section \<open>Searching for a string\<close>

text \<open>
  The characters of the string are \<open>char\<close>, which is signed on the machines modelled here, and the
  bytes of a fragment are unsigned; both are compared as \<open>int\<close>.
\<close>

definition char_eq :: "byte \<Rightarrow> byte \<Rightarrow> bool" where
  "char_eq c x \<longleftrightarrow> sint c = uint x"

text \<open>
  The rest of the string against the rest of a fragment and the fragments after it. The scan
  starts at the beginning of a fragment's memory, not at the start of its data.
\<close>

fun match_tail :: "byte list \<Rightarrow> byte list \<Rightarrow> fragment list \<Rightarrow> bool" where
  "match_tail [] at frags = True"
| "match_tail (c # str) [] [] = False"
| "match_tail (c # str) [] (subfrag # frags) = match_tail (c # str) (fragment_bytes subfrag) frags"
| "match_tail (c # str) (x # at) frags = (char_eq c x \<and> match_tail str at frags)"

fun scan_frag :: "byte list \<Rightarrow> byte list \<Rightarrow> fragment list \<Rightarrow> nat option" where
  "scan_frag str [] frags = None"
| "scan_frag str (x # frag_at) frags =
     (if char_eq (hd str) x \<and> match_tail (tl str) frag_at frags then Some 0
      else map_option Suc (scan_frag str frag_at frags))"

definition frag_memory :: "fragment \<Rightarrow> byte list" where
  "frag_memory frag = take (buf_length frag) (buf_data frag)"

fun str_loop :: "byte list \<Rightarrow> fragment list \<Rightarrow> nat option" where
  "str_loop str [] = None"
| "str_loop str (frag # frags) =
     (case scan_frag str (frag_memory frag) frags of
        Some i \<Rightarrow> Some i
      | None \<Rightarrow> map_option ((+) (buf_length frag)) (str_loop str frags))"

text \<open>For the empty string the comparison goes on behind its terminator when a byte is 0.\<close>

definition protobuf_c_data_buffer_str_index_of :: "byte list \<Rightarrow> data_buffer \<Rightarrow> fault + int" where
  "protobuf_c_data_buffer_str_index_of str b =
     (if str = [] then (if 0 \<in> set (concat (map frag_memory (buf_frags b))) then Inl OutOfBounds else Inr (- 1))
      else case str_loop str (buf_frags b) of None \<Rightarrow> Inr (- 1) | Some i \<Rightarrow> Inr (int_of_size i))"

section \<open>The bytes a buffer holds\<close>

definition frag_ok :: "fragment \<Rightarrow> bool" where
  "frag_ok f \<longleftrightarrow> buf_start f + buf_length f \<le> PROTOBUF_C_FRAGMENT_DATA_SIZE \<and> length (buf_data f) = BUF_CHUNK_SIZE - 16"

definition frags_bytes :: "fragment list \<Rightarrow> byte list" where
  "frags_bytes fs = concat (map fragment_bytes fs)"

definition contents :: "data_buffer \<Rightarrow> byte list" where
  "contents b = frags_bytes (buf_frags b)"

text \<open>What \<open>CHECK_INTEGRITY\<close> tests, and that every fragment is within its chunk.\<close>

definition buffer_ok :: "data_buffer \<Rightarrow> bool" where
  "buffer_ok b \<longleftrightarrow> (\<forall>f \<in> set (buf_frags b). frag_ok f) \<and> buf_size b = of_nat (length (contents b))"

lemma frags_bytes_simps [simp]:
  "frags_bytes [] = []" "frags_bytes (f # fs) = fragment_bytes f @ frags_bytes fs"
  "frags_bytes (fs @ gs) = frags_bytes fs @ frags_bytes gs"
  by (simp_all add: frags_bytes_def)

lemma length_fragment_bytes [simp]: "frag_ok f \<Longrightarrow> length (fragment_bytes f) = buf_length f"
  by (auto simp: frag_ok_def fragment_bytes_def min_def)

lemma length_frags_bytes: "\<forall>f \<in> set fs. frag_ok f \<Longrightarrow> length (frags_bytes fs) = sum_list (map buf_length fs)"
  by (induction fs) simp_all

lemma buffer_ok_init: "buffer_ok protobuf_c_data_buffer_init" "contents protobuf_c_data_buffer_init = []"
  by (simp_all add: buffer_ok_def contents_def protobuf_c_data_buffer_init_def)

lemma frag_ok_new: "frag_ok new_native_fragment" "fragment_bytes new_native_fragment = []"
  by (simp_all add: frag_ok_def new_native_fragment_def fragment_bytes_def)

lemma cut_front_ok:
  assumes "frag_ok f" and "n \<le> buf_length f"
  shows "frag_ok (cut_front n f)" and "fragment_bytes (cut_front n f) = drop n (fragment_bytes f)"
  using assms by (simp_all add: frag_ok_def cut_front_def fragment_bytes_def drop_take add.commute)

lemma size_t_nat [simp]: "n < 2 ^ 64 \<Longrightarrow> size_t (int n) = n"
  by (simp add: size_t_def)

lemma int_of_size_small: "n < 2 ^ 31 \<Longrightarrow> int_of_size n = int n"
  by (simp add: int_of_size_def signed_of_nat signed_take_bit_int_eq_self)

lemma fill_end_ok:
  assumes "frag_ok f" and "buf_start f + buf_length f + length d \<le> PROTOBUF_C_FRAGMENT_DATA_SIZE"
  shows "\<exists>f'. fill_end d f = Inr f' \<and> frag_ok f' \<and> fragment_bytes f' = fragment_bytes f @ d"
  using assms
  by (auto simp: fill_end_def frag_ok_def fragment_bytes_def Let_def overwrite_def drop_take)

lemma with_room_ok:
  assumes "\<forall>f \<in> set fs. frag_ok f"
  obtains gs g where "with_room fs = gs @ [g]" and "\<forall>f \<in> set (gs @ [g]). frag_ok f" and "frags_bytes (gs @ [g]) = frags_bytes fs"
    and "size_t (protobuf_c_data_buffer_fragment_avail g) = PROTOBUF_C_FRAGMENT_DATA_SIZE - buf_start g - buf_length g"
proof -
  have avail: "size_t (protobuf_c_data_buffer_fragment_avail g) = PROTOBUF_C_FRAGMENT_DATA_SIZE - buf_start g - buf_length g"
    if "frag_ok g" for g
  proof -
    have "protobuf_c_data_buffer_fragment_avail g = int (PROTOBUF_C_FRAGMENT_DATA_SIZE - buf_start g - buf_length g)"
      using that by (simp add: frag_ok_def protobuf_c_data_buffer_fragment_avail_def)
    then show ?thesis by simp
  qed
  show thesis
  proof (cases "fs = [] \<or> size_t (protobuf_c_data_buffer_fragment_avail (last fs)) = 0")
    case True
    then show thesis using assms avail [OF frag_ok_new(1)]
      by (intro that [of fs new_native_fragment]) (simp_all add: with_room_def frag_ok_new)
  next
    case False
    then have "fs = butlast fs @ [last fs]" by simp
    moreover from this have "frag_ok (last fs)" using assms False by (metis last_in_set)
    ultimately show thesis using assms False avail
      by (intro that [of "butlast fs" "last fs"]) (simp_all add: with_room_def)
  qed
qed

section \<open>Every operation on the bytes\<close>

lemma append_loop_ok:
  assumes "\<forall>f \<in> set fs. frag_ok f"
  shows "\<exists>fs'. append_loop d fs = Inr fs' \<and> (\<forall>f \<in> set fs'. frag_ok f) \<and> frags_bytes fs' = frags_bytes fs @ d"
  using assms
proof (induction d fs rule: append_loop.induct)
  case (1 d fs)
  show ?case
  proof (cases "d = []")
    case True
    then show ?thesis using 1(2) by (simp add: append_loop.simps)
  next
    case False
    obtain gs g where g: "with_room fs = gs @ [g]" "\<forall>f \<in> set (gs @ [g]). frag_ok f" "frags_bytes (gs @ [g]) = frags_bytes fs"
      and av: "size_t (protobuf_c_data_buffer_fragment_avail g) = PROTOBUF_C_FRAGMENT_DATA_SIZE - buf_start g - buf_length g"
      by (rule with_room_ok [OF 1(2)])
    let ?n = "min (size_t (protobuf_c_data_buffer_fragment_avail g)) (length d)"
    have fits: "buf_start g + buf_length g + length (take ?n d) \<le> PROTOBUF_C_FRAGMENT_DATA_SIZE"
      using g(2) unfolding av by (auto simp: frag_ok_def)
    then obtain g' where g': "fill_end (take ?n d) g = Inr g'" "frag_ok g'" "fragment_bytes g' = fragment_bytes g @ take ?n d"
      using fill_end_ok [of g "take ?n d"] g(2) by auto
    have step: "append_loop d fs = append_loop (drop ?n d) (gs @ [g'])"
      using False g(1) g'(1) by (subst append_loop.simps) (simp add: Let_def)
    have last: "g = last (with_room fs)" "butlast (with_room fs) = gs" using g(1) by simp_all
    have "\<forall>f \<in> set (gs @ [g']). frag_ok f" using g(2) g'(2) by simp
    with 1(1) [OF False refl last(1) refl g'(1), unfolded last(2)]
    obtain fs' where "append_loop (drop ?n d) (gs @ [g']) = Inr fs'" "\<forall>f \<in> set fs'. frag_ok f"
      "frags_bytes fs' = frags_bytes (gs @ [g']) @ drop ?n d" by blast
    moreover have "frags_bytes (gs @ [g']) @ drop ?n d = frags_bytes fs @ d" using g(3) g'(3) by (simp flip: g(3))
    ultimately show ?thesis unfolding step by metis
  qed
qed

lemma fill_replicate_loop: "append_repeated_loop c n fs = append_loop (replicate n c) fs"
proof (induction c n fs rule: append_repeated_loop.induct)
  case (1 c n fs)
  show ?case
  proof (cases "n = 0")
    case True
    then show ?thesis by (simp add: append_loop.simps append_repeated_loop.simps)
  next
    case False
    let ?m = "min (size_t (protobuf_c_data_buffer_fragment_avail (last (with_room fs)))) n"
    have "append_repeated_loop c (n - ?m) (butlast (with_room fs) @ [f']) = append_loop (replicate (n - ?m) c) (butlast (with_room fs) @ [f'])"
      if "fill_end (replicate ?m c) (last (with_room fs)) = Inr f'" for f'
      using 1 [OF False refl refl refl that] .
    with False show ?thesis
      by (subst append_repeated_loop.simps, subst append_loop.simps) (auto simp: Let_def split: sum.split)
  qed
qed

lemma append_ok:
  assumes "buffer_ok b"
  shows "\<exists>b'. protobuf_c_data_buffer_append d b = Inr ((), b') \<and> buffer_ok b' \<and> contents b' = contents b @ d"
  using append_loop_ok [of "buf_frags b" d] assms
  by (auto simp: protobuf_c_data_buffer_append_def buffer_ok_def contents_def)

lemma append_repeated_char_eq:
  "protobuf_c_data_buffer_append_repeated_char c n = protobuf_c_data_buffer_append (replicate n c)"
  unfolding protobuf_c_data_buffer_append_repeated_char_def protobuf_c_data_buffer_append_def fill_replicate_loop length_replicate ..

lemma read_loop_ok:
  assumes "\<forall>f \<in> set fs. frag_ok f"
  shows "fst (take_loop n fs) = take n (frags_bytes fs) \<and> frags_bytes (snd (take_loop n fs)) = drop n (frags_bytes fs) \<and>
    (\<forall>f \<in> set (snd (take_loop n fs)). frag_ok f)"
  using assms by (induction n fs rule: take_loop.induct) (auto simp: split_def Let_def cut_front_ok)

lemma peek_loop_eq: "peek_loop n fs = fst (take_loop n fs)"
  by (induction n fs rule: peek_loop.induct) (simp_all add: split_def Let_def)

lemma discard_loop_eq:
  "\<forall>f \<in> set fs. frag_ok f \<Longrightarrow> discard_loop n fs = (length (fst (take_loop n fs)), snd (take_loop n fs))"
  by (induction n fs rule: discard_loop.induct) (auto simp: split_def Let_def)

lemma read_ok:
  assumes "buffer_ok b" 
  shows "\<exists>b'. protobuf_c_data_buffer_read n b = Inr (take n (contents b), b') \<and> buffer_ok b' \<and> contents b' = drop n (contents b)"
proof -
  obtain d fs where r: "take_loop n (buf_frags b) = (d, fs)" by (cases "take_loop n (buf_frags b)")
  with read_loop_ok [of "buf_frags b" n] assms have d: "d = take n (contents b)" "frags_bytes fs = drop n (contents b)" "\<forall>f \<in> set fs. frag_ok f"
    by (simp_all add: buffer_ok_def contents_def)
  have "buf_size b - of_nat (length d) = of_nat (length (drop n (contents b)))"
    using assms unfolding buffer_ok_def d(1) by (simp add: min_def of_nat_diff)
  moreover from this have "length d = n \<or> buf_size b - of_nat (length d) = 0" unfolding d(1) by (auto simp: min_def)
  ultimately show ?thesis
    using r d by (auto simp: protobuf_c_data_buffer_read_def buffer_ok_def contents_def)
qed

lemma peek_ok:
  assumes "buffer_ok b"
  shows "protobuf_c_data_buffer_peek n b = (take n (contents b), int_of_size (length (take n (contents b))))"
  using assms read_loop_ok [of "buf_frags b" n]
  by (simp add: protobuf_c_data_buffer_peek_def peek_loop_eq buffer_ok_def contents_def)

lemma discard_ok:
  assumes "buffer_ok b" and "length (take n (contents b)) < 2 ^ 31"
  shows "\<exists>b'. protobuf_c_data_buffer_discard n b = Inr (int (length (take n (contents b))), b') \<and> buffer_ok b' \<and>
    contents b' = drop n (contents b)"
proof -
  obtain d fs where r: "take_loop n (buf_frags b) = (d, fs)" by (cases "take_loop n (buf_frags b)")
  with read_loop_ok [of "buf_frags b" n] assms(1)
  have d: "d = take n (contents b)" "frags_bytes fs = drop n (contents b)" "\<forall>f \<in> set fs. frag_ok f"
    by (simp_all add: buffer_ok_def contents_def)
  have "discard_loop n (buf_frags b) = (length d, fs)"
    using discard_loop_eq [of "buf_frags b" n] assms(1) r by (simp add: buffer_ok_def)
  moreover have "int_of_size (length d) = int (length d)" using assms(2) unfolding d(1) by (rule int_of_size_small)
  moreover have "buf_size b - of_nat (length d) = of_nat (length (drop n (contents b)))"
    using assms(1) unfolding buffer_ok_def d(1) by (simp add: min_def of_nat_diff)
  ultimately show ?thesis
    using d by (auto simp: protobuf_c_data_buffer_discard_def buffer_ok_def contents_def)
qed

lemma memchr_None: "memchr c xs = None \<longleftrightarrow> c \<notin> set xs"
  by (induction xs) auto

lemma memchr_append:
  "memchr c (xs @ ys) = (case memchr c xs of Some i \<Rightarrow> Some i | None \<Rightarrow> map_option ((+) (length xs)) (memchr c ys))"
  by (induction xs) (cases "memchr c ys"; auto split: option.splits)+

lemma memchr_Some:
  "memchr c xs = Some i \<longleftrightarrow> i < length xs \<and> xs ! i = c \<and> (\<forall>j < i. xs ! j \<noteq> c)"
proof (induction xs arbitrary: i)
  case (Cons x xs)
  show ?case using Cons.IH by (cases i) (auto simp: nth_Cons split: nat.splits)
qed simp

lemma index_loop_eq: "\<forall>f \<in> set fs. frag_ok f \<Longrightarrow> index_loop c fs = memchr c (frags_bytes fs)"
  by (induction fs) (auto simp: memchr_append split: option.split)

lemma index_of_ok:
  "buffer_ok b \<Longrightarrow> protobuf_c_data_buffer_index_of c b = (case memchr c (contents b) of None \<Rightarrow> - 1 | Some i \<Rightarrow> int_of_size i)"
  by (simp add: protobuf_c_data_buffer_index_of_def index_loop_eq buffer_ok_def contents_def)

text \<open>Splitting at the first occurrence of a byte.\<close>

lemma memchr_split:
  "memchr c xs = Some i \<longleftrightarrow> (\<exists>line later. xs = line @ c # later \<and> c \<notin> set line \<and> i = length line)"
proof (induction xs arbitrary: i)
  case (Cons x xs)
  show ?case
  proof (cases "x = c")
    case True
    then show ?thesis by (auto simp: Cons_eq_append_conv)
  next
    case False
    then show ?thesis using Cons.IH by (cases i) (force simp: Cons_eq_append_conv)+
  qed
qed simp

lemma while_split:
  "c \<notin> set line \<Longrightarrow> takeWhile ((\<noteq>) c) (line @ c # later) = line \<and> dropWhile ((\<noteq>) c) (line @ c # later) = c # later"
  by (induction line) auto

lemma read_line_ok:
  assumes "buffer_ok b"
  shows "\<exists>b'. protobuf_c_data_buffer_read_line b =
      Inr (if 0x0A \<in> set (contents b) then Some (takeWhile ((\<noteq>) 0x0A) (contents b) @ [0]) else None, b') \<and> buffer_ok b' \<and>
    contents b' = (if 0x0A \<in> set (contents b) then tl (dropWhile ((\<noteq>) 0x0A) (contents b)) else contents b)"
proof -
  have ix: "index_loop 0x0A (buf_frags b) = memchr 0x0A (contents b)"
    using assms by (simp add: index_loop_eq buffer_ok_def contents_def)
  show ?thesis
  proof (cases "memchr 0x0A (contents b)")
    case None
    moreover from this have "0x0A \<notin> set (contents b)" by (simp only: memchr_None not_False_eq_True)
    ultimately show ?thesis using assms by (simp add: protobuf_c_data_buffer_read_line_def ix ret_app)
  next
    case (Some i)
    then obtain line later where s: "contents b = line @ 0x0A # later" "0x0A \<notin> set line" "i = length line"
      unfolding memchr_split by blast
    obtain b' where b': "protobuf_c_data_buffer_read (i + 1) b = Inr (take (i + 1) (contents b), b')" "buffer_ok b'" "contents b' = drop (i + 1) (contents b)"
      using read_ok [OF assms] by blast
    moreover have "takeWhile ((\<noteq>) 0x0A) (contents b) = line" "dropWhile ((\<noteq>) 0x0A) (contents b) = 0x0A # later"
      unfolding s(1) using while_split [OF s(2)] by simp_all
    ultimately show ?thesis
      using Some s(1,3) by (simp add: protobuf_c_data_buffer_read_line_def ix bnd_Inr ret_app)
  qed
qed

lemma parse_string0_ok:
  assumes "buffer_ok b" and "length (contents b) < 2 ^ 31"
  shows "\<exists>b'. protobuf_c_data_buffer_parse_string0 b =
      Inr (if 0 \<in> set (contents b) then Some (takeWhile ((\<noteq>) 0) (contents b) @ [0]) else None, b') \<and> buffer_ok b' \<and>
    contents b' = (if 0 \<in> set (contents b) then tl (dropWhile ((\<noteq>) 0) (contents b)) else contents b)"
proof (cases "memchr 0 (contents b)")
  case None
  moreover from this have "0 \<notin> set (contents b)" by (simp only: memchr_None not_False_eq_True)
  ultimately show ?thesis using assms
    by (simp add: protobuf_c_data_buffer_parse_string0_def index_of_ok prog_simps)
next
  case (Some i)
  then obtain line later where s: "contents b = line @ 0 # later" "0 \<notin> set line" "i = length line"
    unfolding memchr_split by blast
  have i: "protobuf_c_data_buffer_index_of 0 b = int i"
    using s assms Some by (simp add: index_of_ok int_of_size_small)
  obtain b' where b': "protobuf_c_data_buffer_read (i + 1) b = Inr (take (i + 1) (contents b), b')" "buffer_ok b'" "contents b' = drop (i + 1) (contents b)"
    using read_ok [OF assms(1)] by blast
  moreover have "takeWhile ((\<noteq>) 0) (contents b) = line" "dropWhile ((\<noteq>) 0) (contents b) = 0 # later"
    unfolding s(1) using while_split [OF s(2)] by simp_all
  ultimately show ?thesis
    using s(1,3) i by (simp add: protobuf_c_data_buffer_parse_string0_def bnd_Inr prog_simps)
qed

lemma read_char_ok:
  assumes "buffer_ok b"
  shows "\<exists>b'. protobuf_c_data_buffer_read_char b = Inr (if contents b = [] then - 1 else uint (hd (contents b)), b') \<and>
    buffer_ok b' \<and> contents b' = tl (contents b)"
proof -
  obtain b' where b': "protobuf_c_data_buffer_read 1 b = Inr (take 1 (contents b), b')" "buffer_ok b'" "contents b' = drop 1 (contents b)"
    using read_ok [OF assms] by blast
  then show ?thesis by (cases "contents b") (simp_all add: protobuf_c_data_buffer_read_char_def bnd_Inr ret_app)
qed

lemma peek_char_ok:
  assumes "buffer_ok b" and "length (contents b) < 2 ^ 64"
  shows "protobuf_c_data_buffer_peek_char b = Inr (if contents b = [] then - 1 else uint (hd (contents b)))"
proof -
  have z: "buf_size b = 0 \<longleftrightarrow> contents b = []"
    using assms by (auto simp: buffer_ok_def word_of_nat_eq_0_iff dest: dvd_imp_le)
  have "find (\<lambda>frag. buf_length frag > 0) fs = None \<longleftrightarrow> frags_bytes fs = []"
    "find (\<lambda>frag. buf_length frag > 0) fs = Some f \<Longrightarrow> hd (frags_bytes fs) = hd (fragment_bytes f)"
    if "\<forall>f \<in> set fs. frag_ok f" for fs f
    using that by (induction fs) (auto simp: hd_append split: if_splits dest: length_fragment_bytes)
  then show ?thesis
    using assms(1) z unfolding protobuf_c_data_buffer_peek_char_def buffer_ok_def contents_def
    by (cases "find (\<lambda>frag. buf_length frag > 0) (buf_frags b)") auto
qed

lemma drain_ok:
  assumes "buffer_ok dst" and "buffer_ok src" and "protobuf_c_data_buffer_drain dst src = (rv, dst', src')"
  shows "rv = of_nat (length (contents src)) \<and> buffer_ok dst' \<and> buffer_ok src' \<and>
    contents dst' = contents dst @ contents src \<and> contents src' = []"
  using assms
  by (auto simp: protobuf_c_data_buffer_drain_def buffer_ok_def contents_def split: if_splits)

lemma move_loop_ok:
  assumes "\<forall>f \<in> set fs. frag_ok f" and "move_loop n fs = (moved, left, chain)"
  shows "fs = moved @ chain" and "n = sum_list (map buf_length moved) + left"
    and "chain = [] \<or> left < buf_length (hd chain)"
proof -
  from assms have "fs = moved @ chain \<and> n = sum_list (map buf_length moved) + left \<and> (chain = [] \<or> left < buf_length (hd chain))"
    by (induction n fs arbitrary: moved left chain rule: move_loop.induct)
      (fastforce simp: Let_def split: if_splits prod.splits)+
  then show "fs = moved @ chain" "n = sum_list (map buf_length moved) + left" "chain = [] \<or> left < buf_length (hd chain)"
    by simp_all
qed

lemma transfer_ok:
  assumes "buffer_ok dst" and "buffer_ok src"
  shows "\<exists>dst' src'. protobuf_c_data_buffer_transfer dst src n = Inr (length (take n (contents src)), dst', src') \<and>
    buffer_ok dst' \<and> buffer_ok src' \<and> contents dst' = contents dst @ take n (contents src) \<and> contents src' = drop n (contents src)"
proof -
  obtain moved left chain where m: "move_loop n (buf_frags src) = (moved, left, chain)" using prod_cases3 by blast
  have oks: "\<forall>f \<in> set (buf_frags src). frag_ok f" "\<forall>f \<in> set (buf_frags dst). frag_ok f" using assms by (simp_all add: buffer_ok_def)
  note ml = move_loop_ok [OF oks(1) m]
  let ?rv = "sum_list (map buf_length moved)"
  have ok: "\<forall>f \<in> set moved. frag_ok f" "\<forall>f \<in> set chain. frag_ok f" using oks(1) ml(1) by simp_all
  have len: "length (frags_bytes moved) = ?rv" using length_frags_bytes [OF ok(1)] .
  have c: "contents src = frags_bytes moved @ frags_bytes chain" by (simp add: contents_def ml(1))
  let ?dst1 = "dst\<lparr>buf_size := buf_size dst + of_nat ?rv, buf_frags := buf_frags dst @ moved\<rparr>"
  have d1: "buffer_ok ?dst1" "contents ?dst1 = contents dst @ frags_bytes moved"
    using assms(1) ok(1) len by (auto simp: buffer_ok_def contents_def)
  have size: "buf_size src = of_nat (?rv + length (frags_bytes chain))" using assms(2) c len by (simp add: buffer_ok_def)
  show ?thesis
  proof (cases "chain = [] \<or> left = 0")
    case True
    then have "protobuf_c_data_buffer_transfer dst src n = Inr (?rv, ?dst1, src\<lparr>buf_size := buf_size src - of_nat ?rv, buf_frags := chain\<rparr>)"
      by (cases chain) (auto simp: protobuf_c_data_buffer_transfer_def m Let_def)
    moreover have "take n (contents src) = frags_bytes moved" "drop n (contents src) = frags_bytes chain"
      using True ml(2) c len by auto
    ultimately show ?thesis using d1 ok(2) len size by (auto simp: buffer_ok_def contents_def)
  next
    case False
    then obtain f fs where f: "chain = f # fs" "left < buf_length f" "left \<noteq> 0" using ml(3) by (cases chain) auto
    obtain dst2 where d2: "protobuf_c_data_buffer_append (take left (fragment_bytes f)) ?dst1 = Inr ((), dst2)" "buffer_ok dst2"
      "contents dst2 = contents ?dst1 @ take left (fragment_bytes f)"
      using append_ok [OF d1(1)] by blast
    have run: "protobuf_c_data_buffer_transfer dst src n = Inr (?rv + left, dst2,
        src\<lparr>buf_size := buf_size src - of_nat (?rv + left), buf_frags := cut_front left f # fs\<rparr>)"
      using f d2(1) by (simp add: protobuf_c_data_buffer_transfer_def m Let_def)
    have fk: "frag_ok f" and lf: "length (fragment_bytes f) = buf_length f" using ok(2) f(1) by simp_all
    have tk: "take n (contents src) = frags_bytes moved @ take left (fragment_bytes f)"
      "drop n (contents src) = drop left (fragment_bytes f) @ frags_bytes fs"
      using ml(2) f c len lf by simp_all
    have "buffer_ok (src\<lparr>buf_size := buf_size src - of_nat (?rv + left), buf_frags := cut_front left f # fs\<rparr>)"
      using cut_front_ok [OF fk, of left] f ok(2) size lf by (simp add: buffer_ok_def contents_def of_nat_diff)
    moreover have "contents (src\<lparr>buf_size := buf_size src - of_nat (?rv + left), buf_frags := cut_front left f # fs\<rparr>) = drop n (contents src)"
      using cut_front_ok [OF fk, of left] f tk by (simp add: contents_def)
    ultimately show ?thesis using run d2 d1(2) tk(1) len lf f by simp
  qed
qed

lemma reset_ok: "\<exists>b'. protobuf_c_data_buffer_reset b = Inr ((), b') \<and> buffer_ok b' \<and> contents b' = []"
  by (simp add: protobuf_c_data_buffer_reset_def modify_app buffer_ok_def contents_def)

text \<open>What is offered to the system is the beginning of the contents; what it takes is removed.\<close>

lemma finish_write_ok:
  assumes "buffer_ok b" and "rv \<le> int (length (contents b))" and "rv < 2 ^ 31"
  shows "\<exists>b'. finish_write (rv, ignorable) b = Inr (if rv < 0 \<and> ignorable then 0 else rv, b') \<and> buffer_ok b' \<and>
    contents b' = drop (nat rv) (contents b)"
proof (cases "rv \<le> 0")
  case True
  then show ?thesis using assms(1) by (auto simp: finish_write_def ret_app)
next
  case False
  have l: "length (take (nat rv) (contents b)) = nat rv" using assms(2) by (simp add: nat_le_iff)
  then have "length (take (nat rv) (contents b)) < 2 ^ 31" using assms(3) False by simp
  from discard_ok [OF assms(1) this] obtain b' where
    "protobuf_c_data_buffer_discard (nat rv) b = Inr (int (length (take (nat rv) (contents b))), b')" "buffer_ok b'"
    "contents b' = drop (nat rv) (contents b)" by blast
  then show ?thesis using False by (simp add: finish_write_def bnd_Inr ret_app)
qed

lemma pieces_of_prefix:
  "\<forall>f \<in> set fs. frag_ok f \<Longrightarrow> prefix (concat (pieces_of n (take k fs))) (take n (frags_bytes fs))"
proof (induction n fs arbitrary: k rule: pieces_of.induct)
  case (2 n f fs)
  show ?case
  proof (cases "n > 0 \<and> k > 0")
    case True
    then obtain k' where k: "k = Suc k'" by (cases k) auto
    have ok: "frag_ok f" "\<forall>f \<in> set fs. frag_ok f" using 2(2) by simp_all
    have "prefix (concat (pieces_of (n - min (buf_length f) n) (take k' fs))) (take (n - min (buf_length f) n) (frags_bytes fs))"
      using 2(1) True ok(2) by simp
    then show ?thesis using True k length_fragment_bytes [OF ok(1)]
      by (auto simp: min_def prefix_order.order_trans split: if_splits)
  next
    case False
    then show ?thesis by (cases k) auto
  qed
qed simp

lemma writev_offers_prefix:
  "prefix (concat (map fragment_bytes (take k fs))) (frags_bytes fs)"
  unfolding frags_bytes_def by (metis append_take_drop_id concat_append map_append prefixI)

lemma writev_ok:
  assumes "buffer_ok b" and "fst (writev iov) \<le> int (length (concat iov))" and "fst (writev iov) < 2 ^ 31"
    and "iov = map fragment_bytes (take MAX_FRAGMENTS_TO_WRITE (buf_frags b))"
  shows "\<exists>rv b'. protobuf_c_data_buffer_writev writev b = Inr (rv, b') \<and> buffer_ok b' \<and>
    contents b = take (nat rv) (concat iov) @ contents b'"
proof -
  obtain rv ignorable where w: "writev iov = (rv, ignorable)" by (cases "writev iov")
  have pre: "prefix (concat iov) (contents b)" unfolding assms(4) contents_def by (rule writev_offers_prefix)
  then have "rv \<le> int (length (contents b))" using assms(2) w prefix_length_le [OF pre] by simp
  from finish_write_ok [OF assms(1) this] assms(3) w obtain b' where
    b': "finish_write (rv, ignorable) b = Inr (if rv < 0 \<and> ignorable then 0 else rv, b')" "buffer_ok b'"
    "contents b' = drop (nat rv) (contents b)" by auto
  have "take (nat rv) (contents b) = take (nat rv) (concat iov)"
    using pre assms(2) w by (auto simp: prefix_def nat_le_iff)
  then have "contents b = take (nat rv) (concat iov) @ contents b'" using b'(3) by (metis append_take_drop_id)
  then show ?thesis using b' w assms(4) by (auto simp: protobuf_c_data_buffer_writev_def)
qed

section \<open>The interface\<close>

text \<open>
  What a user does with a buffer, and what it sees: the bytes each read returns. A user that only
  writes needs the first half of the interface.
\<close>

datatype queue_call = Put "byte list" | Get nat

fun run_calls :: "(byte list \<Rightarrow> ('b, unit) prog) \<Rightarrow> (nat \<Rightarrow> ('b, byte list) prog) \<Rightarrow> queue_call list \<Rightarrow> ('b, byte list list) prog" where
  "run_calls put get [] = ret []"
| "run_calls put get (Put data # calls) = bnd (put data) (\<lambda>_. run_calls put get calls)"
| "run_calls put get (Get n # calls) =
     bnd (get n) (\<lambda>data. bnd (run_calls put get calls) (\<lambda>reads. ret (data # reads)))"

fun put_bytes :: "queue_call list \<Rightarrow> byte list" where
  "put_bytes [] = []"
| "put_bytes (Put data # calls) = data @ put_bytes calls"
| "put_bytes (Get n # calls) = put_bytes calls"

locale byte_sink =
  fixes put :: "byte list \<Rightarrow> ('b, unit) prog"
    and held :: "'b \<Rightarrow> byte list"
    and sound :: "'b \<Rightarrow> bool"
  assumes put_ok: "sound b \<Longrightarrow> \<exists>b'. put data b = Inr ((), b') \<and> sound b' \<and> held b' = held b @ data"

locale byte_queue = byte_sink +
  fixes get :: "nat \<Rightarrow> ('a, byte list) prog"
  assumes get_ok: "sound b \<Longrightarrow> \<exists>b'. get n b = Inr (take n (held b), b') \<and> sound b' \<and> held b' = drop n (held b)"
begin

lemma fifo:
  assumes "sound b"
  shows "\<exists>reads b'. run_calls put get calls b = Inr (reads, b') \<and> sound b' \<and> concat reads @ held b' = held b @ put_bytes calls"
  using assms
proof (induction calls arbitrary: b)
  case Nil
  then show ?case by (simp add: ret_app)
next
  case (Cons c calls)
  show ?case
  proof (cases c)
    case (Put data)
    from put_ok [OF Cons.prems, of data] obtain b1 where b1: "put data b = Inr ((), b1)" "sound b1" "held b1 = held b @ data" by blast
    from Cons.IH [OF b1(2)] show ?thesis using b1 Put by (simp add: bnd_Inr)
  next
    case (Get n)
    from get_ok [OF Cons.prems, of n] obtain b1 where b1: "get n b = Inr (take n (held b), b1)" "sound b1" "held b1 = drop n (held b)" by blast
    from Cons.IH [OF b1(2)] obtain reads b2 where b2: "run_calls put get calls b1 = Inr (reads, b2)" "sound b2"
      "concat reads @ held b2 = held b1 @ put_bytes calls" by blast
    have "take n (held b) @ concat reads @ held b2 = held b @ put_bytes calls" using b2(3) b1(3) by simp
    then show ?thesis using b1(1) b2(1,2) Get by (simp add: bnd_Inr ret_app)
  qed
qed

end

interpretation frags: byte_queue protobuf_c_data_buffer_append contents buffer_ok protobuf_c_data_buffer_read
  by unfold_locales (rule append_ok read_ok; assumption)+

section \<open>The search is wrong after a read\<close>

text \<open>As long as nothing has been taken from a buffer, the search finds the first occurrence.\<close>

definition ascii :: "byte list \<Rightarrow> bool" where
  "ascii str \<longleftrightarrow> (\<forall>c \<in> set str. c < 0x80)"

lemma sint_uint_byte:
  fixes c :: byte
  shows "sint c = (if c < 0x80 then uint c else uint c - 256)"
proof -
  have "uint c < 256" using uint_bounded [of c] by simp
  moreover have "c < 0x80 \<longleftrightarrow> uint c < 0x80" by (simp add: word_less_def)
  moreover have "(uint c + 128) mod 256 = uint c - 128" if "128 \<le> uint c" "uint c < 256"
    using mod_add_self2 [of "uint c - 128" 256] that by (simp add: add.commute)
  ultimately show ?thesis by (auto simp: sint_uint signed_take_bit_eq_take_bit_shift take_bit_eq_mod not_less)
qed

lemma char_eq_ascii: "c < 0x80 \<Longrightarrow> char_eq c x \<longleftrightarrow> c = x"
  by (auto simp: char_eq_def sint_uint_byte intro: unsigned_word_eqI)

text \<open>A character beyond ASCII equals no byte.\<close>

lemma char_eq_high: "\<not> c < 0x80 \<Longrightarrow> \<not> char_eq c x"
proof
  assume "\<not> c < 0x80" and "char_eq c x"
  then have "uint c - 256 = uint x" by (simp add: char_eq_def sint_uint_byte)
  moreover have "uint c < 256" using uint_bounded [of c] by simp
  moreover have "0 \<le> uint x" by simp
  ultimately show False by linarith
qed

lemma char_eq_equal: "char_eq c x \<Longrightarrow> c = x"
  using char_eq_ascii char_eq_high by blast

lemma match_tail_prefix: "ascii str \<Longrightarrow> match_tail str at fs \<longleftrightarrow> prefix str (at @ frags_bytes fs)"
  by (induction str at fs rule: match_tail.induct) (auto simp: ascii_def char_eq_ascii)

lemma scan_frag_first:
  assumes "str \<noteq> []" and "ascii str"
  shows "scan_frag str at fs = Some i \<longleftrightarrow> i < length at \<and> prefix str (drop i (at @ frags_bytes fs)) \<and>
    (\<forall>j < i. \<not> prefix str (drop j (at @ frags_bytes fs)))"
proof (induction at arbitrary: i)
  case (Cons x at)
  obtain c cs where str: "str = c # cs" using assms(1) by (cases str) auto
  have tl: "c < 0x80" "ascii cs" using assms(2) by (simp_all add: str ascii_def)
  have hit: "char_eq (hd str) x \<and> match_tail (tl str) at fs \<longleftrightarrow> prefix str ((x # at) @ frags_bytes fs)"
    by (auto simp: str tl match_tail_prefix char_eq_ascii)
  show ?case
  proof (cases i)
    case 0
    then show ?thesis using hit by simp
  next
    case (Suc k)
    then show ?thesis using hit Cons.IH [of k] by (auto simp: All_less_Suc2)
  qed
qed simp

lemma str_loop_first:
  assumes "str \<noteq> []" and "\<forall>f \<in> set fs. frag_ok f \<and> buf_start f = 0" and "ascii str"
  shows "str_loop str fs = Some i \<longleftrightarrow> prefix str (drop i (frags_bytes fs)) \<and> (\<forall>j < i. \<not> prefix str (drop j (frags_bytes fs)))"
  using assms(2)
proof (induction fs arbitrary: i)
  case Nil
  then show ?case using assms(1) by simp
next
  case (Cons f fs)
  have m: "frag_memory f = fragment_bytes f" and l: "length (fragment_bytes f) = buf_length f" and ok: "\<forall>f \<in> set fs. frag_ok f \<and> buf_start f = 0"
    using Cons.prems by (auto simp: frag_memory_def fragment_bytes_def frag_ok_def)
  note here = scan_frag_first [OF assms(1,3), of "fragment_bytes f" fs]
  show ?case
  proof (cases "scan_frag str (fragment_bytes f) fs")
    case (Some k)
    with here [of k] have "k < buf_length f" "prefix str (drop k (fragment_bytes f @ frags_bytes fs))"
      "\<forall>j < k. \<not> prefix str (drop j (fragment_bytes f @ frags_bytes fs))" using l by (simp_all del: drop_append)
    then show ?thesis using Some m by (simp del: drop_append) (metis linorder_neqE_nat)
  next
    case None
    then have no: "\<not> prefix str (drop j (fragment_bytes f @ frags_bytes fs))" if "j < buf_length f" for j
      using that
    proof (induction j rule: less_induct)
      case (less j)
      then have "\<forall>k < j. \<not> prefix str (drop k (fragment_bytes f @ frags_bytes fs))" by auto
      then show ?case using here [of j] None less.prems l by auto
    qed
    have "str_loop str (f # fs) = Some i \<longleftrightarrow> buf_length f \<le> i \<and> str_loop str fs = Some (i - buf_length f)"
      using None m by (auto simp: le_add_diff_inverse)
    also have "\<dots> \<longleftrightarrow> buf_length f \<le> i \<and> prefix str (drop (i - buf_length f) (frags_bytes fs)) \<and>
      (\<forall>j < i - buf_length f. \<not> prefix str (drop j (frags_bytes fs)))"
      using Cons.IH [OF ok] by simp
    also have "\<dots> \<longleftrightarrow> prefix str (drop i (frags_bytes (f # fs))) \<and> (\<forall>j < i. \<not> prefix str (drop j (frags_bytes (f # fs))))"
    proof -
      have sh: "drop j (fragment_bytes f @ frags_bytes fs) = drop (j - buf_length f) (frags_bytes fs)" if "buf_length f \<le> j" for j
        using that l by simp
      have "(\<forall>j < i. \<not> prefix str (drop j (fragment_bytes f @ frags_bytes fs))) \<longleftrightarrow> (\<forall>j < i - buf_length f. \<not> prefix str (drop j (frags_bytes fs)))"
        if "buf_length f \<le> i"
      proof safe
        fix j assume "\<forall>j < i. \<not> prefix str (drop j (fragment_bytes f @ frags_bytes fs))" "j < i - buf_length f" "prefix str (drop j (frags_bytes fs))"
        then show False using sh [of "j + buf_length f"] that by (auto dest: spec [of _ "j + buf_length f"])
      next
        fix j assume "\<forall>j < i - buf_length f. \<not> prefix str (drop j (frags_bytes fs))" "j < i" "prefix str (drop j (fragment_bytes f @ frags_bytes fs))"
        then show False using sh [of j] no [of j] by (cases "buf_length f \<le> j") (auto dest: spec [of _ "j - buf_length f"])
      qed
      then show ?thesis using no [of i] sh [of i] by (cases "buf_length f \<le> i") auto
    qed
    finally show ?thesis .
  qed
qed

section \<open>Properties\<close>

text \<open>C25: A buffer is a queue of bytes: whatever is appended to a new buffer and read from it, in whatever order
  and sizes, no call fails, and what the reads return followed by what the buffer still holds is what was
  appended; the size it records and its fragments stay sound.\<close>

theorem fragment_buffer_fifo:
  "\<exists>reads b. run_calls protobuf_c_data_buffer_append protobuf_c_data_buffer_read calls protobuf_c_data_buffer_init = Inr (reads, b) \<and>
    buffer_ok b \<and> concat reads @ contents b = put_bytes calls"
  using frags.fifo [OF buffer_ok_init(1), of calls] by (simp add: buffer_ok_init(2))

text \<open>Moving at most \<open>n\<close> bytes from one buffer to another moves the first ones, in order, and returns how many;
  draining moves all; both buffers stay sound.\<close>

theorem transfer_moves_bytes:
  assumes "buffer_ok dst" and "buffer_ok src"
  shows "(\<exists>dst' src'. protobuf_c_data_buffer_transfer dst src n = Inr (length (take n (contents src)), dst', src') \<and>
      buffer_ok dst' \<and> buffer_ok src' \<and> contents dst' = contents dst @ take n (contents src) \<and> contents src' = drop n (contents src)) \<and>
    (\<exists>dst' src'. protobuf_c_data_buffer_drain dst src = (of_nat (length (contents src)), dst', src') \<and>
      buffer_ok dst' \<and> buffer_ok src' \<and> contents dst' = contents dst @ contents src \<and> contents src' = [])"
  using transfer_ok [OF assms] drain_ok [OF assms] by (metis prod_cases3)

theorem transfer_moves_bytes_witness:
  "\<exists>b dst src. protobuf_c_data_buffer_append [1, 2, 3] protobuf_c_data_buffer_init = Inr ((), b) \<and>
    protobuf_c_data_buffer_transfer b b 2 = Inr (2, dst, src) \<and> contents dst = [1, 2, 3, 1, 2] \<and> contents src = [3]"
proof -
  obtain b where b: "protobuf_c_data_buffer_append [1, 2, 3] protobuf_c_data_buffer_init = Inr ((), b)" "buffer_ok b" "contents b = [1, 2, 3]"
    using append_ok [OF buffer_ok_init(1), of "[1, 2, 3]"] by (auto simp: buffer_ok_init(2))
  from transfer_moves_bytes [OF b(2) b(2), of 2] b(1) show ?thesis by (auto simp: b(3))
qed

text \<open>The search for an ASCII string finds its first occurrence as long as no fragment has been read from in part.\<close>

lemma str_index_of_first:
  assumes "buffer_ok b" and "\<forall>f \<in> set (buf_frags b). buf_start f = 0" and "str \<noteq> []" and "ascii str" and "i < 2 ^ 31"
    and "prefix str (drop i (contents b))" and "\<forall>j < i. \<not> prefix str (drop j (contents b))"
  shows "protobuf_c_data_buffer_str_index_of str b = Inr (int i)"
  using assms str_loop_first [OF assms(3) _ assms(4), of "buf_frags b" i]
  by (simp add: protobuf_c_data_buffer_str_index_of_def buffer_ok_def contents_def int_of_size_small)

text \<open>A string that begins with a byte beyond ASCII is never found.\<close>

lemma str_index_of_high:
  assumes "str \<noteq> []" and "\<not> hd str < 0x80"
  shows "protobuf_c_data_buffer_str_index_of str b = Inr (- 1)"
proof -
  have "scan_frag str at fs = None" for at fs
    by (induction at) (simp_all add: char_eq_high assms)
  then have "str_loop str fs = None" for fs by (induction fs) simp_all
  then show ?thesis using assms(1) by (simp add: protobuf_c_data_buffer_str_index_of_def)
qed

lemma read_partly:
  fixes x y :: byte
  defines "b \<equiv> \<lparr>buf_size = 2, buf_frags = [\<lparr>buf_start = 0, buf_length = 2, buf_data = x # y # replicate 8174 0\<rparr>]\<rparr>"
  shows "protobuf_c_data_buffer_append [x, y] protobuf_c_data_buffer_init = Inr ((), b)"
    and "protobuf_c_data_buffer_read 1 b =
      Inr ([x], \<lparr>buf_size = 1, buf_frags = [\<lparr>buf_start = 1, buf_length = 1, buf_data = x # y # replicate 8174 0\<rparr>]\<rparr>)"
proof -
  have "append_loop [x, y] [] = Inr (buf_frags b)"
    by (simp add: b_def append_loop.simps with_room_def new_native_fragment_def protobuf_c_data_buffer_fragment_avail_def
      size_t_def fill_end_def overwrite_def drop_replicate)
  then show "protobuf_c_data_buffer_append [x, y] protobuf_c_data_buffer_init = Inr ((), b)"
    by (simp add: b_def protobuf_c_data_buffer_append_def protobuf_c_data_buffer_init_def)
  show "protobuf_c_data_buffer_read 1 b =
      Inr ([x], \<lparr>buf_size = 1, buf_frags = [\<lparr>buf_start = 1, buf_length = 1, buf_data = x # y # replicate 8174 0\<rparr>]\<rparr>)"
    by (simp add: b_def protobuf_c_data_buffer_read_def fragment_bytes_def cut_front_def)
qed

text \<open>After a read that leaves a fragment partly read, the search finds a byte that is gone and misses the one
  that is there.\<close>

theorem str_index_of_after_read:
  assumes "x \<noteq> y" and "x < 0x80"
  shows "\<exists>b1 b2. protobuf_c_data_buffer_append [x, y] protobuf_c_data_buffer_init = Inr ((), b1) \<and>
    protobuf_c_data_buffer_read 1 b1 = Inr ([x], b2) \<and> contents b2 = [y] \<and>
    protobuf_c_data_buffer_str_index_of [x] b2 = Inr 0 \<and> protobuf_c_data_buffer_str_index_of [y] b2 = Inr (- 1)"
  by (rule exI, rule exI, intro conjI, rule read_partly(1), rule read_partly(2))
    (use assms in \<open>simp_all add: contents_def fragment_bytes_def protobuf_c_data_buffer_str_index_of_def frag_memory_def int_of_size_def
      char_eq_ascii, auto dest: char_eq_equal\<close>)

theorem str_index_of_after_read_witness:
  "\<exists>b1 b2. protobuf_c_data_buffer_append [7, 9] protobuf_c_data_buffer_init = Inr ((), b1) \<and>
    protobuf_c_data_buffer_read 1 b1 = Inr ([7], b2) \<and> contents b2 = [9] \<and>
    protobuf_c_data_buffer_str_index_of [7] b2 = Inr 0 \<and> protobuf_c_data_buffer_str_index_of [9] b2 = Inr (- 1)"
  by (rule str_index_of_after_read) (simp_all add: word_less_def)

end
