(* ===== verification/PbBuffer.thy ===== *)
theory PbBuffer
  imports PbPacked DataBuf
begin

text \<open>
  Packing into a buffer object: the simple buffer of protobuf-c.c, which grows by doubling, and
  \<open>pack_to_buffer\<close>, which writes a message through the \<open>append\<close> function of any buffer. Nested
  messages are first packed into a simple buffer of their own. What a buffer has to
  promise is the interface \<open>byte_sink\<close>; simple buffers and fragment buffers implement it.
\<close>

section \<open>The simple buffer\<close>

record simple_buffer =
  sb_alloced :: nat
  sb_len :: nat
  sb_data :: "byte list"
  sb_must_free :: bool

text \<open>\<open>PROTOBUF_C_BUFFER_SIMPLE_INIT\<close> on an array; its bytes are taken to be 0.\<close>

definition simple_init :: "nat \<Rightarrow> simple_buffer" where
  "simple_init n = \<lparr>sb_alloced = n, sb_len = 0, sb_data = replicate n 0, sb_must_free = False\<rparr>"

text \<open>The loop that doubles the size; it does not end for a buffer that starts with no bytes.\<close>

partial_function (option) grow_loop :: "nat \<Rightarrow> nat \<Rightarrow> nat option" where
  "grow_loop new_alloced new_len =
     (if new_alloced < new_len then grow_loop (new_alloced + new_alloced) new_len else Some new_alloced)"

definition protobuf_c_buffer_simple_append :: "byte list \<Rightarrow> (simple_buffer, unit) prog" where
  "protobuf_c_buffer_simple_append data = (\<lambda>simp.
     let new_len = sb_len simp + length data;
         store = (\<lambda>b. if new_len > length (sb_data b) then Inl OutOfBounds
                   else Inr ((), b\<lparr>sb_data := overwrite (sb_data b) (sb_len b) data, sb_len := new_len\<rparr>))
     in if new_len > sb_alloced simp then
          (case grow_loop (sb_alloced simp * 2) new_len of
             None \<Rightarrow> Inl OutOfFuel
           | Some new_alloced \<Rightarrow>
               store (simp\<lparr>sb_must_free := True,
                 sb_data := overwrite (replicate new_alloced 0) 0 (take (sb_len simp) (sb_data simp)), sb_alloced := new_alloced\<rparr>))
        else store simp)"

section \<open>Packing a message into a buffer\<close>

text \<open>
  The calls return the number of bytes. \<open>mpack\<close> packs a nested message into a simple buffer, and
  \<open>append\<close> is the buffer's function.
\<close>

definition outcome :: "fault + 'a \<Rightarrow> ('b, 'a) prog" where
  "outcome r = (\<lambda>b. case r of Inl e \<Rightarrow> Inl e | Inr x \<Rightarrow> Inr (x, b))"

definition nested :: "(msg \<Rightarrow> (simple_buffer, nat) prog) \<Rightarrow> msg option \<Rightarrow> fault + nat \<times> byte list" where
  "nested mpack msg =
     (let simple_buffer = simple_init 256 in
      case msg of
        None \<Rightarrow> Inr (0, sb_data simple_buffer)
      | Some m \<Rightarrow>
          (case mpack m simple_buffer of
             Inl e \<Rightarrow> Inl e
           | Inr (sublen, b) \<Rightarrow> Inr (sublen, sb_data b)))"

text \<open>A header, which ends with the length, and the bytes it announces.\<close>

definition append_prefixed ::
  "(byte list \<Rightarrow> ('b, unit) prog) \<Rightarrow> byte list \<Rightarrow> nat \<Rightarrow> byte list \<Rightarrow> ('b, nat) prog" where
  "append_prefixed sink tag sublen data =
     (let scratch = tag @ uint32_pack (of_nat sublen) in
      bnd (sink scratch) (\<lambda>_.
      bnd (sink (take sublen data)) (\<lambda>_.
      ret (length scratch + sublen))))"

definition required_field_pack_to_buffer ::
  "(msg \<Rightarrow> (simple_buffer, nat) prog) \<Rightarrow> (byte list \<Rightarrow> ('b, unit) prog) \<Rightarrow> field \<Rightarrow> mval \<Rightarrow> ('b, nat) prog" where
  "required_field_pack_to_buffer mpack sink field member =
     (let tag = tagged (wire_type_of (fd_type field)) (tag_pack (fd_id field)) in
      case fd_type field of
        T_STRING \<Rightarrow>
          let str = (case vstr member of None \<Rightarrow> [] | Some s \<Rightarrow> cstr s) in append_prefixed sink tag (length str) str
      | T_BYTES \<Rightarrow> append_prefixed sink tag (length (vbytes member)) (vbytes member)
      | T_MESSAGE d \<Rightarrow>
          bnd (outcome (nested mpack (vmsg member))) (\<lambda>(sublen, data). append_prefixed sink tag sublen data)
      | type \<Rightarrow>
          let scratch = tag @ value_pack no_message type member in
          bnd (sink scratch) (\<lambda>_. ret (length scratch)))"

definition optional_field_pack_to_buffer ::
  "(msg \<Rightarrow> (simple_buffer, nat) prog) \<Rightarrow> (byte list \<Rightarrow> ('b, unit) prog) \<Rightarrow> field \<Rightarrow> slot \<Rightarrow> ('b, nat) prog" where
  "optional_field_pack_to_buffer mpack sink field s =
     (if pointer_type (fd_type field) then
        if is_null (slot_val s) then ret 0 else required_field_pack_to_buffer mpack sink field (slot_val s)
      else if \<not> slot_has s then ret 0
      else required_field_pack_to_buffer mpack sink field (slot_val s))"

text \<open>A loop that adds up what its rounds return.\<close>

fun sum_loop :: "('x \<Rightarrow> ('b, nat) prog) \<Rightarrow> 'x list \<Rightarrow> ('b, nat) prog" where
  "sum_loop body [] = ret 0"
| "sum_loop body (x # xs) = bnd (body x) (\<lambda>n. bnd (sum_loop body xs) (\<lambda>k. ret (n + k)))"

lemma sum_loop_cong [fundef_cong]:
  "xs = ys \<Longrightarrow> (\<And>x. x \<in> set ys \<Longrightarrow> f x = g x) \<Longrightarrow> sum_loop f xs = sum_loop g ys"
  by (induction ys arbitrary: xs) auto

definition repeated_field_pack_to_buffer ::
  "(msg \<Rightarrow> (simple_buffer, nat) prog) \<Rightarrow> (byte list \<Rightarrow> ('b, unit) prog) \<Rightarrow> field \<Rightarrow> mval list \<Rightarrow> ('b, nat) prog" where
  "repeated_field_pack_to_buffer mpack sink field array =
     (if length array = 0 then ret 0
      else sum_loop (required_field_pack_to_buffer mpack sink field) array)"

text \<open>The packed branch: the header with the computed length, and the block element by element.\<close>

definition pack_buffer_packed_payload ::
  "(byte list \<Rightarrow> ('b, unit) prog) \<Rightarrow> field \<Rightarrow> mval list \<Rightarrow> ('b, nat) prog" where
  "pack_buffer_packed_payload sink field array =
     (if \<not> packable (fd_type field) then fail Assertion
      else if get_type_min_size (fd_type field) > 1 then
        (let bytes = concat (map (value_pack no_message (fd_type field)) array) in
         bnd (sink bytes) (\<lambda>_. ret (length bytes)))
      else sum_loop (\<lambda>v. let scratch = value_pack no_message (fd_type field) v in
             bnd (sink scratch) (\<lambda>_. ret (length scratch))) array)"

definition packed_array_pack_to_buffer ::
  "(byte list \<Rightarrow> ('b, unit) prog) \<Rightarrow> field \<Rightarrow> mval list \<Rightarrow> ('b, nat) prog" where
  "packed_array_pack_to_buffer sink field array =
     (if length array = 0 then ret 0
      else
        bnd (outcome (get_packed_payload_length (fd_type field) array)) (\<lambda>payload_len.
        let scratch = tagged WIRE_TYPE_LENGTH_PREFIXED (tag_pack (fd_id field)) @ uint32_pack (of_nat payload_len) in
        bnd (sink scratch) (\<lambda>_.
        bnd (pack_buffer_packed_payload sink field array) (\<lambda>tmp.
        if tmp = payload_len then ret (length scratch + payload_len) else fail Assertion))))"

fun unknown_field_pack_to_buffer :: "(byte list \<Rightarrow> ('b, unit) prog) \<Rightarrow> unknown \<Rightarrow> ('b, nat) prog" where
  "unknown_field_pack_to_buffer sink (Unknown tag wire_type data) =
     (let header = tagged wire_type (tag_pack tag) in
      bnd (sink header) (\<lambda>_. bnd (sink data) (\<lambda>_. ret (length header + length data))))"

definition field_pack_to_buffer ::
  "(msg \<Rightarrow> (simple_buffer, nat) prog) \<Rightarrow> (byte list \<Rightarrow> ('b, unit) prog) \<Rightarrow> field \<Rightarrow> slot \<Rightarrow> ('b, nat) prog" where
  "field_pack_to_buffer mpack sink field s =
     (case fd_label field of
        REQUIRED \<Rightarrow> required_field_pack_to_buffer mpack sink field (slot_val s)
      | OPTIONAL \<Rightarrow> optional_field_pack_to_buffer mpack sink field s
      | REPEATED \<Rightarrow> repeated_field_pack_to_buffer mpack sink field (slot_vals s))"

definition fields_pack_to_buffer ::
  "(msg \<Rightarrow> (simple_buffer, nat) prog) \<Rightarrow> (byte list \<Rightarrow> ('b, unit) prog) \<Rightarrow> field list \<Rightarrow> slot list \<Rightarrow> unknown list \<Rightarrow> ('b, nat) prog" where
  "fields_pack_to_buffer mpack sink fds ss us =
     bnd (sum_loop (\<lambda>(f, s). field_pack_to_buffer mpack sink f s) (zip fds ss)) (\<lambda>n.
     bnd (sum_loop (unknown_field_pack_to_buffer sink) us) (\<lambda>k.
     ret (n + k)))"

lemma required_to_buffer_cong:
  assumes "\<And>m. m \<in> vsubs v \<Longrightarrow> f m = g m"
  shows "required_field_pack_to_buffer f sink t v = required_field_pack_to_buffer g sink t v"
proof -
  have same: "nested f (vmsg v) = nested g (vmsg v)"
    using assms by (cases "vmsg v") (simp_all add: nested_def vsubs_def)
  show ?thesis unfolding required_field_pack_to_buffer_def same ..
qed

lemma fields_to_buffer_cong [fundef_cong]:
  assumes "fs = fs'" and "ss = ss'" and "us = us'" and "sink = sink'" and "\<And>m. m \<in> submsgs ss' \<Longrightarrow> f m = g m"
  shows "fields_pack_to_buffer f sink fs ss us = fields_pack_to_buffer g sink' fs' ss' us'"
proof -
  have "field_pack_to_buffer f sink' a s = field_pack_to_buffer g sink' a s" if "(a, s) \<in> set (zip fs' ss')" for a s
  proof -
    have sub: "ssubs s \<subseteq> submsgs ss'" using that by (auto simp: submsgs_def dest: set_zip_rightD)
    have r: "required_field_pack_to_buffer f sink' a v = required_field_pack_to_buffer g sink' a v" if "vsubs v \<subseteq> ssubs s" for v
      using that sub assms(5) by (intro required_to_buffer_cong) blast
    have "sum_loop (required_field_pack_to_buffer f sink' a) (slot_vals s) = sum_loop (required_field_pack_to_buffer g sink' a) (slot_vals s)"
      by (rule sum_loop_cong [OF refl r]) (auto simp: ssubs_def)
    moreover have "vsubs (slot_val s) \<subseteq> ssubs s" by (simp add: ssubs_def)
    ultimately show ?thesis
      using r by (simp add: field_pack_to_buffer_def optional_field_pack_to_buffer_def repeated_field_pack_to_buffer_def
        split: label.split)
  qed
  then have "sum_loop (\<lambda>(a, s). field_pack_to_buffer f sink' a s) (zip fs' ss') = sum_loop (\<lambda>(a, s). field_pack_to_buffer g sink' a s) (zip fs' ss')"
    by (intro sum_loop_cong) auto
  then show ?thesis using assms(1-4) by (simp add: fields_pack_to_buffer_def)
qed

text \<open>Into a simple buffer, which is how nested messages are packed, and into any buffer.\<close>

function pack_to_simple :: "msg \<Rightarrow> (simple_buffer, nat) prog" where
  "pack_to_simple (Msg d ss us) =
     fields_pack_to_buffer pack_to_simple protobuf_c_buffer_simple_append (d_fields d) ss us"
  by pat_completeness auto
termination
  by (relation "measure size") (auto dest: submsgs_size)

definition protobuf_c_message_pack_to_buffer :: "(byte list \<Rightarrow> ('b, unit) prog) \<Rightarrow> msg \<Rightarrow> ('b, nat) prog" where
  "protobuf_c_message_pack_to_buffer sink message =
     fields_pack_to_buffer pack_to_simple sink (d_fields (m_desc message)) (m_slots message) (m_unknown message)"

section \<open>The simple buffer keeps what is appended\<close>

lemma grow_loop_enough: "0 < a \<Longrightarrow> \<exists>m. grow_loop a n = Some m \<and> n \<le> m"
proof (induction "n - a" arbitrary: a rule: less_induct)
  case less
  show ?case
  proof (cases "a < n")
    case True
    then have "\<exists>m. grow_loop (a + a) n = Some m \<and> n \<le> m" using less by (intro less.hyps) auto
    then show ?thesis using True by (subst grow_loop.simps) simp
  next
    case False
    then show ?thesis by (subst grow_loop.simps) simp
  qed
qed

definition simple_ok :: "simple_buffer \<Rightarrow> bool" where
  "simple_ok b \<longleftrightarrow> 0 < sb_alloced b \<and> length (sb_data b) = sb_alloced b \<and> sb_len b \<le> sb_alloced b"

definition simple_bytes :: "simple_buffer \<Rightarrow> byte list" where
  "simple_bytes b = take (sb_len b) (sb_data b)"

lemma simple_init_ok: "0 < n \<Longrightarrow> simple_ok (simple_init n)" "simple_bytes (simple_init n) = []"
  by (simp_all add: simple_ok_def simple_bytes_def simple_init_def)

lemma simple_append_ok:
  assumes "simple_ok b"
  shows "\<exists>b'. protobuf_c_buffer_simple_append data b = Inr ((), b') \<and> simple_ok b' \<and> simple_bytes b' = simple_bytes b @ data"
proof (cases "sb_len b + length data > sb_alloced b")
  case True
  obtain m where m: "grow_loop (sb_alloced b * 2) (sb_len b + length data) = Some m" "sb_len b + length data \<le> m"
    using grow_loop_enough [of "sb_alloced b * 2"] assms by (auto simp: simple_ok_def)
  then show ?thesis using True assms
    by (auto simp: protobuf_c_buffer_simple_append_def Let_def simple_ok_def simple_bytes_def overwrite_def)
next
  case False
  then show ?thesis using assms
    by (auto simp: protobuf_c_buffer_simple_append_def Let_def simple_ok_def simple_bytes_def overwrite_def)
qed

interpretation simple: byte_sink protobuf_c_buffer_simple_append simple_bytes simple_ok
  by unfold_locales (rule simple_append_ok)

section \<open>Packing into any buffer\<close>

text \<open>A call that adds some bytes to a buffer and returns their number.\<close>

definition adds :: "('b \<Rightarrow> byte list) \<Rightarrow> ('b \<Rightarrow> bool) \<Rightarrow> ('b, nat) prog \<Rightarrow> byte list \<Rightarrow> bool" where
  "adds held sound m bs \<longleftrightarrow> (\<forall>b. sound b \<longrightarrow> (\<exists>b'. m b = Inr (length bs, b') \<and> sound b' \<and> held b' = held b @ bs))"

context byte_sink
begin

lemma adds_ret: "adds held sound (ret 0) []"
  by (simp add: adds_def ret_app)

lemma adds_put: "adds held sound (bnd (put bs) (\<lambda>_. ret (length bs))) bs"
proof -
  have "\<exists>b'. bnd (put bs) (\<lambda>_. ret (length bs)) b = Inr (length bs, b') \<and> sound b' \<and> held b' = held b @ bs" if "sound b" for b
    using put_ok [OF that, of bs] by (auto simp: bnd_Inr ret_app)
  then show ?thesis by (simp add: adds_def)
qed

lemma adds_put_put: "adds held sound (bnd (put xs) (\<lambda>_. bnd (put ys) (\<lambda>_. ret (length xs + length ys)))) (xs @ ys)"
proof -
  have "\<exists>b'. bnd (put xs) (\<lambda>_. bnd (put ys) (\<lambda>_. ret (length xs + length ys))) b = Inr (length (xs @ ys), b') \<and> sound b' \<and> held b' = held b @ xs @ ys"
    if s: "sound b" for b
  proof -
    obtain b1 where b1: "put xs b = Inr ((), b1)" "sound b1" "held b1 = held b @ xs" using put_ok [OF s] by blast
    obtain b2 where "put ys b1 = Inr ((), b2)" "sound b2" "held b2 = held b1 @ ys" using put_ok [OF b1(2)] by blast
    then show ?thesis using b1 by (simp add: bnd_Inr ret_app)
  qed
  then show ?thesis by (simp add: adds_def)
qed

lemma adds_sum:
  assumes "adds held sound m xs" and "adds held sound k ys"
  shows "adds held sound (bnd m (\<lambda>i. bnd k (\<lambda>j. ret (i + j)))) (xs @ ys)"
proof -
  have "\<exists>b'. bnd m (\<lambda>i. bnd k (\<lambda>j. ret (i + j))) b = Inr (length (xs @ ys), b') \<and> sound b' \<and> held b' = held b @ xs @ ys"
    if s: "sound b" for b
  proof -
    obtain b1 where b1: "m b = Inr (length xs, b1)" "sound b1" "held b1 = held b @ xs" using assms(1) s by (auto simp: adds_def)
    obtain b2 where "k b1 = Inr (length ys, b2)" "sound b2" "held b2 = held b1 @ ys" using assms(2) b1(2) by (auto simp: adds_def)
    then show ?thesis using b1 by (simp add: bnd_Inr ret_app)
  qed
  then show ?thesis by (simp add: adds_def)
qed

lemma adds_sum_loop:
  "(\<And>x. x \<in> set xs \<Longrightarrow> adds held sound (body x) (f x)) \<Longrightarrow> adds held sound (sum_loop body xs) (concat (map f xs))"
  by (induction xs) (simp_all add: adds_ret adds_sum)

lemma adds_prefixed:
  assumes "take n data = bs" and "length bs = n"
  shows "adds held sound (append_prefixed put tag n data) (tag @ uint32_pack (of_nat n) @ bs)"
  using adds_put_put [of "tag @ uint32_pack (of_nat n)" bs] assms
  by (simp add: append_prefixed_def Let_def)

end

text \<open>What packing a nested message comes to.\<close>

definition nests :: "(msg \<Rightarrow> (simple_buffer, nat) prog) \<Rightarrow> (msg \<Rightarrow> byte list) \<Rightarrow> msg \<Rightarrow> bool" where
  "nests mpack pack m \<longleftrightarrow>
     (\<exists>b. mpack m (simple_init 256) = Inr (length (pack m), b) \<and> take (length (pack m)) (sb_data b) = pack m)"

lemma adds_nests:
  assumes "adds simple_bytes simple_ok (mpack m) (pack m)"
  shows "nests mpack pack m"
proof -
  have "simple_ok (simple_init 256)" by (rule simple_init_ok) simp
  then obtain b where b: "mpack m (simple_init 256) = Inr (length (pack m), b)" "simple_ok b" "simple_bytes b = pack m"
    using assms simple_init_ok(2) [of 256] unfolding adds_def by fastforce
  moreover have "length (simple_bytes b) = sb_len b" using b(2) by (simp add: simple_ok_def simple_bytes_def)
  ultimately have "sb_len b = length (pack m)" by simp
  with b show ?thesis by (auto simp: nests_def simple_bytes_def)
qed

lemma uint32_pack_0: "uint32_pack 0 = [0]"
  by (simp add: uint32_pack_def)

context byte_sink
begin

lemma adds_outcome: "adds held sound (f x) bs \<Longrightarrow> adds held sound (bnd (outcome (Inr x)) f) bs"
  by (simp add: outcome_def bnd_def)

lemma adds_required:
  assumes "\<And>m. m \<in> vsubs v \<Longrightarrow> nests mpack pack m"
  shows "adds held sound (required_field_pack_to_buffer mpack put f v) (required_field_pack pack f v)"
proof -
  let ?tag = "tagged (wire_type_of (fd_type f)) (tag_pack (fd_id f))"
  have scalar: ?thesis
    if "required_field_pack_to_buffer mpack put f v =
          (let scratch = ?tag @ value_pack no_message (fd_type f) v in bnd (put scratch) (\<lambda>_. ret (length scratch)))"
      and "value_pack no_message (fd_type f) v = value_pack pack (fd_type f) v"
    unfolding that(1) Let_def required_field_pack_def that(2) by (rule adds_put)
  show ?thesis
  proof (cases "fd_type f")
    case T_STRING
    then show ?thesis
      using adds_prefixed [of "length (cstr s)" "cstr s" "cstr s" ?tag for s] adds_prefixed [of 0 "[]" "[]" ?tag]
      by (cases "vstr v") (simp_all add: required_field_pack_to_buffer_def required_field_pack_def value_pack_def
          string_pack_def uint32_pack_0 Let_def)
  next
    case T_BYTES
    then show ?thesis
      using adds_prefixed [of "length (vbytes v)" "vbytes v" "vbytes v" ?tag]
      by (simp add: required_field_pack_to_buffer_def required_field_pack_def value_pack_def binary_data_pack_def)
  next
    case (T_MESSAGE d)
    show ?thesis
    proof (cases "vmsg v")
      case None
      have "adds held sound (append_prefixed put ?tag 0 (sb_data (simple_init 256))) (?tag @ uint32_pack (of_nat 0) @ [])"
        by (rule adds_prefixed) simp_all
      then show ?thesis using T_MESSAGE None
        by (simp add: required_field_pack_to_buffer_def required_field_pack_def value_pack_def prefixed_None
            nested_def outcome_def bnd_def uint32_pack_0)
    next
      case (Some m)
      then obtain b where b: "mpack m (simple_init 256) = Inr (length (pack m), b)" "take (length (pack m)) (sb_data b) = pack m"
        using assms [of m] by (auto simp: nests_def vsubs_def)
      have "adds held sound (append_prefixed put ?tag (length (pack m)) (sb_data b)) (?tag @ uint32_pack (of_nat (length (pack m))) @ pack m)"
        using b(2) by (rule adds_prefixed) simp
      then show ?thesis using T_MESSAGE Some b(1)
        by (simp add: required_field_pack_to_buffer_def required_field_pack_def value_pack_def prefixed_message_pack_Some
            nested_def outcome_def bnd_def)
    qed
  qed (rule scalar; simp add: required_field_pack_to_buffer_def value_pack_def Let_def)+
qed

lemma adds_field:
  assumes "\<And>m. m \<in> ssubs s \<Longrightarrow> nests mpack pack m"
  shows "adds held sound (field_pack_to_buffer mpack put f s) (field_pack pack f s)"
proof -
  have v: "adds held sound (required_field_pack_to_buffer mpack put f v) (required_field_pack pack f v)" if "vsubs v \<subseteq> ssubs s" for v
    using that assms by (intro adds_required) blast
  have one: "vsubs (slot_val s) \<subseteq> ssubs s" and many: "w \<in> set (slot_vals s) \<Longrightarrow> vsubs w \<subseteq> ssubs s" for w
    by (auto simp: ssubs_def)
  have "adds held sound (repeated_field_pack_to_buffer mpack put f (slot_vals s)) (repeated_field_pack pack f (slot_vals s))"
    using adds_sum_loop [of "slot_vals s", OF v [OF many]]
    by (auto simp: repeated_field_pack_to_buffer_def repeated_field_pack_def adds_ret)
  then show ?thesis using v [OF one]
    by (auto simp: field_pack_to_buffer_def field_pack_def optional_field_pack_to_buffer_def optional_field_pack_def adds_ret
        split: label.split)
qed

lemma adds_unknown: "adds held sound (unknown_field_pack_to_buffer put u) (unknown_field_pack u)"
  by (cases u) (simp add: adds_put_put Let_def)

lemma adds_fields:
  assumes "\<And>m. m \<in> submsgs ss \<Longrightarrow> nests mpack pack m"
  shows "adds held sound (fields_pack_to_buffer mpack put fs ss us) (fields_pack pack fs ss @ concat (map unknown_field_pack us))"
proof -
  have "adds held sound (case fs_s of (f, s) \<Rightarrow> field_pack_to_buffer mpack put f s) (case fs_s of (f, s) \<Rightarrow> field_pack pack f s)"
    if z: "fs_s \<in> set (zip fs ss)" for fs_s
  proof -
    obtain f s where fs: "fs_s = (f, s)" by (cases fs_s)
    then have "ssubs s \<subseteq> submsgs ss" using z by (auto simp: submsgs_def dest: set_zip_rightD)
    then show ?thesis using assms adds_field [of s mpack pack f] fs by auto
  qed
  then show ?thesis
    unfolding fields_pack_to_buffer_def fields_pack_def
    by (intro adds_sum adds_sum_loop adds_unknown)
qed

end

lemma pack_to_simple_adds: "adds simple_bytes simple_ok (pack_to_simple m) (protobuf_c_message_pack m)"
proof (induction m rule: msg_induct)
  case (1 d ss us)
  then have "nests pack_to_simple protobuf_c_message_pack m" if "m \<in> submsgs ss" for m
    using that by (intro adds_nests)
  then show ?case by (simp add: simple.adds_fields)
qed

context byte_sink
begin

lemma adds_message:
  "adds held sound (protobuf_c_message_pack_to_buffer put m) (protobuf_c_message_pack m)"
proof -
  have "nests pack_to_simple protobuf_c_message_pack k" for k by (rule adds_nests) (rule pack_to_simple_adds)
  then show ?thesis by (cases m) (simp add: protobuf_c_message_pack_to_buffer_def adds_fields)
qed

lemma packs_into:
  assumes "sound b"
  shows "\<exists>b'. protobuf_c_message_pack_to_buffer put m b = Inr (length (protobuf_c_message_pack m), b') \<and> sound b' \<and>
    held b' = held b @ protobuf_c_message_pack m"
  using adds_message [of m] assms by (simp add: adds_def)

lemma packs_array:
  assumes "packed_array_pack f array = Inr bs" and "length (concat (map (value_pack no_message (fd_type f)) array)) < 2 ^ 32"
    and "sound b"
  shows "\<exists>b'. packed_array_pack_to_buffer put f array b = Inr (length bs, b') \<and> sound b' \<and> held b' = held b @ bs"
proof (cases "array = []")
  case True
  then show ?thesis using assms(1,3) by (auto simp: packed_array_pack_to_buffer_def packed_array_pack_def ret_app)
next
  case False
  let ?p = "concat (map (value_pack no_message (fd_type f)) array)"
  let ?h = "tagged WIRE_TYPE_LENGTH_PREFIXED (tag_pack (fd_id f)) @ uint32_pack (of_nat (length ?p))"
  have pk: "packable (fd_type f)" using assms(1) False by (simp add: packed_array_pack_def split: if_splits)
  have bs: "bs = ?h @ ?p" using packed_array_pack_eq [OF pk False assms(2)] assms(1) by simp
  obtain b1 where b1: "put ?h b = Inr ((), b1)" "sound b1" "held b1 = held b @ ?h" using put_ok [OF assms(3)] by blast
  have "adds held sound (pack_buffer_packed_payload put f array) ?p"
    unfolding pack_buffer_packed_payload_def Let_def using pk adds_put adds_sum_loop [of array, OF adds_put] by simp
  then obtain b2 where b2: "pack_buffer_packed_payload put f array b1 = Inr (length ?p, b2)" "sound b2" "held b2 = held b1 @ ?p"
    using b1(2) unfolding adds_def by blast
  have "packed_array_pack_to_buffer put f array b = Inr (length ?h + length ?p, b2)"
    using False b1(1) b2(1) payload_length [OF pk, of array no_message]
    by (simp add: packed_array_pack_to_buffer_def outcome_def bnd_def Let_def ret_app del: length_concat)
  then show ?thesis using b1(3) b2(2,3) bs by (simp del: length_concat)
qed

end

section \<open>Properties\<close>



end
