(* ===== verification/PbStream.thy ===== *)
theory PbStream
  imports PbMumble PbBuffer
begin

text \<open>
  The generated functions of src/src/Mumble.pb-c.c that pack a message into a buffer object, and what
  they amount to: any buffer that keeps what is appended receives the bytes that packing into memory
  writes. So a message can be packed into a fragment buffer, read from it and unpacked.
\<close>

section \<open>The generated functions\<close>

definition mumble_proto__version__pack_to_buffer :: "(byte list \<Rightarrow> ('b, unit) prog) \<Rightarrow> mp_Version \<Rightarrow> ('b, nat) prog" where
  "mumble_proto__version__pack_to_buffer buffer message =
     protobuf_c_message_pack_to_buffer buffer (Version_msg message)"

definition mumble_proto__udptunnel__pack_to_buffer :: "(byte list \<Rightarrow> ('b, unit) prog) \<Rightarrow> mp_UDPTunnel \<Rightarrow> ('b, nat) prog" where
  "mumble_proto__udptunnel__pack_to_buffer buffer message =
     protobuf_c_message_pack_to_buffer buffer (UDPTunnel_msg message)"

definition mumble_proto__authenticate__pack_to_buffer :: "(byte list \<Rightarrow> ('b, unit) prog) \<Rightarrow> mp_Authenticate \<Rightarrow> ('b, nat) prog" where
  "mumble_proto__authenticate__pack_to_buffer buffer message =
     protobuf_c_message_pack_to_buffer buffer (Authenticate_msg message)"

definition mumble_proto__ping__pack_to_buffer :: "(byte list \<Rightarrow> ('b, unit) prog) \<Rightarrow> mp_Ping \<Rightarrow> ('b, nat) prog" where
  "mumble_proto__ping__pack_to_buffer buffer message =
     protobuf_c_message_pack_to_buffer buffer (Ping_msg message)"

definition mumble_proto__reject__pack_to_buffer :: "(byte list \<Rightarrow> ('b, unit) prog) \<Rightarrow> mp_Reject \<Rightarrow> ('b, nat) prog" where
  "mumble_proto__reject__pack_to_buffer buffer message =
     protobuf_c_message_pack_to_buffer buffer (Reject_msg message)"

definition mumble_proto__server_config__pack_to_buffer :: "(byte list \<Rightarrow> ('b, unit) prog) \<Rightarrow> mp_ServerConfig \<Rightarrow> ('b, nat) prog" where
  "mumble_proto__server_config__pack_to_buffer buffer message =
     protobuf_c_message_pack_to_buffer buffer (ServerConfig_msg message)"

definition mumble_proto__server_sync__pack_to_buffer :: "(byte list \<Rightarrow> ('b, unit) prog) \<Rightarrow> mp_ServerSync \<Rightarrow> ('b, nat) prog" where
  "mumble_proto__server_sync__pack_to_buffer buffer message =
     protobuf_c_message_pack_to_buffer buffer (ServerSync_msg message)"

definition mumble_proto__channel_remove__pack_to_buffer :: "(byte list \<Rightarrow> ('b, unit) prog) \<Rightarrow> mp_ChannelRemove \<Rightarrow> ('b, nat) prog" where
  "mumble_proto__channel_remove__pack_to_buffer buffer message =
     protobuf_c_message_pack_to_buffer buffer (ChannelRemove_msg message)"

definition mumble_proto__channel_state__pack_to_buffer :: "(byte list \<Rightarrow> ('b, unit) prog) \<Rightarrow> mp_ChannelState \<Rightarrow> ('b, nat) prog" where
  "mumble_proto__channel_state__pack_to_buffer buffer message =
     protobuf_c_message_pack_to_buffer buffer (ChannelState_msg message)"

definition mumble_proto__user_remove__pack_to_buffer :: "(byte list \<Rightarrow> ('b, unit) prog) \<Rightarrow> mp_UserRemove \<Rightarrow> ('b, nat) prog" where
  "mumble_proto__user_remove__pack_to_buffer buffer message =
     protobuf_c_message_pack_to_buffer buffer (UserRemove_msg message)"

definition mumble_proto__user_state__pack_to_buffer :: "(byte list \<Rightarrow> ('b, unit) prog) \<Rightarrow> mp_UserState \<Rightarrow> ('b, nat) prog" where
  "mumble_proto__user_state__pack_to_buffer buffer message =
     protobuf_c_message_pack_to_buffer buffer (UserState_msg message)"

definition mumble_proto__text_message__pack_to_buffer :: "(byte list \<Rightarrow> ('b, unit) prog) \<Rightarrow> mp_TextMessage \<Rightarrow> ('b, nat) prog" where
  "mumble_proto__text_message__pack_to_buffer buffer message =
     protobuf_c_message_pack_to_buffer buffer (TextMessage_msg message)"

definition mumble_proto__permission_denied__pack_to_buffer :: "(byte list \<Rightarrow> ('b, unit) prog) \<Rightarrow> mp_PermissionDenied \<Rightarrow> ('b, nat) prog" where
  "mumble_proto__permission_denied__pack_to_buffer buffer message =
     protobuf_c_message_pack_to_buffer buffer (PermissionDenied_msg message)"

definition mumble_proto__crypt_setup__pack_to_buffer :: "(byte list \<Rightarrow> ('b, unit) prog) \<Rightarrow> mp_CryptSetup \<Rightarrow> ('b, nat) prog" where
  "mumble_proto__crypt_setup__pack_to_buffer buffer message =
     protobuf_c_message_pack_to_buffer buffer (CryptSetup_msg message)"

definition mumble_proto__user_list__pack_to_buffer :: "(byte list \<Rightarrow> ('b, unit) prog) \<Rightarrow> mp_UserList \<Rightarrow> ('b, nat) prog" where
  "mumble_proto__user_list__pack_to_buffer buffer message =
     protobuf_c_message_pack_to_buffer buffer (UserList_msg message)"

definition mumble_proto__voice_target__pack_to_buffer :: "(byte list \<Rightarrow> ('b, unit) prog) \<Rightarrow> mp_VoiceTarget \<Rightarrow> ('b, nat) prog" where
  "mumble_proto__voice_target__pack_to_buffer buffer message =
     protobuf_c_message_pack_to_buffer buffer (VoiceTarget_msg message)"

definition mumble_proto__permission_query__pack_to_buffer :: "(byte list \<Rightarrow> ('b, unit) prog) \<Rightarrow> mp_PermissionQuery \<Rightarrow> ('b, nat) prog" where
  "mumble_proto__permission_query__pack_to_buffer buffer message =
     protobuf_c_message_pack_to_buffer buffer (PermissionQuery_msg message)"

definition mumble_proto__codec_version__pack_to_buffer :: "(byte list \<Rightarrow> ('b, unit) prog) \<Rightarrow> mp_CodecVersion \<Rightarrow> ('b, nat) prog" where
  "mumble_proto__codec_version__pack_to_buffer buffer message =
     protobuf_c_message_pack_to_buffer buffer (CodecVersion_msg message)"

definition mumble_proto__user_stats__pack_to_buffer :: "(byte list \<Rightarrow> ('b, unit) prog) \<Rightarrow> mp_UserStats \<Rightarrow> ('b, nat) prog" where
  "mumble_proto__user_stats__pack_to_buffer buffer message =
     protobuf_c_message_pack_to_buffer buffer (UserStats_msg message)"

text \<open>The function for each type of payload; a type without a structure packs to nothing.\<close>

fun payload_pack_to_buffer :: "(byte list \<Rightarrow> ('b, unit) prog) \<Rightarrow> payload \<Rightarrow> ('b, nat) prog" where
  "payload_pack_to_buffer buffer (P_Version p) = mumble_proto__version__pack_to_buffer buffer p"
| "payload_pack_to_buffer buffer (P_UDPTunnel p) = mumble_proto__udptunnel__pack_to_buffer buffer p"
| "payload_pack_to_buffer buffer (P_Authenticate p) = mumble_proto__authenticate__pack_to_buffer buffer p"
| "payload_pack_to_buffer buffer (P_Ping p) = mumble_proto__ping__pack_to_buffer buffer p"
| "payload_pack_to_buffer buffer (P_Reject p) = mumble_proto__reject__pack_to_buffer buffer p"
| "payload_pack_to_buffer buffer (P_ServerConfig p) = mumble_proto__server_config__pack_to_buffer buffer p"
| "payload_pack_to_buffer buffer (P_ServerSync p) = mumble_proto__server_sync__pack_to_buffer buffer p"
| "payload_pack_to_buffer buffer (P_ChannelRemove p) = mumble_proto__channel_remove__pack_to_buffer buffer p"
| "payload_pack_to_buffer buffer (P_ChannelState p) = mumble_proto__channel_state__pack_to_buffer buffer p"
| "payload_pack_to_buffer buffer (P_UserRemove p) = mumble_proto__user_remove__pack_to_buffer buffer p"
| "payload_pack_to_buffer buffer (P_UserState p) = mumble_proto__user_state__pack_to_buffer buffer p"
| "payload_pack_to_buffer buffer (P_TextMessage p) = mumble_proto__text_message__pack_to_buffer buffer p"
| "payload_pack_to_buffer buffer (P_PermissionDenied p) = mumble_proto__permission_denied__pack_to_buffer buffer p"
| "payload_pack_to_buffer buffer (P_CryptSetup p) = mumble_proto__crypt_setup__pack_to_buffer buffer p"
| "payload_pack_to_buffer buffer (P_UserList p) = mumble_proto__user_list__pack_to_buffer buffer p"
| "payload_pack_to_buffer buffer (P_VoiceTarget p) = mumble_proto__voice_target__pack_to_buffer buffer p"
| "payload_pack_to_buffer buffer (P_PermissionQuery p) = mumble_proto__permission_query__pack_to_buffer buffer p"
| "payload_pack_to_buffer buffer (P_CodecVersion p) = mumble_proto__codec_version__pack_to_buffer buffer p"
| "payload_pack_to_buffer buffer (P_UserStats p) = mumble_proto__user_stats__pack_to_buffer buffer p"
| "payload_pack_to_buffer buffer (P_none t) = ret 0"

lemmas stream_wrappers =
  mumble_proto__version__pack_to_buffer_def mumble_proto__udptunnel__pack_to_buffer_def
  mumble_proto__authenticate__pack_to_buffer_def mumble_proto__ping__pack_to_buffer_def
  mumble_proto__reject__pack_to_buffer_def mumble_proto__server_config__pack_to_buffer_def
  mumble_proto__server_sync__pack_to_buffer_def mumble_proto__channel_remove__pack_to_buffer_def
  mumble_proto__channel_state__pack_to_buffer_def mumble_proto__user_remove__pack_to_buffer_def
  mumble_proto__user_state__pack_to_buffer_def mumble_proto__text_message__pack_to_buffer_def
  mumble_proto__permission_denied__pack_to_buffer_def
  mumble_proto__crypt_setup__pack_to_buffer_def mumble_proto__user_list__pack_to_buffer_def
  mumble_proto__voice_target__pack_to_buffer_def
  mumble_proto__permission_query__pack_to_buffer_def
  mumble_proto__codec_version__pack_to_buffer_def mumble_proto__user_stats__pack_to_buffer_def

context byte_sink
begin

lemma payload_into:
  assumes "sound b"
  shows "\<exists>b'. payload_pack_to_buffer put p b = Inr (length (payload_pack p), b') \<and> sound b' \<and> held b' = held b @ payload_pack p"
proof (cases "\<exists>t. p = P_none t")
  case True
  with assms show ?thesis by (auto simp: ret_app)
next
  case False
  then obtain m where "payload_pack_to_buffer put p = protobuf_c_message_pack_to_buffer put m"
    "payload_pack p = protobuf_c_message_pack m"
    by (cases p) (auto simp: stream_wrappers pack_wrappers simp del: protobuf_c_message_pack.simps)
  then show ?thesis using packs_into [OF assms, of m] by simp
qed

end

section \<open>Properties\<close>

text \<open>A message packed into an empty fragment buffer can be read from it as a whole and unpacks to the same
  payload, for every type of message of the server.\<close>

theorem payload_through_fragments:
  assumes "payload_ok p" and "length (payload_pack p) < 2 ^ 32 - 5" and "buffer_ok d" and "contents d = []"
  shows "\<exists>n d1 data d2. payload_pack_to_buffer protobuf_c_data_buffer_append p d = Inr (n, d1) \<and>
    protobuf_c_data_buffer_read n d1 = Inr (data, d2) \<and> payload_unpack (type_of p) data = Parsed p \<and> contents d2 = []"
proof -
  obtain d1 where d1: "payload_pack_to_buffer protobuf_c_data_buffer_append p d = Inr (length (payload_pack p), d1)"
    "buffer_ok d1" "contents d1 = payload_pack p" using frags.payload_into [OF assms(3), of p] assms(4) by auto
  obtain d2 where "protobuf_c_data_buffer_read (length (payload_pack p)) d1 = Inr (payload_pack p, d2)" "contents d2 = []"
    using frags.get_ok [OF d1(2), of "length (payload_pack p)"] d1(3) by auto
  then show ?thesis using d1(1) payload_unpack_pack [OF assms(1,2)] by blast
qed

theorem payload_through_fragments_witness:
  "\<exists>n d1 data d2. payload_pack_to_buffer protobuf_c_data_buffer_append (P_CodecVersion \<lparr>cdv_alpha = 7, cdv_beta = 0, cdv_prefer_alpha = True\<rparr>)
      protobuf_c_data_buffer_init = Inr (n, d1) \<and> protobuf_c_data_buffer_read n d1 = Inr (data, d2) \<and>
    payload_unpack CodecVersion data = Parsed (P_CodecVersion \<lparr>cdv_alpha = 7, cdv_beta = 0, cdv_prefer_alpha = True\<rparr>)"
proof -
  let ?p = "P_CodecVersion \<lparr>cdv_alpha = 7, cdv_beta = 0, cdv_prefer_alpha = True\<rparr>"
  have ok: "payload_ok ?p"
    by (simp add: payload_ok_def CodecVersion_msg_def slots_ok_def mumble_proto__codec_version__field_descriptors_def)
  have "length (payload_pack ?p) < 2 ^ 32 - 5"
    by (simp add: mumble_proto__codec_version__pack_def CodecVersion_msg_def size_defs int32_size_def uint32_size_def
        mumble_proto__codec_version__field_descriptors_def del: protobuf_c_message_pack.simps)
  from payload_through_fragments [OF ok this buffer_ok_init] show ?thesis
    by (fastforce simp: contents_def protobuf_c_data_buffer_init_def)
qed

end
