(* ===== verification/PbLookup.thy ===== *)
theory PbLookup
  imports PbDesc
begin

text \<open>
  Lookups in descriptors, by name and by number: the end of protobuf-c.c, and the tables of
  names and the enumerations of src/src/Mumble.pb-c.c. The C code has the binary search over a table of
  names three times, once for each kind of descriptor; it is \<open>name_loop\<close>, with the function from a
  position of the table to its name as a parameter.
\<close>

section \<open>Binary search by name\<close>

text \<open>\<open>strcmp\<close> compares unsigned characters; only its sign is documented.\<close>

fun strcmp :: "string \<Rightarrow> string \<Rightarrow> int" where
  "strcmp [] [] = 0"
| "strcmp [] (y # ys) = -1"
| "strcmp (x # xs) [] = 1"
| "strcmp (x # xs) (y # ys) =
     (if x = y then strcmp xs ys else if (of_char x :: nat) < of_char y then -1 else 1)"

function name_loop :: "(nat \<Rightarrow> string) \<Rightarrow> string \<Rightarrow> nat \<Rightarrow> nat \<Rightarrow> nat option" where
  "name_loop name_at name start n =
     (if n > 1 then
        let mid = start + n div 2;
            rv = strcmp (name_at mid) name
        in if rv = 0 then Some mid
           else if rv < 0 then name_loop name_at name (mid + 1) (start + n - (mid + 1))
           else name_loop name_at name start (mid - start)
      else if n = 0 then None
      else if strcmp (name_at start) name = 0 then Some start
      else None)"
  by auto
termination
  by (relation "measure (\<lambda>(name_at, name, start, n). n)") auto

declare name_loop.simps [simp del]

section \<open>Descriptors\<close>

text \<open>The value of an enumeration has its name, its name in C and its number.\<close>

datatype enum_value = EnumValue (ev_name: string) (ev_c_name: string) (ev_value: int)

datatype enum_desc =
  EnumDesc (ed_values: "enum_value list") (ed_by_name: "(string \<times> nat) list") (ed_ranges: "(int \<times> nat) list")

datatype method_desc = MethodDesc (md_name: string) (md_input: desc) (md_output: desc)

datatype service_desc = ServiceDesc (sd_methods: "method_desc list") (sd_by_name: "nat list")

definition protobuf_c_enum_descriptor_get_value_by_name :: "enum_desc \<Rightarrow> string \<Rightarrow> enum_value option" where
  "protobuf_c_enum_descriptor_get_value_by_name desc name =
     map_option (\<lambda>k. ed_values desc ! snd (ed_by_name desc ! k))
       (name_loop (\<lambda>k. fst (ed_by_name desc ! k)) name 0 (length (ed_by_name desc)))"

definition protobuf_c_enum_descriptor_get_value :: "enum_desc \<Rightarrow> int \<Rightarrow> enum_value option" where
  "protobuf_c_enum_descriptor_get_value desc value =
     (let rv = int_range_lookup (ed_ranges desc) value
      in if rv < 0 then None else Some (ed_values desc ! nat rv))"

text \<open>The table \<open>fields_sorted_by_name\<close> of a message descriptor is an argument of its own.\<close>

definition protobuf_c_message_descriptor_get_field_by_name :: "desc \<Rightarrow> nat list \<Rightarrow> string \<Rightarrow> field option" where
  "protobuf_c_message_descriptor_get_field_by_name desc by_name name =
     map_option (\<lambda>k. d_fields desc ! (by_name ! k))
       (name_loop (\<lambda>k. fd_name (d_fields desc ! (by_name ! k))) name 0 (length (d_fields desc)))"

definition protobuf_c_message_descriptor_get_field :: "desc \<Rightarrow> u32 \<Rightarrow> field option" where
  "protobuf_c_message_descriptor_get_field desc value =
     (let rv = int_range_lookup (d_ranges desc) (sint value)
      in if rv < 0 then None else Some (d_fields desc ! nat rv))"

definition protobuf_c_service_descriptor_get_method_by_name :: "service_desc \<Rightarrow> string \<Rightarrow> method_desc option" where
  "protobuf_c_service_descriptor_get_method_by_name desc name =
     map_option (\<lambda>k. sd_methods desc ! (sd_by_name desc ! k))
       (name_loop (\<lambda>k. md_name (sd_methods desc ! (sd_by_name desc ! k))) name 0 (length (sd_methods desc)))"

section \<open>The tables of the Mumble protocol\<close>

definition mumble_proto__version__field_indices_by_name :: "nat list" where
  "mumble_proto__version__field_indices_by_name = [2, 3, 1, 0]"

definition mumble_proto__udptunnel__field_indices_by_name :: "nat list" where
  "mumble_proto__udptunnel__field_indices_by_name = [0]"

definition mumble_proto__authenticate__field_indices_by_name :: "nat list" where
  "mumble_proto__authenticate__field_indices_by_name = [3, 1, 2, 0]"

definition mumble_proto__ping__field_indices_by_name :: "nat list" where
  "mumble_proto__ping__field_indices_by_name = [1, 2, 3, 4, 6, 9, 10, 0, 5, 7, 8]"

definition mumble_proto__reject__reject_type__enum_values_by_number :: "enum_value list" where
  "mumble_proto__reject__reject_type__enum_values_by_number =
     [EnumValue ''None'' ''MUMBLE_PROTO__REJECT__REJECT_TYPE__NONE'' 0,
      EnumValue ''WrongVersion'' ''MUMBLE_PROTO__REJECT__REJECT_TYPE__WRONGVERSION'' 1,
      EnumValue ''InvalidUsername'' ''MUMBLE_PROTO__REJECT__REJECT_TYPE__INVALIDUSERNAME'' 2,
      EnumValue ''WrongUserPW'' ''MUMBLE_PROTO__REJECT__REJECT_TYPE__WRONGUSERPW'' 3,
      EnumValue ''WrongServerPW'' ''MUMBLE_PROTO__REJECT__REJECT_TYPE__WRONGSERVERPW'' 4,
      EnumValue ''UsernameInUse'' ''MUMBLE_PROTO__REJECT__REJECT_TYPE__USERNAMEINUSE'' 5,
      EnumValue ''ServerFull'' ''MUMBLE_PROTO__REJECT__REJECT_TYPE__SERVERFULL'' 6,
      EnumValue ''NoCertificate'' ''MUMBLE_PROTO__REJECT__REJECT_TYPE__NOCERTIFICATE'' 7]"

definition mumble_proto__reject__reject_type__value_ranges :: "(int \<times> nat) list" where
  "mumble_proto__reject__reject_type__value_ranges = [(0, 0), (0, 8)]"

definition mumble_proto__reject__reject_type__enum_values_by_name :: "(string \<times> nat) list" where
  "mumble_proto__reject__reject_type__enum_values_by_name =
     [(''InvalidUsername'', 2),
      (''NoCertificate'', 7),
      (''None'', 0),
      (''ServerFull'', 6),
      (''UsernameInUse'', 5),
      (''WrongServerPW'', 4),
      (''WrongUserPW'', 3),
      (''WrongVersion'', 1)]"

definition mumble_proto__reject__reject_type__descriptor :: enum_desc where
  "mumble_proto__reject__reject_type__descriptor =
     EnumDesc mumble_proto__reject__reject_type__enum_values_by_number
       mumble_proto__reject__reject_type__enum_values_by_name mumble_proto__reject__reject_type__value_ranges"

definition mumble_proto__reject__field_indices_by_name :: "nat list" where
  "mumble_proto__reject__field_indices_by_name = [1, 0]"

definition mumble_proto__server_config__field_indices_by_name :: "nat list" where
  "mumble_proto__server_config__field_indices_by_name = [2, 4, 0, 3, 1]"

definition mumble_proto__server_sync__field_indices_by_name :: "nat list" where
  "mumble_proto__server_sync__field_indices_by_name = [1, 3, 0, 2]"

definition mumble_proto__channel_remove__field_indices_by_name :: "nat list" where
  "mumble_proto__channel_remove__field_indices_by_name = [0]"

definition mumble_proto__channel_state__field_indices_by_name :: "nat list" where
  "mumble_proto__channel_state__field_indices_by_name = [0, 4, 9, 3, 5, 6, 2, 1, 8, 7]"

definition mumble_proto__user_remove__field_indices_by_name :: "nat list" where
  "mumble_proto__user_remove__field_indices_by_name = [1, 3, 2, 0]"

definition mumble_proto__user_state__field_indices_by_name :: "nat list" where
  "mumble_proto__user_state__field_indices_by_name = [1, 4, 13, 15, 6, 14, 5, 2, 11, 12, 17, 18, 9, 8, 0, 7, 10, 16, 3]"

definition mumble_proto__ban_list__ban_entry__field_indices_by_name :: "nat list" where
  "mumble_proto__ban_list__ban_entry__field_indices_by_name = [0, 6, 3, 1, 2, 4, 5]"

definition mumble_proto__ban_list__field_indices_by_name :: "nat list" where
  "mumble_proto__ban_list__field_indices_by_name = [0, 1]"

definition mumble_proto__text_message__field_indices_by_name :: "nat list" where
  "mumble_proto__text_message__field_indices_by_name = [0, 2, 4, 1, 3]"

definition mumble_proto__permission_denied__deny_type__enum_values_by_number :: "enum_value list" where
  "mumble_proto__permission_denied__deny_type__enum_values_by_number =
     [EnumValue ''Text'' ''MUMBLE_PROTO__PERMISSION_DENIED__DENY_TYPE__TEXT'' 0,
      EnumValue ''Permission'' ''MUMBLE_PROTO__PERMISSION_DENIED__DENY_TYPE__PERMISSION'' 1,
      EnumValue ''SuperUser'' ''MUMBLE_PROTO__PERMISSION_DENIED__DENY_TYPE__SUPERUSER'' 2,
      EnumValue ''ChannelName'' ''MUMBLE_PROTO__PERMISSION_DENIED__DENY_TYPE__CHANNELNAME'' 3,
      EnumValue ''TextTooLong'' ''MUMBLE_PROTO__PERMISSION_DENIED__DENY_TYPE__TEXTTOOLONG'' 4,
      EnumValue ''H9K'' ''MUMBLE_PROTO__PERMISSION_DENIED__DENY_TYPE__H9K'' 5,
      EnumValue ''TemporaryChannel'' ''MUMBLE_PROTO__PERMISSION_DENIED__DENY_TYPE__TEMPORARYCHANNEL'' 6,
      EnumValue ''MissingCertificate'' ''MUMBLE_PROTO__PERMISSION_DENIED__DENY_TYPE__MISSINGCERTIFICATE'' 7,
      EnumValue ''UserName'' ''MUMBLE_PROTO__PERMISSION_DENIED__DENY_TYPE__USERNAME'' 8,
      EnumValue ''ChannelFull'' ''MUMBLE_PROTO__PERMISSION_DENIED__DENY_TYPE__CHANNELFULL'' 9]"

definition mumble_proto__permission_denied__deny_type__value_ranges :: "(int \<times> nat) list" where
  "mumble_proto__permission_denied__deny_type__value_ranges = [(0, 0), (0, 10)]"

definition mumble_proto__permission_denied__deny_type__enum_values_by_name :: "(string \<times> nat) list" where
  "mumble_proto__permission_denied__deny_type__enum_values_by_name =
     [(''ChannelFull'', 9),
      (''ChannelName'', 3),
      (''H9K'', 5),
      (''MissingCertificate'', 7),
      (''Permission'', 1),
      (''SuperUser'', 2),
      (''TemporaryChannel'', 6),
      (''Text'', 0),
      (''TextTooLong'', 4),
      (''UserName'', 8)]"

definition mumble_proto__permission_denied__deny_type__descriptor :: enum_desc where
  "mumble_proto__permission_denied__deny_type__descriptor =
     EnumDesc mumble_proto__permission_denied__deny_type__enum_values_by_number
       mumble_proto__permission_denied__deny_type__enum_values_by_name mumble_proto__permission_denied__deny_type__value_ranges"

definition mumble_proto__permission_denied__field_indices_by_name :: "nat list" where
  "mumble_proto__permission_denied__field_indices_by_name = [1, 5, 0, 3, 2, 4]"

definition mumble_proto__acl__chan_group__field_indices_by_name :: "nat list" where
  "mumble_proto__acl__chan_group__field_indices_by_name = [4, 2, 3, 1, 6, 0, 5]"

definition mumble_proto__acl__chan_acl__field_indices_by_name :: "nat list" where
  "mumble_proto__acl__chan_acl__field_indices_by_name = [0, 1, 6, 5, 4, 2, 3]"

definition mumble_proto__acl__field_indices_by_name :: "nat list" where
  "mumble_proto__acl__field_indices_by_name = [3, 0, 2, 1, 4]"

definition mumble_proto__query_users__field_indices_by_name :: "nat list" where
  "mumble_proto__query_users__field_indices_by_name = [0, 1]"

definition mumble_proto__crypt_setup__field_indices_by_name :: "nat list" where
  "mumble_proto__crypt_setup__field_indices_by_name = [1, 0, 2]"

definition mumble_proto__context_action_add__context__enum_values_by_number :: "enum_value list" where
  "mumble_proto__context_action_add__context__enum_values_by_number =
     [EnumValue ''Server'' ''MUMBLE_PROTO__CONTEXT_ACTION_ADD__CONTEXT__SERVER'' 1,
      EnumValue ''Channel'' ''MUMBLE_PROTO__CONTEXT_ACTION_ADD__CONTEXT__CHANNEL'' 2,
      EnumValue ''User'' ''MUMBLE_PROTO__CONTEXT_ACTION_ADD__CONTEXT__USER'' 4]"

definition mumble_proto__context_action_add__context__value_ranges :: "(int \<times> nat) list" where
  "mumble_proto__context_action_add__context__value_ranges = [(1, 0), (4, 2), (0, 3)]"

definition mumble_proto__context_action_add__context__enum_values_by_name :: "(string \<times> nat) list" where
  "mumble_proto__context_action_add__context__enum_values_by_name =
     [(''Channel'', 1),
      (''Server'', 0),
      (''User'', 2)]"

definition mumble_proto__context_action_add__context__descriptor :: enum_desc where
  "mumble_proto__context_action_add__context__descriptor =
     EnumDesc mumble_proto__context_action_add__context__enum_values_by_number
       mumble_proto__context_action_add__context__enum_values_by_name mumble_proto__context_action_add__context__value_ranges"

definition mumble_proto__context_action_add__field_indices_by_name :: "nat list" where
  "mumble_proto__context_action_add__field_indices_by_name = [0, 2, 1]"

definition mumble_proto__context_action__field_indices_by_name :: "nat list" where
  "mumble_proto__context_action__field_indices_by_name = [2, 1, 0]"

definition mumble_proto__user_list__user__field_indices_by_name :: "nat list" where
  "mumble_proto__user_list__user__field_indices_by_name = [1, 0]"

definition mumble_proto__user_list__field_indices_by_name :: "nat list" where
  "mumble_proto__user_list__field_indices_by_name = [0]"

definition mumble_proto__voice_target__target__field_indices_by_name :: "nat list" where
  "mumble_proto__voice_target__target__field_indices_by_name = [1, 4, 2, 3, 0]"

definition mumble_proto__voice_target__field_indices_by_name :: "nat list" where
  "mumble_proto__voice_target__field_indices_by_name = [0, 1]"

definition mumble_proto__permission_query__field_indices_by_name :: "nat list" where
  "mumble_proto__permission_query__field_indices_by_name = [0, 2, 1]"

definition mumble_proto__codec_version__field_indices_by_name :: "nat list" where
  "mumble_proto__codec_version__field_indices_by_name = [0, 1, 2]"

definition mumble_proto__user_stats__stats__field_indices_by_name :: "nat list" where
  "mumble_proto__user_stats__stats__field_indices_by_name = [0, 1, 2, 3]"

definition mumble_proto__user_stats__field_indices_by_name :: "nat list" where
  "mumble_proto__user_stats__field_indices_by_name = [13, 14, 12, 2, 3, 4, 16, 15, 0, 1, 17, 6, 9, 10, 5, 7, 8, 11]"

definition mumble_proto__request_blob__field_indices_by_name :: "nat list" where
  "mumble_proto__request_blob__field_indices_by_name = [2, 1, 0]"

definition message_tables :: "(desc \<times> nat list) list" where
  "message_tables =
     [(mumble_proto__version__descriptor, mumble_proto__version__field_indices_by_name),
      (mumble_proto__udptunnel__descriptor, mumble_proto__udptunnel__field_indices_by_name),
      (mumble_proto__authenticate__descriptor, mumble_proto__authenticate__field_indices_by_name),
      (mumble_proto__ping__descriptor, mumble_proto__ping__field_indices_by_name),
      (mumble_proto__reject__descriptor, mumble_proto__reject__field_indices_by_name),
      (mumble_proto__server_config__descriptor, mumble_proto__server_config__field_indices_by_name),
      (mumble_proto__server_sync__descriptor, mumble_proto__server_sync__field_indices_by_name),
      (mumble_proto__channel_remove__descriptor, mumble_proto__channel_remove__field_indices_by_name),
      (mumble_proto__channel_state__descriptor, mumble_proto__channel_state__field_indices_by_name),
      (mumble_proto__user_remove__descriptor, mumble_proto__user_remove__field_indices_by_name),
      (mumble_proto__user_state__descriptor, mumble_proto__user_state__field_indices_by_name),
      (mumble_proto__ban_list__ban_entry__descriptor, mumble_proto__ban_list__ban_entry__field_indices_by_name),
      (mumble_proto__ban_list__descriptor, mumble_proto__ban_list__field_indices_by_name),
      (mumble_proto__text_message__descriptor, mumble_proto__text_message__field_indices_by_name),
      (mumble_proto__permission_denied__descriptor, mumble_proto__permission_denied__field_indices_by_name),
      (mumble_proto__acl__chan_group__descriptor, mumble_proto__acl__chan_group__field_indices_by_name),
      (mumble_proto__acl__chan_acl__descriptor, mumble_proto__acl__chan_acl__field_indices_by_name),
      (mumble_proto__acl__descriptor, mumble_proto__acl__field_indices_by_name),
      (mumble_proto__query_users__descriptor, mumble_proto__query_users__field_indices_by_name),
      (mumble_proto__crypt_setup__descriptor, mumble_proto__crypt_setup__field_indices_by_name),
      (mumble_proto__context_action_add__descriptor, mumble_proto__context_action_add__field_indices_by_name),
      (mumble_proto__context_action__descriptor, mumble_proto__context_action__field_indices_by_name),
      (mumble_proto__user_list__user__descriptor, mumble_proto__user_list__user__field_indices_by_name),
      (mumble_proto__user_list__descriptor, mumble_proto__user_list__field_indices_by_name),
      (mumble_proto__voice_target__target__descriptor, mumble_proto__voice_target__target__field_indices_by_name),
      (mumble_proto__voice_target__descriptor, mumble_proto__voice_target__field_indices_by_name),
      (mumble_proto__permission_query__descriptor, mumble_proto__permission_query__field_indices_by_name),
      (mumble_proto__codec_version__descriptor, mumble_proto__codec_version__field_indices_by_name),
      (mumble_proto__user_stats__stats__descriptor, mumble_proto__user_stats__stats__field_indices_by_name),
      (mumble_proto__user_stats__descriptor, mumble_proto__user_stats__field_indices_by_name),
      (mumble_proto__request_blob__descriptor, mumble_proto__request_blob__field_indices_by_name)]"

definition enum_tables :: "enum_desc list" where
  "enum_tables =
     [mumble_proto__reject__reject_type__descriptor,
      mumble_proto__permission_denied__deny_type__descriptor,
      mumble_proto__context_action_add__context__descriptor]"

lemmas name_tables =
  mumble_proto__version__field_indices_by_name_def mumble_proto__version__field_descriptors_def
  mumble_proto__udptunnel__field_indices_by_name_def
  mumble_proto__udptunnel__field_descriptors_def
  mumble_proto__authenticate__field_indices_by_name_def
  mumble_proto__authenticate__field_descriptors_def
  mumble_proto__ping__field_indices_by_name_def mumble_proto__ping__field_descriptors_def
  mumble_proto__reject__field_indices_by_name_def mumble_proto__reject__field_descriptors_def
  mumble_proto__server_config__field_indices_by_name_def
  mumble_proto__server_config__field_descriptors_def
  mumble_proto__server_sync__field_indices_by_name_def
  mumble_proto__server_sync__field_descriptors_def
  mumble_proto__channel_remove__field_indices_by_name_def
  mumble_proto__channel_remove__field_descriptors_def
  mumble_proto__channel_state__field_indices_by_name_def
  mumble_proto__channel_state__field_descriptors_def
  mumble_proto__user_remove__field_indices_by_name_def
  mumble_proto__user_remove__field_descriptors_def
  mumble_proto__user_state__field_indices_by_name_def
  mumble_proto__user_state__field_descriptors_def
  mumble_proto__ban_list__ban_entry__field_indices_by_name_def
  mumble_proto__ban_list__ban_entry__field_descriptors_def
  mumble_proto__ban_list__field_indices_by_name_def
  mumble_proto__ban_list__field_descriptors_def
  mumble_proto__text_message__field_indices_by_name_def
  mumble_proto__text_message__field_descriptors_def
  mumble_proto__permission_denied__field_indices_by_name_def
  mumble_proto__permission_denied__field_descriptors_def
  mumble_proto__acl__chan_group__field_indices_by_name_def
  mumble_proto__acl__chan_group__field_descriptors_def
  mumble_proto__acl__chan_acl__field_indices_by_name_def
  mumble_proto__acl__chan_acl__field_descriptors_def
  mumble_proto__acl__field_indices_by_name_def mumble_proto__acl__field_descriptors_def
  mumble_proto__query_users__field_indices_by_name_def
  mumble_proto__query_users__field_descriptors_def
  mumble_proto__crypt_setup__field_indices_by_name_def
  mumble_proto__crypt_setup__field_descriptors_def
  mumble_proto__context_action_add__field_indices_by_name_def
  mumble_proto__context_action_add__field_descriptors_def
  mumble_proto__context_action__field_indices_by_name_def
  mumble_proto__context_action__field_descriptors_def
  mumble_proto__user_list__user__field_indices_by_name_def
  mumble_proto__user_list__user__field_descriptors_def
  mumble_proto__user_list__field_indices_by_name_def
  mumble_proto__user_list__field_descriptors_def
  mumble_proto__voice_target__target__field_indices_by_name_def
  mumble_proto__voice_target__target__field_descriptors_def
  mumble_proto__voice_target__field_indices_by_name_def
  mumble_proto__voice_target__field_descriptors_def
  mumble_proto__permission_query__field_indices_by_name_def
  mumble_proto__permission_query__field_descriptors_def
  mumble_proto__codec_version__field_indices_by_name_def
  mumble_proto__codec_version__field_descriptors_def
  mumble_proto__user_stats__stats__field_indices_by_name_def
  mumble_proto__user_stats__stats__field_descriptors_def
  mumble_proto__user_stats__field_indices_by_name_def
  mumble_proto__user_stats__field_descriptors_def
  mumble_proto__request_blob__field_indices_by_name_def
  mumble_proto__request_blob__field_descriptors_def message_tables_def

lemmas enum_defs =
  mumble_proto__reject__reject_type__enum_values_by_number_def
  mumble_proto__reject__reject_type__value_ranges_def
  mumble_proto__reject__reject_type__enum_values_by_name_def
  mumble_proto__reject__reject_type__descriptor_def
  mumble_proto__permission_denied__deny_type__enum_values_by_number_def
  mumble_proto__permission_denied__deny_type__value_ranges_def
  mumble_proto__permission_denied__deny_type__enum_values_by_name_def
  mumble_proto__permission_denied__deny_type__descriptor_def
  mumble_proto__context_action_add__context__enum_values_by_number_def
  mumble_proto__context_action_add__context__value_ranges_def
  mumble_proto__context_action_add__context__enum_values_by_name_def
  mumble_proto__context_action_add__context__descriptor_def enum_tables_def

section \<open>The search is right\<close>

lemma strcmp_eq [simp]: "strcmp xs ys = 0 \<longleftrightarrow> xs = ys"
  by (induction xs ys rule: strcmp.induct) auto

lemma strcmp_refl [simp]: "strcmp xs xs = 0"
  by simp

lemma strcmp_Nil_left: "strcmp [] ys \<le> 0" and strcmp_Nil_right: "0 \<le> strcmp xs []"
  by (cases ys; simp) (cases xs; simp)

lemma strcmp_trans: "strcmp xs ys < 0 \<Longrightarrow> strcmp ys zs < 0 \<Longrightarrow> strcmp xs zs < 0"
proof (induction xs zs arbitrary: ys rule: strcmp.induct)
  case (4 x xs z zs)
  then show ?case by (cases ys) (auto split: if_splits dest: less_trans)
qed (use strcmp_Nil_right in \<open>auto simp: not_less dest: leD\<close>)

lemma strcmp_swap: "strcmp xs ys < 0 \<longleftrightarrow> 0 < strcmp ys xs"
  by (induction xs ys rule: strcmp.induct) auto

definition increasing :: "(nat \<Rightarrow> string) \<Rightarrow> nat \<Rightarrow> nat \<Rightarrow> bool" where
  "increasing name_at start n \<longleftrightarrow>
     (\<forall>i j. start \<le> i \<longrightarrow> i < j \<longrightarrow> j < start + n \<longrightarrow> strcmp (name_at i) (name_at j) < 0)"

lemma name_loop_small [simp]:
  "name_loop name_at name start 0 = None"
  "name_loop name_at name start (Suc 0) = (if name_at start = name then Some start else None)"
  by (simp_all add: name_loop.simps [of name_at name start 0] name_loop.simps [of name_at name start "Suc 0"])

lemma name_loop_correct:
  assumes "increasing name_at start n"
  shows "case name_loop name_at name start n of
      Some k \<Rightarrow> start \<le> k \<and> k < start + n \<and> name_at k = name
    | None \<Rightarrow> \<forall>k. start \<le> k \<longrightarrow> k < start + n \<longrightarrow> name_at k \<noteq> name"
  using assms
proof (induction name_at name start n rule: name_loop.induct)
  case (1 name_at name start n)
  show ?case
  proof (cases "n > 1")
    case True
    define mid where "mid = start + n div 2"
    have mid: "start \<le> mid" "mid < start + n" using True by (simp_all add: mid_def)
    have lt: "strcmp (name_at i) (name_at j) < 0" if "start \<le> i" "i < j" "j < start + n" for i j
      using 1(3) that unfolding increasing_def by blast
    consider "name_at mid = name" | "strcmp (name_at mid) name < 0" | "0 < strcmp (name_at mid) name"
      using strcmp_eq [of "name_at mid" name] by linarith
    then show ?thesis
    proof cases
      case 1
      then show ?thesis using True mid by (simp add: name_loop.simps [of name_at name start] Let_def mid_def [symmetric])
    next
      case 2
      have inc: "increasing name_at (mid + 1) (start + n - (mid + 1))" using lt mid unfolding increasing_def by auto
      have eq: "name_loop name_at name start n = name_loop name_at name (mid + 1) (start + n - (mid + 1))"
        using True 2 by (subst name_loop.simps) (auto simp: Let_def mid_def [symmetric])
      have out: "name_at k \<noteq> name" if "start \<le> k" "k \<le> mid" for k
        using that 2 lt [of k mid] mid strcmp_trans [of "name_at k" "name_at mid" name]
        by (cases "k = mid") (auto dest: strcmp_trans)
      have "case name_loop name_at name (mid + 1) (start + n - (mid + 1)) of
          Some k \<Rightarrow> mid + 1 \<le> k \<and> k < mid + 1 + (start + n - (mid + 1)) \<and> name_at k = name
        | None \<Rightarrow> \<forall>k. mid + 1 \<le> k \<longrightarrow> k < mid + 1 + (start + n - (mid + 1)) \<longrightarrow> name_at k \<noteq> name"
        using "1.IH"(1) [OF True mid_def refl] 2 inc strcmp_refl [of name] by fastforce
      then show ?thesis unfolding eq using mid out
        by (cases "name_loop name_at name (mid + 1) (start + n - (mid + 1))") (auto, metis Suc_leI not_le)
    next
      case 3
      have inc: "increasing name_at start (mid - start)" using lt mid unfolding increasing_def by auto
      have eq: "name_loop name_at name start n = name_loop name_at name start (mid - start)"
        using True 3 by (subst name_loop.simps) (auto simp: Let_def mid_def [symmetric])
      have out: "name_at k \<noteq> name" if "mid \<le> k" "k < start + n" for k
        using that 3 lt [of mid k] mid strcmp_swap [of "name_at k" "name_at mid"] by (cases "k = mid") auto
      have "case name_loop name_at name start (mid - start) of
          Some k \<Rightarrow> start \<le> k \<and> k < start + (mid - start) \<and> name_at k = name
        | None \<Rightarrow> \<forall>k. start \<le> k \<longrightarrow> k < start + (mid - start) \<longrightarrow> name_at k \<noteq> name"
        using "1.IH"(2) [OF True mid_def refl] 3 inc strcmp_refl [of name] by fastforce
      then show ?thesis unfolding eq using mid out
        by (cases "name_loop name_at name start (mid - start)") (auto, metis not_le)
    qed
  next
    case False
    then have "n = 0 \<or> n = 1" by linarith
    then show ?thesis by (auto simp: le_less_Suc_eq)
  qed
qed

text \<open>
  A table of names is right when it is sorted, mentions every entry, and only entries.
\<close>

definition names_sorted :: "string list \<Rightarrow> bool" where
  "names_sorted names \<longleftrightarrow> sorted_wrt (\<lambda>a b. strcmp a b < 0) names"

lemma increasing_nth: "names_sorted names \<Longrightarrow> increasing ((!) names) 0 (length names)"
  by (auto simp: names_sorted_def increasing_def sorted_wrt_iff_nth_less)

lemma name_loop_map:
  "(\<And>k. k < start + n \<Longrightarrow> f k = g k) \<Longrightarrow> name_loop f name start n = name_loop g name start n"
proof (induction f name start n rule: name_loop.induct)
  case (1 f name start n)
  show ?case
  proof (cases "n > 1")
    case True
    have "f (start + n div 2) = g (start + n div 2)" using 1(3) True by simp
    moreover have "name_loop f name (start + n div 2 + 1) (start + n - (start + n div 2 + 1)) =
        name_loop g name (start + n div 2 + 1) (start + n - (start + n div 2 + 1))"
      if "strcmp (f (start + n div 2)) name < 0"
      using that 1(3) True by (intro "1.IH"(1)) auto
    moreover have "name_loop f name start (start + n div 2 - start) = name_loop g name start (start + n div 2 - start)"
      if "0 < strcmp (f (start + n div 2)) name"
      using that 1(3) True by (intro "1.IH"(2)) auto
    ultimately show ?thesis using True
      by (simp only: name_loop.simps [of f name start n] name_loop.simps [of g name start n] Let_def) (simp add: not_less le_less)
  next
    case False
    then show ?thesis using 1(3) by (simp add: name_loop.simps [of _ name start n])
  qed
qed

lemma find_unique:
  assumes "distinct (map key xs)" and "x \<in> set xs"
  shows "find (\<lambda>y. key y = key x) xs = Some x"
  using assms by (induction xs) (auto simp: rev_image_eqI)

lemma name_loop_find:
  assumes "names_sorted (map (\<lambda>k. key (xs ! ix k)) [0..<n])" and "ix ` {..<n} = {..<length xs}" and "n = length xs"
  shows "map_option (\<lambda>k. xs ! ix k) (name_loop (\<lambda>k. key (xs ! ix k)) name 0 n) = find (\<lambda>x. key x = name) xs"
proof -
  let ?f = "\<lambda>k. key (xs ! ix k)"
  have inc: "increasing ?f 0 n"
    using assms(1) by (auto simp: names_sorted_def increasing_def sorted_wrt_iff_nth_less)
  have inj: "inj_on ?f {..<n}"
  proof (rule linorder_inj_onI')
    fix i j assume "i \<in> {..<n}" "j \<in> {..<n}" "i < j"
    then have "strcmp (?f i) (?f j) < 0" using inc by (simp add: increasing_def)
    then show "?f i \<noteq> ?f j" using strcmp_eq by auto
  qed
  have "inj_on (\<lambda>i. key (xs ! i)) (ix ` {..<n})" using inj by (auto simp: inj_on_def)
  then have dist: "distinct (map key xs)"
    using assms(2) by (auto simp: distinct_conv_nth inj_on_def)
  show ?thesis
  proof (cases "name_loop ?f name 0 n")
    case (Some k)
    then have "k < n" "?f k = name" using name_loop_correct [OF inc, of name] by simp_all
    moreover have "ix k < length xs" using assms(2) \<open>k < n\<close> by blast
    ultimately show ?thesis using Some find_unique [OF dist, of "xs ! ix k"] by simp
  next
    case None
    then have no: "?f k \<noteq> name" if "k < n" for k using name_loop_correct [OF inc, of name] that by simp
    have "key x \<noteq> name" if "x \<in> set xs" for x
    proof -
      from that obtain i where i: "i < length xs" "x = xs ! i" by (auto simp: in_set_conv_nth)
      then obtain k where "k < n" "i = ix k" using assms(2) by blast
      then show ?thesis using no i by simp
    qed
    then have "find (\<lambda>x. key x = name) xs = None" by (simp add: find_None_iff)
    then show ?thesis using None by simp
  qed
qed

lemma range_lookup_find:
  assumes "ranges_ok rs" and "snd (hd rs) = 0" and "numbers rs = map key xs"
  shows "(let rv = int_range_lookup rs v in if rv < 0 then None else Some (xs ! nat rv)) = find (\<lambda>x. key x = v) xs"
proof -
  have "(if linear_lookup (map key ys) v (int m) < 0 then None else Some ((zs @ ys) ! nat (linear_lookup (map key ys) v (int m)))) =
      find (\<lambda>x. key x = v) ys" if "length zs = m" for ys zs m
    using that
  proof (induction ys arbitrary: zs m)
    case (Cons y ys)
    then show ?case using Cons.IH [of "zs @ [y]" "Suc m"] by (auto simp: nth_append ac_simps)
  qed simp
  from this [of "[]" 0 xs] have "(if linear_lookup (map key xs) v 0 < 0 then None
      else Some (xs ! nat (linear_lookup (map key xs) v 0))) = find (\<lambda>x. key x = v) xs" by (simp split: if_splits)
  then show ?thesis using assms by (simp only: range_lookup_linear Let_def)
qed

definition message_table_ok :: "desc \<times> nat list \<Rightarrow> bool" where
  "message_table_ok = (\<lambda>(d, ix).
     desc_ok d \<and> sort ix = [0..<length (d_fields d)] \<and> names_sorted (map (\<lambda>k. fd_name (d_fields d ! k)) ix))"

definition enum_ok :: "enum_desc \<Rightarrow> bool" where
  "enum_ok e \<longleftrightarrow>
     ranges_ok (ed_ranges e) \<and> snd (hd (ed_ranges e)) = 0 \<and> numbers (ed_ranges e) = map ev_value (ed_values e) \<and>
     sort (map snd (ed_by_name e)) = [0..<length (ed_values e)] \<and> names_sorted (map fst (ed_by_name e)) \<and>
     list_all (\<lambda>(name, k). name = ev_name (ed_values e ! k)) (ed_by_name e)"

lemma names_sorted_simps [simp]:
  "names_sorted []" "names_sorted [x]"
  "names_sorted (x # y # zs) \<longleftrightarrow> strcmp x y < 0 \<and> names_sorted (y # zs)"
proof -
  have "transp (\<lambda>a b. strcmp a b < 0)" by (blast intro: transpI strcmp_trans)
  then show "names_sorted (x # y # zs) \<longleftrightarrow> strcmp x y < 0 \<and> names_sorted (y # zs)"
    unfolding names_sorted_def by (rule sorted_wrt2)
qed (simp_all add: names_sorted_def)

lemma sort_upt:
  assumes "sort ix = [0..<n]"
  shows "length ix = n" and "set ix = {..<n}" and "(!) ix ` {..<n} = {..<n}"
proof -
  show len: "length ix = n" using length_sort [of "\<lambda>x. x" ix] unfolding assms by simp
  show s: "set ix = {..<n}" using set_sort [of "\<lambda>x. x" ix] unfolding assms by (simp add: lessThan_atLeast0)
  show "(!) ix ` {..<n} = {..<n}" using List.nth_image [where xs = ix and l = n] s len by (simp add: lessThan_atLeast0)
qed

lemma field_by_name:
  assumes "message_table_ok (d, ix)"
  shows "protobuf_c_message_descriptor_get_field_by_name d ix name = find (\<lambda>f. fd_name f = name) (d_fields d)"
proof -
  have ix: "sort ix = [0..<length (d_fields d)]" "names_sorted (map (\<lambda>k. fd_name (d_fields d ! k)) ix)"
    using assms by (simp_all add: message_table_ok_def)
  have "map (\<lambda>k. fd_name (d_fields d ! (ix ! k))) [0..<length (d_fields d)] = map (\<lambda>k. fd_name (d_fields d ! k)) ix"
    using sort_upt(1) [OF ix(1)] by (auto intro: nth_equalityI)
  then show ?thesis using ix(2) sort_upt(3) [OF ix(1)]
    unfolding protobuf_c_message_descriptor_get_field_by_name_def
    by (intro name_loop_find [of fd_name "d_fields d" "(!) ix"]) simp_all
qed

lemma sint_inject: "sint a = sint b \<longleftrightarrow> a = (b :: u32)"
  by (auto intro: signed_word_eqI)

lemma field_by_number:
  assumes "desc_ok d"
  shows "protobuf_c_message_descriptor_get_field d n = find (\<lambda>f. fd_id f = n) (d_fields d)"
proof -
  have "find (\<lambda>f. sint (fd_id f) = sint n) (d_fields d) = find (\<lambda>f. fd_id f = n) (d_fields d)"
    by (simp add: sint_inject)
  then show ?thesis using assms range_lookup_find [of "d_ranges d" "\<lambda>f. sint (fd_id f)" "d_fields d" "sint n"]
    unfolding protobuf_c_message_descriptor_get_field_def desc_ok_def by simp
qed

lemma value_by_number:
  assumes "enum_ok e"
  shows "protobuf_c_enum_descriptor_get_value e v = find (\<lambda>x. ev_value x = v) (ed_values e)"
  using assms unfolding protobuf_c_enum_descriptor_get_value_def enum_ok_def by (intro range_lookup_find) simp_all

lemma value_by_name:
  assumes "enum_ok e"
  shows "protobuf_c_enum_descriptor_get_value_by_name e name = find (\<lambda>x. ev_name x = name) (ed_values e)"
proof -
  let ?ix = "map snd (ed_by_name e)"
  have ix: "sort ?ix = [0..<length (ed_values e)]" "names_sorted (map fst (ed_by_name e))"
    using assms by (simp_all add: enum_ok_def)
  have names: "fst (ed_by_name e ! k) = ev_name (ed_values e ! snd (ed_by_name e ! k))" if "k < length (ed_by_name e)" for k
    using assms that by (auto simp: enum_ok_def list_all_length split: prod.splits)
  have len: "length (ed_by_name e) = length (ed_values e)" using sort_upt(1) [OF ix(1)] by simp
  have img: "(\<lambda>k. snd (ed_by_name e ! k)) ` {..<length (ed_values e)} = {..<length (ed_values e)}"
    using sort_upt(3) [OF ix(1)] len by simp
  have same: "name_loop (\<lambda>k. fst (ed_by_name e ! k)) name 0 (length (ed_by_name e)) =
      name_loop (\<lambda>k. ev_name (ed_values e ! snd (ed_by_name e ! k))) name 0 (length (ed_by_name e))"
    by (rule name_loop_map) (simp add: names)
  have "map (\<lambda>k. ev_name (ed_values e ! snd (ed_by_name e ! k))) [0..<length (ed_values e)] = map fst (ed_by_name e)"
    using len by (auto intro: nth_equalityI simp: names)
  then show ?thesis using ix(2) img len same
    unfolding protobuf_c_enum_descriptor_get_value_by_name_def
    using name_loop_find [of ev_name "ed_values e" "\<lambda>k. snd (ed_by_name e ! k)" "length (ed_values e)" name] by simp
qed

lemma method_by_name:
  assumes "sort (sd_by_name d) = [0..<length (sd_methods d)]"
    and "names_sorted (map (\<lambda>k. md_name (sd_methods d ! k)) (sd_by_name d))"
  shows "protobuf_c_service_descriptor_get_method_by_name d name = find (\<lambda>m. md_name m = name) (sd_methods d)"
proof -
  have "map (\<lambda>k. md_name (sd_methods d ! (sd_by_name d ! k))) [0..<length (sd_methods d)] =
      map (\<lambda>k. md_name (sd_methods d ! k)) (sd_by_name d)"
    using sort_upt(1) [OF assms(1)] by (auto intro: nth_equalityI)
  then show ?thesis using assms(2) sort_upt(3) [OF assms(1)]
    unfolding protobuf_c_service_descriptor_get_method_by_name_def
    by (intro name_loop_find [of md_name "sd_methods d" "(!) (sd_by_name d)"]) simp_all
qed

lemma message_tables_ok: "list_all message_table_ok message_tables"
  by (simp add: message_table_ok_def name_tables upt_rec)

lemma enum_tables_ok: "list_all enum_ok enum_tables"
  by (simp add: enum_ok_def enum_defs upt_rec)

section \<open>Properties\<close>

text \<open>C22: In every message of the Mumble protocol the binary search for a field by its name, and the search
  by its number, find what a look at one field after the other finds, for names and numbers that exist or not;
  so do the searches for the values of every enumeration. The generated tables are sorted the way the
  search needs.\<close>

theorem lookups_find_entries:
  "(\<forall>(d, ix) \<in> set message_tables. \<forall>name n.
      protobuf_c_message_descriptor_get_field_by_name d ix name = find (\<lambda>f. fd_name f = name) (d_fields d) \<and>
      protobuf_c_message_descriptor_get_field d n = find (\<lambda>f. fd_id f = n) (d_fields d)) \<and>
   (\<forall>e \<in> set enum_tables. \<forall>name v.
      protobuf_c_enum_descriptor_get_value_by_name e name = find (\<lambda>x. ev_name x = name) (ed_values e) \<and>
      protobuf_c_enum_descriptor_get_value e v = find (\<lambda>x. ev_value x = v) (ed_values e))"
proof (intro conjI ballI, clarify)
  fix d ix name n assume "(d, ix) \<in> set message_tables"
  then have "message_table_ok (d, ix)" using message_tables_ok by (auto simp: list_all_iff)
  moreover from this have "desc_ok d" by (simp add: message_table_ok_def)
  ultimately show "protobuf_c_message_descriptor_get_field_by_name d ix name = find (\<lambda>f. fd_name f = name) (d_fields d) \<and>
      protobuf_c_message_descriptor_get_field d n = find (\<lambda>f. fd_id f = n) (d_fields d)"
    using field_by_name field_by_number by blast
next
  fix e assume "e \<in> set enum_tables"
  then have "enum_ok e" using enum_tables_ok by (auto simp: list_all_iff)
  then show "\<forall>name v. protobuf_c_enum_descriptor_get_value_by_name e name = find (\<lambda>x. ev_name x = name) (ed_values e) \<and>
      protobuf_c_enum_descriptor_get_value e v = find (\<lambda>x. ev_value x = v) (ed_values e)"
    using value_by_name value_by_number by blast
qed

theorem lookups_find_entries_witness:
  "protobuf_c_message_descriptor_get_field_by_name mumble_proto__ping__descriptor
     mumble_proto__ping__field_indices_by_name ''late'' = Some (Field ''late'' 3 OPTIONAL T_UINT32 True None) \<and>
   protobuf_c_enum_descriptor_get_value mumble_proto__context_action_add__context__descriptor 3 = None \<and>
   protobuf_c_enum_descriptor_get_value_by_name mumble_proto__context_action_add__context__descriptor ''User'' =
     Some (EnumValue ''User'' ''MUMBLE_PROTO__CONTEXT_ACTION_ADD__CONTEXT__USER'' 4)"
proof -
  have "(mumble_proto__ping__descriptor, mumble_proto__ping__field_indices_by_name) \<in> set message_tables"
    "mumble_proto__context_action_add__context__descriptor \<in> set enum_tables"
    by (simp_all add: message_tables_def enum_tables_def)
  then show ?thesis using lookups_find_entries
    by (auto simp: mumble_proto__ping__field_descriptors_def mumble_proto__ping__descriptor_def
        mumble_proto__context_action_add__context__descriptor_def
        mumble_proto__context_action_add__context__enum_values_by_number_def)
qed

end
