(* ===== verification/Reading.thy ===== *)
theory Reading
  imports Admission PbNet
begin

text \<open>
  From the bytes of a TLS stream to the handler and back: a protobuf message that arrives
  with its preamble in any pieces and its body in one is handed to the handler, a ping is
  answered, and a body that arrives in two pieces makes the server write behind the end of
  its receive buffer.
\<close>

section \<open>What arrives\<close>

text \<open>A connected client between two messages.\<close>

definition listening :: "client \<Rightarrow> bool" where
  "listening cl \<longleftrightarrow> c_SSLready cl \<and> \<not> c_writeBlockedOnRead cl \<and> \<not> c_shutdown_wait cl \<and>
     c_rxcount cl = 0 \<and> c_msgsize cl = 0 \<and> length (c_rxbuf cl) = BUFSIZE"

text \<open>The next reads return the chunks, and after each but the last one there is more to read.\<close>

definition arrives :: "tls \<Rightarrow> byte list list \<Rightarrow> bool" where
  "arrives t chunks \<longleftrightarrow>
     (\<forall>i < length chunks. tls_read t (tls_rn t + i) = RData (chunks ! i)) \<and>
     (\<forall>i. Suc i < length chunks \<longrightarrow> tls_pending t (tls_pn t + i))"

definition took :: "nat \<Rightarrow> nat \<Rightarrow> tls \<Rightarrow> tls" where
  "took r p t = t\<lparr>tls_rn := tls_rn t + r, tls_pn := tls_pn t + p\<rparr>"

lemma took_simps [simp]:
  "tls_read (took r p t) = tls_read t" "tls_pending (took r p t) = tls_pending t"
  "tls_rn (took r p t) = tls_rn t + r" "tls_pn (took r p t) = tls_pn t + p"
  "tls_write (took r p t) = tls_write t" "tls_wn (took r p t) = tls_wn t"
  "took r p (took r' p' t) = took (r' + r) (p' + p) t"
  by (simp_all add: took_def)

lemma arrives_Cons:
  "arrives t (h # hs) \<longleftrightarrow> tls_read t (tls_rn t) = RData h \<and> (hs \<noteq> [] \<longrightarrow> tls_pending t (tls_pn t)) \<and>
     arrives (took 1 1 t) hs"
proof -
  have "(\<forall>i < length (h # hs). tls_read t (tls_rn t + i) = RData ((h # hs) ! i)) \<longleftrightarrow>
      tls_read t (tls_rn t) = RData h \<and> (\<forall>i < length hs. tls_read t (Suc (tls_rn t) + i) = RData (hs ! i))"
    by (simp add: All_less_Suc2)
  moreover have "(\<forall>i. Suc i < length (h # hs) \<longrightarrow> tls_pending t (tls_pn t + i)) \<longleftrightarrow>
      (hs \<noteq> [] \<longrightarrow> tls_pending t (tls_pn t)) \<and> (\<forall>i. Suc i < length hs \<longrightarrow> tls_pending t (Suc (tls_pn t) + i))"
    by (auto simp: less_Suc_eq_0_disj all_conj_distrib dest: spec [of _ 0] gr_implies_not0 split: nat.splits)
      (metis add_Suc_right add_Suc Suc_less_eq not0_implies_Suc add.right_neutral)+
  ultimately show ?thesis by (auto simp: arrives_def)
qed

text \<open>What the loop has done to the world: the client's record and the counters of the stream.\<close>

definition fed :: "cref \<Rightarrow> client \<Rightarrow> nat \<Rightarrow> nat \<Rightarrow> world \<Rightarrow> world" where
  "fed c cl r p w = (put_client c cl w)\<lparr>w_tls := took r p (w_tls w)\<rparr>"

lemma fed_simps [simp]:
  "w_cstore (fed c cl r p w) = (w_cstore w)(c \<mapsto> cl)" "w_tls (fed c cl r p w) = took r p (w_tls w)"
  "fed c cl' r' p' (fed c cl r p w) = fed c cl' (r + r') (p + p') w"
  "put_client c cl' (fed c cl r p w) = fed c cl' r p w"
  "w_ext (fed c cl r p w) = w_ext w" "w_next (fed c cl r p w) = w_next w" "w_mstore (fed c cl r p w) = w_mstore w"
  "w_out (fed c cl r p w) = w_out w"
  by (simp_all add: fed_def put_client_def)

section \<open>One read\<close>

lemma SSLi_read_data:
  assumes "tls_read (w_tls w) (tls_rn (w_tls w)) = RData bytes" and "take len bytes \<noteq> []"
  shows "SSLi_read len w = Inr (Inr (take len bytes), w\<lparr>w_tls := took 1 0 (w_tls w)\<rparr>)"
  using assms by (simp add: SSLi_read_def bnd_def prog_simps took_def)

definition asked :: "client \<Rightarrow> nat" where
  "asked cl = (if c_msgsize cl = 0 then 6 - c_rxcount cl else c_msgsize cl)"

definition after_read :: "transport \<Rightarrow> cref \<Rightarrow> client \<Rightarrow> (world, round) prog" where
  "after_read send c cl =
     (if c_msgsize cl > BUFSIZE - 6 then bnd (Client_free send c) (\<lambda>_. ret Return)
      else if c_rxcount cl = c_msgsize cl + 6 then deliver send c cl
      else ret Again)"

lemma got_bytes_app:
  assumes "w_cstore w c = Some cl"
  shows "got_bytes send c bytes w =
    (if c_rxcount cl + length bytes > BUFSIZE then Inl OutOfBounds
     else after_read send c (received bytes cl) (put_client c (received bytes cl) w))"
  using assms by (simp add: got_bytes_def after_read_def bnd_def get_client_app upd_client_app fail_app)

lemma read_round_data:
  assumes "w_cstore w c = Some cl" and "c_msgsize cl = 0 \<Longrightarrow> c_rxcount cl \<le> 6"
    and "tls_read (w_tls w) (tls_rn (w_tls w)) = RData bytes" and "take (asked cl) bytes \<noteq> []"
  shows "read_round send c w =
    (if c_rxcount cl + length (take (asked cl) bytes) > BUFSIZE then Inl OutOfBounds
     else after_read send c (received (take (asked cl) bytes) cl)
       (fed c (received (take (asked cl) bytes) cl) 1 0 w))"
proof -
  let ?bs = "take (asked cl) bytes"
  let ?w = "w\<lparr>w_tls := took 1 0 (w_tls w)\<rparr>"
  have r: "SSLi_read (asked cl) w = Inr (Inr ?bs, ?w)"
    by (rule SSLi_read_data) (rule assms)+
  have c: "w_cstore ?w c = Some cl" using assms(1) by simp
  have u: "put_client c (received ?bs cl) ?w = fed c (received ?bs cl) 1 0 w"
    by (simp add: fed_def put_client_def)
  have g: "got_bytes send c ?bs ?w = (if c_rxcount cl + length ?bs > BUFSIZE then Inl OutOfBounds
     else after_read send c (received ?bs cl) (fed c (received ?bs cl) 1 0 w))"
    using got_bytes_app [OF c, of send ?bs] by (simp only: u)
  have "read_round send c w = got_bytes send c ?bs ?w"
    using assms(1,2) r by (auto simp: read_round_def asked_def bnd_def get_client_app split: if_splits)
  then show ?thesis by (simp only: g)
qed

text \<open>The test at the end of a round.\<close>

definition next_round :: "transport \<Rightarrow> cref \<Rightarrow> nat \<Rightarrow> (world, unit) prog" where
  "next_round send c k = bnd SSLi_data_pending (\<lambda>pending. if pending then read_loop send c k else ret ())"

lemma next_round_app:
  "next_round send c k w =
     (if tls_pending (w_tls w) (tls_pn (w_tls w)) then read_loop send c k else ret ()) (w\<lparr>w_tls := took 0 1 (w_tls w)\<rparr>)"
  by (simp add: next_round_def SSLi_data_pending_def bnd_def prog_simps took_def)

lemma next_round_more:
  "tls_pending (w_tls w) (tls_pn (w_tls w)) \<Longrightarrow> next_round send c k w = read_loop send c k (w\<lparr>w_tls := took 0 1 (w_tls w)\<rparr>)"
  by (simp add: next_round_app)

lemma next_round_no_more:
  "\<not> tls_pending (w_tls w) (tls_pn (w_tls w)) \<Longrightarrow> next_round send c k w = Inr ((), w\<lparr>w_tls := took 0 1 (w_tls w)\<rparr>)"
  by (simp add: next_round_app ret_app)

lemma read_loop_Suc:
  "read_loop send c (Suc k) = bnd (read_round send c) (\<lambda>r. if r = Return then ret () else next_round send c k)"
  by (simp only: read_loop.simps next_round_def)

lemma read_loop_again:
  assumes "read_round send c w = ret Again w'"
  shows "read_loop send c (Suc k) w = next_round send c k w'"
  using assms by (simp add: bnd_Inr ret_app next_round_def)

section \<open>The preamble in pieces\<close>

text \<open>The client's record when the bytes are in its buffer.\<close>

definition holding :: "byte list \<Rightarrow> client \<Rightarrow> client" where
  "holding bs cl = cl\<lparr>c_rxbuf := overwrite (c_rxbuf cl) 0 bs, c_rxcount := length bs,
     c_msgsize := (if length bs \<ge> 6 then announced_size bs else 0)\<rparr>"

lemma announced_size_prefix: "take 6 bs = take 6 bs' \<Longrightarrow> announced_size bs = announced_size bs'"
proof -
  assume "take 6 bs = take 6 bs'"
  moreover have "take 4 (drop 2 xs) = drop 2 (take 6 xs)" for xs :: "byte list" by (simp add: drop_take)
  ultimately show ?thesis by (simp add: announced_size_def)
qed

lemma received_holding:
  assumes "length (c_rxbuf cl) = BUFSIZE" and "length pre + length bs \<le> BUFSIZE"
  shows "received bs (holding pre cl) = holding (pre @ bs) cl"
proof -
  have "overwrite (overwrite (c_rxbuf cl) 0 pre) (0 + length pre) bs = overwrite (c_rxbuf cl) 0 (pre @ bs)"
    using assms by (intro overwrite_overwrite) simp
  moreover have "announced_size (overwrite (c_rxbuf cl) 0 (pre @ bs)) = announced_size (pre @ bs)"
    if "6 \<le> length (pre @ bs)"
    by (rule announced_size_prefix) (use that assms in \<open>auto simp: overwrite_def\<close>)
  moreover have "announced_size (pre @ bs) = announced_size pre" if "6 \<le> length pre"
    by (rule announced_size_prefix) (use that in simp)
  ultimately show ?thesis by (simp add: received_def holding_def Let_def)
qed

lemma read_round_holding:
  assumes "w_cstore w c = Some (holding pre cl)" and "length (c_rxbuf cl) = BUFSIZE" and "length pre \<le> 6"
    and "length (pre @ bs) \<le> BUFSIZE" and "bs \<noteq> []" and "take (asked (holding pre cl)) bs = bs"
    and "tls_read (w_tls w) (tls_rn (w_tls w)) = RData bs"
  shows "read_round send c w = after_read send c (holding (pre @ bs) cl) (fed c (holding (pre @ bs) cl) 1 0 w)"
proof -
  have r: "received bs (holding pre cl) = holding (pre @ bs) cl"
    using assms(2,4) by (intro received_holding) simp_all
  have n: "c_rxcount (holding pre cl) = length pre" by (simp add: holding_def)
  then have "c_rxcount (holding pre cl) \<le> 6" using assms(3) by simp
  from read_round_data [OF assms(1) this assms(7), of send] show ?thesis
    using assms(4,5) by (simp add: assms(6) r n)
qed

lemma preamble_pieces:
  assumes "w_cstore w c = Some (holding pre cl)" and "length (c_rxbuf cl) = BUFSIZE"
    and "length (pre @ concat hs) < 6" and "[] \<notin> set hs"
    and "arrives (w_tls w) (hs @ hs')" and "hs' \<noteq> []"
  shows "read_loop send c (length hs + k) w =
    read_loop send c k (fed c (holding (pre @ concat hs) cl) (length hs) (length hs) w)"
  using assms
proof (induction hs arbitrary: w pre)
  case Nil
  then show ?case by (simp add: fed_def put_client_def took_def fun_upd_idem)
next
  case (Cons h hs)
  have a: "tls_read (w_tls w) (tls_rn (w_tls w)) = RData h" "tls_pending (w_tls w) (tls_pn (w_tls w))"
    "arrives (took 1 1 (w_tls w)) (hs @ hs')"
    using Cons.prems(5,6) by (simp_all add: arrives_Cons)
  have sz: "length pre + length h < 6" "h \<noteq> []" using Cons.prems(3,4) by auto
  obtain x where x: "x = holding pre cl" "c_msgsize x = 0" "c_rxcount x = length pre"
    using sz by (simp add: holding_def)
  then have t: "take (asked x) h = h" using sz by (simp add: asked_def)
  have "read_round send c w = after_read send c (holding (pre @ h) cl) (fed c (holding (pre @ h) cl) 1 0 w)"
    by (rule read_round_holding) (use Cons.prems t x(1) sz a(1) in simp_all)
  also have "\<dots> = ret Again (fed c (holding (pre @ h) cl) 1 0 w)"
    using sz by (simp add: after_read_def holding_def)
  finally have "read_loop send c (length (h # hs) + k) w = next_round send c (length hs + k) (fed c (holding (pre @ h) cl) 1 0 w)"
    by (simp add: read_loop_again del: read_loop.simps)
  also have "\<dots> = read_loop send c (length hs + k) (fed c (holding (pre @ h) cl) 1 1 w)"
    using a(2) by (subst next_round_more) (simp_all add: fed_def put_client_def)
  also have "\<dots> = read_loop send c k (fed c (holding ((pre @ h) @ concat hs) cl) (length hs) (length hs) (fed c (holding (pre @ h) cl) 1 1 w))"
    by (rule Cons.IH) (use Cons.prems a in simp_all)
  finally show ?case by (simp add: add.commute)
qed

section \<open>A whole message\<close>

text \<open>What the loop does with a complete message.\<close>

definition hand_over :: "transport \<Rightarrow> cref \<Rightarrow> byte list \<Rightarrow> (world, unit) prog" where
  "hand_over send c frame =
     bnd (Msg_networkToMessage frame) (\<lambda>msg.
     bnd (case msg of None \<Rightarrow> ret () | Some m \<Rightarrow> Mh_handle_message send c m) (\<lambda>_.
     upd_client c (\<lambda>cl. cl\<lparr>c_rxcount := 0, c_msgsize := 0\<rparr>)))"

lemma deliver_holding:
  assumes "length (c_rxbuf cl) = BUFSIZE" and "length frame \<le> BUFSIZE" and "length frame = announced_size frame + 6"
  shows "bnd (deliver send c (holding frame cl)) f = bnd (hand_over send c frame) (\<lambda>_. f Again)"
proof -
  have "take (announced_size frame + 6) (overwrite (c_rxbuf cl) 0 frame) = frame"
    using take_overwrite [of 0 frame "c_rxbuf cl"] assms by simp
  then show ?thesis
    using assms(3) by (simp add: deliver_def hand_over_def holding_def bnd_assoc)
qed

lemma read_loop_complete:
  assumes "w_cstore w c = Some (holding pre cl)" and "length (c_rxbuf cl) = BUFSIZE" and "length pre \<le> 6"
    and "length (pre @ bs) \<le> BUFSIZE" and "length (pre @ bs) = announced_size (pre @ bs) + 6" and "bs \<noteq> []"
    and "tls_read (w_tls w) (tls_rn (w_tls w)) = RData bs" and "length pre < 6 \<Longrightarrow> announced_size (pre @ bs) = 0"
  shows "read_loop send c (Suc k) w =
    bnd (hand_over send c (pre @ bs)) (\<lambda>_. next_round send c k) (fed c (holding (pre @ bs) cl) 1 0 w)"
proof -
  have "announced_size (pre @ bs) = announced_size pre" if "length pre = 6"
    by (rule announced_size_prefix) (use that in simp)
  moreover obtain x where x: "x = holding pre cl" "c_rxcount x = length pre"
    "c_msgsize x = (if length pre \<ge> 6 then announced_size pre else 0)"
    by (simp add: holding_def)
  ultimately have t: "take (asked x) bs = bs"
    using assms(3,5,6,8) by (auto simp: asked_def not_less simp flip: length_greater_0_conv)
  have "read_round send c w = after_read send c (holding (pre @ bs) cl) (fed c (holding (pre @ bs) cl) 1 0 w)"
    by (rule read_round_holding) (use assms t x(1) in simp_all)
  also have "after_read send c (holding (pre @ bs) cl) = deliver send c (holding (pre @ bs) cl)"
    using assms(4,5) by (simp add: after_read_def holding_def)
  finally have "read_loop send c (Suc k) w =
      bnd (deliver send c (holding (pre @ bs) cl)) (\<lambda>r. if r = Return then ret () else next_round send c k)
        (fed c (holding (pre @ bs) cl) 1 0 w)"
    by (simp add: read_loop_Suc bnd_def del: read_loop.simps)
  then show ?thesis using assms(2,4,5) by (simp add: deliver_holding)
qed

lemma arrives_append: "arrives t (xs @ ys) \<Longrightarrow> arrives (took (length xs) (length xs) t) ys"
proof (induction xs arbitrary: t)
  case (Cons x xs)
  from Cons.IH [of "took 1 1 t"] Cons.prems show ?case by (simp add: arrives_Cons)
qed (simp add: took_def)

lemma read_frame:
  fixes body :: "byte list"
  defines "tailing \<equiv> (if body = [] then [] else [body])"
  assumes "w_cstore w c = Some cl" and "listening cl"
    and "length (concat hs) = 6" and "[] \<notin> set hs" and "announced_size (concat hs) = length body"
    and "length body \<le> BUFSIZE - 6" and "arrives (w_tls w) (hs @ tailing)"
  shows "read_loop send c (length (hs @ tailing) + k) w =
    bnd (hand_over send c (concat hs @ body)) (\<lambda>_. next_round send c k)
      (fed c (holding (concat hs @ body) cl) (length (hs @ tailing)) (length (hs @ tailing) - 1) w)"
proof -
  obtain gs h where hs: "hs = gs @ [h]" using assms(4) by (cases hs rule: rev_cases) auto
  have h: "h \<noteq> []" "[] \<notin> set gs" using assms(5) hs by auto
  then have "0 < length h" by simp
  then have h3: "length (concat gs) < 6" using assms(4) unfolding hs by (simp del: length_greater_0_conv)
  have len: "length (c_rxbuf cl) = BUFSIZE" using assms(3) by (simp add: listening_def)
  have cl: "holding [] cl = cl" using assms(3) by (simp add: listening_def holding_def)
  have arr: "arrives (w_tls w) (gs @ (h # tailing))" using assms(8) hs by simp
  have arr2: "arrives (took (length gs) (length gs) (w_tls w)) (h # tailing)"
    using arr by (rule arrives_append)
  let ?w1 = "fed c (holding (concat gs) cl) (length gs) (length gs) w"
  have one: "read_loop send c (length gs + j) w = read_loop send c j ?w1" for j
    using preamble_pieces [of w c "[]" cl gs "h # tailing" send j] assms(2) len h h3 arr by (simp add: cl)
  have w1: "w_cstore ?w1 c = Some (holding (concat gs) cl)" by simp
  have h1: "tls_read (w_tls ?w1) (tls_rn (w_tls ?w1)) = RData h" using arr2 by (simp add: arrives_Cons)
  have pre: "concat gs @ h = concat hs" by (simp add: hs)
  have six: "length (concat gs) + length h = 6" using assms(4) by (simp add: hs)
  have sz: "announced_size (concat hs @ bs) = length body" for bs
    using announced_size_prefix [of "concat hs @ bs" "concat hs"] assms(4,6) by simp
  have n: "length (hs @ tailing) = length gs + (if body = [] then 1 else 2)"
    "length (hs @ tailing) - 1 = length gs + (if body = [] then 0 else 1)" "length hs = length gs + 1"
    by (simp_all add: hs tailing_def)
  show ?thesis
  proof (cases "body = []")
    case True
    have "read_loop send c (Suc k) ?w1 =
        bnd (hand_over send c (concat gs @ h)) (\<lambda>_. next_round send c k) (fed c (holding (concat gs @ h) cl) 1 0 ?w1)"
      by (rule read_loop_complete [OF w1 len])
        (use h h3 h1 assms(4) sz [of "[]"] True in \<open>simp_all add: pre\<close>)
    then show ?thesis
      using one [of "Suc k"] True unfolding pre n by (simp add: add.commute del: read_loop.simps)
  next
    case False
    let ?x = "holding (concat hs) cl"
    let ?w2 = "fed c ?x (length hs) (length hs) w"
    have a: "take (asked (holding (concat gs) cl)) h = h"
      using h3 six by (simp add: asked_def holding_def)
    have "read_round send c ?w1 = after_read send c ?x (fed c ?x 1 0 ?w1)"
      using read_round_holding [OF w1 len _ _ h(1) a h1, of send] h3 assms(4) by (simp add: pre)
    also have "\<dots> = ret Again (fed c ?x 1 0 ?w1)"
      using sz [of "[]"] False assms(4,7) by (simp add: after_read_def holding_def)
    finally have "read_loop send c (Suc (Suc k)) ?w1 = next_round send c (Suc k) (fed c ?x 1 0 ?w1)"
      by (rule read_loop_again)
    also have "\<dots> = read_loop send c (Suc k) ?w2"
      using arr2 False by (subst next_round_more) (simp_all add: arrives_Cons tailing_def fed_def put_client_def hs add.commute)
    also have "\<dots> = bnd (hand_over send c (concat hs @ body)) (\<lambda>_. next_round send c k)
        (fed c (holding (concat hs @ body) cl) 1 0 ?w2)"
      by (rule read_loop_complete)
        (use len assms(4,7) sz [of body] False arr2 in \<open>simp_all add: arrives_Cons tailing_def hs\<close>)
    finally show ?thesis
      using one [of "Suc (Suc k)"] False unfolding n by (simp add: add.commute del: read_loop.simps)
  qed
qed

section \<open>Protobuf messages\<close>

lemma load_be_u32:
  "load_be [ucast (drop_bit 24 l AND 0xff), ucast (drop_bit 16 l AND 0xff), ucast (drop_bit 8 l AND 0xff),
     ucast (l AND 0xff)] = ucast (l :: u32)"
proof -
  have "be_bytes 4 (ucast l) = [ucast (drop_bit 24 l AND 0xff), ucast (drop_bit 16 l AND 0xff),
      ucast (drop_bit 8 l AND 0xff), ucast (l AND 0xff)]"
    unfolding be_bytes_numeral
    by (intro arg_cong2 [where f = "(#)"] refl; rule bit_word_eqI) (auto simp: bit_simps)
  moreover have "drop_bit (8 * 4) (ucast l :: u64) = 0"
    by (rule bit_word_eqI) (auto simp: bit_simps dest: bit_imp_le_length)
  ultimately show ?thesis using foldl_be_bytes [of 4 "ucast l"] by (simp add: load_be_def)
qed

lemma announced_wire:
  assumes "length (body_of x p) \<le> MAX_MSGSIZE"
  shows "announced_size (take 6 (wire x p)) = length (body_of x p)"
proof -
  have "take 4 (drop 2 (take 6 (wire x p))) =
     (let l = of_nat (length (body_of x p)) :: u32 in
      [ucast (drop_bit 24 l AND 0xff), ucast (drop_bit 16 l AND 0xff), ucast (drop_bit 8 l AND 0xff), ucast (l AND 0xff)])"
    by (simp add: wire_def Let_def)
  moreover have "unat (ucast (of_nat (length (body_of x p)) :: u32) :: u64) = length (body_of x p)"
    using assms by (simp add: unsigned_ucast_eq unsigned_of_nat take_bit_nat_eq_self)
  ultimately show ?thesis by (simp only: announced_size_def Let_def load_be_u32)
qed

lemma wire_parts: "wire x p = take 6 (wire x p) @ body_of x p" "length (take 6 (wire x p)) = 6"
  by (simp_all add: wire_def Let_def)

lemma wire_read:
  assumes "protobuf (w_ext w)" and "payload_ok p" and "receivable (type_of p)"
    and "length (body_of (w_ext w) p) \<le> MAX_MSGSIZE"
  shows "\<exists>b. Msg_networkToMessage (wire (w_ext w) p) w = Inr (Some (w_next w), w\<lparr>w_next := Suc (w_next w),
    w_mstore := (w_mstore w)(w_next w \<mapsto> \<lparr>m_refcount = 1, m_unpacked = b, m_payload = p\<rparr>)\<rparr>)"
proof -
  let ?bs = "body_of (w_ext w) p" and ?buf = "replicate BUFSIZE (0 :: byte)"
  let ?sent = "overwrite (Msg_addPreamble ?buf (of_nat (type_num (type_of p))) (of_nat (length ?bs))) 6 ?bs"
  have np: "\<forall>t. p \<noteq> P_none t" using assms(2) by (auto simp: payload_ok_def)
  have sent: "Msg_messageToNetwork (w_ext w) p ?buf = Inr (length ?bs + 6, ?sent)"
    by (rule messageToNetwork_fits [OF assms(4) np])
  have "take (6 + length ?bs) ?sent = take 6 (Msg_addPreamble ?buf (of_nat (type_num (type_of p))) (of_nat (length ?bs))) @ ?bs"
    using assms(4) by (intro take_overwrite) simp
  then have same: "take (length ?bs + 6) (wire (w_ext w) p) = take (length ?bs + 6) ?sent"
    by (simp add: take_preamble wire_def Let_def add.commute)
  have pb: "pack (w_ext w) = payload_pack" "unpack (w_ext w) = payload_unpack"
    using assms(1) by (simp_all add: protobuf_def)
  have "payload_ok p \<and> length (payload_pack p) < 2 ^ 32 - 5"
    using assms(2) packed_body [OF assms(2,1)] assms(4) by simp
  from pb.crosses_network_world [OF assms(3) np assms(4) pb this _ sent same] show ?thesis by simp
qed

text \<open>The client's record when its activity has been noted, and the world in which the message has been read.\<close>

definition stirred :: "u64 \<Rightarrow> client \<Rightarrow> client" where
  "stirred now cl = cl\<lparr>c_lastActivity := snd (Timer_restart now (c_lastActivity cl))\<rparr>"

definition read_in :: "cref \<Rightarrow> client \<Rightarrow> payload \<Rightarrow> bool \<Rightarrow> nat \<Rightarrow> world \<Rightarrow> world" where
  "read_in c cl p b n w = (fed c (holding (wire (w_ext w) p) (stirred (w_now w) cl)) n (n - 1) w)
     \<lparr>w_next := Suc (w_next w),
      w_mstore := (w_mstore w)(w_next w \<mapsto> \<lparr>m_refcount = 1, m_unpacked = b, m_payload = p\<rparr>)\<rparr>"

definition pieces :: "byte list list \<Rightarrow> byte list \<Rightarrow> byte list list" where
  "pieces hs body = hs @ (if body = [] then [] else [body])"

text \<open>The end of a round after the handler.\<close>

definition finish_read :: "transport \<Rightarrow> cref \<Rightarrow> nat \<Rightarrow> (world, unit) prog" where
  "finish_read send c k =
     bnd (upd_client c (\<lambda>cl. cl\<lparr>c_rxcount := 0, c_msgsize := 0\<rparr>)) (\<lambda>_. next_round send c k)"

lemma Client_read_listening:
  assumes "w_cstore w c = Some cl" and "listening cl"
  shows "Client_read (Suc n) c w = read_loop (Client_send_message n) c n (put_client c (stirred (w_now w) cl) w)"
  using assms
  by (simp add: read_body_def accept_first_def listening_def bnd_def prog_simps upd_client_app get_client_app put_client_def
      stirred_def)

lemma read_message:
  assumes "protobuf (w_ext w)" and "payload_ok p" and "receivable (type_of p)"
    and "length (body_of (w_ext w) p) \<le> MAX_MSGSIZE"
    and "w_cstore w c = Some cl" and "listening cl"
    and "concat hs = take 6 (wire (w_ext w) p)" and "[] \<notin> set hs"
    and "arrives (w_tls w) (pieces hs (body_of (w_ext w) p))"
    and "n = length (pieces hs (body_of (w_ext w) p))"
  shows "\<exists>b. Client_read (Suc (n + k)) c w =
    bnd (Mh_handle_message (Client_send_message (n + k)) c (w_next w))
      (\<lambda>_. finish_read (Client_send_message (n + k)) c k) (read_in c cl p b n w)"
proof -
  let ?send = "Client_send_message (n + k)" and ?cl = "stirred (w_now w) cl" and ?bs = "body_of (w_ext w) p"
  let ?w0 = "put_client c ?cl w"
  let ?w1 = "fed c (holding (wire (w_ext w) p) ?cl) n (n - 1) ?w0"
  have l: "listening ?cl" using assms(6) by (simp add: listening_def stirred_def)
  have tail: "hs @ (if ?bs = [] then [] else [?bs]) = pieces hs ?bs" by (simp add: pieces_def)
  have "read_loop ?send c (n + k) ?w0 = bnd (hand_over ?send c (concat hs @ ?bs)) (\<lambda>_. next_round ?send c k)
      (fed c (holding (concat hs @ ?bs) ?cl) n (n - 1) ?w0)"
    using read_frame [of ?w0 c ?cl hs ?bs ?send k] assms(4,7-10) l announced_wire [OF assms(4)] wire_parts(2)
    by (simp add: tail put_client_def del: read_loop.simps)
  then have run: "Client_read (Suc (n + k)) c w = bnd (hand_over ?send c (wire (w_ext w) p)) (\<lambda>_. next_round ?send c k) ?w1"
    using Client_read_listening [OF assms(5,6), of "n + k"] assms(7) wire_parts(1) by metis
  have "w_ext ?w1 = w_ext w" by (simp add: put_client_def)
  then obtain b where "Msg_networkToMessage (wire (w_ext w) p) ?w1 = Inr (Some (w_next ?w1), ?w1\<lparr>w_next := Suc (w_next ?w1),
    w_mstore := (w_mstore ?w1)(w_next ?w1 \<mapsto> \<lparr>m_refcount = 1, m_unpacked = b, m_payload = p\<rparr>)\<rparr>)"
    using wire_read [of ?w1 p] assms(1-4) by auto
  then have "Msg_networkToMessage (wire (w_ext w) p) ?w1 = Inr (Some (w_next w), read_in c cl p b n w)"
    by (simp add: read_in_def fed_def put_client_def)
  then show ?thesis
    using run by (intro exI [of _ b]) (simp add: hand_over_def bnd_assoc bnd_Inr finish_read_def)
qed

section \<open>A ping\<close>

text \<open>A message of optional numbers is small.\<close>

lemma small_fields:
  assumes "\<forall>f \<in> set fs. fd_label f = OPTIONAL \<and> fd_type f \<notin> {T_STRING, T_BYTES} \<and> (\<forall>d. fd_type f \<noteq> T_MESSAGE d)"
  shows "fields_size msize fs ss \<le> 15 * length fs"
proof -
  have "field_size msize f s \<le> 15" if "f \<in> set fs" for f s
  proof -
    have "get_tag_size v \<le> 5" for v by (simp add: get_tag_size_def)
    moreover have "value_size msize (fd_type f) v \<le> 10" for v
      using assms that
      by (cases "fd_type f") (auto simp: value_size_def uint32_size_def uint64_size_def int32_size_def sint32_size_def
          sint64_size_def Let_def)
    ultimately have "required_field_get_packed_size msize f v \<le> 5 + 10" for v
      unfolding required_field_get_packed_size_def by (rule add_mono)
    then show ?thesis using assms that by (auto simp: field_size_def optional_field_get_packed_size_def)
  qed
  then have "fields_size msize fs ss \<le> sum_list (map (\<lambda>_. 15) (zip fs ss))"
    unfolding fields_size_def by (intro sum_list_mono) (auto dest: set_zip_leftD)
  then show ?thesis by (simp add: sum_list_triv)
qed

lemma ping_small: "length (payload_pack (P_Ping q)) \<le> 165"
  using small_fields [of mumble_proto__ping__field_descriptors protobuf_c_message_get_packed_size]
  by (simp add: mumble_proto__ping__pack_def Ping_msg_def packed_length mumble_proto__ping__field_descriptors_def
      del: protobuf_c_message_pack.simps)

lemma handle_Ping_ready:
  assumes "accepting w" and "w_cstore w c = Some cl" and "ready cl"
    and "sendable (w_ext w) (P_Ping (ping_answer q (c_cryptState cl)))"
  shows "\<exists>b. length b = BUFSIZE \<and> handle_Ping (Client_send_message (Suc (Suc n))) c q w =
    Inr ((), w\<lparr>w_cstore := (w_cstore w)(c \<mapsto> wrote (ping_client q cl) b), w_next := Suc (w_next w),
      w_mstore := (w_mstore w)(w_next w := None),
      w_tls := (w_tls w)\<lparr>tls_wn := Suc (tls_wn (w_tls w))\<rparr>,
      w_out := w_out w @ [TlsOut (c_tcpfd cl) (wire (w_ext w) (P_Ping (ping_answer q (c_cryptState cl))))]\<rparr>)"
proof -
  let ?cl = "ping_client q cl" and ?m = "w_next w"
  have same: "ping_answer q (c_cryptState ?cl) = ping_answer q (c_cryptState cl)"
    by (simp add: ping_answer_def ping_client_def ping_crypt_def)
  let ?p = "P_Ping (ping_answer q (c_cryptState cl))"
  let ?msg = "\<lparr>m_refcount = 1, m_unpacked = False, m_payload = ?p\<rparr>"
  let ?w = "(put_client c ?cl w)\<lparr>w_next := Suc ?m, w_mstore := (w_mstore w)(?m \<mapsto> ?msg)\<rparr>"
  have run: "handle_Ping send c q w = send c ?m ?w" for send
    using assms(2) by (simp add: handle_Ping_def bnd_def upd_client_app get_client_app put_client_def compose_ok same)
  have a: "accepting ?w" "w_cstore ?w c = Some ?cl" "idle ?cl" "length (c_txbuf ?cl) = BUFSIZE"
    "w_mstore ?w ?m = Some ?msg" "sendable (w_ext ?w) (m_payload ?msg)"
    "c_authenticated ?cl \<or> type_of (m_payload ?msg) = Version"
    using assms by (simp_all add: accepting_def put_client_def ready_def idle_def ping_client_def)
  from send_idle [OF a, of n] obtain b where b: "length b = BUFSIZE"
    and s: "Client_send_message (Suc (Suc n)) c ?m ?w = Inr ((), spend ?m ?msg ((put_client c (wrote ?cl b) ?w)
      \<lparr>w_tls := (w_tls ?w)\<lparr>tls_wn := Suc (tls_wn (w_tls ?w))\<rparr>,
       w_out := w_out ?w @ [TlsOut (c_tcpfd ?cl) (wire (w_ext ?w) (m_payload ?msg))]\<rparr>))" by blast
  have fd: "c_tcpfd ?cl = c_tcpfd cl" by (simp add: ping_client_def)
  show ?thesis
    unfolding run s by (intro exI [of _ b]) (simp add: b spend_def put_client_def fd)
qed

text \<open>What remains of the message in the server: the ping's statistics and an empty receive buffer.\<close>

lemma ping_handled:
  assumes "accepting w" and "w_cstore w c = Some cl" and "ready cl" and "protobuf (w_ext w)"
    and "w_mstore w m = Some \<lparr>m_refcount = 1, m_unpacked = u, m_payload = P_Ping q\<rparr>" and "m < w_next w"
  shows "\<exists>b. length b = BUFSIZE \<and> Mh_handle_message (Client_send_message (Suc (Suc n))) c m w =
    Inr ((), w\<lparr>w_cstore := (w_cstore w)(c \<mapsto> wrote (ping_client q cl) b), w_next := Suc (w_next w),
      w_mstore := (w_mstore w)(w_next w := None, m := None),
      w_tls := (w_tls w)\<lparr>tls_wn := Suc (tls_wn (w_tls w))\<rparr>,
      w_out := w_out w @ [TlsOut (c_tcpfd cl) (wire (w_ext w) (P_Ping (ping_answer q (c_cryptState cl))))]\<rparr>)"
    (is "\<exists>b. _ \<and> _ = Inr ((), ?w' b)")
proof -
  let ?send = "Client_send_message (Suc (Suc n))"
  have "sendable (w_ext w) (P_Ping (ping_answer q (c_cryptState cl)))"
    using ping_small [of "ping_answer q (c_cryptState cl)"] assms(4) by (simp add: sendable_def body_of_def protobuf_def)
  from handle_Ping_ready [OF assms(1-3) this, of n] obtain b where b: "length b = BUFSIZE"
    and h: "handle_Ping ?send c q w = Inr ((), w\<lparr>w_cstore := (w_cstore w)(c \<mapsto> wrote (ping_client q cl) b), w_next := Suc (w_next w),
      w_mstore := (w_mstore w)(w_next w := None), w_tls := (w_tls w)\<lparr>tls_wn := Suc (tls_wn (w_tls w))\<rparr>,
      w_out := w_out w @ [TlsOut (c_tcpfd cl) (wire (w_ext w) (P_Ping (ping_answer q (c_cryptState cl))))]\<rparr>)"
    (is "_ = Inr ((), ?w1)") by blast
  have auth: "c_authenticated cl" using assms(3) by (simp add: ready_def)
  have "w_mstore ?w1 m = Some \<lparr>m_refcount = 1, m_unpacked = u, m_payload = P_Ping q\<rparr>"
    using assms(5,6) by simp
  from Msg_free_last [OF this] have f: "Msg_free m ?w1 = Inr ((), ?w' b)" by simp
  have "Mh_handle_message ?send c m w = bnd (bnd (handle_Ping ?send c q) (\<lambda>_. ret False))
      (\<lambda>disconnect. block [Msg_free m, guarded disconnect (Client_close c)]) w"
    using assms(2,5) auth
    by (simp add: Mh_handle_message_def handle_case_def bnd_Inr get_client_app get_msg_app counts_as_idle_def
        guarded_app del: Client_send_message.simps)
  also have "\<dots> = Inr ((), ?w' b)"
    by (simp add: bnd_def h f ret_app guarded_app del: Client_send_message.simps)
  finally show ?thesis using b by blast
qed

lemma ping_body: "protobuf x \<Longrightarrow> length (body_of x (P_Ping q)) \<le> MAX_MSGSIZE"
  using ping_small [of q] by (simp add: body_of_def protobuf_def)

lemma ready_kept:
  assumes "ready cl"
  shows "ready (holding bs (stirred now cl))" and "ready (wrote (ping_client q cl) b) \<longleftrightarrow> length b = BUFSIZE"
  using assms by (simp_all add: ready_def idle_def holding_def stirred_def ping_client_def wrote_def)

lemma read_in_simps [simp]:
  "w_cstore (read_in c cl p b n w) = (w_cstore w)(c \<mapsto> holding (wire (w_ext w) p) (stirred (w_now w) cl))"
  "w_tls (read_in c cl p b n w) = took n (n - 1) (w_tls w)" "w_ext (read_in c cl p b n w) = w_ext w"
  "w_next (read_in c cl p b n w) = Suc (w_next w)" "w_out (read_in c cl p b n w) = w_out w"
  "w_mstore (read_in c cl p b n w) = (w_mstore w)(w_next w \<mapsto> \<lparr>m_refcount = 1, m_unpacked = b, m_payload = p\<rparr>)"
  by (simp_all add: read_in_def)

lemma held_simps [simp]:
  "c_tcpfd (holding bs cl) = c_tcpfd cl" "c_cryptState (holding bs cl) = c_cryptState cl"
  "c_tcpfd (stirred now cl) = c_tcpfd cl" "c_cryptState (stirred now cl) = c_cryptState cl"
  by (simp_all add: holding_def stirred_def)

lemma ping_read:
  assumes "protobuf (w_ext w)" and "accepting w" and "payload_ok (P_Ping q)"
    and "w_cstore w c = Some cl" and "listening cl" and "ready cl"
    and "concat hs = take 6 (wire (w_ext w) (P_Ping q))" and "[] \<notin> set hs"
    and "chunks = pieces hs (body_of (w_ext w) (P_Ping q))"
    and "arrives (w_tls w) chunks" and "\<not> tls_pending (w_tls w) (tls_pn (w_tls w) + (length chunks - 1))"
  shows "\<exists>w' cl'. Client_read (Suc (length chunks + Suc (Suc k))) c w = Inr ((), w') \<and>
    w_out w' = w_out w @ [TlsOut (c_tcpfd cl) (wire (w_ext w) (P_Ping (ping_answer q (c_cryptState cl))))] \<and>
    w_cstore w' = (w_cstore w)(c \<mapsto> cl') \<and> listening cl' \<and> ready cl' \<and>
    c_cryptState cl' = ping_crypt q (c_cryptState cl) \<and>
    w_mstore w' = (w_mstore w)(w_next w := None, Suc (w_next w) := None)"
proof -
  let ?n = "length chunks" and ?p = "P_Ping q"
  let ?send = "Client_send_message (?n + Suc (Suc k))"
  have r: "receivable (type_of ?p)" by (simp add: receivable_def supported_def initial_payload_def)
  obtain b where run: "Client_read (Suc (?n + Suc (Suc k))) c w =
      bnd (Mh_handle_message ?send c (w_next w)) (\<lambda>_. finish_read ?send c (Suc (Suc k))) (read_in c cl ?p b ?n w)"
    using read_message [OF assms(1,3) r ping_body [OF assms(1)] assms(4,5,7,8) assms(10) [unfolded assms(9)] refl,
        of "Suc (Suc k)"] unfolding assms(9) by blast
  let ?x = "holding (wire (w_ext w) ?p) (stirred (w_now w) cl)" and ?w = "read_in c cl ?p b ?n w"
  have w: "accepting ?w" "w_cstore ?w c = Some ?x" "ready ?x" "protobuf (w_ext ?w)"
    "w_mstore ?w (w_next w) = Some \<lparr>m_refcount = 1, m_unpacked = b, m_payload = ?p\<rparr>" "w_next w < w_next ?w"
    using assms(1,2) ready_kept(1) [OF assms(6)] by (simp_all add: accepting_def read_in_def)
  obtain bf w1 where bf: "length bf = BUFSIZE" and h: "Mh_handle_message ?send c (w_next w) ?w = Inr ((), w1)"
    and w1: "w_cstore w1 = (w_cstore w)(c \<mapsto> wrote (ping_client q ?x) bf)"
    "w_mstore w1 = (w_mstore w)(w_next w := None, Suc (w_next w) := None)"
    "w_tls w1 = (took ?n (?n - 1) (w_tls w))\<lparr>tls_wn := Suc (tls_wn (w_tls w))\<rparr>"
    "w_out w1 = w_out w @ [TlsOut (c_tcpfd cl) (wire (w_ext w) (P_Ping (ping_answer q (c_cryptState cl))))]"
    using ping_handled [OF w, of "?n + k"] by (auto simp: fun_upd_twist simp del: Client_send_message.simps)
  let ?cl = "(wrote (ping_client q ?x) bf)\<lparr>c_rxcount := 0, c_msgsize := 0\<rparr>"
  let ?w2 = "put_client c ?cl w1"
  have np: "\<not> tls_pending (w_tls ?w2) (tls_pn (w_tls ?w2))"
    using assms(11) by (simp add: put_client_def w1(3))
  have "Client_read (Suc (?n + Suc (Suc k))) c w = finish_read ?send c (Suc (Suc k)) w1"
    by (simp only: run bnd_def h sum.case prod.case)
  also have "\<dots> = next_round ?send c (Suc (Suc k)) ?w2"
    by (simp add: finish_read_def bnd_Inr upd_client_app w1(1))
  also have "\<dots> = Inr ((), ?w2\<lparr>w_tls := took 0 1 (w_tls ?w2)\<rparr>)"
    by (rule next_round_no_more [OF np])
  finally have fin: "Client_read (Suc (?n + Suc (Suc k))) c w = Inr ((), ?w2\<lparr>w_tls := took 0 1 (w_tls ?w2)\<rparr>)"
    .
  have "length (overwrite (c_rxbuf cl) 0 (wire (w_ext w) ?p)) = BUFSIZE"
    using assms(5) ping_body [OF assms(1), of q] by (simp add: listening_def wire_def Let_def)
  then have l: "listening ?cl"
    using assms(5) by (simp add: listening_def wrote_def ping_client_def holding_def stirred_def)
  have r: "ready ?cl" using ready_kept(2) [OF w(3)] bf by (simp add: ready_def idle_def)
  have "c_cryptState ?cl = ping_crypt q (c_cryptState cl)" by (simp add: wrote_def ping_client_def)
  with fin l r show ?thesis
    by (intro exI [of _ "?w2\<lparr>w_tls := took 0 1 (w_tls ?w2)\<rparr>"] exI [of _ ?cl]) (simp add: put_client_def w1)
qed

section \<open>A body in two pieces\<close>

text \<open>From now on every read brings at least so many bytes, and there are always more.\<close>

definition floods :: "tls \<Rightarrow> nat \<Rightarrow> bool" where
  "floods t s \<longleftrightarrow> (\<forall>i. \<exists>bytes. tls_read t (tls_rn t + i) = RData bytes \<and> s \<le> length bytes) \<and>
     (\<forall>i. tls_pending t (tls_pn t + i))"

lemma floods_took [simp]: "floods t s \<Longrightarrow> floods (took r p t) s"
  by (simp add: floods_def add.assoc)

text \<open>
  The loop asks for the whole size of the message again, so the count steps over the end of
  the message and never meets it.
\<close>

lemma flood_overflows:
  assumes "w_cstore w c = Some cl" and "floods (w_tls w) s" and "c_msgsize cl = s" and "s \<le> BUFSIZE - 6"
    and "c_rxcount cl = 6 + k + j * s" and "0 < k" and "k < s" and "c_rxcount cl \<le> BUFSIZE"
    and "BUFSIZE < c_rxcount cl + m"
  shows "read_loop send c m w = Inl OutOfBounds"
  using assms
proof (induction m arbitrary: w cl j)
  case 0
  then show ?case by simp
next
  case (Suc m)
  obtain bytes where bytes: "tls_read (w_tls w) (tls_rn (w_tls w)) = RData bytes" "s \<le> length bytes"
    using Suc.prems(2) by (metis add_0_right floods_def)
  have ask: "asked cl = s" and len: "length (take s bytes) = s" using Suc.prems(3,6,7) bytes(2) by (simp_all add: asked_def)
  have ne: "take s bytes \<noteq> []" using len Suc.prems(6,7) by auto
  let ?x = "received (take s bytes) cl"
  have x: "c_msgsize ?x = s" "c_rxcount ?x = 6 + k + Suc j * s"
    using Suc.prems(3,5-7) len by (simp_all add: received_def Let_def)
  have step: "read_round send c w = (if c_rxcount cl + s > BUFSIZE then Inl OutOfBounds
      else after_read send c ?x (fed c ?x 1 0 w))"
    using read_round_data [OF Suc.prems(1) _ bytes(1), of send, unfolded ask len, OF _ ne] Suc.prems(3,6,7) by simp
  show ?case
  proof (cases "c_rxcount cl + s > BUFSIZE")
    case True
    with step show ?thesis by (simp add: bnd_Inl)
  next
    case False
    have "read_round send c w = ret Again (fed c ?x 1 0 w)"
      using False step x Suc.prems(4,6) by (simp add: after_read_def)
    then have "read_loop send c (Suc m) w = next_round send c m (fed c ?x 1 0 w)" by (rule read_loop_again)
    also have "\<dots> = read_loop send c m (fed c ?x 1 1 w)"
      using Suc.prems(2) by (subst next_round_more) (auto simp: fed_def put_client_def floods_def dest: spec [of _ 0])
    also have "\<dots> = Inl OutOfBounds"
      by (rule Suc.IH [of _ ?x "Suc j"]) (use Suc.prems x False in simp_all)
    finally show ?thesis .
  qed
qed

text \<open>The first two reads: the preamble of a message of \<open>s\<close> bytes and a first part of its body.\<close>

lemma split_body:
  assumes "w_cstore w c = Some cl" and "listening cl"
    and "arrives (w_tls w) [pre, part]" and "length pre = 6" and "announced_size pre \<le> BUFSIZE - 6"
    and "part \<noteq> []" and "length part < announced_size pre"
    and "floods (took 2 1 (w_tls w)) (announced_size pre)" and "BUFSIZE \<le> n"
  shows "Client_read (Suc n) c w = Inl OutOfBounds"
proof -
  let ?s = "announced_size pre" and ?cl = "stirred (w_now w) cl"
  define m where "m = n - 2"
  have n: "n = Suc (Suc m)" "BUFSIZE \<le> m + 2" using assms(9) by (simp_all add: m_def)
  let ?send = "Client_send_message n" and ?w0 = "put_client c ?cl w"
  have len: "length (c_rxbuf ?cl) = BUFSIZE" and cl: "holding [] ?cl = ?cl"
    using assms(2) by (simp_all add: listening_def stirred_def holding_def)
  have w0: "w_cstore ?w0 c = Some (holding [] ?cl)" "tls_read (w_tls ?w0) (tls_rn (w_tls ?w0)) = RData pre"
    using assms(3) by (simp_all add: cl put_client_def arrives_Cons)
  have ask: "asked (holding [] ?cl) = 6" "asked (holding pre ?cl) = ?s"
    using assms(4,6,7) by (auto simp: asked_def holding_def)
  have ne: "pre \<noteq> []" using assms(4) by auto
  have pp: "announced_size (pre @ part) = ?s" by (rule announced_size_prefix) (simp add: assms(4))
  let ?w1 = "fed c (holding pre ?cl) 1 1 ?w0" and ?x = "holding (pre @ part) ?cl"
  have w1: "tls_read (w_tls ?w1) (tls_rn (w_tls ?w1)) = RData part" "w_cstore ?w1 c = Some (holding pre ?cl)"
    using assms(3) by (simp_all add: arrives_Cons put_client_def)
  have "read_round ?send c ?w0 = after_read ?send c (holding pre ?cl) (fed c (holding pre ?cl) 1 0 ?w0)"
    using read_round_holding [OF w0(1) len _ _ ne _ w0(2), of ?send] assms(4) ask(1) by simp
  also have "\<dots> = ret Again (fed c (holding pre ?cl) 1 0 ?w0)"
    using assms(4,5,7) by (simp add: after_read_def holding_def)
  finally have "read_loop ?send c n ?w0 = next_round ?send c (Suc m) (fed c (holding pre ?cl) 1 0 ?w0)"
    unfolding n(1) by (rule read_loop_again)
  also have "\<dots> = read_loop ?send c (Suc m) ?w1"
    using assms(3) by (subst next_round_more) (simp_all add: arrives_Cons fed_def put_client_def)
  also have "\<dots> = next_round ?send c m (fed c ?x 1 0 ?w1)"
  proof (rule read_loop_again)
    have "read_round ?send c ?w1 = after_read ?send c ?x (fed c ?x 1 0 ?w1)"
      by (rule read_round_holding [OF w1(2) len _ _ assms(6) _ w1(1)]) (use assms(4,5,7) ask(2) in simp_all)
    then show "read_round ?send c ?w1 = ret Again (fed c ?x 1 0 ?w1)"
      using assms(4,5,7) by (simp add: after_read_def holding_def pp)
  qed
  also have "\<dots> = read_loop ?send c m (fed c ?x 1 1 ?w1)"
    using assms(8) by (subst next_round_more) (auto simp: fed_def put_client_def floods_def took_def dest: spec [of _ 0])
  also have "\<dots> = Inl OutOfBounds"
  proof (rule flood_overflows [where cl = ?x and s = ?s and k = "length part" and j = 0])
    show "floods (w_tls (fed c ?x 1 1 ?w1)) ?s"
      using floods_took [OF assms(8), of 0 1] by (simp add: put_client_def numeral_2_eq_2)
  qed (use assms(4-7) pp n(2) in \<open>auto simp: holding_def\<close>)
  finally show ?thesis unfolding Client_read_listening [OF assms(1,2)] .
qed

section \<open>Properties\<close>

text \<open>C5: A protobuf message that arrives on a connection with its six-byte preamble in any pieces and its body in
  one is taken out of the stream exactly and handed to \<open>Mh_handle_message\<close>, with the payload it was made
  from, one reference and the receive buffer as the stream left it; after the handler the buffer is empty again
  and the loop goes on if there is more to read.\<close>

theorem message_reaches_handler:
  assumes "protobuf (w_ext w)" and "payload_ok p" and "receivable (type_of p)"
    and "length (body_of (w_ext w) p) \<le> MAX_MSGSIZE"
    and "w_cstore w c = Some cl" and "listening cl"
    and "concat hs = take 6 (wire (w_ext w) p)" and "[] \<notin> set hs"
    and "arrives (w_tls w) (pieces hs (body_of (w_ext w) p))"
    and "n = length (pieces hs (body_of (w_ext w) p))"
  shows "\<exists>b. Client_read (Suc (n + k)) c w =
    bnd (Mh_handle_message (Client_send_message (n + k)) c (w_next w))
      (\<lambda>_. finish_read (Client_send_message (n + k)) c k) (read_in c cl p b n w)"
  by (rule read_message [OF assms])

text \<open>C6: A ping that arrives from a connected user is answered, from the bytes of the stream to the bytes on the
  wire: one ping with the time stamp of the question and the server's packet counts goes out, the statistics of the question are
  recorded, both messages are released, and the connection is ready for the next message.\<close>

theorem ping_answered:
  assumes "protobuf (w_ext w)" and "accepting w" and "payload_ok (P_Ping q)"
    and "w_cstore w c = Some cl" and "listening cl" and "ready cl"
    and "concat hs = take 6 (wire (w_ext w) (P_Ping q))" and "[] \<notin> set hs"
    and "chunks = pieces hs (body_of (w_ext w) (P_Ping q))"
    and "arrives (w_tls w) chunks" and "\<not> tls_pending (w_tls w) (tls_pn (w_tls w) + (length chunks - 1))"
  shows "\<exists>w' cl'. Client_read (Suc (length chunks + Suc (Suc k))) c w = Inr ((), w') \<and>
    w_out w' = w_out w @ [TlsOut (c_tcpfd cl) (wire (w_ext w) (P_Ping (ping_answer q (c_cryptState cl))))] \<and>
    w_cstore w' = (w_cstore w)(c \<mapsto> cl') \<and> listening cl' \<and> ready cl' \<and>
    c_cryptState cl' = ping_crypt q (c_cryptState cl) \<and>
    w_mstore w' = (w_mstore w)(w_next w := None, Suc (w_next w) := None)"
  by (rule ping_read [OF assms])

text \<open>C37: A message body that arrives in two pieces, followed by more data, makes \<open>Client_read\<close> write behind the end of the
  receive buffer: after a part of the body the loop asks for the size of the whole body again, steps over the
  end of the message, and goes on reading without ever looking at the room left.\<close>

theorem split_body_overflows:
  assumes "w_cstore w c = Some cl" and "listening cl"
    and "arrives (w_tls w) [pre, part]" and "length pre = 6" and "announced_size pre \<le> BUFSIZE - 6"
    and "part \<noteq> []" and "length part < announced_size pre"
    and "floods (took 2 1 (w_tls w)) (announced_size pre)" and "BUFSIZE \<le> n"
  shows "Client_read (Suc n) c w = Inl OutOfBounds"
  by (rule split_body [OF assms])

text \<open>The small server of \<open>Demo\<close> with protobuf and a stream for one of its users.\<close>

definition reading_demo :: "(nat \<Rightarrow> byte list) \<Rightarrow> (nat \<Rightarrow> bool) \<Rightarrow> world" where
  "reading_demo data pend = demo\<lparr>w_ext := demo_ext\<lparr>pack := payload_pack, unpack := payload_unpack\<rparr>,
     w_tls := idle_tls\<lparr>tls_read := (\<lambda>i. RData (data i)), tls_pending := pend\<rparr>\<rparr>"

lemma reading_demo:
  "protobuf (w_ext (reading_demo data pend))" "accepting (reading_demo data pend)"
  "w_cstore (reading_demo data pend) 11 = Some (demo_client 2 ''bob'' 0)"
  "listening (demo_client 2 ''bob'' 0)" "ready (demo_client 2 ''bob'' 0)"
  "w_out (reading_demo data pend) = []" "c_tcpfd (demo_client 2 ''bob'' 0) = 6"
  by (auto simp: reading_demo_def protobuf_def accepting_def demo_def boot_world_def idle_tls_def listening_def ready_def idle_def
      demo_client_def zero_client_def)

lemma demo_ping:
  "wire (w_ext (reading_demo data pend)) (P_Ping (init_Ping\<lparr>ping_has_timestamp := True, ping_timestamp := 7\<rparr>)) =
    [0, 3, 0, 0, 0, 2, 8, 7]"
  by (simp add: wire_def body_of_def reading_demo_def mumble_proto__ping__pack_def Ping_msg_def init_Ping_def
      fields_pack_def field_pack_def required_field_pack_def optional_field_pack_def value_pack_def tag_pack_def
      uint32_pack_def uint64_pack_def tagged_def mumble_proto__ping__field_descriptors_def WIRE_TYPE_VARINT_def)

lemma demo_answer:
  "wire (w_ext (reading_demo data pend))
     (P_Ping (ping_answer (init_Ping\<lparr>ping_has_timestamp := True, ping_timestamp := 7\<rparr>) (c_cryptState (demo_client 2 ''bob'' 0)))) =
    [0, 3, 0, 0, 0, 10, 8, 7, 16, 0, 24, 0, 32, 0, 40, 0]"
  by (simp add: wire_def body_of_def reading_demo_def mumble_proto__ping__pack_def Ping_msg_def init_Ping_def ping_answer_def
      fields_pack_def field_pack_def required_field_pack_def optional_field_pack_def value_pack_def tag_pack_def
      uint32_pack_def uint64_pack_def tagged_def mumble_proto__ping__field_descriptors_def WIRE_TYPE_VARINT_def
      demo_client_def zero_client_def example_end_def CryptState_genKey_def zero_cryptState_def)

theorem message_reaches_handler_witness:
  "let w = reading_demo (\<lambda>i. if i = 0 then [0, 3] else if i = 1 then [0, 0, 0, 2] else [8, 7]) (\<lambda>i. i < 2);
       p = P_Ping (init_Ping\<lparr>ping_has_timestamp := True, ping_timestamp := 7\<rparr>)
   in \<exists>b. Client_read 4 11 w =
        bnd (Mh_handle_message (Client_send_message 3) 11 (w_next w)) (\<lambda>_. finish_read (Client_send_message 3) 11 0)
          (read_in 11 (demo_client 2 ''bob'' 0) p b 3 w)"
proof -
  let ?w = "reading_demo (\<lambda>i. if i = 0 then [0, 3] else if i = 1 then [0, 0, 0, 2] else [8, 7]) (\<lambda>i. i < 2)"
  let ?p = "P_Ping (init_Ping\<lparr>ping_has_timestamp := True, ping_timestamp := 7\<rparr>)"
  have ok: "payload_ok ?p"
    by (simp add: payload_ok_def Ping_msg_def slots_ok_def init_Ping_def init_val_def mumble_proto__ping__field_descriptors_def)
  have b: "body_of (w_ext ?w) ?p = [8, 7]"
    using demo_ping arg_cong [OF demo_ping, of "drop 6"] by (simp add: wire_def Let_def)
  have r: "receivable (type_of ?p)" by (simp add: receivable_def supported_def initial_payload_def)
  have a: "arrives (w_tls ?w) (pieces [[0, 3], [0, 0, 0, 2]] (body_of (w_ext ?w) ?p))"
    unfolding b by (simp add: pieces_def arrives_Cons arrives_def reading_demo_def idle_tls_def)
  have n: "3 = length (pieces [[0, 3], [0, 0, 0, 2]] (body_of (w_ext ?w) ?p))" unfolding b by (simp add: pieces_def)
  have h: "concat [[0, 3], [0, 0, 0, 2]] = take 6 (wire (w_ext ?w) ?p)" unfolding demo_ping by simp
  have len: "length (body_of (w_ext ?w) ?p) \<le> MAX_MSGSIZE" unfolding b by simp
  from message_reaches_handler [OF reading_demo(1) ok r len reading_demo(3,4) h _ a n, of 0] show ?thesis
    by (simp add: eval_nat_numeral del: Client_read.simps Client_send_message.simps)
qed

theorem ping_answered_witness:
  "\<exists>w'. Client_read 5 11 (reading_demo (\<lambda>i. if i = 0 then [0, 3, 0, 0, 0, 2] else [8, 7]) (\<lambda>i. i = 0)) = Inr ((), w') \<and>
     w_out w' = [TlsOut 6 [0, 3, 0, 0, 0, 10, 8, 7, 16, 0, 24, 0, 32, 0, 40, 0]]"
proof -
  let ?w = "reading_demo (\<lambda>i. if i = 0 then [0, 3, 0, 0, 0, 2] else [8, 7]) (\<lambda>i. i = 0)"
  let ?q = "init_Ping\<lparr>ping_has_timestamp := True, ping_timestamp := 7\<rparr>"
  have ok: "payload_ok (P_Ping ?q)"
    by (simp add: payload_ok_def Ping_msg_def slots_ok_def init_Ping_def init_val_def mumble_proto__ping__field_descriptors_def)
  have b: "body_of (w_ext ?w) (P_Ping ?q) = [8, 7]"
    using arg_cong [OF demo_ping, of "drop 6"] by (simp add: wire_def Let_def)
  have c: "[[0, 3, 0, 0, 0, 2], [8, 7]] = pieces [[0, 3, 0, 0, 0, 2]] (body_of (w_ext ?w) (P_Ping ?q))"
    unfolding b by (simp add: pieces_def)
  have a: "arrives (w_tls ?w) [[0, 3, 0, 0, 0, 2], [8, 7]]"
    and np: "\<not> tls_pending (w_tls ?w) (tls_pn (w_tls ?w) + (length [[0, 3, 0, 0, 0, 2], [8, 7 :: byte]] - 1))"
    by (simp_all add: arrives_Cons arrives_def reading_demo_def idle_tls_def)
  have h: "concat [[0, 3, 0, 0, 0, 2]] = take 6 (wire (w_ext ?w) (P_Ping ?q))" unfolding demo_ping by simp
  from ping_answered [OF reading_demo(1,2) ok reading_demo(3-5) h _ c a np, of 0] obtain w' where
    "Client_read (Suc (length [[0, 3, 0, 0, 0, 2], [8, 7 :: byte]] + Suc (Suc 0))) 11 ?w = Inr ((), w')"
    "w_out w' = w_out ?w @ [TlsOut (c_tcpfd (demo_client 2 ''bob'' 0))
      (wire (w_ext ?w) (P_Ping (ping_answer ?q (c_cryptState (demo_client 2 ''bob'' 0)))))]"
    by auto
  then show ?thesis unfolding demo_answer reading_demo(6,7)
    by (simp add: eval_nat_numeral del: Client_read.simps Client_send_message.simps)
qed

theorem split_body_overflows_witness:
  "Client_read (Suc 8192) 11 (reading_demo (\<lambda>i. if i = 0 then [0, 3, 0, 0, 0, 2] else if i = 1 then [8] else [7, 7]) (\<lambda>i. True)) =
     Inl OutOfBounds"
proof -
  let ?w = "reading_demo (\<lambda>i. if i = 0 then [0, 3, 0, 0, 0, 2] else if i = 1 then [8] else [7, 7]) (\<lambda>i. True)"
  have s: "announced_size [0, 3, 0, 0, 0, 2] = 2" by (simp add: announced_size_def load_be_def)
  have a: "arrives (w_tls ?w) [[0, 3, 0, 0, 0, 2], [8]]" "floods (took 2 1 (w_tls ?w)) 2"
    by (simp_all add: arrives_Cons arrives_def floods_def reading_demo_def idle_tls_def)
  from split_body_overflows [OF reading_demo(3,4) a(1), of 8192] a(2) show ?thesis
    by (simp only: s) simp
qed

end
