(* ===== verification/Process.thy ===== *)
theory Process
  imports Server
begin

text \<open>
  The process around the server: its state, the calls it makes into the operating system with
  their outcomes, and the log of log.c. Every call is recorded in a trace; whether it succeeds is
  decided by the environment, which may answer the same call differently at different times.
  A line handed to the log is recorded with the place it goes to. The world of the server is
  a part of the state of the process.
\<close>

section \<open>The operating system\<close>

datatype proto = Tcp | Udp

datatype syscall =
    Fopen string | Setvbuf | Fclose | Openlog | Closelog
  | Fork | Open_pidfile string | Lockf | Ftruncate | Write_pid string | Unlink string
  | Initgroups string int | Setgid int | Setuid int
  | Sched_setscheduler | SSL_setup
  | Socket proto | Setsockopt_reuseaddr | Bind proto u32 int | Listen | Setsockopt_tos int

datatype sink = Stderr | File string | Syslog string

datatype effect = Done syscall | Failed syscall | Line sink string

text \<open>
  What the environment answers: whether the \<open>n\<close>-th recorded effect, a call, succeeds, the user and
  group databases (name, user id, group id), the parsed configuration files, and the identity of the system.
\<close>

record os =
  os_ok :: "nat \<Rightarrow> syscall \<Rightarrow> bool"
  os_getpwnam :: "string \<Rightarrow> (string \<times> int \<times> int) option"
  os_getgrnam :: "string \<Rightarrow> (string \<times> int) option"
  os_getgrgid :: "int \<Rightarrow> string option"
  os_inet_addr :: "string \<Rightarrow> u32"
  os_inet_ntoa :: "u32 \<Rightarrow> string"
  os_read_config :: "string \<Rightarrow> config option"
  os_getppid :: int
  os_getpid :: int
  os_uname :: "(string \<times> string \<times> string) option"
  os_strerror :: string
  os_lock_held :: bool
  os_rr_priority :: int
  os_config_error :: string

record process =
  p_world :: world
  p_os :: os
  p_trace :: "effect list"
  p_termprint :: bool
  p_loginit :: bool
  p_logfile :: "string option"
  p_bindport :: int
  p_bindaddr :: "string option"
  p_shutdown :: bool

definition attempt :: "syscall \<Rightarrow> (process, bool) prog" where
  "attempt call =
     bnd (gets (\<lambda>p. os_ok (p_os p) (length (p_trace p)) call)) (\<lambda>ok.
     bnd (modify (\<lambda>p. p\<lparr>p_trace := p_trace p @ [if ok then Done call else Failed call]\<rparr>)) (\<lambda>_.
     ret ok))"

definition put_line :: "sink \<Rightarrow> string \<Rightarrow> (process, unit) prog" where
  "put_line dest line = modify (\<lambda>p. p\<lparr>p_trace := p_trace p @ [Line dest line]\<rparr>)"

text \<open>A program of the server, run on the process's world.\<close>

definition in_world :: "(world, 'a) prog \<Rightarrow> (process, 'a) prog" where
  "in_world m = (\<lambda>p. case m (p_world p) of
     Inl e \<Rightarrow> Inl e
   | Inr (x, w) \<Rightarrow> Inr (x, p\<lparr>p_world := w\<rparr>))"

section \<open>The log\<close>

text \<open>Addresses and ports are in the byte order of the host, as everywhere in the model.\<close>

abbreviation STRSIZE :: nat where
  "STRSIZE \<equiv> 254"

text \<open>\<open>vsnprintf\<close> into \<open>n\<close> bytes: what is left of the text, and the terminator.\<close>

definition cut :: "nat \<Rightarrow> string \<Rightarrow> string" where
  "cut n text = take (n - 1) text"

definition log_line :: "string \<Rightarrow> string \<Rightarrow> (process, unit) prog" where
  "log_line prio buf =
     bnd (gets p_termprint) (\<lambda>termprint.
     bnd (gets p_logfile) (\<lambda>logfile.
     if termprint then put_line Stderr buf
     else case logfile of
       Some name \<Rightarrow> put_line (File name) buf
     | None \<Rightarrow> put_line (Syslog prio) buf))"

definition logthis :: "string \<Rightarrow> (process, unit) prog" where
  "logthis text = log_line ''LOG_INFO'' (cut STRSIZE text)"

definition Log_warn :: "string \<Rightarrow> (process, unit) prog" where
  "Log_warn text = log_line ''LOG_WARNING'' (''WARN: '' @ cut (STRSIZE - 6) text)"

definition Log_info :: "string \<Rightarrow> (process, unit) prog" where
  "Log_info text = log_line ''LOG_INFO'' (''INFO: '' @ cut (STRSIZE - 6) text)"

text \<open>
  \<open>vsnprintf\<close> returns the length the text would have had, so a text that was cut moves
  \<open>offset\<close> behind the end of the buffer, and \<open>STRSIZE - offset\<close> is negative.
\<close>

definition client_suffix :: "os \<Rightarrow> client \<Rightarrow> string" where
  "client_suffix os client =
     '' - ['' @ decimal_int (c_sessionId client) @ ''] '' @
     (case c_username client of None \<Rightarrow> [] | Some name \<Rightarrow> name) @ ''@'' @
     os_inet_ntoa os (sin_addr (c_remote_tcp client)) @ '':'' @ decimal (unat (sin_port (c_remote_tcp client)))"

definition Log_info_client :: "client \<Rightarrow> string \<Rightarrow> (process, unit) prog" where
  "Log_info_client client text =
     bnd (gets p_os) (\<lambda>os.
     let offset = 6 + length text in
     if offset > STRSIZE then fail OutOfBounds
     else log_line ''LOG_INFO''
       (''INFO: '' @ cut (STRSIZE - 6) text @ cut (STRSIZE - offset) (client_suffix os client)))"

text \<open>When the log is not open yet, a fatal error goes to the terminal as well.\<close>

definition Log_fatal :: "string \<Rightarrow> (process, 'a) prog" where
  "Log_fatal text =
     (let buf = ''FATAL: '' @ cut (STRSIZE - 7) text in
      bnd (gets p_termprint) (\<lambda>termprint.
      bnd (gets p_logfile) (\<lambda>logfile.
      bnd (gets p_loginit) (\<lambda>init.
      bnd (if termprint then put_line Stderr buf
           else case logfile of
             Some name \<Rightarrow> put_line (File name) buf
           | None \<Rightarrow> block
               [guarded (\<not> init) (bnd (attempt Openlog) (\<lambda>_. put_line Stderr buf)),
                put_line (Syslog ''LOG_CRIT'') buf]) (\<lambda>_.
      fail Fatal)))))"

definition quoted :: "string \<Rightarrow> string" where
  "quoted s = CHR 0x27 # s @ [CHR 0x27]"

definition openlogfile :: "string \<Rightarrow> (process, unit) prog" where
  "openlogfile name =
     bnd (gets (\<lambda>p. os_strerror (p_os p))) (\<lambda>err.
     bnd (attempt (Fopen name)) (\<lambda>ok.
     bnd (modify (\<lambda>p. p\<lparr>p_logfile := (if ok then Some name else None)\<rparr>)) (\<lambda>_.
     if \<not> ok then Log_fatal (''Failed to open log file '' @ quoted name @ '' for writing: '' @ err @ [CHR 0x0A])
     else
       bnd (attempt Setvbuf) (\<lambda>ok.
       if \<not> ok then Log_fatal (''setvbuf() failed: '' @ err @ [CHR 0x0A]) else ret ()))))"

definition Log_init :: "bool \<Rightarrow> (process, unit) prog" where
  "Log_init terminal =
     bnd (modify (\<lambda>p. p\<lparr>p_termprint := terminal\<rparr>)) (\<lambda>_.
     if terminal then ret ()
     else
       bnd (in_world (getStrConf LOGFILE)) (\<lambda>logfilename.
       bnd (case logfilename of
              Some name \<Rightarrow> openlogfile name
            | None \<Rightarrow> bnd (attempt Openlog) (\<lambda>_. ret ())) (\<lambda>_.
       modify (\<lambda>p. p\<lparr>p_loginit := True\<rparr>))))"

definition Log_free :: "(process, unit) prog" where
  "Log_free =
     bnd (gets p_termprint) (\<lambda>termprint.
     bnd (gets p_logfile) (\<lambda>logfile.
     if termprint then ret ()
     else bnd (attempt (if logfile = None then Closelog else Fclose)) (\<lambda>_. ret ())))"

definition Log_reset :: "(process, unit) prog" where
  "Log_reset =
     bnd (gets p_logfile) (\<lambda>logfile.
     if logfile = None then ret ()
     else
       bnd (in_world (getStrConf LOGFILE)) (\<lambda>logfilename.
       bnd (attempt Fclose) (\<lambda>_.
       case logfilename of None \<Rightarrow> fail NullDeref | Some name \<Rightarrow> openlogfile name)))"

end
