(* ===== verification/Startup.thy ===== *)
theory Startup
  imports Process
begin

text \<open>
  The program as a whole: the command line, becoming a daemon, giving up privileges, the
  signals and \<open>main\<close> of main.c, \<open>Conf_init\<close> of conf.c, and the set-up of the sockets with
  the loop of \<open>Server_run\<close> in server.c.
\<close>

section \<open>Configuration and command line\<close>

definition Conf_init :: "string option \<Rightarrow> (process, unit) prog" where
  "Conf_init conffile =
     (let name = (case conffile of None \<Rightarrow> ''/etc/umurmur.conf'' | Some f \<Rightarrow> f) in
      bnd (gets (\<lambda>p. os_read_config (p_os p) name)) (\<lambda>conf.
      case conf of
        None \<Rightarrow> bnd (gets (\<lambda>p. os_config_error (p_os p))) (\<lambda>err. Log_fatal (''Error in config file '' @ name @ '' line '' @ err))
      | Some conf \<Rightarrow> in_world (modify (\<lambda>w. w\<lparr>w_conf := conf\<rparr>))))"

text \<open>The options as \<open>getopt\<close> returns them; the help and an unknown option end the program.\<close>

datatype option_arg = Opt_c string | Opt_p string | Opt_a string | Opt_b int | Opt_d | Opt_r | Opt_h | Opt_unknown

record settings =
  s_nodaemon :: bool
  s_realtime :: bool
  s_conffile :: "string option"
  s_pidfile :: "string option"

fun read_options :: "option_arg list \<Rightarrow> settings \<Rightarrow> (process, settings) prog" where
  "read_options [] s = ret s"
| "read_options (Opt_c f # os) s = read_options os (s\<lparr>s_conffile := Some f\<rparr>)"
| "read_options (Opt_p f # os) s = read_options os (s\<lparr>s_pidfile := Some f\<rparr>)"
| "read_options (Opt_a a # os) s = bnd (modify (\<lambda>p. p\<lparr>p_bindaddr := Some a\<rparr>)) (\<lambda>_. read_options os s)"
| "read_options (Opt_b n # os) s = bnd (modify (\<lambda>p. p\<lparr>p_bindport := n\<rparr>)) (\<lambda>_. read_options os s)"
| "read_options (Opt_d # os) s = read_options os (s\<lparr>s_nodaemon := True\<rparr>)"
| "read_options (Opt_r # os) s = read_options os (s\<lparr>s_realtime := True\<rparr>)"
| "read_options (Opt_h # os) s = fail Fatal"
| "read_options (Opt_unknown # os) s = fail Fatal"

section \<open>Becoming a daemon\<close>

text \<open>The child's side of \<open>fork\<close>; the parent exits.\<close>

definition daemonize :: "(process, unit) prog" where
  "daemonize =
     bnd (gets (\<lambda>p. os_getppid (p_os p))) (\<lambda>ppid.
     if ppid = 1 then ret ()
     else bnd (attempt Fork) (\<lambda>ok. if ok then ret () else fail Fatal))"

definition lockfile :: "string \<Rightarrow> (process, unit) prog" where
  "lockfile pidfile =
     bnd (gets p_os) (\<lambda>os.
     bnd (attempt (Open_pidfile pidfile)) (\<lambda>ok.
     if \<not> ok then Log_fatal (''Cannot open PID-file '' @ pidfile @ '' for writing'')
     else bnd (attempt Lockf) (\<lambda>ok.
     if \<not> ok then
       Log_fatal (if os_lock_held os then ''PID file is locked -- uMurmur already running?''
                  else ''Cannot lock PID file: '' @ os_strerror os)
     else bnd (attempt Ftruncate) (\<lambda>ok.
     if \<not> ok then Log_fatal (''Cannot truncate PID file: '' @ os_strerror os)
     else bnd (attempt (Write_pid (cut 16 (decimal_int (os_getpid os) @ [CHR 0x0A])))) (\<lambda>_.
     Log_info (''PID-file: '' @ pidfile))))))"

section \<open>Giving up privileges\<close>

definition require :: "bool \<Rightarrow> string \<Rightarrow> (process, unit) prog" where
  "require ok text = (if ok then ret () else Log_fatal text)"

definition change_ids :: "string \<Rightarrow> int \<Rightarrow> int \<Rightarrow> (process, unit) prog" where
  "change_ids name uid gid =
     bnd (gets (\<lambda>p. os_strerror (p_os p))) (\<lambda>err.
     bnd (attempt (Initgroups name gid)) (\<lambda>ok.
     bnd (require ok (''initgroups() failed: '' @ err)) (\<lambda>_.
     bnd (attempt (Setgid gid)) (\<lambda>ok.
     bnd (require ok (''setgid() failed: '' @ err)) (\<lambda>_.
     bnd (attempt (Setuid uid)) (\<lambda>ok.
     require ok (''setuid() failed: '' @ err)))))))"

definition conf_string :: "param \<Rightarrow> (process, string) prog" where
  "conf_string param = bnd (in_world (getStrConf param)) deref"

definition switch_user :: "(process, unit) prog" where
  "switch_user =
     bnd (gets p_os) (\<lambda>os.
     bnd (conf_string USERNAME) (\<lambda>username.
     bnd (conf_string GROUPNAME) (\<lambda>groupname.
     if username = [] then require (groupname = []) ''username missing''
     else
       (case os_getpwnam os username of
          None \<Rightarrow> Log_fatal (''Unknown user '' @ quoted username)
        | Some (pw_name, uid, pw_gid) \<Rightarrow>
            if groupname = [] then
              bnd (change_ids pw_name uid pw_gid) (\<lambda>_.
              case os_getgrgid os pw_gid of
                None \<Rightarrow> Log_fatal (''getgrgid() failed: '' @ os_strerror os)
              | Some gr_name \<Rightarrow> Log_info (''Switch to user '' @ quoted pw_name @ '' group '' @ quoted gr_name))
            else
              (case os_getgrnam os groupname of
                 None \<Rightarrow> Log_fatal (''Unknown group '' @ quoted groupname)
               | Some (gr_name, gid) \<Rightarrow>
                   bnd (change_ids pw_name uid gid) (\<lambda>_.
                   Log_info (''Switch to user '' @ quoted pw_name @ '' group '' @ quoted gr_name)))))))"

definition setscheduler :: "(process, unit) prog" where
  "setscheduler =
     bnd (gets p_os) (\<lambda>os.
     bnd (Log_info (''Setting SCHED_RR prio '' @ decimal_int (os_rr_priority os))) (\<lambda>_.
     bnd (attempt Sched_setscheduler) (\<lambda>ok.
     if ok then ret () else Log_warn (''Failed to set scheduler: '' @ os_strerror os))))"

section \<open>Signals\<close>

datatype signal = SIGHUP | SIGTERM

definition Server_shutdown :: "(process, unit) prog" where
  "Server_shutdown = modify (\<lambda>p. p\<lparr>p_shutdown := True\<rparr>)"

fun signal_handler :: "signal \<Rightarrow> (process, unit) prog" where
  "signal_handler SIGHUP = block [Log_info ''HUP signal received.'', Log_reset]"
| "signal_handler SIGTERM = block [Log_info ''TERM signal. Shutting down.'', Server_shutdown]"

section \<open>The sockets\<close>

text \<open>The address: the command line's, else the configuration's, else any; \<open>inet_addr\<close> fails with -1.\<close>

definition bind_address :: "(process, u32) prog" where
  "bind_address =
     bnd (gets p_os) (\<lambda>os.
     bnd (gets p_bindaddr) (\<lambda>bindaddr.
     bnd (conf_string BINDADDR) (\<lambda>conf.
     ret (case bindaddr of
            Some a \<Rightarrow> if os_inet_addr os a \<noteq> - 1 then os_inet_addr os a
              else if os_inet_addr os conf \<noteq> - 1 then os_inet_addr os conf else os_inet_addr os ''0.0.0.0''
          | None \<Rightarrow> if os_inet_addr os conf \<noteq> - 1 then os_inet_addr os conf else os_inet_addr os ''0.0.0.0''))))"

definition bind_port :: "(process, int) prog" where
  "bind_port =
     bnd (gets p_bindport) (\<lambda>bindport.
     bnd (in_world (getIntConf BINDPORT)) (\<lambda>conf.
     ret ((if bindport \<noteq> 0 then bindport else conf) mod 65536)))"

definition open_tcp :: "u32 \<Rightarrow> int \<Rightarrow> (process, unit) prog" where
  "open_tcp addr port =
     bnd (gets (\<lambda>p. os_strerror (p_os p))) (\<lambda>err.
     bnd (attempt (Socket Tcp)) (\<lambda>ok.
     bnd (require ok ''socket'') (\<lambda>_.
     bnd (attempt Setsockopt_reuseaddr) (\<lambda>ok.
     bnd (require ok (''setsockopt: '' @ err)) (\<lambda>_.
     bnd (attempt (Bind Tcp addr port)) (\<lambda>ok.
     bnd (require ok (''bind: '' @ err)) (\<lambda>_.
     bnd (attempt Listen) (\<lambda>ok.
     require ok ''listen''))))))))"

definition set_tos :: "int \<Rightarrow> (process, unit) prog" where
  "set_tos v =
     bnd (attempt (Setsockopt_tos v)) (\<lambda>ok.
     if ok then ret () else Log_warn ''Server: Failed to set TOS for UDP Socket'')"

definition open_udp :: "u32 \<Rightarrow> int \<Rightarrow> (process, unit) prog" where
  "open_udp addr port =
     bnd (gets (\<lambda>p. os_strerror (p_os p))) (\<lambda>err.
     bnd (in_world (getIntConf BINDPORT)) (\<lambda>cport.
     bnd (conf_string BINDADDR) (\<lambda>caddr.
     bnd (attempt (Socket Udp)) (\<lambda>_.
     bnd (attempt (Bind Udp addr port)) (\<lambda>ok.
     bnd (require ok (''bind '' @ decimal_int cport @ '' '' @ caddr @ '': '' @ err)) (\<lambda>_. block
       [set_tos 0xe0,
        set_tos 0x80]))))))"

definition open_sockets :: "(process, unit) prog" where
  "open_sockets =
     bnd (gets p_os) (\<lambda>os.
     bnd bind_port (\<lambda>port.
     bnd bind_address (\<lambda>addr. block
       [Log_info (''Bind to '' @ (if addr = 0 then ''*'' else os_inet_ntoa os addr) @ '':'' @ decimal_int port),
        open_tcp addr port,
        open_udp addr port,
        Log_info (''uMurmur version '' @ UMURMUR_VERSION @ '' protocol version 1.2.3''),
        Log_info ''Visit http://code.google.com/p/umurmur/''])))"

section \<open>The loop\<close>

text \<open>
  One round at the time \<open>now\<close>: the signals that arrive while the loop waits, and what \<open>poll\<close>
  returns. The result of the loop is whether it has been left; with no more rounds to observe the
  program still runs.
\<close>

definition Server_round :: "nat \<Rightarrow> int \<Rightarrow> u64 \<times> signal list \<times> poll \<Rightarrow> etimer \<Rightarrow> (process, etimer) prog" where
  "Server_round n places r timer =
     (case r of (now, signals, event) \<Rightarrow>
      bnd (for_each signals signal_handler) (\<lambda>_.
      in_world (\<lambda>w. server_turn n places event timer (w\<lparr>w_now := now\<rparr>))))"

fun Server_loop :: "nat \<Rightarrow> int \<Rightarrow> (u64 \<times> signal list \<times> poll) list \<Rightarrow> etimer \<Rightarrow> (process, bool) prog" where
  "Server_loop n places [] timer = gets p_shutdown"
| "Server_loop n places (r # rs) timer =
     bnd (gets p_shutdown) (\<lambda>shutdown_server.
     if shutdown_server then ret True
     else bnd (Server_round n places r timer) (Server_loop n places rs))"

section \<open>The program\<close>

definition system_strings :: "os \<Rightarrow> string \<times> string" where
  "system_strings os =
     (case os_uname os of
        Some (sysname, machine, release) \<Rightarrow> (cut 64 (sysname @ '' '' @ machine), cut 64 release)
      | None \<Rightarrow> (''unknown unknown'', ''unknown''))"

text \<open>\<open>main\<close> up to the set-up of the server; the set-up of TLS, which Tls models, succeeds or fails.\<close>

definition become_daemon :: "settings \<Rightarrow> (process, unit) prog" where
  "become_daemon s =
     (if s_nodaemon s then Log_init True
      else block
        [daemonize,
         Log_init False,
         case s_pidfile s of None \<Rightarrow> ret () | Some f \<Rightarrow> lockfile f,
         switch_user,
         Log_reset])"

definition identify :: "(process, unit) prog" where
  "identify =
     bnd (gets (\<lambda>p. system_strings (p_os p))) (\<lambda>(system, version).
     in_world (modify (\<lambda>w. w\<lparr>w_ext := (w_ext w)\<lparr>system_string := system, version_string := version\<rparr>\<rparr>)))"

definition set_up :: "nat \<Rightarrow> settings \<Rightarrow> (process, int) prog" where
  "set_up n s =
     bnd identify (\<lambda>_.
     bnd (attempt SSL_setup) (\<lambda>ok.
     bnd (require ok ''Failed to initialize cert'') (\<lambda>_.
     bnd (in_world (start_up n)) (\<lambda>places.
     bnd (guarded (s_realtime s) setscheduler) (\<lambda>_.
     bnd open_sockets (\<lambda>_.
     ret places))))))"

definition prepare :: "nat \<Rightarrow> option_arg list \<Rightarrow> (process, settings \<times> int) prog" where
  "prepare n args =
     bnd (read_options args \<lparr>s_nodaemon = False, s_realtime = False, s_conffile = None, s_pidfile = None\<rparr>) (\<lambda>s.
     bnd (Conf_init (s_conffile s)) (\<lambda>_.
     bnd (become_daemon s) (\<lambda>_.
     bnd (set_up n s) (\<lambda>places.
     ret (s, places)))))"

definition finish :: "nat \<Rightarrow> settings \<Rightarrow> (process, unit) prog" where
  "finish n s = block
     [in_world (shut_down n),
      in_world Chan_free,
      Log_free,
      case s_pidfile s of None \<Rightarrow> ret () | Some f \<Rightarrow> bnd (attempt (Unlink f)) (\<lambda>_. ret ())]"

definition main :: "nat \<Rightarrow> option_arg list \<Rightarrow> (u64 \<times> signal list \<times> poll) list \<Rightarrow> (process, unit) prog" where
  "main n args rounds =
     bnd (prepare n args) (\<lambda>(s, places).
     bnd (gets (\<lambda>p. w_now (p_world p))) (\<lambda>now.
     bnd (Server_loop n places rounds (Timer_init now)) (\<lambda>stopped.
     guarded stopped (finish n s))))"

section \<open>What a program adds to the trace\<close>

definition since :: "effect list \<Rightarrow> (syscall \<Rightarrow> bool) \<Rightarrow> process \<Rightarrow> bool" where
  "since base Q p \<longleftrightarrow> (\<exists>tr. p_trace p = base @ tr \<and> (\<forall>c. Done c \<in> set tr \<longrightarrow> Q c))"

lemma since_refl: "p_trace p = base \<Longrightarrow> since base Q p"
  by (simp add: since_def)

lemma since_add: "since base Q p \<Longrightarrow> (\<And>c. e = Done c \<Longrightarrow> Q c) \<Longrightarrow> since base Q (p\<lparr>p_trace := p_trace p @ [e]\<rparr>)"
  by (auto simp: since_def)

lemma since_same: "p_trace p' = p_trace p \<Longrightarrow> since base Q p \<Longrightarrow> since base Q p'"
  by (simp add: since_def)

named_theorems since_intros \<open>rules that a program adds only calls of a kind to the trace\<close>

lemma since_attempt [since_intros]: "Q c \<Longrightarrow> keeps (since base Q) (attempt c)"
  unfolding attempt_def by (intro keeps_intros keeps_modify since_add) (auto split: if_splits)

lemma since_put_line [since_intros]: "keeps (since base Q) (put_line d l)"
  unfolding put_line_def by (intro keeps_intros keeps_modify since_add) simp_all

lemma since_in_world [since_intros]: "keeps (since base Q) (in_world m)"
  by (rule keepsI) (auto simp: in_world_def since_def split: sum.splits)

lemma since_modify [since_intros]: "(\<And>p. p_trace (f p) = p_trace p) \<Longrightarrow> keeps (since base Q) (modify f)"
  by (rule keeps_modify) (auto intro: since_same)

lemma since_conf_string [since_intros]: "keeps (since base Q) (conf_string x)"
  unfolding conf_string_def deref_def by (intro keeps_intros since_intros)

text \<open>The calls of the log are always allowed.\<close>

definition log_call :: "syscall \<Rightarrow> bool" where
  "log_call c \<longleftrightarrow> c \<in> {Setvbuf, Fclose, Openlog, Closelog} \<or> (\<exists>f. c = Fopen f)"

lemma log_calls [simp]: "log_call Setvbuf" "log_call Fclose" "log_call Openlog" "log_call Closelog" "log_call (Fopen f)"
  by (simp_all add: log_call_def)

lemma since_Log_fatal [since_intros]:
  assumes "\<And>c. log_call c \<Longrightarrow> Q c"
  shows "keeps (since base Q) (Log_fatal t)"
  unfolding Log_fatal_def Let_def by (intro keeps_intros since_intros assms) simp

lemma since_Log_lines [since_intros]: "keeps (since base Q) (Log_info t)" "keeps (since base Q) (Log_warn t)"
  unfolding Log_info_def Log_warn_def log_line_def by (intro keeps_intros since_intros)+

lemma since_openlogfile [since_intros]:
  assumes "\<And>c. log_call c \<Longrightarrow> Q c"
  shows "keeps (since base Q) (openlogfile f)"
  unfolding openlogfile_def by (intro keeps_intros since_intros assms) simp_all

lemma since_Log_init [since_intros]:
  assumes "\<And>c. log_call c \<Longrightarrow> Q c"
  shows "keeps (since base Q) (Log_init b)"
  unfolding Log_init_def by (intro keeps_intros since_intros assms) simp_all

lemma since_Log_reset [since_intros]:
  assumes "\<And>c. log_call c \<Longrightarrow> Q c"
  shows "keeps (since base Q) Log_reset"
  unfolding Log_reset_def by (intro keeps_intros since_intros assms) simp_all

lemma since_require [since_intros]:
  assumes "\<And>c. log_call c \<Longrightarrow> Q c"
  shows "keeps (since base Q) (require b t)"
  unfolding require_def by (intro keeps_intros since_intros assms)

text \<open>The parts of the start-up.\<close>

lemma since_daemonize: "Q Fork \<Longrightarrow> keeps (since base Q) daemonize"
  unfolding daemonize_def by (intro keeps_intros since_intros)

lemma since_lockfile:
  assumes "\<And>c. log_call c \<Longrightarrow> Q c" and "Q (Open_pidfile f)" and "Q Lockf" and "Q Ftruncate" and "\<And>t. Q (Write_pid t)"
  shows "keeps (since base Q) (lockfile f)"
  unfolding lockfile_def by (intro keeps_intros since_intros assms)

lemma since_setscheduler: "Q Sched_setscheduler \<Longrightarrow> keeps (since base Q) setscheduler"
  unfolding setscheduler_def by (intro keeps_intros since_intros)

lemma since_open_sockets:
  assumes "\<And>c. log_call c \<Longrightarrow> Q c" and "\<And>pr. Q (Socket pr)" and "Q Setsockopt_reuseaddr" and "\<And>pr a i. Q (Bind pr a i)"
    and "Q Listen" and "\<And>v. Q (Setsockopt_tos v)"
  shows "keeps (since base Q) open_sockets"
proof -
  have "keeps (since base Q) (open_tcp a i)" "keeps (since base Q) (open_udp a i)" for a i
    unfolding open_tcp_def open_udp_def set_tos_def by (intro keeps_intros since_intros assms; assumption)+
  then show ?thesis
    unfolding open_sockets_def bind_port_def bind_address_def by (intro keeps_intros since_intros)
qed

section \<open>What a program leaves alone\<close>

text \<open>Nothing but \<open>Conf_init\<close>, the identity of the system and the server itself changes the server's world.\<close>

definition settled :: "os \<Rightarrow> world \<Rightarrow> process \<Rightarrow> bool" where
  "settled os w p \<longleftrightarrow> p_os p = os \<and> p_world p = w"

named_theorems settled_intros \<open>rules that a program changes neither the environment nor the server's world\<close>

lemma settled_modify [settled_intros]:
  "(\<And>p. p_os (f p) = p_os p) \<Longrightarrow> (\<And>p. p_world (f p) = p_world p) \<Longrightarrow> keeps (settled os w) (modify f)"
  by (rule keeps_modify) (simp add: settled_def)

lemma settled_attempt [settled_intros]: "keeps (settled os w) (attempt c)"
  unfolding attempt_def by (intro keeps_intros settled_intros) simp_all

lemma settled_put_line [settled_intros]: "keeps (settled os w) (put_line d l)"
  unfolding put_line_def by (intro settled_intros) simp_all

lemma settled_in_world: "reads m \<Longrightarrow> keeps (settled os w) (in_world m)"
  by (rule keepsI) (auto simp: in_world_def settled_def split: sum.splits dest: readsD)

lemma settled_getStrConf [settled_intros]: "keeps (settled os w) (in_world (getStrConf x))"
  by (rule settled_in_world) (cases x; simp add: getStrConf_def reads_gets reads_fail)

lemma settled_getIntConf [settled_intros]: "keeps (settled os w) (in_world (getIntConf x))"
  by (rule settled_in_world) (cases x; simp add: getIntConf_def reads_gets reads_fail)

lemma settled_conf_string [settled_intros]: "keeps (settled os w) (conf_string x)"
  unfolding conf_string_def deref_def by (intro keeps_intros settled_intros)

lemma settled_Log_fatal [settled_intros]: "keeps (settled os w) (Log_fatal t)"
  unfolding Log_fatal_def Let_def by (intro keeps_intros settled_intros)

lemma settled_require [settled_intros]: "keeps (settled os w) (require b t)"
  unfolding require_def by (intro keeps_intros settled_intros)

lemma settled_Log_lines [settled_intros]: "keeps (settled os w) (Log_info t)" "keeps (settled os w) (Log_warn t)"
  unfolding Log_info_def Log_warn_def log_line_def by (intro keeps_intros settled_intros)+

lemma settled_Log_files [settled_intros]: "keeps (settled os w) (Log_init b)" "keeps (settled os w) Log_reset"
proof -
  have "keeps (settled os w) (openlogfile f)" for f
    unfolding openlogfile_def by (intro keeps_intros settled_intros) simp_all
  then show "keeps (settled os w) (Log_init b)" "keeps (settled os w) Log_reset"
    unfolding Log_init_def Log_reset_def by (intro keeps_intros settled_intros; simp)+
qed

lemma settled_daemonize [settled_intros]: "keeps (settled os w) daemonize" "keeps (settled os w) (lockfile f)"
  unfolding daemonize_def lockfile_def by (intro keeps_intros settled_intros)+

lemma settled_switch_user [settled_intros]: "keeps (settled os w) switch_user"
  unfolding switch_user_def change_ids_def by (auto intro!: keeps_intros settled_intros)

lemma settled_become_daemon [settled_intros]: "keeps (settled os w) (become_daemon s)"
  unfolding become_daemon_def by (intro keeps_intros settled_intros)

lemma settled_setscheduler [settled_intros]: "keeps (settled os w) setscheduler"
  unfolding setscheduler_def by (intro keeps_intros settled_intros)

lemma settled_open_sockets [settled_intros]: "keeps (settled os w) open_sockets"
  unfolding open_sockets_def bind_port_def bind_address_def open_tcp_def open_udp_def set_tos_def
  by (intro keeps_intros settled_intros)

lemma settled_read_options [settled_intros]: "keeps (settled os w) (read_options args s)"
  by (induction args s rule: read_options.induct) (auto intro!: keeps_intros settled_intros simp del: bnd_modify)

section \<open>Privileges\<close>

text \<open>The user and group a process has after a trace, when it starts with the first argument.\<close>

fun ids_after :: "int \<times> int \<Rightarrow> effect list \<Rightarrow> int \<times> int" where
  "ids_after ids [] = ids"
| "ids_after ids (Done (Setuid u) # es) = ids_after (u, snd ids) es"
| "ids_after ids (Done (Setgid g) # es) = ids_after (fst ids, g) es"
| "ids_after ids (e # es) = ids_after ids es"

definition on_network :: "syscall \<Rightarrow> bool" where
  "on_network c \<longleftrightarrow> (\<exists>pr. c = Socket pr) \<or> (\<exists>pr a i. c = Bind pr a i) \<or> c = Listen"

definition changes_ids :: "syscall \<Rightarrow> bool" where
  "changes_ids c \<longleftrightarrow> (\<exists>u. c = Setuid u) \<or> (\<exists>g. c = Setgid g)"

lemma ids_after_append [simp]: "ids_after ids (xs @ ys) = ids_after (ids_after ids xs) ys"
  by (induction ids xs rule: ids_after.induct) simp_all

lemma ids_after_quiet: "(\<And>c. Done c \<in> set es \<Longrightarrow> \<not> changes_ids c) \<Longrightarrow> ids_after ids es = ids"
proof (induction ids es rule: ids_after.induct)
qed (auto simp: changes_ids_def)

text \<open>The identity the configuration asks for.\<close>

definition server_ids :: "os \<Rightarrow> config \<Rightarrow> (int \<times> int) option" where
  "server_ids os conf =
     (case (string_or (Some []) ''username'' conf, string_or (Some []) ''groupname'' conf) of
        (Some username, Some groupname) \<Rightarrow>
          (case os_getpwnam os username of
             None \<Rightarrow> None
           | Some (pw_name, uid, pw_gid) \<Rightarrow>
               if groupname = [] then Some (uid, pw_gid)
               else map_option (\<lambda>(gr_name, gid). (uid, gid)) (os_getgrnam os groupname))
      | _ \<Rightarrow> None)"

lemma Log_fatal_ends [simp]: "Log_fatal t p \<noteq> Inr r"
  unfolding Log_fatal_def Let_def by (simp add: bnd_eq_Inr fail_app split: option.split)

lemma attempt_app: "attempt c p = Inr (os_ok (p_os p) (length (p_trace p)) c,
    p\<lparr>p_trace := p_trace p @ [if os_ok (p_os p) (length (p_trace p)) c then Done c else Failed c]\<rparr>)"
  by (simp add: attempt_def bnd_def prog_simps)

lemma attempt_required:
  assumes "bnd (attempt c) (\<lambda>ok. bnd (require ok t) f) p = Inr r"
  shows "f () (p\<lparr>p_trace := p_trace p @ [Done c]\<rparr>) = Inr r"
  using assms
  by (auto simp: bnd_eq_Inr attempt_app require_def ret_app split: if_splits)

lemma attempt_required_last:
  assumes "bnd (attempt c) (\<lambda>ok. require ok t) p = Inr (u, p')"
  shows "p' = p\<lparr>p_trace := p_trace p @ [Done c]\<rparr>"
  using assms
  by (auto simp: bnd_eq_Inr attempt_app require_def ret_app split: if_splits)

lemma change_ids_trace:
  assumes "change_ids name uid gid p = Inr (u, p')"
  shows "p' = p\<lparr>p_trace := p_trace p @ [Done (Initgroups name gid), Done (Setgid gid), Done (Setuid uid)]\<rparr>"
proof -
  let ?p2 = "p\<lparr>p_trace := p_trace p @ [Done (Initgroups name gid), Done (Setgid gid)]\<rparr>"
  have "bnd (attempt (Setuid uid)) (\<lambda>ok. require ok (''setuid() failed: '' @ os_strerror (p_os p))) ?p2 = Inr (u, p')"
    using assms unfolding change_ids_def by (auto dest!: attempt_required)
  from attempt_required_last [OF this] show ?thesis by simp
qed

lemma conf_string_app:
  "string_or (Some []) ''username'' (w_conf (p_world p)) = Some s \<Longrightarrow> conf_string USERNAME p = Inr (s, p)"
  "string_or (Some []) ''groupname'' (w_conf (p_world p)) = Some s \<Longrightarrow> conf_string GROUPNAME p = Inr (s, p)"
  by (simp_all add: conf_string_def bnd_def in_world_def getStrConf_def prog_simps deref_def)

lemma string_or_Some: "\<exists>s. string_or (Some d) path conf = Some s"
  by (simp add: string_or_def split: option.split)

lemma switch_user_ids:
  assumes "switch_user p = Inr (x, p')" and "string_or (Some []) ''username'' (w_conf (p_world p)) = Some u" and "u \<noteq> []"
  obtains uid gid name where "server_ids (p_os p) (w_conf (p_world p)) = Some (uid, gid)"
    and "\<And>Q. since (p_trace p @ [Done (Initgroups name gid), Done (Setgid gid), Done (Setuid uid)]) Q p'"
proof -
  obtain g where g: "string_or (Some []) ''groupname'' (w_conf (p_world p)) = Some g" using string_or_Some by blast
  let ?os = "p_os p"
  have run: "switch_user p =
     (case os_getpwnam ?os u of
        None \<Rightarrow> Log_fatal (''Unknown user '' @ quoted u)
      | Some (pw_name, uid, pw_gid) \<Rightarrow>
          if g = [] then
            bnd (change_ids pw_name uid pw_gid) (\<lambda>_.
            case os_getgrgid ?os pw_gid of
              None \<Rightarrow> Log_fatal (''getgrgid() failed: '' @ os_strerror ?os)
            | Some gr_name \<Rightarrow> Log_info (''Switch to user '' @ quoted pw_name @ '' group '' @ quoted gr_name))
          else
            (case os_getgrnam ?os g of
               None \<Rightarrow> Log_fatal (''Unknown group '' @ quoted g)
             | Some (gr_name, gid) \<Rightarrow>
                 bnd (change_ids pw_name uid gid) (\<lambda>_.
                 Log_info (''Switch to user '' @ quoted pw_name @ '' group '' @ quoted gr_name)))) p"
    using assms(3)
    by (simp add: switch_user_def bnd_def gets_app conf_string_app(1) [OF assms(2)] conf_string_app(2) [OF g])
  obtain name uid pg where pw: "os_getpwnam ?os u = Some (name, uid, pg)"
    using assms(1) unfolding run by (cases "os_getpwnam ?os u") auto
  have quiet: "since (p_trace q) Q p'" if "m q = Inr (x, p')" and "keeps (since (p_trace q) Q) m" for q Q and m :: "(process, unit) prog"
    using keepsD [OF that(2,1)] by (simp add: since_refl)
  show thesis
  proof (cases "g = []")
    case True
    then obtain q where q: "change_ids name uid pg p = Inr ((), q)"
      and rest: "(case os_getgrgid ?os pg of None \<Rightarrow> Log_fatal (''getgrgid() failed: '' @ os_strerror ?os)
        | Some gr_name \<Rightarrow> Log_info (''Switch to user '' @ quoted name @ '' group '' @ quoted gr_name)) q = Inr (x, p')"
      using assms(1) pw unfolding run by (auto elim!: bndE)
    obtain gr where "os_getgrgid ?os pg = Some gr" using rest by (cases "os_getgrgid ?os pg") auto
    with rest have "Log_info (''Switch to user '' @ quoted name @ '' group '' @ quoted gr) q = Inr (x, p')" by simp
    then have "since (p_trace q) Q p'" for Q by (rule quiet) (rule since_intros)
    with True g pw assms(2) change_ids_trace [OF q] show thesis
      by (intro that [of uid pg name]) (simp_all add: server_ids_def)
  next
    case False
    then obtain gr gid where gr: "os_getgrnam ?os g = Some (gr, gid)"
      using assms(1) pw unfolding run by (cases "os_getgrnam ?os g") auto
    with False obtain q where q: "change_ids name uid gid p = Inr ((), q)"
      and rest: "Log_info (''Switch to user '' @ quoted name @ '' group '' @ quoted gr) q = Inr (x, p')"
      using assms(1) pw unfolding run by (auto elim!: bndE)
    have "since (p_trace q) Q p'" for Q using rest by (rule quiet) (rule since_intros)
    with False g pw gr assms(2) change_ids_trace [OF q] show thesis
      by (intro that [of uid gid name]) (simp_all add: server_ids_def)
  qed
qed

lemma read_options_nodaemon:
  "read_options args s p = Inr (s', p') \<Longrightarrow> Opt_d \<notin> set args \<Longrightarrow> s_nodaemon s' = s_nodaemon s"
  by (induction args s arbitrary: p rule: read_options.induct) (auto simp: ret_app fail_app)

lemma read_options_trace: "keeps (\<lambda>p. p_trace p = tr) (read_options args s)"
  by (induction args s rule: read_options.induct) (auto intro!: keeps_intros keeps_modify simp del: bnd_modify)

lemma Conf_init_quiet:
  assumes "Conf_init f p = Inr (u, p')"
  shows "p_trace p' = p_trace p" and "p_os p' = p_os p"
  using assms by (auto simp: Conf_init_def Let_def in_world_def modify_app split: option.splits)

lemma keeps_conf_start_up: "keeps (\<lambda>w. w_conf w = cf) (start_up n)"
  unfolding start_up_def Client_init_def by (intro keeps_intros keeps_conf_Chan_init keeps_modify) simp

lemma in_world_conf: "keeps (\<lambda>w. w_conf w = cf) m \<Longrightarrow> keeps (\<lambda>p. w_conf (p_world p) = cf \<and> p_os p = os) (in_world m)"
  by (rule keepsI) (auto simp: in_world_def dest: keepsD split: sum.splits)

lemma settled_conf: "keeps (settled os w) m \<Longrightarrow> m p = Inr (x, p') \<Longrightarrow> p_os p = os \<Longrightarrow> p_world p = w \<Longrightarrow> p_os p' = os \<and> p_world p' = w"
  using keepsD [of "settled os w" m p x p'] by (simp add: settled_def)

text \<open>Where the network calls of a trace can be when the identity is changed in its middle.\<close>

lemma network_after_change:
  assumes "tr = A @ T @ B" and "\<And>c. Done c \<in> set (A @ T) \<Longrightarrow> \<not> on_network c" and "\<And>c. Done c \<in> set B \<Longrightarrow> \<not> changes_ids c"
    and "tr = xs @ Done c # ys" and "on_network c"
  shows "ids_after ids xs = ids_after ids (A @ T)"
proof -
  have eq: "(A @ T) @ B = xs @ Done c # ys" using assms(1,4) by simp
  then obtain us where us: "A @ T = xs @ us \<and> us @ B = Done c # ys \<or> (A @ T) @ us = xs \<and> B = us @ Done c # ys"
    unfolding append_eq_append_conv2 by blast
  have "us = [] \<or> xs = (A @ T) @ us"
  proof (rule disjCI)
    assume "xs \<noteq> (A @ T) @ us"
    then have h: "A @ T = xs @ us" "us @ B = Done c # ys" using us by auto
    show "us = []"
    proof (rule ccontr)
      assume "us \<noteq> []"
      then have "Done c \<in> set us" using h(2) by (cases us) auto
      then show False using h(1) assms(2,5) by auto
    qed
  qed
  moreover have "ids_after ids ((A @ T) @ us) = ids_after ids (A @ T)" if "xs = (A @ T) @ us"
  proof -
    have "B = us @ Done c # ys" using eq that by simp
    then have "\<And>c. Done c \<in> set us \<Longrightarrow> \<not> changes_ids c" using assms(3) by auto
    then show ?thesis using ids_after_quiet by simp
  qed
  ultimately show ?thesis using us by auto
qed

lemma start_as_daemon:
  assumes "become_daemon s p = Inr (x, p')" and "\<not> s_nodaemon s"
    and "string_or (Some []) ''username'' (w_conf (p_world p)) = Some u" and "u \<noteq> []"
  obtains uid gid name A B where "server_ids (p_os p) (w_conf (p_world p)) = Some (uid, gid)"
    and "p_trace p' = p_trace p @ A @ [Done (Initgroups name gid), Done (Setgid gid), Done (Setuid uid)] @ B"
    and "\<And>c. Done c \<in> set A \<Longrightarrow> \<not> on_network c \<and> \<not> changes_ids c"
    and "\<And>c. Done c \<in> set B \<Longrightarrow> \<not> changes_ids c"
proof -
  let ?Q = "\<lambda>c. \<not> on_network c \<and> \<not> changes_ids c"
  let ?first = "block [daemonize, Log_init False, case s_pidfile s of None \<Rightarrow> ret () | Some f \<Rightarrow> lockfile f]"
  have run: "become_daemon s = bnd ?first (\<lambda>_. bnd switch_user (\<lambda>_. Log_reset))"
    using assms(2) by (simp add: become_daemon_def bnd_assoc)
  obtain p1 where p1: "?first p = Inr ((), p1)" and r1: "bnd switch_user (\<lambda>_. Log_reset) p1 = Inr (x, p')"
    using assms(1) unfolding run by (auto elim: bndE)
  obtain p2 where p2: "switch_user p1 = Inr ((), p2)" and r2: "Log_reset p2 = Inr (x, p')"
    using r1 by (auto elim: bndE)
  have log: "?Q c" if "log_call c" for c using that by (auto simp: log_call_def on_network_def changes_ids_def)
  have q: "?Q Fork" "?Q (Open_pidfile f)" "?Q Lockf" "?Q Ftruncate" "?Q (Write_pid t)" for f t
    by (simp_all add: on_network_def changes_ids_def)
  have "keeps (since (p_trace p) ?Q) ?first"
    by (intro keeps_intros since_intros since_daemonize since_lockfile log q)
  from keepsD [OF this p1] obtain A where A: "p_trace p1 = p_trace p @ A" "\<And>c. Done c \<in> set A \<Longrightarrow> ?Q c"
    by (auto simp: since_def)
  have "keeps (settled (p_os p) (p_world p)) ?first" by (intro keeps_intros settled_intros)
  from settled_conf [OF this p1] have same: "p_os p1 = p_os p" "p_world p1 = p_world p" by simp_all
  have "string_or (Some []) ''username'' (w_conf (p_world p1)) = Some u" using assms(3) same by simp
  from switch_user_ids [OF p2 this assms(4)] obtain uid gid name where
    ids: "server_ids (p_os p) (w_conf (p_world p)) = Some (uid, gid)"
    and sw: "\<And>Q. since (p_trace p1 @ [Done (Initgroups name gid), Done (Setgid gid), Done (Setuid uid)]) Q p2"
    unfolding same by blast
  have "keeps (since base ?Q) Log_reset" for base by (intro since_intros log)
  from keepsD [OF this r2 sw [of ?Q]] obtain B where
    "p_trace p' = (p_trace p1 @ [Done (Initgroups name gid), Done (Setgid gid), Done (Setuid uid)]) @ B" "\<And>c. Done c \<in> set B \<Longrightarrow> ?Q c"
    by (auto simp: since_def)
  with A ids show thesis by (intro that [of uid gid A name B]) simp_all
qed

lemma open_tcp_listens: "open_tcp addr port p = Inr (x, p') \<Longrightarrow> Done Listen \<in> set (p_trace p')"
  unfolding open_tcp_def by (auto dest!: attempt_required attempt_required_last)

lemma open_sockets_listens:
  assumes "open_sockets p = Inr (x, p')"
  shows "Done Listen \<in> set (p_trace p')"
proof -
  obtain addr port q1 q2 where t: "open_tcp addr port q1 = Inr ((), q2)"
    and r: "block [open_udp addr port, Log_info (''uMurmur version '' @ UMURMUR_VERSION @ '' protocol version 1.2.3''),
        Log_info ''Visit http://code.google.com/p/umurmur/''] q2 = Inr (x, p')"
    using assms unfolding open_sockets_def by (auto simp: bnd_eq_Inr)
  have "keeps (since (p_trace q2) (\<lambda>_. True)) (open_udp addr port)"
    unfolding open_udp_def set_tos_def by (intro keeps_intros since_intros) simp_all
  then have "keeps (since (p_trace q2) (\<lambda>_. True)) (block [open_udp addr port,
      Log_info (''uMurmur version '' @ UMURMUR_VERSION @ '' protocol version 1.2.3''),
      Log_info ''Visit http://code.google.com/p/umurmur/''])"
    by (intro keeps_intros since_intros)
  from keepsD [OF this r] have "since (p_trace q2) (\<lambda>_. True) p'" by (simp add: since_refl)
  with open_tcp_listens [OF t] show ?thesis by (auto simp: since_def)
qed

lemma conf_kept:
  assumes "\<And>os w. keeps (settled os w) m"
  shows "keeps (\<lambda>p. w_conf (p_world p) = cf \<and> p_os p = os) m"
proof (rule keepsI)
  fix p x p' assume I: "w_conf (p_world p) = cf \<and> p_os p = os" and run: "m p = Inr (x, p')"
  from settled_conf [OF assms run refl refl] I show "w_conf (p_world p') = cf \<and> p_os p' = os" by simp
qed

lemma set_up_trace:
  assumes "set_up n s p = Inr (places, p')"
  shows "since (p_trace p) (\<lambda>c. \<not> changes_ids c) p'" and "Done Listen \<in> set (p_trace p')" and "w_conf (p_world p') = w_conf (p_world p)"
proof -
  have l: "\<not> changes_ids c" if "log_call c" for c using that by (auto simp: log_call_def changes_ids_def)
  have q: "\<not> changes_ids SSL_setup" "\<not> changes_ids Sched_setscheduler" "\<not> changes_ids (Socket pr)" "\<not> changes_ids Setsockopt_reuseaddr"
    "\<not> changes_ids (Bind pr a i)" "\<not> changes_ids Listen" "\<not> changes_ids (Setsockopt_tos v)" for pr a i v
    by (simp_all add: changes_ids_def)
  have "keeps (since (p_trace p) (\<lambda>c. \<not> changes_ids c)) (set_up n s)"
    unfolding set_up_def identify_def split_def
    by (intro keeps_intros since_intros since_setscheduler since_open_sockets l q)
  from keepsD [OF this assms] show "since (p_trace p) (\<lambda>c. \<not> changes_ids c) p'" by (simp add: since_refl)
  show "Done Listen \<in> set (p_trace p')"
    using assms unfolding set_up_def by (auto simp: bnd_eq_Inr ret_app dest: open_sockets_listens)
  let ?I = "\<lambda>q. w_conf (p_world q) = w_conf (p_world p) \<and> p_os q = p_os p"
  have "keeps ?I (set_up n s)"
    unfolding set_up_def identify_def split_def
    by (intro keeps_intros in_world_conf keeps_conf_start_up keeps_modify settled_attempt [THEN conf_kept]
        settled_require [THEN conf_kept] settled_setscheduler [THEN conf_kept] settled_open_sockets [THEN conf_kept]) simp
  from keepsD [OF this assms] show "w_conf (p_world p') = w_conf (p_world p)" by simp
qed

lemma prepare_ids:
  assumes "prepare n args p = Inr (r, p')" and "p_trace p = []" and "Opt_d \<notin> set args"
    and "string_or (Some []) ''username'' (w_conf (p_world p')) = Some u" and "u \<noteq> []"
  shows "\<exists>ids. server_ids (p_os p) (w_conf (p_world p')) = Some ids \<and> Done Listen \<in> set (p_trace p') \<and>
    (\<forall>xs c ys. p_trace p' = xs @ Done c # ys \<and> on_network c \<longrightarrow> ids_after (0, 0) xs = ids)"
proof -
  obtain s p1 p2 p3 places where o1: "read_options args \<lparr>s_nodaemon = False, s_realtime = False, s_conffile = None, s_pidfile = None\<rparr> p = Inr (s, p1)"
    and o2: "Conf_init (s_conffile s) p1 = Inr ((), p2)" and o3: "become_daemon s p2 = Inr ((), p3)"
    and o4: "set_up n s p3 = Inr (places, p')"
    using assms(1) unfolding prepare_def bnd_eq_Inr by (auto simp: bnd_eq_Inr ret_app)
  have nd: "\<not> s_nodaemon s" using read_options_nodaemon [OF o1 assms(3)] by simp
  have t2: "p_trace p2 = []" and os2: "p_os p2 = p_os p"
    using keepsD [OF read_options_trace o1] Conf_init_quiet [OF o2] assms(2)
      settled_conf [OF settled_read_options o1 refl refl] by simp_all
  have c3: "p_os p3 = p_os p2" "p_world p3 = p_world p2"
    using settled_conf [OF settled_become_daemon o3 refl refl] by simp_all
  note fin = set_up_trace [OF o4]
  have un: "string_or (Some []) ''username'' (w_conf (p_world p2)) = Some u" using assms(4) fin(3) c3 by simp
  obtain uid gid name A B where
    raw: "server_ids (p_os p2) (w_conf (p_world p2)) = Some (uid, gid)"
      "p_trace p3 = p_trace p2 @ A @ [Done (Initgroups name gid), Done (Setgid gid), Done (Setuid uid)] @ B"
    and A: "\<And>c. Done c \<in> set A \<Longrightarrow> \<not> on_network c \<and> \<not> changes_ids c"
    and B: "\<And>c. Done c \<in> set B \<Longrightarrow> \<not> changes_ids c"
    by (rule start_as_daemon [OF o3 nd un assms(5)]) (rule that)
  have ids: "server_ids (p_os p) (w_conf (p_world p')) = Some (uid, gid)"
    and tr: "p_trace p3 = A @ [Done (Initgroups name gid), Done (Setgid gid), Done (Setuid uid)] @ B"
    using raw fin(3) c3 os2 t2 by simp_all
  obtain C where C: "p_trace p' = p_trace p3 @ C" "\<And>c. Done c \<in> set C \<Longrightarrow> \<not> changes_ids c"
    using fin(1) by (auto simp: since_def)
  let ?T = "[Done (Initgroups name gid), Done (Setgid gid), Done (Setuid uid)]"
  have "ids_after (0, 0) xs = (uid, gid)" if "p_trace p' = xs @ Done c # ys" "on_network c" for xs c ys
  proof -
    have "ids_after (0, 0) xs = ids_after (0, 0) (A @ ?T)"
    proof (rule network_after_change [OF _ _ _ that])
      show "p_trace p' = A @ ?T @ (B @ C)" by (simp add: C(1) tr)
      have "\<not> on_network (Initgroups name gid)" "\<not> on_network (Setgid gid)" "\<not> on_network (Setuid uid)"
        by (simp_all add: on_network_def)
      then show "\<not> on_network d" if "Done d \<in> set (A @ ?T)" for d using that A by auto
      show "\<not> changes_ids d" if "Done d \<in> set (B @ C)" for d using that B C(2) by auto
    qed
    also have "\<dots> = (uid, gid)" using ids_after_quiet [of A "(0, 0)"] A by simp
    finally show ?thesis .
  qed
  with ids fin(2) show ?thesis by blast
qed

section \<open>The server inside the process\<close>

lemma identify_boot:
  assumes "identify p = Inr (u, p')" and "p_world p = boot_world x t cf now"
  shows "\<exists>x'. p_world p' = boot_world x' t cf now \<and> (ext_ok x \<longrightarrow> ext_ok x')"
  using assms
  by (auto simp: identify_def in_world_def modify_app boot_world_def ext_ok_def split_def bnd_def gets_app
      intro!: exI [of _ "x\<lparr>system_string := fst (system_strings (p_os p)), version_string := snd (system_strings (p_os p))\<rparr>"])

lemma set_up_reachable:
  assumes "set_up n s p = Inr (places, p')" and "p_world p = boot_world x t cf now" and "ext_ok x"
  shows "\<exists>x'. ext_ok x' \<and> reachable x' t cf places (Timer_init later) (p_world p')"
proof -
  obtain p1 p2 p3 p4 p5 where i: "identify p = Inr ((), p1)"
    and a: "bnd (attempt SSL_setup) (\<lambda>ok. require ok ''Failed to initialize cert'') p1 = Inr ((), p2)"
    and st: "in_world (start_up n) p2 = Inr (places, p3)"
    and sc: "guarded (s_realtime s) setscheduler p3 = Inr ((), p4)" and so: "open_sockets p4 = Inr ((), p')"
    using assms(1) unfolding set_up_def by (auto simp: bnd_eq_Inr ret_app)
  obtain x' where x': "p_world p1 = boot_world x' t cf now" "ext_ok x'"
    using identify_boot [OF i assms(2)] assms(3) by blast
  have "p_world p2 = p_world p1" using attempt_required_last [OF a] by simp
  with st x'(1) have "start_up n (boot_world x' t cf now) = Inr (places, p_world p3)"
    by (auto simp: in_world_def split: sum.splits)
  then have "reachable x' t cf places (Timer_init later) (p_world p3)" by (rule reachable.start)
  moreover have g: "keeps (settled os w) (guarded (s_realtime s) setscheduler)" for os w
    by (intro keeps_intros settled_intros)
  have "p_world p' = p_world p3"
    using settled_conf [OF g sc refl refl] settled_conf [OF settled_open_sockets so refl refl] by simp
  ultimately show ?thesis using x'(2) by auto
qed

lemma settled_signals: "keeps (settled os w) (for_each signals signal_handler)"
proof (intro keeps_intros)
  fix sig show "keeps (settled os w) (signal_handler sig)"
    by (cases sig) (auto simp: Server_shutdown_def intro!: keeps_intros settled_intros)
qed

lemma Server_round_reachable:
  assumes "Server_round n places r timer p = Inr (timer', p')" and "reachable x t cf places timer (p_world p)"
  shows "reachable x t cf places timer' (p_world p')"
proof -
  obtain now signals event where r: "r = (now, signals, event)" by (cases r)
  obtain p1 where s: "for_each signals signal_handler p = Inr ((), p1)"
    and t: "in_world (\<lambda>w. server_turn n places event timer (w\<lparr>w_now := now\<rparr>)) p1 = Inr (timer', p')"
    using assms(1) unfolding r Server_round_def by (auto simp: bnd_eq_Inr)
  have "p_world p1 = p_world p" using settled_conf [OF settled_signals s refl refl] by simp
  with t have "server_turn n places event timer ((p_world p)\<lparr>w_now := now\<rparr>) = Inr (timer', p_world p')"
    by (auto simp: in_world_def split: sum.splits)
  with assms(2) show ?thesis by (rule reachable.turn)
qed

lemma Server_loop_reachable:
  assumes "Server_loop n places rounds timer p = Inr (stopped, p')" and "reachable x t cf places timer (p_world p)"
  shows "\<exists>timer'. reachable x t cf places timer' (p_world p')"
  using assms
proof (induction rounds arbitrary: timer p)
  case Nil
  then show ?case by (auto simp: gets_app)
next
  case (Cons r rs)
  show ?case
  proof (cases "p_shutdown p")
    case True
    with Cons.prems show ?thesis by (auto simp: ret_app)
  next
    case False
    then obtain timer1 p1 where r: "Server_round n places r timer p = Inr (timer1, p1)"
      and rest: "Server_loop n places rs timer1 p1 = Inr (stopped, p')"
      using Cons.prems(1) by (auto simp: bnd_eq_Inr)
    show ?thesis by (rule Cons.IH [OF rest Server_round_reachable [OF r Cons.prems(2)]])
  qed
qed

lemma prepare_reachable:
  assumes "prepare n args p = Inr ((s, places), p')" and "p_world p = boot_world x t cf now" and "ext_ok x"
  shows "\<exists>x' conf. ext_ok x' \<and> reachable x' t conf places (Timer_init later) (p_world p')"
proof -
  obtain p1 p2 p3 where o1: "read_options args \<lparr>s_nodaemon = False, s_realtime = False, s_conffile = None, s_pidfile = None\<rparr> p = Inr (s, p1)"
    and o2: "Conf_init (s_conffile s) p1 = Inr ((), p2)" and o3: "become_daemon s p2 = Inr ((), p3)"
    and o4: "set_up n s p3 = Inr (places, p')"
    using assms(1) unfolding prepare_def bnd_eq_Inr by (auto simp: bnd_eq_Inr ret_app)
  have "p_world p1 = boot_world x t cf now" using settled_conf [OF settled_read_options o1 refl refl] assms(2) by simp
  then obtain conf where "p_world p2 = boot_world x t conf now"
    using o2 by (auto simp: Conf_init_def Let_def in_world_def modify_app boot_world_def split: option.splits)
  then have "p_world p3 = boot_world x t conf now"
    using settled_conf [OF settled_become_daemon o3 refl refl] by simp
  from set_up_reachable [OF o4 this assms(3)] show ?thesis by blast
qed

section \<open>A start without failures\<close>

definition demo_os :: os where
  "demo_os =
     \<lparr>os_ok = (\<lambda>_ _. True), os_getpwnam = [''umurmur'' \<mapsto> (''umurmur'', 100, 101)], os_getgrnam = Map.empty,
      os_getgrgid = [101 \<mapsto> ''nogroup''], os_inet_addr = (\<lambda>_. 0), os_inet_ntoa = (\<lambda>_. ''0.0.0.0''),
      os_read_config = (\<lambda>_. Some demo_conf), os_getppid = 5, os_getpid = 6,
      os_uname = Some (''Linux'', ''mips'', ''2.6''), os_strerror = ''error'', os_lock_held = False,
      os_rr_priority = 1, os_config_error = []\<rparr>"

definition demo_process :: process where
  "demo_process =
     \<lparr>p_world = boot_world demo_ext idle_tls Map.empty 0, p_os = demo_os, p_trace = [], p_termprint = False,
      p_loginit = False, p_logfile = None, p_bindport = 0, p_bindaddr = None, p_shutdown = False\<rparr>"

lemma demo_os_ok [simp]: "os_ok demo_os i c"
  by (simp add: demo_os_def)

lemma conf_string_runs: "param = BINDADDR \<or> param = USERNAME \<or> param = GROUPNAME \<Longrightarrow> \<exists>s. conf_string param p = Inr (s, p)"
  by (auto simp: conf_string_def bnd_def in_world_def getStrConf_def prog_simps deref_def string_or_def split: option.split)

lemma Log_lines_run: "\<exists>p'. Log_info t p = Inr ((), p') \<and> p_os p' = p_os p" "\<exists>p'. Log_warn t p = Inr ((), p') \<and> p_os p' = p_os p"
  by (simp_all add: Log_info_def Log_warn_def log_line_def put_line_def modify_app split: option.split)

lemma attempt_demo: "p_os p = demo_os \<Longrightarrow> attempt c p = Inr (True, p\<lparr>p_trace := p_trace p @ [Done c]\<rparr>)"
  by (simp add: attempt_app)

lemma bnd_attempt_demo: "p_os p = demo_os \<Longrightarrow> bnd (attempt c) f p = f True (p\<lparr>p_trace := p_trace p @ [Done c]\<rparr>)"
  by (rule bnd_Inr) (rule attempt_demo)

lemma require_True: "require True t = ret ()"
  by (simp add: require_def)

lemma in_world_getIntConf: "in_world (getIntConf BINDPORT) p = Inr (int_or 64738 ''bindport'' (w_conf (p_world p)), p)"
  by (simp add: in_world_def getIntConf_def gets_app)

lemmas demo_run = bnd_attempt_demo attempt_demo require_True in_world_getIntConf bnd_Inr ret_app

lemma open_sockets_demo:
  assumes "p_os p = demo_os"
  shows "\<exists>p'. open_sockets p = Inr ((), p')"
proof -
  obtain port addr where a: "bind_port p = Inr (port, p)" "bind_address p = Inr (addr, p)"
    using conf_string_runs [of BINDADDR p]
    by (auto simp: bind_port_def bind_address_def bnd_def prog_simps in_world_def getIntConf_def)
  let ?l = "Log_info (''Bind to '' @ (if addr = 0 then ''*'' else os_inet_ntoa (p_os p) addr) @ '':'' @ decimal_int port)"
  obtain p1 where p1: "?l p = Inr ((), p1)" "p_os p1 = demo_os" using Log_lines_run(1) assms by metis
  obtain p2 where p2: "open_tcp addr port p1 = Inr ((), p2)" "p_os p2 = demo_os"
    using p1(2) by (simp add: open_tcp_def demo_run)
  obtain caddr where c: "conf_string BINDADDR p2 = Inr (caddr, p2)" using conf_string_runs by blast
  obtain p3 where p3: "open_udp addr port p2 = Inr ((), p3)"
    using p2(2) by (simp add: open_udp_def set_tos_def demo_run c)
  obtain p4 where p4: "Log_info (''uMurmur version '' @ UMURMUR_VERSION @ '' protocol version 1.2.3'') p3 = Inr ((), p4)"
    using Log_lines_run(1) by blast
  obtain p5 where p5: "Log_info ''Visit http://code.google.com/p/umurmur/'' p4 = Inr ((), p5)"
    using Log_lines_run(1) by blast
  show ?thesis
    unfolding open_sockets_def
    by (simp add: assms bnd_Inr a p1 p2 p3 p4 p5 del: append_Cons append.simps split del: if_split)
qed

lemma become_daemon_demo:
  assumes "p_os p = demo_os" and "w_conf (p_world p) = demo_conf" and "\<not> s_nodaemon s" and "s_pidfile s = None"
    and "p_logfile p = None"
  shows "\<exists>p'. become_daemon s p = Inr ((), p')"
proof -
  have s: "string_or (Some []) ''username'' demo_conf = Some ''umurmur''" "string_or (Some []) ''groupname'' demo_conf = Some []"
    "string_or None ''logfile'' demo_conf = None"
    by (simp_all add: string_or_def demo_conf_def)
  have o: "os_getpwnam demo_os ''umurmur'' = Some (''umurmur'', 100, 101)" "os_getgrgid demo_os 101 = Some ''nogroup''" "os_getppid demo_os = 5"
    by (simp_all add: demo_os_def)
  have d: "\<exists>q. bnd daemonize (\<lambda>_. Log_init False) p = Inr ((), q) \<and> p_os q = demo_os \<and> p_world q = p_world p \<and> p_logfile q = None"
    using assms(1,2,5) s(3)
    by (simp add: daemonize_def Log_init_def attempt_demo bnd_def prog_simps in_world_def getStrConf_def o)
  then obtain q where q: "bnd daemonize (\<lambda>_. Log_init False) p = Inr ((), q)" "p_os q = demo_os" "p_world q = p_world p" "p_logfile q = None" by blast
  have u: "conf_string USERNAME q = Inr (''umurmur'', q)" "conf_string GROUPNAME q = Inr ([], q)"
    using q(3) assms(2) s by (auto intro!: conf_string_app)
  have "\<exists>q'. switch_user q = Inr ((), q') \<and> p_logfile q' = None"
    using q(2,4)
    by (simp add: switch_user_def change_ids_def u bnd_def prog_simps o attempt_demo require_def
       Log_info_def log_line_def put_line_def)
  then obtain q' where q': "switch_user q = Inr ((), q')" "p_logfile q' = None" by blast
  have "become_daemon s p = bnd (bnd daemonize (\<lambda>_. Log_init False)) (\<lambda>_. bnd switch_user (\<lambda>_. Log_reset)) p"
    using assms(3,4) by (simp add: become_daemon_def bnd_assoc)
  then show ?thesis using q q' by (simp add: bnd_Inr Log_reset_def prog_simps)
qed

section \<open>Stopping\<close>

lemma signal_sets_shutdown:
  assumes "for_each signals signal_handler p = Inr (u, p')"
  shows "p_shutdown p' \<longleftrightarrow> p_shutdown p \<or> SIGTERM \<in> set signals"
  using assms
proof (induction signals arbitrary: p)
  case Nil
  then show ?case by (simp add: ret_app)
next
  case (Cons sig signals)
  obtain q where q: "signal_handler sig p = Inr ((), q)" and r: "for_each signals signal_handler q = Inr (u, p')"
    using Cons.prems by (auto elim: bndE)
  have w: "keeps (\<lambda>p. p_shutdown p = b) (in_world m)" for b and m :: "(world, string option) prog"
    by (rule keepsI) (auto simp: in_world_def split: sum.splits)
  have log: "keeps (\<lambda>p. p_shutdown p = b) (Log_info t)" "keeps (\<lambda>p. p_shutdown p = b) Log_reset" for b t
    unfolding Log_info_def Log_reset_def log_line_def put_line_def openlogfile_def attempt_def Log_fatal_def Let_def
    by (intro keeps_intros keeps_modify w; simp)+
  have "p_shutdown q \<longleftrightarrow> p_shutdown p \<or> sig = SIGTERM"
  proof (cases sig)
    case SIGHUP
    then have "block [Log_info ''HUP signal received.'', Log_reset] p = Inr ((), q)" using q by simp
    moreover have "keeps (\<lambda>p'. p_shutdown p' = p_shutdown p) (block [Log_info ''HUP signal received.'', Log_reset])"
      by (intro keeps_intros log)
    ultimately show ?thesis using keepsD SIGHUP by fastforce
  next
    case SIGTERM
    then show ?thesis using q by (auto simp: Server_shutdown_def bnd_eq_Inr modify_app)
  qed
  with Cons.IH [OF r] show ?case by auto
qed

lemma in_world_shutdown: "in_world m p = Inr (x, p') \<Longrightarrow> p_shutdown p' = p_shutdown p"
  by (auto simp: in_world_def split: sum.splits)

lemma Server_round_shutdown:
  assumes "Server_round n places (now, signals, event) timer p = Inr (timer', p')"
  shows "p_shutdown p' \<longleftrightarrow> p_shutdown p \<or> SIGTERM \<in> set signals"
  using assms unfolding Server_round_def
  by (auto simp: bnd_eq_Inr dest!: in_world_shutdown signal_sets_shutdown)

lemma Server_loop_ends:
  assumes "SIGTERM \<in> set signals"
  shows "Server_loop n places (before @ (now, signals, event) # later) timer =
    Server_loop n places (before @ [(now, signals, event)]) timer"
proof (induction before arbitrary: timer)
  case Nil
  show ?case
  proof
    fix p
    have "Server_loop n places later timer' p' = gets p_shutdown p'"
      if "Server_round n places (now, signals, event) timer p = Inr (timer', p')" for timer' p'
      using Server_round_shutdown [OF that] assms by (cases later) (simp_all add: prog_simps)
    then show "Server_loop n places ([] @ (now, signals, event) # later) timer p = Server_loop n places ([] @ [(now, signals, event)]) timer p"
      by (auto simp: bnd_def prog_simps split: sum.split)
  qed
next
  case (Cons r before)
  have "Server_loop n places (before @ (now, signals, event) # later) = Server_loop n places (before @ [(now, signals, event)])"
    by (rule ext) (rule Cons.IH)
  then show ?case by (simp cong: if_cong)
qed

lemma Server_loop_stopped:
  assumes "SIGTERM \<in> set signals"
    and "Server_loop n places (before @ [(now, signals, event)]) timer p = Inr (stopped, p')"
  shows "stopped \<and> p_shutdown p'"
  using assms(2)
proof (induction before arbitrary: timer p)
  case Nil
  then show ?case using assms(1) by (auto simp: bnd_eq_Inr prog_simps dest!: Server_round_shutdown split: if_splits)
next
  case (Cons r before)
  then show ?case by (auto simp: bnd_eq_Inr prog_simps split: if_splits)
qed

section \<open>The start of the demonstration\<close>

lemma demo_prepare:
  assumes "args \<in> {[], [Opt_d]}"
  shows "\<exists>s p. prepare 3 args demo_process = Inr ((s, 6), p) \<and> w_conf (p_world p) = demo_conf \<and> p_os p = demo_os \<and>
    w_clients (p_world p) = [] \<and> w_now (p_world p) = 0"
proof -
  let ?s = "\<lparr>s_nodaemon = Opt_d \<in> set args, s_realtime = False, s_conffile = None, s_pidfile = None\<rparr>"
  let ?p1 = "demo_process\<lparr>p_world := boot_world demo_ext idle_tls demo_conf 0\<rparr>"
  have o: "read_options args \<lparr>s_nodaemon = False, s_realtime = False, s_conffile = None, s_pidfile = None\<rparr> demo_process = Inr (?s, demo_process)"
    using assms by (auto simp: ret_app)
  have c: "Conf_init None demo_process = Inr ((), ?p1)"
    by (simp add: Conf_init_def demo_process_def demo_os_def in_world_def modify_app boot_world_def)
  have "\<exists>p2. become_daemon ?s ?p1 = Inr ((), p2)"
  proof (cases "args = []")
    case True
    then show ?thesis by (intro become_daemon_demo) (simp_all add: demo_process_def boot_world_def)
  next
    case False
    then show ?thesis using assms by (simp add: become_daemon_def Log_init_def prog_simps)
  qed
  then obtain p2 where b: "become_daemon ?s ?p1 = Inr ((), p2)" by blast
  have p2: "p_os p2 = demo_os" "p_world p2 = boot_world demo_ext idle_tls demo_conf 0"
    using settled_conf [OF settled_become_daemon b refl refl] by (simp_all add: demo_process_def)
  let ?x = "demo_ext\<lparr>system_string := ''Linux mips'', version_string := ''2.6''\<rparr>"
  have i: "identify p2 = Inr ((), p2\<lparr>p_world := boot_world ?x idle_tls demo_conf 0\<rparr>)"
    by (simp add: identify_def p2 system_strings_def demo_os_def cut_def in_world_def modify_app boot_world_def)
  obtain w where w: "start_up 3 (boot_world ?x idle_tls demo_conf 0) = Inr (6, w)" "w_clients w = []" "w_now w = 0"
    using demo_boot by blast
  let ?p3 = "p2\<lparr>p_trace := p_trace p2 @ [Done SSL_setup], p_world := w\<rparr>"
  obtain p4 where s: "open_sockets ?p3 = Inr ((), p4)" using open_sockets_demo [of ?p3] p2(1) by auto
  have p4: "p_os p4 = demo_os" "p_world p4 = w"
    using settled_conf [OF settled_open_sockets s refl refl] p2(1) by simp_all
  have "set_up 3 ?s p2 = Inr (6, p4)"
    by (simp add: set_up_def bnd_Inr i demo_run p2(1) in_world_def w(1) guarded_app s)
  with o c b have run: "prepare 3 args demo_process = Inr ((?s, 6), p4)"
    by (simp add: prepare_def bnd_Inr prog_simps)
  have "w_conf w = demo_conf"
    using keepsD [OF keeps_conf_start_up w(1)] by (simp add: boot_world_def)
  then show ?thesis using run p4 w(2,3) by auto
qed

section \<open>Properties\<close>

text \<open>C7: Started as a daemon with a user configured, the program listens, and it makes every call that opens,
  binds or listens on a socket with the user and group of the configuration: no network call
  happens before the privileges are given up, and no later call changes them.\<close>

theorem network_only_unprivileged:
  assumes "prepare n args p = Inr (r, p')" and "p_trace p = []" and "Opt_d \<notin> set args"
    and "string_or (Some []) ''username'' (w_conf (p_world p')) = Some u" and "u \<noteq> []"
  shows "\<exists>ids. server_ids (p_os p) (w_conf (p_world p')) = Some ids \<and> Done Listen \<in> set (p_trace p') \<and>
    (\<forall>xs c ys. p_trace p' = xs @ Done c # ys \<and> on_network c \<longrightarrow> ids_after (0, 0) xs = ids)"
  using assms by (rule prepare_ids)

theorem network_only_unprivileged_witness:
  "\<exists>r p'. prepare 3 [] demo_process = Inr (r, p') \<and> Done Listen \<in> set (p_trace p') \<and>
    (\<forall>xs c ys. p_trace p' = xs @ Done c # ys \<and> on_network c \<longrightarrow> ids_after (0, 0) xs = (100, 101))"
proof -
  obtain s p' where run: "prepare 3 [] demo_process = Inr ((s, 6), p')" and cf: "w_conf (p_world p') = demo_conf"
    using demo_prepare [of "[]"] by blast
  have i: "p_trace demo_process = []" "Opt_d \<notin> set []" "''umurmur'' \<noteq> []" by (simp_all add: demo_process_def)
  have u: "string_or (Some []) ''username'' (w_conf (p_world p')) = Some ''umurmur''"
    unfolding cf by (simp add: string_or_def demo_conf_def)
  have "server_ids (p_os demo_process) demo_conf = Some (100, 101)"
    by (simp add: server_ids_def string_or_def demo_conf_def demo_process_def demo_os_def)
  with network_only_unprivileged [OF run i(1,2) u i(3)] run show ?thesis unfolding cf by auto
qed

text \<open>C8: From the command line on, whatever the files, the operating system, the clients and the signals
  do: when the program gets as far as its loop, the server's state satisfies the invariant
  there, and after every number of rounds.\<close>

theorem program_keeps_invariant:
  assumes "ext_ok x" and "p_world p = boot_world x t cf now"
    and "prepare n args p = Inr ((s, places), p1)"
    and "Server_loop n places rounds (Timer_init later) p1 = Inr (stopped, p2)"
  shows "inv {} (p_world p1) \<and> inv {} (p_world p2)"
  using prepare_reachable [OF assms(3,2,1)] Server_loop_reachable [OF assms(4)] reachable_inv by blast

theorem program_keeps_invariant_witness:
  "\<exists>s p1 stopped p2. prepare 3 [Opt_d] demo_process = Inr ((s, 6), p1) \<and>
     Server_loop 3 6 [(0, [SIGTERM], PollInterrupted)] (Timer_init 0) p1 = Inr (stopped, p2) \<and> inv {} (p_world p2)"
proof -
  obtain s p1 where run: "prepare 3 [Opt_d] demo_process = Inr ((s, 6), p1)"
    and w: "w_clients (p_world p1) = []" "w_now (p_world p1) = 0"
    using demo_prepare [of "[Opt_d]"] by auto
  obtain q where q: "for_each [SIGTERM] signal_handler p1 = Inr ((), q)"
    using Log_lines_run(1) [of "''TERM signal. Shutting down.''" p1]
    by (auto simp: Server_shutdown_def bnd_Inr prog_simps)
  have same: "p_world q = p_world p1" using settled_conf [OF settled_signals q refl refl] by simp
  have due: "\<not> poll_timeout 0 (Timer_init 0) \<le> 0"
    by (simp add: poll_timeout_def Timer_elapsed_def Timer_init_def)
  have t: "server_turn 3 6 PollInterrupted (Timer_init 0) ((p_world q)\<lparr>w_now := 0\<rparr>) = Inr (Timer_init 0, p_world p1)"
    using due w unfolding same
    by (simp add: server_turn_def Client_getfds_def bnd_Inr Let_def prog_simps serve_def)
  have "\<exists>stopped p2. Server_loop 3 6 [(0, [SIGTERM], PollInterrupted)] (Timer_init 0) p1 = Inr (stopped, p2)"
    by (simp add: Server_round_def bnd_Inr q [simplified] in_world_def t prog_simps) blast
  then obtain stopped p2 where l: "Server_loop 3 6 [(0, [SIGTERM], PollInterrupted)] (Timer_init 0) p1 = Inr (stopped, p2)"
    by blast
  have "p_world demo_process = boot_world demo_ext idle_tls Map.empty 0" by (simp add: demo_process_def)
  from program_keeps_invariant [OF demo_ext_ok this run l] run l show ?thesis by blast
qed

text \<open>A round in which \<open>SIGTERM\<close> arrives is the last one, whatever would have come afterwards, and the
  loop is left after it.\<close>

theorem term_signal_ends_loop:
  assumes "SIGTERM \<in> set signals"
  shows "Server_loop n places (before @ (now, signals, event) # later) timer =
      Server_loop n places (before @ [(now, signals, event)]) timer \<and>
    (\<forall>p stopped p'. Server_loop n places (before @ [(now, signals, event)]) timer p = Inr (stopped, p') \<longrightarrow> stopped)"
  using Server_loop_ends [OF assms] Server_loop_stopped [OF assms] by blast

theorem term_signal_ends_loop_witness:
  "Server_loop 3 6 ([] @ (0, [SIGHUP, SIGTERM], PollInterrupted) # [(1, [], PollError)]) (Timer_init 0) =
   Server_loop 3 6 [(0, [SIGHUP, SIGTERM], PollInterrupted)] (Timer_init 0)"
  using term_signal_ends_loop [of "[SIGHUP, SIGTERM]" 3 6 "[]" 0 PollInterrupted "[(1, [], PollError)]" "Timer_init 0"] by simp

end
